(* ===== verification/Prelude.thy ===== *)
theory Prelude
  imports Main "HOL-Library.AList" "HOL-Library.Multiset" "HOL-Library.Word"
    "HOL-Library.List_Lexorder" "HOL-Library.Char_ord"
begin

text \<open>
  What every component shares.

  \<^item> The result of a fallible Rust function is a sum: \<open>Err e\<close> is \<^verbatim>\<open>Err(e)\<close> and
    \<open>Ok x\<close> is \<^verbatim>\<open>Ok(x)\<close>.
  \<^item> A \<^verbatim>\<open>DashMap\<close> or \<^verbatim>\<open>HashMap\<close> is an association list whose keys are distinct. Its
    order stands for the unspecified iteration order of the Rust map: every theorem holds for
    whatever order the list happens to have. The contract the code relies on is the locale
    \<open>dash_map\<close>, interpreted on the association lists at the end of this theory.
  \<^item> \<open>sorted_entries\<close> is the ordering step (\<^verbatim>\<open>sort_unstable_by_key(|(k, _)| *k)\<close>)
    that the code applies to a map before it reads it as a sequence.
  \<^item> Big- and little-endian byte codecs for the fixed-width integers of the binary formats.
\<close>

named_theorems dmap_simps "lookup laws of the map operations"

section \<open>Results\<close>

type_synonym ('e, 'a) result = "'e + 'a"

abbreviation Err :: "'e \<Rightarrow> ('e, 'a) result" where
  "Err \<equiv> Inl"

abbreviation Ok :: "'a \<Rightarrow> ('e, 'a) result" where
  "Ok \<equiv> Inr"

definition is_ok :: "('e, 'a) result \<Rightarrow> bool" where
  "is_ok r = (case r of Inl _ \<Rightarrow> False | Inr _ \<Rightarrow> True)"

lemma is_ok_simps [simp]: "is_ok (Ok x)" "\<not> is_ok (Err e)"
  by (simp_all add: is_ok_def)

lemma is_ok_iff: "is_ok r \<longleftrightarrow> (\<exists>x. r = Ok x)"
  by (cases r) auto

section \<open>Maps with distinct keys\<close>

type_synonym ('k, 'v) dmap = "('k \<times> 'v) list"

abbreviation dkeys :: "('k, 'v) dmap \<Rightarrow> 'k list" where
  "dkeys m \<equiv> map fst m"

abbreviation dmap_ok :: "('k, 'v) dmap \<Rightarrow> bool" where
  "dmap_ok m \<equiv> distinct (dkeys m)"

definition contains_key :: "('k, 'v) dmap \<Rightarrow> 'k \<Rightarrow> bool" where
  "contains_key m k \<longleftrightarrow> map_of m k \<noteq> None"

text \<open>\<^verbatim>\<open>get_mut\<close>: update the value at a key in place, when the key is present.\<close>

definition modify_entry :: "'k \<Rightarrow> ('v \<Rightarrow> 'v) \<Rightarrow> ('k, 'v) dmap \<Rightarrow> ('k, 'v) dmap" where
  "modify_entry k f m = map (\<lambda>(k', v). (k', if k' = k then f v else v)) m"

text \<open>\<^verbatim>\<open>iter_mut\<close>: update every value in place.\<close>

definition map_values :: "('k \<Rightarrow> 'v \<Rightarrow> 'w) \<Rightarrow> ('k, 'v) dmap \<Rightarrow> ('k, 'w) dmap" where
  "map_values f m = map (\<lambda>(k, v). (k, f k v)) m"

locale dash_map =
  fixes get :: "'m \<Rightarrow> 'k \<Rightarrow> 'v option"
    and put :: "'k \<Rightarrow> 'v \<Rightarrow> 'm \<Rightarrow> 'm"
    and del :: "'k \<Rightarrow> 'm \<Rightarrow> 'm"
    and keys :: "'m \<Rightarrow> 'k list"
    and ok :: "'m \<Rightarrow> bool"
  assumes get_put: "get (put k v m) = (get m)(k \<mapsto> v)"
    and get_del: "get (del k m) = (get m)(k := None)"
    and keys_get: "set (keys m) = dom (get m)"
    and ok_put: "ok m \<Longrightarrow> ok (put k v m)"
    and ok_del: "ok m \<Longrightarrow> ok (del k m)"
begin

lemma get_put_same: "get (put k v m) k = Some v"
  by (simp add: get_put)

lemma get_put_other: "k' \<noteq> k \<Longrightarrow> get (put k v m) k' = get m k'"
  by (simp add: get_put)

lemma get_del_same: "get (del k m) k = None"
  by (simp add: get_del)

lemma get_del_other: "k' \<noteq> k \<Longrightarrow> get (del k m) k' = get m k'"
  by (simp add: get_del)

lemma keys_put: "set (keys (put k v m)) = insert k (set (keys m))"
  by (simp add: keys_get get_put)

lemma keys_del: "set (keys (del k m)) = set (keys m) - {k}"
  by (auto simp: keys_get get_del)

text \<open>Inserting under fresh keys in sequence: the \<^verbatim>\<open>for (idx, eid) in .. { insert }\<close> loops.\<close>

lemma ok_fold_put: "ok m \<Longrightarrow> ok (fold (\<lambda>(k, v). put k v) kvs m)"
  by (induction kvs arbitrary: m) (auto simp: ok_put)

lemma ok_fold_del: "ok m \<Longrightarrow> ok (fold del ks m)"
  by (induction ks arbitrary: m) (auto simp: ok_del)

lemma get_fold_del: "get (fold del ks m) k = (if k \<in> set ks then None else get m k)"
  by (induction ks arbitrary: m) (auto simp: get_del)

lemma keys_fold_put: "set (keys (fold (\<lambda>(k, v). put k v) kvs m)) = set (keys m) \<union> fst ` set kvs"
  by (induction kvs arbitrary: m) (auto simp: keys_put)

lemma get_fold_put:
  "get (fold (\<lambda>(k, v). put k v) kvs m) k =
     (if k \<in> fst ` set kvs then map_of (rev kvs) k else get m k)"
proof (induction kvs arbitrary: m)
  case Nil
  then show ?case by simp
next
  case (Cons kv kvs)
  obtain a b where kv: "kv = (a, b)" by (cases kv)
  have none: "map_of (rev kvs) k = None \<longleftrightarrow> k \<notin> fst ` set kvs"
    by (simp add: map_of_eq_None_iff)
  show ?case
    using none by (auto simp: kv Cons.IH get_put map_add_def split: option.splits)
qed

end

lemma dom_map_of_keys: "set (dkeys m) = dom (map_of m)"
  by (simp add: dom_map_of_conv_image_fst)

interpretation dm: dash_map map_of AList.update AList.delete "map fst" "\<lambda>m. distinct (map fst m)"
  by unfold_locales
    (simp_all add: update_conv' delete_conv' dom_map_of_conv_image_fst distinct_update distinct_delete)

declare dm.get_put_same [simp, dmap_simps] dm.get_del_same [simp, dmap_simps]
declare dm.get_put [dmap_simps] dm.get_del [dmap_simps] dm.get_fold_del [dmap_simps]
declare dm.ok_put [simp] dm.ok_del [simp] dm.ok_fold_put [simp] dm.ok_fold_del [simp]

lemma map_of_modify_entry [dmap_simps]:
  "map_of (modify_entry k f m) k' =
     (if k' = k then map_option f (map_of m k) else map_of m k')"
  by (induction m) (auto simp: modify_entry_def)

lemma dkeys_modify_entry [simp]: "dkeys (modify_entry k f m) = dkeys m"
  by (induction m) (auto simp: modify_entry_def)

lemma map_of_map_values [dmap_simps]:
  "map_of (map_values f m) k = map_option (f k) (map_of m k)"
  by (induction m) (auto simp: map_values_def)

lemma dkeys_map_values [simp]: "dkeys (map_values f m) = dkeys m"
  by (induction m) (auto simp: map_values_def)

lemma contains_key_iff: "contains_key m k \<longleftrightarrow> k \<in> set (dkeys m)"
  by (simp add: contains_key_def map_of_eq_None_iff)

lemma dmap_ok_filter [simp]: "dmap_ok m \<Longrightarrow> dmap_ok (filter P m)"
  by (induction m) auto

lemma map_of_filter_keys [dmap_simps]:
  "dmap_ok m \<Longrightarrow> map_of (filter (\<lambda>kv. P (fst kv)) m) k = (if P k then map_of m k else None)"
proof (induction m)
  case (Cons kv m)
  then show ?case
    by (cases kv) (force simp: map_of_eq_None_iff)
qed simp

lemma fold_del_filter: "fold AList.delete ks m = filter (\<lambda>kv. fst kv \<notin> set ks) m"
proof (induction ks arbitrary: m)
  case (Cons k ks)
  then show ?case
    by (auto simp: AList.delete_eq filter_filter intro!: filter_cong)
qed simp

lemma set_fold_put:
  "dmap_ok m \<Longrightarrow> distinct (map fst kvs) \<Longrightarrow> (\<forall>(k, v) \<in> set kvs. map_of m k \<in> {None, Some v}) \<Longrightarrow>
   set (fold (\<lambda>(k, v). AList.update k v) kvs m) = set m \<union> set kvs"
proof -
  assume m: "dmap_ok m" and d: "distinct (map fst kvs)"
    and c: "\<forall>(k, v) \<in> set kvs. map_of m k \<in> {None, Some v}"
  have ok: "dmap_ok (fold (\<lambda>(k, v). AList.update k v) kvs m)"
    using m by (rule dm.ok_fold_put)
  have "map_of (fold (\<lambda>(k, v). AList.update k v) kvs m) k = Some v \<longleftrightarrow>
        map_of m k = Some v \<or> (k, v) \<in> set kvs" for k v
  proof (cases "k \<in> fst ` set kvs")
    case True
    then obtain w where w: "(k, w) \<in> set kvs" by auto
    have "distinct (map fst (rev kvs))" using d by (simp add: rev_map [symmetric])
    then have rv: "map_of (rev kvs) k = Some w"
      by (rule map_of_is_SomeI) (simp add: w)
    have u: "(k, v) \<in> set kvs \<longleftrightarrow> v = w"
      using w d by (meson eq_key_imp_eq_value)
    have "map_of m k \<in> {None, Some w}" using w c by blast
    then show ?thesis using True rv u by (auto simp: dm.get_fold_put)
  next
    case False
    then show ?thesis by (auto simp: dm.get_fold_put image_iff)
  qed
  then have "kv \<in> set (fold (\<lambda>(k, v). AList.update k v) kvs m) \<longleftrightarrow> kv \<in> set m \<union> set kvs" for kv
    by (cases kv) (metis Un_iff map_of_eq_Some_iff m ok)
  then show ?thesis by blast
qed

text \<open>Membership in the list and lookup are kept apart: \<open>map_of_eq_Some_iff\<close> relates them where it
  is named.\<close>

declare map_of_eq_Some_iff [simp del]

section \<open>A map read as a sequence\<close>

definition sorted_entries :: "('k::linorder, 'v) dmap \<Rightarrow> ('k \<times> 'v) list" where
  "sorted_entries m = sort_key fst m"

definition ascending :: "('k::linorder \<times> 'v) list \<Rightarrow> bool" where
  "ascending xs = sorted_wrt (\<lambda>a b. fst a < fst b) xs"

lemma set_sorted_entries [simp]: "set (sorted_entries m) = set m"
  by (simp add: sorted_entries_def)

lemma length_sorted_entries [simp]: "length (sorted_entries m) = length m"
  by (simp add: sorted_entries_def)

lemma map_fst_sorted_entries: "map fst (sorted_entries m) = sort (map fst m)"
  by (rule properties_for_sort [symmetric]) (simp_all add: sorted_entries_def)

lemma ascending_iff: "ascending xs \<longleftrightarrow> sorted (map fst xs) \<and> distinct (map fst xs)"
  by (auto simp: ascending_def sorted_wrt_map [symmetric] strict_sorted_iff)

lemma ascending_sorted_entries: "dmap_ok m \<Longrightarrow> ascending (sorted_entries m)"
  by (simp add: ascending_iff map_fst_sorted_entries)

lemma ascending_unique: "ascending xs \<Longrightarrow> ascending ys \<Longrightarrow> set xs = set ys \<Longrightarrow> xs = ys"
proof -
  assume a: "ascending xs" "ascending ys" and s: "set xs = set ys"
  then have k: "map fst xs = map fst ys"
    by (intro sorted_distinct_set_unique) (auto simp: ascending_iff)
  moreover have "inj_on fst (set xs \<union> set ys)"
    using a s by (simp add: ascending_iff distinct_map)
  ultimately show ?thesis by (rule map_inj_on)
qed

lemma ascending_append:
  "ascending (xs @ ys) \<longleftrightarrow> ascending xs \<and> ascending ys \<and> (\<forall>x \<in> set xs. \<forall>y \<in> set ys. fst x < fst y)"
  by (auto simp: ascending_def sorted_wrt_append)

lemma ascending_filter: "ascending xs \<Longrightarrow> ascending (filter P xs)"
  by (simp add: ascending_def sorted_wrt_filter)

lemma sorted_entries_eq: "dmap_ok m \<Longrightarrow> ascending xs \<Longrightarrow> set xs = set m \<Longrightarrow> sorted_entries m = xs"
  by (rule ascending_unique) (simp_all add: ascending_sorted_entries)

lemma sorted_entries_filter: "sorted_entries (filter P m) = filter P (sorted_entries m)"
  by (simp add: sorted_entries_def filter_sort)

lemma set_put_fresh: "k \<notin> set (dkeys m) \<Longrightarrow> set (AList.update k v m) = insert (k, v) (set m)"
  by (induction m) auto

lemma sorted_entries_put_max:
  assumes "dmap_ok m" and "\<forall>k' \<in> set (dkeys m). k' < k"
  shows "sorted_entries (AList.update k v m) = sorted_entries m @ [(k, v)]"
proof (rule sorted_entries_eq)
  have "k \<notin> set (dkeys m)" using assms(2) by blast
  then show "set (sorted_entries m @ [(k, v)]) = set (AList.update k v m)"
    by (simp add: set_put_fresh)
  show "ascending (sorted_entries m @ [(k, v)])"
    using assms by (auto simp: ascending_append ascending_sorted_entries) (simp add: ascending_def)
  show "dmap_ok (AList.update k v m)" using assms(1) by simp
qed

text \<open>In an ascending list, the entries from position \<open>n\<close> on are those at or above its key.\<close>

lemma ascending_take_drop:
  assumes "ascending xs" and "n < length xs"
  shows "filter (\<lambda>kv. fst kv < fst (xs ! n)) xs = take n xs"
    and "filter (\<lambda>kv. \<not> fst kv < fst (xs ! n)) xs = drop n xs"
proof -
  have xs: "xs = take n xs @ xs ! n # drop (Suc n) xs"
    using assms(2) by (simp add: id_take_nth_drop)
  then have asc: "ascending (take n xs @ xs ! n # drop (Suc n) xs)"
    using assms(1) by simp
  have lo: "\<forall>kv \<in> set (take n xs). fst kv < fst (xs ! n)"
    and hi: "\<forall>kv \<in> set (drop n xs). \<not> fst kv < fst (xs ! n)"
    using asc assms(2) by (auto simp: ascending_def sorted_wrt_append Cons_nth_drop_Suc [symmetric])
  have "filter P xs = filter P (take n xs) @ filter P (drop n xs)" for P
    by (metis append_take_drop_id filter_append)
  with lo hi show "filter (\<lambda>kv. fst kv < fst (xs ! n)) xs = take n xs"
    and "filter (\<lambda>kv. \<not> fst kv < fst (xs ! n)) xs = drop n xs"
    by (simp_all add: filter_empty_conv filter_id_conv)
qed

section \<open>Byte codecs\<close>

type_synonym byte = "8 word"

fun le_bytes :: "nat \<Rightarrow> nat \<Rightarrow> byte list" where
  "le_bytes 0 v = []"
| "le_bytes (Suc n) v = of_nat (v mod 256) # le_bytes n (v div 256)"

fun le_value :: "byte list \<Rightarrow> nat" where
  "le_value [] = 0"
| "le_value (b # bs) = unat b + 256 * le_value bs"

definition be_bytes :: "nat \<Rightarrow> nat \<Rightarrow> byte list" where
  "be_bytes n v = rev (le_bytes n v)"

definition be_value :: "byte list \<Rightarrow> nat" where
  "be_value bs = le_value (rev bs)"

lemma length_le_bytes [simp]: "length (le_bytes n v) = n"
  by (induction n arbitrary: v) auto

lemma length_be_bytes [simp]: "length (be_bytes n v) = n"
  by (simp add: be_bytes_def)

lemma unat_byte: "unat (of_nat (v mod 256) :: byte) = v mod 256"
  by (simp add: unat_of_nat)

lemma le_value_le_bytes: "le_value (le_bytes n v) = v mod 256 ^ n"
proof (induction n arbitrary: v)
  case (Suc n)
  have "le_value (le_bytes (Suc n) v) = v mod 256 + 256 * (v div 256 mod 256 ^ n)"
    by (simp only: le_bytes.simps le_value.simps Suc.IH unat_byte)
  also have "\<dots> = v mod 256 ^ Suc n"
    by (simp add: mod_mult2_eq [of v 256 "256 ^ n"])
  finally show ?case .
qed simp

lemma le_value_bound: "le_value bs < 256 ^ length bs"
proof (induction bs)
  case (Cons b bs)
  have "unat b < 256" using unsigned_less [of b] by simp
  with Cons show ?case by simp
qed simp

lemma le_bytes_le_value: "length bs = n \<Longrightarrow> le_bytes n (le_value bs) = bs"
proof (induction bs arbitrary: n)
  case (Cons b bs)
  have b: "unat b < 256" using unsigned_less [of b] by simp
  from Cons.prems obtain m where n: "n = Suc m" and m: "length bs = m" by (cases n) auto
  have "(unat b + 256 * le_value bs) mod 256 = unat b"
    and "(unat b + 256 * le_value bs) div 256 = le_value bs" using b by auto
  then show ?case using Cons.IH [OF m] by (simp add: n)
qed simp

lemma be_value_be_bytes: "be_value (be_bytes n v) = v mod 256 ^ n"
  by (simp add: be_value_def be_bytes_def le_value_le_bytes)

lemma be_bytes_be_value: "length bs = n \<Longrightarrow> be_bytes n (be_value bs) = bs"
  by (simp add: be_value_def be_bytes_def le_bytes_le_value)

lemma be_value_bound: "be_value bs < 256 ^ length bs"
  using le_value_bound [of "rev bs"] by (simp add: be_value_def)

section \<open>Transition systems\<close>

text \<open>The states a system reaches from its initial states, and the contract under which a
  predicate holds in all of them.\<close>

inductive reachable :: "('s \<Rightarrow> bool) \<Rightarrow> ('s \<Rightarrow> 's \<Rightarrow> bool) \<Rightarrow> 's \<Rightarrow> bool"
  for init :: "'s \<Rightarrow> bool" and step :: "'s \<Rightarrow> 's \<Rightarrow> bool" where
  start: "init s \<Longrightarrow> reachable init step s"
| next_state: "reachable init step s \<Longrightarrow> step s s' \<Longrightarrow> reachable init step s'"

locale safe_system =
  fixes init :: "'s \<Rightarrow> bool" and step :: "'s \<Rightarrow> 's \<Rightarrow> bool" and inv :: "'s \<Rightarrow> bool"
  assumes inv_init: "init s \<Longrightarrow> inv s"
    and inv_step: "inv s \<Longrightarrow> step s s' \<Longrightarrow> inv s'"
begin

lemma reachable_inv: "reachable init step s \<Longrightarrow> inv s"
  by (induction rule: reachable.induct) (auto intro: inv_init inv_step)

lemma steps_inv: "step\<^sup>*\<^sup>* s s' \<Longrightarrow> inv s \<Longrightarrow> inv s'"
  by (induction rule: rtranclp_induct) (auto intro: inv_step)

end

end
