(* ===== verification/Timeline_Types.thy ===== *)
theory Timeline_Types
  imports Prelude
begin

text \<open>
  The vocabulary of the event-sourced timeline: \<^verbatim>\<open>timeline-engine/src/types.rs\<close> and
  \<^verbatim>\<open>error.rs\<close>.

  Representation choices.
  \<^item> A \<^verbatim>\<open>Uuid\<close> is a 128-bit word; each identifier newtype is a datatype of its own, as in
    the source.
  \<^item> An \<^verbatim>\<open>f64\<close> is carried by its 64 bits and never computed with: the timeline stores
    and forwards numbers, it does no arithmetic on them.
  \<^item> A \<^verbatim>\<open>DateTime<Utc>\<close> is a number that the clock hands in (milliseconds).
  \<^item> \<open>json\<close> has the constructors of \<^verbatim>\<open>serde_json::Value\<close>.
  \<^item> The text of an error message is not rendered: \<open>diag\<close> has one constructor per
    \<^verbatim>\<open>format!\<close> call, with the values the call interpolates.
\<close>

section \<open>Identifiers\<close>

type_synonym uuid = "128 word"
type_synonym f64 = "64 word"
type_synonym timestamp = nat

datatype event_id = EventId uuid
datatype branch_id = BranchId uuid
datatype entity_id = EntityId uuid
datatype session_id = SessionId string
datatype checkpoint_id = CheckpointId uuid

type_synonym event_index = nat

definition main_branch :: branch_id where
  "main_branch = BranchId 0"

fun is_main :: "branch_id \<Rightarrow> bool" where
  "is_main (BranchId u) = (u = 0)"

lemma is_main_iff [simp]: "is_main b \<longleftrightarrow> b = main_branch"
  by (cases b) (simp add: main_branch_def)

text \<open>The width of a \<^verbatim>\<open>u64\<close> sequence number, and the two additions the code applies to it:
  \<^verbatim>\<open>fetch_add\<close> wraps around, \<^verbatim>\<open>saturating_add\<close> stops at the largest value.\<close>

definition u64_bound :: nat where
  "u64_bound = 2 ^ 64"

definition wrapping_succ :: "nat \<Rightarrow> nat" where
  "wrapping_succ n = (n + 1) mod u64_bound"

definition saturating_succ :: "nat \<Rightarrow> nat" where
  "saturating_succ n = min (n + 1) (u64_bound - 1)"

lemma wrapping_succ_no_wrap: "n + 1 < u64_bound \<Longrightarrow> wrapping_succ n = n + 1"
  by (simp add: wrapping_succ_def)

section \<open>JSON values\<close>

text \<open>A \<^verbatim>\<open>serde_json::Number\<close> is a \<^verbatim>\<open>u64\<close>, a negative \<^verbatim>\<open>i64\<close> or a finite \<^verbatim>\<open>f64\<close>.\<close>

datatype json_number = PosInt nat | NegInt int | Float f64

datatype json =
    Json_Null
  | Json_Bool bool
  | Json_Number json_number
  | Json_String string
  | Json_Array "json list"
  | Json_Object "(string \<times> json) list"

fun json_get :: "json \<Rightarrow> string \<Rightarrow> json option" where
  "json_get (Json_Object kvs) key = map_of kvs key"
| "json_get _ key = None"

fun as_array :: "json \<Rightarrow> json list option" where
  "as_array (Json_Array vs) = Some vs"
| "as_array _ = None"

fun as_str :: "json \<Rightarrow> string option" where
  "as_str (Json_String s) = Some s"
| "as_str _ = None"

section \<open>Operations\<close>

datatype author = User string string | AIAgent string string | System

datatype entity_type =
    Sketch | Solid | Surface | Curve | Point | Edge | Face | Vertex
  | Loop | Datum | Assembly | Component | Mate

datatype validation_requirement =
    MustExist | MustBeType entity_type | MustSatisfy string

datatype sketch_plane = XY | XZ | YZ | Custom_Plane "f64 list" "f64 list" "f64 list"

datatype sketch_element =
    Line "f64 \<times> f64" "f64 \<times> f64"
  | Arc "f64 \<times> f64" f64 f64 f64
  | Circle "f64 \<times> f64" f64
  | Rectangle "f64 \<times> f64" f64 f64

datatype primitive_type = Prim_Box | Prim_Sphere | Prim_Cylinder | Prim_Cone | Prim_Torus

datatype boolean_type = Bool_Union | Bool_Intersection | Bool_Difference

record axis =
  axis_origin :: "f64 list"
  axis_direction :: "f64 list"

datatype pattern_type =
    Linear_Pattern "f64 list" f64 nat
  | Circular_Pattern axis nat f64
  | Rectangular_Pattern "f64 list" "f64 list" f64 f64 nat nat

datatype modification =
    SetName string
  | SetColor "f64 list"
  | SetMaterial string
  | SetVisible bool
  | SetProperty string json

datatype blend_radius_dto =
    Constant_Radius f64
  | Linear_Radius f64 f64
  | Variable_Radius "(f64 \<times> f64) list"
  | Chord f64

datatype operation =
    CreateSketch sketch_plane "sketch_element list"
  | CreatePrimitive primitive_type json
  | Extrude entity_id f64 "f64 list option"
  | Revolve entity_id axis f64
  | Loft "entity_id list" "entity_id list option"
  | Sweep entity_id entity_id
  | BooleanUnion "entity_id list"
  | BooleanIntersection "entity_id list"
  | BooleanDifference entity_id "entity_id list"
  | Fillet "entity_id list" blend_radius_dto "(entity_id \<times> blend_radius_dto) list option"
  | Chamfer "entity_id list" f64 "f64 option"
  | Pattern "entity_id list" pattern_type
  | Transform "entity_id list" "f64 list list"
  | Delete "entity_id list"
  | Modify entity_id "modification list"
  | CreateCheckpoint string string "string list"
  | Batch "operation list" string
  | Boolean boolean_type entity_id entity_id
  | Generic string json

section \<open>Events\<close>

record entity_reference =
  ref_id :: entity_id
  expected_type :: entity_type
  validation :: validation_requirement

record operation_inputs =
  required_entities :: "entity_reference list"
  optional_entities :: "entity_reference list"
  parameters :: json

record created_entity =
  created_id :: entity_id
  entity_type_of :: entity_type
  created_name :: "string option"

record side_effect =
  effect_type :: string
  effect_description :: string
  effect_entities :: "entity_id list"

record operation_outputs =
  created :: "created_entity list"
  modified :: "entity_id list"
  deleted :: "entity_id list"
  side_effects :: "side_effect list"

definition default_inputs :: operation_inputs where
  "default_inputs = \<lparr>required_entities = [], optional_entities = [], parameters = Json_Null\<rparr>"

definition default_outputs :: operation_outputs where
  "default_outputs = \<lparr>created = [], modified = [], deleted = [], side_effects = []\<rparr>"

record event_metadata =
  md_description :: "string option"
  md_branch_id :: branch_id
  md_tags :: "string list"
  md_properties :: "(string, json) dmap"

record timeline_event =
  te_id :: event_id
  sequence_number :: event_index
  te_timestamp :: timestamp
  te_author :: author
  te_operation :: operation
  te_inputs :: operation_inputs
  te_outputs :: operation_outputs
  te_metadata :: event_metadata

abbreviation origin :: "timeline_event \<Rightarrow> branch_id" where
  "origin ev \<equiv> md_branch_id (te_metadata ev)"

record checkpoint =
  cp_id :: checkpoint_id
  cp_name :: string
  cp_description :: string
  event_range :: "event_index \<times> event_index"
  cp_branch_id :: branch_id
  cp_author :: author
  cp_timestamp :: timestamp
  cp_tags :: "string list"
  cp_skip_verification :: bool

section \<open>Branches\<close>

text \<open>The reason of an abandoned branch: the caller's text, or the text a truncate writes
  (\<^verbatim>\<open>"parent branch {} was truncated at sequence {}"\<close>).\<close>

datatype abandon_reason = Given string | Parent_truncated branch_id event_index

datatype branch_state =
    Active
  | Merged branch_id timestamp
  | Abandoned abandon_reason
  | Completed f64

record fork_point =
  fp_branch_id :: branch_id
  fp_event_index :: event_index
  fp_timestamp :: timestamp

datatype optimization_objective =
    MinimizeWeight | MaximizeStrength | MinimizeCost | MinimizeMaterial | Custom_Objective string

datatype branch_purpose =
    UserExploration string
  | AIOptimization optimization_objective
  | WhatIfAnalysis "string list"
  | BugFix string
  | Feature string

record design_constraint =
  dc_name :: string
  dc_constraint_type :: string
  dc_parameters :: json

record ai_context =
  agent_id :: string
  ai_model :: string
  objective :: string
  constraints :: "design_constraint list"
  iterations :: nat
  current_score :: f64

record branch_metadata =
  created_by :: author
  created_at :: timestamp
  purpose :: branch_purpose
  branch_ai_context :: "ai_context option"
  checkpoint_ids :: "checkpoint_id list"

record branch =
  br_id :: branch_id
  br_name :: string
  br_fork_point :: fork_point
  br_parent :: "branch_id option"
  br_events :: "(event_index, timeline_event) dmap"
  br_state :: branch_state
  br_metadata :: branch_metadata
  protected :: bool
  hidden :: bool

section \<open>Merge strategies\<close>

datatype conflict_strategy =
    PreferSource | PreferTarget | PreferNewest | Manual | AI string "string list"

datatype merge_strategy =
    FastForward
  | ThreeWay conflict_strategy
  | Rebase
  | Squash string
  | CherryPick "event_id list"

section \<open>Errors\<close>

datatype diag =
    Append_to_merged branch_id branch_id
  | Append_to_abandoned branch_id abandon_reason
  | Append_to_completed branch_id f64
  | Index_exceeds_length event_index nat branch_id
  | Head_exceeds_length event_index nat branch_id
  | Self_merge
  | Source_not_active branch_id branch_state
  | Target_not_active branch_id branch_state
  | Not_merged_into branch_id branch_id branch_state
  | Truncate_protected branch_id
  | Abandon_protected branch_id
  | Abandon_not_active branch_id branch_state
  | Diverged branch_id branch_id nat nat nat
  | No_model_dispatcher string
  | No_divergent_merge merge_strategy branch_id branch_id nat nat nat
  | Wrong_position event_id event_index event_index branch_id
  | Position_past_end event_index nat branch_id
  | Lost_event branch_id event_index
  | Branch_without_index branch_id
  | Index_without_branch branch_id
  | Missing_event branch_id event_id event_index
  | Key_mismatch branch_id event_id event_index event_index
  | Foreign_origin branch_id event_id branch_id
  | No_parent branch_id
  | Parent_missing branch_id branch_id
  | Fork_parent_mismatch branch_id branch_id branch_id
  | Duplicate_sequence event_index event_id
  | Session_branch_missing session_id branch_id
  | Session_past_end session_id event_index branch_id nat

text \<open>The variants the modelled operations return carry a \<open>diag\<close>; the payload of the others, and the
  errors of \<^verbatim>\<open>std::io\<close> and \<^verbatim>\<open>serde_json\<close>, is their text.\<close>

datatype timeline_error =
    EventNotFound event_id
  | BranchNotFound branch_id
  | EntityNotFound entity_id
  | CheckpointNotFound checkpoint_id
  | InvalidOperation diag
  | DependencyViolation string
  | ConcurrentModificationError string
  | BranchConflict diag
  | MergeError string
  | StorageError string
  | SerializationError string
  | DeserializationError string
  | JsonError string
  | ValidationError string
  | ExecutionError string
  | ExecutionFailed string
  | GeometryError string
  | CacheError string
  | ConfigError string
  | NotImplemented diag
  | Internal diag
  | SessionNotFound
  | NoMoreUndo
  | NoMoreRedo

type_synonym 'a timeline_result = "(timeline_error, 'a) result"

end
