(* ===== verification/Kernel_Ref.thy ===== *)
theory Kernel_Ref
  imports Timeline_Types
begin

text \<open>
  \<^verbatim>\<open>timeline-engine/src/kernel_ref.rs\<close>: the kernel's wire references
  (\<^verbatim>\<open>"<kind>:<id>"\<close>) and the typed lineage channels of an event. An integer id is packed
  with its kind into the sixteen bytes of an \<^verbatim>\<open>EntityId\<close> (\<open>encode\<close>, \<open>decode\<close>);
  \<open>parse_ref\<close> reads one reference, \<open>project_envelope\<close> a whole recorded envelope.

  \<^verbatim>\<open>Uuid::parse_str\<close> belongs to the \<^verbatim>\<open>uuid\<close> crate: it is the parameter
  \<open>parse_uuid\<close>. \<^verbatim>\<open>str::parse::<u64>\<close> is the standard library's and is modelled:
  an optional plus sign, then at least one digit, and a value below \<open>2 ^ 64\<close>.
\<close>

section \<open>Bytes of an identifier\<close>

definition uuid_bytes :: "uuid \<Rightarrow> byte list" where
  "uuid_bytes u = be_bytes 16 (unat u)"

definition uuid_from_bytes :: "byte list \<Rightarrow> uuid" where
  "uuid_from_bytes bs = of_nat (be_value bs)"

lemma length_uuid_bytes [simp]: "length (uuid_bytes u) = 16"
  by (simp add: uuid_bytes_def)

lemma uuid_bytes_from_bytes: "length bs = 16 \<Longrightarrow> uuid_bytes (uuid_from_bytes bs) = bs"
proof -
  assume l: "length bs = 16"
  have "be_value bs < 2 ^ 128" using be_value_bound [of bs] l by simp
  then have "unat (of_nat (be_value bs) :: uuid) = be_value bs"
    by (simp add: unat_of_nat)
  with l show ?thesis by (simp add: uuid_bytes_def uuid_from_bytes_def be_bytes_be_value)
qed

lemma uuid_from_bytes_bytes: "uuid_from_bytes (uuid_bytes u) = u"
proof -
  have "unat u < 256 ^ 16" using unsigned_less [of u] by simp
  then show ?thesis by (simp add: uuid_bytes_def uuid_from_bytes_def be_value_be_bytes)
qed

section \<open>Kinds and their codes\<close>

definition KERNEL_REF_MAGIC :: "byte list" where
  "KERNEL_REF_MAGIC = [0x52, 0x6F, 0x73, 0x68, 0x6B]"

record parsed_ref =
  pr_entity_type :: entity_type
  pr_id :: entity_id
  kind_in_id :: bool

datatype kernel_ref_error =
    Malformed string
  | UnknownKind string string
  | UnrepresentableId string
  | AmbiguousId string

datatype envelope_error =
    Ref_Error string kernel_ref_error
  | NonStringRef string
  | KindLostInBareChannel string string
  | OutputAlsoDeleted string

fun wire_tag :: "entity_type \<Rightarrow> string" where
  "wire_tag Sketch = ''sketch''"
| "wire_tag Solid = ''solid''"
| "wire_tag Surface = ''surface''"
| "wire_tag Curve = ''curve''"
| "wire_tag Point = ''point''"
| "wire_tag Edge = ''edge''"
| "wire_tag Face = ''face''"
| "wire_tag Vertex = ''vertex''"
| "wire_tag Loop = ''loop''"
| "wire_tag Datum = ''datum''"
| "wire_tag Assembly = ''assembly''"
| "wire_tag Component = ''component''"
| "wire_tag Mate = ''mate''"

definition entity_type_for_tag :: "string \<Rightarrow> entity_type option" where
  "entity_type_for_tag tag =
     (if tag = ''sketch'' then Some Sketch
      else if tag = ''solid'' then Some Solid
      else if tag = ''surface'' then Some Surface
      else if tag = ''curve'' then Some Curve
      else if tag = ''point'' then Some Point
      else if tag = ''edge'' then Some Edge
      else if tag = ''face'' then Some Face
      else if tag = ''vertex'' then Some Vertex
      else if tag = ''loop'' then Some Loop
      else if tag = ''datum'' then Some Datum
      else if tag = ''assembly'' then Some Assembly
      else if tag = ''component'' then Some Component
      else if tag = ''mate'' then Some Mate
      else None)"

fun kind_code :: "entity_type \<Rightarrow> byte" where
  "kind_code Sketch = 1"
| "kind_code Solid = 2"
| "kind_code Surface = 3"
| "kind_code Curve = 4"
| "kind_code Point = 5"
| "kind_code Edge = 6"
| "kind_code Face = 7"
| "kind_code Vertex = 8"
| "kind_code Loop = 9"
| "kind_code Datum = 10"
| "kind_code Assembly = 11"
| "kind_code Component = 12"
| "kind_code Mate = 13"

definition kind_for_code :: "byte \<Rightarrow> entity_type option" where
  "kind_for_code code =
     (if code = 1 then Some Sketch
      else if code = 2 then Some Solid
      else if code = 3 then Some Surface
      else if code = 4 then Some Curve
      else if code = 5 then Some Point
      else if code = 6 then Some Edge
      else if code = 7 then Some Face
      else if code = 8 then Some Vertex
      else if code = 9 then Some Loop
      else if code = 10 then Some Datum
      else if code = 11 then Some Assembly
      else if code = 12 then Some Component
      else if code = 13 then Some Mate
      else None)"

lemma entity_type_for_wire_tag [simp]: "entity_type_for_tag (wire_tag k) = Some k"
  by (cases k) (simp_all add: entity_type_for_tag_def)

lemma kind_for_kind_code [simp]: "kind_for_code (kind_code k) = Some k"
  by (cases k) (simp_all add: kind_for_code_def)

lemma kind_for_code_Some: "kind_for_code c = Some k \<Longrightarrow> kind_code k = c"
  by (auto simp: kind_for_code_def split: if_splits)

lemma entity_type_for_tag_Some: "entity_type_for_tag tag = Some k \<Longrightarrow> wire_tag k = tag"
  by (auto simp: entity_type_for_tag_def split: if_splits)

section \<open>Packing a kind and an integer into an identifier\<close>

definition encode :: "entity_type \<Rightarrow> 64 word \<Rightarrow> entity_id" where
  "encode k n =
     EntityId (uuid_from_bytes (KERNEL_REF_MAGIC @ [kind_code k] @ [0, 0] @ be_bytes 8 (unat n)))"

fun decode :: "entity_id \<Rightarrow> (entity_type \<times> 64 word) option" where
  "decode (EntityId u) =
     (let bytes = uuid_bytes u in
      if take 5 bytes \<noteq> KERNEL_REF_MAGIC \<or> bytes ! 6 \<noteq> 0 \<or> bytes ! 7 \<noteq> 0 then None
      else case kind_for_code (bytes ! 5) of
             None \<Rightarrow> None
           | Some k \<Rightarrow> Some (k, of_nat (be_value (drop 8 bytes))))"

lemma decode_encode: "decode (encode k n) = Some (k, n)"
proof -
  have "unat n < 256 ^ 8" using unsigned_less [of n] by simp
  then show ?thesis
    by (simp add: encode_def Let_def uuid_bytes_from_bytes KERNEL_REF_MAGIC_def be_value_be_bytes)
qed

lemma list16_split:
  "length bs = 16 \<Longrightarrow> bs = take 5 bs @ [bs ! 5] @ [bs ! 6, bs ! 7] @ drop 8 bs"
proof -
  assume l: "length bs = 16"
  have "bs = take 5 bs @ drop 5 bs" by simp
  moreover have "drop 5 bs = bs ! 5 # bs ! 6 # bs ! 7 # drop 8 bs"
    using l by (simp add: Cons_nth_drop_Suc [symmetric] eval_nat_numeral)
  ultimately show ?thesis by simp
qed

lemma encode_decode: "decode i = Some (k, n) \<Longrightarrow> encode k n = i"
proof -
  assume d: "decode i = Some (k, n)"
  obtain u where i: "i = EntityId u" by (cases i)
  let ?bs = "uuid_bytes u"
  have m: "take 5 ?bs = KERNEL_REF_MAGIC" and z: "?bs ! 6 = 0" "?bs ! 7 = 0"
    and c: "kind_for_code (?bs ! 5) = Some k" and n: "n = of_nat (be_value (drop 8 ?bs))"
    using d by (auto simp: i Let_def split: if_splits option.splits)
  have "be_value (drop 8 ?bs) < 2 ^ 64" using be_value_bound [of "drop 8 ?bs"] by simp
  then have "be_bytes 8 (unat n) = drop 8 ?bs"
    by (simp add: n unat_of_nat be_bytes_be_value)
  then have "KERNEL_REF_MAGIC @ [kind_code k] @ [0, 0] @ be_bytes 8 (unat n) = ?bs"
    using list16_split [of ?bs] m z kind_for_code_Some [OF c] by simp
  then show ?thesis by (simp add: encode_def i uuid_from_bytes_bytes)
qed

lemma encode_inject: "encode k n = encode k' n' \<longleftrightarrow> k = k' \<and> n = n'"
  by (metis decode_encode option.inject prod.inject)

section \<open>Decimal numerals\<close>

definition digit_char :: "nat \<Rightarrow> char" where
  "digit_char d = char_of (48 + d)"

definition digit_value :: "char \<Rightarrow> nat option" where
  "digit_value c =
     (let n = (of_char c :: nat) in if 48 \<le> n \<and> n \<le> 57 then Some (n - 48) else None)"

fun show_nat :: "nat \<Rightarrow> string" where
  "show_nat n = (if n < 10 then [digit_char n] else show_nat (n div 10) @ [digit_char (n mod 10)])"

declare show_nat.simps [simp del]

text \<open>\<^verbatim>\<open>u64::from_str\<close>: every digit is a checked multiplication and addition.\<close>

fun parse_digits :: "nat \<Rightarrow> string \<Rightarrow> nat option" where
  "parse_digits acc [] = Some acc"
| "parse_digits acc (c # cs) =
     (case digit_value c of
        None \<Rightarrow> None
      | Some d \<Rightarrow>
          if acc * 10 + d < u64_bound then parse_digits (acc * 10 + d) cs else None)"

definition parse_u64 :: "string \<Rightarrow> nat option" where
  "parse_u64 s =
     (let digits = (case s of c # rest \<Rightarrow> if c = CHR ''+'' then rest else s | [] \<Rightarrow> [])
      in if digits = [] then None else parse_digits 0 digits)"

lemma digit_value_digit_char [simp]: "d < 10 \<Longrightarrow> digit_value (digit_char d) = Some d"
  by (simp add: digit_value_def digit_char_def)

lemma digit_char_cases: "d < 10 \<Longrightarrow> (of_char (digit_char d) :: nat) = 48 + d"
  by (simp add: digit_char_def)

lemma digit_char_not: "d < 10 \<Longrightarrow> digit_char d \<noteq> CHR ''+'' \<and> digit_char d \<noteq> CHR '':''"
  using digit_char_cases [of d] by (auto dest!: arg_cong [where f = "of_char :: char \<Rightarrow> nat"])

lemma parse_digits_append:
  "parse_digits acc (xs @ ys) = Option.bind (parse_digits acc xs) (\<lambda>v. parse_digits v ys)"
  by (induction acc xs rule: parse_digits.induct) (auto split: option.splits)

lemma parse_digits_show_nat: "n < u64_bound \<Longrightarrow> parse_digits 0 (show_nat n) = Some n"
proof (induction n rule: show_nat.induct)
  case (1 n)
  show ?case
  proof (cases "n < 10")
    case True
    with 1 show ?thesis by (subst show_nat.simps) (simp add: u64_bound_def)
  next
    case False
    moreover have "n div 10 < u64_bound" using "1.prems" by linarith
    ultimately show ?thesis
      using 1 by (subst show_nat.simps) (simp add: parse_digits_append mult.commute)
  qed
qed

lemma show_nat_chars: "c \<in> set (show_nat n) \<Longrightarrow> c \<noteq> CHR ''+'' \<and> c \<noteq> CHR '':''"
proof (induction n rule: show_nat.induct)
  case (1 n)
  have "n mod 10 < 10" by simp
  then have "digit_char (n mod 10) \<noteq> CHR ''+'' \<and> digit_char (n mod 10) \<noteq> CHR '':''"
    by (rule digit_char_not)
  then show ?case
    using 1 digit_char_not [of n] by (subst (asm) (2) show_nat.simps) (auto split: if_splits)
qed

lemma show_nat_nonempty [simp]: "show_nat n \<noteq> []"
  by (subst show_nat.simps) simp

lemma parse_u64_show_nat: "n < u64_bound \<Longrightarrow> parse_u64 (show_nat n) = Some n"
proof -
  assume n: "n < u64_bound"
  obtain c cs where s: "show_nat n = c # cs" by (cases "show_nat n") auto
  then have "c \<noteq> CHR ''+''" using show_nat_chars [of c n] by simp
  then have "parse_u64 (show_nat n) = parse_digits 0 (show_nat n)"
    by (simp add: parse_u64_def s del: parse_digits.simps)
  then show ?thesis using parse_digits_show_nat [OF n] by simp
qed

lemma parse_digits_bound: "parse_digits acc s = Some n \<Longrightarrow> acc < u64_bound \<Longrightarrow> n < u64_bound"
  by (induction acc s rule: parse_digits.induct) (auto split: option.splits if_splits)

lemma parse_u64_bound: "parse_u64 s = Some n \<Longrightarrow> n < u64_bound"
  by (auto simp: parse_u64_def Let_def u64_bound_def simp del: parse_digits.simps
      split: if_splits list.splits dest!: parse_digits_bound)

section \<open>References\<close>

text \<open>Rendering. \<^verbatim>\<open>Display\<close> of a \<^verbatim>\<open>Uuid\<close> is the parameter \<open>show_uuid\<close>.\<close>

fun render_ref :: "(uuid \<Rightarrow> string) \<Rightarrow> entity_type \<Rightarrow> entity_id \<Rightarrow> string" where
  "render_ref show_uuid k (EntityId u) =
     (case decode (EntityId u) of
        Some (_, n) \<Rightarrow> wire_tag k @ '':'' @ show_nat (unat n)
      | None \<Rightarrow> wire_tag k @ '':'' @ show_uuid u)"

definition render_bare :: "entity_id \<Rightarrow> string option" where
  "render_bare i = map_option (\<lambda>(k, n). wire_tag k @ '':'' @ show_nat (unat n)) (decode i)"

definition split_once :: "char \<Rightarrow> string \<Rightarrow> (string \<times> string) option" where
  "split_once c s =
     (case dropWhile (\<lambda>x. x \<noteq> c) s of [] \<Rightarrow> None | _ # rest \<Rightarrow> Some (takeWhile (\<lambda>x. x \<noteq> c) s, rest))"

definition parse_ref ::
  "(string \<Rightarrow> uuid option) \<Rightarrow> string \<Rightarrow> (kernel_ref_error, parsed_ref) result" where
  "parse_ref parse_uuid reference =
     (case split_once (CHR '':'') reference of
        None \<Rightarrow> Err (Malformed reference)
      | Some (tag, rest) \<Rightarrow>
          if tag = [] \<or> rest = [] then Err (Malformed reference)
          else case entity_type_for_tag tag of
                 None \<Rightarrow> Err (UnknownKind reference tag)
               | Some k \<Rightarrow>
                   (case parse_u64 rest of
                      Some n \<Rightarrow>
                        Ok \<lparr>pr_entity_type = k, pr_id = encode k (of_nat n), kind_in_id = True\<rparr>
                    | None \<Rightarrow>
                        (case parse_uuid rest of
                           Some u \<Rightarrow>
                             if decode (EntityId u) \<noteq> None then Err (AmbiguousId reference)
                             else Ok \<lparr>pr_entity_type = k, pr_id = EntityId u, kind_in_id = False\<rparr>
                         | None \<Rightarrow> Err (UnrepresentableId reference))))"

lemma split_once_append: "c \<notin> set xs \<Longrightarrow> split_once c (xs @ c # ys) = Some (xs, ys)"
  by (induction xs) (auto simp: split_once_def split: list.splits)

lemma split_once_Some: "split_once c s = Some (a, b) \<Longrightarrow> a @ c # b = s"
  by (induction s arbitrary: a) (auto simp: split_once_def split: if_splits list.splits)

lemma wire_tag_chars: "wire_tag k \<noteq> [] \<and> CHR '':'' \<notin> set (wire_tag k)"
  by (cases k) simp_all

lemma parse_ref_integer:
  "parse_u64 rest = Some n \<Longrightarrow>
   parse_ref pu (wire_tag k @ '':'' @ rest) =
     Ok \<lparr>pr_entity_type = k, pr_id = encode k (of_nat n), kind_in_id = True\<rparr>"
  using wire_tag_chars [of k]
  by (auto simp: parse_ref_def split_once_append parse_u64_def Let_def split: list.splits if_splits)

lemma parse_ref_Ok:
  assumes "parse_ref pu r = Ok p"
  shows "wire_tag (pr_entity_type p) @ '':'' @ snd (the (split_once (CHR '':'') r)) = r"
    and "kind_in_id p \<Longrightarrow> map_option fst (decode (pr_id p)) = Some (pr_entity_type p)"
    and "\<not> kind_in_id p \<Longrightarrow> decode (pr_id p) = None"
proof -
  show "wire_tag (pr_entity_type p) @ '':'' @ snd (the (split_once (CHR '':'') r)) = r"
    using assms
    by (auto simp: parse_ref_def split: option.splits if_splits 
        dest!: split_once_Some entity_type_for_tag_Some)
  show "kind_in_id p \<Longrightarrow> map_option fst (decode (pr_id p)) = Some (pr_entity_type p)"
    using assms
    by (auto simp: parse_ref_def decode_encode simp del: decode.simps split: option.splits if_splits)
  show "\<not> kind_in_id p \<Longrightarrow> decode (pr_id p) = None"
    using assms
    by (auto simp: parse_ref_def simp del: decode.simps not_None_eq split: option.splits if_splits)
qed

section \<open>Projecting a recorded envelope\<close>

text \<open>\<open>collect\<close> of an iterator of results: the first error wins.\<close>

fun traverse :: "('a \<Rightarrow> ('e, 'b) result) \<Rightarrow> 'a list \<Rightarrow> ('e, 'b list) result" where
  "traverse f [] = Ok []"
| "traverse f (x # xs) =
     (case f x of
        Err e \<Rightarrow> Err e
      | Ok y \<Rightarrow> (case traverse f xs of Err e \<Rightarrow> Err e | Ok ys \<Rightarrow> Ok (y # ys)))"

definition wire_list :: "json \<Rightarrow> string \<Rightarrow> (envelope_error, string list) result" where
  "wire_list params channel =
     (case Option.bind (json_get params channel) as_array of
        None \<Rightarrow> Ok []
      | Some array \<Rightarrow>
          traverse (\<lambda>entry. case as_str entry of
                              Some s \<Rightarrow> Ok s
                            | None \<Rightarrow> Err (NonStringRef channel)) array)"

text \<open>The loop of \<open>parse_channel\<close>; \<open>seen\<close> is the set of the references met so far.\<close>

fun parse_channel_loop ::
  "(string \<Rightarrow> uuid option) \<Rightarrow> string \<Rightarrow> string list \<Rightarrow> string list \<Rightarrow>
   (envelope_error, (string \<times> parsed_ref) list) result" where
  "parse_channel_loop pu channel seen [] = Ok []"
| "parse_channel_loop pu channel seen (reference # refs) =
     (if reference \<in> set seen then parse_channel_loop pu channel seen refs
      else case parse_ref pu reference of
             Err e \<Rightarrow> Err (Ref_Error channel e)
           | Ok parsed \<Rightarrow>
               (case parse_channel_loop pu channel (reference # seen) refs of
                  Err e \<Rightarrow> Err e
                | Ok out \<Rightarrow> Ok ((reference, parsed) # out)))"

definition parse_channel ::
  "(string \<Rightarrow> uuid option) \<Rightarrow> string list \<Rightarrow> string \<Rightarrow>
   (envelope_error, (string \<times> parsed_ref) list) result" where
  "parse_channel pu refs channel = parse_channel_loop pu channel [] refs"

fun split_outputs ::
  "string list \<Rightarrow> (string \<times> parsed_ref) list \<Rightarrow>
   (envelope_error, created_entity list \<times> entity_id list) result" where
  "split_outputs input_keys [] = Ok ([], [])"
| "split_outputs input_keys ((key, parsed) # rest) =
     (if key \<in> set input_keys then
        if \<not> kind_in_id parsed then Err (KindLostInBareChannel key ''modified'')
        else (case split_outputs input_keys rest of
                Err e \<Rightarrow> Err e
              | Ok (cs, ms) \<Rightarrow> Ok (cs, pr_id parsed # ms))
      else (case split_outputs input_keys rest of
              Err e \<Rightarrow> Err e
            | Ok (cs, ms) \<Rightarrow>
                Ok (\<lparr>created_id = pr_id parsed, entity_type_of = pr_entity_type parsed,
                     created_name = None\<rparr> # cs, ms)))"

definition deleted_entry ::
  "string list \<Rightarrow> string \<times> parsed_ref \<Rightarrow> (envelope_error, entity_id) result" where
  "deleted_entry output_keys = (\<lambda>(key, parsed).
     if key \<in> set output_keys then Err (OutputAlsoDeleted key)
     else if \<not> kind_in_id parsed then Err (KindLostInBareChannel key ''deleted'')
     else Ok (pr_id parsed))"

definition read_channel ::
  "(string \<Rightarrow> uuid option) \<Rightarrow> json \<Rightarrow> string \<Rightarrow>
   (envelope_error, (string \<times> parsed_ref) list) result" where
  "read_channel pu params channel =
     (case wire_list params channel of Err e \<Rightarrow> Err e | Ok refs \<Rightarrow> parse_channel pu refs channel)"

definition project_envelope ::
  "(string \<Rightarrow> uuid option) \<Rightarrow> json \<Rightarrow>
   (envelope_error, operation_inputs \<times> operation_outputs) result" where
  "project_envelope pu params =
     (case read_channel pu params ''inputs'' of Err e \<Rightarrow> Err e | Ok input_refs \<Rightarrow>
      case read_channel pu params ''outputs'' of Err e \<Rightarrow> Err e | Ok output_refs \<Rightarrow>
      case read_channel pu params ''deleted'' of Err e \<Rightarrow> Err e | Ok deleted_refs \<Rightarrow>
      case split_outputs (map fst input_refs) output_refs of Err e \<Rightarrow> Err e
      | Ok (created_entities, modified_ids) \<Rightarrow>
      case traverse (deleted_entry (map fst output_refs)) deleted_refs of Err e \<Rightarrow> Err e
      | Ok deleted_ids \<Rightarrow>
          Ok (\<lparr>required_entities =
                 map (\<lambda>(_, parsed). \<lparr>ref_id = pr_id parsed, expected_type = pr_entity_type parsed,
                                      validation = MustExist\<rparr>) input_refs,
               optional_entities = [], parameters = Json_Null\<rparr>,
              \<lparr>created = created_entities, modified = modified_ids, deleted = deleted_ids,
               side_effects = []\<rparr>))"

lemma traverse_Ok_Cons:
  "traverse f (x # xs) = Ok ys \<longleftrightarrow>
   (\<exists>y zs. f x = Ok y \<and> traverse f xs = Ok zs \<and> ys = y # zs)"
  by (auto split: sum.splits)

lemma traverse_Ok: "traverse f xs = Ok ys \<longleftrightarrow> list_all2 (\<lambda>x y. f x = Ok y) xs ys"
proof (induction xs arbitrary: ys)
  case (Cons x xs)
  show ?case unfolding traverse_Ok_Cons Cons.IH by (auto simp: list_all2_Cons1)
qed auto

lemma parse_channel_loop_Ok:
  "parse_channel_loop pu ch seen refs = Ok out \<Longrightarrow>
   distinct (map fst out) \<and> set (map fst out) = set refs - set seen \<and>
   (\<forall>(r, p) \<in> set out. parse_ref pu r = Ok p)"
proof (induction refs arbitrary: seen out)
  case (Cons r refs)
  show ?case
  proof (cases "r \<in> set seen")
    case True
    then show ?thesis using Cons by auto
  next
    case False
    with Cons.prems obtain p out' where p: "parse_ref pu r = Ok p"
      and o: "parse_channel_loop pu ch (r # seen) refs = Ok out'" "out = (r, p) # out'"
      by (auto split: sum.splits)
    from Cons.IH [OF o(1)] False show ?thesis by (auto simp: p o(2))
  qed
qed auto

lemma read_channel_Ok:
  assumes "read_channel pu params ch = Ok out"
  obtains refs where "wire_list params ch = Ok refs" and "set (map fst out) = set refs"
    and "distinct (map fst out)" and "\<forall>(r, p) \<in> set out. parse_ref pu r = Ok p"
proof -
  obtain refs where w: "wire_list params ch = Ok refs" and p: "parse_channel pu refs ch = Ok out"
    using assms by (auto simp: read_channel_def split: sum.splits)
  show ?thesis
    using parse_channel_loop_Ok [of pu ch "[]" refs out] p that [OF w] by (simp add: parse_channel_def)
qed

lemma split_outputs_Ok:
  "split_outputs ins outs = Ok (cs, ms) \<Longrightarrow>
   cs = map (\<lambda>(_, p). \<lparr>created_id = pr_id p, entity_type_of = pr_entity_type p, created_name = None\<rparr>)
          (filter (\<lambda>(r, _). r \<notin> set ins) outs) \<and>
   ms = map (\<lambda>(_, p). pr_id p) (filter (\<lambda>(r, _). r \<in> set ins) outs) \<and>
   (\<forall>(r, p) \<in> set outs. r \<in> set ins \<longrightarrow> kind_in_id p)"
  by (induction ins outs arbitrary: cs ms rule: split_outputs.induct)
    (auto split: if_splits sum.splits prod.splits)

lemma deleted_entries_Ok:
  "traverse (deleted_entry outs) ds = Ok ys \<Longrightarrow>
   ys = map (pr_id \<circ> snd) ds \<and> (\<forall>(r, p) \<in> set ds. r \<notin> set outs \<and> kind_in_id p)"
  unfolding traverse_Ok
  by (induction ds arbitrary: ys)
    (auto simp: deleted_entry_def list_all2_Cons1 split: if_splits)

definition refs_denote ::
  "(string \<Rightarrow> uuid option) \<Rightarrow> string set \<Rightarrow> parsed_ref set" where
  "refs_denote pu rs = {p. \<exists>r \<in> rs. parse_ref pu r = Ok p}"

lemma refs_denote_channel:
  assumes "\<forall>(r, p) \<in> set out. parse_ref pu r = Ok p"
  shows "snd ` {rp \<in> set out. P (fst rp)} = refs_denote pu {r \<in> set (map fst out). P r}"
  using assms by (force simp: refs_denote_def)

lemma project_envelope_Ok:
  assumes "project_envelope pu params = Ok (ins, outs)"
  obtains irs ors drs where "read_channel pu params ''inputs'' = Ok irs"
    and "read_channel pu params ''outputs'' = Ok ors"
    and "read_channel pu params ''deleted'' = Ok drs"
    and "split_outputs (map fst irs) ors = Ok (created outs, modified outs)"
    and "traverse (deleted_entry (map fst ors)) drs = Ok (deleted outs)"
    and "required_entities ins =
           map (\<lambda>(_, p). \<lparr>ref_id = pr_id p, expected_type = pr_entity_type p,
                           validation = MustExist\<rparr>) irs"
  using assms by (auto simp: project_envelope_def split: sum.splits prod.splits)

lemma kind_in_id_decodes: "parse_ref pu r = Ok p \<Longrightarrow> kind_in_id p \<Longrightarrow> decode (pr_id p) \<noteq> None"
  using parse_ref_Ok(2) by fastforce

section \<open>Properties\<close>

text \<open>C8. An entity reference survives the trip through text and through an identifier: what
  \<open>render_ref\<close> prints for an encoded kernel entity is read back by \<open>parse_ref\<close> as the same
  kind and the same identifier, with the kind recoverable from the identifier; a bare identifier
  renders to the same text; and an identifier that decodes to a kind and a number is exactly the
  encoding of the two.\<close>

theorem kernel_ref_roundtrip:
  "parse_ref pu (render_ref show_uuid k (encode k n)) =
     Ok \<lparr>pr_entity_type = k, pr_id = encode k n, kind_in_id = True\<rparr> \<and>
   render_bare (encode k n) = Some (render_ref show_uuid k (encode k n)) \<and>
   (decode i = Some (k, n) \<longleftrightarrow> i = encode k n)"
proof -
  obtain u where e: "encode k n = EntityId u" by (cases "encode k n")
  then have d: "decode (EntityId u) = Some (k, n)" using decode_encode [of k n] by simp
  have r: "render_ref show_uuid k (encode k n) = wire_tag k @ '':'' @ show_nat (unat n)"
    unfolding e render_ref.simps d by simp
  have "unat n < u64_bound" using unsigned_less [of n] by (simp add: u64_bound_def)
  then have "parse_ref pu (wire_tag k @ '':'' @ show_nat (unat n)) =
    Ok \<lparr>pr_entity_type = k, pr_id = encode k n, kind_in_id = True\<rparr>"
    using parse_ref_integer [OF parse_u64_show_nat, of "unat n" pu k] by simp
  moreover have "decode i = Some (k, n) \<longleftrightarrow> i = encode k n"
    using encode_decode decode_encode by blast
  ultimately show ?thesis by (simp only: r) (simp add: render_bare_def decode_encode)
qed

text \<open>A projected envelope partitions the recorded references: what the operation produced
  without consuming is \<open>created\<close>, what it both consumed and produced is \<open>modified\<close>, what it
  deleted is \<open>deleted\<close>, what it consumed is required; no reference is both an output and
  deleted; and every identifier in the two channels that carry no kind yields its kind by
  \<open>decode\<close>.\<close>

theorem project_envelope_partition:
  assumes "project_envelope pu params = Ok (ins, outs)"
  shows "\<exists>irs ors drs. wire_list params ''inputs'' = Ok irs \<and> wire_list params ''outputs'' = Ok ors \<and>
     wire_list params ''deleted'' = Ok drs \<and>
     created_id ` set (created outs) = pr_id ` refs_denote pu (set ors - set irs) \<and>
     set (modified outs) = pr_id ` refs_denote pu (set ors \<inter> set irs) \<and>
     set (deleted outs) = pr_id ` refs_denote pu (set drs) \<and>
     ref_id ` set (required_entities ins) = pr_id ` refs_denote pu (set irs) \<and>
     set ors \<inter> set drs = {} \<and>
     (\<forall>i \<in> set (modified outs) \<union> set (deleted outs). decode i \<noteq> None)"
proof -
  obtain irs ors drs where
    ch: "read_channel pu params ''inputs'' = Ok irs" "read_channel pu params ''outputs'' = Ok ors"
      "read_channel pu params ''deleted'' = Ok drs"
    and sp: "split_outputs (map fst irs) ors = Ok (created outs, modified outs)"
    and tr: "traverse (deleted_entry (map fst ors)) drs = Ok (deleted outs)"
    and rq: "required_entities ins =
           map (\<lambda>(_, p). \<lparr>ref_id = pr_id p, expected_type = pr_entity_type p,
                           validation = MustExist\<rparr>) irs"
    using assms by (rule project_envelope_Ok)
  obtain wi where wi: "wire_list params ''inputs'' = Ok wi" "set (map fst irs) = set wi"
    "\<forall>(r, p) \<in> set irs. parse_ref pu r = Ok p" using ch(1) by (rule read_channel_Ok)
  obtain wo where wo: "wire_list params ''outputs'' = Ok wo" "set (map fst ors) = set wo"
    "\<forall>(r, p) \<in> set ors. parse_ref pu r = Ok p" using ch(2) by (rule read_channel_Ok)
  obtain wd where wd: "wire_list params ''deleted'' = Ok wd" "set (map fst drs) = set wd"
    "\<forall>(r, p) \<in> set drs. parse_ref pu r = Ok p" using ch(3) by (rule read_channel_Ok)
  note o = split_outputs_Ok [OF sp] and d = deleted_entries_Ok [OF tr]
  have den: "pr_id ` snd ` {rp \<in> set xs. P (fst rp)} = pr_id ` refs_denote pu {r \<in> set ws. P r}"
    if "\<forall>(r, p) \<in> set xs. parse_ref pu r = Ok p" "set (map fst xs) = set ws" for xs ws P
    using refs_denote_channel [OF that(1)] that(2) by simp
  have c: "created_id ` set (created outs) = pr_id ` refs_denote pu (set wo - set wi)"
    using den [OF wo(3,2), of "\<lambda>r. r \<notin> set wi"] o wi(2)
    by (simp add: image_image case_prod_unfold set_diff_eq)
  have m: "set (modified outs) = pr_id ` refs_denote pu (set wo \<inter> set wi)"
    using den [OF wo(3,2), of "\<lambda>r. r \<in> set wi"] o wi(2)
    by (simp add: image_image case_prod_unfold Int_def)
  have dl: "set (deleted outs) = pr_id ` refs_denote pu (set wd)"
    using den [OF wd(3,2), of "\<lambda>r. True"] d by (simp add: image_comp)
  have rl: "ref_id ` set (required_entities ins) = pr_id ` refs_denote pu (set wi)"
    using den [OF wi(3,2), of "\<lambda>r. True"] rq by (simp add: image_image case_prod_unfold)
  have "r \<notin> set wo" if "r \<in> set wd" for r
    using d that wo(2) wd(2) [symmetric] by auto
  then have dis: "set wo \<inter> set wd = {}" by blast
  have "decode i \<noteq> None" if i: "i \<in> set (modified outs)" for i
  proof -
    obtain r p where "(r, p) \<in> set ors" "r \<in> set (map fst irs)" "i = pr_id p"
      using i o by auto
    then show ?thesis using o wo(3) kind_in_id_decodes by blast
  qed
  moreover have "decode i \<noteq> None" if i: "i \<in> set (deleted outs)" for i
  proof -
    obtain r p where "(r, p) \<in> set drs" "i = pr_id p"
      using i d by auto
    then show ?thesis using d wd(3) kind_in_id_decodes by blast
  qed
  ultimately have dec: "\<forall>i \<in> set (modified outs) \<union> set (deleted outs). decode i \<noteq> None"
    by blast
  show ?thesis using c m dl rl dis dec wi(1) wo(1) wd(1) by blast
qed

lemma parse_ref_solid:
  "parse_ref pu ''solid:7'' = Ok \<lparr>pr_entity_type = Solid, pr_id = encode Solid 7, kind_in_id = True\<rparr>"
  "parse_ref pu ''solid:07'' = Ok \<lparr>pr_entity_type = Solid, pr_id = encode Solid 7, kind_in_id = True\<rparr>"
  "parse_ref pu ''solid:1'' = Ok \<lparr>pr_entity_type = Solid, pr_id = encode Solid 1, kind_in_id = True\<rparr>"
  "parse_ref pu ''face:2'' = Ok \<lparr>pr_entity_type = Face, pr_id = encode Face 2, kind_in_id = True\<rparr>"
proof -
  have u: "parse_u64 ''7'' = Some 7" "parse_u64 ''07'' = Some 7" "parse_u64 ''1'' = Some 1"
    "parse_u64 ''2'' = Some 2"
    by (simp_all add: parse_u64_def digit_value_def u64_bound_def)
  show "parse_ref pu ''solid:7'' = Ok \<lparr>pr_entity_type = Solid, pr_id = encode Solid 7, kind_in_id = True\<rparr>"
    using parse_ref_integer [OF u(1), of pu Solid] by simp
  show "parse_ref pu ''solid:07'' = Ok \<lparr>pr_entity_type = Solid, pr_id = encode Solid 7, kind_in_id = True\<rparr>"
    using parse_ref_integer [OF u(2), of pu Solid] by simp
  show "parse_ref pu ''solid:1'' = Ok \<lparr>pr_entity_type = Solid, pr_id = encode Solid 1, kind_in_id = True\<rparr>"
    using parse_ref_integer [OF u(3), of pu Solid] by simp
  show "parse_ref pu ''face:2'' = Ok \<lparr>pr_entity_type = Face, pr_id = encode Face 2, kind_in_id = True\<rparr>"
    using parse_ref_integer [OF u(4), of pu Face] by simp
qed

definition sample_envelope :: json where
  "sample_envelope = Json_Object
     [(''inputs'', Json_Array [Json_String ''solid:1'', Json_String ''face:2'']),
      (''outputs'', Json_Array [Json_String ''solid:1'', Json_String ''solid:7'']),
      (''deleted'', Json_Array [Json_String ''face:2''])]"

lemma sample_envelope_projected:
  "project_envelope (\<lambda>_. None) sample_envelope = Ok
     (\<lparr>required_entities =
         [\<lparr>ref_id = encode Solid 1, expected_type = Solid, validation = MustExist\<rparr>,
          \<lparr>ref_id = encode Face 2, expected_type = Face, validation = MustExist\<rparr>],
       optional_entities = [], parameters = Json_Null\<rparr>,
      \<lparr>created = [\<lparr>created_id = encode Solid 7, entity_type_of = Solid, created_name = None\<rparr>],
       modified = [encode Solid 1], deleted = [encode Face 2], side_effects = []\<rparr>)"
  by (simp add: sample_envelope_def project_envelope_def read_channel_def wire_list_def
      parse_channel_def deleted_entry_def parse_ref_solid)

theorem project_envelope_partition_witness:
  "decode (encode Solid 1) \<noteq> None \<and> decode (encode Face 2) \<noteq> None"
  using project_envelope_partition [OF sample_envelope_projected] by auto

text \<open>The check that keeps an entity from being both produced and deleted compares texts, and
  one identifier has several texts: \<open>solid:7\<close> and \<open>solid:07\<close> denote the same entity, so an
  envelope that claims it under both names passes the check and is projected to an event that
  creates and deletes the same identifier.\<close>

theorem project_envelope_alias:
  "parse_ref pu ''solid:7'' = parse_ref pu ''solid:07'' \<and>
   project_envelope pu
     (Json_Object [(''outputs'', Json_Array [Json_String ''solid:7'']),
                   (''deleted'', Json_Array [Json_String ''solid:07''])]) =
   Ok (default_inputs,
       \<lparr>created = [\<lparr>created_id = encode Solid 7, entity_type_of = Solid, created_name = None\<rparr>],
        modified = [], deleted = [encode Solid 7], side_effects = []\<rparr>)"
  by (simp add: project_envelope_def read_channel_def wire_list_def parse_channel_def
      deleted_entry_def default_inputs_def parse_ref_solid)

end
