(* ===== verification/Timeline_State.thy ===== *)
theory Timeline_State
  imports Kernel_Ref
begin

text \<open>
  \<^verbatim>\<open>timeline-engine/src/timeline.rs\<close>, the state of a \<^verbatim>\<open>Timeline\<close> and the
  operations that touch branches, checkpoints, session pointers and applied heads. Cutting a
  history and appending to it are in \<open>Timeline_Truncate\<close>, merging in \<open>Timeline_Merge\<close>, the
  engine's own self-check in \<open>Timeline_Validate\<close>.

  A \<open>timeline\<close> is the ten shared maps of the source as one record (the configuration is not
  read by any operation modelled here). Every method takes the state and returns its result
  together with the state it leaves behind, so that what an \<^verbatim>\<open>Err\<close> leaves behind can be
  stated. Each operation is one atomic step: the interleavings of concurrent callers inside an
  operation are not modelled. Clock readings, fresh identifiers and \<^verbatim>\<open>Uuid::parse_str\<close> are
  arguments. The clock is read once per operation. A session key is the printed session
  identifier.
\<close>

section \<open>State\<close>

record session_position =
  sp_branch_id :: branch_id
  sp_event_index :: event_index
  last_updated :: timestamp

datatype operation_state = Queued | Validating | Executing | Operation_Completed | Failed string

type_synonym history = "(event_index, event_id) dmap"

record timeline =
  events :: "(event_id, timeline_event) dmap"
  branch_events :: "(branch_id, history) dmap"
  event_counter :: event_index
  branches :: "(branch_id, branch) dmap"
  checkpoints :: "(checkpoint_id, checkpoint) dmap"
  entity_events :: "(entity_id, event_id list) dmap"
  session_positions :: "(session_id, session_position) dmap"
  active_operations :: "(event_id, operation_state) dmap"
  applied_heads :: "(branch_id, event_index) dmap"

definition main_branch_record :: "timestamp \<Rightarrow> branch" where
  "main_branch_record now =
     \<lparr>br_id = main_branch, br_name = ''main'',
      br_fork_point = \<lparr>fp_branch_id = main_branch, fp_event_index = 0, fp_timestamp = now\<rparr>,
      br_parent = None, br_events = [], br_state = Active,
      br_metadata = \<lparr>created_by = System, created_at = now,
                     purpose = UserExploration ''Main timeline'', branch_ai_context = None,
                     checkpoint_ids = []\<rparr>,
      protected = True, hidden = False\<rparr>"

definition new_timeline :: "timestamp \<Rightarrow> timeline" where
  "new_timeline now =
     \<lparr>events = [], branch_events = [(main_branch, [])], event_counter = 0,
      branches = [(main_branch, main_branch_record now)], checkpoints = [], entity_events = [],
      session_positions = [], active_operations = [], applied_heads = []\<rparr>"

text \<open>\<open>index_of t b\<close> is the history index of a branch, \<^verbatim>\<open>branch_events.get(&b)\<close>.\<close>

abbreviation index_of :: "timeline \<Rightarrow> branch_id \<Rightarrow> history option" where
  "index_of t b \<equiv> map_of (branch_events t) b"

definition branch_index :: "timeline \<Rightarrow> branch_id \<Rightarrow> history timeline_result" where
  "branch_index t b = (case index_of t b of None \<Rightarrow> Err (BranchNotFound b) | Some m \<Rightarrow> Ok m)"

definition put_index :: "branch_id \<Rightarrow> (history \<Rightarrow> history) \<Rightarrow> timeline \<Rightarrow> timeline" where
  "put_index b f t = t\<lparr>branch_events := modify_entry b f (branch_events t)\<rparr>"

definition set_branch_state :: "branch_id \<Rightarrow> branch_state \<Rightarrow> timeline \<Rightarrow> timeline" where
  "set_branch_state b s t =
     t\<lparr>branches := modify_entry b (br_state_update (\<lambda>_. s)) (branches t)\<rparr>"

section \<open>Sequence numbers\<close>

definition next_sequence_number :: "timeline \<Rightarrow> nat" where
  "next_sequence_number t = event_counter t"

definition reserve_sequence_number :: "timeline \<Rightarrow> nat \<times> timeline" where
  "reserve_sequence_number t =
     (event_counter t, t\<lparr>event_counter := wrapping_succ (event_counter t)\<rparr>)"

definition ensure_next_sequence_at_least :: "nat \<Rightarrow> timeline \<Rightarrow> timeline" where
  "ensure_next_sequence_at_least next t =
     (if event_counter t < next then t\<lparr>event_counter := next\<rparr> else t)"

definition ledger_mark :: "timeline \<Rightarrow> nat \<times> nat" where
  "ledger_mark t = (next_sequence_number t, length (events t))"

section \<open>Reading a history\<close>

definition branch_event_keys_sorted :: "timeline \<Rightarrow> branch_id \<Rightarrow> event_index list timeline_result" where
  "branch_event_keys_sorted t b =
     (case index_of t b of None \<Rightarrow> Err (BranchNotFound b) | Some m \<Rightarrow> Ok (sort (dkeys m)))"

definition branch_sequence :: "timeline \<Rightarrow> branch_id \<Rightarrow> (event_index \<times> event_id) list timeline_result" where
  "branch_sequence t b =
     (case index_of t b of None \<Rightarrow> Err (BranchNotFound b) | Some m \<Rightarrow> Ok (sorted_entries m))"

definition events_for :: "timeline \<Rightarrow> (event_index \<times> event_id) list \<Rightarrow> timeline_event list" where
  "events_for t seq = List.map_filter (\<lambda>(_, eid). map_of (events t) eid) seq"

definition get_branch_events ::
  "timeline \<Rightarrow> branch_id \<Rightarrow> event_index option \<Rightarrow> nat option \<Rightarrow> timeline_event list timeline_result" where
  "get_branch_events t b start limit =
     (case index_of t b of None \<Rightarrow> Err (BranchNotFound b) | Some m \<Rightarrow>
        let start_idx = case start of None \<Rightarrow> 0 | Some s \<Rightarrow> s;
            keyed = filter (\<lambda>(idx, _). start_idx \<le> idx) (sorted_entries m);
            page = case limit of None \<Rightarrow> keyed | Some n \<Rightarrow> take n keyed
        in Ok (sort_key sequence_number (events_for t page)))"

definition get_branch_head :: "timeline \<Rightarrow> branch_id \<Rightarrow> event_index timeline_result" where
  "get_branch_head t b =
     (case index_of t b of None \<Rightarrow> Err (BranchNotFound b)
      | Some m \<Rightarrow> Ok (fold max (dkeys m) 0))"

definition get_event :: "timeline \<Rightarrow> event_id \<Rightarrow> timeline_event option" where
  "get_event t e = map_of (events t) e"

definition find_event_index :: "timeline \<Rightarrow> branch_id \<Rightarrow> event_id \<Rightarrow> event_index option" where
  "find_event_index t b e =
     (case index_of t b of None \<Rightarrow> None
      | Some m \<Rightarrow> map_option fst (List.find (\<lambda>(_, eid). eid = e) m))"

definition get_event_entities :: "timeline \<Rightarrow> event_id \<Rightarrow> entity_id list timeline_result" where
  "get_event_entities t e =
     (case map_of (events t) e of None \<Rightarrow> Err (EventNotFound e)
      | Some ev \<Rightarrow> Ok (map created_id (created (te_outputs ev)) @ modified (te_outputs ev) @
                       deleted (te_outputs ev)))"

section \<open>Checkpoints\<close>

definition create_checkpoint ::
  "checkpoint_id \<Rightarrow> timestamp \<Rightarrow> string \<Rightarrow> string \<Rightarrow> branch_id \<Rightarrow> author \<Rightarrow> string list \<Rightarrow> bool \<Rightarrow>
   timeline \<Rightarrow> checkpoint_id timeline_result \<times> timeline" where
  "create_checkpoint fresh now name description b author tags skip t =
     (case index_of t b of None \<Rightarrow> (Err (BranchNotFound b), t)
      | Some m \<Rightarrow>
          let keys = sort (dkeys m);
              range = if m = [] then (0, 0) else (hd keys, last keys);
              cp = \<lparr>cp_id = fresh, cp_name = name, cp_description = description,
                    event_range = range, cp_branch_id = b, cp_author = author,
                    cp_timestamp = now, cp_tags = tags, cp_skip_verification = skip\<rparr>
          in (Ok fresh,
              t\<lparr>checkpoints := AList.update fresh cp (checkpoints t),
                 branches := modify_entry b
                   (\<lambda>br. br\<lparr>br_metadata := (br_metadata br)
                            \<lparr>checkpoint_ids := checkpoint_ids (br_metadata br) @ [fresh]\<rparr>\<rparr>)
                   (branches t)\<rparr>))"

definition list_checkpoints :: "timeline \<Rightarrow> checkpoint list" where
  "list_checkpoints t = rev (sort_key cp_timestamp (rev (map snd (checkpoints t))))"

definition get_checkpoint :: "timeline \<Rightarrow> checkpoint_id \<Rightarrow> checkpoint option" where
  "get_checkpoint t c = map_of (checkpoints t) c"

definition remove_checkpoint :: "checkpoint_id \<Rightarrow> timeline \<Rightarrow> checkpoint option \<times> timeline" where
  "remove_checkpoint c t =
     (case map_of (checkpoints t) c of None \<Rightarrow> (None, t)
      | Some cp \<Rightarrow>
          (Some cp,
           t\<lparr>checkpoints := AList.delete c (checkpoints t),
              branches := modify_entry (cp_branch_id cp)
                (\<lambda>br. br\<lparr>br_metadata := (br_metadata br)
                         \<lparr>checkpoint_ids := filter (\<lambda>c'. c' \<noteq> c) (checkpoint_ids (br_metadata br))\<rparr>\<rparr>)
                (branches t)\<rparr>))"

definition rehydrate_checkpoint :: "checkpoint \<Rightarrow> timeline \<Rightarrow> timeline" where
  "rehydrate_checkpoint cp t =
     t\<lparr>checkpoints := AList.update (cp_id cp) cp (checkpoints t),
        branches := modify_entry (cp_branch_id cp)
          (\<lambda>br. if cp_id cp \<in> set (checkpoint_ids (br_metadata br)) then br
                 else br\<lparr>br_metadata := (br_metadata br)
                          \<lparr>checkpoint_ids := checkpoint_ids (br_metadata br) @ [cp_id cp]\<rparr>\<rparr>)
          (branches t)\<rparr>"

definition get_branch_checkpoints :: "timeline \<Rightarrow> branch_id \<Rightarrow> checkpoint_id list" where
  "get_branch_checkpoints t b =
     (case map_of (branches t) b of None \<Rightarrow> [] | Some br \<Rightarrow> checkpoint_ids (br_metadata br))"

section \<open>Branches\<close>

definition create_branch ::
  "branch_id \<Rightarrow> timestamp \<Rightarrow> string \<Rightarrow> branch_id \<Rightarrow> event_index option \<Rightarrow> author \<Rightarrow>
   branch_purpose \<Rightarrow> timeline \<Rightarrow> branch_id timeline_result \<times> timeline" where
  "create_branch fresh now name parent fork_at author why t =
     (if \<not> contains_key (branches t) parent then (Err (BranchNotFound parent), t)
      else
        let fork_index = (case fork_at of Some k \<Rightarrow> k
                          | None \<Rightarrow> (case get_branch_head t parent of Err _ \<Rightarrow> 0 | Ok h \<Rightarrow> h));
            br = \<lparr>br_id = fresh, br_name = name,
                  br_fork_point = \<lparr>fp_branch_id = parent, fp_event_index = fork_index,
                                   fp_timestamp = now\<rparr>,
                  br_parent = Some parent, br_events = [], br_state = Active,
                  br_metadata = \<lparr>created_by = author, created_at = now, purpose = why,
                                 branch_ai_context = None, checkpoint_ids = []\<rparr>,
                  protected = False, hidden = False\<rparr>;
            child = (case index_of t parent of None \<Rightarrow> []
                     | Some m \<Rightarrow> filter (\<lambda>(idx, _). idx \<le> fork_index) m)
        in (Ok fresh,
            t\<lparr>branch_events := AList.update fresh child (branch_events t),
              branches := AList.update fresh br (branches t)\<rparr>))"

definition create_branch_simple ::
  "branch_id \<Rightarrow> timestamp \<Rightarrow> string \<Rightarrow> string option \<Rightarrow> branch_purpose \<Rightarrow> timeline \<Rightarrow>
   branch_id timeline_result \<times> timeline" where
  "create_branch_simple fresh now name description why t =
     create_branch fresh now name main_branch None System
       (case description of Some d \<Rightarrow> UserExploration d | None \<Rightarrow> why) t"

definition remove_branch :: "branch_id \<Rightarrow> timeline \<Rightarrow> bool \<times> timeline" where
  "remove_branch b t =
     (if (case map_of (branches t) b of None \<Rightarrow> False | Some br \<Rightarrow> protected br) \<or> b = main_branch
      then (False, t)
      else (contains_key (branches t) b,
            t\<lparr>branches := AList.delete b (branches t),
              branch_events := AList.delete b (branch_events t)\<rparr>))"

definition switch_branch :: "branch_id \<Rightarrow> timeline \<Rightarrow> unit timeline_result" where
  "switch_branch b t = (if contains_key (branches t) b then Ok () else Err (BranchNotFound b))"

definition abandon_branch ::
  "branch_id \<Rightarrow> string \<Rightarrow> bool \<Rightarrow> timeline \<Rightarrow> unit timeline_result \<times> timeline" where
  "abandon_branch b reason force t =
     (case map_of (branches t) b of None \<Rightarrow> (Err (BranchNotFound b), t)
      | Some br \<Rightarrow>
          if protected br \<and> \<not> force then (Err (InvalidOperation (Abandon_protected b)), t)
          else (case br_state br of
                  Active \<Rightarrow> (Ok (), set_branch_state b (Abandoned (Given reason)) t)
                | other \<Rightarrow> (Err (InvalidOperation (Abandon_not_active b other)), t)))"

definition is_branch_active :: "timeline \<Rightarrow> branch_id \<Rightarrow> bool" where
  "is_branch_active t b =
     (case map_of (branches t) b of None \<Rightarrow> False | Some br \<Rightarrow> br_state br = Active)"

definition restore_branch_state ::
  "branch_id \<Rightarrow> branch_state \<Rightarrow> timeline \<Rightarrow> unit timeline_result \<times> timeline" where
  "restore_branch_state b s t =
     (if contains_key (branches t) b then (Ok (), set_branch_state b s t)
      else (Err (BranchNotFound b), t))"

section \<open>Session pointers\<close>

definition update_session_position ::
  "session_id \<Rightarrow> branch_id \<Rightarrow> event_index \<Rightarrow> timestamp \<Rightarrow> timeline \<Rightarrow>
   unit timeline_result \<times> timeline" where
  "update_session_position sid b k now t =
     (case index_of t b of None \<Rightarrow> (Err (BranchNotFound b), t)
      | Some m \<Rightarrow>
          if length m < k then (Err (InvalidOperation (Index_exceeds_length k (length m) b)), t)
          else (Ok (),
                t\<lparr>session_positions := AList.update sid
                     \<lparr>sp_branch_id = b, sp_event_index = k, last_updated = now\<rparr>
                     (session_positions t)\<rparr>))"

definition undo :: "timestamp \<Rightarrow> session_id \<Rightarrow> timeline \<Rightarrow> event_id timeline_result \<times> timeline" where
  "undo now sid t =
     (case map_of (session_positions t) sid of None \<Rightarrow> (Err SessionNotFound, t)
      | Some pos \<Rightarrow>
          if sp_event_index pos = 0 then (Err NoMoreUndo, t)
          else (case branch_event_keys_sorted t (sp_branch_id pos) of Err e \<Rightarrow> (Err e, t)
          | Ok sorted_keys \<Rightarrow>
              let kth = sp_event_index pos - 1 in
              if length sorted_keys \<le> kth
              then (Err (Internal (Position_past_end (sp_event_index pos) (length sorted_keys)
                                    (sp_branch_id pos))), t)
              else
                let target_key = sorted_keys ! kth in
                (case index_of t (sp_branch_id pos) of
                   None \<Rightarrow> (Err (BranchNotFound (sp_branch_id pos)), t)
                 | Some m \<Rightarrow>
                     (case map_of m target_key of
                        None \<Rightarrow> (Err (Internal (Lost_event (sp_branch_id pos) target_key)), t)
                      | Some eid \<Rightarrow>
                          (case update_session_position sid (sp_branch_id pos)
                                  (sp_event_index pos - 1) now t of
                             (Err e, t') \<Rightarrow> (Err e, t')
                           | (Ok _, t') \<Rightarrow> (Ok eid, t'))))))"

definition redo :: "timestamp \<Rightarrow> session_id \<Rightarrow> timeline \<Rightarrow> event_id timeline_result \<times> timeline" where
  "redo now sid t =
     (case map_of (session_positions t) sid of None \<Rightarrow> (Err SessionNotFound, t)
      | Some pos \<Rightarrow>
          (case branch_event_keys_sorted t (sp_branch_id pos) of Err e \<Rightarrow> (Err e, t)
           | Ok sorted_keys \<Rightarrow>
               let next_kth = sp_event_index pos in
               if length sorted_keys \<le> next_kth then (Err NoMoreRedo, t)
               else
                 let target_key = sorted_keys ! next_kth in
                 (case index_of t (sp_branch_id pos) of
                    None \<Rightarrow> (Err (BranchNotFound (sp_branch_id pos)), t)
                  | Some m \<Rightarrow>
                      (case map_of m target_key of
                         None \<Rightarrow> (Err (Internal (Lost_event (sp_branch_id pos) target_key)), t)
                       | Some eid \<Rightarrow>
                           (case update_session_position sid (sp_branch_id pos)
                                   (sp_event_index pos + 1) now t of
                              (Err e, t') \<Rightarrow> (Err e, t')
                            | (Ok _, t') \<Rightarrow> (Ok eid, t'))))))"

section \<open>Applied heads\<close>

definition applied_head :: "timeline \<Rightarrow> branch_id \<Rightarrow> event_index option" where
  "applied_head t b = map_of (applied_heads t) b"

definition applied_count :: "timeline \<Rightarrow> branch_id \<Rightarrow> event_index timeline_result" where
  "applied_count t b =
     (case index_of t b of None \<Rightarrow> Err (BranchNotFound b)
      | Some m \<Rightarrow>
          Ok (case applied_head t b of None \<Rightarrow> length m | Some head \<Rightarrow> min head (length m)))"

definition set_applied_head ::
  "branch_id \<Rightarrow> event_index \<Rightarrow> timeline \<Rightarrow> unit timeline_result \<times> timeline" where
  "set_applied_head b k t =
     (case index_of t b of None \<Rightarrow> (Err (BranchNotFound b), t)
      | Some m \<Rightarrow>
          if length m < k then (Err (InvalidOperation (Head_exceeds_length k (length m) b)), t)
          else if k = length m
          then (Ok (), t\<lparr>applied_heads := AList.delete b (applied_heads t)\<rparr>)
          else (Ok (), t\<lparr>applied_heads := AList.update b k (applied_heads t)\<rparr>))"

definition applied_head_sequence ::
  "timeline \<Rightarrow> branch_id \<Rightarrow> event_index \<Rightarrow> nat option timeline_result" where
  "applied_head_sequence t b k =
     (case branch_event_keys_sorted t b of Err e \<Rightarrow> Err e
      | Ok keys \<Rightarrow>
          if k = 0 then Ok None
          else if k - 1 < length keys then Ok (Some (keys ! (k - 1)))
          else Err (InvalidOperation (Head_exceeds_length k (length keys) b)))"

definition applied_head_state ::
  "timeline \<Rightarrow> branch_id \<Rightarrow> nat option option timeline_result" where
  "applied_head_state t b =
     (case applied_head t b of None \<Rightarrow> Ok None
      | Some k \<Rightarrow> (case applied_head_sequence t b k of Err e \<Rightarrow> Err e | Ok s \<Rightarrow> Ok (Some s)))"

definition restore_applied_head_state ::
  "branch_id \<Rightarrow> nat option option \<Rightarrow> timeline \<Rightarrow> unit timeline_result \<times> timeline" where
  "restore_applied_head_state b state t =
     (case state of
        None \<Rightarrow>
          (case branch_event_keys_sorted t b of Err e \<Rightarrow> (Err e, t)
           | Ok _ \<Rightarrow> (Ok (), t\<lparr>applied_heads := AList.delete b (applied_heads t)\<rparr>))
      | Some last_applied \<Rightarrow>
          (case branch_event_keys_sorted t b of Err e \<Rightarrow> (Err e, t)
           | Ok keys \<Rightarrow>
               set_applied_head b
                 (case last_applied of None \<Rightarrow> 0
                  | Some seq \<Rightarrow> length (filter (\<lambda>key. key \<le> seq) keys)) t))"

section \<open>Restoring a persisted timeline\<close>

definition rehydrate_branch ::
  "timestamp \<Rightarrow> branch_id \<Rightarrow> string \<Rightarrow> branch_id option \<Rightarrow> event_index \<Rightarrow> author option \<Rightarrow>
   timeline \<Rightarrow> timeline" where
  "rehydrate_branch now b name parent fork_event_index author t =
     (if b = main_branch then t
      else
        let br = \<lparr>br_id = b, br_name = name,
                  br_fork_point = \<lparr>fp_branch_id = (case parent of None \<Rightarrow> main_branch | Some p \<Rightarrow> p),
                                   fp_event_index = fork_event_index, fp_timestamp = now\<rparr>,
                  br_parent = parent, br_events = [], br_state = Active,
                  br_metadata = \<lparr>created_by = (case author of None \<Rightarrow> System | Some a \<Rightarrow> a),
                                 created_at = now,
                                 purpose = UserExploration ''restored from durable storage'',
                                 branch_ai_context = None, checkpoint_ids = []\<rparr>,
                  protected = False, hidden = False\<rparr>
        in t\<lparr>branch_events := (if contains_key (branch_events t) b then branch_events t
                               else AList.update b [] (branch_events t)),
             branches := AList.update b br (branches t)\<rparr>)"

fun entries_mismatch ::
  "timeline \<Rightarrow> branch_id \<Rightarrow> (event_index \<times> event_id) list \<Rightarrow> timeline_error option" where
  "entries_mismatch t b [] = None"
| "entries_mismatch t b ((sequence, eid) # rest) =
     (case map_of (events t) eid of None \<Rightarrow> Some (EventNotFound eid)
      | Some ev \<Rightarrow>
          if sequence_number ev \<noteq> sequence
          then Some (Internal (Wrong_position eid (sequence_number ev) sequence b))
          else entries_mismatch t b rest)"

definition rehydrate_branch_entries ::
  "branch_id \<Rightarrow> (event_index \<times> event_id) list \<Rightarrow> timeline \<Rightarrow> unit timeline_result \<times> timeline" where
  "rehydrate_branch_entries b entries t =
     (if \<not> contains_key (branches t) b then (Err (BranchNotFound b), t)
      else case entries_mismatch t b entries of
        Some e \<Rightarrow> (Err e, t)
      | None \<Rightarrow>
          if \<not> contains_key (branch_events t) b then (Err (BranchNotFound b), t)
          else (Ok (), put_index b (fold (\<lambda>(k, e). AList.update k e) entries) t))"

definition remove_branch_entries ::
  "branch_id \<Rightarrow> event_index list \<Rightarrow> timeline \<Rightarrow> unit timeline_result \<times> timeline" where
  "remove_branch_entries b sequences t =
     (if \<not> contains_key (branch_events t) b then (Err (BranchNotFound b), t)
      else (Ok (), put_index b (fold AList.delete sequences) t))"

definition revert_merge ::
  "branch_id \<Rightarrow> branch_id \<Rightarrow> event_index list \<Rightarrow> timeline \<Rightarrow> unit timeline_result \<times> timeline" where
  "revert_merge source target inserted t =
     (case map_of (branches t) source of None \<Rightarrow> (Err (BranchNotFound source), t)
      | Some br \<Rightarrow>
          if (case br_state br of Merged into _ \<Rightarrow> into = target | _ \<Rightarrow> False)
          then
            if \<not> contains_key (branch_events t) target then (Err (BranchNotFound target), t)
            else (Ok (), set_branch_state source Active
                           (put_index target (fold AList.delete inserted) t))
          else (Err (InvalidOperation (Not_merged_into source target (br_state br))), t))"

end
