(* ===== verification/Timeline_Truncate.thy ===== *)
theory Timeline_Truncate
  imports Timeline_State
begin

text \<open>
  \<^verbatim>\<open>timeline-engine/src/timeline.rs\<close>: cutting a history (\<open>truncate_branch\<close>), the redo tail a
  new operation discards (\<open>discard_redo_tail\<close>), and appending an event (\<open>append_internal\<close> and
  its wrappers), with the lineage channels an event is given when it is appended.

  \<open>truncate_plan\<close> is computed from the state before anything is mutated and \<open>apply_truncate_plan\<close>
  performs it; the source shares both between the truncate of a caller and the discard of an
  append. A \<^verbatim>\<open>HashSet\<close> of event ids is a list without repetitions. The certificate an append
  may carry is the JSON value it serialises to (\<open>None\<close>: no certificate, or one that does not
  serialise).
\<close>

section \<open>Lineage channels\<close>

definition index_event_entities ::
  "event_id \<Rightarrow> operation_inputs \<Rightarrow> operation_outputs \<Rightarrow> timeline \<Rightarrow> timeline" where
  "index_event_entities eid ins outs t =
     (let mentioned = map ref_id (required_entities ins @ optional_entities ins) @
                      map created_id (created outs) @ modified outs @ deleted outs;
          add = (\<lambda>entity m.
            let es = (case map_of m entity of None \<Rightarrow> [] | Some es \<Rightarrow> es)
            in AList.update entity (if eid \<in> set es then es else es @ [eid]) m)
      in t\<lparr>entity_events := fold add (rev (remdups (rev mentioned))) (entity_events t)\<rparr>)"

text \<open>The operation's own fields, each with the kind its field names. \<open>Boolean\<close> is one of the
  variants the last arm of the source's match gives no inputs.\<close>

fun required_of :: "operation \<Rightarrow> (entity_id \<times> entity_type) list" where
  "required_of (CreatePrimitive _ _) = []"
| "required_of (CreateSketch _ _) = []"
| "required_of (Extrude sketch _ _) = [(sketch, Sketch)]"
| "required_of (Revolve sketch _ _) = [(sketch, Sketch)]"
| "required_of (Loft profiles _) = map (\<lambda>i. (i, Sketch)) profiles"
| "required_of (Sweep profile path) = [(profile, Sketch), (path, Curve)]"
| "required_of (BooleanUnion operands) = map (\<lambda>i. (i, Solid)) operands"
| "required_of (BooleanIntersection operands) = map (\<lambda>i. (i, Solid)) operands"
| "required_of (BooleanDifference target tools) = (target, Solid) # map (\<lambda>i. (i, Solid)) tools"
| "required_of (Fillet edges _ _) = map (\<lambda>i. (i, Edge)) edges"
| "required_of (Chamfer edges _ _) = map (\<lambda>i. (i, Edge)) edges"
| "required_of (Pattern features _) = map (\<lambda>i. (i, Solid)) features"
| "required_of (Transform entities _) = map (\<lambda>i. (i, Solid)) entities"
| "required_of (Delete entities) = map (\<lambda>i. (i, Solid)) entities"
| "required_of (Modify entity _) = [(entity, Solid)]"
| "required_of _ = []"

definition lineage_channels ::
  "(string \<Rightarrow> uuid option) \<Rightarrow> operation \<Rightarrow> operation_inputs \<times> operation_outputs" where
  "lineage_channels pu op =
     (case op of
        Generic command_type params \<Rightarrow>
          (case project_envelope pu params of
             Ok channels \<Rightarrow> channels
           | Err _ \<Rightarrow> (default_inputs, default_outputs))
      | _ \<Rightarrow>
          (\<lparr>required_entities =
              map (\<lambda>(i, k). \<lparr>ref_id = i, expected_type = k, validation = MustExist\<rparr>) (required_of op),
            optional_entities = [], parameters = Json_Null\<rparr>,
           default_outputs))"

section \<open>Cutting a history\<close>

record truncate_plan =
  plan_branch :: branch_id
  plan_removed :: "(event_index \<times> event_id) list"
  plan_cascaded :: "branch_id list"
  plan_purged :: "event_id list"

definition post_truncate_index ::
  "timeline \<Rightarrow> truncate_plan \<Rightarrow> branch_id \<Rightarrow> (event_index \<times> event_id) list" where
  "post_truncate_index t plan b =
     (let scrubbed = b = plan_branch plan \<or> b \<in> set (plan_cascaded plan);
          removed_keys = map fst (plan_removed plan)
      in case index_of t b of None \<Rightarrow> []
         | Some m \<Rightarrow> sorted_entries (filter (\<lambda>(k, _). \<not> (scrubbed \<and> k \<in> set removed_keys)) m))"

definition truncate_plan :: "timeline \<Rightarrow> branch_id \<Rightarrow> event_index \<Rightarrow> truncate_plan timeline_result" where
  "truncate_plan t b cut_at =
     (case index_of t b of None \<Rightarrow> Err (BranchNotFound b)
      | Some m \<Rightarrow>
          let removed = filter (\<lambda>(k, _). cut_at \<le> k) m;
              cascaded = map fst (filter (\<lambda>(_, br). br_parent br = Some b \<and>
                            cut_at \<le> fp_event_index (br_fork_point br) \<and> br_state br = Active)
                          (branches t));
              plan = \<lparr>plan_branch = b, plan_removed = removed, plan_cascaded = cascaded,
                      plan_purged = []\<rparr>;
              still_referenced = concat (map (\<lambda>b'. map snd (post_truncate_index t plan b'))
                                           (dkeys (branch_events t)))
          in Ok (plan\<lparr>plan_purged :=
                   remdups (filter (\<lambda>e. e \<notin> set still_referenced) (map snd removed))\<rparr>))"

definition branch_len :: "timeline \<Rightarrow> branch_id \<Rightarrow> nat" where
  "branch_len t b = (case index_of t b of None \<Rightarrow> 0 | Some m \<Rightarrow> length m)"

definition drop_keys :: "event_index list \<Rightarrow> branch_id \<Rightarrow> timeline \<Rightarrow> timeline" where
  "drop_keys ks b t = put_index b (fold AList.delete ks) t"

definition purge_events :: "event_id list \<Rightarrow> timeline \<Rightarrow> timeline" where
  "purge_events purged t =
     t\<lparr>events := fold AList.delete purged (events t),
       entity_events :=
         (if purged = [] then entity_events t
          else map_values (\<lambda>_ es. filter (\<lambda>e. e \<notin> set purged) es) (entity_events t))\<rparr>"

definition clamp_position ::
  "timestamp \<Rightarrow> branch_id \<Rightarrow> nat \<Rightarrow> (branch_id \<times> nat) list \<Rightarrow> session_position \<Rightarrow> session_position" where
  "clamp_position now b truncated_len child_lens pos =
     (if sp_branch_id pos = b \<and> truncated_len < sp_event_index pos
      then pos\<lparr>sp_event_index := truncated_len, last_updated := now\<rparr>
      else case map_of child_lens (sp_branch_id pos) of
             None \<Rightarrow> pos
           | Some clen \<Rightarrow>
               if clen < sp_event_index pos then pos\<lparr>sp_event_index := clen, last_updated := now\<rparr>
               else pos)"

definition clamp_pointers :: "timestamp \<Rightarrow> branch_id \<Rightarrow> branch_id list \<Rightarrow> timeline \<Rightarrow> timeline" where
  "clamp_pointers now b children t =
     (let child_lens = map (\<lambda>c. (c, branch_len t c)) children;
          heads = (b, branch_len t b) # child_lens
      in t\<lparr>session_positions :=
             map_values (\<lambda>_. clamp_position now b (branch_len t b) child_lens) (session_positions t),
           applied_heads :=
             fold (\<lambda>(br, len) m. filter (\<lambda>(br', head). \<not> (br' = br \<and> len \<le> head)) m) heads
               (applied_heads t)\<rparr>)"

definition apply_truncate_plan :: "timestamp \<Rightarrow> truncate_plan \<Rightarrow> event_index \<Rightarrow> timeline \<Rightarrow> timeline" where
  "apply_truncate_plan now plan cut_at t =
     (let b = plan_branch plan;
          children = plan_cascaded plan;
          ks = map fst (plan_removed plan)
      in clamp_pointers now b children
           (fold (\<lambda>c. set_branch_state c (Abandoned (Parent_truncated b cut_at))) children
             (purge_events (plan_purged plan)
               (fold (drop_keys ks) children (drop_keys ks b t)))))"

definition truncate_branch ::
  "timestamp \<Rightarrow> branch_id \<Rightarrow> event_index \<Rightarrow> bool \<Rightarrow> timeline \<Rightarrow> nat timeline_result \<times> timeline" where
  "truncate_branch now b cut_at force t =
     (if (case map_of (branches t) b of None \<Rightarrow> False | Some br \<Rightarrow> protected br \<and> \<not> force)
      then (Err (InvalidOperation (Truncate_protected b)), t)
      else case truncate_plan t b cut_at of
             Err e \<Rightarrow> (Err e, t)
           | Ok plan \<Rightarrow> (Ok (length (plan_removed plan)), apply_truncate_plan now plan cut_at t))"

section \<open>The redo tail\<close>

record redo_tail_discard =
  rt_branch :: branch
  rt_removed_sequences :: "nat list"
  rt_purged_sequences :: "nat list"
  rt_cascaded :: "branch list"

definition clear_head :: "branch_id \<Rightarrow> timeline \<Rightarrow> timeline" where
  "clear_head b t = t\<lparr>applied_heads := AList.delete b (applied_heads t)\<rparr>"

definition discard_redo_tail ::
  "timestamp \<Rightarrow> branch_id \<Rightarrow> timeline \<Rightarrow> redo_tail_discard option timeline_result \<times> timeline" where
  "discard_redo_tail now b t =
     (case applied_head t b of None \<Rightarrow> (Ok None, t)
      | Some applied \<Rightarrow>
     (case branch_event_keys_sorted t b of Err e \<Rightarrow> (Err e, t)
      | Ok keys \<Rightarrow>
     if length keys \<le> applied then (Ok None, clear_head b t)
     else let cut_at = keys ! applied in
     (case truncate_plan t b cut_at of Err e \<Rightarrow> (Err e, t)
      | Ok plan \<Rightarrow>
          let t' = clear_head b (apply_truncate_plan now plan cut_at t);
              removed_sequences = sort (map fst (plan_removed plan));
              purged_sequences =
                sort (map fst (filter (\<lambda>(_, e). e \<in> set (plan_purged plan)) (plan_removed plan)))
          in (case map_of (branches t') b of None \<Rightarrow> (Err (BranchNotFound b), t')
              | Some br \<Rightarrow>
                  (Ok (Some \<lparr>rt_branch = br, rt_removed_sequences = removed_sequences,
                             rt_purged_sequences = purged_sequences,
                             rt_cascaded =
                               List.map_filter (map_of (branches t')) (plan_cascaded plan)\<rparr>), t')))))"

section \<open>Appending\<close>

definition EVENT_CERTIFICATE_KEY :: string where
  "EVENT_CERTIFICATE_KEY = ''certificate''"

definition store_in :: "json \<Rightarrow> event_metadata \<Rightarrow> event_metadata" where
  "store_in value md =
     md\<lparr>md_properties := AList.update EVENT_CERTIFICATE_KEY value (md_properties md)\<rparr>"

fun append_refusal :: "branch_id \<Rightarrow> branch_state \<Rightarrow> timeline_error option" where
  "append_refusal b Active = None"
| "append_refusal b (Merged into _) = Some (InvalidOperation (Append_to_merged b into))"
| "append_refusal b (Abandoned reason) = Some (InvalidOperation (Append_to_abandoned b reason))"
| "append_refusal b (Completed score) = Some (InvalidOperation (Append_to_completed b score))"

definition new_event ::
  "(string \<Rightarrow> uuid option) \<Rightarrow> event_id \<Rightarrow> timestamp \<Rightarrow> nat \<Rightarrow> operation \<Rightarrow> author \<Rightarrow> branch_id \<Rightarrow>
   json option \<Rightarrow> timeline_event" where
  "new_event pu eid now seq op author b certificate =
     (let md = \<lparr>md_description = None, md_branch_id = b, md_tags = [], md_properties = []\<rparr>
      in \<lparr>te_id = eid, sequence_number = seq, te_timestamp = now, te_author = author,
          te_operation = op, te_inputs = fst (lineage_channels pu op),
          te_outputs = snd (lineage_channels pu op),
          te_metadata = (case certificate of None \<Rightarrow> md | Some value \<Rightarrow> store_in value md)\<rparr>)"

definition insert_event :: "timeline_event \<Rightarrow> branch_id \<Rightarrow> timeline \<Rightarrow> unit timeline_result \<times> timeline" where
  "insert_event ev b t =
     (let t1 = t\<lparr>events := AList.update (te_id ev) ev (events t)\<rparr>
      in if contains_key (branch_events t1) b
         then (Ok (), (index_event_entities (te_id ev) (te_inputs ev) (te_outputs ev)
                 (put_index b (AList.update (sequence_number ev) (te_id ev)) t1)))
         else (Err (BranchNotFound b), t1\<lparr>events := AList.delete (te_id ev) (events t1)\<rparr>))"

definition append_internal ::
  "(string \<Rightarrow> uuid option) \<Rightarrow> event_id \<Rightarrow> timestamp \<Rightarrow> operation \<Rightarrow> author \<Rightarrow> branch_id \<Rightarrow>
   nat option \<Rightarrow> json option \<Rightarrow> timeline \<Rightarrow>
   (event_id \<times> redo_tail_discard option) timeline_result \<times> timeline" where
  "append_internal pu eid now op author b reserved certificate t =
     (case map_of (branches t) b of None \<Rightarrow> (Err (BranchNotFound b), t)
      | Some br \<Rightarrow>
     (case append_refusal b (br_state br) of Some e \<Rightarrow> (Err e, t)
      | None \<Rightarrow>
     if \<not> contains_key (branch_events t) b then (Err (BranchNotFound b), t)
     else
     (case discard_redo_tail now b t of (Err e, t1) \<Rightarrow> (Err e, t1)
      | (Ok discarded, t1) \<Rightarrow>
          let (seq, t2) = (case reserved of Some s \<Rightarrow> (s, t1) | None \<Rightarrow> reserve_sequence_number t1);
              ev = new_event pu eid now seq op author b certificate
          in (case insert_event ev b t2 of (Err e, t3) \<Rightarrow> (Err e, t3)
              | (Ok _, t3) \<Rightarrow>
                  (Ok (eid, discarded),
                   t3\<lparr>active_operations := AList.update eid Validating (active_operations t3)\<rparr>)))))"

definition add_operation ::
  "(string \<Rightarrow> uuid option) \<Rightarrow> event_id \<Rightarrow> timestamp \<Rightarrow> operation \<Rightarrow> author \<Rightarrow> branch_id \<Rightarrow>
   timeline \<Rightarrow> event_id timeline_result \<times> timeline" where
  "add_operation pu eid now op author b t =
     map_prod (map_sum id fst) id (append_internal pu eid now op author b None None t)"

definition add_operation_certified ::
  "(string \<Rightarrow> uuid option) \<Rightarrow> event_id \<Rightarrow> timestamp \<Rightarrow> operation \<Rightarrow> author \<Rightarrow> branch_id \<Rightarrow>
   json option \<Rightarrow> timeline \<Rightarrow> event_id timeline_result \<times> timeline" where
  "add_operation_certified pu eid now op author b certificate t =
     map_prod (map_sum id fst) id (append_internal pu eid now op author b None certificate t)"

definition add_operation_reserved ::
  "(string \<Rightarrow> uuid option) \<Rightarrow> event_id \<Rightarrow> timestamp \<Rightarrow> operation \<Rightarrow> author \<Rightarrow> branch_id \<Rightarrow> nat \<Rightarrow>
   timeline \<Rightarrow> event_id timeline_result \<times> timeline" where
  "add_operation_reserved pu eid now op author b seq t =
     map_prod (map_sum id fst) id (append_internal pu eid now op author b (Some seq) None t)"

definition record_operation ::
  "(string \<Rightarrow> uuid option) \<Rightarrow> event_id \<Rightarrow> timestamp \<Rightarrow> session_id \<Rightarrow> operation \<Rightarrow> author \<Rightarrow>
   timeline \<Rightarrow> event_id timeline_result \<times> timeline" where
  "record_operation pu eid now sid op author t =
     (case map_of (session_positions t) sid of None \<Rightarrow> (Err SessionNotFound, t)
      | Some pos \<Rightarrow> add_operation pu eid now op author (sp_branch_id pos) t)"

section \<open>Restoring persisted events\<close>

fun rehydrate_loop ::
  "timeline_event list \<Rightarrow> nat \<Rightarrow> timeline \<Rightarrow> nat timeline_result \<times> timeline" where
  "rehydrate_loop [] next_seq t = (Ok next_seq, t)"
| "rehydrate_loop (ev # evs) next_seq t =
     (let b = origin ev; seq = sequence_number ev; eid = te_id ev in
      if \<not> contains_key (branch_events t) b then (Err (BranchNotFound b), t)
      else
        let t1 = index_event_entities eid (te_inputs ev) (te_outputs ev)
                   (put_index b (AList.update seq eid) t)
        in rehydrate_loop evs (max next_seq (saturating_succ seq))
             (t1\<lparr>events := AList.update eid ev (events t1)\<rparr>))"

definition rehydrate_events :: "timeline_event list \<Rightarrow> timeline \<Rightarrow> unit timeline_result \<times> timeline" where
  "rehydrate_events evs t =
     (case rehydrate_loop evs (event_counter t) t of
        (Err e, t') \<Rightarrow> (Err e, t')
      | (Ok next_seq, t') \<Rightarrow> (Ok (), ensure_next_sequence_at_least next_seq t'))"

end
