(* ===== verification/Timeline_Merge.thy ===== *)
theory Timeline_Merge
  imports Timeline_Truncate
begin

text \<open>
  Merging: \<^verbatim>\<open>timeline-engine/src/branch/merge.rs\<close> (the vocabulary and what an operation
  touches) and \<^verbatim>\<open>merge_branches\<close>, \<^verbatim>\<open>preview_merge\<close> and the conflict taxonomy of
  \<^verbatim>\<open>timeline.rs\<close>.

  Parameters: \<open>ser\<close> is \<^verbatim>\<open>serde_json::to_value\<close> of an operation (its derived
  \<^verbatim>\<open>Serialize\<close>), \<open>show_uuid\<close> the \<^verbatim>\<open>Display\<close> of a \<^verbatim>\<open>Uuid\<close>,
  \<open>elapsed\<close> the time a merge took.
\<close>

section \<open>What an operation touches\<close>

datatype conflict_subject = Entity entity_id | KernelRef string

fun show_subject :: "(uuid \<Rightarrow> string) \<Rightarrow> conflict_subject \<Rightarrow> string" where
  "show_subject show_uuid (Entity (EntityId u)) = ''entity:'' @ show_uuid u"
| "show_subject show_uuid (KernelRef r) = r"

record affected_subjects =
  as_deleted :: "conflict_subject list"
  as_touched :: "conflict_subject list"
  as_required :: "conflict_subject list"

definition parse_ref_array :: "json \<Rightarrow> string \<Rightarrow> string list" where
  "parse_ref_array params key =
     (case Option.bind (json_get params key) as_array of
        None \<Rightarrow> []
      | Some arr \<Rightarrow> List.map_filter as_str arr)"

definition subjects :: "conflict_subject list \<Rightarrow> conflict_subject list \<Rightarrow> conflict_subject list \<Rightarrow>
    affected_subjects" where
  "subjects d w r = \<lparr>as_deleted = d, as_touched = w, as_required = r\<rparr>"

abbreviation reading :: "conflict_subject list \<Rightarrow> affected_subjects" where
  "reading \<equiv> subjects [] []"

abbreviation writing :: "conflict_subject list \<Rightarrow> affected_subjects" where
  "writing ws \<equiv> subjects [] ws []"

fun get_affected_subjects :: "operation \<Rightarrow> affected_subjects" where
  "get_affected_subjects (CreatePrimitive _ _) = reading []"
| "get_affected_subjects (CreateSketch _ _) = reading []"
| "get_affected_subjects (CreateCheckpoint _ _ _) = reading []"
| "get_affected_subjects (Extrude sketch _ _) = reading [Entity sketch]"
| "get_affected_subjects (Revolve sketch _ _) = reading [Entity sketch]"
| "get_affected_subjects (Loft profiles _) = reading (map Entity profiles)"
| "get_affected_subjects (Sweep profile path) = reading [Entity profile, Entity path]"
| "get_affected_subjects (BooleanUnion operands) = writing (map Entity operands)"
| "get_affected_subjects (BooleanIntersection operands) = writing (map Entity operands)"
| "get_affected_subjects (BooleanDifference target tools) = writing (Entity target # map Entity tools)"
| "get_affected_subjects (Boolean _ a b) = writing [Entity a, Entity b]"
| "get_affected_subjects (Fillet edges _ _) = writing (map Entity edges)"
| "get_affected_subjects (Chamfer edges _ _) = writing (map Entity edges)"
| "get_affected_subjects (Pattern features _) = writing (map Entity features)"
| "get_affected_subjects (Transform entities _) = writing (map Entity entities)"
| "get_affected_subjects (Delete entities) = subjects (map Entity entities) [] []"
| "get_affected_subjects (Modify entity _) = writing [Entity entity]"
| "get_affected_subjects (Batch operations _) =
     subjects (concat (map (\<lambda>op. as_deleted (get_affected_subjects op)) operations))
              (concat (map (\<lambda>op. as_touched (get_affected_subjects op)) operations))
              (concat (map (\<lambda>op. as_required (get_affected_subjects op)) operations))"
| "get_affected_subjects (Generic _ params) =
     subjects [] (map KernelRef (parse_ref_array params ''outputs''))
                 (map KernelRef (parse_ref_array params ''inputs''))"

definition operations_identical :: "(operation \<Rightarrow> json option) \<Rightarrow> operation \<Rightarrow> operation \<Rightarrow> bool" where
  "operations_identical ser a b =
     (case (ser a, ser b) of (Some av, Some bv) \<Rightarrow> av = bv | _ \<Rightarrow> False)"

section \<open>The conflict taxonomy\<close>

datatype conflict_type =
    ConcurrentModification | DeleteModify | OperationConflict | DependencyConflict
  | TopologicalConflict

record subject_role =
  deleted_by :: "timeline_event option"
  touched_by :: "timeline_event option"
  required_by :: "timeline_event option"

definition no_role :: subject_role where
  "no_role = \<lparr>deleted_by = None, touched_by = None, required_by = None\<rparr>"

datatype conflict_resolution =
    UseSource | UseTarget | MergeBoth operation | Skip | Custom_Resolution operation

record merge_conflict =
  mc_subject :: conflict_subject
  mc_type :: conflict_type
  mc_source_event :: "timeline_event option"
  mc_target_event :: "timeline_event option"
  mc_resolution :: "conflict_resolution option"

type_synonym role_index = "(conflict_subject, subject_role) dmap"

definition update_role ::
  "(subject_role \<Rightarrow> subject_role) \<Rightarrow> conflict_subject \<Rightarrow> role_index \<Rightarrow> role_index" where
  "update_role f s index =
     AList.update s (f (case map_of index s of None \<Rightarrow> no_role | Some r \<Rightarrow> r)) index"

definition index_event :: "timeline_event \<Rightarrow> role_index \<Rightarrow> role_index" where
  "index_event ev index =
     (let subs = get_affected_subjects (te_operation ev) in
      fold (update_role (required_by_update (\<lambda>_. Some ev))) (as_required subs)
        (fold (update_role (touched_by_update (\<lambda>_. Some ev))) (as_touched subs)
          (fold (update_role (deleted_by_update (\<lambda>_. Some ev))) (as_deleted subs) index)))"

definition index_subjects_by_role :: "timeline_event list \<Rightarrow> role_index" where
  "index_subjects_by_role evs = fold index_event evs []"

definition classify_subject_conflict ::
  "(operation \<Rightarrow> json option) \<Rightarrow> subject_role \<Rightarrow> subject_role \<Rightarrow>
   (conflict_type \<times> timeline_event \<times> timeline_event) option" where
  "classify_subject_conflict ser source target =
     (if deleted_by source = None \<and> touched_by source = None \<and>
         deleted_by target = None \<and> touched_by target = None then None
      else if deleted_by source \<noteq> None \<and> deleted_by target \<noteq> None \<and>
         touched_by source = None \<and> touched_by target = None then None
      else case (deleted_by source, touched_by target, required_by target) of
        (Some sd, Some tt, _) \<Rightarrow> Some (DeleteModify, sd, tt)
      | (Some sd, None, Some tr) \<Rightarrow> Some (DependencyConflict, sd, tr)
      | _ \<Rightarrow>
     (case (deleted_by target, touched_by source, required_by source) of
        (Some td, Some st, _) \<Rightarrow> Some (DeleteModify, st, td)
      | (Some td, None, Some sr) \<Rightarrow> Some (DependencyConflict, sr, td)
      | _ \<Rightarrow>
     (case (touched_by source, touched_by target) of
        (Some st, Some tt) \<Rightarrow>
          if operations_identical ser (te_operation st) (te_operation tt) then None
          else Some (ConcurrentModification, st, tt)
      | _ \<Rightarrow> None)))"

definition conflict_for ::
  "(operation \<Rightarrow> json option) \<Rightarrow> role_index \<Rightarrow> conflict_subject \<times> subject_role \<Rightarrow> merge_conflict option" where
  "conflict_for ser target_index = (\<lambda>(subject, s_role).
     (case map_of target_index subject of None \<Rightarrow> None
      | Some t_role \<Rightarrow>
          (case classify_subject_conflict ser s_role t_role of None \<Rightarrow> None
           | Some (kind, source_event, target_event) \<Rightarrow>
               Some \<lparr>mc_subject = subject, mc_type = kind, mc_source_event = Some source_event,
                     mc_target_event = Some target_event, mc_resolution = None\<rparr>)))"

definition classify_divergence_conflicts ::
  "(operation \<Rightarrow> json option) \<Rightarrow> (uuid \<Rightarrow> string) \<Rightarrow> timeline_event list \<Rightarrow> timeline_event list \<Rightarrow>
   merge_conflict list" where
  "classify_divergence_conflicts ser show_uuid source_only target_only =
     sort_key (\<lambda>c. show_subject show_uuid (mc_subject c))
       (List.map_filter (conflict_for ser (index_subjects_by_role target_only))
         (index_subjects_by_role source_only))"

section \<open>Merging and previewing\<close>

record merge_statistics =
  events_merged :: nat
  conflicts_count :: nat
  auto_resolved :: nat
  entities_affected :: nat
  duration_ms :: nat

record merge_result =
  mr_success :: bool
  merged_events :: "timeline_event list"
  mr_conflicts :: "merge_conflict list"
  modified_entities :: "entity_id list"
  statistics :: merge_statistics

datatype branch_relationship =
    UpToDate
  | Fast_Forward_By nat
  | Divergent nat nat nat

record merge_preview =
  relationship :: branch_relationship
  mp_conflicts :: "merge_conflict list"

definition merge_gate :: "timeline \<Rightarrow> branch_id \<Rightarrow> branch_id \<Rightarrow> timeline_error option" where
  "merge_gate t source target =
     (if source = target then Some (InvalidOperation Self_merge)
      else case map_of (branches t) source of None \<Rightarrow> Some (BranchNotFound source)
      | Some s \<Rightarrow>
     (case map_of (branches t) target of None \<Rightarrow> Some (BranchNotFound target)
      | Some g \<Rightarrow>
          if br_state s \<noteq> Active
          then Some (InvalidOperation (Source_not_active source (br_state s)))
          else if br_state g \<noteq> Active
          then Some (InvalidOperation (Target_not_active target (br_state g)))
          else None))"

text \<open>How two sequences relate: the three tests the merge and the preview share.\<close>

definition up_to_date :: "(event_index \<times> event_id) list \<Rightarrow> (event_index \<times> event_id) list \<Rightarrow> bool" where
  "up_to_date source_seq target_seq =
     (length source_seq \<le> length target_seq \<and>
      list_all (\<lambda>(s, g). s = g) (zip source_seq target_seq))"

definition can_fast_forward ::
  "(event_index \<times> event_id) list \<Rightarrow> (event_index \<times> event_id) list \<Rightarrow> bool" where
  "can_fast_forward source_seq target_seq =
     (length target_seq < length source_seq \<and> take (length target_seq) source_seq = target_seq)"

definition common_prefix_len ::
  "(event_index \<times> event_id) list \<Rightarrow> (event_index \<times> event_id) list \<Rightarrow> nat" where
  "common_prefix_len source_seq target_seq =
     length (takeWhile (\<lambda>(s, g). s = g) (zip source_seq target_seq))"

definition affected_entities :: "timeline_event list \<Rightarrow> entity_id list" where
  "affected_entities evs =
     remdups (concat (map (\<lambda>ev. map created_id (created (te_outputs ev)) @
                                modified (te_outputs ev) @ deleted (te_outputs ev)) evs))"

definition merge_success :: "nat \<Rightarrow> timeline_event list \<Rightarrow> merge_result" where
  "merge_success elapsed evs =
     \<lparr>mr_success = True, merged_events = evs, mr_conflicts = [],
      modified_entities = affected_entities evs,
      statistics = \<lparr>events_merged = length evs, conflicts_count = 0, auto_resolved = 0,
                    entities_affected = length (affected_entities evs), duration_ms = elapsed\<rparr>\<rparr>"

definition merge_conflicted :: "nat \<Rightarrow> merge_conflict list \<Rightarrow> merge_result" where
  "merge_conflicted elapsed cs =
     \<lparr>mr_success = False, merged_events = [], mr_conflicts = cs, modified_entities = [],
      statistics = \<lparr>events_merged = 0, conflicts_count = length cs, auto_resolved = 0,
                    entities_affected = 0, duration_ms = elapsed\<rparr>\<rparr>"

fun strategy_refusal ::
  "branch_id \<Rightarrow> branch_id \<Rightarrow> nat \<Rightarrow> nat \<Rightarrow> nat \<Rightarrow> merge_strategy \<Rightarrow> timeline_error option" where
  "strategy_refusal s g common so go FastForward = Some (BranchConflict (Diverged s g common so go))"
| "strategy_refusal s g common so go (ThreeWay (AI model _)) =
     Some (NotImplemented (No_model_dispatcher model))"
| "strategy_refusal s g common so go (ThreeWay _) = None"
| "strategy_refusal s g common so go strategy =
     Some (NotImplemented (No_divergent_merge strategy s g common so go))"

definition file_entries :: "branch_id \<Rightarrow> (event_index \<times> event_id) list \<Rightarrow> timeline \<Rightarrow> timeline" where
  "file_entries b entries t = put_index b (fold (\<lambda>(k, e). AList.update k e) entries) t"

definition merge_branches ::
  "(operation \<Rightarrow> json option) \<Rightarrow> (uuid \<Rightarrow> string) \<Rightarrow> nat \<Rightarrow> timestamp \<Rightarrow> branch_id \<Rightarrow> branch_id \<Rightarrow>
   merge_strategy \<Rightarrow> timeline \<Rightarrow> merge_result timeline_result \<times> timeline" where
  "merge_branches ser show_uuid elapsed now source target strategy t =
     (case merge_gate t source target of Some e \<Rightarrow> (Err e, t) | None \<Rightarrow>
     (case branch_sequence t source of Err e \<Rightarrow> (Err e, t) | Ok source_seq \<Rightarrow>
     (case branch_sequence t target of Err e \<Rightarrow> (Err e, t) | Ok target_seq \<Rightarrow>
      let merged = set_branch_state source (Merged target now) in
      if up_to_date source_seq target_seq then (Ok (merge_success elapsed []), merged t)
      else if can_fast_forward source_seq target_seq then
        let suffix = drop (length target_seq) source_seq
        in (Ok (merge_success elapsed (events_for t suffix)), merged (file_entries target suffix t))
      else
        let common = common_prefix_len source_seq target_seq in
        (case strategy_refusal source target common (length source_seq - common)
                (length target_seq - common) strategy of
           Some e \<Rightarrow> (Err e, t)
         | None \<Rightarrow>
             let source_only = events_for t (drop common source_seq);
                 target_only = events_for t (drop common target_seq);
                 cs = classify_divergence_conflicts ser show_uuid source_only target_only
             in if cs \<noteq> [] then (Ok (merge_conflicted elapsed cs), t)
                else (Ok (merge_success elapsed source_only),
                      merged (file_entries target
                        (map (\<lambda>ev. (sequence_number ev, te_id ev)) source_only) t))))))"

definition preview_merge ::
  "(operation \<Rightarrow> json option) \<Rightarrow> (uuid \<Rightarrow> string) \<Rightarrow> branch_id \<Rightarrow> branch_id \<Rightarrow> timeline \<Rightarrow>
   merge_preview timeline_result" where
  "preview_merge ser show_uuid source target t =
     (case merge_gate t source target of Some e \<Rightarrow> Err e | None \<Rightarrow>
     (case branch_sequence t source of Err e \<Rightarrow> Err e | Ok source_seq \<Rightarrow>
     (case branch_sequence t target of Err e \<Rightarrow> Err e | Ok target_seq \<Rightarrow>
      if up_to_date source_seq target_seq then Ok \<lparr>relationship = UpToDate, mp_conflicts = []\<rparr>
      else if can_fast_forward source_seq target_seq then
        Ok \<lparr>relationship = Fast_Forward_By (length source_seq - length target_seq),
            mp_conflicts = []\<rparr>
      else
        let common = common_prefix_len source_seq target_seq
        in Ok \<lparr>relationship = Divergent common (length source_seq - common)
                                (length target_seq - common),
               mp_conflicts =
                 classify_divergence_conflicts ser show_uuid
                   (events_for t (drop common source_seq)) (events_for t (drop common target_seq))\<rparr>)))"

end
