(* ===== verification/Timeline_Inv.thy ===== *)
theory Timeline_Inv
  imports Timeline_Merge
begin

text \<open>
  The well-formedness of a timeline and its preservation by the operations. \<open>core_ok\<close> ties the
  four maps that hold the history together (events, branch indices, branches, the sequence
  counter); \<open>pointers_ok\<close> bounds the session pointers and applied heads by the history they
  point into. \<open>tl_ok\<close> is both.

  A branch \<open>incorporates\<close> its fork parent and every branch merged into it; an index may only
  hold events whose origin is reachable from its branch along these edges. It is git's commit
  reachability over branches, and the relation \<^verbatim>\<open>Timeline::validate\<close> walks.
\<close>

section \<open>The invariant\<close>

definition incorporates :: "(branch_id, branch) dmap \<Rightarrow> branch_id \<Rightarrow> branch_id \<Rightarrow> bool" where
  "incorporates brs a b \<longleftrightarrow>
     (\<exists>br. map_of brs a = Some br \<and> br_parent br = Some b) \<or>
     (\<exists>br at. map_of brs b = Some br \<and> br_state br = Merged a at)"

definition entry_ok :: "timeline \<Rightarrow> branch_id \<Rightarrow> event_index \<Rightarrow> event_id \<Rightarrow> bool" where
  "entry_ok t b k e \<longleftrightarrow>
     (\<exists>ev. map_of (events t) e = Some ev \<and> sequence_number ev = k \<and>
           (incorporates (branches t))\<^sup>*\<^sup>* b (origin ev))"

definition maps_ok :: "timeline \<Rightarrow> bool" where
  "maps_ok t \<longleftrightarrow> dmap_ok (events t) \<and> dmap_ok (branches t) \<and> dmap_ok (branch_events t) \<and>
     (\<forall>b. index_of t b = None \<longleftrightarrow> map_of (branches t) b = None) \<and>
     (\<forall>b m. index_of t b = Some m \<longrightarrow> dmap_ok m)"

definition entries_ok :: "timeline \<Rightarrow> bool" where
  "entries_ok t \<longleftrightarrow>
     (\<forall>b m k e. index_of t b = Some m \<longrightarrow> map_of m k = Some e \<longrightarrow> entry_ok t b k e)"

definition parent_ok :: "(branch_id, branch) dmap \<Rightarrow> branch \<Rightarrow> bool" where
  "parent_ok brs br \<longleftrightarrow>
     (\<exists>p. br_parent br = Some p \<and> map_of brs p \<noteq> None \<and> fp_branch_id (br_fork_point br) = p)"

definition branches_ok :: "timeline \<Rightarrow> bool" where
  "branches_ok t \<longleftrightarrow> map_of (branches t) main_branch \<noteq> None \<and>
     (\<forall>b br. map_of (branches t) b = Some br \<longrightarrow>
        br_id br = b \<and> (b \<noteq> main_branch \<longrightarrow> parent_ok (branches t) br))"

definition events_ok :: "timeline \<Rightarrow> bool" where
  "events_ok t \<longleftrightarrow>
     (\<forall>e ev. map_of (events t) e = Some ev \<longrightarrow> te_id ev = e \<and> sequence_number ev < event_counter t) \<and>
     (\<forall>e e' ev ev'. map_of (events t) e = Some ev \<longrightarrow> map_of (events t) e' = Some ev' \<longrightarrow>
        sequence_number ev = sequence_number ev' \<longrightarrow> e = e')"

definition core_ok :: "timeline \<Rightarrow> bool" where
  "core_ok t \<longleftrightarrow> maps_ok t \<and> entries_ok t \<and> branches_ok t \<and> events_ok t"

definition pointers_ok :: "timeline \<Rightarrow> bool" where
  "pointers_ok t \<longleftrightarrow> dmap_ok (session_positions t) \<and> dmap_ok (applied_heads t) \<and>
     (\<forall>s pos. map_of (session_positions t) s = Some pos \<longrightarrow>
        (\<exists>m. index_of t (sp_branch_id pos) = Some m \<and> sp_event_index pos \<le> length m)) \<and>
     (\<forall>b h. map_of (applied_heads t) b = Some h \<longrightarrow> (\<exists>m. index_of t b = Some m \<and> h < length m))"

definition tl_ok :: "timeline \<Rightarrow> bool" where
  "tl_ok t \<longleftrightarrow> core_ok t \<and> pointers_ok t"

lemma tl_okD: "tl_ok t \<Longrightarrow> core_ok t" "tl_ok t \<Longrightarrow> pointers_ok t"
  by (simp_all add: tl_ok_def)

lemma core_okD:
  assumes "core_ok t"
  shows "maps_ok t" "entries_ok t" "branches_ok t" "events_ok t"
  using assms by (simp_all add: core_ok_def)

lemma entries_okD: "core_ok t \<Longrightarrow> index_of t b = Some m \<Longrightarrow> map_of m k = Some e \<Longrightarrow> entry_ok t b k e"
  by (simp add: core_ok_def entries_ok_def)

lemma index_ok: "core_ok t \<Longrightarrow> index_of t b = Some m \<Longrightarrow> dmap_ok m"
  by (simp add: core_ok_def maps_ok_def)

lemma index_iff_branch: "core_ok t \<Longrightarrow> index_of t b = None \<longleftrightarrow> map_of (branches t) b = None"
  by (simp add: core_ok_def maps_ok_def)

lemma index_iff_branch': "core_ok t \<Longrightarrow> (\<exists>m. index_of t b = Some m) \<longleftrightarrow> (\<exists>br. map_of (branches t) b = Some br)"
  using index_iff_branch [of t b] by (metis not_None_eq)

lemma event_key: "core_ok t \<Longrightarrow> map_of (events t) e = Some ev \<Longrightarrow> te_id ev = e"
  by (simp add: core_ok_def events_ok_def)

lemma event_below: "core_ok t \<Longrightarrow> map_of (events t) e = Some ev \<Longrightarrow> sequence_number ev < event_counter t"
  by (simp add: core_ok_def events_ok_def)

lemma event_inj:
  "core_ok t \<Longrightarrow> map_of (events t) e = Some ev \<Longrightarrow> map_of (events t) e' = Some ev' \<Longrightarrow>
   sequence_number ev = sequence_number ev' \<Longrightarrow> e = e'"
  unfolding core_ok_def events_ok_def by blast

lemma key_below_counter:
  "core_ok t \<Longrightarrow> index_of t b = Some m \<Longrightarrow> k \<in> set (dkeys m) \<Longrightarrow> k < event_counter t"
proof -
  assume c: "core_ok t" and i: "index_of t b = Some m" and k: "k \<in> set (dkeys m)"
  obtain e where "map_of m k = Some e" using k by (metis dom_map_of_keys domD)
  then obtain ev where "map_of (events t) e = Some ev" "sequence_number ev = k"
    using entries_okD [OF c i] by (auto simp: entry_ok_def)
  then show ?thesis using event_below [OF c] by auto
qed

text \<open>Two entries of the histories of a well-formed timeline at the same key are the same event.\<close>

lemma same_key_same_event:
  assumes "core_ok t" "index_of t b = Some m" "index_of t b' = Some m'"
    and "map_of m k = Some e" "map_of m' k = Some e'"
  shows "e = e'"
  using entries_okD [OF assms(1,2,4)] entries_okD [OF assms(1,3,5)] event_inj [OF assms(1)]
  by (auto simp: entry_ok_def)

lemma new_timeline_ok: "tl_ok (new_timeline now)"
  by (simp add: tl_ok_def core_ok_def maps_ok_def entries_ok_def branches_ok_def events_ok_def
      pointers_ok_def new_timeline_def main_branch_record_def)

section \<open>The core under the primitive updates\<close>

text \<open>The core reads four fields only.\<close>

lemma core_ok_cong:
  assumes "events t' = events t" "branch_events t' = branch_events t" "branches t' = branches t"
    "event_counter t' = event_counter t"
  shows "core_ok t' = core_ok t"
  using assms
  by (simp add: core_ok_def maps_ok_def entries_ok_def branches_ok_def events_ok_def entry_ok_def)

lemma index_put_index:
  "index_of (put_index b f t) b' = (if b' = b then map_option f (index_of t b) else index_of t b')"
  by (simp add: put_index_def map_of_modify_entry)

lemma put_index_fields [simp]:
  "events (put_index b f t) = events t" "branches (put_index b f t) = branches t"
  "event_counter (put_index b f t) = event_counter t"
  "session_positions (put_index b f t) = session_positions t"
  "applied_heads (put_index b f t) = applied_heads t"
  "entity_events (put_index b f t) = entity_events t"
  by (simp_all add: put_index_def)

lemma set_branch_state_fields [simp]:
  "events (set_branch_state b s t) = events t"
  "branch_events (set_branch_state b s t) = branch_events t"
  "event_counter (set_branch_state b s t) = event_counter t"
  "session_positions (set_branch_state b s t) = session_positions t"
  "applied_heads (set_branch_state b s t) = applied_heads t"
  "entity_events (set_branch_state b s t) = entity_events t"
  by (simp_all add: set_branch_state_def)

lemma branches_set_branch_state:
  "map_of (branches (set_branch_state b s t)) b' =
     (if b' = b then map_option (br_state_update (\<lambda>_. s)) (map_of (branches t) b)
      else map_of (branches t) b')"
  by (simp add: set_branch_state_def map_of_modify_entry)

lemma core_put_index:
  assumes c: "core_ok t"
    and f: "\<And>m. index_of t b = Some m \<Longrightarrow> dmap_ok (f m) \<and>
              (\<forall>k e. map_of (f m) k = Some e \<longrightarrow> entry_ok t b k e)"
  shows "core_ok (put_index b f t)"
proof -
  have e: "entry_ok (put_index b f t) b' k e = entry_ok t b' k e" for b' k e
    by (simp add: entry_ok_def)
  have "maps_ok (put_index b f t)"
    using core_okD(1) [OF c] f
    by (auto simp: maps_ok_def index_put_index) (simp add: put_index_def)
  moreover have "entries_ok (put_index b f t)"
    unfolding entries_ok_def e index_put_index
    using core_okD(2) [OF c] f by (auto simp: entries_ok_def split: if_splits)
  ultimately show ?thesis
    using core_okD(3,4) [OF c] by (simp add: core_ok_def branches_ok_def events_ok_def)
qed

lemma core_drop_keys: "core_ok t \<Longrightarrow> core_ok (drop_keys ks b t)"
  unfolding drop_keys_def
  by (rule core_put_index)
    (auto simp: dm.get_fold_del index_ok entries_okD split: if_splits)

lemma core_fold:
  "core_ok t \<Longrightarrow> (\<And>x u. x \<in> set xs \<Longrightarrow> core_ok u \<Longrightarrow> core_ok (f x u)) \<Longrightarrow> core_ok (fold f xs t)"
  by (induction xs arbitrary: t) auto

text \<open>A change of state keeps every edge, unless it takes a branch out of \<open>Merged\<close>.\<close>

definition keeps_edges :: "branch_id \<Rightarrow> timeline \<Rightarrow> bool" where
  "keeps_edges b t \<longleftrightarrow> (\<forall>br a w. map_of (branches t) b = Some br \<longrightarrow> br_state br \<noteq> Merged a w)"

lemma incorporates_set_state:
  assumes "keeps_edges b t" "incorporates (branches t) x y"
  shows "incorporates (branches (set_branch_state b s t)) x y"
  using assms unfolding incorporates_def branches_set_branch_state keeps_edges_def by auto

lemma core_set_branch_state:
  assumes c: "core_ok t" and k: "keeps_edges b t"
  shows "core_ok (set_branch_state b s t)"
proof -
  let ?t = "set_branch_state b s t"
  have "(incorporates (branches t))\<^sup>*\<^sup>* x y \<Longrightarrow> (incorporates (branches ?t))\<^sup>*\<^sup>* x y" for x y
    using incorporates_set_state [OF k] by (metis mono_rtranclp)
  then have "entries_ok ?t"
    using core_okD(2) [OF c] unfolding entries_ok_def entry_ok_def by fastforce
  moreover have "maps_ok ?t"
    using core_okD(1) [OF c]
    by (auto simp: maps_ok_def branches_set_branch_state) (simp add: set_branch_state_def)
  moreover have "branches_ok ?t"
    using core_okD(3) [OF c]
    by (auto simp: branches_ok_def parent_ok_def branches_set_branch_state)
  moreover have "events_ok ?t"
    using core_okD(4) [OF c] by (simp add: events_ok_def)
  ultimately show ?thesis by (simp add: core_ok_def)
qed

lemma purge_fields [simp]:
  "branch_events (purge_events ps t) = branch_events t" "branches (purge_events ps t) = branches t"
  "event_counter (purge_events ps t) = event_counter t"
  "session_positions (purge_events ps t) = session_positions t"
  "applied_heads (purge_events ps t) = applied_heads t"
  by (simp_all add: purge_events_def)

lemma events_purge:
  "map_of (events (purge_events ps t)) e = (if e \<in> set ps then None else map_of (events t) e)"
  by (simp add: purge_events_def dm.get_fold_del)

lemma core_purge:
  assumes c: "core_ok t"
    and u: "\<And>b m k e. index_of t b = Some m \<Longrightarrow> map_of m k = Some e \<Longrightarrow> e \<notin> set ps"
  shows "core_ok (purge_events ps t)"
proof -
  have "maps_ok (purge_events ps t)"
    using core_okD(1) [OF c] by (simp add: maps_ok_def) (simp add: purge_events_def)
  moreover have "entries_ok (purge_events ps t)"
    using core_okD(2) [OF c] u
    by (auto simp: entries_ok_def entry_ok_def events_purge)
  moreover have "events_ok (purge_events ps t)"
    using core_okD(4) [OF c] unfolding events_ok_def events_purge by (auto split: if_splits)
  moreover have "branches_ok (purge_events ps t)"
    using core_okD(3) [OF c] by (simp add: branches_ok_def)
  ultimately show ?thesis by (simp add: core_ok_def)
qed

section \<open>A truncate\<close>

lemma fold_drop_keys_fields [simp]:
  "events (fold (drop_keys ks) cs t) = events t" "branches (fold (drop_keys ks) cs t) = branches t"
  "event_counter (fold (drop_keys ks) cs t) = event_counter t"
  "session_positions (fold (drop_keys ks) cs t) = session_positions t"
  "applied_heads (fold (drop_keys ks) cs t) = applied_heads t"
  "entity_events (fold (drop_keys ks) cs t) = entity_events t"
  by (induction cs arbitrary: t) (simp_all add: drop_keys_def)

lemma fold_set_state_fields [simp]:
  "events (fold (\<lambda>c. set_branch_state c s) cs t) = events t"
  "branch_events (fold (\<lambda>c. set_branch_state c s) cs t) = branch_events t"
  "event_counter (fold (\<lambda>c. set_branch_state c s) cs t) = event_counter t"
  "session_positions (fold (\<lambda>c. set_branch_state c s) cs t) = session_positions t"
  "applied_heads (fold (\<lambda>c. set_branch_state c s) cs t) = applied_heads t"
  "entity_events (fold (\<lambda>c. set_branch_state c s) cs t) = entity_events t"
  by (induction cs arbitrary: t) simp_all

lemma branches_fold_set_state:
  "map_of (branches (fold (\<lambda>c. set_branch_state c s) cs t)) b =
     (if b \<in> set cs then map_option (br_state_update (\<lambda>_. s)) (map_of (branches t) b)
      else map_of (branches t) b)"
  by (induction cs arbitrary: t) (auto simp: branches_set_branch_state option.map_comp comp_def)

lemma index_drop_keys:
  "index_of (drop_keys ks c t) b =
     map_option (\<lambda>m. if b = c then filter (\<lambda>kv. fst kv \<notin> set ks) m else m) (index_of t b)"
  by (cases "b = c"; cases "index_of t b")
    (simp_all add: drop_keys_def index_put_index fold_del_filter)

lemma index_fold_drop:
  "index_of (fold (drop_keys ks) cs t) b =
     map_option (\<lambda>m. if b \<in> set cs then filter (\<lambda>kv. fst kv \<notin> set ks) m else m) (index_of t b)"
proof (induction cs arbitrary: t)
  case Nil
  then show ?case by (cases "index_of t b") simp_all
next
  case (Cons c cs)
  show ?case
    by (cases "index_of t b")
      (auto simp: Cons.IH index_drop_keys intro!: filter_cong)
qed

lemma core_fold_drop: "core_ok t \<Longrightarrow> core_ok (fold (drop_keys ks) cs t)"
  by (erule core_fold) (rule core_drop_keys)

definition not_merged :: "timeline \<Rightarrow> branch_id list \<Rightarrow> bool" where
  "not_merged t cs \<longleftrightarrow>
     (\<forall>b \<in> set cs. \<forall>br a w. map_of (branches t) b = Some br \<longrightarrow> br_state br \<noteq> Merged a w)"

lemma core_fold_abandon:
  "core_ok t \<Longrightarrow> not_merged t cs \<Longrightarrow> core_ok (fold (\<lambda>c. set_branch_state c (Abandoned r)) cs t)"
proof (induction cs arbitrary: t)
  case (Cons c cs)
  have "keeps_edges c t" using Cons.prems(2) by (simp add: not_merged_def keeps_edges_def)
  then have "core_ok (set_branch_state c (Abandoned r) t)"
    using Cons.prems(1) core_set_branch_state by blast
  moreover have "not_merged (set_branch_state c (Abandoned r) t) cs"
    using Cons.prems(2) by (auto simp: not_merged_def branches_set_branch_state)
  ultimately show ?case using Cons.IH by simp
qed simp

text \<open>The plan, spelled out.\<close>

lemma truncate_planE:
  assumes "truncate_plan t b k = Ok plan"
  obtains m where "index_of t b = Some m" "plan_branch plan = b"
    "plan_removed plan = filter (\<lambda>(k', _). k \<le> k') m"
    "plan_cascaded plan = map fst (filter (\<lambda>(_, br). br_parent br = Some b \<and>
        k \<le> fp_event_index (br_fork_point br) \<and> br_state br = Active) (branches t))"
    "set (plan_purged plan) = snd ` set (plan_removed plan) -
        (\<Union>b' \<in> set (dkeys (branch_events t)). snd ` set (post_truncate_index t plan b'))"
proof -
  obtain m where m: "index_of t b = Some m"
    using assms by (auto simp: truncate_plan_def split: option.splits)
  note d = assms [unfolded truncate_plan_def m option.case Let_def, THEN Inr_inject, symmetric]
  show ?thesis
    by (rule that [OF m], simp_all add: d post_truncate_index_def Let_def image_image)
      (rule set_eqI, simp only: mem_Collect_eq Diff_iff UN_iff, blast)
qed

lemma truncate_plan_Ok: "index_of t b = Some m \<Longrightarrow> \<exists>plan. truncate_plan t b k = Ok plan"
  by (simp add: truncate_plan_def Let_def)

lemma cascaded_Active:
  assumes "core_ok t" "truncate_plan t b k = Ok plan" "c \<in> set (plan_cascaded plan)"
  obtains br where "map_of (branches t) c = Some br" "br_state br = Active" "br_parent br = Some b"
    "k \<le> fp_event_index (br_fork_point br)"
proof -
  have d: "dmap_ok (branches t)" using core_okD(1) [OF assms(1)] by (simp add: maps_ok_def)
  show ?thesis
    using assms(2,3) d that by (elim truncate_planE) (auto simp: map_of_eq_Some_iff)
qed

text \<open>What a truncate leaves in each index.\<close>

definition kept :: "branch_id \<Rightarrow> truncate_plan \<Rightarrow> history \<Rightarrow> history" where
  "kept b plan m =
     (if b = plan_branch plan \<or> b \<in> set (plan_cascaded plan)
      then filter (\<lambda>kv. fst kv \<notin> fst ` set (plan_removed plan)) m else m)"

lemma kept_subset: "set (kept b plan m) \<subseteq> set m"
  by (auto simp: kept_def)

lemma apply_truncate_fields [simp]:
  "events (clamp_pointers now b cs t) = events t"
  "branch_events (clamp_pointers now b cs t) = branch_events t"
  "branches (clamp_pointers now b cs t) = branches t"
  "event_counter (clamp_pointers now b cs t) = event_counter t"
  "entity_events (clamp_pointers now b cs t) = entity_events t"
  by (simp_all add: clamp_pointers_def Let_def)

lemma index_apply_truncate:
  "index_of (apply_truncate_plan now plan k t) b = map_option (kept b plan) (index_of t b)"
  by (cases "index_of t b")
    (auto simp: apply_truncate_plan_def Let_def index_fold_drop index_drop_keys kept_def
      intro!: filter_cong)

lemma events_apply_truncate:
  "map_of (events (apply_truncate_plan now plan k t)) e =
     (if e \<in> set (plan_purged plan) then None else map_of (events t) e)"
  by (simp add: apply_truncate_plan_def Let_def events_purge) (simp add: drop_keys_def)

lemma branches_apply_truncate:
  "map_of (branches (apply_truncate_plan now plan k t)) b =
     (if b \<in> set (plan_cascaded plan)
      then map_option (br_state_update (\<lambda>_. Abandoned (Parent_truncated (plan_branch plan) k)))
             (map_of (branches t) b)
      else map_of (branches t) b)"
  by (simp add: apply_truncate_plan_def Let_def branches_fold_set_state) (simp add: drop_keys_def)

lemma counter_apply_truncate [simp]:
  "event_counter (apply_truncate_plan now plan k t) = event_counter t"
  by (simp add: apply_truncate_plan_def Let_def) (simp add: drop_keys_def)

lemma set_post_truncate_index:
  "index_of t b = Some m \<Longrightarrow> set (post_truncate_index t plan b) = set (kept b plan m)"
  by (cases "b = plan_branch plan \<or> b \<in> set (plan_cascaded plan)")
    (simp_all add: post_truncate_index_def kept_def Let_def case_prod_unfold)

lemma purged_unreferenced:
  assumes "truncate_plan t b k = Ok plan" "index_of t b' = Some m" "(x, e) \<in> set (kept b' plan m)"
  shows "e \<notin> set (plan_purged plan)"
proof -
  have "b' \<in> set (dkeys (branch_events t))" using assms(2) by (metis dom_map_of_keys domI)
  moreover have "e \<in> snd ` set (post_truncate_index t plan b')"
    using assms(3) by (force simp: set_post_truncate_index [OF assms(2)])
  ultimately show ?thesis using assms(1) by (elim truncate_planE) auto
qed

lemma core_apply_truncate:
  assumes c: "core_ok t" and p: "truncate_plan t b k = Ok plan"
  shows "core_ok (apply_truncate_plan now plan k t)"
proof -
  let ?ks = "map fst (plan_removed plan)"
  let ?u = "fold (drop_keys ?ks) (plan_cascaded plan) (drop_keys ?ks (plan_branch plan) t)"
  let ?v = "purge_events (plan_purged plan) ?u"
  have u: "core_ok ?u" using c by (intro core_fold_drop core_drop_keys)
  have iu: "index_of ?u b' = map_option (kept b' plan) (index_of t b')" for b'
    by (cases "index_of t b'")
      (auto simp: index_fold_drop index_drop_keys kept_def intro!: filter_cong)
  have "e \<notin> set (plan_purged plan)" if "index_of ?u b' = Some m" "map_of m x = Some e" for b' m x e
    using that purged_unreferenced [OF p] by (auto simp: iu dest: map_of_SomeD)
  then have v: "core_ok ?v" by (rule core_purge [OF u])
  have "not_merged ?v (plan_cascaded plan)"
    unfolding not_merged_def
  proof (intro ballI allI impI)
    fix x br a w assume "x \<in> set (plan_cascaded plan)" "map_of (branches ?v) x = Some br"
    then show "br_state br \<noteq> Merged a w"
      by (elim cascaded_Active [OF c p]) (simp add: drop_keys_def)
  qed
  then have "core_ok (fold (\<lambda>c. set_branch_state c (Abandoned (Parent_truncated (plan_branch plan) k)))
      (plan_cascaded plan) ?v)" by (rule core_fold_abandon [OF v])
  then show ?thesis
    unfolding apply_truncate_plan_def Let_def by (subst core_ok_cong) simp_all
qed

lemma fold_filter: "fold (\<lambda>x m. filter (P x) m) xs m = filter (\<lambda>y. \<forall>x \<in> set xs. P x y) m"
  by (induction xs arbitrary: m) (auto intro!: filter_cong)

lemma map_of_lens: "map_of (map (\<lambda>c. (c, f c)) cs) x = (if x \<in> set cs then Some (f x) else None)"
  by (simp add: map_of_map_restrict)

lemma sessions_clamp:
  "map_of (session_positions (clamp_pointers now b cs t)) s =
     map_option (clamp_position now b (branch_len t b) (map (\<lambda>c. (c, branch_len t c)) cs))
       (map_of (session_positions t) s)"
  by (simp add: clamp_pointers_def Let_def map_of_map_values)

lemma clamp_position_bound:
  assumes "sp_branch_id pos = b \<or> sp_branch_id pos \<in> set cs"
  shows "sp_event_index (clamp_position now b (branch_len t b) (map (\<lambda>c. (c, branch_len t c)) cs) pos)
           \<le> branch_len t (sp_branch_id pos)"
  using assms by (auto simp: clamp_position_def map_of_lens)

lemma clamp_position_branch [simp]: "sp_branch_id (clamp_position now b n ls pos) = sp_branch_id pos"
  by (auto simp: clamp_position_def split: option.splits)

lemma clamp_position_untouched:
  "sp_branch_id pos \<noteq> b \<Longrightarrow> sp_branch_id pos \<notin> set cs \<Longrightarrow>
   clamp_position now b n (map (\<lambda>c. (c, f c)) cs) pos = pos"
  by (simp add: clamp_position_def map_of_lens)

lemma heads_clamp:
  "applied_heads (clamp_pointers now b cs t) =
     filter (\<lambda>(br', head). \<forall>br \<in> insert b (set cs). \<not> (br' = br \<and> branch_len t br \<le> head))
       (applied_heads t)"
proof -
  have "applied_heads (clamp_pointers now b cs t) =
      fold (\<lambda>x m. filter (\<lambda>y. \<not> (fst y = fst x \<and> snd x \<le> snd y)) m)
        ((b, branch_len t b) # map (\<lambda>c. (c, branch_len t c)) cs) (applied_heads t)"
    by (simp add: clamp_pointers_def Let_def case_prod_unfold)
  then show ?thesis
    unfolding fold_filter by (auto intro!: filter_cong)
qed

lemma branch_len_Some: "index_of t b = Some m \<Longrightarrow> branch_len t b = length m"
  by (simp add: branch_len_def)

text \<open>Clamping restores the bounds after the listed branches lost entries.\<close>

lemma pointers_clamp:
  assumes p: "pointers_ok t"
    and s: "session_positions u = session_positions t" "applied_heads u = applied_heads t"
    and i: "\<And>x m. index_of t x = Some m \<Longrightarrow> \<exists>m'. index_of u x = Some m' \<and>
              (x \<noteq> b \<longrightarrow> x \<notin> set cs \<longrightarrow> length m \<le> length m')"
  shows "pointers_ok (clamp_pointers now b cs u)"
proof -
  let ?v = "clamp_pointers now b cs u"
  have "\<exists>m. index_of u (sp_branch_id pos') = Some m \<and> sp_event_index pos' \<le> length m"
    if "map_of (session_positions ?v) sid = Some pos'" for sid pos'
  proof -
    obtain pos where pos: "map_of (session_positions t) sid = Some pos"
      and pos': "pos' = clamp_position now b (branch_len u b) (map (\<lambda>c. (c, branch_len u c)) cs) pos"
      using \<open>map_of (session_positions ?v) sid = Some pos'\<close> by (auto simp: sessions_clamp s)
    obtain m where m: "index_of t (sp_branch_id pos) = Some m" "sp_event_index pos \<le> length m"
      using p pos unfolding pointers_ok_def by blast
    obtain m' where m': "index_of u (sp_branch_id pos) = Some m'"
      and keep: "sp_branch_id pos \<noteq> b \<longrightarrow> sp_branch_id pos \<notin> set cs \<longrightarrow> length m \<le> length m'"
      using i [OF m(1)] by blast
    show ?thesis
    proof (cases "sp_branch_id pos = b \<or> sp_branch_id pos \<in> set cs")
      case True
      show ?thesis using clamp_position_bound [OF True, of now u] m'
        by (simp add: pos' branch_len_Some)
    next
      case False
      then show ?thesis using m(2) m' keep by (simp add: pos' clamp_position_untouched)
    qed
  qed
  moreover have "\<exists>m. index_of u x = Some m \<and> h < length m"
    if "map_of (applied_heads ?v) x = Some h" for x h
  proof -
    have d: "dmap_ok (applied_heads t)" using p by (simp add: pointers_ok_def)
    have "(x, h) \<in> set (applied_heads ?v)" using that by (rule map_of_SomeD)
    then have h: "map_of (applied_heads t) x = Some h"
      and b: "x = b \<or> x \<in> set cs \<longrightarrow> h < branch_len u x"
      using d by (auto simp: heads_clamp s)
    obtain m where m: "index_of t x = Some m" "h < length m"
      using p h unfolding pointers_ok_def by blast
    from i [OF m(1)] show ?thesis using b m(2) by (auto simp: branch_len_Some)
  qed
  moreover have "dmap_ok (session_positions ?v)" "dmap_ok (applied_heads ?v)"
    using p by (simp_all add: pointers_ok_def heads_clamp s)
      (simp add: clamp_pointers_def Let_def s)
  ultimately show ?thesis by (simp add: pointers_ok_def)
qed

lemma pointers_apply_truncate:
  assumes "pointers_ok t"
  shows "pointers_ok (apply_truncate_plan now plan k t)"
proof -
  let ?ks = "map fst (plan_removed plan)"
  let ?u = "fold (\<lambda>c. set_branch_state c (Abandoned (Parent_truncated (plan_branch plan) k)))
      (plan_cascaded plan) (purge_events (plan_purged plan)
        (fold (drop_keys ?ks) (plan_cascaded plan) (drop_keys ?ks (plan_branch plan) t)))"
  have "pointers_ok (clamp_pointers now (plan_branch plan) (plan_cascaded plan) ?u)"
  proof (rule pointers_clamp [OF assms])
    show "session_positions ?u = session_positions t" "applied_heads ?u = applied_heads t"
      by (simp_all add: drop_keys_def)
    fix x m assume "index_of t x = Some m"
    then show "\<exists>m'. index_of ?u x = Some m' \<and>
        (x \<noteq> plan_branch plan \<longrightarrow> x \<notin> set (plan_cascaded plan) \<longrightarrow> length m \<le> length m')"
      by (simp add: index_fold_drop index_drop_keys)
  qed
  then show ?thesis by (simp add: apply_truncate_plan_def Let_def)
qed

lemma tl_ok_apply_truncate:
  "tl_ok t \<Longrightarrow> truncate_plan t b k = Ok plan \<Longrightarrow> tl_ok (apply_truncate_plan now plan k t)"
  by (simp add: tl_ok_def core_apply_truncate pointers_apply_truncate)

lemma tl_ok_truncate_branch: "tl_ok t \<Longrightarrow> tl_ok (snd (truncate_branch now b k force t))"
  by (auto simp: truncate_branch_def tl_ok_apply_truncate split: sum.splits)

lemma tl_ok_clear_head: "tl_ok t \<Longrightarrow> tl_ok (clear_head b t)"
proof -
  assume t: "tl_ok t"
  have "core_ok (clear_head b t)"
    using tl_okD(1) [OF t] by (subst core_ok_cong) (simp_all add: clear_head_def)
  moreover have "pointers_ok (clear_head b t)"
    using tl_okD(2) [OF t]
    by (auto simp: pointers_ok_def clear_head_def dm.get_del)
  ultimately show ?thesis by (simp add: tl_ok_def)
qed

lemma tl_ok_discard: "tl_ok t \<Longrightarrow> tl_ok (snd (discard_redo_tail now b t))"
  by (auto simp: discard_redo_tail_def Let_def tl_ok_clear_head tl_ok_apply_truncate
      split: option.splits sum.splits)

section \<open>An append\<close>

lemma pointers_mono:
  assumes "pointers_ok t" "session_positions u = session_positions t"
    "applied_heads u = applied_heads t"
    and "\<And>x m. index_of t x = Some m \<Longrightarrow> \<exists>m'. index_of u x = Some m' \<and> length m \<le> length m'"
  shows "pointers_ok u"
proof -
  note p = assms(1) [unfolded pointers_ok_def]
  have "\<exists>m. index_of u (sp_branch_id pos) = Some m \<and> sp_event_index pos \<le> length m"
    if s: "map_of (session_positions u) s = Some pos" for s pos
  proof -
    obtain m where "index_of t (sp_branch_id pos) = Some m" "sp_event_index pos \<le> length m"
      using p s [unfolded assms(2)] by blast
    then show ?thesis using assms(4) le_trans by blast
  qed
  moreover have "\<exists>m. index_of u b = Some m \<and> h < length m"
    if h: "map_of (applied_heads u) b = Some h" for b h
  proof -
    obtain m where "index_of t b = Some m" "h < length m"
      using p h [unfolded assms(3)] by blast
    then show ?thesis using assms(4) less_le_trans by blast
  qed
  ultimately show ?thesis using p assms(2,3) by (simp add: pointers_ok_def)
qed

lemma length_update_ge: "length m \<le> length (AList.update k v m)"
  by (induction m) auto

lemma length_fold_update_ge: "length m \<le> length (fold (\<lambda>(k, v). AList.update k v) kvs m)"
proof (induction kvs arbitrary: m)
  case (Cons kv kvs)
  have "length m \<le> length (AList.update (fst kv) (snd kv) m)" by (rule length_update_ge)
  also have "\<dots> \<le> length (fold (\<lambda>(k, v). AList.update k v) kvs (AList.update (fst kv) (snd kv) m))"
    by (rule Cons)
  finally show ?case by (simp add: case_prod_unfold)
qed simp

lemma tl_ok_cong:
  assumes "events u = events t" "branch_events u = branch_events t" "branches u = branches t"
    "event_counter u = event_counter t" "session_positions u = session_positions t"
    "applied_heads u = applied_heads t"
  shows "tl_ok u = tl_ok t"
  unfolding tl_ok_def core_ok_cong [OF assms(1-4)] using assms by (simp add: pointers_ok_def)

lemma index_event_entities_fields [simp]:
  "events (index_event_entities e i out t) = events t"
  "branch_events (index_event_entities e i out t) = branch_events t"
  "branches (index_event_entities e i out t) = branches t"
  "event_counter (index_event_entities e i out t) = event_counter t"
  "session_positions (index_event_entities e i out t) = session_positions t"
  "applied_heads (index_event_entities e i out t) = applied_heads t"
  by (simp_all add: index_event_entities_def Let_def)

definition fresh_event :: "event_id \<Rightarrow> nat \<Rightarrow> timeline \<Rightarrow> bool" where
  "fresh_event eid seq t \<longleftrightarrow>
     map_of (events t) eid = None \<and> seq \<notin> sequence_number ` snd ` set (events t)"

lemma fresh_eventD:
  "fresh_event eid seq t \<Longrightarrow> map_of (events t) e = Some ev \<Longrightarrow> e \<noteq> eid \<and> sequence_number ev \<noteq> seq"
  by (force simp: fresh_event_def dest: map_of_SomeD)

lemma core_put_event:
  assumes c: "core_ok t" and f: "fresh_event eid (sequence_number ev) t"
    and ev: "te_id ev = eid" "sequence_number ev < event_counter t"
  shows "core_ok (t\<lparr>events := AList.update eid ev (events t)\<rparr>)"
proof -
  let ?t = "t\<lparr>events := AList.update eid ev (events t)\<rparr>"
  have "entries_ok ?t"
    using core_okD(2) [OF c] fresh_eventD [OF f]
    by (fastforce simp: entries_ok_def entry_ok_def dm.get_put)
  moreover have "events_ok ?t"
    using core_okD(4) [OF c] fresh_eventD [OF f] ev
    unfolding events_ok_def by (simp add: dm.get_put) metis
  moreover have "maps_ok ?t" "branches_ok ?t"
    using core_okD(1,3) [OF c] by (simp_all add: maps_ok_def branches_ok_def)
  ultimately show ?thesis by (simp add: core_ok_def)
qed

lemma insert_event_Ok:
  assumes "index_of t b = Some m"
  shows "insert_event ev b t =
    (Ok (), index_event_entities (te_id ev) (te_inputs ev) (te_outputs ev)
       (put_index b (AList.update (sequence_number ev) (te_id ev))
         (t\<lparr>events := AList.update (te_id ev) ev (events t)\<rparr>)))"
  using assms by (simp add: insert_event_def Let_def contains_key_def)

lemma tl_ok_insert_event:
  assumes t: "tl_ok t" and f: "fresh_event (te_id ev) (sequence_number ev) t"
    and s: "sequence_number ev < event_counter t" and o: "origin ev = b"
    and i: "index_of t b = Some m"
  shows "tl_ok (snd (insert_event ev b t))"
proof -
  let ?t = "t\<lparr>events := AList.update (te_id ev) ev (events t)\<rparr>"
  let ?u = "put_index b (AList.update (sequence_number ev) (te_id ev)) ?t"
  have c: "core_ok ?t" using core_put_event [OF tl_okD(1) [OF t] f] s by simp
  have "core_ok ?u"
  proof (rule core_put_index [OF c])
    fix m' assume m': "index_of ?t b = Some m'"
    have "entry_ok ?t b (sequence_number ev) (te_id ev)"
      by (simp add: entry_ok_def o)
    then show "dmap_ok (AList.update (sequence_number ev) (te_id ev) m') \<and>
        (\<forall>k e. map_of (AList.update (sequence_number ev) (te_id ev) m') k = Some e \<longrightarrow>
               entry_ok ?t b k e)"
      using index_ok [OF c m'] entries_okD [OF c m'] by (simp add: dm.get_put)
  qed
  moreover have "pointers_ok ?u"
    by (rule pointers_mono [OF tl_okD(2) [OF t]])
      (auto simp: index_put_index length_update_ge)
  ultimately show ?thesis
    unfolding insert_event_Ok [OF i] snd_conv by (subst tl_ok_cong) (simp_all add: tl_ok_def)
qed

lemma tl_ok_counter:
  assumes "tl_ok t" "event_counter t \<le> n"
  shows "tl_ok (t\<lparr>event_counter := n\<rparr>)"
proof -
  let ?t = "t\<lparr>event_counter := n\<rparr>"
  note c = core_okD [OF tl_okD(1) [OF assms(1)]]
  have "maps_ok ?t = maps_ok t" "entries_ok ?t = entries_ok t" "branches_ok ?t = branches_ok t"
    "pointers_ok ?t = pointers_ok t"
    by (simp_all add: maps_ok_def entries_ok_def branches_ok_def pointers_ok_def entry_ok_def)
  moreover have "events_ok ?t"
    using c(4) assms(2) unfolding events_ok_def by (auto dest: less_le_trans)
  ultimately show ?thesis using c tl_okD(2) [OF assms(1)] by (simp add: tl_ok_def core_ok_def)
qed

lemma counter_discard [simp]: "event_counter (snd (discard_redo_tail now b t)) = event_counter t"
  by (auto simp: discard_redo_tail_def Let_def clear_head_def split: option.splits sum.splits)

lemma events_discard:
  "map_of (events (snd (discard_redo_tail now b t))) e = Some ev \<Longrightarrow> map_of (events t) e = Some ev"
  by (auto simp: discard_redo_tail_def Let_def clear_head_def events_apply_truncate
      split: option.splits sum.splits if_splits)

lemma fresh_discard:
  assumes "tl_ok t" "fresh_event eid seq t"
  shows "fresh_event eid seq (snd (discard_redo_tail now b t))"
proof -
  have "dmap_ok (events (snd (discard_redo_tail now b t)))"
    using tl_ok_discard [OF assms(1)] by (simp add: tl_ok_def core_ok_def maps_ok_def)
  then have "set (events (snd (discard_redo_tail now b t))) \<subseteq> set (events t)"
    by (auto intro: map_of_SomeD events_discard map_of_is_SomeI)
  moreover have "map_of (events (snd (discard_redo_tail now b t))) eid = None"
    using assms(2) events_discard [of now b t eid] by (auto simp: fresh_event_def)
  ultimately show ?thesis using assms(2) by (auto simp: fresh_event_def)
qed

lemma index_discard:
  "index_of t b' = Some m \<Longrightarrow> \<exists>m'. index_of (snd (discard_redo_tail now b t)) b' = Some m'"
  by (auto simp: discard_redo_tail_def Let_def clear_head_def index_apply_truncate
      split: option.splits sum.splits)

text \<open>The side conditions of an append: a fresh identifier, and a sequence number that is either
  burned from a counter that does not wrap, or reserved and unused.\<close>

definition can_append :: "event_id \<Rightarrow> nat option \<Rightarrow> timeline \<Rightarrow> bool" where
  "can_append eid reserved t \<longleftrightarrow>
     (case reserved of
        None \<Rightarrow> map_of (events t) eid = None \<and> event_counter t + 1 < u64_bound
      | Some seq \<Rightarrow> fresh_event eid seq t \<and> seq < event_counter t)"

lemma can_append_fresh:
  "tl_ok t \<Longrightarrow> can_append eid reserved t \<Longrightarrow>
   fresh_event eid (case reserved of None \<Rightarrow> event_counter t | Some s \<Rightarrow> s) t"
proof (cases reserved)
  case None
  assume t: "tl_ok t" and c: "can_append eid reserved t"
  have d: "dmap_ok (events t)" using t by (simp add: tl_ok_def core_ok_def maps_ok_def)
  have "event_counter t \<notin> sequence_number ` snd ` set (events t)"
  proof
    assume "event_counter t \<in> sequence_number ` snd ` set (events t)"
    then obtain e ev where "(e, ev) \<in> set (events t)" "sequence_number ev = event_counter t" by auto
    then show False using event_below [OF tl_okD(1) [OF t], of e ev] d by simp
  qed
  then show ?thesis using c None by (simp add: can_append_def fresh_event_def)
qed (simp add: can_append_def)

text \<open>The state into which the new event is inserted.\<close>

definition before_insert :: "timestamp \<Rightarrow> branch_id \<Rightarrow> nat option \<Rightarrow> timeline \<Rightarrow> nat \<times> timeline" where
  "before_insert now b reserved t =
     (let t1 = snd (discard_redo_tail now b t)
      in case reserved of Some s \<Rightarrow> (s, t1) | None \<Rightarrow> reserve_sequence_number t1)"

lemma before_insert_ok:
  assumes t: "tl_ok t" and c: "can_append eid reserved t"
    and bi: "before_insert now b reserved t = (seq, t2)"
  shows "tl_ok t2" "fresh_event eid seq t2" "seq < event_counter t2"
    and "branch_events t2 = branch_events (snd (discard_redo_tail now b t))"
    and "events t2 = events (snd (discard_redo_tail now b t))"
    and "branches t2 = branches (snd (discard_redo_tail now b t))"
    and "applied_heads t2 = applied_heads (snd (discard_redo_tail now b t))"
    and "seq = (case reserved of None \<Rightarrow> event_counter t | Some s \<Rightarrow> s)"
proof -
  let ?t1 = "snd (discard_redo_tail now b t)"
  have t1: "tl_ok ?t1" by (rule tl_ok_discard [OF t])
  have f: "fresh_event eid (case reserved of None \<Rightarrow> event_counter t | Some s \<Rightarrow> s) ?t1"
    using fresh_discard [OF t can_append_fresh [OF t c]] .
  have w: "reserved = None \<Longrightarrow> wrapping_succ (event_counter t) = event_counter t + 1"
    using c by (simp add: can_append_def wrapping_succ_no_wrap)
  show seq: "seq = (case reserved of None \<Rightarrow> event_counter t | Some s \<Rightarrow> s)"
    using bi by (auto simp: before_insert_def Let_def reserve_sequence_number_def split: option.splits)
  show evs: "events t2 = events ?t1"
    using bi by (auto simp: before_insert_def Let_def reserve_sequence_number_def split: option.splits)
  show "fresh_event eid seq t2"
    using f by (simp add: fresh_event_def seq evs)
  show "tl_ok t2"
    using bi t1 tl_ok_counter [OF t1, of "event_counter t + 1"] w
    by (auto simp: before_insert_def Let_def reserve_sequence_number_def split: option.splits)
  show "seq < event_counter t2"
    using bi c w
    by (auto simp: before_insert_def Let_def reserve_sequence_number_def can_append_def split: option.splits)
qed (use bi in \<open>auto simp: before_insert_def Let_def reserve_sequence_number_def split: option.splits\<close>)

lemma keys_sorted: "branch_event_keys_sorted t b =
    (case index_of t b of None \<Rightarrow> Err (BranchNotFound b) | Some m \<Rightarrow> Ok (map fst (sorted_entries m)))"
  by (simp add: branch_event_keys_sorted_def map_fst_sorted_entries split: option.split)

lemma discard_Ok:
  assumes "tl_ok t" "map_of (branches t) b = Some br"
  shows "\<exists>d. fst (discard_redo_tail now b t) = Ok d"
proof -
  obtain m where m: "index_of t b = Some m"
    using assms index_iff_branch' [OF tl_okD(1) [OF assms(1)]] by blast
  have some: "\<exists>br'. map_of (branches (apply_truncate_plan now plan k t)) b = Some br'" for plan k
    by (simp add: branches_apply_truncate assms(2))
  show ?thesis
  proof (cases "\<exists>h. applied_head t b = Some h \<and> h < length m")
    case False
    then show ?thesis by (auto simp: discard_redo_tail_def keys_sorted m split: option.split)
  next
    case True
    then obtain h where h: "applied_head t b = Some h" "h < length m" by blast
    obtain plan where p: "truncate_plan t b (map fst (sorted_entries m) ! h) = Ok plan"
      using truncate_plan_Ok [OF m] by blast
    obtain br' where "map_of (branches (apply_truncate_plan now plan
        (map fst (sorted_entries m) ! h) t)) b = Some br'" using some by blast
    with h p show ?thesis by (simp add: discard_redo_tail_def keys_sorted m Let_def clear_head_def)
  qed
qed

lemma append_internal_cases:
  assumes t: "tl_ok t" and r: "append_internal pu eid now op author b reserved cert t = (r, t')"
  obtains (rejected) e where "r = Err e" "t' = t"
      "\<forall>br. map_of (branches t) b = Some br \<longrightarrow> br_state br \<noteq> Active"
  | (accepted) br d seq t2 where "map_of (branches t) b = Some br" "br_state br = Active"
      "r = Ok (eid, d)" "before_insert now b reserved t = (seq, t2)"
      "t' = (snd (insert_event (new_event pu eid now seq op author b cert) b t2))
              \<lparr>active_operations := AList.update eid Validating (active_operations
                 (snd (insert_event (new_event pu eid now seq op author b cert) b t2)))\<rparr>"
proof (cases "\<exists>br. map_of (branches t) b = Some br \<and> br_state br = Active")
  case False
  then have "\<exists>e. r = Err e \<and> t' = t"
    using r by (auto simp: append_internal_def split: option.splits elim: append_refusal.elims)
  with False show ?thesis using rejected by blast
next
  case True
  then obtain br where br: "map_of (branches t) b = Some br" "br_state br = Active" by blast
  obtain m where m: "index_of t b = Some m"
    using br(1) index_iff_branch' [OF tl_okD(1) [OF t]] by blast
  obtain d where d: "fst (discard_redo_tail now b t) = Ok d"
    using discard_Ok [OF t br(1)] by blast
  obtain seq t2 where bi: "before_insert now b reserved t = (seq, t2)" by fastforce
  have "branch_events t2 = branch_events (snd (discard_redo_tail now b t))"
    using bi by (auto simp: before_insert_def Let_def reserve_sequence_number_def split: option.splits)
  then obtain m2 where m2: "index_of t2 b = Some m2"
    using index_discard [OF m, of now b] by auto
  have "discard_redo_tail now b t = (Ok d, snd (discard_redo_tail now b t))"
    using d by (metis prod.collapse)
  then show ?thesis
    by (intro accepted [OF br _ bi])
      (use r br m bi in \<open>auto simp: append_internal_def contains_key_def before_insert_def Let_def
          insert_event_Ok [OF m2] split: option.splits prod.splits\<close>)
qed

lemma new_event_fields [simp]:
  "te_id (new_event pu eid now seq op author b cert) = eid"
  "sequence_number (new_event pu eid now seq op author b cert) = seq"
  "origin (new_event pu eid now seq op author b cert) = b"
  "te_operation (new_event pu eid now seq op author b cert) = op"
  by (simp_all add: new_event_def Let_def store_in_def split: option.split)

lemma tl_ok_append:
  assumes t: "tl_ok t" and c: "can_append eid reserved t"
  shows "tl_ok (snd (append_internal pu eid now op author b reserved cert t))"
proof -
  obtain r t' where r: "append_internal pu eid now op author b reserved cert t = (r, t')"
    by fastforce
  show ?thesis using t r
  proof (cases rule: append_internal_cases)
    case rejected
    then show ?thesis using t r by simp
  next
    case (accepted br d seq t2)
    note ok = before_insert_ok [OF t c accepted(4)]
    obtain m where "index_of t b = Some m"
      using accepted(1) index_iff_branch' [OF tl_okD(1) [OF t]] by blast
    then obtain m2 where m2: "index_of t2 b = Some m2"
      using index_discard [of t b m now b] ok(4) by auto
    have "tl_ok (snd (insert_event (new_event pu eid now seq op author b cert) b t2))"
      by (rule tl_ok_insert_event [OF ok(1) _ _ _ m2]) (simp_all add: ok(2,3))
    then show ?thesis using accepted(5) by (subst tl_ok_cong) (simp_all add: r)
  qed
qed

text \<open>The history a discard leaves is the applied part.\<close>

definition applied_len :: "timeline \<Rightarrow> branch_id \<Rightarrow> nat" where
  "applied_len t b = (case applied_count t b of Ok k \<Rightarrow> k | Err _ \<Rightarrow> 0)"

definition history_of :: "timeline \<Rightarrow> branch_id \<Rightarrow> (event_index \<times> event_id) list" where
  "history_of t b = (case index_of t b of None \<Rightarrow> [] | Some m \<Rightarrow> sorted_entries m)"

lemma history_of_Some: "index_of t b = Some m \<Longrightarrow> history_of t b = sorted_entries m"
  by (simp add: history_of_def)

lemma ascending_history: "core_ok t \<Longrightarrow> ascending (history_of t b)"
  by (auto simp: history_of_def index_ok ascending_sorted_entries split: option.split)
    (simp add: ascending_def)

lemma kept_self:
  assumes "truncate_plan t b k = Ok plan" "index_of t b = Some m"
  shows "kept b plan m = filter (\<lambda>kv. fst kv < k) m"
  using assms by (elim truncate_planE) (auto simp: kept_def image_iff not_less intro!: filter_cong)

lemma history_discard:
  assumes t: "tl_ok t" and m: "index_of t b = Some m"
  shows "history_of (snd (discard_redo_tail now b t)) b = take (applied_len t b) (history_of t b)"
proof (cases "applied_head t b")
  case None
  then show ?thesis
    by (simp add: discard_redo_tail_def applied_len_def applied_count_def m history_of_def)
next
  case (Some h)
  then have h: "h < length m"
    using tl_okD(2) [OF t] m unfolding pointers_ok_def applied_head_def by fastforce
  define k where "k = map fst (sorted_entries m) ! h"
  obtain plan where p: "truncate_plan t b k = Ok plan" using truncate_plan_Ok [OF m] by blast
  have k: "k = fst (sorted_entries m ! h)" using h by (simp add: k_def)
  have "applied_len t b = h" using Some h by (simp add: applied_len_def applied_count_def m)
  moreover have "snd (discard_redo_tail now b t) = clear_head b (apply_truncate_plan now plan k t)"
    using h p by (simp add: discard_redo_tail_def Some keys_sorted m Let_def k_def [symmetric]
        split: option.splits)
  moreover have "index_of (apply_truncate_plan now plan k t) b = Some (filter (\<lambda>kv. fst kv < k) m)"
    by (simp add: index_apply_truncate m kept_self [OF p m])
  moreover have "filter (\<lambda>kv. fst kv < k) (sorted_entries m) = take h (sorted_entries m)"
    unfolding k using index_ok [OF tl_okD(1) [OF t] m] h
    by (intro ascending_take_drop(1)) (simp_all add: ascending_sorted_entries)
  ultimately show ?thesis
    by (simp add: history_of_def clear_head_def m sorted_entries_filter)
qed

section \<open>A fork\<close>

lemma incorporates_put_fresh:
  assumes "map_of brs b = None" "incorporates brs x y"
  shows "incorporates (AList.update b br brs) x y"
  using assms unfolding incorporates_def by (auto simp: dm.get_put)

lemma core_add_branch:
  assumes c: "core_ok t" and f: "map_of (branches t) b = None"
    and br: "br_id br = b" "parent_ok (branches t) br"
    and m: "dmap_ok m" "\<And>k e. map_of m k = Some e \<Longrightarrow> br_parent br = Some p \<and> entry_ok t p k e"
  shows "core_ok (t\<lparr>branch_events := AList.update b m (branch_events t),
                    branches := AList.update b br (branches t)\<rparr>)" (is "core_ok ?t")
proof -
  have mono: "(incorporates (branches t))\<^sup>*\<^sup>* x y \<Longrightarrow> (incorporates (branches ?t))\<^sup>*\<^sup>* x y" for x y
    using incorporates_put_fresh [OF f, of _ _ br] by simp (metis mono_rtranclp)
  have old: "entry_ok ?t x k e" if "entry_ok t x k e" for x k e
    using that mono by (auto simp: entry_ok_def)
  have "entry_ok ?t b k e" if k: "map_of m k = Some e" for k e
  proof -
    have "incorporates (branches ?t) b p" using m(2) [OF k] by (simp add: incorporates_def)
    then show ?thesis
      using old [of p k e] m(2) [OF k] by (auto simp: entry_ok_def intro: converse_rtranclp_into_rtranclp)
  qed
  then have "entries_ok ?t"
    using old core_okD(2) [OF c] by (simp add: entries_ok_def dm.get_put)
  moreover have "maps_ok ?t"
    using core_okD(1) [OF c] m(1) by (auto simp: maps_ok_def dm.get_put)
  moreover have "branches_ok ?t"
    using core_okD(3) [OF c] br by (auto simp: branches_ok_def parent_ok_def dm.get_put)
  moreover have "events_ok ?t"
    using core_okD(4) [OF c] by (simp add: events_ok_def)
  ultimately show ?thesis by (simp add: core_ok_def)
qed

definition fork_index :: "timeline \<Rightarrow> branch_id \<Rightarrow> event_index option \<Rightarrow> event_index" where
  "fork_index t parent fork_at = (case fork_at of Some k \<Rightarrow> k
      | None \<Rightarrow> (case get_branch_head t parent of Err _ \<Rightarrow> 0 | Ok h \<Rightarrow> h))"

lemma create_branch_cases:
  assumes t: "tl_ok t" and r: "create_branch fresh now name parent fork_at author why t = (r, t')"
  obtains (rejected) "r = Err (BranchNotFound parent)" "t' = t" "map_of (branches t) parent = None"
  | (created) m br where "r = Ok fresh" "index_of t parent = Some m"
      "br_id br = fresh" "br_parent br = Some parent" "br_state br = Active" "\<not> protected br"
      "br_fork_point br =
         \<lparr>fp_branch_id = parent, fp_event_index = fork_index t parent fork_at, fp_timestamp = now\<rparr>"
      "t' = t\<lparr>branch_events := AList.update fresh
                 (filter (\<lambda>kv. fst kv \<le> fork_index t parent fork_at) m) (branch_events t),
              branches := AList.update fresh br (branches t)\<rparr>"
proof (cases "map_of (branches t) parent")
  case None
  then show ?thesis using r rejected by (simp add: create_branch_def contains_key_def)
next
  case (Some pbr)
  then obtain m where m: "index_of t parent = Some m"
    using index_iff_branch' [OF tl_okD(1) [OF t]] by blast
  show ?thesis
    using r Some m
    by (intro created [OF _ m])
      (auto simp: create_branch_def contains_key_def Let_def fork_index_def [symmetric] case_prod_unfold)
qed

lemma tl_ok_create_branch:
  assumes t: "tl_ok t" and f: "map_of (branches t) fresh = None"
  shows "tl_ok (snd (create_branch fresh now name parent fork_at author why t))"
proof -
  obtain r t' where r: "create_branch fresh now name parent fork_at author why t = (r, t')"
    by fastforce
  note c = tl_okD(1) [OF t]
  show ?thesis using t r
  proof (cases rule: create_branch_cases)
    case rejected
    then show ?thesis using t r by simp
  next
    case (created m br)
    let ?m = "filter (\<lambda>kv. fst kv \<le> fork_index t parent fork_at) m"
    have "core_ok t'" unfolding created(8)
    proof (rule core_add_branch [OF c f created(3), where p = parent])
      show "parent_ok (branches t) br"
        using created(2,4,7) index_iff_branch [OF c, of parent] by (auto simp: parent_ok_def)
      show "dmap_ok ?m" using index_ok [OF c created(2)] by simp
      show "br_parent br = Some parent \<and> entry_ok t parent k e" if "map_of ?m k = Some e" for k e
        using that created(4) entries_okD [OF c created(2), of k e]
          map_of_filter_keys [OF index_ok [OF c created(2)], of "\<lambda>x. x \<le> fork_index t parent fork_at"]
        by (auto split: if_splits)
    qed
    moreover have "pointers_ok t'"
      by (rule pointers_mono [OF tl_okD(2) [OF t]])
        (use f index_iff_branch [OF c, of fresh] in \<open>auto simp: created(8) dm.get_put\<close>)
    ultimately show ?thesis by (simp add: r tl_ok_def)
  qed
qed

section \<open>A merge\<close>

lemma modify_entry_id: "(\<And>v. f v = v) \<Longrightarrow> modify_entry k f m = m"
  by (induction m) (auto simp: modify_entry_def)

lemma file_entries_Nil [simp]: "file_entries b [] t = t"
  by (simp add: file_entries_def put_index_def modify_entry_id)

lemma file_entries_fields [simp]:
  "events (file_entries b es t) = events t" "branches (file_entries b es t) = branches t"
  "event_counter (file_entries b es t) = event_counter t"
  "session_positions (file_entries b es t) = session_positions t"
  "applied_heads (file_entries b es t) = applied_heads t"
  by (simp_all add: file_entries_def)

lemma set_state_put_index:
  "set_branch_state b s (put_index b' f t) = put_index b' f (set_branch_state b s t)"
  by (simp add: set_branch_state_def put_index_def)

lemma index_file_entries:
  "index_of (file_entries b es t) b' =
     map_option (\<lambda>m. if b' = b then fold (\<lambda>(k, e). AList.update k e) es m else m) (index_of t b')"
  by (cases "b' = b"; cases "index_of t b'") (simp_all add: file_entries_def index_put_index)

lemma history_event:
  assumes "core_ok t" "(k, e) \<in> set (history_of t b)"
  obtains ev where "map_of (events t) e = Some ev" "sequence_number ev = k" "te_id ev = e"
    "entry_ok t b k e"
proof -
  obtain m where m: "index_of t b = Some m" "(k, e) \<in> set m"
    using assms(2) by (cases "index_of t b") (auto simp: history_of_def)
  then have "entry_ok t b k e"
    using index_ok [OF assms(1) m(1)] by (intro entries_okD [OF assms(1) m(1)]) simp
  then show ?thesis using that event_key [OF assms(1)] by (auto simp: entry_ok_def)
qed

lemma events_for_Cons:
  "events_for t ((k, e) # es) =
     (case map_of (events t) e of None \<Rightarrow> events_for t es | Some ev \<Rightarrow> ev # events_for t es)"
  by (simp add: events_for_def List.map_filter_simps split: option.split)

lemma events_for_entries:
  assumes "core_ok t" "set es \<subseteq> set (history_of t b)"
  shows "map (\<lambda>ev. (sequence_number ev, te_id ev)) (events_for t es) = es"
  using assms(2)
proof (induction es)
  case (Cons kv es)
  obtain k e where kv: "kv = (k, e)" by (cases kv)
  then obtain ev where "map_of (events t) e = Some ev" "sequence_number ev = k" "te_id ev = e"
    using history_event [OF assms(1), of k e b] Cons.prems by auto
  then show ?case using Cons by (simp add: kv events_for_Cons)
qed (simp add: events_for_def List.map_filter_simps)

lemma merge_gate_None:
  "merge_gate t source target = None \<Longrightarrow>
   source \<noteq> target \<and> (\<exists>s g. map_of (branches t) source = Some s \<and> br_state s = Active \<and>
      map_of (branches t) target = Some g \<and> br_state g = Active)"
  by (auto simp: merge_gate_def split: if_splits option.splits)

lemma branch_sequence_history:
  "branch_sequence t b = Ok seq \<longleftrightarrow> (\<exists>m. index_of t b = Some m) \<and> seq = history_of t b"
  by (auto simp: branch_sequence_def history_of_def split: option.splits)

lemma up_to_date_iff: "up_to_date s g \<longleftrightarrow> take (length s) g = s"
proof -
  have "list_all (\<lambda>(a, b). a = b) (zip s g) \<longleftrightarrow> take (length g) s = take (length s) g"
  proof (induction s arbitrary: g)
    case (Cons a s)
    then show ?case by (cases g) auto
  qed simp
  then show ?thesis by (auto simp: up_to_date_def min_def dest: arg_cong [where f = length])
qed

text \<open>The three outcomes of a merge of a well-formed timeline.\<close>

lemma merge_branches_cases:
  assumes r: "merge_branches ser sh el now source target strategy t = (r, t')"
  obtains (rejected) e where "r = Err e" "t' = t"
  | (conflicted) cs where "r = Ok (merge_conflicted el cs)" "t' = t" "cs \<noteq> []"
  | (merged) es where "r = Ok (merge_success el (events_for t es))"
      "merge_gate t source target = None" "set es \<subseteq> set (history_of t source)"
      "t' = set_branch_state source (Merged target now)
              (file_entries target
                (if up_to_date (history_of t source) (history_of t target) \<or>
                    can_fast_forward (history_of t source) (history_of t target) then es
                 else map (\<lambda>ev. (sequence_number ev, te_id ev)) (events_for t es)) t)"
      "es = (if up_to_date (history_of t source) (history_of t target) then []
             else drop (common_prefix_len (history_of t source) (history_of t target))
                    (history_of t source))"
proof (cases "merge_gate t source target")
  case (Some e)
  then show ?thesis using r rejected by (auto simp: merge_branches_def)
next
  case None
  let ?s = "history_of t source" and ?g = "history_of t target"
  have ff: "can_fast_forward ?s ?g \<Longrightarrow> common_prefix_len ?s ?g = length ?g"
  proof -
    assume "can_fast_forward ?s ?g"
    then have "?s = ?g @ drop (length ?g) ?s"
      unfolding can_fast_forward_def by (metis append_take_drop_id)
    then have "zip ?s ?g = zip (?g @ drop (length ?g) ?s) ?g" by simp
    also have "\<dots> = zip ?g ?g" by (simp add: zip_append1)
    finally have "zip ?s ?g = zip ?g ?g" .
    then show ?thesis by (simp add: common_prefix_len_def zip_same_conv_map takeWhile_map comp_def
          takeWhile_eq_all_conv [THEN iffD2])
  qed
  have e: "events_for t [] = []" by (simp add: events_for_def List.map_filter_simps)
  show ?thesis
  proof (cases "(\<exists>m. index_of t source = Some m) \<and> (\<exists>m. index_of t target = Some m)")
    case False
    then show ?thesis
      using r None rejected by (auto simp: merge_branches_def branch_sequence_def split: option.splits)
  next
    case True
    then have sq: "branch_sequence t source = Ok ?s" "branch_sequence t target = Ok ?g"
      by (simp_all add: branch_sequence_history)
    consider "up_to_date ?s ?g" | "\<not> up_to_date ?s ?g" "can_fast_forward ?s ?g"
      | "\<not> up_to_date ?s ?g" "\<not> can_fast_forward ?s ?g" by blast
    then show ?thesis
    proof cases
      case 1
      show ?thesis
        by (rule merged [of "[]"]) (use r None sq 1 in \<open>auto simp: merge_branches_def Let_def e\<close>)
    next
      case 2
      show ?thesis
        by (rule merged [of "drop (length ?g) ?s"])
          (use r None sq 2 ff in \<open>auto simp: merge_branches_def Let_def dest: in_set_dropD\<close>)
    next
      case 3
      let ?c = "common_prefix_len ?s ?g"
      show ?thesis
      proof (cases "strategy_refusal source target ?c (length ?s - ?c) (length ?g - ?c) strategy")
        case (Some e)
        then show ?thesis using r None sq 3 rejected by (auto simp: merge_branches_def Let_def)
      next
        case N: None
        let ?cs = "classify_divergence_conflicts ser sh (events_for t (drop ?c ?s))
                     (events_for t (drop ?c ?g))"
        show ?thesis
        proof (cases "?cs = []")
          case True
          show ?thesis
            by (rule merged [of "drop ?c ?s"])
              (use r None sq 3 N True in \<open>auto simp: merge_branches_def Let_def dest: in_set_dropD\<close>)
        next
          case False
          show ?thesis
            by (rule conflicted [OF _ _ False])
              (use r None sq 3 N False in \<open>auto simp: merge_branches_def Let_def\<close>)
        qed
      qed
    qed
  qed
qed

lemma core_merge:
  assumes c: "core_ok t" and g: "merge_gate t source target = None"
    and es: "set es \<subseteq> set (history_of t source)"
  shows "core_ok (set_branch_state source (Merged target now) (file_entries target es t))"
proof -
  let ?t = "set_branch_state source (Merged target now) t"
  obtain s where s: "map_of (branches t) source = Some s" "br_state s = Active"
    using merge_gate_None [OF g] by blast
  have ct: "core_ok ?t"
    using s by (intro core_set_branch_state [OF c]) (simp add: keeps_edges_def)
  have edge: "incorporates (branches ?t) target source"
    using s by (simp add: incorporates_def branches_set_branch_state)
  have "core_ok (put_index target (fold (\<lambda>(k, e). AList.update k e) es) ?t)"
  proof (rule core_put_index [OF ct])
    fix m assume m: "index_of ?t target = Some m"
    have "entry_ok ?t target k e"
      if ke: "map_of (fold (\<lambda>(k, e). AList.update k e) es m) k = Some e" for k e
    proof (cases "k \<in> fst ` set es")
      case True
      then have "map_of (rev es) k = Some e" using ke by (simp add: dm.get_fold_put)
      then have "(k, e) \<in> set es" by (auto dest: map_of_SomeD)
      then have "(k, e) \<in> set (history_of ?t source)" using es by (auto simp: history_of_def)
      then have "entry_ok ?t source k e" by (rule history_event [OF ct])
      then show ?thesis using edge
        by (auto simp: entry_ok_def intro: converse_rtranclp_into_rtranclp)
    next
      case False
      then show ?thesis using ke entries_okD [OF ct m] by (simp add: dm.get_fold_put)
    qed
    then show "dmap_ok (fold (\<lambda>(k, e). AList.update k e) es m) \<and>
        (\<forall>k e. map_of (fold (\<lambda>(k, e). AList.update k e) es m) k = Some e \<longrightarrow> entry_ok ?t target k e)"
      using index_ok [OF ct m] by simp
  qed
  then show ?thesis by (simp add: file_entries_def set_state_put_index)
qed

lemma merged_entries:
  assumes "core_ok t" "set es \<subseteq> set (history_of t source)"
  shows "(if P then es else map (\<lambda>ev. (sequence_number ev, te_id ev)) (events_for t es)) = es"
  using events_for_entries [OF assms] by simp

lemma tl_ok_merge:
  assumes t: "tl_ok t"
  shows "tl_ok (snd (merge_branches ser sh el now source target strategy t))"
proof -
  obtain r t' where r: "merge_branches ser sh el now source target strategy t = (r, t')" by fastforce
  from r show ?thesis
  proof (cases rule: merge_branches_cases)
    case (merged es)
    let ?t = "set_branch_state source (Merged target now) (file_entries target es t)"
    have t': "t' = ?t"
      using merged(4) merged_entries [OF tl_okD(1) [OF t] merged(3)] by simp
    have "core_ok ?t" by (rule core_merge [OF tl_okD(1) [OF t] merged(2,3)])
    moreover have "pointers_ok ?t"
      by (rule pointers_mono [OF tl_okD(2) [OF t]])
        (auto simp: index_file_entries length_fold_update_ge)
    ultimately show ?thesis by (simp add: r t' tl_ok_def)
  qed (use r t in auto)
qed

section \<open>Pointers, states and checkpoints\<close>

lemma tl_ok_update_position: "tl_ok t \<Longrightarrow> tl_ok (snd (update_session_position sid b k now t))"
proof -
  assume t: "tl_ok t"
  have "core_ok (snd (update_session_position sid b k now t))"
    using tl_okD(1) [OF t]
    by (subst core_ok_cong [of _ t]) (auto simp: update_session_position_def split: option.splits)
  moreover have "pointers_ok (snd (update_session_position sid b k now t))"
    using tl_okD(2) [OF t]
    by (auto simp: pointers_ok_def update_session_position_def dm.get_put split: option.splits)
  ultimately show ?thesis by (simp add: tl_ok_def)
qed

lemma undo_update:
  "snd (undo now sid t) = t \<or> (\<exists>b k. snd (undo now sid t) = snd (update_session_position sid b k now t))"
  unfolding undo_def Let_def by (auto split: option.splits sum.splits prod.splits) (metis snd_conv)+

lemma redo_update:
  "snd (redo now sid t) = t \<or> (\<exists>b k. snd (redo now sid t) = snd (update_session_position sid b k now t))"
  unfolding redo_def Let_def by (auto split: option.splits sum.splits prod.splits) (metis snd_conv)+

lemma tl_ok_undo: "tl_ok t \<Longrightarrow> tl_ok (snd (undo now sid t))"
  using undo_update [of now sid t] by (auto simp: tl_ok_update_position)

lemma tl_ok_redo: "tl_ok t \<Longrightarrow> tl_ok (snd (redo now sid t))"
  using redo_update [of now sid t] by (auto simp: tl_ok_update_position)

lemma tl_ok_set_head: "tl_ok t \<Longrightarrow> tl_ok (snd (set_applied_head b k t))"
proof -
  assume t: "tl_ok t"
  have "core_ok (snd (set_applied_head b k t))"
    using tl_okD(1) [OF t]
    by (subst core_ok_cong [of _ t]) (auto simp: set_applied_head_def split: option.splits)
  moreover have "pointers_ok (snd (set_applied_head b k t))"
    using tl_okD(2) [OF t]
    by (auto simp: pointers_ok_def set_applied_head_def dm.get_put dm.get_del split: option.splits)
  ultimately show ?thesis by (simp add: tl_ok_def)
qed

lemma tl_ok_restore_head: "tl_ok t \<Longrightarrow> tl_ok (snd (restore_applied_head_state b s t))"
  using tl_ok_set_head tl_ok_clear_head [unfolded clear_head_def]
  by (auto simp: restore_applied_head_state_def split: option.splits sum.splits)

lemma tl_ok_set_state: "tl_ok t \<Longrightarrow> keeps_edges b t \<Longrightarrow> tl_ok (set_branch_state b s t)"
  unfolding tl_ok_def by (auto simp: core_set_branch_state intro: pointers_mono)

lemma tl_ok_abandon: "tl_ok t \<Longrightarrow> tl_ok (snd (abandon_branch b reason force t))"
  by (auto simp: abandon_branch_def keeps_edges_def intro!: tl_ok_set_state
      split: option.splits branch_state.splits)

lemma tl_ok_reserve:
  "tl_ok t \<Longrightarrow> event_counter t + 1 < u64_bound \<Longrightarrow> tl_ok (snd (reserve_sequence_number t))"
  using tl_ok_counter [of t "event_counter t + 1"]
  by (simp add: reserve_sequence_number_def wrapping_succ_no_wrap)

text \<open>A change that leaves a branch's parent, fork point, identity and state alone.\<close>

lemma tl_ok_modify_branch:
  assumes t: "tl_ok t"
    and f: "\<And>br. br_id (f br) = br_id br \<and> br_parent (f br) = br_parent br \<and>
              br_fork_point (f br) = br_fork_point br \<and> br_state (f br) = br_state br"
  shows "tl_ok (t\<lparr>branches := modify_entry b f (branches t)\<rparr>)" (is "tl_ok ?t")
proof -
  have i: "incorporates (branches ?t) = incorporates (branches t)"
    by (intro ext) (auto simp: incorporates_def map_of_modify_entry f)
  note c = core_okD [OF tl_okD(1) [OF t]]
  have "maps_ok ?t" using c(1) by (auto simp: maps_ok_def map_of_modify_entry)
  moreover have "entries_ok ?t"
    using c(2) by (simp add: entries_ok_def entry_ok_def i [simplified])
  moreover have "branches_ok ?t"
    using c(3) by (auto simp: branches_ok_def parent_ok_def map_of_modify_entry f)
  moreover have "events_ok ?t" using c(4) by (simp add: events_ok_def)
  moreover have "pointers_ok ?t" using tl_okD(2) [OF t] by (simp add: pointers_ok_def)
  ultimately show ?thesis by (simp add: tl_ok_def core_ok_def)
qed

lemma tl_ok_checkpoints: "tl_ok (t\<lparr>checkpoints := cs\<rparr>) = tl_ok t"
  by (rule tl_ok_cong) simp_all

lemma tl_ok_create_checkpoint:
  "tl_ok t \<Longrightarrow> tl_ok (snd (create_checkpoint fresh now name descr b author tags skip t))"
  using tl_ok_modify_branch [of "t\<lparr>checkpoints := cs\<rparr>" for cs]
  by (auto simp: create_checkpoint_def Let_def tl_ok_checkpoints split: option.splits)

lemma tl_ok_remove_checkpoint: "tl_ok t \<Longrightarrow> tl_ok (snd (remove_checkpoint c t))"
  using tl_ok_modify_branch [of "t\<lparr>checkpoints := cs\<rparr>" for cs]
  by (auto simp: remove_checkpoint_def Let_def tl_ok_checkpoints split: option.splits)

end
