(* ===== verification/Timeline_Validate.thy ===== *)
theory Timeline_Validate
  imports Timeline_Inv
begin

text \<open>
  \<^verbatim>\<open>Timeline::validate\<close>, the self-check of \<^verbatim>\<open>timeline-engine/src/timeline.rs\<close>,
  with the order of its checks and the error each one reports, and the proof that it decides the
  relation between the maps that \<open>consistent\<close> states.

  The walk that collects the branches a host incorporates stops after 8192 pops. A walk pops at
  most one entry more than there are edges, and \<open>n\<close> branches have at most \<open>2 * n\<close> of them
  (one parent and one merge target each), so the walk is complete for up to 4095 branches.
\<close>

section \<open>The reachability walk\<close>

fun merge_target :: "branch_state \<Rightarrow> branch_id option" where
  "merge_target (Merged into _) = Some into"
| "merge_target _ = None"

lemma merge_target_iff: "merge_target s = Some w \<longleftrightarrow> (\<exists>at. s = Merged w at)"
  by (cases s) auto

definition merged_into :: "(branch_id, branch) dmap \<Rightarrow> branch_id \<Rightarrow> branch_id list" where
  "merged_into brs w =
     map (\<lambda>(_, br). br_id br)
       (filter (\<lambda>(_, br). merge_target (br_state br) = Some w) brs)"

definition parent_of :: "(branch_id, branch) dmap \<Rightarrow> branch_id \<Rightarrow> branch_id list" where
  "parent_of brs b =
     (case Option.bind (map_of brs b) br_parent of None \<Rightarrow> [] | Some p \<Rightarrow> [p])"

text \<open>The head of \<open>stack\<close> is its top; \<open>n\<close> is the number of pops the guard still allows.\<close>

fun closure_walk ::
  "(branch_id, branch) dmap \<Rightarrow> nat \<Rightarrow> branch_id list \<Rightarrow> branch_id list \<Rightarrow> branch_id list" where
  "closure_walk brs 0 stack incorporated = incorporated"
| "closure_walk brs (Suc n) [] incorporated = incorporated"
| "closure_walk brs (Suc n) (b # stack) incorporated =
     (if b \<in> set incorporated then closure_walk brs n stack incorporated
      else closure_walk brs n (rev (merged_into brs b) @ parent_of brs b @ stack) (b # incorporated))"

definition walk_guard :: nat where
  "walk_guard = 8192"

definition incorporated_by :: "timeline \<Rightarrow> branch_id \<Rightarrow> branch_id list" where
  "incorporated_by t host = closure_walk (branches t) walk_guard [host] []"

definition ids_ok :: "(branch_id, branch) dmap \<Rightarrow> bool" where
  "ids_ok brs \<longleftrightarrow> dmap_ok brs \<and> (\<forall>(b, br) \<in> set brs. br_id br = b)"

lemma incorporates_iff:
  assumes "ids_ok brs"
  shows "incorporates brs a b \<longleftrightarrow> b \<in> set (parent_of brs a) \<or> b \<in> set (merged_into brs a)"
proof -
  have "b \<in> set (parent_of brs a) \<longleftrightarrow> (\<exists>br. map_of brs a = Some br \<and> br_parent br = Some b)"
    by (cases "map_of brs a") (auto simp: parent_of_def split: option.split)
  moreover have "b \<in> set (merged_into brs a) \<longleftrightarrow>
      (\<exists>br at. map_of brs b = Some br \<and> br_state br = Merged a at)"
  proof -
    have d: "map_of brs x = Some br \<longleftrightarrow> (x, br) \<in> set brs" for x br
      using assms by (simp add: ids_ok_def map_of_eq_Some_iff)
    have "b \<in> set (merged_into brs a) \<longleftrightarrow>
        (\<exists>x br. (x, br) \<in> set brs \<and> br_id br = b \<and> (\<exists>at. br_state br = Merged a at))"
      by (auto simp: merged_into_def merge_target_iff)
    then show ?thesis using assms unfolding d ids_ok_def by (auto; force)
  qed
  ultimately show ?thesis by (auto simp: incorporates_def)
qed

text \<open>The edges that leave branches not yet visited: what can still be pushed.\<close>

definition pending :: "(branch_id, branch) dmap \<Rightarrow> branch_id set \<Rightarrow> nat" where
  "pending brs seen =
     length (filter (\<lambda>(b, br). b \<notin> seen \<and> br_parent br \<noteq> None) brs) +
     length (filter (\<lambda>(_, br). merge_target (br_state br) \<notin> insert None (Some ` seen)) brs)"

lemma pending_bound: "pending brs seen \<le> 2 * length brs"
proof -
  have "length (filter P brs) + length (filter Q brs) \<le> length brs + length brs" for P Q
    by (intro add_mono length_filter_le)
  then show ?thesis unfolding pending_def by (metis mult_2)
qed

lemma parent_pending:
  assumes "dmap_ok brs" "b \<notin> seen"
  shows "length (parent_of brs b) +
     length (filter (\<lambda>(x, br). x \<notin> insert b seen \<and> br_parent br \<noteq> None) brs)
     \<le> length (filter (\<lambda>(x, br). x \<notin> seen \<and> br_parent br \<noteq> None) brs)"
  using assms
proof (induction brs)
  case (Cons xb brs)
  obtain x br where xb: "xb = (x, br)" by (cases xb)
  show ?case
  proof (cases "x = b")
    case True
    then have "b \<notin> fst ` set brs" using Cons.prems(1) by (simp add: xb)
    then have "filter (\<lambda>(x, br). x \<notin> insert b seen \<and> br_parent br \<noteq> None) brs =
        filter (\<lambda>(x, br). x \<notin> seen \<and> br_parent br \<noteq> None) brs"
      by (intro filter_cong) force+
    then show ?thesis using Cons.prems True by (auto simp: xb parent_of_def split: option.split)
  next
    case False
    then have "parent_of (xb # brs) b = parent_of brs b" by (simp add: parent_of_def xb)
    then show ?thesis using Cons False by (auto simp: xb)
  qed
qed (simp add: parent_of_def)

lemma length_filter_split:
  "(\<And>x. P x \<Longrightarrow> R x \<and> \<not> Q x) \<Longrightarrow> (\<And>x. Q x \<Longrightarrow> R x) \<Longrightarrow>
   length (filter P xs) + length (filter Q xs) \<le> length (filter R xs)"
  by (induction xs) auto

lemma merged_pending:
  assumes "b \<notin> seen"
  shows "length (merged_into brs b) +
     length (filter (\<lambda>(_, br). merge_target (br_state br) \<notin> insert None (Some ` insert b seen)) brs)
     \<le> length (filter (\<lambda>(_, br). merge_target (br_state br) \<notin> insert None (Some ` seen)) brs)"
  unfolding merged_into_def length_map
  by (rule length_filter_split) (use assms in auto)

lemma pending_step:
  assumes "dmap_ok brs" "b \<notin> seen"
  shows "length (merged_into brs b) + length (parent_of brs b) + pending brs (insert b seen)
     \<le> pending brs seen"
  using parent_pending [OF assms] merged_pending [OF assms(2), of brs] unfolding pending_def by linarith

lemma closure_walk_closed:
  assumes i: "ids_ok brs"
  shows "length stack + pending brs (set inc) \<le> n \<Longrightarrow>
    \<forall>x \<in> set inc. \<forall>y. incorporates brs x y \<longrightarrow> y \<in> set inc \<union> set stack \<Longrightarrow>
    (\<forall>x \<in> set (closure_walk brs n stack inc). \<forall>y. incorporates brs x y \<longrightarrow>
       y \<in> set (closure_walk brs n stack inc)) \<and>
    set inc \<union> set stack \<subseteq> set (closure_walk brs n stack inc)"
proof (induction n arbitrary: stack inc)
  case (Suc n)
  show ?case
  proof (cases stack)
    case (Cons b rest)
    show ?thesis
    proof (cases "b \<in> set inc")
      case True
      then show ?thesis using Suc.IH [of rest inc] Suc.prems by (auto simp: Cons)
    next
      case False
      let ?s = "rev (merged_into brs b) @ parent_of brs b @ rest"
      have "dmap_ok brs" using i by (simp add: ids_ok_def)
      from pending_step [OF this, of b "set inc"] False
      have n: "length ?s + pending brs (set (b # inc)) \<le> n"
        using Suc.prems(1) by (simp add: Cons)
      have "\<forall>x \<in> set (b # inc). \<forall>y. incorporates brs x y \<longrightarrow> y \<in> set (b # inc) \<union> set ?s"
        using Suc.prems(2) by (auto simp: Cons incorporates_iff [OF i])
      from Suc.IH [OF n this] False show ?thesis by (auto simp: Cons)
    qed
  qed (use Suc in auto)
qed auto

lemma closure_walk_sound:
  assumes i: "ids_ok brs"
  shows "\<forall>x \<in> set inc \<union> set stack. (incorporates brs)\<^sup>*\<^sup>* h x \<Longrightarrow>
    x \<in> set (closure_walk brs n stack inc) \<Longrightarrow> (incorporates brs)\<^sup>*\<^sup>* h x"
proof (induction n arbitrary: stack inc)
  case (Suc n)
  show ?case
  proof (cases stack)
    case (Cons b rest)
    have h: "(incorporates brs)\<^sup>*\<^sup>* h b" using Suc.prems(1) Cons by simp
    have "(incorporates brs)\<^sup>*\<^sup>* h y" if "y \<in> set (merged_into brs b) \<union> set (parent_of brs b)" for y
      using that h by (auto simp: incorporates_iff [OF i] intro: rtranclp.rtrancl_into_rtrancl)
    then show ?thesis
      using Suc.IH [of inc rest] Suc.IH [of "b # inc" "rev (merged_into brs b) @ parent_of brs b @ rest"]
        Suc.prems h by (auto simp: Cons split: if_splits)
  qed (use Suc in auto)
qed auto

lemma incorporated_by_iff:
  assumes i: "ids_ok (branches t)" and n: "length (branches t) \<le> 4095"
  shows "b \<in> set (incorporated_by t host) \<longleftrightarrow> (incorporates (branches t))\<^sup>*\<^sup>* host b"
proof
  assume "b \<in> set (incorporated_by t host)"
  then show "(incorporates (branches t))\<^sup>*\<^sup>* host b"
    unfolding incorporated_by_def using closure_walk_sound [OF i, of "[]" "[host]" host b] by simp
next
  let ?c = "set (incorporated_by t host)"
  have "length [host] + pending (branches t) (set []) \<le> walk_guard"
    using pending_bound [of "branches t" "set []"] n by (simp add: walk_guard_def)
  from closure_walk_closed [OF i this]
  have c: "\<forall>x \<in> ?c. \<forall>y. incorporates (branches t) x y \<longrightarrow> y \<in> ?c" "host \<in> ?c"
    by (simp_all add: incorporated_by_def)
  assume "(incorporates (branches t))\<^sup>*\<^sup>* host b"
  then show "b \<in> ?c" by (induction rule: rtranclp_induct) (use c in auto)
qed

section \<open>The check\<close>

fun first_error :: "('a \<Rightarrow> 'e option) \<Rightarrow> 'a list \<Rightarrow> 'e option" where
  "first_error f [] = None"
| "first_error f (x # xs) = (case f x of Some e \<Rightarrow> Some e | None \<Rightarrow> first_error f xs)"

definition or_else :: "'e option \<Rightarrow> 'e option \<Rightarrow> 'e option" where
  "or_else a b = (case a of Some e \<Rightarrow> Some e | None \<Rightarrow> b)"

lemma first_error_None: "first_error f xs = None \<longleftrightarrow> (\<forall>x \<in> set xs. f x = None)"
  by (induction xs) (auto split: option.splits)

lemma first_error_pairs:
  assumes "\<And>a b. (a, b) \<in> set xs \<Longrightarrow> f (a, b) = None \<longleftrightarrow> P a b"
  shows "first_error f xs = None \<longleftrightarrow> (\<forall>(a, b) \<in> set xs. P a b)"
proof -
  have "f x = None \<longleftrightarrow> (case x of (a, b) \<Rightarrow> P a b)" if "x \<in> set xs" for x
    using assms that by (cases x) simp
  then show ?thesis unfolding first_error_None by (rule ball_cong [OF refl])
qed

lemma or_else_None: "or_else a b = None \<longleftrightarrow> a = None \<and> b = None"
  by (simp add: or_else_def split: option.split)

definition check_agreement :: "timeline \<Rightarrow> timeline_error option" where
  "check_agreement t =
     or_else
       (first_error (\<lambda>(b, _). if contains_key (branch_events t) b then None
                               else Some (Internal (Branch_without_index b))) (branches t))
       (first_error (\<lambda>(b, _). if contains_key (branches t) b then None
                               else Some (Internal (Index_without_branch b))) (branch_events t))"

definition check_entry ::
  "timeline \<Rightarrow> branch_id \<Rightarrow> branch_id list \<Rightarrow> event_index \<times> event_id \<Rightarrow> timeline_error option" where
  "check_entry t host incorporated = (\<lambda>(key, eid).
     (case map_of (events t) eid of
        None \<Rightarrow> Some (Internal (Missing_event host eid key))
      | Some ev \<Rightarrow>
          if sequence_number ev \<noteq> key
          then Some (Internal (Key_mismatch host eid key (sequence_number ev)))
          else if origin ev \<notin> set incorporated
          then Some (Internal (Foreign_origin host eid (origin ev)))
          else None))"

definition check_index :: "timeline \<Rightarrow> branch_id \<times> history \<Rightarrow> timeline_error option" where
  "check_index t = (\<lambda>(host, m). first_error (check_entry t host (incorporated_by t host)) m)"

definition check_parent :: "timeline \<Rightarrow> branch_id \<times> branch \<Rightarrow> timeline_error option" where
  "check_parent t = (\<lambda>(_, b).
     if is_main (br_id b) then None
     else case br_parent b of
            None \<Rightarrow> Some (Internal (No_parent (br_id b)))
          | Some parent \<Rightarrow>
              if \<not> contains_key (branches t) parent
              then Some (Internal (Parent_missing (br_id b) parent))
              else if fp_branch_id (br_fork_point b) \<noteq> parent
              then Some (Internal (Fork_parent_mismatch (br_id b) (fp_branch_id (br_fork_point b)) parent))
              else None)"

fun check_sequences :: "event_index list \<Rightarrow> (event_id \<times> timeline_event) list \<Rightarrow> timeline_error option" where
  "check_sequences seen [] = None"
| "check_sequences seen ((_, ev) # rest) =
     (if sequence_number ev \<in> set seen
      then Some (Internal (Duplicate_sequence (sequence_number ev) (te_id ev)))
      else check_sequences (sequence_number ev # seen) rest)"

definition check_position :: "timeline \<Rightarrow> session_id \<times> session_position \<Rightarrow> timeline_error option" where
  "check_position t = (\<lambda>(sid, pos).
     (case index_of t (sp_branch_id pos) of
        None \<Rightarrow> Some (Internal (Session_branch_missing sid (sp_branch_id pos)))
      | Some m \<Rightarrow>
          if length m < sp_event_index pos
          then Some (Internal (Session_past_end sid (sp_event_index pos) (sp_branch_id pos) (length m)))
          else None))"

definition validate :: "timeline \<Rightarrow> unit timeline_result" where
  "validate t =
     (case or_else (check_agreement t)
          (or_else (first_error (check_index t) (branch_events t))
          (or_else (first_error (check_parent t) (branches t))
          (or_else (check_sequences [] (events t))
                   (first_error (check_position t) (session_positions t))))) of
        Some e \<Rightarrow> Err e
      | None \<Rightarrow> Ok ())"

section \<open>What it decides\<close>

text \<open>The relation between the maps, over the entries of the maps themselves.\<close>

definition consistent :: "timeline \<Rightarrow> bool" where
  "consistent t \<longleftrightarrow>
     fst ` set (branches t) = fst ` set (branch_events t) \<and>
     (\<forall>(host, m) \<in> set (branch_events t). \<forall>(k, e) \<in> set m. entry_ok t host k e) \<and>
     (\<forall>(b, br) \<in> set (branches t). b \<noteq> main_branch \<longrightarrow> parent_ok (branches t) br) \<and>
     distinct (map (\<lambda>(_, ev). sequence_number ev) (events t)) \<and>
     (\<forall>(_, pos) \<in> set (session_positions t).
        \<exists>m. index_of t (sp_branch_id pos) = Some m \<and> sp_event_index pos \<le> length m)"

lemma check_agreement_None:
  "check_agreement t = None \<longleftrightarrow> fst ` set (branches t) = fst ` set (branch_events t)"
proof -
  have a: "first_error (\<lambda>(b, _). if contains_key m b then None else Some (f b)) xs = None \<longleftrightarrow>
      fst ` set xs \<subseteq> fst ` set m" for m :: "(branch_id, 'a) dmap" and f and xs :: "(branch_id, 'b) dmap"
  proof -
    have "first_error (\<lambda>(b, _). if contains_key m b then None else Some (f b)) xs = None \<longleftrightarrow>
        (\<forall>(b, _) \<in> set xs. b \<in> fst ` set m)"
      by (rule first_error_pairs) (simp add: contains_key_iff)
    also have "\<dots> \<longleftrightarrow> fst ` set xs \<subseteq> fst ` set m"
      by (simp add: image_subset_iff case_prod_unfold)
    finally show ?thesis .
  qed
  show ?thesis unfolding check_agreement_def or_else_None a by auto
qed

lemma check_sequences_None:
  "check_sequences seen evs = None \<longleftrightarrow>
     distinct (map (\<lambda>(_, ev). sequence_number ev) evs) \<and>
     set (map (\<lambda>(_, ev). sequence_number ev) evs) \<inter> set seen = {}"
  by (induction seen evs rule: check_sequences.induct) auto

lemma check_entry_None:
  assumes "ids_ok (branches t)" "length (branches t) \<le> 4095"
  shows "check_entry t host (incorporated_by t host) (k, e) = None \<longleftrightarrow> entry_ok t host k e"
  by (auto simp: check_entry_def entry_ok_def incorporated_by_iff [OF assms] split: option.splits)

lemma check_parent_None:
  assumes "br_id br = b"
  shows "check_parent t (b, br) = None \<longleftrightarrow> (b \<noteq> main_branch \<longrightarrow> parent_ok (branches t) br)"
  using assms by (auto simp: check_parent_def parent_ok_def contains_key_def split: option.splits)

lemma check_position_None:
  "check_position t (sid, pos) = None \<longleftrightarrow>
     (\<exists>m. index_of t (sp_branch_id pos) = Some m \<and> sp_event_index pos \<le> length m)"
  by (auto simp: check_position_def split: option.splits)

lemma validate_consistent:
  assumes i: "ids_ok (branches t)" and n: "length (branches t) \<le> 4095"
  shows "validate t = Ok () \<longleftrightarrow> consistent t"
proof -
  have "first_error (check_index t) (branch_events t) = None \<longleftrightarrow>
      (\<forall>(host, m) \<in> set (branch_events t). \<forall>(k, e) \<in> set m. entry_ok t host k e)"
  proof (rule first_error_pairs)
    fix host m
    have "first_error (check_entry t host (incorporated_by t host)) m = None \<longleftrightarrow>
        (\<forall>(k, e) \<in> set m. entry_ok t host k e)"
      by (rule first_error_pairs) (rule check_entry_None [OF i n])
    then show "check_index t (host, m) = None \<longleftrightarrow> (\<forall>(k, e) \<in> set m. entry_ok t host k e)"
      by (simp add: check_index_def)
  qed
  moreover have "first_error (check_parent t) (branches t) = None \<longleftrightarrow>
      (\<forall>(b, br) \<in> set (branches t). b \<noteq> main_branch \<longrightarrow> parent_ok (branches t) br)"
    by (rule first_error_pairs) (rule check_parent_None, use i in \<open>auto simp: ids_ok_def\<close>)
  moreover have "first_error (check_position t) (session_positions t) = None \<longleftrightarrow>
      (\<forall>(_, pos) \<in> set (session_positions t).
        \<exists>m. index_of t (sp_branch_id pos) = Some m \<and> sp_event_index pos \<le> length m)"
    by (rule first_error_pairs) (rule check_position_None)
  moreover have "validate t = Ok () \<longleftrightarrow> check_agreement t = None \<and>
      first_error (check_index t) (branch_events t) = None \<and>
      first_error (check_parent t) (branches t) = None \<and>
      check_sequences [] (events t) = None \<and>
      first_error (check_position t) (session_positions t) = None"
    by (simp add: validate_def or_else_def split: option.split)
  ultimately show ?thesis
    by (simp add: consistent_def check_agreement_None check_sequences_None)
qed

lemma tl_ok_ids: "core_ok t \<Longrightarrow> ids_ok (branches t)"
  using core_okD(1,3) [of t]
  by (auto simp: ids_ok_def maps_ok_def branches_ok_def dest: map_of_is_SomeI)

lemma tl_ok_consistent:
  assumes "tl_ok t"
  shows "consistent t"
proof -
  note c = tl_okD(1) [OF assms] and p = tl_okD(2) [OF assms]
  note m = core_okD(1) [OF c, unfolded maps_ok_def]
  have look: "map_of (branches t) b = Some br" if "(b, br) \<in> set (branches t)" for b br
    using that m by (simp add: map_of_eq_Some_iff)
  have "fst ` set (branches t) = fst ` set (branch_events t)"
    using m by (simp add: set_eq_iff) (metis map_of_eq_None_iff)
  moreover have e: "entry_ok t host k e" if "(host, h) \<in> set (branch_events t)" "(k, e) \<in> set h" for host h k e
  proof -
    have i: "index_of t host = Some h" using that m by (simp add: map_of_eq_Some_iff)
    then have "map_of h k = Some e" using that index_ok [OF c i] by (simp add: map_of_eq_Some_iff)
    with i show ?thesis by (rule entries_okD [OF c])
  qed
  moreover have b: "b \<noteq> main_branch \<longrightarrow> parent_ok (branches t) br" if "(b, br) \<in> set (branches t)" for b br
    using core_okD(3) [OF c] look [OF that] by (simp add: branches_ok_def)
  moreover have "distinct (map (\<lambda>(_, ev). sequence_number ev) (events t))"
    unfolding distinct_map
  proof
    have d: "dmap_ok (events t)" using m by simp
    then show "distinct (events t)" by (simp add: distinct_map)
    show "inj_on (\<lambda>(_, ev). sequence_number ev) (set (events t))"
    proof (rule inj_onI, clarify)
      fix e ev e' ev' assume "(e, ev) \<in> set (events t)" "(e', ev') \<in> set (events t)"
        and s: "sequence_number ev = sequence_number ev'"
      then have "map_of (events t) e = Some ev" "map_of (events t) e' = Some ev'"
        using d by (simp_all add: map_of_eq_Some_iff)
      with event_inj [OF c this s] show "e = e' \<and> ev = ev'" by simp
    qed
  qed
  moreover have s: "\<exists>m. index_of t (sp_branch_id pos) = Some m \<and> sp_event_index pos \<le> length m"
    if "(s, pos) \<in> set (session_positions t)" for s pos
    using that p by (auto simp: pointers_ok_def map_of_eq_Some_iff)
  ultimately show ?thesis unfolding consistent_def by (auto intro: e s dest: b)
qed

end
