(* ===== verification/Timeline_Reach.thy ===== *)
theory Timeline_Reach
  imports Timeline_Validate
begin

text \<open>
  The timeline as a transition system: one rule per operation a live server calls, with the side
  conditions the surroundings guarantee (a minted identifier is fresh, the 64-bit counter does not
  wrap, a reserved sequence number is unused). \<open>tl_ok\<close> is an invariant, and a reachable timeline
  passes the engine's own check. The operations of the boot path (\<open>rehydrate_\<dots>\<close>) and the
  compensations after a failed durable write (\<open>remove_branch\<close>, \<open>revert_merge\<close>,
  \<open>restore_branch_state\<close>) are not steps; what each does is stated on its own.
\<close>

inductive tl_step :: "timeline \<Rightarrow> timeline \<Rightarrow> bool" where
  append_step:
    "can_append eid reserved t \<Longrightarrow>
     append_internal pu eid now op author b reserved cert t = (r, t') \<Longrightarrow> tl_step t t'"
| reserve_step:
    "event_counter t + 1 < u64_bound \<Longrightarrow> reserve_sequence_number t = (n, t') \<Longrightarrow> tl_step t t'"
| fork_step:
    "map_of (branches t) fresh = None \<Longrightarrow>
     create_branch fresh now name parent fork_at author why t = (r, t') \<Longrightarrow> tl_step t t'"
| truncate_step: "truncate_branch now b k force t = (r, t') \<Longrightarrow> tl_step t t'"
| merge_step:
    "merge_branches ser show_uuid elapsed now source target strategy t = (r, t') \<Longrightarrow> tl_step t t'"
| abandon_step: "abandon_branch b reason force t = (r, t') \<Longrightarrow> tl_step t t'"
| position_step: "update_session_position sid b k now t = (r, t') \<Longrightarrow> tl_step t t'"
| undo_step: "undo now sid t = (r, t') \<Longrightarrow> tl_step t t'"
| redo_step: "redo now sid t = (r, t') \<Longrightarrow> tl_step t t'"
| head_step: "set_applied_head b k t = (r, t') \<Longrightarrow> tl_step t t'"
| restore_head_step: "restore_applied_head_state b s t = (r, t') \<Longrightarrow> tl_step t t'"
| checkpoint_step:
    "create_checkpoint fresh now name descr b author tags skip t = (r, t') \<Longrightarrow> tl_step t t'"
| uncheckpoint_step: "remove_checkpoint c t = (r, t') \<Longrightarrow> tl_step t t'"

definition tl_init :: "timeline \<Rightarrow> bool" where
  "tl_init t \<longleftrightarrow> (\<exists>now. t = new_timeline now)"

lemma tl_step_ok: "tl_step t t' \<Longrightarrow> tl_ok t \<Longrightarrow> tl_ok t'"
proof (induction rule: tl_step.induct)
  case (append_step eid reserved t pu now op author b cert r t')
  then show ?case using tl_ok_append [of t eid reserved pu now op author b cert] by simp
next
  case (reserve_step t n t')
  then show ?case using tl_ok_reserve [of t] by simp
next
  case (fork_step t fresh now name parent fork_at author why r t')
  then show ?case using tl_ok_create_branch [of t fresh now name parent fork_at author why] by simp
next
  case (truncate_step now b k force t r t')
  then show ?case using tl_ok_truncate_branch [of t now b k force] by simp
next
  case (merge_step ser show_uuid elapsed now source target strategy t r t')
  then show ?case
    using tl_ok_merge [of t ser show_uuid elapsed now source target strategy] by simp
next
  case (abandon_step b reason force t r t')
  then show ?case using tl_ok_abandon [of t b reason force] by simp
next
  case (position_step sid b k now t r t')
  then show ?case using tl_ok_update_position [of t sid b k now] by simp
next
  case (undo_step now sid t r t')
  then show ?case using tl_ok_undo [of t now sid] by simp
next
  case (redo_step now sid t r t')
  then show ?case using tl_ok_redo [of t now sid] by simp
next
  case (head_step b k t r t')
  then show ?case using tl_ok_set_head [of t b k] by simp
next
  case (restore_head_step b s t r t')
  then show ?case using tl_ok_restore_head [of t b s] by simp
next
  case (checkpoint_step fresh now name descr b author tags skip t r t')
  then show ?case
    using tl_ok_create_checkpoint [of t fresh now name descr b author tags skip] by simp
next
  case (uncheckpoint_step c t r t')
  then show ?case using tl_ok_remove_checkpoint [of t c] by simp
qed

interpretation tls: safe_system tl_init tl_step tl_ok
  by unfold_locales (auto simp: tl_init_def new_timeline_ok intro: tl_step_ok)

section \<open>A scenario\<close>

text \<open>A concrete run, on which the properties below are instantiated: two events on \<open>main\<close>, a
  fork after the first, one event on the fork, and a session on \<open>main\<close>.\<close>

definition demo_branch :: branch_id where "demo_branch = BranchId 7"
definition demo_session :: session_id where "demo_session = SessionId ''s''"

definition demo_event :: "nat \<Rightarrow> nat \<Rightarrow> branch_id \<Rightarrow> timeline_event" where
  "demo_event n seq b =
     new_event (\<lambda>_. None) (EventId (of_nat n)) n seq (Modify (EntityId (of_nat n)) []) System b None"

definition demo_append :: "nat \<Rightarrow> branch_id \<Rightarrow> timeline \<Rightarrow> timeline" where
  "demo_append n b t =
     snd (append_internal (\<lambda>_. None) (EventId (of_nat n)) n (Modify (EntityId (of_nat n)) []) System b
            None None t)"

definition demo_fork :: branch where
  "demo_fork =
     \<lparr>br_id = demo_branch, br_name = ''idea'',
      br_fork_point = \<lparr>fp_branch_id = main_branch, fp_event_index = 0, fp_timestamp = 2\<rparr>,
      br_parent = Some main_branch, br_events = [], br_state = Active,
      br_metadata = \<lparr>created_by = System, created_at = 2, purpose = Feature ''idea'',
                     branch_ai_context = None, checkpoint_ids = []\<rparr>,
      protected = False, hidden = False\<rparr>"

definition demo_1 :: timeline where
  "demo_1 = demo_append 1 main_branch (new_timeline 0)"

definition demo_2 :: timeline where
  "demo_2 = snd (create_branch demo_branch 2 ''idea'' main_branch None System (Feature ''idea'') demo_1)"

definition demo_3 :: timeline where
  "demo_3 = demo_append 3 demo_branch demo_2"

definition demo_4 :: timeline where
  "demo_4 = snd (update_session_position demo_session main_branch 2 5
      (demo_append 4 main_branch demo_3))"

lemma demo_branch_not_main [simp]: "demo_branch \<noteq> main_branch" "main_branch \<noteq> demo_branch"
  by (simp_all add: demo_branch_def main_branch_def)

lemma demo_event_fields [simp]:
  "te_id (demo_event n seq b) = EventId (of_nat n)" "sequence_number (demo_event n seq b) = seq"
  "origin (demo_event n seq b) = b"
  "te_operation (demo_event n seq b) = Modify (EntityId (of_nat n)) []"
  "map ref_id (required_entities (te_inputs (demo_event n seq b))) = [EntityId (of_nat n)]"
  "optional_entities (te_inputs (demo_event n seq b)) = []"
  "te_outputs (demo_event n seq b) = default_outputs"
  by (simp_all add: demo_event_def) (simp_all add: new_event_def lineage_channels_def Let_def)

lemma main_record_fields [simp]:
  "br_state (main_branch_record now) = Active" "br_id (main_branch_record now) = main_branch"
  "br_parent (main_branch_record now) = None" "protected (main_branch_record now)"
  by (simp_all add: main_branch_record_def)

lemma demo_fork_fields [simp]:
  "br_state demo_fork = Active" "br_id demo_fork = demo_branch"
  "br_parent demo_fork = Some main_branch" "\<not> protected demo_fork"
  "fp_event_index (br_fork_point demo_fork) = 0" "fp_branch_id (br_fork_point demo_fork) = main_branch"
  by (simp_all add: demo_fork_def)

lemmas append_eval = append_internal_def discard_redo_tail_def insert_event_def contains_key_def
  applied_head_def reserve_sequence_number_def put_index_def modify_entry_def
  index_event_entities_def Let_def wrapping_succ_def u64_bound_def default_outputs_def

lemma demo_1_eq: "demo_1 =
  \<lparr>events = [(EventId 1, demo_event 1 0 main_branch)], branch_events = [(main_branch, [(0, EventId 1)])],
   event_counter = 1, branches = [(main_branch, main_branch_record 0)], checkpoints = [],
   entity_events = [(EntityId 1, [EventId 1])], session_positions = [],
   active_operations = [(EventId 1, Validating)], applied_heads = []\<rparr>"
  by (simp add: demo_1_def demo_append_def new_timeline_def append_eval demo_event_def [symmetric]
      demo_event_def [of 1, simplified, symmetric])

lemma demo_2_eq: "demo_2 = demo_1
  \<lparr>branch_events := [(main_branch, [(0, EventId 1)]), (demo_branch, [(0, EventId 1)])],
   branches := [(main_branch, main_branch_record 0), (demo_branch, demo_fork)]\<rparr>"
  by (simp add: demo_2_def create_branch_def demo_1_eq contains_key_def Let_def get_branch_head_def
      demo_fork_def)

lemma demo_3_eq: "demo_3 =
  \<lparr>events = [(EventId 1, demo_event 1 0 main_branch), (EventId 3, demo_event 3 1 demo_branch)],
   branch_events = [(main_branch, [(0, EventId 1)]), (demo_branch, [(0, EventId 1), (1, EventId 3)])],
   event_counter = 2, branches = [(main_branch, main_branch_record 0), (demo_branch, demo_fork)],
   checkpoints = [], entity_events = [(EntityId 1, [EventId 1]), (EntityId 3, [EventId 3])],
   session_positions = [], active_operations = [(EventId 1, Validating), (EventId 3, Validating)],
   applied_heads = []\<rparr>"
  by (simp add: demo_3_def demo_append_def demo_2_eq demo_1_eq append_eval
      demo_event_def [of 3, simplified, symmetric])

lemma demo_4_eq: "demo_4 =
  \<lparr>events = [(EventId 1, demo_event 1 0 main_branch), (EventId 3, demo_event 3 1 demo_branch),
             (EventId 4, demo_event 4 2 main_branch)],
   branch_events = [(main_branch, [(0, EventId 1), (2, EventId 4)]),
                    (demo_branch, [(0, EventId 1), (1, EventId 3)])],
   event_counter = 3, branches = [(main_branch, main_branch_record 0), (demo_branch, demo_fork)],
   checkpoints = [],
   entity_events = [(EntityId 1, [EventId 1]), (EntityId 3, [EventId 3]), (EntityId 4, [EventId 4])],
   session_positions = [(demo_session, \<lparr>sp_branch_id = main_branch, sp_event_index = 2, last_updated = 5\<rparr>)],
   active_operations = [(EventId 1, Validating), (EventId 3, Validating), (EventId 4, Validating)],
   applied_heads = []\<rparr>"
  by (simp add: demo_4_def demo_append_def demo_3_eq append_eval update_session_position_def
      demo_event_def [of 4, simplified, symmetric])

lemma reachable_demo:
  "reachable tl_init tl_step demo_3" "reachable tl_init tl_step demo_4"
proof -
  have 0: "reachable tl_init tl_step (new_timeline 0)"
    by (rule start) (auto simp: tl_init_def)
  have app: "tl_step t (demo_append n b t)"
    if "map_of (events t) (EventId (of_nat n)) = None" "event_counter t + 1 < u64_bound" for n b t
  proof -
    have "append_internal (\<lambda>_. None) (EventId (of_nat n)) n (Modify (EntityId (of_nat n)) []) System b
        None None t = (fst (append_internal (\<lambda>_. None) (EventId (of_nat n)) n
          (Modify (EntityId (of_nat n)) []) System b None None t), demo_append n b t)"
      by (simp add: demo_append_def)
    from append_step [OF _ this] that show ?thesis by (simp add: can_append_def)
  qed
  have 1: "reachable tl_init tl_step demo_1"
    unfolding demo_1_def by (rule next_state [OF 0 app]) (simp_all add: new_timeline_def u64_bound_def)
  have "tl_step demo_1 demo_2"
    unfolding demo_2_def by (rule fork_step [OF _ surjective_pairing]) (simp add: demo_1_eq)
  with 1 have 2: "reachable tl_init tl_step demo_2" by (rule next_state)
  show 3: "reachable tl_init tl_step demo_3"
    unfolding demo_3_def
    by (rule next_state [OF 2 app]) (simp_all add: demo_2_eq demo_1_eq u64_bound_def)
  have "reachable tl_init tl_step (demo_append 4 main_branch demo_3)"
    by (rule next_state [OF 3 app]) (simp_all add: demo_3_eq u64_bound_def)
  then show "reachable tl_init tl_step demo_4"
    unfolding demo_4_def by (rule next_state) (rule position_step [OF surjective_pairing])
qed

lemma tl_ok_demo_3: "tl_ok demo_3"
  by (rule tls.reachable_inv [OF reachable_demo(1)])

lemma tl_ok_demo: "tl_ok demo_4"
  by (rule tls.reachable_inv [OF reachable_demo(2)])

end
