(* ===== verification/Timeline_Props.thy ===== *)
theory Timeline_Props
  imports Timeline_Reach
begin

text \<open>
  The properties of the timeline's live operations, over the invariant \<open>tl_ok\<close> that every
  reachable timeline has (\<open>Timeline_Reach\<close>). Each property is instantiated on the concrete run
  of that theory.
\<close>

section \<open>The engine's self-check\<close>

text \<open>C1. A timeline reached from a new one by any sequence of the live operations passes
  \<open>validate\<close>, the engine's own check of the relations between its maps, as long as it has at most
  4095 branches (beyond that the check's walk may stop at its guard of 8192 steps).\<close>

theorem reachable_timeline_validates:
  assumes "reachable tl_init tl_step t" and "length (branches t) \<le> 4095"
  shows "validate t = Ok ()"
proof -
  have t: "tl_ok t" by (rule tls.reachable_inv [OF assms(1)])
  show ?thesis
    using validate_consistent [OF tl_ok_ids [OF tl_okD(1) [OF t]] assms(2)] tl_ok_consistent [OF t]
    by simp
qed

theorem reachable_timeline_validates_witness: "validate demo_4 = Ok ()"
  by (rule reachable_timeline_validates [OF reachable_demo(2)]) (simp add: demo_4_eq)

text \<open>C9. \<open>validate\<close> accepts a timeline exactly when its maps are consistent: the two branch maps
  have the same branches, every history entry names a stored event with that sequence number and an
  origin its host incorporates over any number of parent and merge edges, every fork point agrees
  with the parent, sequence numbers are unique, and session pointers stay within their history.
  The walk with its stack and its guard thus computes the whole reachability relation.\<close>

theorem validate_decides_consistency:
  assumes "ids_ok (branches t)" and "length (branches t) \<le> 4095"
  shows "validate t = Ok () \<longleftrightarrow> consistent t"
  by (rule validate_consistent [OF assms])

theorem validate_decides_consistency_witness: "validate demo_4 = Ok () \<longleftrightarrow> consistent demo_4"
  by (rule validate_decides_consistency [OF tl_ok_ids [OF tl_okD(1) [OF tl_ok_demo]]])
    (simp add: demo_4_eq)

section \<open>Appending\<close>

lemma history_put_max:
  assumes "core_ok t" "index_of t b = Some m" "\<forall>k \<in> set (dkeys m). k < seq"
  shows "sorted_entries (AList.update seq e m) = history_of t b @ [(seq, e)]"
  using assms sorted_entries_put_max [OF index_ok [OF assms(1,2)]] by (simp add: history_of_def)

lemma applied_head_discard_None:
  assumes "tl_ok t" "map_of (branches t) b = Some br"
  shows "applied_head (snd (discard_redo_tail now b t)) b = None"
proof -
  obtain m where m: "index_of t b = Some m"
    using assms index_iff_branch' [OF tl_okD(1) [OF assms(1)]] by blast
  show ?thesis
  proof (cases "\<exists>h. applied_head t b = Some h \<and> h < length m")
    case False
    then show ?thesis
      by (auto simp: discard_redo_tail_def keys_sorted m applied_head_def clear_head_def
          split: option.split)
  next
    case True
    then obtain h where h: "applied_head t b = Some h" "h < length m" by blast
    obtain plan where p: "truncate_plan t b (map fst (sorted_entries m) ! h) = Ok plan"
      using truncate_plan_Ok [OF m] by blast
    with h show ?thesis
      by (simp add: discard_redo_tail_def keys_sorted m Let_def split: option.split)
        (simp add: clear_head_def applied_head_def)
  qed
qed

lemma append_internal_Ok:
  assumes t: "tl_ok t" and c: "can_append eid None t"
    and r: "append_internal pu eid now op author b None cert t = (Ok (e, d), t')"
  shows "e = eid \<and>
    history_of t' b = take (applied_len t b) (history_of t b) @ [(event_counter t, eid)] \<and>
    get_event t' eid = Some (new_event pu eid now (event_counter t) op author b cert) \<and>
    applied_head t' b = None \<and> event_counter t' = event_counter t + 1"
  using t r
proof (cases rule: append_internal_cases)
  case (accepted br d' seq t2)
  note ok = before_insert_ok [OF t c accepted(4)]
  obtain m where m: "index_of t b = Some m"
    using accepted(1) index_iff_branch' [OF tl_okD(1) [OF t]] by blast
  obtain m2 where m2: "index_of t2 b = Some m2"
    using index_discard [OF m, of now b] ok(4) by auto
  have seq: "seq = event_counter t" using ok(8) by simp
  let ?t1 = "snd (discard_redo_tail now b t)"
  have "index_of ?t1 b = Some m2" using m2 ok(4) by simp
  then have "\<forall>k \<in> set (dkeys m2). k < seq"
    using key_below_counter [OF tl_okD(1) [OF tl_ok_discard [OF t]], of now b b m2] by (simp add: seq)
  from history_put_max [OF tl_okD(1) [OF ok(1)] m2 this]
  have h: "sorted_entries (AList.update seq eid m2) = history_of t2 b @ [(seq, eid)]" .
  have h2: "history_of t2 b = take (applied_len t b) (history_of t b)"
    using history_discard [OF t m, of now] ok(4) by (simp add: history_of_def)
  have n: "event_counter t + 1 < u64_bound" using c by (simp add: can_append_def)
  have "event_counter t2 = event_counter t + 1"
    using accepted(4) wrapping_succ_no_wrap [OF n]
    by (auto simp: before_insert_def Let_def reserve_sequence_number_def)
  moreover have "applied_head t2 b = None"
    using applied_head_discard_None [OF t accepted(1), of now] ok(7) by (simp add: applied_head_def)
  ultimately show ?thesis
    using accepted(3,5) h h2 insert_event_Ok [OF m2]
    by (simp add: history_of_def index_put_index m2 seq get_event_def applied_head_def)
qed auto

lemma append_internal_history:
  assumes t: "tl_ok t" and c: "can_append eid None t"
    and br: "map_of (branches t) b = Some br" "br_state br = Active"
  shows "history_of (snd (append_internal pu eid now op author b None cert t)) b =
    take (applied_len t b) (history_of t b) @ [(event_counter t, eid)]"
proof -
  obtain r t' where r: "append_internal pu eid now op author b None cert t = (r, t')" by fastforce
  show ?thesis using t r
    by (cases rule: append_internal_cases) (use br append_internal_Ok [OF t c] r in auto)
qed



text \<open>C11. An append is accepted exactly when the branch exists and is active; whatever the reason of
  a refusal, the timeline is left as it was, sequence counter included.\<close>

theorem append_accepted_iff_active:
  assumes "tl_ok t" and "append_internal pu eid now op author b reserved cert t = (r, t')"
  shows "(is_ok r \<longleftrightarrow> is_branch_active t b) \<and> (\<not> is_ok r \<longrightarrow> t' = t)"
  using assms
proof (cases rule: append_internal_cases)
  case rejected
  then show ?thesis by (auto simp: is_branch_active_def split: option.split)
qed (simp add: is_branch_active_def)

theorem append_accepted_iff_active_witness:
  "is_ok (fst (append_internal (\<lambda>_. None) (EventId 9) 9 (Delete []) System main_branch None None demo_4)) \<and>
   snd (append_internal (\<lambda>_. None) (EventId 9) 9 (Delete []) System (BranchId 99) None None demo_4) = demo_4"
proof -
  have "is_branch_active demo_4 main_branch" "\<not> is_branch_active demo_4 (BranchId 99)"
    by (simp_all add: is_branch_active_def demo_4_eq main_branch_def demo_branch_def)
  then show ?thesis
    using append_accepted_iff_active [OF tl_ok_demo surjective_pairing] by blast
qed

section \<open>Cutting a history\<close>

definition cascades :: "timeline \<Rightarrow> branch_id \<Rightarrow> event_index \<Rightarrow> branch_id \<Rightarrow> bool" where
  "cascades t b k c \<longleftrightarrow> (\<exists>br. map_of (branches t) c = Some br \<and> br_parent br = Some b \<and>
     k \<le> fp_event_index (br_fork_point br) \<and> br_state br = Active)"

lemma cascaded_iff:
  assumes "core_ok t" "truncate_plan t b k = Ok plan"
  shows "c \<in> set (plan_cascaded plan) \<longleftrightarrow> cascades t b k c"
proof -
  have d: "dmap_ok (branches t)" using core_okD(1) [OF assms(1)] by (simp add: maps_ok_def)
  have "c \<in> set (plan_cascaded plan) \<longleftrightarrow> (\<exists>br. (c, br) \<in> set (branches t) \<and> br_parent br = Some b \<and>
      k \<le> fp_event_index (br_fork_point br) \<and> br_state br = Active)"
    using assms(2) by (elim truncate_planE) (auto simp: image_iff)
  with d show ?thesis by (simp add: cascades_def map_of_eq_Some_iff)
qed

lemma removed_keys:
  assumes "core_ok t" "truncate_plan t b k = Ok plan"
  shows "set (plan_removed plan) = {(i, e) \<in> set (history_of t b). k \<le> i}"
  using assms(2) by (elim truncate_planE) (auto simp: history_of_def)

lemma events_for_cong:
  "(\<And>k e. (k, e) \<in> set es \<Longrightarrow> map_of (events t) e = map_of (events u) e) \<Longrightarrow>
   events_for t es = events_for u es"
proof (induction es)
  case (Cons kv es)
  obtain k e where kv: "kv = (k, e)" by (cases kv)
  have "map_of (events t) e = map_of (events u) e" using Cons.prems [of k e] by (simp add: kv)
  moreover have "events_for t es = events_for u es"
    by (rule Cons.IH, rule Cons.prems, erule list.set_intros(2))
  ultimately show ?case by (simp add: kv events_for_Cons split: option.split)
qed (simp add: events_for_def List.map_filter_simps)

lemma branch_events_cong:
  assumes "index_of u b = index_of t b"
    and "\<And>k e. (k, e) \<in> set (history_of t b) \<Longrightarrow> map_of (events u) e = map_of (events t) e"
  shows "get_branch_events u b s l = get_branch_events t b s l"
proof (cases "index_of t b")
  case (Some m)
  have "events_for u es = events_for t es" if "set es \<subseteq> set (sorted_entries m)" for es
    by (rule events_for_cong) (use that assms(2) in \<open>auto simp: history_of_def Some\<close>)
  moreover have "set (filter P (sorted_entries m)) \<subseteq> set (sorted_entries m)"
    "set (take n (filter P (sorted_entries m))) \<subseteq> set (sorted_entries m)" for P n
    by (auto dest: in_set_takeD)
  ultimately show ?thesis
    by (simp add: get_branch_events_def assms(1) Some Let_def split: option.split)
qed (simp add: get_branch_events_def assms(1))

lemma apply_truncate_other:
  assumes t: "tl_ok t" and p: "truncate_plan t b k = Ok plan"
    and c: "c \<noteq> b" "\<not> cascades t b k c"
  shows "get_branch_events (apply_truncate_plan now plan k t) c s l = get_branch_events t c s l"
    and "map_of (branches (apply_truncate_plan now plan k t)) c = map_of (branches t) c"
    and "index_of (apply_truncate_plan now plan k t) c = index_of t c"
proof -
  note cc = cascaded_iff [OF tl_okD(1) [OF t] p]
  have b: "plan_branch plan = b" using p by (rule truncate_planE)
  have k: "kept c plan m = m" for m using c by (simp add: kept_def b cc)
  show i: "index_of (apply_truncate_plan now plan k t) c = index_of t c"
    by (cases "index_of t c") (simp_all add: index_apply_truncate k)
  show "map_of (branches (apply_truncate_plan now plan k t)) c = map_of (branches t) c"
    using c by (simp add: branches_apply_truncate cc)
  show "get_branch_events (apply_truncate_plan now plan k t) c s l = get_branch_events t c s l"
  proof (rule branch_events_cong [OF i])
    fix x e assume "(x, e) \<in> set (history_of t c)"
    then obtain m where m: "index_of t c = Some m" "(x, e) \<in> set m"
      by (cases "index_of t c") (auto simp: history_of_def)
    then have "e \<notin> set (plan_purged plan)"
      using purged_unreferenced [OF p m(1), of x e] by (simp add: k)
    then show "map_of (events (apply_truncate_plan now plan k t)) e = map_of (events t) e"
      by (simp add: events_apply_truncate)
  qed
qed

lemma history_kept:
  assumes t: "tl_ok t" and p: "truncate_plan t b k = Ok plan" and c: "cascades t b k c"
  shows "history_of (apply_truncate_plan now plan k t) c =
    filter (\<lambda>kv. \<not> (k \<le> fst kv \<and> fst kv \<in> fst ` set (history_of t b))) (history_of t c)"
proof (cases "index_of t c")
  case (Some m)
  have r: "fst ` set (plan_removed plan) = {i \<in> fst ` set (history_of t b). k \<le> i}"
    by (force simp: removed_keys [OF tl_okD(1) [OF t] p])
  have "kept c plan m = filter (\<lambda>kv. \<not> (k \<le> fst kv \<and> fst kv \<in> fst ` set (history_of t b))) m"
    using c by (auto simp: kept_def cascaded_iff [OF tl_okD(1) [OF t] p] r intro!: filter_cong)
  then show ?thesis by (simp add: history_of_def index_apply_truncate Some sorted_entries_filter)
qed (simp add: history_of_def index_apply_truncate)

text \<open>C3. An accepted truncate at sequence number \<open>k\<close> keeps exactly the entries of the branch
  below \<open>k\<close> and reports how many it dropped. Every active branch forked from it at or after \<open>k\<close>
  loses the same keys and is abandoned with that reason. Every other branch reads exactly the events
  it read before, although dropped events leave the event table, and keeps its record.\<close>

theorem truncate_effect:
  assumes t: "tl_ok t" and r: "truncate_branch now b k force t = (Ok n, t')"
  shows "history_of t' b = filter (\<lambda>kv. fst kv < k) (history_of t b) \<and>
    n = length (filter (\<lambda>kv. k \<le> fst kv) (history_of t b)) \<and>
    (\<forall>c. cascades t b k c \<longrightarrow>
       history_of t' c = filter (\<lambda>kv. \<not> (k \<le> fst kv \<and> fst kv \<in> fst ` set (history_of t b)))
                           (history_of t c) \<and>
       map_option br_state (map_of (branches t') c) = Some (Abandoned (Parent_truncated b k))) \<and>
    (\<forall>c s l. c \<noteq> b \<longrightarrow> \<not> cascades t b k c \<longrightarrow>
       get_branch_events t' c s l = get_branch_events t c s l \<and>
       map_of (branches t') c = map_of (branches t) c)"
proof -
  obtain plan where p: "truncate_plan t b k = Ok plan" and t': "t' = apply_truncate_plan now plan k t"
    and n: "n = length (plan_removed plan)"
    using r by (auto simp: truncate_branch_def split: if_splits sum.splits)
  obtain m where m: "index_of t b = Some m" "plan_removed plan = filter (\<lambda>(k', _). k \<le> k') m"
    and b: "plan_branch plan = b"
    using p by (rule truncate_planE)
  have "history_of t' b = filter (\<lambda>kv. fst kv < k) (history_of t b)"
    by (simp add: t' history_of_def index_apply_truncate m(1) kept_self [OF p m(1)] sorted_entries_filter)
  moreover have "n = length (filter (\<lambda>kv. k \<le> fst kv) (history_of t b))"
    by (simp add: n m history_of_def sorted_entries_filter [symmetric] case_prod_unfold)
  moreover have "map_option br_state (map_of (branches t') c) = Some (Abandoned (Parent_truncated b k))"
    if "cascades t b k c" for c
    using that by (auto simp: t' branches_apply_truncate cascaded_iff [OF tl_okD(1) [OF t] p] b
        cascades_def option.map_comp comp_def)
  ultimately show ?thesis
    using history_kept [OF t p] apply_truncate_other(1,2) [OF t p] unfolding t' by blast
qed

theorem truncate_effect_witness:
  "fst (truncate_branch 9 main_branch 0 True demo_4) = Ok 2 \<and>
   history_of (snd (truncate_branch 9 main_branch 0 True demo_4)) demo_branch = [(1, EventId 3)]"
proof -
  obtain n t' where r: "truncate_branch 9 main_branch 0 True demo_4 = (Ok n, t')"
    by (auto simp: truncate_branch_def demo_4_eq truncate_plan_def Let_def)
  have c: "cascades demo_4 main_branch 0 demo_branch" by (simp add: cascades_def demo_4_eq)
  show ?thesis
    using truncate_effect [OF tl_ok_demo r] c r
    by (simp add: history_of_def demo_4_eq sorted_entries_def)
qed

text \<open>What one branch appends, no other branch sees: an accepted append leaves the history and
  the events of every other branch unchanged, except that a branch forked inside an undone tail
  that the append discards is cut and abandoned with it.\<close>

theorem append_isolation:
  assumes t: "tl_ok t" and c: "can_append eid reserved t"
    and r: "append_internal pu eid now op author b reserved cert t = (r, t')"
    and o: "c \<noteq> b" "\<And>k. \<not> (applied_head t b \<noteq> None \<and> cascades t b k c)"
  shows "get_branch_events t' c s l = get_branch_events t c s l"
  using t r
proof (cases rule: append_internal_cases)
  case (accepted br d seq t2)
  note ok = before_insert_ok [OF t c accepted(4)]
  obtain m where m: "index_of t b = Some m"
    using accepted(1) index_iff_branch' [OF tl_okD(1) [OF t]] by blast
  obtain m2 where m2: "index_of t2 b = Some m2"
    using index_discard [OF m, of now b] ok(4) by auto
  let ?t1 = "snd (discard_redo_tail now b t)"
  have t1: "get_branch_events ?t1 c s l = get_branch_events t c s l"
  proof (cases "\<exists>h. applied_head t b = Some h \<and> h < length m")
    case False
    then have "events ?t1 = events t" "branch_events ?t1 = branch_events t"
      by (auto simp: discard_redo_tail_def keys_sorted m clear_head_def split: option.split)
    then show ?thesis by (intro branch_events_cong) simp_all
  next
    case True
    then obtain h where h: "applied_head t b = Some h" "h < length m" by blast
    let ?k = "map fst (sorted_entries m) ! h"
    obtain plan where p: "truncate_plan t b ?k = Ok plan" using truncate_plan_Ok [OF m] by blast
    have e: "?t1 = clear_head b (apply_truncate_plan now plan ?k t)"
      using h p by (simp add: discard_redo_tail_def keys_sorted m Let_def split: option.split)
    have "\<not> cascades t b ?k c" using o(2) h(1) by simp
    from apply_truncate_other(1) [OF t p o(1) this] show ?thesis
      unfolding e by (subst branch_events_cong [where t = "apply_truncate_plan now plan ?k t"])
        (simp_all add: clear_head_def)
  qed
  have "get_branch_events t' c s l = get_branch_events ?t1 c s l"
  proof (rule branch_events_cong)
    show "index_of t' c = index_of ?t1 c"
      using accepted(5) o(1) by (simp add: insert_event_Ok [OF m2] index_put_index ok(4))
    fix k e assume "(k, e) \<in> set (history_of ?t1 c)"
    then obtain ev where "map_of (events ?t1) e = Some ev"
      using history_event [OF tl_okD(1) [OF tl_ok_discard [OF t]]] by blast
    then have "e \<noteq> eid" using fresh_eventD [OF ok(2)] by (auto simp: ok(5))
    then show "map_of (events t') e = map_of (events ?t1) e"
      using accepted(5) by (simp add: insert_event_Ok [OF m2] dm.get_put ok(5))
  qed
  with t1 show ?thesis by simp
qed auto

theorem append_isolation_witness:
  "get_branch_events (demo_append 5 demo_branch demo_4) main_branch None None =
   get_branch_events demo_4 main_branch None None"
  unfolding demo_append_def
  by (rule append_isolation [OF tl_ok_demo _ surjective_pairing])
    (simp_all add: can_append_def demo_4_eq u64_bound_def applied_head_def)

end
