(* ===== verification/Timeline_Session_Props.thy ===== *)
theory Timeline_Session_Props
  imports Timeline_Props
begin

text \<open>
  Properties of forks, session pointers, history pages, applied heads and refusals.
\<close>

section \<open>Forking\<close>

lemma fold_max_ge: "x \<in> set ks \<Longrightarrow> x \<le> fold max ks (a::nat)"
  using Max.set_eq_fold [of a ks] Max_ge [of "set (a # ks)" x] by simp

lemma index_put_fresh:
  assumes "core_ok t" "map_of (branches t) fresh = None"
  shows "index_of t fresh = None"
  using assms index_iff_branch by blast

text \<open>A fork gives the new branch the entries of its parent up to the fork point, and, when no
  fork point is named, the parent's whole history; it reads the same events there as the parent.
  The parent and every other branch keep their history and their events.\<close>

theorem fork_copies_prefix:
  assumes t: "tl_ok t" and f: "map_of (branches t) fresh = None"
    and r: "create_branch fresh now name parent fork_at author why t = (Ok b, t')"
  shows "b = fresh \<and>
    history_of t' fresh =
      (case fork_at of None \<Rightarrow> history_of t parent
       | Some k \<Rightarrow> filter (\<lambda>kv. fst kv \<le> k) (history_of t parent)) \<and>
    is_branch_active t' fresh \<and>
    (\<forall>c s l. c \<noteq> fresh \<longrightarrow> history_of t' c = history_of t c \<and>
       get_branch_events t' c s l = get_branch_events t c s l)"
  using t r
proof (cases rule: create_branch_cases)
  case (created m br)
  have whole: "filter (\<lambda>kv. fst kv \<le> fork_index t parent None) m = m"
    using created(2) fold_max_ge
    by (auto simp: fork_index_def get_branch_head_def filter_id_conv intro!: fold_max_ge)
  have h: "history_of t' fresh = filter (\<lambda>kv. fst kv \<le> fork_index t parent fork_at) (history_of t parent)"
    by (simp add: history_of_def created(2,8) sorted_entries_filter)
  have "history_of t' fresh =
      (case fork_at of None \<Rightarrow> history_of t parent
       | Some k \<Rightarrow> filter (\<lambda>kv. fst kv \<le> k) (history_of t parent))"
  proof (cases fork_at)
    case None
    then show ?thesis
      using h whole by (simp add: history_of_def created(2) sorted_entries_filter [symmetric])
  qed (simp add: h fork_index_def)
  moreover have "history_of t' c = history_of t c \<and>
       get_branch_events t' c s l = get_branch_events t c s l" if "c \<noteq> fresh" for c s l
    using that by (auto simp: history_of_def created(8) dm.get_put intro!: branch_events_cong)
  ultimately show ?thesis
    using created(1,5,8) by (simp add: is_branch_active_def)
qed auto

theorem fork_copies_prefix_witness:
  "history_of (snd (create_branch (BranchId 8) 9 ''b'' main_branch (Some 1) System (BugFix ''b'') demo_4))
     (BranchId 8) = [(0, EventId 1)]"
proof -
  let ?c = "create_branch (BranchId 8) 9 ''b'' main_branch (Some 1) System (BugFix ''b'') demo_4"
  have f: "map_of (branches demo_4) (BranchId 8) = None"
    by (simp add: demo_4_eq main_branch_def demo_branch_def)
  obtain b where r: "?c = (Ok b, snd ?c)"
    by (simp add: create_branch_def contains_key_def Let_def demo_4_eq)
  show ?thesis
    using fork_copies_prefix [OF tl_ok_demo f r] by (simp add: history_of_def demo_4_eq sorted_entries_def)
qed

section \<open>Undo and redo\<close>

definition move_pointer :: "session_id \<Rightarrow> branch_id \<Rightarrow> nat \<Rightarrow> timestamp \<Rightarrow> timeline \<Rightarrow> timeline" where
  "move_pointer sid b k now t =
     t\<lparr>session_positions := AList.update sid
         \<lparr>sp_branch_id = b, sp_event_index = k, last_updated = now\<rparr> (session_positions t)\<rparr>"

lemma session_bound:
  assumes "tl_ok t" "map_of (session_positions t) sid = Some pos"
  obtains m where "index_of t (sp_branch_id pos) = Some m" "sp_event_index pos \<le> length m"
    "dmap_ok m" "history_of t (sp_branch_id pos) = sorted_entries m"
proof -
  obtain m where "index_of t (sp_branch_id pos) = Some m" "sp_event_index pos \<le> length m"
    using tl_okD(2) [OF assms(1)] assms(2) unfolding pointers_ok_def by blast
  then show ?thesis using that index_ok [OF tl_okD(1) [OF assms(1)]] by (simp add: history_of_def)
qed

lemma lookup_nth:
  "dmap_ok m \<Longrightarrow> k < length m \<Longrightarrow>
   map_of m (map fst (sorted_entries m) ! k) = Some (snd (sorted_entries m ! k))"
proof -
  assume "dmap_ok m" "k < length m"
  moreover from this have "sorted_entries m ! k \<in> set m"
    using nth_mem [of k "sorted_entries m"] by simp
  ultimately show ?thesis by (simp add: map_of_is_SomeI)
qed

lemma undo_spec:
  assumes t: "tl_ok t" and p: "map_of (session_positions t) sid = Some pos"
  shows "undo now sid t =
    (if sp_event_index pos = 0 then (Err NoMoreUndo, t)
     else (Ok (snd (history_of t (sp_branch_id pos) ! (sp_event_index pos - 1))),
           move_pointer sid (sp_branch_id pos) (sp_event_index pos - 1) now t))"
proof -
  obtain m where m: "index_of t (sp_branch_id pos) = Some m" "sp_event_index pos \<le> length m"
    "dmap_ok m" "history_of t (sp_branch_id pos) = sorted_entries m"
    using t p by (rule session_bound)
  show ?thesis
    using m p lookup_nth [OF m(3), of "sp_event_index pos - 1"]
    by (auto simp: undo_def keys_sorted Let_def update_session_position_def move_pointer_def)
qed

lemma redo_spec:
  assumes t: "tl_ok t" and p: "map_of (session_positions t) sid = Some pos"
  shows "redo now sid t =
    (if sp_event_index pos = length (history_of t (sp_branch_id pos)) then (Err NoMoreRedo, t)
     else (Ok (snd (history_of t (sp_branch_id pos) ! sp_event_index pos)),
           move_pointer sid (sp_branch_id pos) (sp_event_index pos + 1) now t))"
proof -
  obtain m where m: "index_of t (sp_branch_id pos) = Some m" "sp_event_index pos \<le> length m"
    "dmap_ok m" "history_of t (sp_branch_id pos) = sorted_entries m"
    using t p by (rule session_bound)
  show ?thesis
    using m p lookup_nth [OF m(3), of "sp_event_index pos"]
    by (auto simp: redo_def keys_sorted Let_def update_session_position_def move_pointer_def)
qed

text \<open>C7. Undo and redo walk the branch's history by position: with a pointer at \<open>n\<close>, undo returns
  the \<open>n\<close>-th event and moves the pointer to \<open>n - 1\<close>, redo returns the next event and moves it to
  \<open>n + 1\<close>. They are refused exactly at the two ends, leaving the timeline alone; none of the
  internal errors of the code is reachable. Nothing but the pointer changes, whatever gaps other
  branches left between the sequence numbers.\<close>

theorem undo_redo_walk_history:
  assumes "tl_ok t" and "map_of (session_positions t) sid = Some pos"
  shows "undo now sid t =
    (if sp_event_index pos = 0 then (Err NoMoreUndo, t)
     else (Ok (snd (history_of t (sp_branch_id pos) ! (sp_event_index pos - 1))),
           move_pointer sid (sp_branch_id pos) (sp_event_index pos - 1) now t)) \<and>
    redo now sid t =
    (if sp_event_index pos = length (history_of t (sp_branch_id pos)) then (Err NoMoreRedo, t)
     else (Ok (snd (history_of t (sp_branch_id pos) ! sp_event_index pos)),
           move_pointer sid (sp_branch_id pos) (sp_event_index pos + 1) now t))"
  using undo_spec [OF assms] redo_spec [OF assms] by simp

theorem undo_redo_walk_history_witness:
  "fst (undo 9 demo_session demo_4) = Ok (EventId 4) \<and> fst (redo 9 demo_session demo_4) = Err NoMoreRedo"
proof -
  have p: "map_of (session_positions demo_4) demo_session =
      Some \<lparr>sp_branch_id = main_branch, sp_event_index = 2, last_updated = 5\<rparr>"
    by (simp add: demo_4_eq)
  show ?thesis
    using undo_redo_walk_history [OF tl_ok_demo p, of 9]
    by (simp add: history_of_def demo_4_eq sorted_entries_def)
qed

lemma update_update: "AList.update k v (AList.update k w m) = AList.update k v m"
  by (induction m) auto

text \<open>Redo takes back what undo did: it returns the event undo returned, and the timeline is the
  one before the undo but for the time of the session's last move.\<close>

theorem redo_reverts_undo:
  assumes t: "tl_ok t" and p: "map_of (session_positions t) sid = Some pos"
    and u: "undo now sid t = (Ok e, t')"
  shows "redo now' sid t' =
    (Ok e, t\<lparr>session_positions :=
              AList.update sid (pos\<lparr>last_updated := now'\<rparr>) (session_positions t)\<rparr>)"
proof -
  note us = undo_spec [OF t p, of now]
  have n: "sp_event_index pos \<noteq> 0" and e: "e = snd (history_of t (sp_branch_id pos) ! (sp_event_index pos - 1))"
    and t': "t' = move_pointer sid (sp_branch_id pos) (sp_event_index pos - 1) now t"
    using u us by (auto split: if_splits)
  have ok: "tl_ok t'" using tl_ok_undo [OF t, of now sid] u by simp
  have h: "history_of t' b = history_of t b" for b by (simp add: t' move_pointer_def history_of_def)
  obtain m where "sp_event_index pos \<le> length (history_of t (sp_branch_id pos))"
    using session_bound [OF t p] by (metis length_sorted_entries)
  moreover have p': "map_of (session_positions t') sid =
      Some \<lparr>sp_branch_id = sp_branch_id pos, sp_event_index = sp_event_index pos - 1, last_updated = now\<rparr>"
    by (simp add: t' move_pointer_def)
  moreover have "move_pointer sid (sp_branch_id pos) (sp_event_index pos) now' t' =
      t\<lparr>session_positions := AList.update sid (pos\<lparr>last_updated := now'\<rparr>) (session_positions t)\<rparr>"
    by (cases pos) (simp add: t' move_pointer_def update_update)
  ultimately show ?thesis
    using redo_spec [OF ok p', of now'] n by (simp add: h e)
qed

theorem redo_reverts_undo_witness:
  "fst (redo 10 demo_session (snd (undo 9 demo_session demo_4))) = Ok (EventId 4)"
proof -
  have p: "map_of (session_positions demo_4) demo_session =
      Some \<lparr>sp_branch_id = main_branch, sp_event_index = 2, last_updated = 5\<rparr>"
    by (simp add: demo_4_eq)
  have u: "undo 9 demo_session demo_4 = (Ok (EventId 4), snd (undo 9 demo_session demo_4))"
    using undo_spec [OF tl_ok_demo p, of 9] by (simp add: history_of_def demo_4_eq sorted_entries_def)
  show ?thesis using redo_reverts_undo [OF tl_ok_demo p u, of 10] by simp
qed

section \<open>Pages of a history\<close>

definition branch_log :: "timeline \<Rightarrow> branch_id \<Rightarrow> timeline_event list" where
  "branch_log t b = events_for t (history_of t b)"

lemma events_for_Nil [simp]: "events_for t [] = []"
  by (simp add: events_for_def List.map_filter_simps)

lemma events_for_filter:
  assumes c: "core_ok t"
  shows "set es \<subseteq> set (history_of t b) \<Longrightarrow>
    events_for t (filter (\<lambda>(i, _). n \<le> i) es) = filter (\<lambda>ev. n \<le> sequence_number ev) (events_for t es) \<and>
    events_for t (take k es) = take k (events_for t es) \<and>
    map sequence_number (events_for t es) = map fst es"
proof (induction es arbitrary: k)
  case (Cons kv es)
  obtain i e where kv: "kv = (i, e)" by (cases kv)
  then obtain ev where "map_of (events t) e = Some ev" "sequence_number ev = i"
    using history_event [OF c, of i e b] Cons.prems by auto
  then show ?case using Cons by (cases k) (auto simp: kv events_for_Cons)
qed simp

lemma log_sequence:
  assumes "core_ok t"
  shows "map sequence_number (branch_log t b) = map fst (history_of t b)"
  using events_for_filter [OF assms order_refl] by (simp add: branch_log_def)

text \<open>The events of a branch come in strictly ascending sequence order, one for each entry of its
  history, and a page is a contiguous piece of that log: the first \<open>limit\<close> events at or after
  \<open>start\<close>, whatever order the map behind the history iterates in.\<close>

theorem branch_events_page:
  assumes t: "tl_ok t" and b: "index_of t b = Some m"
  shows "sorted_wrt (<) (map sequence_number (branch_log t b)) \<and>
    length (branch_log t b) = length m \<and>
    get_branch_events t b start limit =
      Ok (let from = filter (\<lambda>ev. (case start of None \<Rightarrow> 0 | Some s \<Rightarrow> s) \<le> sequence_number ev)
                       (branch_log t b)
          in case limit of None \<Rightarrow> from | Some n \<Rightarrow> take n from)"
proof -
  note c = tl_okD(1) [OF t]
  have h: "history_of t b = sorted_entries m" by (simp add: history_of_def b)
  have asc: "sorted_wrt (<) (map sequence_number (branch_log t b))"
    using ascending_history [OF c, of b]
    by (simp add: log_sequence [OF c] ascending_def sorted_wrt_map)
  have l: "length (branch_log t b) = length m"
    using arg_cong [OF log_sequence [OF c, of b], of length] by (simp add: h)
  define n where "n = (case start of None \<Rightarrow> 0 | Some s \<Rightarrow> s)"
  have sub: "set (filter (\<lambda>(i, _). n \<le> i) (history_of t b)) \<subseteq> set (history_of t b)" by auto
  have keyed: "events_for t (filter (\<lambda>(i, _). n \<le> i) (sorted_entries m)) =
      filter (\<lambda>ev. n \<le> sequence_number ev) (branch_log t b)"
    using events_for_filter [OF c order_refl, where b = b and n = n] by (simp add: branch_log_def h)
  have page: "events_for t (take k (filter (\<lambda>(i, _). n \<le> i) (sorted_entries m))) =
      take k (filter (\<lambda>ev. n \<le> sequence_number ev) (branch_log t b))" for k
    using events_for_filter [OF c sub, where k = k] keyed by (simp add: h)
  have srt: "sort_key sequence_number xs = xs"
    if "xs = take k (filter P (branch_log t b)) \<or> xs = filter P (branch_log t b)" for xs k P
  proof -
    have "sorted_wrt (\<lambda>x y. sequence_number x < sequence_number y) (branch_log t b)"
      using asc by (simp add: sorted_wrt_map)
    then have "sorted_wrt (\<lambda>x y. sequence_number x < sequence_number y) xs"
      using that by (auto intro: sorted_wrt_take sorted_wrt_filter)
    then have "sorted (map sequence_number xs)"
      by (simp add: sorted_wrt_map) (metis (mono_tags, lifting) less_imp_le sorted_wrt_mono_rel)
    then show ?thesis by (rule sort_key_id_if_sorted)
  qed
  have "get_branch_events t b start limit =
      Ok (let from = filter (\<lambda>ev. n \<le> sequence_number ev) (branch_log t b)
          in case limit of None \<Rightarrow> from | Some k \<Rightarrow> take k from)"
    by (simp add: get_branch_events_def b n_def [symmetric] Let_def keyed page
        srt [OF disjI1, OF refl] srt [OF disjI2, OF refl] split: option.split)
  then show ?thesis using asc l by (simp add: n_def)
qed

theorem branch_events_page_witness:
  "get_branch_events demo_4 main_branch (Some 1) (Some 1) = Ok [demo_event 4 2 main_branch]"
proof -
  have b: "index_of demo_4 main_branch = Some [(0, EventId 1), (2, EventId 4)]"
    by (simp add: demo_4_eq)
  have "branch_log demo_4 main_branch = [demo_event 1 0 main_branch, demo_event 4 2 main_branch]"
    by (simp add: branch_log_def history_of_def demo_4_eq sorted_entries_def events_for_def
        List.map_filter_simps)
  then show ?thesis
    using branch_events_page [OF tl_ok_demo b, of "Some 1" "Some 1"] by (simp add: Let_def)
qed

section \<open>Applied heads\<close>

text \<open>An applied head written down as a sequence number and put back later covers the same events,
  even when the history grew in between: if every entry added since lies above the recorded
  sequence, restoring the saved state applies exactly the entries that were applied when it was
  saved, and the undone ones stay undone.\<close>

theorem applied_head_survives_growth:
  assumes t: "tl_ok t" and u: "tl_ok u"
    and s: "applied_head_state t b = Ok (Some state)"
    and h: "history_of u b = history_of t b @ added"
  shows "\<exists>u'. restore_applied_head_state b (Some state) u = (Ok (), u') \<and>
    applied_count u' b = applied_count t b \<and>
    take (applied_len u' b) (history_of u' b) = take (applied_len t b) (history_of t b)"
proof -
  obtain k where k: "applied_head t b = Some k" and seq: "applied_head_sequence t b k = Ok state"
    using s by (auto simp: applied_head_state_def split: option.splits sum.splits)
  obtain m where m: "index_of t b = Some m" "k < length m"
    using tl_okD(2) [OF t] k unfolding pointers_ok_def applied_head_def by blast
  have ht: "history_of t b = sorted_entries m" by (simp add: history_of_def m)
  have "sorted_entries m \<noteq> []" using m(2) by (metis list.size(3) length_sorted_entries not_less_zero)
  then have "history_of u b \<noteq> []" by (simp add: h ht)
  then obtain n where n: "index_of u b = Some n" by (auto simp: history_of_def split: option.splits)
  have hu: "history_of u b = sorted_entries n" by (simp add: history_of_def n)
  have asc: "ascending (sorted_entries n)" using ascending_history [OF tl_okD(1) [OF u], of b] hu by simp
  have kn: "k < length n"
    using arg_cong [OF h, of length] m(2) by (simp add: hu ht)
  have cnt: "(case state of None \<Rightarrow> 0 | Some q \<Rightarrow> length (filter (\<lambda>key. key \<le> q) (map fst (sorted_entries n)))) = k"
  proof (cases k)
    case 0
    then show ?thesis using seq by (simp add: applied_head_sequence_def keys_sorted m)
  next
    case (Suc j)
    have j: "map fst (sorted_entries m) ! j = fst (sorted_entries n ! j)"
      using m(2) h Suc by (simp add: hu ht nth_append)
    have st: "state = Some (fst (sorted_entries n ! j))"
      using seq m(2) Suc j by (auto simp: applied_head_sequence_def keys_sorted m)
    have "filter (\<lambda>kv. fst kv \<le> fst (sorted_entries n ! j)) (sorted_entries n) = take (Suc j) (sorted_entries n)"
    proof -
      have "fst kv \<le> fst (sorted_entries n ! j) \<longleftrightarrow> fst kv < fst (sorted_entries n ! Suc j)"
        if "kv \<in> set (sorted_entries n)" for kv
      proof -
        obtain i where i: "i < length n" "kv = sorted_entries n ! i"
          by (metis in_set_conv_nth length_sorted_entries \<open>kv \<in> set (sorted_entries n)\<close>)
        have "x < y \<Longrightarrow> y < length n \<Longrightarrow> fst (sorted_entries n ! x) < fst (sorted_entries n ! y)" for x y
          using asc by (auto simp: ascending_def sorted_wrt_iff_nth_less)
        then show ?thesis using i kn Suc by (metis less_Suc_eq linorder_less_linear not_less not_less_eq order_less_le)
      qed
      then have "filter (\<lambda>kv. fst kv \<le> fst (sorted_entries n ! j)) (sorted_entries n) =
          filter (\<lambda>kv. fst kv < fst (sorted_entries n ! Suc j)) (sorted_entries n)"
        by (intro filter_cong) simp_all
      then show ?thesis using ascending_take_drop(1) [OF asc, of "Suc j"] kn Suc by simp
    qed
    then have "filter (\<lambda>key. key \<le> fst (sorted_entries n ! j)) (map fst (sorted_entries n)) =
        map fst (take (Suc j) (sorted_entries n))"
      by (simp add: filter_map comp_def)
    then show ?thesis using st kn Suc by simp
  qed
  let ?u = "u\<lparr>applied_heads := AList.update b k (applied_heads u)\<rparr>"
  have r: "restore_applied_head_state b (Some state) u = (Ok (), ?u)"
    using kn by (simp add: restore_applied_head_state_def keys_sorted n cnt set_applied_head_def)
  have ac: "applied_count ?u b = Ok k" "applied_count t b = Ok k"
    using k kn m n by (simp_all add: applied_count_def applied_head_def)
  moreover have "history_of ?u b = history_of u b" by (simp add: history_of_def)
  ultimately show ?thesis using r h m(2) by (simp add: applied_len_def ht)
qed

theorem applied_head_survives_growth_witness:
  "applied_count (snd (restore_applied_head_state main_branch (Some (Some 0))
     (demo_append 5 main_branch demo_4))) main_branch = Ok 1"
proof -
  let ?t = "snd (set_applied_head main_branch 1 demo_4)"
  let ?u = "demo_append 5 main_branch demo_4"
  have t: "tl_ok ?t" by (rule tl_ok_set_head [OF tl_ok_demo])
  have u: "tl_ok ?u" unfolding demo_append_def
    by (rule tl_ok_append [OF tl_ok_demo]) (simp add: can_append_def demo_4_eq u64_bound_def)
  have ht: "history_of ?t main_branch = [(0, EventId 1), (2, EventId 4)]"
    by (simp add: set_applied_head_def demo_4_eq history_of_def sorted_entries_def)
  have hu: "history_of ?u main_branch = [(0, EventId 1), (2, EventId 4), (3, EventId 5)]"
    by (simp add: demo_append_def demo_4_eq append_eval history_of_def sorted_entries_def)
  have s: "applied_head_state ?t main_branch = Ok (Some (Some 0))"
    by (simp add: applied_head_state_def applied_head_def applied_head_sequence_def
        branch_event_keys_sorted_def set_applied_head_def demo_4_eq)
  have "applied_count ?t main_branch = Ok 1"
    by (simp add: applied_count_def applied_head_def set_applied_head_def demo_4_eq)
  then show ?thesis
    using applied_head_survives_growth [OF t u s, of "[(3, EventId 5)]"] by (auto simp: ht [simplified] hu)
qed

section \<open>Refusals\<close>

definition unchanged_unless_ok :: "timeline \<Rightarrow> ('e, 'a) result \<times> timeline \<Rightarrow> bool" where
  "unchanged_unless_ok t r \<longleftrightarrow> is_ok (fst r) \<or> snd r = t"

lemma merge_unchanged:
  "unchanged_unless_ok t (merge_branches ser sh el now source target strategy t)"
proof -
  obtain r t' where r: "merge_branches ser sh el now source target strategy t = (r, t')" by fastforce
  from r show ?thesis
    by (cases rule: merge_branches_cases) (simp_all add: r unchanged_unless_ok_def)
qed

lemma undo_redo_unchanged:
  "unchanged_unless_ok t (undo now sid t)" "unchanged_unless_ok t (redo now sid t)"
  by (auto simp: undo_def redo_def Let_def update_session_position_def unchanged_unless_ok_def
      split: option.splits sum.splits)

lemma head_unchanged: "unchanged_unless_ok t (restore_applied_head_state b hs t)"
  by (auto simp: restore_applied_head_state_def set_applied_head_def unchanged_unless_ok_def
      split: option.splits sum.splits)

lemma abandon_unchanged: "unchanged_unless_ok t (abandon_branch b reason force t)"
  by (simp add: abandon_branch_def unchanged_unless_ok_def split: option.split branch_state.split)

text \<open>A refused operation leaves the timeline as it was: every error of truncate, fork, merge,
  abandon, undo, redo, pointer and head moves, checkpoints, restored entries and reverted merges is
  returned with the state it was called on.\<close>

theorem errors_leave_state:
  "unchanged_unless_ok t (truncate_branch now b k force t) \<and>
   unchanged_unless_ok t (create_branch fresh now name parent fork_at author why t) \<and>
   unchanged_unless_ok t (merge_branches ser sh el now source target strategy t) \<and>
   unchanged_unless_ok t (abandon_branch b reason force t) \<and>
   unchanged_unless_ok t (undo now sid t) \<and> unchanged_unless_ok t (redo now sid t) \<and>
   unchanged_unless_ok t (update_session_position sid b k now t) \<and>
   unchanged_unless_ok t (restore_applied_head_state b hs t) \<and>
   unchanged_unless_ok t (create_checkpoint cp now name descr b author tags skip t) \<and>
   unchanged_unless_ok t (rehydrate_branch_entries b entries t) \<and>
   unchanged_unless_ok t (revert_merge source target inserted t)"
proof -
  have "unchanged_unless_ok t (update_session_position sid b k now t)"
    by (simp add: update_session_position_def unchanged_unless_ok_def split: option.split)
  moreover have "unchanged_unless_ok t (truncate_branch now b k force t)"
    by (simp add: truncate_branch_def unchanged_unless_ok_def split: sum.split)
  moreover have "unchanged_unless_ok t (create_branch fresh now name parent fork_at author why t)"
    by (simp add: create_branch_def Let_def unchanged_unless_ok_def)
  moreover have "unchanged_unless_ok t (create_checkpoint cp now name descr b author tags skip t)"
    by (simp add: create_checkpoint_def Let_def unchanged_unless_ok_def split: option.split)
  moreover have "unchanged_unless_ok t (rehydrate_branch_entries b entries t)"
    by (simp add: rehydrate_branch_entries_def unchanged_unless_ok_def split: option.split)
  moreover have "unchanged_unless_ok t (revert_merge source target inserted t)"
    by (simp add: revert_merge_def unchanged_unless_ok_def split: option.split)
  ultimately show ?thesis
    by (simp add: merge_unchanged undo_redo_unchanged head_unchanged abandon_unchanged)
qed

end
