(* ===== verification/Timeline_Merge_Props.thy ===== *)
theory Timeline_Merge_Props
  imports Timeline_Session_Props
begin

text \<open>
  Properties of merging: what a merge does to the two histories, that the preview tells the truth,
  that a merge can be taken back.
\<close>

section \<open>Histories as sets\<close>

lemma history_subset_keys:
  assumes "core_ok t" "set es \<subseteq> set (history_of t source)" "index_of t target = Some m"
    and "(k, e) \<in> set es" "map_of m k = Some e'"
  shows "e' = e"
proof -
  obtain m' where m': "index_of t source = Some m'" "(k, e) \<in> set m'"
    using assms(2,4) by (cases "index_of t source") (auto simp: history_of_def)
  then have "map_of m' k = Some e" using index_ok [OF assms(1) m'(1)] by (simp add: map_of_is_SomeI)
  then show ?thesis using same_key_same_event [OF assms(1,3) m'(1) assms(5)] by blast
qed

lemma distinct_history: "core_ok t \<Longrightarrow> distinct (map fst (history_of t b))"
  using ascending_history [of t b] by (simp add: ascending_iff)

lemma set_file_entries:
  assumes c: "core_ok t" and es: "set es \<subseteq> set (history_of t source)"
    and d: "distinct (map fst es)" and m: "index_of t target = Some m"
  shows "set (history_of (file_entries target es t) target) = set (history_of t target) \<union> set es"
proof -
  have "\<forall>(k, e) \<in> set es. map_of m k \<in> {None, Some e}"
    using history_subset_keys [OF c es m] by (auto simp del: not_None_eq) (metis not_None_eq)
  from set_fold_put [OF index_ok [OF c m] d this] show ?thesis
    by (simp add: history_of_def index_file_entries m)
qed

lemma history_set_state [simp]: "history_of (set_branch_state b s t) c = history_of t c"
  by (simp add: history_of_def)

lemma history_file_other: "c \<noteq> b \<Longrightarrow> history_of (file_entries b es t) c = history_of t c"
  by (cases "index_of t c") (simp_all add: history_of_def index_file_entries)

lemma up_to_date_subset: "up_to_date s g \<Longrightarrow> set s \<subseteq> set g"
  unfolding up_to_date_iff by (metis set_take_subset)

lemma common_prefix_take:
  "take (common_prefix_len s g) s = take (common_prefix_len s g) g"
proof (induction s arbitrary: g)
  case (Cons x s)
  show ?case
  proof (cases g)
    case (Cons y g')
    then show ?thesis using Cons.IH [of g'] by (auto simp: common_prefix_len_def)
  qed (simp add: common_prefix_len_def)
qed (simp add: common_prefix_len_def)

lemma union_of_suffix:
  "set g \<union> set (drop (common_prefix_len s g) s) = set g \<union> set s"
proof -
  let ?c = "common_prefix_len s g"
  have "set s = set (take ?c s) \<union> set (drop ?c s)"
    by (metis append_take_drop_id set_append)
  moreover have "set (take ?c s) \<subseteq> set g"
    unfolding common_prefix_take by (rule set_take_subset)
  ultimately show ?thesis by blast
qed

section \<open>What a merge does\<close>

lemma merged_state:
  assumes t: "tl_ok t"
    and r: "merge_branches ser sh el now source target strategy t = (Ok res, t')" "mr_success res"
  obtains es where "t' = set_branch_state source (Merged target now) (file_entries target es t)"
    "set es \<subseteq> set (history_of t source)" "distinct (map fst es)" "res = merge_success el (events_for t es)"
    "merge_gate t source target = None"
    "es = (if up_to_date (history_of t source) (history_of t target) then []
           else drop (common_prefix_len (history_of t source) (history_of t target))
                  (history_of t source))"
  using r(1)
proof (cases rule: merge_branches_cases)
  case (merged es)
  have "distinct (map fst es)"
    using distinct_history [OF tl_okD(1) [OF t], of source]
    by (simp add: merged(5) drop_map [symmetric])
  then show ?thesis
    using that merged merged_entries [OF tl_okD(1) [OF t] merged(3)] by simp
qed (use r(2) in \<open>auto simp: merge_conflicted_def\<close>)

lemma branches_merged:
  "map_of (branches (set_branch_state source (Merged target now) (file_entries target es t))) c =
     (if c = source then map_option (br_state_update (\<lambda>_. Merged target now)) (map_of (branches t) source)
      else map_of (branches t) c)"
  by (simp add: branches_set_branch_state)

text \<open>C4. A successful merge leaves the target with exactly the union of the two histories, in
  sequence order, and marks the source merged into it; the source keeps its history, every other
  branch keeps history and record, and no event is copied or changed. An unsuccessful merge reports
  at least one conflict and changes nothing.\<close>

theorem merge_unites_histories:
  assumes t: "tl_ok t"
    and r: "merge_branches ser sh el now source target strategy t = (Ok res, t')"
  shows "if mr_success res
    then set (history_of t' target) = set (history_of t target) \<union> set (history_of t source) \<and>
      ascending (history_of t' target) \<and>
      map_option br_state (map_of (branches t') source) = Some (Merged target now) \<and>
      events t' = events t \<and>
      (\<forall>c. c \<noteq> target \<longrightarrow> history_of t' c = history_of t c) \<and>
      (\<forall>c. c \<noteq> source \<longrightarrow> map_of (branches t') c = map_of (branches t) c)
    else mr_conflicts res \<noteq> [] \<and> t' = t"
proof (cases "mr_success res")
  case True
  obtain es where t': "t' = set_branch_state source (Merged target now) (file_entries target es t)"
    and es: "set es \<subseteq> set (history_of t source)" "distinct (map fst es)"
    and g: "merge_gate t source target = None"
    and e: "es = (if up_to_date (history_of t source) (history_of t target) then []
           else drop (common_prefix_len (history_of t source) (history_of t target))
                  (history_of t source))"
    by (rule merged_state [OF t r True])
  note c = tl_okD(1) [OF t]
  obtain s m where s: "map_of (branches t) source = Some s" and m: "index_of t target = Some m"
    using merge_gate_None [OF g] index_iff_branch' [OF c] by blast
  have "set (history_of t' target) = set (history_of t target) \<union> set es"
    using set_file_entries [OF c es m] by (simp add: t')
  also have "\<dots> = set (history_of t target) \<union> set (history_of t source)"
    using up_to_date_subset union_of_suffix unfolding e by (auto split: if_splits)
  finally have "set (history_of t' target) = set (history_of t target) \<union> set (history_of t source)" .
  moreover have "ascending (history_of t' target)"
    using tl_ok_merge [OF t, of ser sh el now source target strategy] r
    by (intro ascending_history tl_okD(1)) simp
  ultimately show ?thesis
    using True s by (simp add: t' branches_merged history_file_other)
next
  case False
  from r show ?thesis
    by (cases rule: merge_branches_cases) (use False in \<open>simp_all add: merge_success_def merge_conflicted_def\<close>)
qed

text \<open>The fork of the concrete run and \<open>main\<close>, as the merge sees them.\<close>

lemma demo_divergence:
  "history_of demo_4 demo_branch = [(0, EventId 1), (1, EventId 3)]"
  "history_of demo_4 main_branch = [(0, EventId 1), (2, EventId 4)]"
  "merge_gate demo_4 demo_branch main_branch = None"
  "branch_sequence demo_4 demo_branch = Ok [(0, EventId 1), (1, EventId 3)]"
  "branch_sequence demo_4 main_branch = Ok [(0, EventId 1), (2, EventId 4)]"
  "classify_divergence_conflicts ser sh (events_for demo_4 [(1, EventId 3)])
     (events_for demo_4 [(2, EventId 4)]) = []"
  "events_for demo_4 [(1, EventId 3)] = [demo_event 3 1 demo_branch]"
  by (simp_all add: history_of_def demo_4_eq sorted_entries_def merge_gate_def branch_sequence_def
      events_for_Cons classify_divergence_conflicts_def index_subjects_by_role_def index_event_def
      subjects_def update_role_def conflict_for_def List.map_filter_simps Let_def)

lemma demo_merge:
  "merge_branches ser sh 0 9 demo_branch main_branch (ThreeWay Manual) demo_4 =
     (Ok (merge_success 0 [demo_event 3 1 demo_branch]),
      set_branch_state demo_branch (Merged main_branch 9)
        (file_entries main_branch [(1, EventId 3)] demo_4))"
  using demo_divergence
  by (simp add: merge_branches_def up_to_date_def can_fast_forward_def common_prefix_len_def Let_def)

lemma demo_merge_history:
  "history_of (snd (merge_branches ser sh 0 9 demo_branch main_branch (ThreeWay Manual) demo_4)) main_branch
     = [(0, EventId 1), (1, EventId 3), (2, EventId 4)]"
  by (simp add: demo_merge history_of_def index_file_entries) (simp add: demo_4_eq sorted_entries_def)

theorem merge_unites_histories_witness:
  "set (history_of (snd (merge_branches (\<lambda>_. None) (\<lambda>_. []) 0 9 demo_branch main_branch
      (ThreeWay Manual) demo_4)) main_branch) = {(0, EventId 1), (1, EventId 3), (2, EventId 4)}"
  using merge_unites_histories [OF tl_ok_demo demo_merge [of "\<lambda>_. None" "\<lambda>_. []"]]
  by (auto simp: demo_divergence merge_success_def demo_merge)

lemma gate_sequences:
  assumes "core_ok t" "merge_gate t source target = None"
  shows "branch_sequence t source = Ok (history_of t source)"
    and "branch_sequence t target = Ok (history_of t target)"
  using merge_gate_None [OF assms(2)] index_iff_branch' [OF assms(1)]
  by (auto simp: branch_sequence_history)

text \<open>A merge whose target is behind (its history is a proper prefix of the source's) fast-forwards
  under every strategy, \<open>Squash\<close>, \<open>Rebase\<close> and \<open>CherryPick\<close> included: the target ends with the
  source's history and the source's extra events are reported, without a conflict. Under the
  fast-forward-only strategy a merge succeeds exactly when one history is a prefix of the other;
  otherwise it is refused with the shape of the divergence.\<close>

theorem fast_forward_merge:
  assumes t: "tl_ok t" and g: "merge_gate t source target = None"
  shows "let s = history_of t source; h = history_of t target;
             common = common_prefix_len s h;
             m = merge_branches ser sh el now source target strategy t;
             ff_only = merge_branches ser sh el now source target FastForward t
         in (if \<not> up_to_date s h \<and> can_fast_forward s h
             then fst m = Ok (merge_success el (events_for t (drop (length h) s))) \<and>
                  history_of (snd m) target = s
             else True) \<and>
            (if up_to_date s h \<or> can_fast_forward s h then is_ok (fst ff_only)
             else ff_only = (Err (BranchConflict (Diverged source target common
                               (length s - common) (length h - common))), t))"
proof -
  let ?s = "history_of t source" and ?h = "history_of t target"
  note q = gate_sequences [OF tl_okD(1) [OF t] g]
  have "history_of (snd (merge_branches ser sh el now source target strategy t)) target = ?s"
    if ff: "\<not> up_to_date ?s ?h" "can_fast_forward ?s ?h"
  proof -
    have m: "merge_branches ser sh el now source target strategy t =
        (Ok (merge_success el (events_for t (drop (length ?h) ?s))),
         snd (merge_branches ser sh el now source target strategy t))"
      by (simp add: merge_branches_def g q ff Let_def)
    have "set ?h \<subseteq> set ?s" using ff(2) unfolding can_fast_forward_def by (metis set_take_subset)
    then show ?thesis
      using merge_unites_histories [OF t m] ascending_history [OF tl_okD(1) [OF t], of source]
      by (intro ascending_unique) (auto simp: merge_success_def)
  qed
  then show ?thesis by (simp add: Let_def merge_branches_def g q)
qed

theorem fast_forward_merge_witness:
  "history_of (snd (merge_branches (\<lambda>_. None) (\<lambda>_. []) 0 9 demo_branch main_branch (Squash ''m'') demo_3))
     main_branch = [(0, EventId 1), (1, EventId 3)]"
proof -
  have g: "merge_gate demo_3 demo_branch main_branch = None" by (simp add: merge_gate_def demo_3_eq)
  have h: "history_of demo_3 demo_branch = [(0, EventId 1), (1, EventId 3)]"
    "history_of demo_3 main_branch = [(0, EventId 1)]"
    by (simp_all add: history_of_def demo_3_eq sorted_entries_def)
  show ?thesis
    using fast_forward_merge [OF tl_ok_demo_3 g, of "\<lambda>_. None" "\<lambda>_. []" 0 9 "Squash ''m''"]
    by (simp add: h up_to_date_def can_fast_forward_def Let_def)
qed

fun events_to_move :: "branch_relationship \<Rightarrow> nat" where
  "events_to_move UpToDate = 0"
| "events_to_move (Fast_Forward_By n) = n"
| "events_to_move (Divergent common source_only target_only) = source_only"

lemma length_events_for:
  "core_ok t \<Longrightarrow> set es \<subseteq> set (history_of t b) \<Longrightarrow> length (events_for t es) = length es"
  using events_for_filter [of t es b] by (metis length_map)

text \<open>C5. The preview tells what the merge will do. When it is refused, a three-way merge is refused
  with the same error and changes nothing; when it answers, the three-way merge of the same pair
  reports exactly the previewed conflicts, succeeds exactly when there are none, and then moves as
  many events as the previewed relationship says.\<close>

theorem preview_agrees_with_merge:
  assumes t: "tl_ok t" and ai: "\<And>model criteria. cs \<noteq> AI model criteria"
  shows "case preview_merge ser sh source target t of
      Err e \<Rightarrow> merge_branches ser sh el now source target (ThreeWay cs) t = (Err e, t)
    | Ok p \<Rightarrow> (case merge_branches ser sh el now source target (ThreeWay cs) t of
        (Err _, _) \<Rightarrow> False
      | (Ok res, t') \<Rightarrow> mr_conflicts res = mp_conflicts p \<and>
          (mr_success res \<longleftrightarrow> mp_conflicts p = []) \<and>
          events_merged (statistics res) =
            (if mr_success res then events_to_move (relationship p) else 0))"
proof -
  note c = tl_okD(1) [OF t]
  let ?s = "history_of t source" and ?h = "history_of t target"
  have ref: "strategy_refusal a b x y z (ThreeWay cs) = None" for a b x y z
    using ai by (cases cs) auto
  have len: "length (events_for t (drop n ?s)) = length ?s - n" for n
    using length_events_for [OF c, of "drop n ?s" source] by (simp add: set_drop_subset)
  show ?thesis
  proof (cases "merge_gate t source target")
    case (Some e)
    then show ?thesis by (simp add: preview_merge_def merge_branches_def)
  next
    case None
    note q = gate_sequences [OF c None]
    consider "up_to_date ?s ?h" | "\<not> up_to_date ?s ?h" "can_fast_forward ?s ?h"
      | "\<not> up_to_date ?s ?h" "\<not> can_fast_forward ?s ?h" by blast
    then show ?thesis
      by cases (simp_all add: preview_merge_def merge_branches_def None q ref len Let_def
          merge_success_def merge_conflicted_def)
  qed
qed

theorem preview_agrees_with_merge_witness:
  "preview_merge (\<lambda>_. None) (\<lambda>_. []) demo_branch main_branch demo_4 =
     Ok \<lparr>relationship = Divergent 1 1 1, mp_conflicts = []\<rparr> \<and>
   (\<exists>res t'. merge_branches (\<lambda>_. None) (\<lambda>_. []) 0 9 demo_branch main_branch (ThreeWay Manual) demo_4 =
      (Ok res, t') \<and> mr_success res)"
proof -
  have p: "preview_merge (\<lambda>_. None) (\<lambda>_. []) demo_branch main_branch demo_4 =
      Ok \<lparr>relationship = Divergent 1 1 1, mp_conflicts = []\<rparr>"
    using demo_divergence
    by (simp add: preview_merge_def up_to_date_def can_fast_forward_def common_prefix_len_def Let_def)
  show ?thesis
    using preview_agrees_with_merge [OF tl_ok_demo, where cs = Manual and ser = "\<lambda>_. None" and
        sh = "\<lambda>_. []" and source = demo_branch and target = main_branch and el = 0 and now = 9]
    by (auto simp: p split: sum.splits prod.splits)
qed

text \<open>C10. Taking back a merge restores the timeline: removing from the target exactly the keys the
  merge added gives every branch the history, the events and the record it had before.\<close>

theorem revert_merge_undoes_merge:
  assumes t: "tl_ok t"
    and r: "merge_branches ser sh el now source target strategy t = (Ok res, t')" "mr_success res"
    and k: "set inserted = fst ` (set (history_of t' target) - set (history_of t target))"
  shows "\<exists>u. revert_merge source target inserted t' = (Ok (), u) \<and>
    (\<forall>c. history_of u c = history_of t c) \<and> events u = events t \<and>
    (\<forall>c. map_of (branches u) c = map_of (branches t) c)"
proof -
  obtain es where t': "t' = set_branch_state source (Merged target now) (file_entries target es t)"
    and g: "merge_gate t source target = None" and e: "set es \<subseteq> set (history_of t source)"
    by (rule merged_state [OF t r])
  note c = tl_okD(1) [OF t]
  obtain s m where s: "map_of (branches t) source = Some s" "br_state s = Active"
    and m: "index_of t target = Some m"
    using merge_gate_None [OF g] index_iff_branch' [OF c] by blast
  have mu: "set (history_of t' target) = set (history_of t target) \<union> set (history_of t source)"
    "ascending (history_of t' target)"
    using merge_unites_histories [OF t r(1)] r(2) by simp_all
  let ?m' = "fold (\<lambda>(k, e). AList.update k e) es m"
  have m': "index_of t' target = Some ?m'" by (simp add: t' index_file_entries m)
  let ?u = "set_branch_state source Active (put_index target (fold AList.delete inserted) t')"
  have st: "map_of (branches t') source = Some (br_state_update (\<lambda>_. Merged target now) s)"
    by (simp add: t' branches_merged s)
  have ok: "revert_merge source target inserted t' = (Ok (), ?u)"
    using m' by (simp add: revert_merge_def st contains_key_def)
  have "history_of ?u target = filter (\<lambda>kv. fst kv \<notin> set inserted) (history_of t' target)"
    by (simp add: history_of_def index_put_index m' fold_del_filter sorted_entries_filter)
  also have "\<dots> = history_of t target"
  proof (rule ascending_unique)
    show "ascending (filter (\<lambda>kv. fst kv \<notin> set inserted) (history_of t' target))"
      using mu(2) by (rule ascending_filter)
    show "ascending (history_of t target)" by (rule ascending_history [OF c])
    have "kv = kv'" if "kv \<in> set (history_of t' target)" "kv' \<in> set (history_of t' target)"
      "fst kv = fst kv'" for kv kv'
      using that mu(2) by (metis ascending_iff distinct_map inj_onD)
    then show "set (filter (\<lambda>kv. fst kv \<notin> set inserted) (history_of t' target)) = set (history_of t target)"
      using mu(1) unfolding k by (auto simp: image_iff)
  qed
  finally have "history_of ?u target = history_of t target" .
  moreover have "history_of ?u x = history_of t x" if "x \<noteq> target" for x
    using that history_file_other [of x target es t]
    by (simp add: history_of_def index_put_index t')
  moreover have "map_of (branches ?u) x = map_of (branches t) x" for x
    using s by (cases s) (auto simp: branches_set_branch_state t' branches_merged)
  ultimately show ?thesis using ok by (metis put_index_fields(1) set_branch_state_fields(1) t' file_entries_fields(1))
qed

theorem revert_merge_undoes_merge_witness:
  "\<exists>u. revert_merge demo_branch main_branch [1]
      (snd (merge_branches (\<lambda>_. None) (\<lambda>_. []) 0 9 demo_branch main_branch (ThreeWay Manual) demo_4)) =
      (Ok (), u) \<and> history_of u main_branch = [(0, EventId 1), (2, EventId 4)]"
proof -
  let ?t' = "snd (merge_branches (\<lambda>_. None) (\<lambda>_. []) 0 9 demo_branch main_branch (ThreeWay Manual) demo_4)"
  have k: "set [1] = fst ` (set (history_of ?t' main_branch) - set (history_of demo_4 main_branch))"
  proof -
    have "set (history_of ?t' main_branch) - set (history_of demo_4 main_branch) = {(1, EventId 3)}"
      unfolding demo_merge_history demo_divergence by auto
    then show ?thesis by simp
  qed
  from revert_merge_undoes_merge [OF tl_ok_demo demo_merge _ k [unfolded demo_merge snd_conv]]
  show ?thesis by (auto simp: merge_success_def demo_divergence demo_merge)
qed

end
