(* ===== verification/Timeline_Conflict_Props.thy ===== *)
theory Timeline_Conflict_Props
  imports Timeline_Merge_Props
begin

text \<open>
  The conflict taxonomy of a divergent merge: what \<open>index_subjects_by_role\<close> collects, what
  \<open>classify_subject_conflict\<close> makes of it, and where it departs from its documentation.
\<close>

section \<open>The index of roles\<close>

definition last_with :: "(timeline_event \<Rightarrow> bool) \<Rightarrow> timeline_event list \<Rightarrow> timeline_event option" where
  "last_with P evs = List.find P (rev evs)"

lemma last_with_simps [simp]:
  "last_with P [] = None"
  "last_with P (evs @ [ev]) = (if P ev then Some ev else last_with P evs)"
  by (simp_all add: last_with_def)

lemma last_with_Some: "last_with P evs = Some ev \<Longrightarrow> ev \<in> set evs \<and> P ev"
  by (auto simp: last_with_def find_Some_iff) (metis nth_mem length_rev set_rev)

lemma last_with_None: "last_with P evs = None \<longleftrightarrow> (\<forall>ev \<in> set evs. \<not> P ev)"
  by (auto simp: last_with_def find_None_iff)

abbreviation names :: "(affected_subjects \<Rightarrow> conflict_subject list) \<Rightarrow> conflict_subject \<Rightarrow>
    timeline_event \<Rightarrow> bool" where
  "names f s ev \<equiv> s \<in> set (f (get_affected_subjects (te_operation ev)))"

definition role_of :: "timeline_event list \<Rightarrow> conflict_subject \<Rightarrow> subject_role" where
  "role_of evs s =
     \<lparr>deleted_by = last_with (names as_deleted s) evs,
      touched_by = last_with (names as_touched s) evs,
      required_by = last_with (names as_required s) evs\<rparr>"

definition the_role :: "role_index \<Rightarrow> conflict_subject \<Rightarrow> subject_role" where
  "the_role index s = (case map_of index s of None \<Rightarrow> no_role | Some r \<Rightarrow> r)"

lemma the_role_fold:
  assumes "\<And>r. f (f r) = f r"
  shows "the_role (fold (update_role f) ss index) s = (if s \<in> set ss then f (the_role index s) else the_role index s)"
    and "map_of (fold (update_role f) ss index) s = None \<longleftrightarrow> s \<notin> set ss \<and> map_of index s = None"
  by (induction ss arbitrary: index)
    (auto simp: update_role_def the_role_def dm.get_put assms split: option.splits)

lemma dmap_ok_fold_role: "dmap_ok index \<Longrightarrow> dmap_ok (fold (update_role f) ss index)"
  by (induction ss arbitrary: index) (auto simp: update_role_def)

lemma the_role_event:
  "the_role (index_event ev index) s =
     (let r = the_role index s;
          r = (if names as_deleted s ev then r\<lparr>deleted_by := Some ev\<rparr> else r);
          r = (if names as_touched s ev then r\<lparr>touched_by := Some ev\<rparr> else r)
      in if names as_required s ev then r\<lparr>required_by := Some ev\<rparr> else r)"
  by (simp add: index_event_def Let_def the_role_fold)

lemma role_index:
  "the_role (index_subjects_by_role evs) s = role_of evs s \<and>
   (map_of (index_subjects_by_role evs) s = None \<longleftrightarrow> role_of evs s = no_role) \<and>
   dmap_ok (index_subjects_by_role evs)"
proof (induction evs rule: rev_induct)
  case Nil
  show ?case by (simp add: index_subjects_by_role_def the_role_def role_of_def no_role_def)
next
  case (snoc ev evs)
  have i: "index_subjects_by_role (evs @ [ev]) = index_event ev (index_subjects_by_role evs)"
    by (simp add: index_subjects_by_role_def)
  have "the_role (index_subjects_by_role (evs @ [ev])) s = role_of (evs @ [ev]) s"
    unfolding i the_role_event using snoc by (simp add: role_of_def Let_def)
  moreover have "map_of (index_subjects_by_role (evs @ [ev])) s = None \<longleftrightarrow> role_of (evs @ [ev]) s = no_role"
    unfolding i using snoc
    by (auto simp: index_event_def Let_def the_role_fold role_of_def no_role_def)
  moreover have "dmap_ok (index_subjects_by_role (evs @ [ev]))"
    unfolding i index_event_def Let_def using snoc by (intro dmap_ok_fold_role) simp
  ultimately show ?case by simp
qed

lemma role_index_Some:
  "map_of (index_subjects_by_role evs) s = Some r \<longleftrightarrow> r = role_of evs s \<and> role_of evs s \<noteq> no_role"
  using role_index [of evs s] by (auto simp: the_role_def split: option.splits)

lemma map_filter_set: "set (List.map_filter f xs) = {y. \<exists>x \<in> set xs. f x = Some y}"
  by (induction xs) (auto simp: List.map_filter_simps split: option.splits)

lemma conflicts_iff:
  "c \<in> set (classify_divergence_conflicts ser sh source_only target_only) \<longleftrightarrow>
   (\<exists>s kind es et. classify_subject_conflict ser (role_of source_only s) (role_of target_only s) =
        Some (kind, es, et) \<and> role_of source_only s \<noteq> no_role \<and> role_of target_only s \<noteq> no_role \<and>
      c = \<lparr>mc_subject = s, mc_type = kind, mc_source_event = Some es, mc_target_event = Some et,
           mc_resolution = None\<rparr>)"
proof -
  have "c \<in> set (classify_divergence_conflicts ser sh source_only target_only) \<longleftrightarrow>
      (\<exists>s r. (s, r) \<in> set (index_subjects_by_role source_only) \<and>
         conflict_for ser (index_subjects_by_role target_only) (s, r) = Some c)"
    by (auto simp: classify_divergence_conflicts_def map_filter_set)
  also have "\<dots> \<longleftrightarrow> (\<exists>s. role_of source_only s \<noteq> no_role \<and>
      conflict_for ser (index_subjects_by_role target_only) (s, role_of source_only s) = Some c)"
    using role_index_Some [of source_only] role_index [of source_only]
    by (metis map_of_eq_Some_iff)
  also have "\<dots> \<longleftrightarrow> (\<exists>s kind es et. classify_subject_conflict ser (role_of source_only s) (role_of target_only s) =
        Some (kind, es, et) \<and> role_of source_only s \<noteq> no_role \<and> role_of target_only s \<noteq> no_role \<and>
      c = \<lparr>mc_subject = s, mc_type = kind, mc_source_event = Some es, mc_target_event = Some et,
           mc_resolution = None\<rparr>)"
    by (fastforce simp: conflict_for_def role_index_Some split: option.splits)
  finally show ?thesis .
qed

section \<open>What is reported\<close>

definition named_in :: "conflict_subject \<Rightarrow> timeline_event \<Rightarrow> bool" where
  "named_in s ev \<longleftrightarrow> names as_deleted s ev \<or> names as_touched s ev \<or> names as_required s ev"

definition written_in :: "conflict_subject \<Rightarrow> timeline_event \<Rightarrow> bool" where
  "written_in s ev \<longleftrightarrow> names as_deleted s ev \<or> names as_touched s ev"

lemma classify_cases:
  assumes "classify_subject_conflict ser a b = Some (kind, es, et)"
  shows "kind = DeleteModify \<and> deleted_by a = Some es \<and> touched_by b = Some et \<or>
    kind = DependencyConflict \<and> deleted_by a = Some es \<and> required_by b = Some et \<or>
    kind = DeleteModify \<and> touched_by a = Some es \<and> deleted_by b = Some et \<or>
    kind = DependencyConflict \<and> required_by a = Some es \<and> deleted_by b = Some et \<or>
    kind = ConcurrentModification \<and> touched_by a = Some es \<and> touched_by b = Some et \<and>
      \<not> operations_identical ser (te_operation es) (te_operation et)"
  using assms unfolding classify_subject_conflict_def
  by (auto split: if_splits option.splits)

text \<open>Every reported conflict carries its witnesses: one event of each side that names the
  subject, at least one of which writes or deletes it. Two sides that only read a subject never
  conflict over it, and the report is in the order of the subjects' display form.\<close>

theorem conflicts_have_witnesses:
  assumes "c \<in> set (classify_divergence_conflicts ser sh source_only target_only)"
  shows "\<exists>es \<in> set source_only. \<exists>et \<in> set target_only.
      mc_source_event c = Some es \<and> mc_target_event c = Some et \<and>
      named_in (mc_subject c) es \<and> named_in (mc_subject c) et \<and>
      (written_in (mc_subject c) es \<or> written_in (mc_subject c) et) \<and>
      mc_type c \<in> {ConcurrentModification, DeleteModify, DependencyConflict} \<and>
      mc_resolution c = None"
proof -
  obtain s kind es et where
    k: "classify_subject_conflict ser (role_of source_only s) (role_of target_only s) = Some (kind, es, et)"
    and c: "c = \<lparr>mc_subject = s, mc_type = kind, mc_source_event = Some es, mc_target_event = Some et,
           mc_resolution = None\<rparr>"
    using assms unfolding conflicts_iff by blast
  show ?thesis
    using classify_cases [OF k]
    by (auto simp: c role_of_def named_in_def written_in_def dest!: last_with_Some)
qed


text \<open>A pair of events on which the two properties are instantiated.\<close>

lemma demo_conflict:
  "classify_divergence_conflicts (\<lambda>_. None) (\<lambda>_. []) [demo_event 4 1 demo_branch] [demo_event 4 2 main_branch] =
     [\<lparr>mc_subject = Entity (EntityId 4), mc_type = ConcurrentModification,
       mc_source_event = Some (demo_event 4 1 demo_branch),
       mc_target_event = Some (demo_event 4 2 main_branch), mc_resolution = None\<rparr>]"
  by (simp add: classify_divergence_conflicts_def index_subjects_by_role_def index_event_def subjects_def
      update_role_def conflict_for_def List.map_filter_simps Let_def classify_subject_conflict_def
      no_role_def operations_identical_def)

theorem conflicts_have_witnesses_witness:
  "named_in (Entity (EntityId 4)) (demo_event 4 1 demo_branch)"
proof -
  let ?c = "\<lparr>mc_subject = Entity (EntityId 4), mc_type = ConcurrentModification,
       mc_source_event = Some (demo_event 4 1 demo_branch),
       mc_target_event = Some (demo_event 4 2 main_branch), mc_resolution = None\<rparr>"
  have "?c \<in> set (classify_divergence_conflicts (\<lambda>_. None) (\<lambda>_. []) [demo_event 4 1 demo_branch]
      [demo_event 4 2 main_branch])"
    by (simp add: demo_conflict del: One_nat_def)
  from conflicts_have_witnesses [OF this] show ?thesis by simp
qed


lemma operations_identical_sym: "operations_identical ser a b = operations_identical ser b a"
  by (auto simp: operations_identical_def split: option.splits)

lemma classify_None_sym:
  "classify_subject_conflict ser a b = None \<longleftrightarrow> classify_subject_conflict ser b a = None"
  unfolding classify_subject_conflict_def
  by (cases "deleted_by a"; cases "deleted_by b"; cases "touched_by a"; cases "touched_by b";
      cases "required_by a"; cases "required_by b") (simp_all add: operations_identical_sym)

text \<open>Whether a subject is in conflict does not depend on which side is the source: swapping the
  two sides reports the same subjects, provided the comparison of serialised operations is
  symmetric, as it is.\<close>

theorem conflict_subjects_symmetric:
  "mc_subject ` set (classify_divergence_conflicts ser sh xs ys) =
   mc_subject ` set (classify_divergence_conflicts ser sh ys xs)"
proof -
  have e: "mc_subject ` set (classify_divergence_conflicts ser sh xs ys) =
      {s. classify_subject_conflict ser (role_of xs s) (role_of ys s) \<noteq> None \<and>
          role_of xs s \<noteq> no_role \<and> role_of ys s \<noteq> no_role}" for xs ys
  proof -
    have "s \<in> mc_subject ` set (classify_divergence_conflicts ser sh xs ys) \<longleftrightarrow>
        (\<exists>kind es et. classify_subject_conflict ser (role_of xs s) (role_of ys s) = Some (kind, es, et)) \<and>
          role_of xs s \<noteq> no_role \<and> role_of ys s \<noteq> no_role" for s
      unfolding image_iff Bex_def conflicts_iff
      by (auto; metis merge_conflict.select_convs(1))
    then show ?thesis
      unfolding set_eq_iff mem_Collect_eq by (metis not_None_eq option.distinct(1) prod_cases3)
  qed
  show ?thesis unfolding e by (rule Collect_cong) (metis classify_None_sym)
qed

section \<open>Where the code departs from its documentation\<close>

definition bare_event :: "nat \<Rightarrow> operation \<Rightarrow> timeline_event" where
  "bare_event seq op = new_event (\<lambda>_. None) (EventId (of_nat seq)) 0 seq op System main_branch None"

lemma bare_event_operation [simp]: "te_operation (bare_event seq op) = op"
  by (simp add: bare_event_def)

lemmas classify_eval = classify_divergence_conflicts_def index_subjects_by_role_def index_event_def
  subjects_def update_role_def conflict_for_def List.map_filter_simps Let_def
  classify_subject_conflict_def no_role_def

text \<open>The taxonomy judges a side by any write it made, not by its final state. When both sides
  delete a subject, a write that one of them made before deleting is still reported as a
  delete/modify conflict, although both end with the subject gone; and the type of a conflict can
  depend on which branch is called the source.\<close>

theorem delete_after_write_still_conflicts:
  "map mc_type (classify_divergence_conflicts ser sh
     [bare_event 1 (Modify x []), bare_event 2 (Delete [x])] [bare_event 3 (Delete [x])]) = [DeleteModify] \<and>
   map mc_type (classify_divergence_conflicts ser sh
     [bare_event 1 (Modify x []), bare_event 2 (Delete [x])]
     [bare_event 3 (Extrude x d v), bare_event 4 (Delete [x])]) = [DependencyConflict] \<and>
   map mc_type (classify_divergence_conflicts ser sh
     [bare_event 3 (Extrude x d v), bare_event 4 (Delete [x])]
     [bare_event 1 (Modify x []), bare_event 2 (Delete [x])]) = [DeleteModify]"
  by (simp add: classify_eval)

definition deleting_op :: operation where
  "deleting_op = Generic ''delete_solid'' (Json_Object [(''deleted'', Json_Array [Json_String ''solid:7''])])"

definition modifying_op :: operation where
  "modifying_op = Generic ''fillet_edges''
     (Json_Object [(''inputs'', Json_Array [Json_String ''solid:7'']),
                   (''outputs'', Json_Array [Json_String ''solid:7''])])"

text \<open>A deletion recorded by the kernel is invisible to the conflict detection: an event whose
  envelope lists a solid under \<open>deleted\<close> is given that solid in its typed \<open>deleted\<close> channel when it
  is appended, yet a divergent merge with a branch that modified the same solid finds no conflict.\<close>

theorem kernel_deletes_never_conflict:
  "deleted (snd (lineage_channels pu deleting_op)) = [encode Solid 7] \<and>
   modified (snd (lineage_channels pu modifying_op)) = [encode Solid 7] \<and>
   classify_divergence_conflicts ser sh [bare_event 1 deleting_op] [bare_event 2 modifying_op] = []"
  by (simp add: deleting_op_def modifying_op_def lineage_channels_def project_envelope_def
      read_channel_def wire_list_def parse_channel_def deleted_entry_def parse_ref_solid
      classify_eval parse_ref_array_def)

section \<open>Two scenarios\<close>

definition branch_a :: branch_id where "branch_a = BranchId 10"
definition branch_c :: branch_id where "branch_c = BranchId 12"

lemma scenario_branches [simp]:
  "branch_a \<noteq> main_branch" "main_branch \<noteq> branch_a" "branch_c \<noteq> main_branch"
  "main_branch \<noteq> branch_c" "branch_a \<noteq> branch_c" "branch_c \<noteq> branch_a"
  by (simp_all add: branch_a_def branch_c_def main_branch_def)

definition demo_create :: "branch_id \<Rightarrow> branch_id \<Rightarrow> timeline \<Rightarrow> timeline" where
  "demo_create b parent t = snd (create_branch b 0 ''b'' parent None System (BugFix ''b'') t)"

definition forked :: "branch_id \<Rightarrow> branch_id \<Rightarrow> nat \<Rightarrow> branch" where
  "forked b parent k =
     \<lparr>br_id = b, br_name = ''b'',
      br_fork_point = \<lparr>fp_branch_id = parent, fp_event_index = k, fp_timestamp = 0\<rparr>,
      br_parent = Some parent, br_events = [], br_state = Active,
      br_metadata = \<lparr>created_by = System, created_at = 0, purpose = BugFix ''b'',
                     branch_ai_context = None, checkpoint_ids = []\<rparr>,
      protected = False, hidden = False\<rparr>"

lemma forked_fields [simp]:
  "br_state (forked b p k) = Active" "br_parent (forked b p k) = Some p" "br_id (forked b p k) = b"
  "fp_event_index (br_fork_point (forked b p k)) = k"
  by (simp_all add: forked_def)

text \<open>A branch forked from a branch: \<open>main\<close> holds events 1 and 2, \<open>a\<close> was forked after event 1 and
  recorded event 3, which was merged into \<open>main\<close>; \<open>c\<close> was forked from \<open>a\<close> and holds events 1 and
  3. \<open>main\<close> therefore holds everything \<open>c\<close> holds.\<close>

definition nested_forks :: timeline where
  "nested_forks =
     snd (merge_branches (\<lambda>_. None) (\<lambda>_. []) 0 5 branch_a main_branch (ThreeWay Manual)
       (demo_create branch_c branch_a
         (demo_append 3 branch_a
           (demo_append 2 main_branch
             (demo_create branch_a main_branch (demo_append 1 main_branch (new_timeline 0)))))))"

lemma demo_append_eval:
  assumes "map_of (branches t) b = Some br" "br_state br = Active" "index_of t b = Some m"
    "map_of (applied_heads t) b = None" "event_counter t + 1 < u64_bound"
  shows "demo_append n b t =
    index_event_entities (EventId (of_nat n)) (te_inputs (demo_event n (event_counter t) b)) default_outputs
      (put_index b (AList.update (event_counter t) (EventId (of_nat n)))
        (t\<lparr>events := AList.update (EventId (of_nat n)) (demo_event n (event_counter t) b) (events t),
           event_counter := event_counter t + 1\<rparr>))
    \<lparr>active_operations := AList.update (EventId (of_nat n)) Validating (active_operations t)\<rparr>"
  using assms
  by (simp add: demo_append_def append_internal_def discard_redo_tail_def applied_head_def
      contains_key_def reserve_sequence_number_def wrapping_succ_no_wrap insert_event_def Let_def
      demo_event_def [symmetric] put_index_def index_event_entities_def)

lemmas scenario_eval = demo_create_def create_branch_def new_timeline_def demo_append_eval u64_bound_def
  contains_key_def Let_def get_branch_head_def put_index_def modify_entry_def index_event_entities_def
  forked_def [symmetric] default_outputs_def merge_branches_def merge_gate_def branch_sequence_def
  sorted_entries_def events_for_def List.map_filter_simps up_to_date_def can_fast_forward_def
  common_prefix_len_def classify_eval set_branch_state_def file_entries_def

lemma nested_forks_eq:
  "events nested_forks =
     [(EventId 1, demo_event 1 0 main_branch), (EventId 2, demo_event 2 1 main_branch),
      (EventId 3, demo_event 3 2 branch_a)] \<and>
   branch_events nested_forks =
     [(main_branch, [(0, EventId 1), (1, EventId 2), (2, EventId 3)]),
      (branch_a, [(0, EventId 1), (2, EventId 3)]), (branch_c, [(0, EventId 1), (2, EventId 3)])] \<and>
   branches nested_forks =
     [(main_branch, main_branch_record 0),
      (branch_a, forked branch_a main_branch 0\<lparr>br_state := Merged main_branch 5\<rparr>),
      (branch_c, forked branch_c branch_a 2)] \<and>
   event_counter nested_forks = 3 \<and> applied_heads nested_forks = []"
  by (simp add: nested_forks_def scenario_eval) (simp add: eval_nat_numeral)

text \<open>"Up to date" is decided by position, not by containment. A target that already holds every
  event of the source, through an earlier merge of the source's parent, is reported as diverged, a
  fast-forward-only merge of it is refused, and an event both sides hold is set against the source's
  later work on it: a change made on top of event 3 is reported as a concurrent modification with
  event 3 itself.\<close>

theorem contained_source_reported_diverged:
  "set (history_of nested_forks branch_c) \<subseteq> set (history_of nested_forks main_branch) \<and>
   fst (merge_branches ser sh el now branch_c main_branch FastForward nested_forks) =
     Err (BranchConflict (Diverged branch_c main_branch 1 1 2)) \<and>
   map_sum id (\<lambda>p. map (\<lambda>c. (mc_subject c, mc_type c, map_option te_id (mc_target_event c))) (mp_conflicts p))
     (preview_merge (\<lambda>op. Some (Json_String (if op = Modify (EntityId 3) [] then [] else ''x''))) sh
        branch_c main_branch
        (snd (append_internal (\<lambda>_. None) (EventId 9) 9 (Modify (EntityId 3) [SetVisible True]) System
                branch_c None None nested_forks))) =
     Ok [(Entity (EntityId 3), ConcurrentModification, Some (EventId 3))]"
  using nested_forks_eq
  by (simp add: history_of_def scenario_eval preview_merge_def append_eval operations_identical_def
      List.map_filter_def)

text \<open>An undo on \<open>main\<close>: it holds events 1, 3 and 4, of which 1 and 3 are applied; a branch forked
  after event 1 recorded event 2.\<close>

definition redo_tail :: timeline where
  "redo_tail =
     snd (set_applied_head main_branch 2
       (demo_append 4 main_branch
         (demo_append 3 main_branch
           (demo_append 2 branch_a
             (demo_create branch_a main_branch (demo_append 1 main_branch (new_timeline 0)))))))"

lemma redo_tail_eq:
  "events redo_tail =
     [(EventId 1, demo_event 1 0 main_branch), (EventId 2, demo_event 2 1 branch_a),
      (EventId 3, demo_event 3 2 main_branch), (EventId 4, demo_event 4 3 main_branch)] \<and>
   branch_events redo_tail =
     [(main_branch, [(0, EventId 1), (2, EventId 3), (3, EventId 4)]),
      (branch_a, [(0, EventId 1), (1, EventId 2)])] \<and>
   branches redo_tail =
     [(main_branch, main_branch_record 0), (branch_a, forked branch_a main_branch 0)] \<and>
   event_counter redo_tail = 4 \<and> applied_heads redo_tail = [(main_branch, 2)] \<and>
   session_positions redo_tail = []"
  by (simp add: redo_tail_def set_applied_head_def scenario_eval) (simp add: eval_nat_numeral)

lemma tl_ok_demo_append:
  "tl_ok t \<Longrightarrow> map_of (events t) (EventId (of_nat n)) = None \<Longrightarrow> event_counter t + 1 < u64_bound \<Longrightarrow>
   tl_ok (demo_append n b t)"
  unfolding demo_append_def by (rule tl_ok_append) (simp_all add: can_append_def)

lemma tl_ok_redo_tail: "tl_ok redo_tail"
  unfolding redo_tail_def demo_create_def
  by (intro tl_ok_set_head tl_ok_demo_append tl_ok_create_branch new_timeline_ok;
      simp add: scenario_eval)

text \<open>A merge into a branch with a redo tail changes which events its applied head covers. The
  head is a count, the merged events are filed among the others by sequence number, and nothing
  moves the head: an event that was applied falls into the tail, and the next operation on the
  target discards it together with the undone one, although it was never undone.\<close>

theorem merge_under_redo_tail_loses_applied_event:
  "let m = merge_branches ser sh 0 6 branch_a main_branch (ThreeWay Manual) redo_tail;
       after = demo_append 5 main_branch (snd m)
   in take (applied_len redo_tail main_branch) (history_of redo_tail main_branch) =
        [(0, EventId 1), (2, EventId 3)] \<and>
      map_sum id mr_success (fst m) = Ok True \<and>
      take (applied_len (snd m) main_branch) (history_of (snd m) main_branch) =
        [(0, EventId 1), (1, EventId 2)] \<and>
      history_of after main_branch = [(0, EventId 1), (1, EventId 2), (4, EventId 5)]"
proof -
  let ?m = "merge_branches ser sh 0 6 branch_a main_branch (ThreeWay Manual) redo_tail"
  have m: "?m = (Ok (merge_success 0 [demo_event 2 1 branch_a]),
     set_branch_state branch_a (Merged main_branch 6) (file_entries main_branch [(1, EventId 2)] redo_tail))"
    using redo_tail_eq
    by (simp add: merge_branches_def merge_gate_def branch_sequence_def sorted_entries_def events_for_def
        List.map_filter_simps up_to_date_def can_fast_forward_def common_prefix_len_def classify_eval)
  have i: "branch_events (snd ?m) =
      [(main_branch, [(0, EventId 1), (2, EventId 3), (3, EventId 4), (1, EventId 2)]),
       (branch_a, [(0, EventId 1), (1, EventId 2)])]"
    "branches (snd ?m) = [(main_branch, main_branch_record 0),
       (branch_a, forked branch_a main_branch 0\<lparr>br_state := Merged main_branch 6\<rparr>)]"
    "events (snd ?m) = events redo_tail" "applied_heads (snd ?m) = [(main_branch, 2)]"
    "event_counter (snd ?m) = 4" "session_positions (snd ?m) = []"
    unfolding m using redo_tail_eq
    by (simp_all add: file_entries_def put_index_def modify_entry_def set_branch_state_def)
  have c: "can_append (EventId (of_nat 5)) None (snd ?m)"
    using i redo_tail_eq by (simp add: can_append_def u64_bound_def)
  have "tl_ok (snd ?m)" by (rule tl_ok_merge [OF tl_ok_redo_tail])
  note app = append_internal_history [OF this c]
  have a: "history_of (demo_append 5 main_branch (snd ?m)) main_branch =
      [(0, EventId 1), (1, EventId 2), (4, EventId 5)]"
    unfolding demo_append_def using app [of main_branch "main_branch_record 0"] i
    by (simp add: applied_len_def applied_count_def applied_head_def history_of_def sorted_entries_def)
  show ?thesis
    using i redo_tail_eq a
    by (simp add: Let_def applied_len_def applied_count_def applied_head_def history_of_def
        sorted_entries_def) (simp add: m merge_success_def)
qed

end
