(* ===== verification/Verdict.thy ===== *)
theory Verdict
  imports Timeline_Merge "HOL-Library.Multiset"
begin

text \<open>
  \<^verbatim>\<open>verdict-harness/src/types.rs\<close> and \<^verbatim>\<open>resolver.rs\<close>: proposals, votes, outcomes and
  the four policies that decide a proposal from its votes. The trait \<^verbatim>\<open>VerdictResolver\<close> is
  the locale \<open>verdict_resolver\<close>: besides the function it names, what its users rely on, namely
  that a proposal carries its own mutation and that the order in which the agents voted does not
  matter. \<open>policy\<close> is the sum of the implementations the crate ships, and the locale is
  interpreted on every one of them.

  A reason is not rendered: \<open>reject_reason\<close> has one constructor per \<^verbatim>\<open>format!\<close> call.
  Counts are lengths of lists of votes and cannot reach the width of \<^verbatim>\<open>usize\<close>; the sum
  \<^verbatim>\<open>approvals + remaining\<close> is at most the larger of \<^verbatim>\<open>total\<close> and the number of
  approvals, so it does not wrap either.
\<close>

section \<open>Carriers\<close>

definition VERDICT_COMMIT_COMMAND :: string where
  "VERDICT_COMMIT_COMMAND = ''verdict.commit''"

type_synonym agent_id = author

datatype proposal_id = ProposalId (pid_uuid: uuid)

datatype shared_branch_id = SharedBranchId uuid

datatype proposal_target = Target_Entity uuid | Target_Branch shared_branch_id | Global

record proposal =
  prop_id :: proposal_id
  prop_agent :: agent_id
  mutation :: json
  prop_target :: proposal_target

datatype vote_decision = Approve | Reject | Abstain

record vote =
  vote_agent :: agent_id
  decision :: vote_decision

datatype reject_reason =
    Quorum_unreachable nat nat nat nat nat nat
  | Vetoed_by agent_id
  | Rejected_by_lead agent_id

datatype verdict_outcome = Resolved json | Rejected reject_reason | Pending

datatype outcome_kind = Kind_Resolved | Kind_Rejected | Kind_Pending

fun kind :: "verdict_outcome \<Rightarrow> outcome_kind" where
  "kind (Resolved _) = Kind_Resolved"
| "kind (Rejected _) = Kind_Rejected"
| "kind Pending = Kind_Pending"

datatype verdict_error =
    InvalidQuorum nat nat
  | EmptyQuorum
  | EmptyParticipants
  | UnknownProposal proposal_id
  | PendingNotConvertible

text \<open>The bridge into the merge vocabulary of the timeline.\<close>

fun try_from :: "verdict_outcome \<Rightarrow> (verdict_error, conflict_resolution) result" where
  "try_from (Resolved m) = Ok (Custom_Resolution (Generic VERDICT_COMMIT_COMMAND m))"
| "try_from (Rejected _) = Ok Skip"
| "try_from Pending = Err PendingNotConvertible"

lemma kind_simps [simp]:
  "kind v = Kind_Pending \<longleftrightarrow> v = Pending"
  "kind v = Kind_Resolved \<longleftrightarrow> (\<exists>m. v = Resolved m)"
  "kind v = Kind_Rejected \<longleftrightarrow> (\<exists>r. v = Rejected r)"
  by (cases v; simp)+

text \<open>Proposals are processed in the order of their identifiers.\<close>

instantiation proposal_id :: linorder
begin

definition less_eq_proposal_id :: "proposal_id \<Rightarrow> proposal_id \<Rightarrow> bool" where
  "less_eq_proposal_id p q \<longleftrightarrow> pid_uuid p \<le> pid_uuid q"

definition less_proposal_id :: "proposal_id \<Rightarrow> proposal_id \<Rightarrow> bool" where
  "less_proposal_id p q \<longleftrightarrow> pid_uuid p < pid_uuid q"

instance
  by standard (auto simp: less_eq_proposal_id_def less_proposal_id_def proposal_id.expand)

end

section \<open>Agents\<close>

fun agents_match :: "agent_id \<Rightarrow> agent_id \<Rightarrow> bool" where
  "agents_match (User id_a _) (User id_b _) = (id_a = id_b)"
| "agents_match (AIAgent id_a _) (AIAgent id_b _) = (id_a = id_b)"
| "agents_match System System = True"
| "agents_match _ _ = False"

text \<open>Matching agents are those that agree on the variant and the identifier.\<close>

fun agent_key :: "agent_id \<Rightarrow> nat \<times> string" where
  "agent_key (User i _) = (0, i)"
| "agent_key (AIAgent i _) = (1, i)"
| "agent_key System = (2, [])"

lemma agents_match_key: "agents_match a b \<longleftrightarrow> agent_key a = agent_key b"
  by (cases a; cases b) auto

abbreviation voter :: "vote \<Rightarrow> nat \<times> string" where
  "voter v \<equiv> agent_key (vote_agent v)"

definition one_vote_each :: "vote list \<Rightarrow> bool" where
  "one_vote_each votes = distinct (map voter votes)"

section \<open>The policies\<close>

definition count_votes :: "vote_decision \<Rightarrow> vote list \<Rightarrow> nat" where
  "count_votes d votes = length (filter (\<lambda>v. decision v = d) votes)"

definition deterministic_resolve :: "proposal \<Rightarrow> vote list \<Rightarrow> verdict_outcome" where
  "deterministic_resolve p votes = Resolved (mutation p)"

record quorum_resolver =
  required :: nat
  total :: nat

definition new_quorum :: "nat \<Rightarrow> nat \<Rightarrow> (verdict_error, quorum_resolver) result" where
  "new_quorum req tot =
     (if req = 0 then Err EmptyQuorum
      else if tot = 0 then Err EmptyParticipants
      else if tot < req then Err (InvalidQuorum req tot)
      else Ok \<lparr>required = req, total = tot\<rparr>)"

definition quorum_resolve :: "quorum_resolver \<Rightarrow> proposal \<Rightarrow> vote list \<Rightarrow> verdict_outcome" where
  "quorum_resolve q p votes =
     (let approvals = count_votes Approve votes;
          rejections = count_votes Reject votes;
          abstains = count_votes Abstain votes
      in if required q \<le> approvals then Resolved (mutation p)
         else
           let consumed = approvals + rejections + abstains;
               remaining = total q - consumed
           in if approvals + remaining < required q
              then Rejected (Quorum_unreachable approvals rejections abstains remaining
                               (total q) (required q))
              else Pending)"

record veto_resolver =
  participants :: nat

definition new_veto :: "nat \<Rightarrow> (verdict_error, veto_resolver) result" where
  "new_veto n = (if n = 0 then Err EmptyParticipants else Ok \<lparr>participants = n\<rparr>)"

definition veto_resolve :: "veto_resolver \<Rightarrow> proposal \<Rightarrow> vote list \<Rightarrow> verdict_outcome" where
  "veto_resolve r p votes =
     (case find (\<lambda>v. decision v = Reject) votes of
        Some rejector \<Rightarrow> Rejected (Vetoed_by (vote_agent rejector))
      | None \<Rightarrow>
          if participants r \<le> count_votes Approve votes then Resolved (mutation p) else Pending)"

record authority_resolver =
  lead :: agent_id

definition authority_resolve :: "authority_resolver \<Rightarrow> proposal \<Rightarrow> vote list \<Rightarrow> verdict_outcome" where
  "authority_resolve r p votes =
     (case map_option decision (find (\<lambda>v. agents_match (vote_agent v) (lead r)) (rev votes)) of
        Some Approve \<Rightarrow> Resolved (mutation p)
      | Some Reject \<Rightarrow> Rejected (Rejected_by_lead (lead r))
      | Some Abstain \<Rightarrow> Pending
      | None \<Rightarrow> Pending)"

datatype policy =
    Deterministic
  | Quorum quorum_resolver
  | Veto veto_resolver
  | Authority authority_resolver

fun resolve_with :: "policy \<Rightarrow> proposal \<Rightarrow> vote list \<Rightarrow> verdict_outcome" where
  "resolve_with Deterministic = deterministic_resolve"
| "resolve_with (Quorum q) = quorum_resolve q"
| "resolve_with (Veto r) = veto_resolve r"
| "resolve_with (Authority r) = authority_resolve r"

section \<open>The contract of a policy\<close>

locale verdict_resolver =
  fixes resolve :: "proposal \<Rightarrow> vote list \<Rightarrow> verdict_outcome"
  assumes resolved_mutation: "resolve p votes = Resolved m \<Longrightarrow> m = mutation p"
    and order_irrelevant:
      "one_vote_each votes \<Longrightarrow> mset votes = mset votes' \<Longrightarrow>
       kind (resolve p votes) = kind (resolve p votes')"
begin

lemma resolved_iff: "kind (resolve p votes) = Kind_Resolved \<longleftrightarrow> resolve p votes = Resolved (mutation p)"
  using resolved_mutation [of p votes] by auto

text \<open>What a merge that asks the policy receives.\<close>

lemma custom_resolution_is_commit:
  "try_from (resolve p votes) = Ok (Custom_Resolution op) \<Longrightarrow>
   op = Generic VERDICT_COMMIT_COMMAND (mutation p)"
  using resolved_mutation [of p votes] by (cases "resolve p votes") auto

lemma perm_resolved:
  "one_vote_each votes \<Longrightarrow> mset votes = mset votes' \<Longrightarrow>
   resolve p votes = Resolved m \<Longrightarrow> resolve p votes' = Resolved m"
  using order_irrelevant [of votes votes' p] resolved_mutation [of p]
  by (metis kind_simps(2))

end

lemma count_votes_mset: "mset votes = mset votes' \<Longrightarrow> count_votes d votes = count_votes d votes'"
  unfolding count_votes_def by (metis mset_filter size_mset)

lemma count_votes_simps [simp]:
  "count_votes d [] = 0"
  "count_votes d (v # votes) = (if decision v = d then 1 else 0) + count_votes d votes"
  "count_votes d (votes @ ws) = count_votes d votes + count_votes d ws"
  by (simp_all add: count_votes_def)

lemma count_votes_total:
  "count_votes Approve votes + count_votes Reject votes + count_votes Abstain votes = length votes"
proof (induction votes)
  case (Cons v votes)
  then show ?case by (cases "decision v") auto
qed simp

lemma count_votes_le: "count_votes d votes \<le> length votes"
  by (simp add: count_votes_def)

lemma find_unique:
  assumes "distinct (map f xs)" "\<And>x y. P x \<Longrightarrow> P y \<Longrightarrow> f x = f y"
  shows "find P xs = Some v \<longleftrightarrow> v \<in> set xs \<and> P v"
  using assms(1)
proof (induction xs)
  case (Cons x xs)
  show ?case
  proof (cases "P x")
    case True
    then have "y \<notin> set xs" if "P y" for y
      using Cons.prems assms(2) [OF True that] by force
    then show ?thesis using True by auto
  next
    case False
    then show ?thesis using Cons by auto
  qed
qed simp

lemma find_agent_mset:
  assumes "one_vote_each votes" "mset votes = mset votes'"
  shows "find (\<lambda>v. agents_match (vote_agent v) a) votes = find (\<lambda>v. agents_match (vote_agent v) a) votes'"
proof -
  have "distinct (map voter votes')"
    using assms by (metis mset_eq_imp_distinct_iff mset_map one_vote_each_def)
  then have "find (\<lambda>v. agents_match (vote_agent v) a) votes = Some v \<longleftrightarrow>
             find (\<lambda>v. agents_match (vote_agent v) a) votes' = Some v" for v
    using assms find_unique [where f = voter and P = "\<lambda>v. agents_match (vote_agent v) a"]
    by (simp add: one_vote_each_def agents_match_key mset_eq_setD [OF assms(2)])
  then show ?thesis by (metis option.exhaust)
qed

lemma quorum_kind:
  "kind (quorum_resolve q p votes) =
     (if required q \<le> count_votes Approve votes then Kind_Resolved
      else if count_votes Approve votes + (total q - length votes) < required q
      then Kind_Rejected else Kind_Pending)"
  using count_votes_total [of votes] count_votes_le [of Approve votes]
  by (auto simp: quorum_resolve_def Let_def)

lemma veto_kind:
  "kind (veto_resolve r p votes) =
     (if 0 < count_votes Reject votes then Kind_Rejected
      else if participants r \<le> count_votes Approve votes then Kind_Resolved else Kind_Pending)"
proof -
  have "find (\<lambda>v. decision v = Reject) votes = None \<longleftrightarrow> count_votes Reject votes = 0"
    by (induction votes) auto
  then show ?thesis by (auto simp: veto_resolve_def split: option.splits)
qed

lemma resolve_with_mutation: "resolve_with pol p votes = Resolved m \<Longrightarrow> m = mutation p"
  by (cases pol)
    (auto simp: deterministic_resolve_def quorum_resolve_def veto_resolve_def authority_resolve_def Let_def
      split: if_splits option.splits vote_decision.splits)

lemma resolve_with_order:
  assumes "one_vote_each votes" "mset votes = mset votes'"
  shows "kind (resolve_with pol p votes) = kind (resolve_with pol p votes')"
proof (cases pol)
  case Deterministic
  then show ?thesis by (simp add: deterministic_resolve_def)
next
  case (Quorum q)
  then show ?thesis
    using count_votes_mset [OF assms(2)] mset_eq_length [OF assms(2)] by (simp add: quorum_kind)
next
  case (Veto r)
  then show ?thesis using count_votes_mset [OF assms(2)] by (simp add: veto_kind)
next
  case (Authority r)
  have "one_vote_each (rev votes)" "mset (rev votes) = mset (rev votes')"
    using assms by (simp_all add: one_vote_each_def rev_map [symmetric])
  then show ?thesis using find_agent_mset [of "rev votes" "rev votes'" "lead r"]
    by (simp add: Authority authority_resolve_def)
qed

interpretation pol: verdict_resolver "resolve_with pol" for pol
  by unfold_locales (rule resolve_with_mutation resolve_with_order, assumption+)+

end
