(* ===== verification/Verdict_Room.thy ===== *)
theory Verdict_Room
  imports Verdict
begin

text \<open>
  \<^verbatim>\<open>verdict-harness/src/room.rs\<close>: the room that collects proposals and votes and, on each
  tick, drains them through its policy into the canonical stream of operations.

  \<open>tick\<close> is the loop of the source over the identifiers in order. \<open>room_ok\<close> is the invariant
  of a room, and \<open>room_step\<close> the system of its operations: a proposal under a fresh identifier
  (\<^verbatim>\<open>Uuid::new_v4\<close>), a vote, a tick.
\<close>

section \<open>The room\<close>

record verdict_record =
  proposal_id :: proposal_id
  outcome :: verdict_outcome
  committed_op_index :: "nat option"

record room_simulator =
  canonical :: "operation list"
  pending :: "(proposal_id, proposal \<times> vote list) dmap"
  last_outcome :: "(proposal_id, outcome_kind) dmap"
  resolver :: "proposal \<Rightarrow> vote list \<Rightarrow> verdict_outcome"
  history :: "verdict_record list"

definition new_room :: "(proposal \<Rightarrow> vote list \<Rightarrow> verdict_outcome) \<Rightarrow> room_simulator" where
  "new_room res = \<lparr>canonical = [], pending = [], last_outcome = [], resolver = res, history = []\<rparr>"

definition propose ::
  "proposal_id \<Rightarrow> agent_id \<Rightarrow> json \<Rightarrow> proposal_target \<Rightarrow> room_simulator \<Rightarrow>
   proposal_id \<times> room_simulator" where
  "propose fresh agent m target r =
     (let p = \<lparr>prop_id = fresh, prop_agent = agent, mutation = m, prop_target = target\<rparr>
      in (fresh, r\<lparr>pending := AList.update fresh (p, []) (pending r)\<rparr>))"

text \<open>The slot of a matching agent is overwritten, otherwise the vote is pushed.\<close>

fun record_vote :: "vote \<Rightarrow> vote list \<Rightarrow> vote list" where
  "record_vote v [] = [v]"
| "record_vote v (w # ws) =
     (if agents_match (vote_agent w) (vote_agent v) then v # ws else w # record_vote v ws)"

definition vote_on ::
  "proposal_id \<Rightarrow> vote \<Rightarrow> room_simulator \<Rightarrow> (verdict_error, unit) result \<times> room_simulator" where
  "vote_on i v r =
     (case map_of (pending r) i of
        None \<Rightarrow> (Err (UnknownProposal i), r)
      | Some _ \<Rightarrow>
          (Ok (), r\<lparr>pending := modify_entry i (\<lambda>(p, votes). (p, record_vote v votes)) (pending r)\<rparr>))"

definition close_proposal :: "proposal_id \<Rightarrow> room_simulator \<Rightarrow> room_simulator" where
  "close_proposal i r =
     r\<lparr>pending := AList.delete i (pending r), last_outcome := AList.delete i (last_outcome r)\<rparr>"

definition tick_one ::
  "proposal_id \<Rightarrow> room_simulator \<times> verdict_record list \<Rightarrow> room_simulator \<times> verdict_record list" where
  "tick_one i = (\<lambda>(r, produced).
     (case map_of (pending r) i of None \<Rightarrow> (r, produced)
      | Some (p, votes) \<Rightarrow>
          let out = resolver r p votes;
              is_transition = map_of (last_outcome r) i \<noteq> Some (kind out)
          in (case out of
                Resolved m \<Rightarrow>
                  let r1 = close_proposal i r;
                      r2 = r1\<lparr>canonical := canonical r1 @ [Generic VERDICT_COMMIT_COMMAND m]\<rparr>;
                      rec = \<lparr>proposal_id = i, outcome = Resolved m,
                             committed_op_index = Some (length (canonical r2) - 1)\<rparr>
                  in (r2\<lparr>history := history r2 @ [rec]\<rparr>, produced @ [rec])
              | Rejected reason \<Rightarrow>
                  let r1 = close_proposal i r;
                      rec = \<lparr>proposal_id = i, outcome = Rejected reason, committed_op_index = None\<rparr>
                  in (r1\<lparr>history := history r1 @ [rec]\<rparr>, produced @ [rec])
              | Pending \<Rightarrow>
                  if is_transition then
                    let r1 = r\<lparr>last_outcome := AList.update i Kind_Pending (last_outcome r)\<rparr>;
                        rec = \<lparr>proposal_id = i, outcome = Pending, committed_op_index = None\<rparr>
                    in (r1\<lparr>history := history r1 @ [rec]\<rparr>, produced @ [rec])
                  else (r, produced))))"

definition tick :: "room_simulator \<Rightarrow> room_simulator \<times> verdict_record list" where
  "tick r = fold tick_one (sort_key pid_uuid (dkeys (pending r))) (r, [])"

definition pending_len :: "room_simulator \<Rightarrow> nat" where
  "pending_len r = length (pending r)"

section \<open>What one tick does\<close>

text \<open>The verdict a proposal would receive now, whether it is news, and what news appends.\<close>

definition verdict_of :: "room_simulator \<Rightarrow> proposal_id \<Rightarrow> verdict_outcome option" where
  "verdict_of r i = map_option (\<lambda>(p, votes). resolver r p votes) (map_of (pending r) i)"

definition news :: "room_simulator \<Rightarrow> proposal_id \<Rightarrow> bool" where
  "news r i \<longleftrightarrow> (case verdict_of r i of None \<Rightarrow> False
     | Some Pending \<Rightarrow> map_of (last_outcome r) i \<noteq> Some Kind_Pending
     | Some _ \<Rightarrow> True)"

fun commit_of :: "verdict_outcome \<Rightarrow> operation list" where
  "commit_of (Resolved m) = [Generic VERDICT_COMMIT_COMMAND m]"
| "commit_of _ = []"

abbreviation commits :: "verdict_record list \<Rightarrow> operation list" where
  "commits recs \<equiv> concat (map (\<lambda>rec. commit_of (outcome rec)) recs)"

abbreviation stays :: "room_simulator \<Rightarrow> proposal_id \<Rightarrow> bool" where
  "stays r i \<equiv> verdict_of r i = Some Pending"

text \<open>The index a record carries is where its operation stands in the stream.\<close>

fun indexed :: "nat \<Rightarrow> verdict_record list \<Rightarrow> bool" where
  "indexed n [] = True"
| "indexed n (rec # recs) =
     ((case outcome rec of Resolved _ \<Rightarrow> committed_op_index rec = Some n | _ \<Rightarrow> committed_op_index rec = None) \<and>
      indexed (n + length (commit_of (outcome rec))) recs)"

lemma indexed_append:
  "indexed n (xs @ ys) \<longleftrightarrow> indexed n xs \<and> indexed (n + length (commits xs)) ys"
  by (induction xs arbitrary: n) (auto simp: add.assoc)

text \<open>One step, by the verdict it meets.\<close>

lemma tick_one_eq:
  "verdict_of r i = None \<Longrightarrow> tick_one i (r, produced) = (r, produced)"
  "verdict_of r i = Some (Resolved m) \<Longrightarrow>
   rec = \<lparr>proposal_id = i, outcome = Resolved m, committed_op_index = Some (length (canonical r))\<rparr> \<Longrightarrow>
   tick_one i (r, produced) =
     ((close_proposal i r)\<lparr>canonical := canonical r @ commit_of (Resolved m), history := history r @ [rec]\<rparr>,
      produced @ [rec])"
  "verdict_of r i = Some (Rejected reason) \<Longrightarrow>
   rec = \<lparr>proposal_id = i, outcome = Rejected reason, committed_op_index = None\<rparr> \<Longrightarrow>
   tick_one i (r, produced) = ((close_proposal i r)\<lparr>history := history r @ [rec]\<rparr>, produced @ [rec])"
  "verdict_of r i = Some Pending \<Longrightarrow>
   rec = \<lparr>proposal_id = i, outcome = Pending, committed_op_index = None\<rparr> \<Longrightarrow>
   tick_one i (r, produced) =
     (if news r i
      then (r\<lparr>last_outcome := AList.update i Kind_Pending (last_outcome r), history := history r @ [rec]\<rparr>,
            produced @ [rec])
      else (r, produced))"
  by (auto simp: tick_one_def verdict_of_def news_def close_proposal_def Let_def split: option.splits)

lemma tick_one_props:
  assumes "tick_one i (r, produced) = (r', out)"
  shows tick_one_resolver: "resolver r' = resolver r"
    and tick_one_records: "\<exists>recs. out = produced @ recs \<and> history r' = history r @ recs \<and>
           canonical r' = canonical r @ commits recs \<and> indexed (length (canonical r)) recs \<and>
           map (\<lambda>rec. (proposal_id rec, Some (outcome rec))) recs =
             (if news r i then [(i, verdict_of r i)] else [])"
    and tick_one_pending:
      "pending r' = (if stays r i then pending r else AList.delete i (pending r))"
    and tick_one_last: "map_of (last_outcome r') =
           (if stays r i then (map_of (last_outcome r))(i \<mapsto> Kind_Pending)
            else if verdict_of r i = None then map_of (last_outcome r)
            else (map_of (last_outcome r))(i := None))"
    and tick_one_last_keys: "distinct (dkeys (last_outcome r)) \<Longrightarrow> distinct (dkeys (last_outcome r'))"
proof -
  consider "verdict_of r i = None" | m where "verdict_of r i = Some (Resolved m)"
    | reason where "verdict_of r i = Some (Rejected reason)" | "verdict_of r i = Some Pending"
    by (metis option.exhaust verdict_outcome.exhaust)
  note cases = this
  have gone: "verdict_of r i = None \<Longrightarrow> AList.delete i (pending r) = pending r"
    by (simp add: verdict_of_def map_of_eq_None_iff)
  show "resolver r' = resolver r"
    by (rule cases) (use assms in \<open>auto simp: tick_one_eq close_proposal_def split: if_splits\<close>)
  show "\<exists>recs. out = produced @ recs \<and> history r' = history r @ recs \<and>
           canonical r' = canonical r @ commits recs \<and> indexed (length (canonical r)) recs \<and>
           map (\<lambda>rec. (proposal_id rec, Some (outcome rec))) recs =
             (if news r i then [(i, verdict_of r i)] else [])"
    by (rule cases)
      (use assms in \<open>auto simp: tick_one_eq close_proposal_def news_def split: if_splits\<close>)
  show "pending r' = (if stays r i then pending r else AList.delete i (pending r))"
    by (rule cases) (use assms gone in \<open>auto simp: tick_one_eq close_proposal_def split: if_splits\<close>)
  show "map_of (last_outcome r') =
           (if stays r i then (map_of (last_outcome r))(i \<mapsto> Kind_Pending)
            else if verdict_of r i = None then map_of (last_outcome r)
            else (map_of (last_outcome r))(i := None))"
    by (rule cases)
      (use assms in \<open>auto simp: tick_one_eq close_proposal_def news_def delete_conv' update_conv' fun_upd_idem
        split: if_splits\<close>)
  show "distinct (dkeys (last_outcome r)) \<Longrightarrow> distinct (dkeys (last_outcome r'))"
    by (rule cases) (use assms in \<open>auto simp: tick_one_eq close_proposal_def split: if_splits\<close>)
qed

lemma tick_one_frame:
  assumes "tick_one i (r, produced) = (r', out)" "j \<noteq> i"
  shows "verdict_of r' j = verdict_of r j" "news r' j = news r j"
proof -
  have p: "map_of (pending r') j = map_of (pending r) j"
    using tick_one_pending [OF assms(1)] assms(2) by (simp add: delete_conv')
  have l: "map_of (last_outcome r') j = map_of (last_outcome r) j"
    using tick_one_last [OF assms(1)] assms(2) by simp
  show v: "verdict_of r' j = verdict_of r j"
    by (simp add: verdict_of_def p tick_one_resolver [OF assms(1)])
  show "news r' j = news r j"
    unfolding news_def v l by (rule refl)
qed

lemma fold_tick:
  assumes "distinct ids" "fold tick_one ids (r, produced) = (r', out)"
  shows "resolver r' = resolver r \<and>
    (\<exists>recs. out = produced @ recs \<and> history r' = history r @ recs \<and>
       canonical r' = canonical r @ commits recs \<and> indexed (length (canonical r)) recs \<and>
       map (\<lambda>rec. (proposal_id rec, Some (outcome rec))) recs =
         map (\<lambda>i. (i, verdict_of r i)) (filter (news r) ids)) \<and>
    pending r' = filter (\<lambda>(i, _). i \<in> set ids \<longrightarrow> stays r i) (pending r) \<and>
    (\<forall>i. map_of (last_outcome r') i =
       (if i \<in> set ids \<and> stays r i then Some Kind_Pending
        else if i \<in> set ids \<and> verdict_of r i \<noteq> None then None
        else map_of (last_outcome r) i)) \<and>
    (distinct (dkeys (last_outcome r)) \<longrightarrow> distinct (dkeys (last_outcome r')))"
  using assms
proof (induction ids arbitrary: r produced)
  case Nil
  then show ?case by (simp add: case_prod_unfold)
next
  case (Cons i ids)
  obtain r1 out1 where one: "tick_one i (r, produced) = (r1, out1)" by fastforce
  have rest: "fold tick_one ids (r1, out1) = (r', out)" using Cons.prems one by simp
  have d: "distinct ids" and i: "i \<notin> set ids" using Cons.prems by auto
  note IH = Cons.IH [OF d rest]
  have frame: "verdict_of r1 j = verdict_of r j" "news r1 j = news r j" if "j \<in> set ids" for j
    using tick_one_frame [OF one] that i by metis+
  obtain recs1 where r1: "out1 = produced @ recs1" "history r1 = history r @ recs1"
      "canonical r1 = canonical r @ commits recs1" "indexed (length (canonical r)) recs1"
      "map (\<lambda>rec. (proposal_id rec, Some (outcome rec))) recs1 =
         (if news r i then [(i, verdict_of r i)] else [])"
    using tick_one_records [OF one] by blast
  obtain recs2 where r2: "out = out1 @ recs2" "history r' = history r1 @ recs2"
      "canonical r' = canonical r1 @ commits recs2" "indexed (length (canonical r1)) recs2"
      "map (\<lambda>rec. (proposal_id rec, Some (outcome rec))) recs2 =
         map (\<lambda>i. (i, verdict_of r1 i)) (filter (news r1) ids)"
    using IH by blast
  have ids: "map (\<lambda>i. (i, verdict_of r1 i)) (filter (news r1) ids) =
      map (\<lambda>i. (i, verdict_of r i)) (filter (news r) ids)"
    using frame by (auto cong: filter_cong)
  have recs: "\<exists>recs. out = produced @ recs \<and> history r' = history r @ recs \<and>
       canonical r' = canonical r @ commits recs \<and> indexed (length (canonical r)) recs \<and>
       map (\<lambda>rec. (proposal_id rec, Some (outcome rec))) recs =
         map (\<lambda>i. (i, verdict_of r i)) (filter (news r) (i # ids))"
    by (rule exI [of _ "recs1 @ recs2"]) (use r1 r2 ids in \<open>auto simp: indexed_append\<close>)
  have pend: "pending r' = filter (\<lambda>(j, _). j \<in> set (i # ids) \<longrightarrow> stays r j) (pending r)"
    using IH tick_one_pending [OF one] frame i
    by (auto simp: AList.delete_eq intro!: filter_cong)
  have last: "map_of (last_outcome r') j =
       (if j \<in> set (i # ids) \<and> stays r j then Some Kind_Pending
        else if j \<in> set (i # ids) \<and> verdict_of r j \<noteq> None then None
        else map_of (last_outcome r) j)" for j
    using IH tick_one_last [OF one] frame i by (cases "j \<in> set ids") auto
  show ?case
    using IH recs pend last tick_one_resolver [OF one] tick_one_last_keys [OF one] by simp
qed

abbreviation arrival :: "room_simulator \<Rightarrow> proposal_id list" where
  "arrival r \<equiv> sort_key pid_uuid (dkeys (pending r))"

lemma sort_key_ids: "sort_key pid_uuid xs = sort xs"
proof -
  have "sorted (sort_key pid_uuid xs)"
    using sorted_sort_key [of pid_uuid xs] by (simp add: sorted_map less_eq_proposal_id_def [abs_def])
  then show ?thesis by (metis mset_sort sorted_sort_id sorted_list_of_multiset_mset)
qed

lemma tick_spec:
  assumes "tick r = (r', recs)" "distinct (dkeys (pending r))"
  shows tick_resolver: "resolver r' = resolver r"
    and tick_history: "history r' = history r @ recs"
    and tick_canonical: "canonical r' = canonical r @ commits recs"
    and tick_indexed: "indexed (length (canonical r)) recs"
    and tick_records: "map (\<lambda>rec. (proposal_id rec, Some (outcome rec))) recs =
         map (\<lambda>i. (i, verdict_of r i)) (filter (news r) (arrival r))"
    and tick_pending: "pending r' = filter (\<lambda>e. stays r (fst e)) (pending r)"
    and tick_last: "map_of (last_outcome r') i =
       (if stays r i then Some Kind_Pending
        else if verdict_of r i \<noteq> None then None else map_of (last_outcome r) i)"
    and tick_last_keys: "distinct (dkeys (last_outcome r)) \<Longrightarrow> distinct (dkeys (last_outcome r'))"
proof -
  have d: "distinct (arrival r)" using assms(2) by simp
  note all = fold_tick [OF d, of r "[]" r' recs, folded tick_def, OF assms(1)]
  have keys: "i \<in> set (arrival r) \<longleftrightarrow> verdict_of r i \<noteq> None" for i
    by (simp add: verdict_of_def map_of_eq_None_iff)
  show "resolver r' = resolver r" "history r' = history r @ recs"
    "canonical r' = canonical r @ commits recs" "indexed (length (canonical r)) recs"
    "map (\<lambda>rec. (proposal_id rec, Some (outcome rec))) recs =
         map (\<lambda>i. (i, verdict_of r i)) (filter (news r) (arrival r))"
    "distinct (dkeys (last_outcome r)) \<Longrightarrow> distinct (dkeys (last_outcome r'))"
    using all by auto
  show "pending r' = filter (\<lambda>e. stays r (fst e)) (pending r)"
  proof -
    have "pending r' = filter (\<lambda>(i, _). i \<in> set (arrival r) \<longrightarrow> stays r i) (pending r)"
      using all by blast
    also have "\<dots> = filter (\<lambda>e. stays r (fst e)) (pending r)"
      by (rule filter_cong) force+
    finally show ?thesis .
  qed
  show "map_of (last_outcome r') i =
       (if stays r i then Some Kind_Pending
        else if verdict_of r i \<noteq> None then None else map_of (last_outcome r) i)"
    using all keys [of i] by auto
qed

section \<open>The life of a proposal\<close>

definition life :: "room_simulator \<Rightarrow> proposal_id \<Rightarrow> outcome_kind list" where
  "life r i = map (\<lambda>rec. kind (outcome rec)) (filter (\<lambda>rec. proposal_id rec = i) (history r))"

definition closed_life :: "outcome_kind list \<Rightarrow> bool" where
  "closed_life ks \<longleftrightarrow> ks \<in> {[], [Kind_Resolved], [Kind_Rejected], [Kind_Pending, Kind_Resolved],
     [Kind_Pending, Kind_Rejected]}"

definition life_ok :: "room_simulator \<Rightarrow> proposal_id \<Rightarrow> bool" where
  "life_ok r i \<longleftrightarrow>
     (if map_of (pending r) i = None
      then map_of (last_outcome r) i = None \<and> closed_life (life r i)
      else life r i = (if map_of (last_outcome r) i = Some Kind_Pending then [Kind_Pending] else []))"

definition room_ok :: "room_simulator \<Rightarrow> bool" where
  "room_ok r \<longleftrightarrow>
     distinct (dkeys (pending r)) \<and> distinct (dkeys (last_outcome r)) \<and>
     (\<forall>i p votes. map_of (pending r) i = Some (p, votes) \<longrightarrow> prop_id p = i \<and> one_vote_each votes) \<and>
     canonical r = commits (history r) \<and> indexed 0 (history r) \<and> (\<forall>i. life_ok r i)"

lemma outcomes_of:
  "map (\<lambda>rec. (proposal_id rec, Some (outcome rec))) recs = map (\<lambda>i. (i, v i)) ids \<Longrightarrow> distinct ids \<Longrightarrow>
   map outcome (filter (\<lambda>rec. proposal_id rec = i) recs) = (if i \<in> set ids then [the (v i)] else [])"
proof (induction recs arbitrary: ids)
  case (Cons rec recs)
  then obtain ids' where ids: "ids = proposal_id rec # ids'" "Some (outcome rec) = v (proposal_id rec)"
      "map (\<lambda>rec. (proposal_id rec, Some (outcome rec))) recs = map (\<lambda>i. (i, v i)) ids'"
    by (auto simp: Cons_eq_map_conv)
  then show ?case using Cons.IH [OF ids(3)] Cons.prems(2) by (auto simp: ids(2) [symmetric])
qed simp

lemma news_pending: "news r i \<Longrightarrow> i \<in> fst ` set (pending r)"
proof (rule ccontr)
  assume "news r i" "i \<notin> fst ` set (pending r)"
  then have "map_of (pending r) i = None" by (simp add: map_of_eq_None_iff)
  then have "verdict_of r i = None" unfolding verdict_of_def by (rule ssubst) simp
  then show False using \<open>news r i\<close> unfolding news_def by simp
qed

lemma tick_life:
  assumes "tick r = (r', recs)" "distinct (dkeys (pending r))"
  shows "life r' i = life r i @ (if news r i then [kind (the (verdict_of r i))] else [])"
proof -
  have "map outcome (filter (\<lambda>rec. proposal_id rec = i) recs) =
      (if news r i then [the (verdict_of r i)] else [])"
    using outcomes_of [OF tick_records [OF assms], of i] assms(2) news_pending [of r i] by simp
  from arg_cong [OF this, of "map kind"] show ?thesis
    by (simp add: life_def tick_history [OF assms] comp_def)
qed

section \<open>The invariant\<close>

lemma voters_record_vote:
  "map voter (record_vote v votes) =
     (if voter v \<in> voter ` set votes then map voter votes else map voter votes @ [voter v])"
  by (induction votes) (auto simp: agents_match_key)

lemma one_vote_record [simp]: "one_vote_each votes \<Longrightarrow> one_vote_each (record_vote v votes)"
  by (auto simp: one_vote_each_def voters_record_vote)

lemma one_vote_Nil [simp]: "one_vote_each []"
  by (simp add: one_vote_each_def)

lemma find_record_vote:
  "find (\<lambda>w. agents_match (vote_agent w) a) (record_vote v votes) =
     (if agents_match (vote_agent v) a then Some v
      else find (\<lambda>w. agents_match (vote_agent w) a) votes)"
  by (induction votes) (auto simp: agents_match_key)

lemma room_ok_new: "room_ok (new_room res)"
  by (simp add: room_ok_def new_room_def life_ok_def life_def closed_life_def)

lemma room_ok_propose:
  assumes "room_ok r" "map_of (pending r) fresh = None" "life r fresh = []"
  shows "room_ok (snd (propose fresh agent m target r))"
proof -
  let ?r = "snd (propose fresh agent m target r)"
  have "life_ok ?r i" for i
    using assms unfolding room_ok_def life_ok_def life_def propose_def
    by (cases "i = fresh") (auto simp: update_conv' map_of_eq_None_iff)
  then show ?thesis
    using assms by (auto simp: room_ok_def propose_def update_conv' split: if_splits)
qed

lemma room_ok_vote:
  assumes "room_ok r"
  shows "room_ok (snd (vote_on i v r))"
proof (cases "map_of (pending r) i")
  case None
  then show ?thesis using assms by (simp add: vote_on_def)
next
  case (Some pv)
  have "life_ok (snd (vote_on i v r)) j" for j
    using assms Some unfolding room_ok_def life_ok_def life_def vote_on_def
    by (cases "j = i") (auto simp: map_of_modify_entry)
  then show ?thesis
    using assms Some
    by (cases pv) (auto simp: room_ok_def vote_on_def map_of_modify_entry split: if_splits)
qed

lemma room_ok_tick:
  assumes "room_ok r" "tick r = (r', recs)"
  shows "room_ok r'"
proof -
  have d: "distinct (dkeys (pending r))" and dl: "distinct (dkeys (last_outcome r))"
    and votes: "\<forall>i p votes. map_of (pending r) i = Some (p, votes) \<longrightarrow> prop_id p = i \<and> one_vote_each votes"
    and log: "canonical r = commits (history r)" "indexed 0 (history r)"
    and lives: "life_ok r i" for i
    using assms(1) by (auto simp: room_ok_def)
  note spec = tick_spec [OF assms(2) d]
  have pend: "map_of (pending r') i = (if stays r i then map_of (pending r) i else None)" for i
    by (simp add: spec map_of_filter_keys [OF d, where P = "stays r"])
  have "life_ok r' i" for i
  proof (cases "verdict_of r i")
    case None
    then have "map_of (pending r) i = None" by (simp add: verdict_of_def)
    with None show ?thesis using lives [of i]
      by (simp add: life_ok_def pend tick_last [OF assms(2) d] tick_life [OF assms(2) d] news_def)
  next
    case (Some out)
    then obtain pv where "map_of (pending r) i = Some pv" by (auto simp: verdict_of_def)
    with Some show ?thesis using lives [of i]
      by (cases out)
        (auto simp: life_ok_def pend tick_last [OF assms(2) d] tick_life [OF assms(2) d] news_def closed_life_def)
  qed
  moreover have "distinct (dkeys (pending r'))"
    using d by (simp add: spec distinct_map_filter)
  ultimately show ?thesis
    using votes log spec(4) spec(8) [OF dl] pend
    by (auto simp: room_ok_def spec(1-3) indexed_append split: if_splits)
qed

section \<open>The system\<close>

inductive room_step :: "room_simulator \<Rightarrow> room_simulator \<Rightarrow> bool" where
  propose_step:
    "map_of (pending r) fresh = None \<Longrightarrow> fresh \<notin> proposal_id ` set (history r) \<Longrightarrow>
     propose fresh agent m target r = (i, r') \<Longrightarrow> room_step r r'"
| vote_step: "vote_on i v r = (res, r') \<Longrightarrow> room_step r r'"
| tick_step: "tick r = (r', recs) \<Longrightarrow> room_step r r'"

definition room_init :: "room_simulator \<Rightarrow> bool" where
  "room_init r \<longleftrightarrow> r = new_room (resolver r)"

lemma room_step_ok: "room_step r r' \<Longrightarrow> room_ok r \<Longrightarrow> room_ok r'"
proof (induction rule: room_step.induct)
  case (propose_step r fresh agent m target i r')
  then have "life r fresh = []" by (auto simp: life_def filter_empty_conv)
  then show ?case using room_ok_propose [of r fresh agent m target] propose_step by simp
next
  case (vote_step i v r res r')
  then show ?case using room_ok_vote [of r i v] by simp
next
  case (tick_step r r' recs)
  then show ?case using room_ok_tick by blast
qed

interpretation rooms: safe_system room_init room_step room_ok
  by unfold_locales (metis room_init_def room_ok_new, blast intro: room_step_ok)

end
