(* ===== verification/Verdict_Props.thy ===== *)
theory Verdict_Props
  imports Verdict_Room
begin

text \<open>
  The properties of the verdict harness: what a tick does, the life of a proposal, the ballots, the
  policies, and three places where the documentation promises more than the code keeps.
\<close>

section \<open>A scenario\<close>

text \<open>Two proposals under a quorum of two out of three; the second one has both its approvals.\<close>

definition ann :: agent_id where "ann = User ''ann'' ''Ann''"
definition bob :: agent_id where "bob = User ''bob'' ''Bob''"
definition claude :: agent_id where "claude = AIAgent ''a1'' ''claude''"

definition ballot :: "agent_id \<Rightarrow> vote_decision \<Rightarrow> vote" where
  "ballot a d = \<lparr>vote_agent = a, decision = d\<rparr>"

definition two_of_three :: policy where
  "two_of_three = Quorum \<lparr>required = 2, total = 3\<rparr>"

definition demo_open :: "policy \<Rightarrow> proposal_id \<Rightarrow> proposal_id \<Rightarrow> room_simulator" where
  "demo_open pol i j =
     snd (propose j ann (Json_Bool False) Global
       (snd (propose i ann (Json_Bool True) Global (new_room (resolve_with pol)))))"

definition demo_room :: room_simulator where
  "demo_room =
     snd (vote_on (ProposalId 2) (ballot claude Approve)
       (snd (vote_on (ProposalId 2) (ballot bob Approve)
         (demo_open two_of_three (ProposalId 2) (ProposalId 1)))))"

lemmas room_eval = demo_room_def demo_open_def two_of_three_def propose_def vote_on_def new_room_def
  modify_entry_def ballot_def ann_def bob_def claude_def

lemma reachable_propose:
  "reachable room_init room_step r \<Longrightarrow> map_of (pending r) fresh = None \<Longrightarrow>
   fresh \<notin> proposal_id ` set (history r) \<Longrightarrow>
   reachable room_init room_step (snd (propose fresh agent m target r))"
  by (blast intro: reachable.next_state propose_step surjective_pairing)

lemma reachable_vote:
  "reachable room_init room_step r \<Longrightarrow> reachable room_init room_step (snd (vote_on i v r))"
  by (blast intro: reachable.next_state vote_step surjective_pairing)

lemma reachable_tick: "reachable room_init room_step r \<Longrightarrow> reachable room_init room_step (fst (tick r))"
  by (blast intro: reachable.next_state tick_step surjective_pairing)

lemma demo_open_reachable: "i \<noteq> j \<Longrightarrow> reachable room_init room_step (demo_open pol i j)"
  unfolding demo_open_def
  by (intro reachable_propose reachable.start) (simp_all add: propose_def new_room_def room_init_def)

lemma demo_room_reachable: "reachable room_init room_step demo_room"
  unfolding demo_room_def by (intro reachable_vote demo_open_reachable) simp

lemma demo_room_resolver: "resolver demo_room = resolve_with two_of_three"
  by (simp add: room_eval)

section \<open>Ticks\<close>

lemma carried_commits:
  assumes "\<And>i m. verdict_of r i = Some (Resolved m) \<Longrightarrow>
             \<exists>p votes. map_of (pending r) i = Some (p, votes) \<and> m = mutation p"
    and "map (\<lambda>rec. (proposal_id rec, Some (outcome rec))) recs = map (\<lambda>i. (i, verdict_of r i)) ids"
  shows "commits recs =
    map (\<lambda>i. Generic VERDICT_COMMIT_COMMAND (mutation (fst (the (map_of (pending r) i)))))
      (filter (\<lambda>i. \<exists>m. verdict_of r i = Some (Resolved m)) ids)"
  using assms(2)
proof (induction recs arbitrary: ids)
  case (Cons rec recs)
  then obtain i ids' where ids: "ids = i # ids'" "verdict_of r i = Some (outcome rec)"
      "map (\<lambda>rec. (proposal_id rec, Some (outcome rec))) recs = map (\<lambda>i. (i, verdict_of r i)) ids'"
    by (auto simp: Cons_eq_map_conv)
  show ?case
    using Cons.IH [OF ids(3)] ids(2) assms(1) [of i] by (cases "outcome rec") (auto simp: ids(1))
qed simp

lemma indexed_nth:
  "indexed (length ops) recs \<Longrightarrow> rec \<in> set recs \<Longrightarrow>
   (case committed_op_index rec of None \<Rightarrow> commit_of (outcome rec) = []
    | Some k \<Rightarrow> k < length (ops @ commits recs) \<and> commit_of (outcome rec) = [(ops @ commits recs) ! k])"
proof (induction recs arbitrary: ops)
  case (Cons r1 recs)
  have rest: "indexed (length (ops @ commit_of (outcome r1))) recs" using Cons.prems by simp
  show ?case
  proof (cases "rec = r1")
    case True
    then show ?thesis using Cons.prems by (cases "outcome r1") (auto split: option.splits)
  next
    case False
    then show ?thesis using Cons.IH [OF rest] Cons.prems by (simp split: option.splits)
  qed
qed simp

text \<open>C12. One tick of a reachable room whose policy is any of the four. The records it returns are
  those of the proposals with news (a final verdict, or the first time it is seen pending), in the
  order of their identifiers, each with the verdict its policy gives on the votes collected; they
  are appended to the history. The operations committed are the mutations of the carried
  proposals in that order, unchanged, and a record names the place of its operation in the stream.
  What stays open is exactly what is still pending.\<close>

theorem tick_drains_room:
  assumes "reachable room_init room_step r" "resolver r = resolve_with pol" "tick r = (r', recs)"
  shows "history r' = history r @ recs \<and>
    map (\<lambda>rec. (proposal_id rec, Some (outcome rec))) recs =
      map (\<lambda>i. (i, verdict_of r i)) (filter (news r) (sort (dkeys (pending r)))) \<and>
    canonical r' = canonical r @
      map (\<lambda>i. Generic VERDICT_COMMIT_COMMAND (mutation (fst (the (map_of (pending r) i)))))
        (filter (\<lambda>i. \<exists>m. verdict_of r i = Some (Resolved m)) (sort (dkeys (pending r)))) \<and>
    (\<forall>rec \<in> set recs. case committed_op_index rec of
        None \<Rightarrow> commit_of (outcome rec) = []
      | Some k \<Rightarrow> k < length (canonical r') \<and> commit_of (outcome rec) = [canonical r' ! k]) \<and>
    pending r' = filter (\<lambda>e. verdict_of r (fst e) = Some Pending) (pending r)"
proof -
  have d: "distinct (dkeys (pending r))"
    using rooms.reachable_inv [OF assms(1)] by (simp add: room_ok_def)
  note spec = tick_spec [OF assms(3) d, unfolded sort_key_ids]
  have mut: "\<exists>p votes. map_of (pending r) i = Some (p, votes) \<and> m = mutation p"
    if "verdict_of r i = Some (Resolved m)" for i m
    using that pol.resolved_mutation by (auto simp: verdict_of_def assms(2))
  have "filter (\<lambda>i. \<exists>m. verdict_of r i = Some (Resolved m)) (filter (news r) xs) =
      filter (\<lambda>i. \<exists>m. verdict_of r i = Some (Resolved m)) xs" for xs
    by (auto simp: news_def intro!: filter_cong)
  moreover have "\<forall>rec \<in> set recs. case committed_op_index rec of
        None \<Rightarrow> commit_of (outcome rec) = []
      | Some k \<Rightarrow> k < length (canonical r') \<and> commit_of (outcome rec) = [canonical r' ! k]"
    unfolding spec(3) using indexed_nth [OF spec(4)] by blast
  ultimately show ?thesis
    using carried_commits [OF mut spec(5)] spec(2,3,5,6) by simp
qed

lemma demo_room_eval:
  "sort (dkeys (pending demo_room)) = [ProposalId 1, ProposalId 2]"
  "verdict_of demo_room (ProposalId 1) = Some Pending"
  "verdict_of demo_room (ProposalId 2) = Some (Resolved (Json_Bool True))"
  "map_of (pending demo_room) (ProposalId 2) =
     Some (\<lparr>prop_id = ProposalId 2, prop_agent = ann, mutation = Json_Bool True, prop_target = Global\<rparr>,
           [ballot bob Approve, ballot claude Approve])"
  "canonical demo_room = []"
  by (simp_all add: room_eval verdict_of_def less_eq_proposal_id_def quorum_resolve_def Let_def
      word_le_nat_alt)

theorem tick_drains_room_witness:
  "canonical (fst (tick demo_room)) = [Generic VERDICT_COMMIT_COMMAND (Json_Bool True)]"
  using tick_drains_room [OF demo_room_reachable demo_room_resolver surjective_pairing]
  by (simp add: demo_room_eval)

text \<open>C13. The life of a proposal, in every reachable room: the history shows it at most once
  pending and then at most once with a final verdict, an open proposal has no final verdict, and a
  closed one accepts no vote. No agent has two votes on a proposal. The canonical stream is exactly
  the operations of the resolved records of the history, in order.\<close>

theorem proposal_life_cycle:
  assumes "reachable room_init room_step r"
  shows "(if map_of (pending r) i = None
          then life r i \<in> {[], [Kind_Resolved], [Kind_Rejected], [Kind_Pending, Kind_Resolved],
                           [Kind_Pending, Kind_Rejected]} \<and>
               vote_on i v r = (Err (UnknownProposal i), r)
          else life r i \<in> {[], [Kind_Pending]} \<and>
               (\<exists>p votes. map_of (pending r) i = Some (p, votes) \<and> prop_id p = i \<and> one_vote_each votes)) \<and>
         canonical r = commits (history r)"
proof -
  have ok: "room_ok r" using assms by (rule rooms.reachable_inv)
  then have l: "life_ok r i" by (simp add: room_ok_def)
  show ?thesis
  proof (cases "map_of (pending r) i")
    case None
    then show ?thesis using ok l by (simp add: room_ok_def life_ok_def closed_life_def vote_on_def)
  next
    case (Some pv)
    then show ?thesis using ok l by (cases pv) (auto simp: room_ok_def life_ok_def)
  qed
qed

theorem proposal_life_cycle_witness:
  "life (fst (tick demo_room)) (ProposalId 3) \<in> {[], [Kind_Resolved], [Kind_Rejected],
     [Kind_Pending, Kind_Resolved], [Kind_Pending, Kind_Rejected]}"
proof -
  have "map_of (pending (fst (tick demo_room))) (ProposalId 3) = None"
    using tick_pending [OF surjective_pairing, of demo_room]
    by (simp add: room_eval map_of_eq_None_iff)
  then show ?thesis
    using proposal_life_cycle [OF reachable_tick [OF demo_room_reachable], of "ProposalId 3"] by simp
qed

lemma quiet_tick:
  "\<forall>i \<in> set ids. verdict_of r i = Some Pending \<and> \<not> news r i \<Longrightarrow> fold tick_one ids (r, out) = (r, out)"
  by (induction ids) (simp_all add: tick_one_eq(4) [OF _ refl])

text \<open>A tick settles: run again without a new proposal or vote, it returns no record and leaves
  the room as it is.\<close>

theorem tick_settles:
  assumes "reachable room_init room_step r" "tick r = (r', recs)"
  shows "tick r' = (r', [])"
proof -
  have d: "distinct (dkeys (pending r))"
    using rooms.reachable_inv [OF assms(1)] by (simp add: room_ok_def)
  note spec = tick_spec [OF assms(2) d]
  have "verdict_of r' i = Some Pending \<and> \<not> news r' i" if "i \<in> set (dkeys (pending r'))" for i
  proof -
    have s: "stays r i" using that by (auto simp: spec(6))
    have "map_of (pending r') i = map_of (pending r) i"
      unfolding spec(6) map_of_filter_keys [OF d, where P = "stays r"] by (simp add: s)
    then have v: "verdict_of r' i = verdict_of r i" by (simp add: verdict_of_def spec(1))
    show ?thesis unfolding news_def v by (simp add: s spec(7))
  qed
  then show ?thesis using quiet_tick [of "arrival r'" r' "[]"] by (simp add: tick_def)
qed

theorem tick_settles_witness: "tick (fst (tick demo_room)) = (fst (tick demo_room), [])"
  using tick_settles [OF demo_room_reachable surjective_pairing] .

section \<open>Ballots\<close>

definition cast_all :: "proposal_id \<Rightarrow> vote list \<Rightarrow> room_simulator \<Rightarrow> room_simulator" where
  "cast_all i ballots r = fold (\<lambda>v r. snd (vote_on i v r)) ballots r"

lemma cast_all_pending:
  "map_of (pending r) i = Some (p, votes) \<Longrightarrow>
   map_of (pending (cast_all i ballots r)) =
     (map_of (pending r))(i \<mapsto> (p, fold record_vote ballots votes)) \<and>
   resolver (cast_all i ballots r) = resolver r"
proof (induction ballots arbitrary: r votes)
  case (Cons v ballots)
  let ?r = "snd (vote_on i v r)"
  have one: "map_of (pending ?r) = (map_of (pending r))(i \<mapsto> (p, record_vote v votes))" "resolver ?r = resolver r"
    using Cons.prems by (auto simp: vote_on_def map_of_modify_entry)
  then show ?case
    using Cons.IH [of ?r "record_vote v votes"] by (auto simp: cast_all_def fun_eq_iff)
qed (auto simp: cast_all_def)

lemma find_append:
  "find P (xs @ ys) = (case find P xs of None \<Rightarrow> find P ys | Some x \<Rightarrow> Some x)"
  by (induction xs) auto

lemma find_fold_record:
  "find (\<lambda>w. agents_match (vote_agent w) a) (fold record_vote ballots votes) =
     find (\<lambda>w. agents_match (vote_agent w) a) (rev ballots @ votes)"
  by (induction ballots arbitrary: votes) (simp_all add: find_append find_record_vote split: option.splits)

lemma one_vote_fold: "one_vote_each votes \<Longrightarrow> one_vote_each (fold record_vote ballots votes)"
  by (induction ballots arbitrary: votes) auto

lemma fold_record_distinct:
  "distinct (map voter (votes @ ballots)) \<Longrightarrow> fold record_vote ballots votes = votes @ ballots"
proof (induction ballots arbitrary: votes)
  case (Cons v ballots)
  have "record_vote v ws = ws @ [v]" if "voter v \<notin> voter ` set ws" for ws
    using that by (induction ws) (auto simp: agents_match_key)
  then show ?case using Cons.IH [of "votes @ [v]"] Cons.prems by simp
qed simp

text \<open>One agent, one vote, and the last ballot counts: after any sequence of ballots on a
  proposal that had no votes yet, the room holds for every agent the last ballot a matching agent
  cast and nothing else, and at most one vote per agent; every other proposal keeps its votes. The
  policy that follows a lead therefore decides as it would on the raw ballots.\<close>

theorem last_ballot_counts:
  assumes "map_of (pending r) i = Some (p, [])"
  shows "\<exists>votes. map_of (pending (cast_all i ballots r)) = (map_of (pending r))(i \<mapsto> (p, votes)) \<and>
    one_vote_each votes \<and>
    (\<forall>a. find (\<lambda>w. agents_match (vote_agent w) a) votes =
         find (\<lambda>w. agents_match (vote_agent w) a) (rev ballots)) \<and>
    authority_resolve l p votes = authority_resolve l p ballots"
proof -
  define votes where "votes = fold record_vote ballots []"
  have f: "find (\<lambda>w. agents_match (vote_agent w) a) votes =
      find (\<lambda>w. agents_match (vote_agent w) a) (rev ballots)" for a
    by (simp add: votes_def find_fold_record)
  have "one_vote_each votes" by (simp add: votes_def one_vote_fold)
  moreover from this have "find (\<lambda>w. agents_match (vote_agent w) a) (rev votes) =
      find (\<lambda>w. agents_match (vote_agent w) a) votes" for a
    by (intro find_agent_mset [symmetric]) simp_all
  ultimately show ?thesis
    using cast_all_pending [OF assms] f
    by (intro exI [of _ votes]) (auto simp: authority_resolve_def votes_def)
qed

theorem last_ballot_counts_witness:
  "\<exists>p votes. map_of (pending (cast_all (ProposalId 1) [ballot bob Approve, ballot bob Reject] demo_room))
       (ProposalId 1) = Some (p, votes) \<and>
     find (\<lambda>w. agents_match (vote_agent w) bob) votes = Some (ballot bob Reject)"
proof -
  have "map_of (pending demo_room) (ProposalId 1) =
     Some (\<lparr>prop_id = ProposalId 1, prop_agent = ann, mutation = Json_Bool False, prop_target = Global\<rparr>, [])"
    by (simp add: room_eval)
  from last_ballot_counts [OF this, of "[ballot bob Approve, ballot bob Reject]" "\<lparr>lead = bob\<rparr>"]
  obtain p votes where "map_of (pending (cast_all (ProposalId 1)
        [ballot bob Approve, ballot bob Reject] demo_room)) (ProposalId 1) = Some (p, votes)"
      "\<forall>a. find (\<lambda>w. agents_match (vote_agent w) a) votes =
         find (\<lambda>w. agents_match (vote_agent w) a) (rev [ballot bob Approve, ballot bob Reject])"
    by auto
  moreover have "find (\<lambda>w. agents_match (vote_agent w) bob) (rev [ballot bob Approve, ballot bob Reject]) =
      Some (ballot bob Reject)"
    by (simp add: ballot_def bob_def)
  ultimately show ?thesis by metis
qed

text \<open>The order in which the agents vote does not matter: under each of the four policies, the
  same ballots of distinct agents in two orders give the proposal the same kind of verdict.\<close>

theorem vote_order_irrelevant:
  assumes "map_of (pending r) i = Some (p, [])" "resolver r = resolve_with pol"
    and "distinct (map voter ballots)" "mset ballots' = mset ballots"
  shows "map_option kind (verdict_of (cast_all i ballots' r) i) =
         map_option kind (verdict_of (cast_all i ballots r) i)"
proof -
  have "distinct (map voter ballots')"
    using assms(3,4) by (metis mset_eq_imp_distinct_iff mset_map)
  then have "fold record_vote ballots [] = ballots" "fold record_vote ballots' [] = ballots'"
    using assms(3) fold_record_distinct [of "[]"] by simp_all
  then show ?thesis
    using cast_all_pending [OF assms(1)] assms(2-4) pol.order_irrelevant [of ballots ballots' pol p]
    by (simp add: verdict_of_def one_vote_each_def)
qed

theorem vote_order_irrelevant_witness:
  "map_option kind (verdict_of (cast_all (ProposalId 1) [ballot bob Reject, ballot ann Abstain] demo_room)
       (ProposalId 1)) =
   map_option kind (verdict_of (cast_all (ProposalId 1) [ballot ann Abstain, ballot bob Reject] demo_room)
       (ProposalId 1))"
proof -
  have "map_of (pending demo_room) (ProposalId 1) =
     Some (\<lparr>prop_id = ProposalId 1, prop_agent = ann, mutation = Json_Bool False, prop_target = Global\<rparr>, [])"
    by (simp add: room_eval)
  from vote_order_irrelevant [OF this demo_room_resolver] show ?thesis
    by (simp add: ballot_def ann_def bob_def add_mset_commute)
qed

section \<open>Policies\<close>

text \<open>A quorum the constructor accepts decides early and never too early, as long as no more
  agents vote than it is drawn from and a vote once cast stays: it rejects exactly when no further
  votes of the remaining agents could carry the proposal, it carries exactly on enough approvals,
  and neither verdict is taken back by further votes.\<close>

theorem quorum_decides_early:
  assumes "new_quorum req tot = Ok q" "length votes \<le> tot"
  shows "(kind (quorum_resolve q p votes) = Kind_Rejected \<longleftrightarrow>
            (\<forall>ws. length (votes @ ws) \<le> tot \<longrightarrow> kind (quorum_resolve q p (votes @ ws)) \<noteq> Kind_Resolved)) \<and>
         (quorum_resolve q p votes = Resolved (mutation p) \<longleftrightarrow> req \<le> count_votes Approve votes) \<and>
         (length (votes @ ws) \<le> tot \<longrightarrow> quorum_resolve q p votes \<noteq> Pending \<longrightarrow>
            kind (quorum_resolve q p (votes @ ws)) = kind (quorum_resolve q p votes))"
proof -
  have q: "required q = req" "total q = tot" "0 < req" "req \<le> tot"
    using assms(1) by (auto simp: new_quorum_def split: if_splits)
  note k = quorum_kind [of q p, unfolded q]
  have bound: "count_votes Approve votes + count_votes Approve ws \<le>
      count_votes Approve votes + (tot - length votes)" if "length (votes @ ws) \<le> tot" for ws
    using that count_votes_le [of Approve ws] by simp
  have best: "length (votes @ replicate (tot - length votes) (ballot ann Approve)) \<le> tot"
    "count_votes Approve (replicate n (ballot ann Approve)) = n" for n
    using assms(2) by (simp_all add: count_votes_def ballot_def)
  have "kind (quorum_resolve q p votes) = Kind_Rejected \<longleftrightarrow>
      count_votes Approve votes + (tot - length votes) < req"
    using k [of votes] by auto
  also have "\<dots> \<longleftrightarrow> (\<forall>ws. length (votes @ ws) \<le> tot \<longrightarrow>
      kind (quorum_resolve q p (votes @ ws)) \<noteq> Kind_Resolved)"
    using bound best unfolding k count_votes_simps
    by (smt (verit) le_trans not_le outcome_kind.distinct)
  finally have early: "kind (quorum_resolve q p votes) = Kind_Rejected \<longleftrightarrow> \<dots>" .
  have "quorum_resolve q p votes = Resolved (mutation p) \<longleftrightarrow> req \<le> count_votes Approve votes"
    by (auto simp: quorum_resolve_def Let_def q)
  moreover have "kind (quorum_resolve q p (votes @ ws)) = kind (quorum_resolve q p votes)"
    if "length (votes @ ws) \<le> tot" "kind (quorum_resolve q p votes) \<noteq> Kind_Pending"
    using that count_votes_le [of Approve ws] unfolding k count_votes_simps length_append
    by (simp del: kind_simps split: if_splits) linarith
  ultimately show ?thesis using early by simp
qed

theorem quorum_decides_early_witness:
  "\<forall>p. kind (quorum_resolve \<lparr>required = 2, total = 3\<rparr> p [ballot bob Reject, ballot claude Reject]) =
     Kind_Rejected"
proof
  fix p
  have "new_quorum 2 3 = Ok \<lparr>required = 2, total = 3\<rparr>" by (simp add: new_quorum_def)
  from quorum_decides_early [OF this, of "[ballot bob Reject, ballot claude Reject]" p]
  show "kind (quorum_resolve \<lparr>required = 2, total = 3\<rparr> p [ballot bob Reject, ballot claude Reject]) = Kind_Rejected"
    using quorum_kind [of "\<lparr>required = 2, total = 3\<rparr>" p] by (simp add: ballot_def)
qed

section \<open>Where the documentation promises more\<close>

lemma deterministic_tick:
  "canonical (fst (tick (demo_open Deterministic i j))) =
     (if i = j then [Generic VERDICT_COMMIT_COMMAND (Json_Bool False)]
      else if i \<le> j then [Generic VERDICT_COMMIT_COMMAND (Json_Bool True),
                     Generic VERDICT_COMMIT_COMMAND (Json_Bool False)]
      else [Generic VERDICT_COMMIT_COMMAND (Json_Bool False),
            Generic VERDICT_COMMIT_COMMAND (Json_Bool True)])"
  by (auto simp: tick_def tick_one_def demo_open_def propose_def new_room_def close_proposal_def
      deterministic_resolve_def less_eq_proposal_id_def Let_def)

text \<open>The room's documentation says that the same sequence of proposals and votes gives the same
  canonical stream. Proposals are drained in the order of their identifiers, which are random: the
  same two calls of \<^verbatim>\<open>propose\<close>, under the policy that carries everything, commit in either order
  depending on the identifiers drawn.\<close>

theorem tick_order_follows_ids:
  "\<exists>i j i' j'. i \<noteq> j \<and> i' \<noteq> j' \<and>
     canonical (fst (tick (demo_open Deterministic i j))) \<noteq>
     canonical (fst (tick (demo_open Deterministic i' j')))"
  by (intro exI [of _ "ProposalId 1"] exI [of _ "ProposalId 2"] exI [of _ "ProposalId 3"]
      exI [of _ "ProposalId 2"])
    (simp add: deterministic_tick less_eq_proposal_id_def word_le_nat_alt)

text \<open>Two policies decide over votes their documentation says keep a proposal open. The quorum
  calls an abstention a seat that can no longer approve and rejects, although the room lets the same
  agents vote again and would carry the proposal on their new votes. The veto carries a proposal
  with an abstention once enough other agents approve: it counts approvals and does not know who
  the participants are.\<close>

theorem decided_over_abstentions:
  "kind (quorum_resolve \<lparr>required = 2, total = 3\<rparr> p
      (fold record_vote [ballot bob Abstain, ballot claude Abstain] [])) = Kind_Rejected \<and>
   kind (quorum_resolve \<lparr>required = 2, total = 3\<rparr> p
      (fold record_vote [ballot bob Abstain, ballot claude Abstain, ballot bob Approve,
        ballot claude Approve] [])) = Kind_Resolved \<and>
   kind (veto_resolve \<lparr>participants = 2\<rparr> p
      (fold record_vote [ballot ann Approve, ballot bob Abstain, ballot claude Approve] [])) =
     Kind_Resolved"
  by (simp add: quorum_kind veto_kind ballot_def ann_def bob_def claude_def del: kind_simps)

end
