(* ===== verification/Ros_Codec.thy ===== *)
theory Ros_Codec
  imports Prelude
begin

text \<open>
  The binary container of \<^verbatim>\<open>ros-format\<close>: its errors (\<^verbatim>\<open>error.rs\<close>), and readers and
  writers of the fixed-width fields its structures are made of.

  A reader takes the bytes from the cursor on and returns the value with the bytes after it; a
  writer returns the bytes it appends. \<open>decoder\<close> is the contract of a matching pair: what was
  written is read back; a \<open>codec\<close> in addition accepts nothing else. They are interpreted here on the primitive fields and, in
  the theories that define them, on the header and on the entries of the chunk index.

  \<^verbatim>\<open>byteorder\<close>'s \<^verbatim>\<open>read_u32::<E>\<close> is the big- or little-endian value of four bytes. An I/O
  error can only be the end of the input: the cursor is over memory. Error texts are kept as data,
  a chunk's name as its code.
\<close>

section \<open>Errors\<close>

type_synonym fourcc = "byte list"

datatype io_error = UnexpectedEof

datatype version_error =
    VersionTooOld "byte \<times> byte \<times> byte"
  | VersionTooNew "byte \<times> byte \<times> byte"

datatype header_reason =
    Invalid_value byte
  | Header_not_whole nat
  | Header_reserved_not_zero
  | Must_be_96 "32 word"
  | Invalid_algorithm byte
  | Kdf_required

datatype chunk_label = Named string | Code fourcc

datatype 'e chunk_reason =
    Invalid_compression byte
  | Reserved_not_zero
  | Compressed_not_smaller
  | Invalid_encryption byte
  | Failed_to_read nat 'e
  | Overlaps_previous "64 word"

datatype 'e format_error =
    InvalidMagic "byte list" "byte list"
  | InvalidHeader string header_reason
  | InvalidChunk chunk_label "64 word" "'e chunk_reason"
  | CrcMismatch string "32 word" "32 word"
  | InvalidChunkSize chunk_label "64 word" "64 word"
  | MissingRequiredChunk chunk_label

datatype ros_error =
    Io io_error
  | Format "ros_error format_error"
  | Version version_error
  | Invalid_chunk_at nat ros_error

section \<open>Readers\<close>

type_synonym 'a reader = "byte list \<Rightarrow> (ros_error, 'a \<times> byte list) result"

definition then_read :: "'a reader \<Rightarrow> ('a \<Rightarrow> 'b reader) \<Rightarrow> 'b reader" where
  "then_read r f bs = (case r bs of Err e \<Rightarrow> Err e | Ok (x, bs') \<Rightarrow> f x bs')"

definition give :: "'a \<Rightarrow> 'a reader" where
  "give x bs = Ok (x, bs)"

text \<open>\<^verbatim>\<open>?\<close> on a value that was read: its error ends the reading.\<close>

definition check :: "(ros_error, 'a) result \<Rightarrow> 'a reader" where
  "check c bs = (case c of Err e \<Rightarrow> Err e | Ok x \<Rightarrow> Ok (x, bs))"

definition read_exact :: "nat \<Rightarrow> byte list reader" where
  "read_exact n bs = (if length bs < n then Err (Io UnexpectedEof) else Ok (take n bs, drop n bs))"

fun read_u8 :: "byte reader" where
  "read_u8 [] = Err (Io UnexpectedEof)"
| "read_u8 (b # bs) = Ok (b, bs)"

datatype endianness = Little | Big

definition value_of :: "endianness \<Rightarrow> byte list \<Rightarrow> nat" where
  "value_of e bs = (case e of Little \<Rightarrow> le_value bs | Big \<Rightarrow> be_value bs)"

definition bytes_of :: "endianness \<Rightarrow> nat \<Rightarrow> nat \<Rightarrow> byte list" where
  "bytes_of e n v = (case e of Little \<Rightarrow> le_bytes n v | Big \<Rightarrow> be_bytes n v)"

definition read_u32 :: "endianness \<Rightarrow> 32 word reader" where
  "read_u32 e = then_read (read_exact 4) (\<lambda>bs. give (of_nat (value_of e bs)))"

definition read_u64 :: "endianness \<Rightarrow> 64 word reader" where
  "read_u64 e = then_read (read_exact 8) (\<lambda>bs. give (of_nat (value_of e bs)))"

definition write_u32 :: "endianness \<Rightarrow> 32 word \<Rightarrow> byte list" where
  "write_u32 e v = bytes_of e 4 (unat v)"

definition write_u64 :: "endianness \<Rightarrow> 64 word \<Rightarrow> byte list" where
  "write_u64 e v = bytes_of e 8 (unat v)"

lemma then_read_Ok:
  "then_read r f bs = Ok y \<longleftrightarrow> (\<exists>x bs'. r bs = Ok (x, bs') \<and> f x bs' = Ok y)"
  by (auto simp: then_read_def split: sum.splits)

lemma give_Ok: "give x bs = Ok (y, rest) \<longleftrightarrow> y = x \<and> rest = bs"
  by (auto simp: give_def)

lemma check_Ok: "check c bs = Ok (y, rest) \<longleftrightarrow> c = Ok y \<and> rest = bs"
  by (auto simp: check_def split: sum.splits)

lemma read_exact_Ok: "read_exact n bs = Ok (x, rest) \<longleftrightarrow> length x = n \<and> bs = x @ rest"
  by (auto simp: read_exact_def)

lemma read_u8_Ok: "read_u8 bs = Ok (b, rest) \<longleftrightarrow> bs = b # rest"
  by (cases bs) auto

lemma length_bytes_of [simp]: "length (bytes_of e n v) = n"
  by (simp add: bytes_of_def split: endianness.split)

lemma value_of_bytes_of: "v < 256 ^ n \<Longrightarrow> value_of e (bytes_of e n v) = v"
  by (simp add: value_of_def bytes_of_def le_value_le_bytes be_value_be_bytes split: endianness.split)

lemma bytes_of_value_of: "length bs = n \<Longrightarrow> bytes_of e n (value_of e bs) = bs"
  by (simp add: value_of_def bytes_of_def le_bytes_le_value be_bytes_be_value split: endianness.split)

lemma value_of_bound: "value_of e bs < 256 ^ length bs"
  by (simp add: value_of_def le_value_bound be_value_bound split: endianness.split)

lemma read_u32_Ok: "read_u32 e bs = Ok (v, rest) \<longleftrightarrow> bs = write_u32 e v @ rest"
proof -
  have "unat v < 256 ^ 4" using unsigned_less [of v] by simp
  moreover have "unat (of_nat (value_of e x) :: 32 word) = value_of e x" if "length x = 4" for x
    using value_of_bound [of e x] that by (simp add: unat_of_nat)
  ultimately show ?thesis
    by (auto simp: read_u32_def write_u32_def then_read_Ok give_Ok read_exact_Ok value_of_bytes_of
        bytes_of_value_of intro!: exI [of _ "bytes_of e 4 (unat v)"])
qed

lemma read_u64_Ok: "read_u64 e bs = Ok (v, rest) \<longleftrightarrow> bs = write_u64 e v @ rest"
proof -
  have "unat v < 256 ^ 8" using unsigned_less [of v] by simp
  moreover have "unat (of_nat (value_of e x) :: 64 word) = value_of e x" if "length x = 8" for x
    using value_of_bound [of e x] that by (simp add: unat_of_nat)
  ultimately show ?thesis
    by (auto simp: read_u64_def write_u64_def then_read_Ok give_Ok read_exact_Ok value_of_bytes_of
        bytes_of_value_of intro!: exI [of _ "bytes_of e 8 (unat v)"])
qed

lemma length_write [simp]: "length (write_u32 e v) = 4" "length (write_u64 e w) = 8"
  by (simp_all add: write_u32_def write_u64_def)

section \<open>The contract of a codec\<close>

primrec read_many :: "'a reader \<Rightarrow> nat \<Rightarrow> 'a list reader" where
  "read_many r 0 = give []"
| "read_many r (Suc n) = then_read r (\<lambda>x. then_read (read_many r n) (\<lambda>xs. give (x # xs)))"

text \<open>A reader that gives back what was written, and one that in addition accepts nothing else.\<close>

locale decoder =
  fixes rd :: "'a reader" and wr :: "'a \<Rightarrow> byte list" and ok :: "'a \<Rightarrow> bool"
  assumes read_write: "ok x \<Longrightarrow> rd (wr x @ rest) = Ok (x, rest)"
begin

text \<open>No two values share an image, and no image is a proper prefix of another.\<close>

lemma write_inj:
  assumes "ok x" "ok y" "wr x @ r = wr y @ s"
  shows "x = y \<and> r = s"
  using read_write [OF assms(1), of r] read_write [OF assms(2), of s] assms(3)
  by (metis prod.inject sum.inject(2))

lemma read_many_write:
  "list_all ok xs \<Longrightarrow> read_many rd (length xs) (concat (map wr xs) @ rest) = Ok (xs, rest)"
  by (induction xs) (simp_all add: then_read_Ok give_Ok read_write)

end

locale codec = decoder +
  assumes write_read: "rd bs = Ok (x, rest) \<Longrightarrow> ok x \<and> bs = wr x @ rest"
begin

lemma read_iff: "rd bs = Ok (x, rest) \<longleftrightarrow> ok x \<and> bs = wr x @ rest"
  using read_write write_read by blast

lemma read_many_iff:
  "read_many rd n bs = Ok (xs, rest) \<longleftrightarrow>
     length xs = n \<and> list_all ok xs \<and> bs = concat (map wr xs) @ rest"
proof (induction n arbitrary: bs xs)
  case 0
  then show ?case by (auto simp: give_Ok)
next
  case (Suc n)
  have "read_many rd (Suc n) bs = Ok (xs, rest) \<longleftrightarrow>
      (\<exists>x bs' ys. rd bs = Ok (x, bs') \<and> read_many rd n bs' = Ok (ys, rest) \<and> xs = x # ys)"
    by (simp add: then_read_Ok give_Ok)
  then show ?case by (cases xs) (auto simp: read_iff Suc.IH)
qed

end

interpretation u8: codec read_u8 "\<lambda>b. [b]" "\<lambda>_. True"
  by unfold_locales (simp_all add: read_u8_Ok)

interpretation u32: codec "read_u32 e" "write_u32 e" "\<lambda>_. True" for e
  by unfold_locales (simp_all add: read_u32_Ok)

interpretation u64: codec "read_u64 e" "write_u64 e" "\<lambda>_. True" for e
  by unfold_locales (simp_all add: read_u64_Ok)

interpretation raw: codec "read_exact n" "\<lambda>bs. bs" "\<lambda>bs. length bs = n" for n
  by unfold_locales (simp_all add: read_exact_Ok)

lemmas reads = then_read_Ok give_Ok check_Ok read_exact_Ok read_u8_Ok read_u32_Ok read_u64_Ok

end
