(* ===== verification/Ros_Header.thy ===== *)
theory Ros_Header
  imports Ros_Codec
begin

text \<open>
  \<^verbatim>\<open>ros-format/src/header.rs\<close>: the 128 bytes a \<^verbatim>\<open>.ros\<close> file starts with.

  Every multi-byte field is written in the byte order the header itself declares, and a CRC-32 is
  stored over the range the header's version defines. The checksum is the \<^verbatim>\<open>crc32fast\<close>
  crate's: it is the parameter \<open>crc32\<close>, an arbitrary function from bytes to 32-bit words. A fixed
  array is a list whose length \<open>header_wf\<close> fixes. The host's byte order, its clock and its random
  bytes are arguments of \<open>new_header\<close>.
\<close>

section \<open>Constants and flags\<close>

definition ROSHERA_MAGIC :: "byte list" where
  "ROSHERA_MAGIC = map (\<lambda>c. of_nat c) [82, 79, 83, 72, 69, 82, 65, 0]"

definition CURRENT_MAJOR_VERSION :: byte where "CURRENT_MAJOR_VERSION = 3"
definition CURRENT_MINOR_VERSION :: byte where "CURRENT_MINOR_VERSION = 2"
definition CURRENT_PATCH_VERSION :: byte where "CURRENT_PATCH_VERSION = 0"
definition INTEGRITY_SCHEME_V2_MIN_MINOR :: byte where "INTEGRITY_SCHEME_V2_MIN_MINOR = 2"
definition HEADER_SIZE :: nat where "HEADER_SIZE = 128"

definition uses_integrity_scheme_v2 :: "byte \<Rightarrow> byte \<Rightarrow> bool" where
  "uses_integrity_scheme_v2 major minor \<longleftrightarrow>
     CURRENT_MAJOR_VERSION < major \<or>
     major = CURRENT_MAJOR_VERSION \<and> INTEGRITY_SCHEME_V2_MIN_MINOR \<le> minor"

definition header_crc_input :: "byte list \<Rightarrow> byte \<Rightarrow> byte \<Rightarrow> byte list option" where
  "header_crc_input bytes major minor =
     (if length bytes < HEADER_SIZE then None
      else Some (take 12 bytes @
             (if uses_integrity_scheme_v2 major minor
              then take (HEADER_SIZE - 16) (drop 16 bytes) else [])))"

definition endianness_from_u8 :: "byte \<Rightarrow> (ros_error, endianness) result" where
  "endianness_from_u8 b =
     (if b = 1 then Ok Little else if b = 2 then Ok Big
      else Err (Format (InvalidHeader ''endianness'' (Invalid_value b))))"

fun endianness_code :: "endianness \<Rightarrow> byte" where
  "endianness_code Little = 1"
| "endianness_code Big = 2"

datatype feature_flags = FeatureFlags (flag_bits: "64 word")

unbundle bit_operations_syntax

definition has_signature :: "feature_flags \<Rightarrow> bool" where
  "has_signature f \<longleftrightarrow> flag_bits f AND push_bit 0 1 \<noteq> 0"

definition encrypted_flag :: "feature_flags \<Rightarrow> bool" where
  "encrypted_flag f \<longleftrightarrow> flag_bits f AND push_bit 4 1 \<noteq> 0"

definition ai_provenance :: "feature_flags \<Rightarrow> bool" where
  "ai_provenance f \<longleftrightarrow> flag_bits f AND push_bit 5 1 \<noteq> 0"

definition timestamped :: "feature_flags \<Rightarrow> bool" where
  "timestamped f \<longleftrightarrow> flag_bits f AND push_bit 9 1 \<noteq> 0"

definition with_signature :: "feature_flags \<Rightarrow> feature_flags" where
  "with_signature f = FeatureFlags (flag_bits f OR push_bit 0 1)"

definition with_encryption :: "feature_flags \<Rightarrow> feature_flags" where
  "with_encryption f = FeatureFlags (flag_bits f OR push_bit 4 1)"

definition with_ai_provenance :: "feature_flags \<Rightarrow> feature_flags" where
  "with_ai_provenance f = FeatureFlags (flag_bits f OR push_bit 5 1)"

definition with_timestamped :: "feature_flags \<Rightarrow> feature_flags" where
  "with_timestamped f = FeatureFlags (flag_bits f OR push_bit 9 1)"

section \<open>The header\<close>

record file_header =
  magic :: "byte list"
  major_version :: byte
  minor_version :: byte
  patch_version :: byte
  endianness :: endianness
  header_crc32 :: "32 word"
  file_size :: "64 word"
  creation_time :: "64 word"
  file_uuid :: "byte list"
  index_offset :: "64 word"
  index_entry_count :: "32 word"
  index_entry_size :: "32 word"
  encryption_algo :: byte
  kdf_algo :: byte
  signature_algo :: byte
  ai_tracking :: byte
  kdf_iterations :: "32 word"
  kdf_salt :: "byte list"
  file_iv :: "byte list"
  feature_flags :: feature_flags
  hdr_reserved :: "byte list"
  ai_command_count :: "64 word"
  ai_chunk_offset :: "64 word"

definition new_header :: "endianness \<Rightarrow> 64 word \<Rightarrow> byte list \<Rightarrow> file_header" where
  "new_header native now uuid =
     \<lparr>magic = ROSHERA_MAGIC, major_version = CURRENT_MAJOR_VERSION,
      minor_version = CURRENT_MINOR_VERSION, patch_version = CURRENT_PATCH_VERSION,
      endianness = native, header_crc32 = 0, file_size = 0, creation_time = now, file_uuid = uuid,
      index_offset = 0, index_entry_count = 0, index_entry_size = 96, encryption_algo = 0,
      kdf_algo = 0, signature_algo = 0, ai_tracking = 0, kdf_iterations = 0,
      kdf_salt = replicate 16 0, file_iv = replicate 8 0, feature_flags = FeatureFlags 0,
      hdr_reserved = replicate 8 0, ai_command_count = 0, ai_chunk_offset = 0\<rparr>"

definition parse_with_endianness :: "endianness \<Rightarrow> byte list \<Rightarrow> file_header reader" where
  "parse_with_endianness e mag =
     then_read read_u8 (\<lambda>major.
     then_read read_u8 (\<lambda>minor.
     then_read read_u8 (\<lambda>patch.
     then_read read_u8 (\<lambda>b.
     then_read (check (endianness_from_u8 b)) (\<lambda>endian.
     then_read (read_u32 e) (\<lambda>crc.
     then_read (read_u64 e) (\<lambda>size.
     then_read (read_u64 e) (\<lambda>created.
     then_read (read_exact 16) (\<lambda>uuid.
     then_read (read_u64 e) (\<lambda>ix_offset.
     then_read (read_u32 e) (\<lambda>ix_count.
     then_read (read_u32 e) (\<lambda>ix_size.
     then_read read_u8 (\<lambda>enc.
     then_read read_u8 (\<lambda>kdf.
     then_read read_u8 (\<lambda>sig.
     then_read read_u8 (\<lambda>ai.
     then_read (read_u32 e) (\<lambda>iterations.
     then_read (read_exact 16) (\<lambda>salt.
     then_read (read_exact 8) (\<lambda>iv.
     then_read (read_u64 e) (\<lambda>flags.
     then_read (read_exact 8) (\<lambda>res.
     then_read (read_u64 e) (\<lambda>ai_count.
     then_read (read_u64 e) (\<lambda>ai_offset.
     give \<lparr>magic = mag, major_version = major, minor_version = minor, patch_version = patch,
           endianness = endian, header_crc32 = crc, file_size = size, creation_time = created,
           file_uuid = uuid, index_offset = ix_offset, index_entry_count = ix_count,
           index_entry_size = ix_size, encryption_algo = enc, kdf_algo = kdf, signature_algo = sig,
           ai_tracking = ai, kdf_iterations = iterations, kdf_salt = salt, file_iv = iv,
           feature_flags = FeatureFlags flags, hdr_reserved = res, ai_command_count = ai_count,
           ai_chunk_offset = ai_offset\<rparr>)))))))))))))))))))))))"

text \<open>The writer, from the version on: the magic bytes are put in front.\<close>

definition fields_after_crc :: "endianness \<Rightarrow> file_header \<Rightarrow> byte list" where
  "fields_after_crc e h =
     write_u64 e (file_size h) @ write_u64 e (creation_time h) @ file_uuid h @
     write_u64 e (index_offset h) @ write_u32 e (index_entry_count h) @
     write_u32 e (index_entry_size h) @
     [encryption_algo h, kdf_algo h, signature_algo h, ai_tracking h] @
     write_u32 e (kdf_iterations h) @ kdf_salt h @ file_iv h @
     write_u64 e (flag_bits (feature_flags h)) @ hdr_reserved h @
     write_u64 e (ai_command_count h) @ write_u64 e (ai_chunk_offset h)"

definition serialize_fields :: "endianness \<Rightarrow> file_header \<Rightarrow> byte list" where
  "serialize_fields e h =
     [major_version h, minor_version h, patch_version h, endianness_code (endianness h)] @
     write_u32 e (header_crc32 h) @ fields_after_crc e h"

definition serialize_with_endianness :: "endianness \<Rightarrow> file_header \<Rightarrow> byte list" where
  "serialize_with_endianness e h = magic h @ serialize_fields e h"

definition read_from :: "(byte list \<Rightarrow> 32 word) \<Rightarrow> file_header reader" where
  "read_from crc32 =
     then_read (read_exact HEADER_SIZE) (\<lambda>bytes.
     if take 8 bytes \<noteq> ROSHERA_MAGIC
     then check (Err (Format (InvalidMagic ROSHERA_MAGIC (take 8 bytes))))
     else
     then_read (check (endianness_from_u8 (bytes ! 11))) (\<lambda>e.
     then_read (check (map_sum id fst (parse_with_endianness e (take 8 bytes) (drop 8 bytes)))) (\<lambda>header.
     case header_crc_input bytes (bytes ! 8) (bytes ! 9) of
       None \<Rightarrow> check (Err (Format (InvalidHeader ''header_crc32'' (Header_not_whole (length bytes)))))
     | Some input \<Rightarrow>
         let computed = crc32 input; stored = of_nat (value_of e (take 4 (drop 12 bytes)))
         in if computed \<noteq> stored
            then check (Err (Format (CrcMismatch ''header'' stored computed)))
            else give header)))"

definition to_bytes ::
  "(byte list \<Rightarrow> 32 word) \<Rightarrow> file_header \<Rightarrow> (ros_error, byte list) result \<times> file_header" where
  "to_bytes crc32 h =
     (let bytes = serialize_with_endianness (endianness h) h
      in case header_crc_input bytes (major_version h) (minor_version h) of
           None \<Rightarrow> (Err (Format (InvalidHeader ''header_crc32'' (Header_not_whole (length bytes)))), h)
         | Some input \<Rightarrow>
             let crc = crc32 input
             in (Ok (take 12 bytes @ bytes_of (endianness h) 4 (unat crc) @ drop 16 bytes),
                 h\<lparr>header_crc32 := crc\<rparr>))"

definition write_to ::
  "(byte list \<Rightarrow> 32 word) \<Rightarrow> file_header \<Rightarrow> byte list \<Rightarrow> (ros_error, byte list) result \<times> file_header" where
  "write_to crc32 h file =
     (case to_bytes crc32 h of
        (Err e, h') \<Rightarrow> (Err e, h')
      | (Ok bytes, h') \<Rightarrow> (Ok (bytes @ drop (length bytes) file), h'))"

definition is_supported :: "file_header \<Rightarrow> (ros_error, unit) result" where
  "is_supported h =
     (if magic h \<noteq> ROSHERA_MAGIC then Err (Format (InvalidMagic ROSHERA_MAGIC (magic h)))
      else if CURRENT_MAJOR_VERSION < major_version h
      then Err (Version (VersionTooNew (major_version h, minor_version h, patch_version h)))
      else if major_version h < 3
      then Err (Version (VersionTooOld (major_version h, minor_version h, patch_version h)))
      else Ok ())"

definition validate_header :: "file_header \<Rightarrow> (ros_error, unit) result" where
  "validate_header h =
     (case is_supported h of Err e \<Rightarrow> Err e
      | Ok _ \<Rightarrow>
          if \<not> list_all (\<lambda>b. b = 0) (hdr_reserved h)
          then Err (Format (InvalidHeader ''reserved'' Header_reserved_not_zero))
          else if index_entry_size h \<noteq> 96
          then Err (Format (InvalidHeader ''index_entry_size'' (Must_be_96 (index_entry_size h))))
          else if 2 < encryption_algo h
          then Err (Format (InvalidHeader ''encryption_algo'' (Invalid_algorithm (encryption_algo h))))
          else if encryption_algo h \<noteq> 0 \<and> kdf_algo h = 0
          then Err (Format (InvalidHeader ''kdf_algo'' Kdf_required))
          else Ok ())"

section \<open>The codec of the fields\<close>

definition fields_wf :: "file_header \<Rightarrow> bool" where
  "fields_wf h \<longleftrightarrow> length (file_uuid h) = 16 \<and> length (kdf_salt h) = 16 \<and>
     length (file_iv h) = 8 \<and> length (hdr_reserved h) = 8"

definition header_wf :: "file_header \<Rightarrow> bool" where
  "header_wf h \<longleftrightarrow> length (magic h) = 8 \<and> fields_wf h"

lemma endianness_from_u8_Ok: "endianness_from_u8 b = Ok e \<longleftrightarrow> b = endianness_code e"
  by (cases e) (auto simp: endianness_from_u8_def)

lemma endianness_code_neq [simp]: "endianness_code e = endianness_code e' \<longleftrightarrow> e = e'"
  by (cases e; cases e') auto

lemma then_read_give: "r bs = Ok (x, bs') \<Longrightarrow> then_read r f bs = f x bs'"
  by (simp add: then_read_def)

lemma parse_fields_complete:
  assumes "fields_wf h"
  shows "parse_with_endianness e (magic h) (serialize_fields e h @ rest) = Ok (h, rest)"
  using assms
  unfolding parse_with_endianness_def serialize_fields_def fields_after_crc_def fields_wf_def
  by (cases h) (simp add: then_read_def check_def give_def endianness_from_u8_Ok [THEN iffD2]
      u32.read_write u64.read_write raw.read_write)

lemma parse_fields_sound:
  "parse_with_endianness e m bs = Ok (h, rest) \<Longrightarrow>
   magic h = m \<and> fields_wf h \<and> bs = serialize_fields e h @ rest"
  unfolding parse_with_endianness_def serialize_fields_def fields_after_crc_def fields_wf_def
  by (clarsimp simp: reads endianness_from_u8_Ok)

interpretation hdr: codec "parse_with_endianness e m" "serialize_fields e" "\<lambda>h. magic h = m \<and> fields_wf h"
  for e m
  by unfold_locales (metis parse_fields_complete, blast dest: parse_fields_sound)

lemma length_fields [simp]: "fields_wf h \<Longrightarrow> length (serialize_fields e h) = 120"
  by (simp add: serialize_fields_def fields_after_crc_def fields_wf_def)

section \<open>The image\<close>

text \<open>The image of a header, split around the checksum.\<close>

definition header_image :: "file_header \<Rightarrow> byte list" where
  "header_image h = serialize_with_endianness (endianness h) h"

definition before_crc :: "file_header \<Rightarrow> byte list" where
  "before_crc h = magic h @ [major_version h, minor_version h, patch_version h, endianness_code (endianness h)]"

abbreviation after_crc :: "file_header \<Rightarrow> byte list" where
  "after_crc h \<equiv> fields_after_crc (endianness h) h"

lemma header_image_split: "header_image h = before_crc h @ write_u32 (endianness h) (header_crc32 h) @ after_crc h"
  by (simp add: header_image_def serialize_with_endianness_def serialize_fields_def before_crc_def)

lemma length_header_image [simp]: "header_wf h \<Longrightarrow> length (header_image h) = 128"
  by (simp add: header_image_def serialize_with_endianness_def header_wf_def)

lemma length_before_crc [simp]: "header_wf h \<Longrightarrow> length (before_crc h) = 12"
  by (simp add: before_crc_def header_wf_def)

lemma length_after_crc [simp]: "header_wf h \<Longrightarrow> length (after_crc h) = 112"
  by (simp add: fields_after_crc_def header_wf_def fields_wf_def)

lemma fields_after_crc_update [simp]: "fields_after_crc e (h\<lparr>header_crc32 := c\<rparr>) = fields_after_crc e h"
  by (simp add: fields_after_crc_def)

lemma before_crc_update [simp]: "before_crc (h\<lparr>header_crc32 := c\<rparr>) = before_crc h"
  by (simp add: before_crc_def)

lemma header_wf_update [simp]: "header_wf (h\<lparr>header_crc32 := c\<rparr>) = header_wf h"
  by (simp add: header_wf_def fields_wf_def)

text \<open>What the checksum of a header covers: its own bytes but the checksum.\<close>

definition crc_cover :: "file_header \<Rightarrow> byte list" where
  "crc_cover h = before_crc h @
     (if uses_integrity_scheme_v2 (major_version h) (minor_version h) then after_crc h else [])"

lemma header_crc_input_image:
  "header_wf h \<Longrightarrow>
   header_crc_input (header_image h) (major_version h) (minor_version h) = Some (crc_cover h)"
  by (simp add: header_crc_input_def header_image_split crc_cover_def HEADER_SIZE_def)

lemma to_bytes_eq:
  assumes "header_wf h"
  shows "to_bytes crc32 h =
    (Ok (header_image (h\<lparr>header_crc32 := crc32 (crc_cover h)\<rparr>)), h\<lparr>header_crc32 := crc32 (crc_cover h)\<rparr>)"
  using header_crc_input_image [OF assms] assms
  by (simp add: to_bytes_def header_image_def [symmetric] Let_def header_image_split write_u32_def)

lemma ROSHERA_MAGIC_length [simp]: "length ROSHERA_MAGIC = 8"
  by (simp add: ROSHERA_MAGIC_def)

lemma header_image_bytes:
  assumes "header_wf h"
  shows "take 8 (header_image h) = magic h" "drop 8 (header_image h) = serialize_fields (endianness h) h"
    "header_image h ! 8 = major_version h" "header_image h ! 9 = minor_version h"
    "header_image h ! 11 = endianness_code (endianness h)"
    "of_nat (value_of (endianness h) (take 4 (drop 12 (header_image h)))) = header_crc32 h"
proof -
  show "of_nat (value_of (endianness h) (take 4 (drop 12 (header_image h)))) = header_crc32 h"
  proof -
    have "unat (header_crc32 h) < 256 ^ 4" using unsigned_less [of "header_crc32 h"] by simp
    then show ?thesis using assms by (simp add: header_image_split write_u32_def value_of_bytes_of)
  qed
qed (use assms in \<open>simp_all add: header_image_def serialize_with_endianness_def serialize_fields_def
      header_wf_def nth_append\<close>)

text \<open>The reader accepts exactly the images of well-formed headers with the right checksum.\<close>

lemma read_from_complete:
  assumes "header_wf h" "magic h = ROSHERA_MAGIC" "header_crc32 h = crc32 (crc_cover h)"
  shows "read_from crc32 (header_image h @ rest) = Ok (h, rest)"
proof -
  have "parse_with_endianness (endianness h) ROSHERA_MAGIC (drop 8 (header_image h)) = Ok (h, [])"
    using parse_fields_complete [of h "endianness h" "[]"] assms header_image_bytes [OF assms(1)]
    by (simp add: header_wf_def)
  moreover have "read_exact HEADER_SIZE (header_image h @ rest) = Ok (header_image h, rest)"
    using assms(1) by (simp add: HEADER_SIZE_def raw.read_write)
  ultimately show ?thesis
    using assms header_image_bytes [OF assms(1)] header_crc_input_image [OF assms(1)]
    by (simp add: read_from_def then_read_def check_def give_def endianness_from_u8_Ok [THEN iffD2] Let_def)
qed

lemma read_from_sound:
  assumes "read_from crc32 bs = Ok (h, rest)"
  shows "header_wf h \<and> magic h = ROSHERA_MAGIC \<and> header_crc32 h = crc32 (crc_cover h) \<and> bs = header_image h @ rest"
proof -
  obtain bytes e where bs: "length bytes = 128" "bs = bytes @ rest" and m: "take 8 bytes = ROSHERA_MAGIC"
    and e: "bytes ! 11 = endianness_code e"
    and p: "map_sum id fst (parse_with_endianness e ROSHERA_MAGIC (drop 8 bytes)) = Ok h"
    and c: "\<exists>input. header_crc_input bytes (bytes ! 8) (bytes ! 9) = Some input \<and>
      crc32 input = of_nat (value_of e (take 4 (drop 12 bytes)))"
    using assms
    by (auto simp: read_from_def reads endianness_from_u8_Ok HEADER_SIZE_def Let_def
        split: if_splits option.splits)
  obtain r where "parse_with_endianness e ROSHERA_MAGIC (drop 8 bytes) = Ok (h, r)"
    using p by (cases "parse_with_endianness e ROSHERA_MAGIC (drop 8 bytes)") auto
  from parse_fields_sound [OF this]
  have h: "magic h = ROSHERA_MAGIC" "fields_wf h" "drop 8 bytes = serialize_fields e h @ r" by auto
  have "length (drop 8 bytes) = 120" using bs by simp
  then have "r = []" using h by (simp del: length_drop)
  then have b: "bytes = magic h @ serialize_fields e h"
    using append_take_drop_id [of 8 bytes] m h by simp
  have wf: "header_wf h" using h by (simp add: header_wf_def)
  have "endianness h = e"
    using e h(1) unfolding b by (simp add: serialize_fields_def nth_append)
  then have img: "bytes = header_image h" by (simp add: b header_image_def serialize_with_endianness_def)
  show ?thesis
    using c h(1) wf header_image_bytes [OF wf] header_crc_input_image [OF wf] bs \<open>endianness h = e\<close>
    unfolding img by auto
qed

definition header_ok :: "(byte list \<Rightarrow> 32 word) \<Rightarrow> file_header \<Rightarrow> bool" where
  "header_ok crc32 h \<longleftrightarrow>
     header_wf h \<and> magic h = ROSHERA_MAGIC \<and> header_crc32 h = crc32 (crc_cover h)"

interpretation file_hdr: codec "read_from crc32" header_image "header_ok crc32" for crc32
  by unfold_locales (metis header_ok_def read_from_complete, metis header_ok_def read_from_sound)

lemma read_from_length: "read_from crc32 bs = Ok (h, rest) \<Longrightarrow> take 128 bs = header_image h"
  using file_hdr.read_iff [of crc32 bs h rest] by (auto simp: header_ok_def)

lemma to_bytes_ok:
  "header_wf h \<Longrightarrow> magic h = ROSHERA_MAGIC \<Longrightarrow> header_ok crc32 (snd (to_bytes crc32 h))"
  by (simp add: to_bytes_eq header_ok_def crc_cover_def)

lemma read_u8_some: "0 < length bs \<Longrightarrow> read_u8 bs = Ok (hd bs, drop 1 bs)"
  by (cases bs) auto

text \<open>Any 112 bytes after the checksum are fields of some header.\<close>

lemma fields_total:
  assumes "length junk = 112"
  shows "\<exists>h. magic h = m \<and> fields_wf h \<and> before_crc h = m @ [a, b, c, endianness_code e] \<and>
    header_crc32 h = crc \<and> endianness h = e \<and> fields_after_crc e h = junk"
proof -
  have "\<exists>h r. parse_with_endianness e m ([a, b, c, endianness_code e] @ write_u32 e crc @ junk) = Ok (h, r)"
    using assms
    by (simp add: parse_with_endianness_def then_read_def check_def give_def read_u64_def read_exact_def
        endianness_from_u8_Ok [THEN iffD2] u32.read_write read_u8_some)
      (simp add: read_u32_def then_read_def read_exact_def give_def read_u8_some)
  then obtain h r where p: "parse_with_endianness e m ([a, b, c, endianness_code e] @ write_u32 e crc @ junk) =
      Ok (h, r)" by blast
  from parse_fields_sound [OF p] have h: "magic h = m" "fields_wf h"
    and eq: "[a, b, c, endianness_code e] @ write_u32 e crc @ junk = serialize_fields e h @ r" by auto
  have "length r = 0" using arg_cong [OF eq, of length] assms h(2) by simp
  then show ?thesis
    using eq h u32.write_inj [where e = "endianness h" and x = crc and r = "[]" and y = "header_crc32 h" and s = "[]"]
    by (intro exI [of _ h]) (auto simp: serialize_fields_def before_crc_def)
qed

lemma new_header_valid:
  "length uuid = 16 \<Longrightarrow> header_wf (new_header native now uuid) \<and>
   validate_header (new_header native now uuid) = Ok ()"
  by (simp add: new_header_def header_wf_def fields_wf_def validate_header_def is_supported_def
      CURRENT_MAJOR_VERSION_def list_all_iff)

lemma flags_bits:
  "has_signature f = bit (flag_bits f) 0" "encrypted_flag f = bit (flag_bits f) 4"
  "ai_provenance f = bit (flag_bits f) 5" "timestamped f = bit (flag_bits f) 9"
  by (simp_all only: has_signature_def encrypted_flag_def ai_provenance_def timestamped_def
      bit_iff_and_push_bit_not_eq_0)

lemma flags_independent:
  "has_signature (with_signature f)" "encrypted_flag (with_signature f) = encrypted_flag f"
  "ai_provenance (with_signature f) = ai_provenance f" "timestamped (with_signature f) = timestamped f"
  "encrypted_flag (with_encryption f)" "has_signature (with_encryption f) = has_signature f"
  "ai_provenance (with_encryption f) = ai_provenance f" "timestamped (with_encryption f) = timestamped f"
  by (simp_all add: flags_bits with_signature_def with_encryption_def bit_or_iff bit_push_bit_iff
      bit_1_iff del: push_bit_of_1)

end
