(* ===== verification/Ros_Chunk.thy ===== *)
theory Ros_Chunk
  imports Ros_Codec
begin

text \<open>
  \<^verbatim>\<open>ros-format/src/chunk.rs\<close>: chunk types, the 96-byte entries of the chunk index, chunks in
  memory, and the chunk table with its validation.

  The sums of offsets and sizes in the table's overlap check are \<^verbatim>\<open>u64\<close> additions of values
  read from the file; they wrap, as in a build without overflow checks (the release profile of the
  workspace; a build with them stops the process there). \<open>crc32\<close> is the parameter of
  \<open>Ros_Header\<close>.
\<close>

section \<open>Chunk types\<close>

definition CHUNK_INDEX_ENTRY_SIZE :: nat where "CHUNK_INDEX_ENTRY_SIZE = 96"
definition MAX_CHUNK_SIZE :: "64 word" where "MAX_CHUNK_SIZE = 1024 * 1024 * 1024"

datatype chunk_type =
    META | HIST | PROV | GEOM | TOPO | FEAT | CONS | KEYS | BCHN | ACLS | SIGN | CUSTOM fourcc

definition ascii :: "string \<Rightarrow> byte list" where
  "ascii s = map (\<lambda>c. of_nat (of_char c)) s"

fun as_fourcc :: "chunk_type \<Rightarrow> fourcc" where
  "as_fourcc META = ascii ''META''"
| "as_fourcc HIST = ascii ''HIST''"
| "as_fourcc PROV = ascii ''PROV''"
| "as_fourcc GEOM = ascii ''GEOM''"
| "as_fourcc TOPO = ascii ''TOPO''"
| "as_fourcc FEAT = ascii ''FEAT''"
| "as_fourcc CONS = ascii ''CONS''"
| "as_fourcc KEYS = ascii ''KEYS''"
| "as_fourcc BCHN = ascii ''BCHN''"
| "as_fourcc ACLS = ascii ''ACLS''"
| "as_fourcc SIGN = ascii ''SIGN''"
| "as_fourcc (CUSTOM c) = c"

definition from_fourcc :: "fourcc \<Rightarrow> chunk_type" where
  "from_fourcc code =
     (if code = ascii ''META'' then META
      else if code = ascii ''HIST'' then HIST
      else if code = ascii ''PROV'' then PROV
      else if code = ascii ''GEOM'' then GEOM
      else if code = ascii ''TOPO'' then TOPO
      else if code = ascii ''FEAT'' then FEAT
      else if code = ascii ''CONS'' then CONS
      else if code = ascii ''KEYS'' then KEYS
      else if code = ascii ''BCHN'' then BCHN
      else if code = ascii ''ACLS'' then ACLS
      else if code = ascii ''SIGN'' then SIGN
      else CUSTOM code)"

fun is_required :: "chunk_type \<Rightarrow> bool" where
  "is_required META = True"
| "is_required HIST = True"
| "is_required PROV = True"
| "is_required _ = False"

fun should_encrypt :: "chunk_type \<Rightarrow> bool" where
  "should_encrypt GEOM = True"
| "should_encrypt TOPO = True"
| "should_encrypt FEAT = True"
| "should_encrypt HIST = True"
| "should_encrypt PROV = True"
| "should_encrypt _ = False"

lemma as_fourcc_from [simp]: "as_fourcc (from_fourcc c) = c"
  by (simp add: from_fourcc_def)

datatype compression_algorithm = Uncompressed | Inherit | Zstd | Lzma | Brotli

definition compression_from_u8 :: "byte \<Rightarrow> (ros_error, compression_algorithm) result" where
  "compression_from_u8 b =
     (if b = 0 then Ok Uncompressed
      else if b = 1 then Ok Inherit
      else if b = 2 then Ok Zstd
      else if b = 3 then Ok Lzma
      else if b = 4 then Ok Brotli
      else Err (Format (InvalidChunk (Named ''unknown'') 0 (Invalid_compression b))))"

fun compression_code :: "compression_algorithm \<Rightarrow> byte" where
  "compression_code Uncompressed = 0"
| "compression_code Inherit = 1"
| "compression_code Zstd = 2"
| "compression_code Lzma = 3"
| "compression_code Brotli = 4"

lemma compression_from_u8_Ok: "compression_from_u8 b = Ok c \<longleftrightarrow> b = compression_code c"
  by (cases c) (auto simp: compression_from_u8_def)

section \<open>Index entries\<close>

record chunk_index_entry =
  chunk_type :: fourcc
  version :: "32 word"
  offset :: "64 word"
  uncompressed_size :: "64 word"
  compressed_size :: "64 word"
  ent_crc32 :: "32 word"
  flags :: "32 word"
  compression :: compression_algorithm
  comp_level :: byte
  reserved_comp :: "byte list"
  encrypted :: bool
  enc_algo :: byte
  key_id :: "byte list"
  chunk_iv :: "byte list"
  auth_tag :: "byte list"
  access_level :: "32 word"
  owner_id :: "32 word"
  ent_reserved :: "byte list"

definition new_entry :: "fourcc \<Rightarrow> chunk_index_entry" where
  "new_entry code =
     \<lparr>chunk_type = code, version = 1, offset = 0, uncompressed_size = 0, compressed_size = 0,
      ent_crc32 = 0, flags = 0, compression = Uncompressed, comp_level = 0,
      reserved_comp = replicate 6 0, encrypted = False, enc_algo = 0, key_id = replicate 16 0,
      chunk_iv = replicate 12 0, auth_tag = replicate 2 0, access_level = 0, owner_id = 0,
      ent_reserved = replicate 8 0\<rparr>"

abbreviation label_of :: "chunk_index_entry \<Rightarrow> chunk_label" where
  "label_of e \<equiv> Code (chunk_type e)"

definition is_all_zeros :: "byte list \<Rightarrow> bool" where
  "is_all_zeros bs = list_all (\<lambda>b. b = 0) bs"

definition validate_entry :: "chunk_index_entry \<Rightarrow> (ros_error, unit) result" where
  "validate_entry e =
     (if \<not> is_all_zeros (ent_reserved e) \<or> \<not> is_all_zeros (reserved_comp e)
      then Err (Format (InvalidChunk (label_of e) (offset e) Reserved_not_zero))
      else if MAX_CHUNK_SIZE < uncompressed_size e
      then Err (Format (InvalidChunkSize (label_of e) (uncompressed_size e) MAX_CHUNK_SIZE))
      else if compression e \<noteq> Uncompressed \<and> 0 < compressed_size e \<and>
              uncompressed_size e \<le> compressed_size e
      then Err (Format (InvalidChunk (label_of e) (offset e) Compressed_not_smaller))
      else if encrypted e \<and> 3 < enc_algo e
      then Err (Format (InvalidChunk (label_of e) (offset e) (Invalid_encryption (enc_algo e))))
      else Ok ())"

definition read_entry :: "chunk_index_entry reader" where
  "read_entry =
     then_read (read_exact 4) (\<lambda>code.
     then_read (read_u32 Little) (\<lambda>ver.
     then_read (read_u64 Little) (\<lambda>off.
     then_read (read_u64 Little) (\<lambda>usize.
     then_read (read_u64 Little) (\<lambda>csize.
     then_read (read_u32 Little) (\<lambda>crc.
     then_read (read_u32 Little) (\<lambda>fl.
     then_read read_u8 (\<lambda>cb.
     then_read (check (compression_from_u8 cb)) (\<lambda>comp.
     then_read read_u8 (\<lambda>level.
     then_read (read_exact 6) (\<lambda>res_comp.
     then_read read_u8 (\<lambda>eb.
     then_read read_u8 (\<lambda>algo.
     then_read (read_exact 16) (\<lambda>key.
     then_read (read_exact 12) (\<lambda>iv.
     then_read (read_exact 2) (\<lambda>tag.
     then_read (read_u32 Little) (\<lambda>level_required.
     then_read (read_u32 Little) (\<lambda>owner.
     then_read (read_exact 8) (\<lambda>res.
     let e = \<lparr>chunk_type = code, version = ver, offset = off, uncompressed_size = usize,
              compressed_size = csize, ent_crc32 = crc, flags = fl, compression = comp,
              comp_level = level, reserved_comp = res_comp, encrypted = (eb \<noteq> 0), enc_algo = algo,
              key_id = key, chunk_iv = iv, auth_tag = tag, access_level = level_required,
              owner_id = owner, ent_reserved = res\<rparr>
     in then_read (check (validate_entry e)) (\<lambda>_. give e))))))))))))))))))))"

definition write_entry :: "chunk_index_entry \<Rightarrow> byte list" where
  "write_entry e =
     chunk_type e @ write_u32 Little (version e) @ write_u64 Little (offset e) @
     write_u64 Little (uncompressed_size e) @ write_u64 Little (compressed_size e) @
     write_u32 Little (ent_crc32 e) @ write_u32 Little (flags e) @
     [compression_code (compression e), comp_level e] @ reserved_comp e @
     [if encrypted e then 1 else 0, enc_algo e] @ key_id e @ chunk_iv e @ auth_tag e @
     write_u32 Little (access_level e) @ write_u32 Little (owner_id e) @ ent_reserved e"

definition verify_entry_crc :: "(byte list \<Rightarrow> 32 word) \<Rightarrow> chunk_index_entry \<Rightarrow> byte list \<Rightarrow> bool" where
  "verify_entry_crc crc32 e bytes \<longleftrightarrow> crc32 bytes = ent_crc32 e"

definition size_on_disk :: "chunk_index_entry \<Rightarrow> 64 word" where
  "size_on_disk e = (if 0 < compressed_size e then compressed_size e else uncompressed_size e)"

definition is_compressed :: "chunk_index_entry \<Rightarrow> bool" where
  "is_compressed e \<longleftrightarrow>
     compression e \<noteq> Uncompressed \<and> compression e \<noteq> Inherit \<and> 0 < compressed_size e"

section \<open>Chunks and the table\<close>

record chunk =
  index :: chunk_index_entry
  data :: "byte list"

definition new_chunk :: "(byte list \<Rightarrow> 32 word) \<Rightarrow> chunk_type \<Rightarrow> byte list \<Rightarrow> chunk" where
  "new_chunk crc32 t bytes =
     \<lparr>index = (new_entry (as_fourcc t))\<lparr>uncompressed_size := of_nat (length bytes),
                                         ent_crc32 := crc32 bytes\<rparr>,
      data = bytes\<rparr>"

definition verify_crc :: "(byte list \<Rightarrow> 32 word) \<Rightarrow> chunk \<Rightarrow> bool" where
  "verify_crc crc32 c = verify_entry_crc crc32 (index c) (data c)"

definition update_crc :: "(byte list \<Rightarrow> 32 word) \<Rightarrow> chunk \<Rightarrow> chunk" where
  "update_crc crc32 c = c\<lparr>index := (index c)\<lparr>ent_crc32 := crc32 (data c)\<rparr>\<rparr>"

type_synonym chunk_table = "chunk_index_entry list"

definition find_by_type :: "chunk_table \<Rightarrow> chunk_type \<Rightarrow> chunk_index_entry option" where
  "find_by_type table t = find (\<lambda>e. chunk_type e = as_fourcc t) table"

definition find_all_by_type :: "chunk_table \<Rightarrow> chunk_type \<Rightarrow> chunk_index_entry list" where
  "find_all_by_type table t = filter (\<lambda>e. chunk_type e = as_fourcc t) table"

fun read_entries :: "64 word \<Rightarrow> nat \<Rightarrow> nat \<Rightarrow> chunk_table reader" where
  "read_entries off i 0 = give []"
| "read_entries off i (Suc n) = (\<lambda>bs.
     case read_entry bs of
       Err e \<Rightarrow> Err (Format (InvalidChunk (Named ''index'')
                   (off + of_nat i * of_nat CHUNK_INDEX_ENTRY_SIZE) (Failed_to_read i e)))
     | Ok (e, bs') \<Rightarrow> then_read (read_entries off (Suc i) n) (\<lambda>es. give (e # es)) bs')"

definition read_table :: "byte list \<Rightarrow> 64 word \<Rightarrow> 32 word \<Rightarrow> (ros_error, chunk_table) result" where
  "read_table file off entries =
     map_sum id fst (read_entries off 0 (unat entries) (drop (unat off) file))"

definition write_table :: "chunk_table \<Rightarrow> byte list" where
  "write_table table = concat (map write_entry table)"

fun validate_entries :: "nat \<Rightarrow> chunk_table \<Rightarrow> (ros_error, unit) result" where
  "validate_entries i [] = Ok ()"
| "validate_entries i (e # es) =
     (case validate_entry e of Err er \<Rightarrow> Err (Invalid_chunk_at i er)
      | Ok _ \<Rightarrow> validate_entries (Suc i) es)"

fun check_overlaps :: "chunk_table \<Rightarrow> (ros_error, unit) result" where
  "check_overlaps (before # cur # es) =
     (let prev_end = offset before + size_on_disk before
      in if offset cur < prev_end
         then Err (Format (InvalidChunk (label_of cur) (offset cur) (Overlaps_previous prev_end)))
         else check_overlaps (cur # es))"
| "check_overlaps _ = Ok ()"

definition validate_table :: "chunk_table \<Rightarrow> (ros_error, unit) result" where
  "validate_table table =
     (case find (\<lambda>t. find_by_type table t = None) [META, HIST, PROV] of
        Some t \<Rightarrow> Err (Format (MissingRequiredChunk (Code (as_fourcc t))))
      | None \<Rightarrow>
          (case validate_entries 0 table of Err e \<Rightarrow> Err e
           | Ok _ \<Rightarrow> check_overlaps (sort_key offset table)))"

section \<open>Entries and tables are read back\<close>

definition entry_wf :: "chunk_index_entry \<Rightarrow> bool" where
  "entry_wf e \<longleftrightarrow> length (chunk_type e) = 4 \<and> length (reserved_comp e) = 6 \<and>
     length (key_id e) = 16 \<and> length (chunk_iv e) = 12 \<and> length (auth_tag e) = 2 \<and>
     length (ent_reserved e) = 8"

lemma length_write_entry [simp]: "entry_wf e \<Longrightarrow> length (write_entry e) = 96"
  by (simp add: write_entry_def entry_wf_def)

lemma read_entry_complete:
  assumes "entry_wf e" "validate_entry e = Ok ()"
  shows "read_entry (write_entry e @ rest) = Ok (e, rest)"
  using assms unfolding read_entry_def write_entry_def entry_wf_def
  by (cases e; cases "encrypted e"; simp add: then_read_def check_def give_def compression_from_u8_Ok [THEN iffD2]
      u32.read_write u64.read_write raw.read_write Let_def)

interpretation ent: decoder read_entry write_entry "\<lambda>e. entry_wf e \<and> validate_entry e = Ok ()"
  by unfold_locales (blast intro: read_entry_complete)

text \<open>Whatever it accepts is well formed and valid, and takes 96 bytes. The reader takes any
  non-zero byte for the encryption flag, the writer only writes 1: that byte aside, the image is the
  one the writer gives.\<close>

definition before_flag :: "chunk_index_entry \<Rightarrow> byte list" where
  "before_flag e =
     chunk_type e @ write_u32 Little (version e) @ write_u64 Little (offset e) @
     write_u64 Little (uncompressed_size e) @ write_u64 Little (compressed_size e) @
     write_u32 Little (ent_crc32 e) @ write_u32 Little (flags e) @
     [compression_code (compression e), comp_level e] @ reserved_comp e"

definition after_flag :: "chunk_index_entry \<Rightarrow> byte list" where
  "after_flag e = enc_algo e # key_id e @ chunk_iv e @ auth_tag e @
     write_u32 Little (access_level e) @ write_u32 Little (owner_id e) @ ent_reserved e"

lemma write_entry_split: "write_entry e = before_flag e @ (if encrypted e then 1 else 0) # after_flag e"
  by (simp add: write_entry_def before_flag_def after_flag_def)

lemma length_before_flag [simp]: "entry_wf e \<Longrightarrow> length (before_flag e) = 48"
  by (simp add: before_flag_def entry_wf_def)

lemma read_entry_sound:
  assumes "read_entry bs = Ok (e, rest)"
  shows "entry_wf e \<and> validate_entry e = Ok () \<and>
    (\<exists>b. (b \<noteq> 0) = encrypted e \<and> bs = (write_entry e)[48 := b] @ rest)"
proof -
  have wf: "entry_wf e \<and> validate_entry e = Ok ()"
    using assms unfolding read_entry_def entry_wf_def Let_def
    by (clarsimp simp: reads)
  have "\<exists>b. (b \<noteq> 0) = encrypted e \<and> bs = before_flag e @ b # after_flag e @ rest"
    using assms unfolding read_entry_def before_flag_def after_flag_def Let_def
    by (clarsimp simp: reads compression_from_u8_Ok)
  then show ?thesis
    using wf list_update_length [of "before_flag e"] by (auto simp: write_entry_split)
qed

end
