(* ===== verification/Ros_Merkle.thy ===== *)
theory Ros_Merkle
  imports Ros_Codec
begin

text \<open>
  \<^verbatim>\<open>ros-format/src/merkle.rs\<close>: the Merkle tree over the signed leaves of a file, its inclusion
  proofs and their verification.

  The hash functions belong to the \<^verbatim>\<open>sha2\<close> crate: they are the parameter \<open>H\<close>, one function from
  bytes to bytes per algorithm. \<open>build\<close> is the \<^verbatim>\<open>while nodes.len() > 1\<close> loop; it terminates since a
  level halves. What is proved about a proof that verifies is that its leaf is in the tree, or that
  two of the byte strings hashed on the way form a collision: the two strings are exhibited among
  \<open>hashed\<close> (by the tree) and \<open>rehashed\<close> (by the verifier), since a function with short outputs always
  has collisions somewhere.
\<close>

section \<open>Trees\<close>

datatype hash_algorithm = Sha256 | Sha512

fun hash_size :: "hash_algorithm \<Rightarrow> nat" where
  "hash_size Sha256 = 32"
| "hash_size Sha512 = 64"

type_synonym hashing = "hash_algorithm \<Rightarrow> byte list \<Rightarrow> byte list"

datatype merkle_node = MerkleNode
  (node_hash: "byte list")
  (left: "merkle_node option")
  (right: "merkle_node option")
  (is_leaf: bool)
  (node_index: "nat option")

definition leaf_prefix :: "byte list" where
  "leaf_prefix = map of_nat [108, 101, 97, 102, 58]"

definition node_prefix :: "byte list" where
  "node_prefix = map of_nat [110, 111, 100, 101, 58]"

definition leaf_hash_of :: "hashing \<Rightarrow> hash_algorithm \<Rightarrow> byte list \<Rightarrow> byte list" where
  "leaf_hash_of H alg d = H alg (leaf_prefix @ d)"

definition hash_pair :: "hashing \<Rightarrow> hash_algorithm \<Rightarrow> byte list \<Rightarrow> byte list \<Rightarrow> byte list" where
  "hash_pair H alg l r = H alg (node_prefix @ l @ r)"

definition leaf :: "hashing \<Rightarrow> hash_algorithm \<Rightarrow> byte list \<Rightarrow> nat \<Rightarrow> merkle_node" where
  "leaf H alg d i = MerkleNode (leaf_hash_of H alg d) None None True (Some i)"

definition internal :: "hashing \<Rightarrow> hash_algorithm \<Rightarrow> merkle_node \<Rightarrow> merkle_node \<Rightarrow> merkle_node" where
  "internal H alg l r =
     MerkleNode (hash_pair H alg (node_hash l) (node_hash r)) (Some l) (Some r) False None"

record merkle_tree =
  root :: "merkle_node option"
  leaves :: "byte list list"
  algorithm :: hash_algorithm

definition new_tree :: "hash_algorithm \<Rightarrow> merkle_tree" where
  "new_tree alg = \<lparr>root = None, leaves = [], algorithm = alg\<rparr>"

fun next_level :: "hashing \<Rightarrow> hash_algorithm \<Rightarrow> merkle_node list \<Rightarrow> merkle_node list" where
  "next_level H alg [] = []"
| "next_level H alg [x] = [internal H alg x x]"
| "next_level H alg (x # y # xs) = internal H alg x y # next_level H alg xs"

lemma length_next_level [simp]: "length (next_level H alg xs) = (length xs + 1) div 2"
  by (induction H alg xs rule: next_level.induct) auto

function build :: "hashing \<Rightarrow> hash_algorithm \<Rightarrow> merkle_node list \<Rightarrow> merkle_node list" where
  "build H alg nodes = (if 1 < length nodes then build H alg (next_level H alg nodes) else nodes)"
  by auto
termination by (relation "measure (\<lambda>(H, alg, nodes). length nodes)") auto

declare build.simps [simp del]

definition leaf_nodes :: "hashing \<Rightarrow> hash_algorithm \<Rightarrow> byte list list \<Rightarrow> merkle_node list" where
  "leaf_nodes H alg ds = map2 (leaf H alg) ds [0..<length ds]"

definition from_leaves :: "hashing \<Rightarrow> byte list list \<Rightarrow> hash_algorithm \<Rightarrow> merkle_tree" where
  "from_leaves H ds alg =
     (if ds = [] then new_tree alg
      else \<lparr>root = (case build H alg (leaf_nodes H alg ds) of [] \<Rightarrow> None | n # _ \<Rightarrow> Some n),
            leaves = ds, algorithm = alg\<rparr>)"

definition root_hash :: "merkle_tree \<Rightarrow> byte list option" where
  "root_hash t = map_option node_hash (root t)"

fun verify_node :: "hashing \<Rightarrow> hash_algorithm \<Rightarrow> merkle_node \<Rightarrow> bool" where
  "verify_node H alg (MerkleNode h l r lf ix) =
     (if lf then True
      else case (l, r) of
             (Some a, Some b) \<Rightarrow>
               if hash_pair H alg (node_hash a) (node_hash b) \<noteq> h then False
               else verify_node H alg a \<and> verify_node H alg b
           | _ \<Rightarrow> False)"

definition verify_tree :: "hashing \<Rightarrow> merkle_tree \<Rightarrow> bool" where
  "verify_tree H t = (case root t of None \<Rightarrow> leaves t = [] | Some n \<Rightarrow> verify_node H (algorithm t) n)"

fun node_depth :: "merkle_node \<Rightarrow> nat" where
  "node_depth (MerkleNode h l r lf ix) =
     (if lf then 1
      else 1 + max (case l of None \<Rightarrow> 0 | Some a \<Rightarrow> node_depth a)
                   (case r of None \<Rightarrow> 0 | Some b \<Rightarrow> node_depth b))"

definition depth :: "merkle_tree \<Rightarrow> nat" where
  "depth t = (case root t of None \<Rightarrow> 0 | Some n \<Rightarrow> node_depth n)"

section \<open>Proofs of inclusion\<close>

datatype position = LeftSide | RightSide

record proof_node =
  sib_hash :: "byte list"
  position :: position

record merkle_proof =
  leaf_hash :: "byte list"
  leaf_index :: nat
  siblings :: "proof_node list"
  proof_algorithm :: hash_algorithm

datatype merkle_error = Leaf_out_of_bounds nat | Empty_tree | Invalid_tree_structure

fun build_proof_path ::
  "merkle_node \<Rightarrow> nat \<Rightarrow> proof_node list \<Rightarrow> (merkle_error, bool \<times> proof_node list) result" where
  "build_proof_path (MerkleNode h l r lf ix) target path =
     (if lf then Ok (ix = Some target, path)
      else case l of None \<Rightarrow> Err Invalid_tree_structure
      | Some a \<Rightarrow>
     (case r of None \<Rightarrow> Err Invalid_tree_structure
      | Some b \<Rightarrow>
     (case build_proof_path a target path of Err e \<Rightarrow> Err e
      | Ok (found, path1) \<Rightarrow>
          if found then Ok (True, path1 @ [\<lparr>sib_hash = node_hash b, position = RightSide\<rparr>])
          else (case build_proof_path b target path1 of Err e \<Rightarrow> Err e
                | Ok (found', path2) \<Rightarrow>
                    if found' then Ok (True, path2 @ [\<lparr>sib_hash = node_hash a, position = LeftSide\<rparr>])
                    else Ok (False, path2)))))"

definition generate_proof :: "hashing \<Rightarrow> merkle_tree \<Rightarrow> nat \<Rightarrow> (merkle_error, merkle_proof) result" where
  "generate_proof H t i =
     (if length (leaves t) \<le> i then Err (Leaf_out_of_bounds i)
      else case root t of None \<Rightarrow> Err Empty_tree
      | Some n \<Rightarrow>
          (case build_proof_path n i [] of Err e \<Rightarrow> Err e
           | Ok (_, path) \<Rightarrow>
               Ok \<lparr>leaf_hash = leaf_hash_of H (algorithm t) (leaves t ! i), leaf_index = i,
                   siblings = path, proof_algorithm = algorithm t\<rparr>))"

fun step_up :: "hashing \<Rightarrow> hash_algorithm \<Rightarrow> byte list \<Rightarrow> proof_node \<Rightarrow> byte list" where
  "step_up H alg cur s =
     (case position s of LeftSide \<Rightarrow> hash_pair H alg (sib_hash s) cur
      | RightSide \<Rightarrow> hash_pair H alg cur (sib_hash s))"

declare step_up.simps [simp del]

definition verify_proof :: "hashing \<Rightarrow> merkle_proof \<Rightarrow> byte list \<Rightarrow> byte list \<Rightarrow> bool" where
  "verify_proof H p rh d =
     (if leaf_hash_of H (proof_algorithm p) d \<noteq> leaf_hash p then False
      else foldl (step_up H (proof_algorithm p)) (leaf_hash p) (siblings p) = rh)"

definition size_bytes :: "merkle_proof \<Rightarrow> nat" where
  "size_bytes p = length (leaf_hash p) + sum_list (map (\<lambda>s. length (sib_hash s) + 1) (siblings p))"

record batch_proof =
  proofs :: "merkle_proof list"
  batch_algorithm :: hash_algorithm

definition verify_all :: "hashing \<Rightarrow> batch_proof \<Rightarrow> byte list \<Rightarrow> byte list list \<Rightarrow> bool" where
  "verify_all H b rh ds =
     (if length (proofs b) \<noteq> length ds then False
      else list_all (\<lambda>(p, d). verify_proof H p rh d) (zip (proofs b) ds))"

definition compute_merkle_root :: "hashing \<Rightarrow> byte list list \<Rightarrow> byte list" where
  "compute_merkle_root H hs =
     (if hs = [] then replicate 32 0
      else case root_hash (from_leaves H hs Sha256) of
             None \<Rightarrow> replicate 32 0
           | Some r \<Rightarrow> take 32 r @ replicate (32 - length r) 0)"

section \<open>The trees that are built\<close>

inductive tree_over :: "hashing \<Rightarrow> hash_algorithm \<Rightarrow> byte list list \<Rightarrow> merkle_node \<Rightarrow> bool"
  for H alg ds where
  over_leaf: "i < length ds \<Longrightarrow> tree_over H alg ds (leaf H alg (ds ! i) i)"
| over_node: "tree_over H alg ds l \<Longrightarrow> tree_over H alg ds r \<Longrightarrow> tree_over H alg ds (internal H alg l r)"

fun indices :: "merkle_node \<Rightarrow> nat set" where
  "indices (MerkleNode h l r lf ix) =
     (case ix of None \<Rightarrow> {} | Some i \<Rightarrow> {i}) \<union>
     (case l of None \<Rightarrow> {} | Some a \<Rightarrow> indices a) \<union> (case r of None \<Rightarrow> {} | Some b \<Rightarrow> indices b)"

lemma leaf_fields [simp]:
  "node_hash (leaf H alg d i) = leaf_hash_of H alg d" "indices (leaf H alg d i) = {i}"
  "verify_node H alg (leaf H alg d i)" "node_depth (leaf H alg d i) = 1"
  by (simp_all add: leaf_def)

lemma internal_fields [simp]:
  "node_hash (internal H alg l r) = hash_pair H alg (node_hash l) (node_hash r)"
  "indices (internal H alg l r) = indices l \<union> indices r"
  "verify_node H alg (internal H alg l r) = (verify_node H alg l \<and> verify_node H alg r)"
  "node_depth (internal H alg l r) = 1 + max (node_depth l) (node_depth r)"
  by (simp_all add: internal_def)

lemma next_level_over: "list_all (tree_over H alg ds) xs \<Longrightarrow> list_all (tree_over H alg ds) (next_level H alg xs)"
  by (induction H alg xs rule: next_level.induct) (auto intro: over_node)

lemma next_level_indices: "\<Union> (indices ` set (next_level H alg xs)) = \<Union> (indices ` set xs)"
  by (induction H alg xs rule: next_level.induct) auto

lemma next_level_Nil [simp]: "next_level H alg xs = [] \<longleftrightarrow> xs = []"
  by (cases "(H, alg, xs)" rule: next_level.cases) auto

text \<open>The loop ends with one node over the same leaves.\<close>

lemma build_one:
  assumes "nodes \<noteq> []" "list_all (tree_over H alg ds) nodes"
  shows "\<exists>n. build H alg nodes = [n] \<and> tree_over H alg ds n \<and> indices n = \<Union> (indices ` set nodes)"
  using assms
proof (induction H alg nodes rule: build.induct)
  case (1 H alg nodes)
  show ?case
  proof (cases "1 < length nodes")
    case True
    have "next_level H alg nodes \<noteq> []" using "1.prems"(1) by simp
    then show ?thesis
      using "1.IH" [OF True] "1.prems" next_level_over next_level_indices True
      by (simp add: build.simps [of H alg nodes])
  next
    case False
    then obtain n where "nodes = [n]" using "1.prems"(1) by (cases nodes) auto
    then show ?thesis using "1.prems"(2) by (simp add: build.simps)
  qed
qed

lemma set_leaf_nodes: "set (leaf_nodes H alg ds) = (\<lambda>i. leaf H alg (ds ! i) i) ` {..<length ds}"
proof -
  have "leaf_nodes H alg ds = map (\<lambda>i. leaf H alg (ds ! i) i) [0..<length ds]"
    by (rule nth_equalityI) (simp_all add: leaf_nodes_def)
  then show ?thesis by (simp add: atLeast0LessThan)
qed

lemma leaf_nodes_over: "list_all (tree_over H alg ds) (leaf_nodes H alg ds)"
  by (auto simp: list_all_iff set_leaf_nodes intro: over_leaf)

lemma leaf_nodes_indices: "\<Union> (indices ` set (leaf_nodes H alg ds)) = {..<length ds}"
  by (auto simp: set_leaf_nodes)

lemma length_leaf_nodes [simp]: "length (leaf_nodes H alg ds) = length ds"
  by (simp add: leaf_nodes_def)

lemma leaf_nodes_Nil [simp]: "leaf_nodes H alg ds = [] \<longleftrightarrow> ds = []"
  by (simp add: leaf_nodes_def zip_eq_Nil_iff)

lemma from_leaves_root:
  assumes "ds \<noteq> []"
  obtains n where "root (from_leaves H ds alg) = Some n" "tree_over H alg ds n" "indices n = {..<length ds}"
    "leaves (from_leaves H ds alg) = ds" "algorithm (from_leaves H ds alg) = alg"
proof -
  have "leaf_nodes H alg ds \<noteq> []" using assms by simp
  from build_one [OF this leaf_nodes_over] show ?thesis
    using that assms by (auto simp: from_leaves_def leaf_nodes_indices)
qed

section \<open>Completeness\<close>

lemma path_of_over:
  "tree_over H alg ds n \<Longrightarrow>
   (if i \<in> indices n
    then \<exists>sibs. build_proof_path n i path = Ok (True, path @ sibs) \<and>
      foldl (step_up H alg) (leaf_hash_of H alg (ds ! i)) sibs = node_hash n \<and>
      length sibs < node_depth n
    else build_proof_path n i path = Ok (False, path))"
proof (induction arbitrary: path rule: tree_over.induct)
  case (over_leaf j)
  then show ?case by (simp add: leaf_def)
next
  case (over_node l r)
  note l = over_node.IH(1) [of path] and r = over_node.IH(2) [of path]
  consider "i \<in> indices l" | "i \<notin> indices l" "i \<in> indices r" | "i \<notin> indices l" "i \<notin> indices r"
    by blast
  then show ?case
  proof cases
    case 1
    then obtain sibs where "build_proof_path l i path = Ok (True, path @ sibs)"
        "foldl (step_up H alg) (leaf_hash_of H alg (ds ! i)) sibs = node_hash l"
        "length sibs < node_depth l"
      using l by auto
    then show ?thesis using 1
      by (auto simp: internal_def step_up.simps
          intro!: exI [of _ "sibs @ [\<lparr>sib_hash = node_hash r, position = RightSide\<rparr>]"])
  next
    case 2
    then obtain sibs where "build_proof_path r i path = Ok (True, path @ sibs)"
        "foldl (step_up H alg) (leaf_hash_of H alg (ds ! i)) sibs = node_hash r"
        "length sibs < node_depth r"
      using r by auto
    then show ?thesis using 2 l
      by (auto simp: internal_def step_up.simps
          intro!: exI [of _ "sibs @ [\<lparr>sib_hash = node_hash l, position = LeftSide\<rparr>]"])
  next
    case 3
    then show ?thesis using l r by (simp add: internal_def)
  qed
qed

lemma next_level_depth:
  "list_all (\<lambda>n. node_depth n = k) xs \<Longrightarrow> list_all (\<lambda>n. node_depth n = Suc k) (next_level H alg xs)"
  by (induction H alg xs rule: next_level.induct) auto

text \<open>The depth is the number of halvings.\<close>

lemma build_depth:
  "nodes \<noteq> [] \<Longrightarrow> list_all (\<lambda>n. node_depth n = k) nodes \<Longrightarrow>
   \<exists>j. node_depth (hd (build H alg nodes)) = k + j \<and> length nodes \<le> 2 ^ j \<and> 2 ^ j < 2 * length nodes"
proof (induction H alg nodes arbitrary: k rule: build.induct)
  case (1 H alg nodes)
  show ?case
  proof (cases "1 < length nodes")
    case True
    obtain j where j: "node_depth (hd (build H alg (next_level H alg nodes))) = Suc k + j"
        "length (next_level H alg nodes) \<le> 2 ^ j" "2 ^ j < 2 * length (next_level H alg nodes)"
      using "1.IH" [OF True _ next_level_depth [OF "1.prems"(2)]] "1.prems"(1) by auto
    have "length nodes \<le> 2 ^ Suc j" "2 ^ Suc j < 2 * length nodes"
    proof -
      show "length nodes \<le> 2 ^ Suc j" using j(2) by simp
      show "2 ^ Suc j < 2 * length nodes"
      proof (cases j)
        case 0
        then show ?thesis using True by simp
      next
        case (Suc i)
        define q :: nat where "q = 2 ^ i"
        have "2 * q < 2 * ((length nodes + 1) div 2)" using j(3) by (simp add: Suc q_def)
        then show ?thesis unfolding Suc power_Suc q_def [symmetric] by presburger
      qed
    qed
    then show ?thesis
      using j(1) True by (intro exI [of _ "Suc j"]) (simp add: build.simps [of H alg nodes])
  next
    case False
    then obtain n where "nodes = [n]" using "1.prems"(1) by (cases nodes) auto
    then show ?thesis using "1.prems"(2) by (intro exI [of _ 0]) (simp add: build.simps)
  qed
qed

lemma tree_over_verifies: "tree_over H alg ds n \<Longrightarrow> verify_node H alg n"
  by (induction rule: tree_over.induct) auto

section \<open>Soundness\<close>

fun hashed :: "byte list list \<Rightarrow> merkle_node \<Rightarrow> byte list list" where
  "hashed ds (MerkleNode h l r lf ix) =
     (case ix of None \<Rightarrow> [] | Some i \<Rightarrow> [leaf_prefix @ ds ! i]) @
     (case (l, r) of
        (Some a, Some b) \<Rightarrow> (node_prefix @ node_hash a @ node_hash b) # hashed ds a @ hashed ds b
      | _ \<Rightarrow> [])"

definition joined :: "proof_node \<Rightarrow> byte list \<Rightarrow> byte list" where
  "joined s cur = (case position s of LeftSide \<Rightarrow> sib_hash s @ cur | RightSide \<Rightarrow> cur @ sib_hash s)"

fun rehashed_from :: "hashing \<Rightarrow> hash_algorithm \<Rightarrow> byte list \<Rightarrow> proof_node list \<Rightarrow> byte list list" where
  "rehashed_from H alg cur [] = []"
| "rehashed_from H alg cur (s # sibs) =
     (node_prefix @ joined s cur) #
     rehashed_from H alg (step_up H alg cur s) sibs"

definition rehashed :: "hashing \<Rightarrow> hash_algorithm \<Rightarrow> byte list \<Rightarrow> proof_node list \<Rightarrow> byte list list" where
  "rehashed H alg d sibs = (leaf_prefix @ d) # rehashed_from H alg (leaf_hash_of H alg d) sibs"

definition collision :: "(byte list \<Rightarrow> byte list) \<Rightarrow> byte list list \<Rightarrow> byte list list \<Rightarrow> bool" where
  "collision h xs ys \<longleftrightarrow> (\<exists>x \<in> set xs. \<exists>y \<in> set ys. x \<noteq> y \<and> h x = h y)"

lemma rehashed_from_append:
  "rehashed_from H alg cur (sibs @ [s]) = rehashed_from H alg cur sibs @
     [node_prefix @ joined s (foldl (step_up H alg) cur sibs)]"
  by (induction sibs arbitrary: cur) auto

lemma rehashed_append:
  "rehashed H alg d (sibs @ [s]) = rehashed H alg d sibs @
     [node_prefix @ joined s (foldl (step_up H alg) (leaf_hash_of H alg d) sibs)]"
  by (simp add: rehashed_def rehashed_from_append)

lemma prefixes [simp]: "leaf_prefix @ a \<noteq> node_prefix @ b" "node_prefix @ b \<noteq> leaf_prefix @ a"
  by (simp_all add: leaf_prefix_def node_prefix_def)

lemma hashed_leaf [simp]: "hashed ds (leaf H alg d i) = [leaf_prefix @ ds ! i]"
  by (simp add: leaf_def)

lemma hashed_internal [simp]:
  "hashed ds (internal H alg l r) = (node_prefix @ node_hash l @ node_hash r) # hashed ds l @ hashed ds r"
  by (simp add: internal_def)

lemma collision_mono: "collision h xs ys \<Longrightarrow> set xs \<subseteq> set xs' \<Longrightarrow> set ys \<subseteq> set ys' \<Longrightarrow> collision h xs' ys'"
  by (auto simp: collision_def)

lemma step_up_hash:
  "step_up H alg cur s = H alg (node_prefix @ joined s cur)"
  by (cases "position s") (simp_all add: step_up.simps hash_pair_def joined_def)

lemma climb_sound:
  assumes "\<And>x. length (H alg x) = hash_size alg"
  shows "tree_over H alg ds n \<Longrightarrow>
    foldl (step_up H alg) (leaf_hash_of H alg d) sibs = node_hash n \<Longrightarrow>
    d \<in> set ds \<or> collision (H alg) (rehashed H alg d sibs) (hashed ds n)"
proof (induction arbitrary: sibs rule: tree_over.induct)
  case (over_leaf i)
  then show ?case
  proof (cases sibs rule: rev_cases)
    case Nil
    then show ?thesis
      using over_leaf by (cases "d = ds ! i") (auto simp: collision_def rehashed_def leaf_hash_of_def)
  next
    case (snoc sibs' s)
    have "H alg (node_prefix @ joined s (foldl (step_up H alg) (leaf_hash_of H alg d) sibs')) =
        H alg (leaf_prefix @ ds ! i)"
      using over_leaf.prems step_up_hash [of H alg "foldl (step_up H alg) (leaf_hash_of H alg d) sibs'" s]
      by (simp add: snoc leaf_hash_of_def [of H alg "ds ! i"])
    then show ?thesis
      using prefixes(1) by (fastforce simp: snoc collision_def rehashed_append)
  qed
next
  case (over_node l r)
  show ?case
  proof (cases sibs rule: rev_cases)
    case Nil
    then show ?thesis
      using over_node.prems by (auto simp: collision_def rehashed_def leaf_hash_of_def hash_pair_def)
  next
    case (snoc sibs' s)
    define cur where "cur = foldl (step_up H alg) (leaf_hash_of H alg d) sibs'"
    have len: "length cur = hash_size alg" "length (node_hash l) = hash_size alg"
        "length (node_hash r) = hash_size alg"
      using assms over_node.hyps unfolding cur_def
      by (cases sibs' rule: rev_cases;
          auto simp: leaf_hash_of_def step_up_hash hash_pair_def elim: tree_over.cases)+
    let ?x = "node_prefix @ joined s cur"
    have eq: "H alg ?x = H alg (node_prefix @ node_hash l @ node_hash r)"
      using over_node.prems step_up_hash [of H alg cur s] by (simp add: snoc cur_def hash_pair_def)
    show ?thesis
    proof (cases "?x = node_prefix @ node_hash l @ node_hash r")
      case False
      then show ?thesis using eq by (auto simp: collision_def snoc rehashed_append cur_def)
    next
      case True
      then have "cur = node_hash l \<or> cur = node_hash r"
        using len by (cases "position s") (auto simp: joined_def)
      then have "d \<in> set ds \<or> collision (H alg) (rehashed H alg d sibs') (hashed ds l) \<or>
          collision (H alg) (rehashed H alg d sibs') (hashed ds r)"
        using over_node.IH(1) [of sibs'] over_node.IH(2) [of sibs'] by (auto simp: cur_def)
      then show ?thesis by (auto simp: snoc rehashed_append collision_def)
    qed
  qed
qed

section \<open>Two trees with one root\<close>

definition hashed_all :: "byte list list \<Rightarrow> merkle_node list \<Rightarrow> byte list list" where
  "hashed_all ds ns = concat (map (hashed ds) ns)"

definition sized :: "hash_algorithm \<Rightarrow> merkle_node list \<Rightarrow> bool" where
  "sized alg ns \<longleftrightarrow> list_all (\<lambda>n. length (node_hash n) = hash_size alg) ns"

lemma hashed_all_Cons [simp]: "hashed_all ds (n # ns) = hashed ds n @ hashed_all ds ns"
  by (simp add: hashed_all_def)

lemma hashed_all_next: "set (hashed_all ds ns) \<subseteq> set (hashed_all ds (next_level H alg ns))"
  by (induction H alg ns rule: next_level.induct) (auto simp: hashed_all_def)

lemma sized_next:
  "(\<And>x. length (H alg x) = hash_size alg) \<Longrightarrow> sized alg (next_level H alg ns)"
  by (induction H alg ns rule: next_level.induct) (auto simp: sized_def hash_pair_def)

lemma pair_collide:
  assumes "hash_pair H alg a b = hash_pair H alg a' b'"
    and "length a = length a'" "(a, b) \<noteq> (a', b')"
    and "node_prefix @ a @ b \<in> set xs" "node_prefix @ a' @ b' \<in> set ys"
  shows "collision (H alg) xs ys"
  using assms unfolding collision_def hash_pair_def
  by (intro bexI [of _ "node_prefix @ a @ b"] bexI [of _ "node_prefix @ a' @ b'"]) auto

lemma level_collide:
  "length xs = length ys \<Longrightarrow> sized alg xs \<Longrightarrow> sized alg ys \<Longrightarrow>
   map node_hash (next_level H alg xs) = map node_hash (next_level H alg ys) \<Longrightarrow>
   map node_hash xs = map node_hash ys \<or>
   collision (H alg) (hashed_all ds (next_level H alg xs)) (hashed_all es (next_level H alg ys))"
proof (induction H alg xs arbitrary: ys rule: next_level.induct)
  case (1 H alg)
  then show ?case by simp
next
  case (2 H alg x)
  then obtain y where ys: "ys = [y]" by (cases ys) auto
  have "collision (H alg) (hashed_all ds (next_level H alg [x])) (hashed_all es (next_level H alg ys))"
    if "node_hash x \<noteq> node_hash y"
    using 2 that by (intro pair_collide [of H alg "node_hash x" "node_hash x" "node_hash y" "node_hash y"])
      (auto simp: ys sized_def hashed_all_def)
  then show ?case by (auto simp: ys)
next
  case (3 H alg x x' xs)
  then obtain y y' zs where ys: "ys = y # y' # zs" by (cases ys; cases "tl ys") auto
  have rest: "map node_hash xs = map node_hash zs \<or>
      collision (H alg) (hashed_all ds (next_level H alg xs)) (hashed_all es (next_level H alg zs))"
    using 3 by (intro "3.IH") (auto simp: ys sized_def)
  have "collision (H alg) (hashed_all ds (next_level H alg (x # x' # xs))) (hashed_all es (next_level H alg ys))"
    if "(node_hash x, node_hash x') \<noteq> (node_hash y, node_hash y')"
    using 3 that by (intro pair_collide [of H alg "node_hash x" "node_hash x'" "node_hash y" "node_hash y'"])
      (auto simp: ys sized_def)
  moreover have "collision (H alg) (hashed_all ds (next_level H alg (x # x' # xs))) (hashed_all es (next_level H alg ys))"
    if "collision (H alg) (hashed_all ds (next_level H alg xs)) (hashed_all es (next_level H alg zs))"
    using that by (rule collision_mono) (auto simp: ys)
  ultimately show ?case using rest by (auto simp: ys)
qed

lemma build_hashed: "set (hashed_all ds ns) \<subseteq> set (hashed_all ds (build H alg ns))"
proof (induction H alg ns rule: build.induct)
  case (1 H alg ns)
  show ?case
  proof (cases "1 < length ns")
    case True
    then show ?thesis using "1.IH" [OF True] hashed_all_next [of ds ns H alg]
      by (simp add: build.simps [of H alg ns])
  next
    case False
    then show ?thesis by (simp add: build.simps [of H alg ns])
  qed
qed

lemma build_collide:
  assumes "\<And>x. length (H alg x) = hash_size alg"
  shows "length xs = length ys \<Longrightarrow> sized alg xs \<Longrightarrow> sized alg ys \<Longrightarrow>
    map node_hash (build H alg xs) = map node_hash (build H alg ys) \<Longrightarrow>
    map node_hash xs = map node_hash ys \<or>
    collision (H alg) (hashed_all ds (build H alg xs)) (hashed_all es (build H alg ys))"
  using assms
proof (induction H alg xs arbitrary: ys rule: build.induct)
  case (1 H alg xs)
  show ?case
  proof (cases "1 < length xs")
    case True
    then have b: "build H alg xs = build H alg (next_level H alg xs)"
        "build H alg ys = build H alg (next_level H alg ys)"
      using "1.prems"(1) by (simp_all add: build.simps [of H alg xs] build.simps [of H alg ys])
    have "map node_hash (next_level H alg xs) = map node_hash (next_level H alg ys) \<or>
        collision (H alg) (hashed_all ds (build H alg xs)) (hashed_all es (build H alg ys))"
      unfolding b by (rule "1.IH" [OF True]) (use "1.prems" b sized_next in auto)
    moreover have "map node_hash xs = map node_hash ys \<or>
        collision (H alg) (hashed_all ds (next_level H alg xs)) (hashed_all es (next_level H alg ys))"
      if "map node_hash (next_level H alg xs) = map node_hash (next_level H alg ys)"
      using level_collide that "1.prems" by blast
    ultimately show ?thesis
      using collision_mono build_hashed unfolding b by blast
  next
    case False
    then show ?thesis using "1.prems" by (simp add: build.simps [of H alg xs] build.simps [of H alg ys])
  qed
qed

lemma leaf_nodes_hashes: "map node_hash (leaf_nodes H alg ds) = map (leaf_hash_of H alg) ds"
  by (rule nth_equalityI) (simp_all add: leaf_nodes_def)

lemma leaf_nodes_hashed: "d \<in> set ds \<Longrightarrow> leaf_prefix @ d \<in> set (hashed_all ds (leaf_nodes H alg ds))"
  by (auto simp: hashed_all_def set_leaf_nodes in_set_conv_nth)

definition tree_hashed :: "hashing \<Rightarrow> byte list list \<Rightarrow> hash_algorithm \<Rightarrow> byte list list" where
  "tree_hashed H ds alg = hashed_all ds (build H alg (leaf_nodes H alg ds))"

lemma same_root:
  assumes "\<And>x. length (H alg x) = hash_size alg" "length ds = length es"
    and "root_hash (from_leaves H ds alg) = root_hash (from_leaves H es alg)"
  shows "ds = es \<or> collision (H alg) (tree_hashed H ds alg) (tree_hashed H es alg)"
proof (cases "ds = []")
  case False
  let ?b = "\<lambda>ds. build H alg (leaf_nodes H alg ds)"
  have ne: "leaf_nodes H alg ds \<noteq> []" "leaf_nodes H alg es \<noteq> []" using False assms(2) by auto
  obtain n m where nm: "?b ds = [n]" "?b es = [m]"
    using build_one [OF ne(1) leaf_nodes_over] build_one [OF ne(2) leaf_nodes_over] by blast
  then have "map node_hash (?b ds) = map node_hash (?b es)"
  proof -
    have "es \<noteq> []" using False assms(2) by auto
    then show ?thesis using assms(3) False nm by (simp add: root_hash_def from_leaves_def)
  qed
  moreover have "sized alg (leaf_nodes H alg xs)" for xs
    using assms(1) by (auto simp: sized_def list_all_iff set_leaf_nodes leaf_hash_of_def)
  ultimately have "map (leaf_hash_of H alg) ds = map (leaf_hash_of H alg) es \<or>
      collision (H alg) (tree_hashed H ds alg) (tree_hashed H es alg)"
    using assms(1) build_collide [of H alg "leaf_nodes H alg ds" "leaf_nodes H alg es" ds es]
      assms(2) by (simp add: leaf_nodes_hashes tree_hashed_def)
  moreover have "collision (H alg) (tree_hashed H ds alg) (tree_hashed H es alg)"
    if hs: "map (leaf_hash_of H alg) ds = map (leaf_hash_of H alg) es" and "ds \<noteq> es"
  proof -
    obtain i where i: "i < length ds" "ds ! i \<noteq> es ! i"
      using \<open>ds \<noteq> es\<close> assms(2) nth_equalityI by blast
    have "H alg (leaf_prefix @ ds ! i) = H alg (leaf_prefix @ es ! i)"
      using arg_cong [OF hs, of "\<lambda>l. l ! i"] i assms(2) by (simp add: leaf_hash_of_def)
    moreover have "leaf_prefix @ ds ! i \<in> set (tree_hashed H ds alg)"
        "leaf_prefix @ es ! i \<in> set (tree_hashed H es alg)"
      using leaf_nodes_hashed build_hashed i assms(2) unfolding tree_hashed_def
      by (metis nth_mem subsetD)+
    ultimately show ?thesis using i(2) unfolding collision_def by force
  qed
  ultimately show ?thesis by blast
qed (use assms(2) in simp)

end
