(* ===== verification/Ros_File.thy ===== *)
theory Ros_File
  imports Ros_Header Ros_Chunk Ros_Merkle
begin

text \<open>
  \<^verbatim>\<open>export-engine/src/formats/ros.rs\<close> over \<^verbatim>\<open>ros-format\<close>: how a \<^verbatim>\<open>.ros\<close> file is laid out,
  signed and written, and the audit every reader runs before it trusts a byte of it.

  The content chunks come to \<open>write_ros\<close> as \<^verbatim>\<open>export_brep_to_ros\<close> has prepared them (META, HIST,
  PROV and perhaps GEOM, encrypted if asked), with the header it has prepared. The hash, the Ed25519
  scheme and the MessagePack encoding of the SIGN chunk are third-party crates: they are the fields
  of the parameter \<open>crypto\<close>, and \<open>crypto_ok\<close> states what those crates document. A slice of the file
  whose end overflows \<^verbatim>\<open>usize\<close> lies outside every file and is refused as such.
\<close>

section \<open>Signatures\<close>

datatype signature_algorithm = No_Signature | Ed25519

fun signature_algo_code :: "signature_algorithm \<Rightarrow> byte" where
  "signature_algo_code No_Signature = 0"
| "signature_algo_code Ed25519 = 1"

record file_signature_metadata =
  file_id :: "byte list"
  sig_timestamp :: "64 word"
  signer_id :: "byte list"
  signature_version :: "32 word"

record signature_record =
  sig_algorithm :: signature_algorithm
  public_key :: "byte list"
  sig_bytes :: "byte list"
  sig_metadata :: file_signature_metadata

record signature_chunk =
  signer :: signature_record

record crypto =
  sha :: hashing
  public_of :: "byte list \<Rightarrow> byte list"
  sign_with :: "byte list \<Rightarrow> byte list \<Rightarrow> byte list"
  valid_key :: "byte list \<Rightarrow> bool"
  valid_signature :: "byte list \<Rightarrow> bool"
  verifies :: "byte list \<Rightarrow> byte list \<Rightarrow> byte list \<Rightarrow> bool"
  to_vec_named :: "signature_chunk \<Rightarrow> byte list"
  from_slice :: "byte list \<Rightarrow> signature_chunk option"

text \<open>What the crates document: digests have their length, keys and signatures theirs, a signature
  verifies under the key it was made with, and a serialised record of fixed-size fields is read back
  and takes less than a chunk may.\<close>

definition record_sized :: "signature_record \<Rightarrow> bool" where
  "record_sized r \<longleftrightarrow> length (public_key r) = 32 \<and> length (sig_bytes r) = 64 \<and>
     length (file_id (sig_metadata r)) = 16 \<and> length (signer_id (sig_metadata r)) = 16"

definition crypto_ok :: "crypto \<Rightarrow> bool" where
  "crypto_ok c \<longleftrightarrow>
     (\<forall>alg x. length (sha c alg x) = hash_size alg) \<and>
     (\<forall>k. length (public_of c k) = 32 \<and> valid_key c (public_of c k)) \<and>
     (\<forall>k m. length (sign_with c k m) = 64 \<and> valid_signature c (sign_with c k m) \<and>
        verifies c (public_of c k) m (sign_with c k m)) \<and>
     (\<forall>s. record_sized (signer s) \<longrightarrow> from_slice c (to_vec_named c s) = Some s \<and>
        to_vec_named c s \<noteq> [] \<and> length (to_vec_named c s) \<le> 2 ^ 30)"

definition sha256 :: "crypto \<Rightarrow> byte list \<Rightarrow> byte list" where
  "sha256 c = sha c Sha256"

definition signer_id_of :: "crypto \<Rightarrow> byte list \<Rightarrow> byte list" where
  "signer_id_of c pk = take 16 (sha256 c pk)"

definition new_metadata :: "64 word \<Rightarrow> byte list \<Rightarrow> byte list \<Rightarrow> file_signature_metadata" where
  "new_metadata now fid sid =
     \<lparr>file_id = fid, sig_timestamp = now, signer_id = sid, signature_version = 1\<rparr>"

definition sign_file ::
  "crypto \<Rightarrow> 64 word \<Rightarrow> byte list \<Rightarrow> byte list \<Rightarrow> byte list \<Rightarrow> byte list \<Rightarrow> signature_record" where
  "sign_file c now key sid bytes fid =
     \<lparr>sig_algorithm = Ed25519, public_key = public_of c key,
      sig_bytes = sign_with c key (sha256 c bytes), sig_metadata = new_metadata now fid sid\<rparr>"

datatype signature_error = Only_Ed25519 | Invalid_public_key | Invalid_signature_format

definition verify_signature ::
  "crypto \<Rightarrow> byte list \<Rightarrow> signature_record \<Rightarrow> (signature_error, bool) result" where
  "verify_signature c bytes r =
     (if sig_algorithm r \<noteq> Ed25519 then Err Only_Ed25519
      else if length (public_key r) \<noteq> 32 \<or> length (sig_bytes r) \<noteq> 64 then Ok False
      else if \<not> valid_key c (public_key r) then Err Invalid_public_key
      else if \<not> valid_signature c (sig_bytes r) then Err Invalid_signature_format
      else Ok (verifies c (public_key r) (sha256 c bytes) (sig_bytes r)))"

section \<open>What is signed\<close>

definition zero_range :: "nat \<Rightarrow> nat \<Rightarrow> byte list \<Rightarrow> byte list" where
  "zero_range a b bs = take a bs @ replicate (b - a) 0 @ drop b bs"

datatype export_error =
    Header_unreadable ros_error
  | Header_invalid ros_error
  | Big_endian_refused
  | Wrong_file_size "64 word" "64 word"
  | Index_unreadable ros_error
  | Table_invalid ros_error
  | Compression_refused fourcc
  | End_overflows
  | Outside_payload_region fourcc "64 word" "64 word"
  | Total_overflows
  | Dead_space "64 word" "64 word"
  | Index_end_overflows
  | Index_end_not_file_end "64 word"
  | Chunk_outside_file fourcc
  | Entry_outside_file nat
  | Image_too_short nat
  | Signature_claim_forged
  | Crc_mismatch_in fourcc
  | No_prov_chunk
  | No_signing_key
  | Nothing_to_sign
  | Empty_sign_chunk
  | Claim_disagrees bool bool
  | Write_failed ros_error

definition normalized_header_leaf :: "byte list \<Rightarrow> (export_error, byte list) result" where
  "normalized_header_leaf img =
     (if length img < HEADER_SIZE then Err (Image_too_short (length img))
      else Ok (fold (\<lambda>(a, b). zero_range a b) [(12, 16), (16, 24), (48, 56)] (take HEADER_SIZE img)))"

definition signed_leaf_set :: "byte list \<Rightarrow> byte list list \<Rightarrow> byte list list \<Rightarrow> byte list list" where
  "signed_leaf_set header_leaf payloads index_entries = [header_leaf] @ payloads @ index_entries"

section \<open>Writing\<close>

fun layout_chunks :: "64 word \<Rightarrow> chunk list \<Rightarrow> chunk list \<times> 64 word" where
  "layout_chunks cur [] = ([], cur)"
| "layout_chunks cur (ch # chs) =
     (let (chs', end') = layout_chunks (cur + of_nat (length (data ch))) chs
      in (ch\<lparr>index := (index ch)\<lparr>offset := cur\<rparr>\<rparr> # chs', end'))"

definition append_sign_chunk ::
  "crypto \<Rightarrow> (byte list \<Rightarrow> 32 word) \<Rightarrow> 64 word \<Rightarrow> byte list \<Rightarrow> chunk list \<Rightarrow> file_header \<Rightarrow>
   (export_error, chunk list \<times> file_header) result" where
  "append_sign_chunk c crc32 now key chunks h =
     (let h1 = h\<lparr>signature_algo := signature_algo_code Ed25519,
                  feature_flags := with_signature (feature_flags h),
                  index_entry_count := of_nat (length chunks + 1)\<rparr>
      in case to_bytes crc32 h1 of
           (Err e, _) \<Rightarrow> Err (Write_failed e)
         | (Ok img, h2) \<Rightarrow>
      (case normalized_header_leaf img of Err e \<Rightarrow> Err e
       | Ok header_leaf \<Rightarrow>
           let ls = signed_leaf_set header_leaf (map data chunks) (map (\<lambda>ch. write_entry (index ch)) chunks)
           in case root_hash (from_leaves (sha c) ls Sha256) of
                None \<Rightarrow> Err Nothing_to_sign
              | Some rh \<Rightarrow>
                  let bytes = to_vec_named c
                        \<lparr>signer = sign_file c now key (signer_id_of c (public_of c key)) rh (file_uuid h2)\<rparr>
                  in if bytes = [] then Err Empty_sign_chunk
                     else Ok (chunks @ [new_chunk crc32 SIGN bytes], h2)))"

definition check_signature_claim_matches_table :: "bool \<Rightarrow> bool \<Rightarrow> (export_error, unit) result" where
  "check_signature_claim_matches_table claims carries =
     (if claims = carries then Ok () else Err (Claim_disagrees claims carries))"

text \<open>\<open>sign\<close> is the option of the caller with its key; \<open>commands\<close> the number of provenance
  commands.\<close>

definition write_ros ::
  "crypto \<Rightarrow> (byte list \<Rightarrow> 32 word) \<Rightarrow> 64 word \<Rightarrow> bool \<times> byte list option \<Rightarrow> 64 word \<Rightarrow> chunk list \<Rightarrow>
   file_header \<Rightarrow> (export_error, byte list) result" where
  "write_ros c crc32 now sign commands content h =
     (let chunks = fst (layout_chunks 128 content) in
      case find (\<lambda>ch. chunk_type (index ch) = as_fourcc PROV) chunks of
        None \<Rightarrow> Err No_prov_chunk
      | Some prov \<Rightarrow>
          let h1 = h\<lparr>ai_command_count := commands, ai_chunk_offset := offset (index prov)\<rparr>
          in case (case sign of
                     (False, _) \<Rightarrow> Ok (chunks, h1)
                   | (True, None) \<Rightarrow> Err No_signing_key
                   | (True, Some key) \<Rightarrow> append_sign_chunk c crc32 now key chunks h1) of
               Err e \<Rightarrow> Err e
             | Ok (chunks1, h2) \<Rightarrow>
                 let (chunks2, end') = layout_chunks 128 chunks1;
                     h3 = h2\<lparr>index_offset := end', index_entry_count := of_nat (length chunks2),
                             file_size := end' + of_nat (length chunks2 * CHUNK_INDEX_ENTRY_SIZE)\<rparr>
                 in case check_signature_claim_matches_table (has_signature (feature_flags h3))
                           (list_ex (\<lambda>ch. chunk_type (index ch) = as_fourcc SIGN) chunks2) of
                      Err e \<Rightarrow> Err e
                    | Ok _ \<Rightarrow>
                        (case write_to crc32 h3 [] of
                           (Err e, _) \<Rightarrow> Err (Write_failed e)
                         | (Ok buffer, _) \<Rightarrow>
                             Ok (buffer @ concat (map data chunks2) @
                                 concat (map (\<lambda>ch. write_entry (index ch)) chunks2))))"

section \<open>The audit\<close>

definition file_slice :: "byte list \<Rightarrow> nat \<Rightarrow> nat \<Rightarrow> byte list option" where
  "file_slice file start len =
     (if start + len \<le> length file then Some (take len (drop start file)) else None)"

definition raw_chunk_bytes :: "byte list \<Rightarrow> chunk_index_entry \<Rightarrow> (export_error, byte list) result" where
  "raw_chunk_bytes file e =
     (case file_slice file (unat (offset e)) (unat (size_on_disk e)) of
        None \<Rightarrow> Err (Chunk_outside_file (chunk_type e))
      | Some bytes \<Rightarrow> Ok bytes)"

definition checked_add :: "64 word \<Rightarrow> 64 word \<Rightarrow> 64 word option" where
  "checked_add a b = (if unat a + unat b < 2 ^ 64 then Some (a + b) else None)"

fun payload_total :: "64 word \<Rightarrow> chunk_table \<Rightarrow> 64 word \<Rightarrow> (export_error, 64 word) result" where
  "payload_total ix_offset [] total' = Ok total'"
| "payload_total ix_offset (e # es) total' =
     (case checked_add (offset e) (size_on_disk e) of
        None \<Rightarrow> Err End_overflows
      | Some end' \<Rightarrow>
          if offset e < of_nat HEADER_SIZE \<or> ix_offset < end'
          then Err (Outside_payload_region (chunk_type e) (offset e) end')
          else case checked_add total' (size_on_disk e) of
                 None \<Rightarrow> Err Total_overflows
               | Some t \<Rightarrow> payload_total ix_offset es t)"

definition audit_layout :: "file_header \<Rightarrow> chunk_table \<Rightarrow> 64 word \<Rightarrow> (export_error, unit) result" where
  "audit_layout h table file_len =
     (case payload_total (index_offset h) table 0 of Err e \<Rightarrow> Err e
      | Ok t \<Rightarrow>
          let expected = of_nat HEADER_SIZE + t
          in if index_offset h \<noteq> expected then Err (Dead_space t expected)
             else case checked_add (index_offset h)
                         (of_nat (length table) * of_nat CHUNK_INDEX_ENTRY_SIZE) of
                    None \<Rightarrow> Err Index_end_overflows
                  | Some end' \<Rightarrow>
                      if end' \<noteq> file_len then Err (Index_end_not_file_end end') else Ok ())"

datatype invalid_reason =
    Sign_chunk_unreadable | No_content | Root_mismatch | Verification_errored signature_error

datatype signature_verdict =
    Unsigned
  | Verified "byte list" "byte list"
  | Invalid invalid_reason
  | ForgedSignerId "byte list" "byte list" "byte list"
  | SupersededScheme

fun traverse_indexed ::
  "nat \<Rightarrow> (nat \<Rightarrow> 'a \<Rightarrow> (export_error, 'b) result) \<Rightarrow> 'a list \<Rightarrow> (export_error, 'b list) result" where
  "traverse_indexed i f [] = Ok []"
| "traverse_indexed i f (x # xs) =
     (case f i x of Err e \<Rightarrow> Err e
      | Ok y \<Rightarrow> (case traverse_indexed (Suc i) f xs of Err e \<Rightarrow> Err e | Ok ys \<Rightarrow> Ok (y # ys)))"

text \<open>A signed entry gives its payload and the 96 bytes the file holds for it; the SIGN entry
  none.\<close>

definition signed_part ::
  "byte list \<Rightarrow> file_header \<Rightarrow> nat \<Rightarrow> chunk_index_entry \<Rightarrow>
   (export_error, (byte list \<times> byte list) option) result" where
  "signed_part file h i e =
     (if chunk_type e = as_fourcc SIGN then Ok None
      else case raw_chunk_bytes file e of Err er \<Rightarrow> Err er
      | Ok payload \<Rightarrow>
          (case file_slice file (unat (index_offset h) + i * CHUNK_INDEX_ENTRY_SIZE) CHUNK_INDEX_ENTRY_SIZE of
             None \<Rightarrow> Err (Entry_outside_file i)
           | Some entry \<Rightarrow> Ok (Some (payload, entry))))"

definition read_leaves :: "byte list \<Rightarrow> file_header \<Rightarrow> chunk_table \<Rightarrow> (export_error, byte list list) result" where
  "read_leaves file h table =
     (case normalized_header_leaf file of Err e \<Rightarrow> Err e
      | Ok header_leaf \<Rightarrow>
          (case traverse_indexed 0 (signed_part file h) table of Err e \<Rightarrow> Err e
           | Ok parts \<Rightarrow>
               let ps = List.map_filter id parts
               in Ok (signed_leaf_set header_leaf (map fst ps) (map snd ps))))"

definition signature_verdict ::
  "crypto \<Rightarrow> byte list \<Rightarrow> file_header \<Rightarrow> chunk_table \<Rightarrow> (export_error, signature_verdict) result" where
  "signature_verdict c file h table =
     (case (has_signature (feature_flags h) \<or> signature_algo h \<noteq> 0, find_by_type table SIGN) of
        (False, None) \<Rightarrow> Ok Unsigned
      | (True, None) \<Rightarrow> Err Signature_claim_forged
      | (_, Some entry) \<Rightarrow>
     if \<not> uses_integrity_scheme_v2 (major_version h) (minor_version h) then Ok SupersededScheme
     else case raw_chunk_bytes file entry of Err e \<Rightarrow> Err e
      | Ok bytes \<Rightarrow>
     (case from_slice c bytes of None \<Rightarrow> Ok (Invalid Sign_chunk_unreadable)
      | Some chunk \<Rightarrow>
     (case read_leaves file h table of Err e \<Rightarrow> Err e
      | Ok ls \<Rightarrow>
     (case root_hash (from_leaves (sha c) ls Sha256) of None \<Rightarrow> Ok (Invalid No_content)
      | Some rh \<Rightarrow>
     (case verify_signature c rh (signer chunk) of
        Ok True \<Rightarrow>
          let pk = public_key (signer chunk);
              derived = signer_id_of c pk;
              declared = signer_id (sig_metadata (signer chunk))
          in if derived \<noteq> declared then Ok (ForgedSignerId declared derived pk)
             else Ok (Verified declared pk)
      | Ok False \<Rightarrow> Ok (Invalid Root_mismatch)
      | Err e \<Rightarrow> Ok (Invalid (Verification_errored e)))))))"

fun check_crcs :: "(byte list \<Rightarrow> 32 word) \<Rightarrow> byte list \<Rightarrow> chunk_table \<Rightarrow> (export_error, unit) result" where
  "check_crcs crc32 file [] = Ok ()"
| "check_crcs crc32 file (e # es) =
     (case raw_chunk_bytes file e of Err er \<Rightarrow> Err er
      | Ok bytes \<Rightarrow>
          if \<not> verify_entry_crc crc32 e bytes then Err (Crc_mismatch_in (chunk_type e))
          else check_crcs crc32 file es)"

definition audit_structure ::
  "(byte list \<Rightarrow> 32 word) \<Rightarrow> byte list \<Rightarrow> (export_error, file_header \<times> chunk_table) result" where
  "audit_structure crc32 file =
     (case read_from crc32 file of Err e \<Rightarrow> Err (Header_unreadable e)
      | Ok (h, _) \<Rightarrow>
     (case validate_header h of Err e \<Rightarrow> Err (Header_invalid e)
      | Ok _ \<Rightarrow>
     if endianness h \<noteq> Little then Err Big_endian_refused
     else if file_size h \<noteq> of_nat (length file)
     then Err (Wrong_file_size (file_size h) (of_nat (length file)))
     else case read_table file (index_offset h) (index_entry_count h) of
            Err e \<Rightarrow> Err (Index_unreadable e)
          | Ok table \<Rightarrow>
     (case validate_table table of Err e \<Rightarrow> Err (Table_invalid e)
      | Ok _ \<Rightarrow>
     (case find (\<lambda>e. compressed_size e \<noteq> 0 \<or> compression e \<noteq> Uncompressed) table of
        Some e \<Rightarrow> Err (Compression_refused (chunk_type e))
      | None \<Rightarrow>
     (case audit_layout h table (of_nat (length file)) of Err e \<Rightarrow> Err e
      | Ok _ \<Rightarrow> Ok (h, table))))))"

definition audit_ros_bytes ::
  "crypto \<Rightarrow> (byte list \<Rightarrow> 32 word) \<Rightarrow> byte list \<Rightarrow>
   (export_error, file_header \<times> chunk_table \<times> signature_verdict) result" where
  "audit_ros_bytes c crc32 file =
     (case audit_structure crc32 file of Err e \<Rightarrow> Err e
      | Ok (h, table) \<Rightarrow>
     (case signature_verdict c file h table of Err e \<Rightarrow> Err e
      | Ok verdict \<Rightarrow>
     (case check_crcs crc32 file table of Err e \<Rightarrow> Err e
      | Ok _ \<Rightarrow> Ok (h, table, verdict))))"

end
