(* ===== verification/Ros_Audit.thy ===== *)
theory Ros_Audit
  imports Ros_File
begin

text \<open>
  What the audit of a \<^verbatim>\<open>.ros\<close> file establishes: the payload region holds the chunks side by side,
  in the order of their offsets, with no byte outside a chunk and none in two.
\<close>

section \<open>Intervals\<close>

text \<open>\<open>packed\<close> intervals follow one another from \<open>lo\<close> on without overlap, \<open>contiguous\<close> ones fill the
  region up to \<open>hi\<close>.\<close>

fun packed :: "nat \<Rightarrow> (nat \<times> nat) list \<Rightarrow> bool" where
  "packed lo [] = True"
| "packed lo ((a, s) # xs) = (lo \<le> a \<and> packed (a + s) xs)"

fun contiguous :: "nat \<Rightarrow> (nat \<times> nat) list \<Rightarrow> nat \<Rightarrow> bool" where
  "contiguous lo [] hi = (lo = hi)"
| "contiguous lo ((a, s) # xs) hi = (a = lo \<and> contiguous (lo + s) xs hi)"

lemma packed_sum:
  "packed lo xs \<Longrightarrow> \<forall>(a, s) \<in> set xs. a + s \<le> hi \<Longrightarrow> lo \<le> hi \<Longrightarrow> lo + sum_list (map snd xs) \<le> hi"
  by (induction lo xs rule: packed.induct) fastforce+

lemma packed_tight:
  "packed lo xs \<Longrightarrow> \<forall>(a, s) \<in> set xs. a + s \<le> hi \<Longrightarrow> lo \<le> hi \<Longrightarrow> lo + sum_list (map snd xs) = hi \<Longrightarrow>
   contiguous lo xs hi"
proof (induction lo xs rule: packed.induct)
  case (2 lo a s xs)
  have "a + s + sum_list (map snd xs) \<le> hi"
    using "2.prems" by (intro packed_sum) auto
  then show ?case using "2.IH" "2.prems" by auto
qed simp

lemma contiguous_slices:
  "contiguous lo xs hi \<Longrightarrow>
   concat (map (\<lambda>(a, s). take s (drop a f)) xs) = take (hi - lo) (drop lo f)"
proof (induction lo xs hi rule: contiguous.induct)
  case (2 lo a s xs hi)
  have "lo + s \<le> hi" if "contiguous (lo + s) xs hi" for xs
    using that by (induction "lo + s" xs hi arbitrary: s rule: contiguous.induct)
      (auto simp: add.assoc dest: add_leD1)
  then have "hi - lo = s + (hi - (lo + s))" using "2.prems" by auto
  then show ?case using 2 by (simp add: take_add add.commute)
qed simp

section \<open>What the checks give\<close>

abbreviation span :: "chunk_index_entry \<Rightarrow> nat \<times> nat" where
  "span e \<equiv> (unat (offset e), unat (size_on_disk e))"

lemma checked_add_Some:
  "checked_add a b = Some r \<longleftrightarrow> unat a + unat b < 2 ^ 64 \<and> r = a + b \<and> unat r = unat a + unat b"
  by (auto simp: checked_add_def unat_word_ariths)

lemma payload_total_Ok:
  "payload_total io es t0 = Ok t \<Longrightarrow>
   (\<forall>e \<in> set es. 128 \<le> unat (offset e) \<and> unat (offset e) + unat (size_on_disk e) \<le> unat io) \<and>
   unat t = unat t0 + sum_list (map (snd \<circ> span) es)"
  by (induction es arbitrary: t0)
    (auto simp: checked_add_Some HEADER_SIZE_def word_less_nat_alt word_le_nat_alt
      split: option.splits if_splits)

lemma check_overlaps_packed:
  assumes "check_overlaps es = Ok ()" "\<forall>e \<in> set es. unat (offset e) + unat (size_on_disk e) < 2 ^ 64"
    and "\<forall>e \<in> set es. lo \<le> unat (offset e)"
  shows "packed lo (map span es)"
  using assms
proof (induction es arbitrary: lo rule: check_overlaps.induct)
  case (1 before cur es)
  have "unat (offset before + size_on_disk before) = unat (offset before) + unat (size_on_disk before)"
    using "1.prems"(2) by (simp add: unat_word_ariths)
  then have next_ok: "unat (offset before) + unat (size_on_disk before) \<le> unat (offset cur)"
    "check_overlaps (cur # es) = Ok ()"
    using "1.prems"(1) by (auto simp: Let_def word_less_nat_alt not_less split: if_splits)
  have "packed (unat (offset before) + unat (size_on_disk before)) (map span (cur # es))"
  proof -
    have "packed (unat (offset cur)) (map span (cur # es))" if "packed lo' (map span (cur # es))" for lo'
      using that by simp
    moreover have "packed 0 (map span (cur # es))"
      using "1.IH" [OF refl _ next_ok(2), of 0] "1.prems"(2) next_ok(2) "1.prems"(1)
      by (auto simp: Let_def split: if_splits)
    ultimately show ?thesis using next_ok(1) by simp
  qed
  then show ?case using "1.prems"(3) by simp
qed auto

lemma validate_table_Ok:
  "validate_table es = Ok () \<Longrightarrow> check_overlaps (sort_key offset es) = Ok ()"
  by (auto simp: validate_table_def split: option.splits sum.splits)

text \<open>The chunks of an audited table fill the region in front of the index.\<close>

lemma audit_layout_contiguous:
  assumes "audit_layout h es file_len = Ok ()" "validate_table es = Ok ()"
  shows "contiguous 128 (map span (sort_key offset es)) (unat (index_offset h)) \<and>
    unat file_len = unat (index_offset h) + unat (of_nat (length es) * of_nat CHUNK_INDEX_ENTRY_SIZE :: 64 word)"
proof -
  obtain t where t: "payload_total (index_offset h) es 0 = Ok t"
      and io: "index_offset h = of_nat HEADER_SIZE + t"
      and fl: "checked_add (index_offset h) (of_nat (length es) * of_nat CHUNK_INDEX_ENTRY_SIZE) = Some file_len"
    using assms(1) by (auto simp: audit_layout_def Let_def split: sum.splits option.splits if_splits)
  let ?s = "map span (sort_key offset es)"
  have region: "\<forall>e \<in> set es. 128 \<le> unat (offset e) \<and>
      unat (offset e) + unat (size_on_disk e) \<le> unat (index_offset h)"
    and total: "unat t = sum_list (map (snd \<circ> span) es)"
    using payload_total_Ok [OF t] by auto
  have "unat (index_offset h) < 2 ^ 64" using unsigned_less [of "index_offset h"] by simp
  then have packed: "packed 128 ?s"
    using region validate_table_Ok [OF assms(2)] by (intro check_overlaps_packed) fastforce+
  have sum: "sum_list (map (snd \<circ> span) (sort_key offset es)) = unat t"
  proof -
    have "mset (map (snd \<circ> span) (sort_key offset es)) = mset (map (snd \<circ> span) es)" by simp
    then have "sum_list (map (snd \<circ> span) (sort_key offset es)) = sum_list (map (snd \<circ> span) es)"
      by (simp only: sum_mset_sum_list [symmetric])
    then show ?thesis by (simp add: total)
  qed
  show ?thesis
  proof (cases "es = []")
    case True
    then have "t = 0" using t by simp
    then show ?thesis using fl io True by (simp add: checked_add_Some HEADER_SIZE_def)
  next
    case False
    then obtain e where "e \<in> set es" by (cases es) auto
    then have lo: "128 \<le> unat (index_offset h)" using region by fastforce
    have bound: "128 + unat t \<le> unat (index_offset h)"
      using packed_sum [OF packed, of "unat (index_offset h)"] region lo by (auto simp: sum)
    then have "unat (index_offset h) = 128 + unat t"
      using unsigned_less [of "index_offset h"] by (simp add: io HEADER_SIZE_def unat_word_ariths)
    then show ?thesis
      using packed_tight [OF packed, of "unat (index_offset h)"] region lo fl
      by (auto simp: sum checked_add_Some)
  qed
qed

section \<open>The index\<close>

text \<open>The 96 bytes an entry was read from: the writer's image, but for the byte of the flag.\<close>

definition entry_bytes :: "chunk_index_entry \<Rightarrow> byte list \<Rightarrow> bool" where
  "entry_bytes e raw \<longleftrightarrow> entry_wf e \<and> validate_entry e = Ok () \<and>
     (\<exists>b. (b \<noteq> 0) = encrypted e \<and> raw = (write_entry e)[48 := b])"

lemma length_entry_bytes: "entry_bytes e raw \<Longrightarrow> length raw = 96"
  by (auto simp: entry_bytes_def)

lemma read_entries_sound:
  "read_entries off i n bs = Ok (es, rest) \<Longrightarrow>
   length es = n \<and> (\<exists>raws. list_all2 entry_bytes es raws \<and> bs = concat raws @ rest)"
proof (induction n arbitrary: i bs es)
  case 0
  then show ?case by (auto simp: give_Ok)
next
  case (Suc n)
  obtain e bs' es' where e: "read_entry bs = Ok (e, bs')" and es: "es = e # es'"
      "read_entries off (Suc i) n bs' = Ok (es', rest)"
    using Suc.prems by (auto simp: then_read_Ok give_Ok split: sum.splits)
  obtain raw where raw: "entry_bytes e raw" "bs = raw @ bs'"
    using read_entry_sound [OF e] by (auto simp: entry_bytes_def)
  obtain raws where "length es' = n" "list_all2 entry_bytes es' raws" "bs' = concat raws @ rest"
    using Suc.IH [OF es(2)] by auto
  then show ?case using raw es by (intro conjI exI [of _ "raw # raws"]) auto
qed

lemma length_concat_raws: "list_all2 entry_bytes es raws \<Longrightarrow> length (concat raws) = 96 * length es"
  by (induction rule: list_all2_induct) (auto simp: length_entry_bytes)

lemma contiguous_le: "contiguous lo xs hi \<Longrightarrow> lo \<le> hi"
  by (induction lo xs hi rule: contiguous.induct) auto

end
