(* ===== verification/Ros_Roundtrip.thy ===== *)
theory Ros_Roundtrip
  imports Ros_Audit
begin

text \<open>
  The writer and the audit agree: a file that \<open>write_ros\<close> produces passes every check of
  \<open>audit_ros_bytes\<close>, with the header and the chunks that were written, and a signature it made is
  found to verify. The lemmas follow the order of the checks.
\<close>

section \<open>The layout of the writer\<close>

definition chunk_ok :: "(byte list \<Rightarrow> 32 word) \<Rightarrow> chunk \<Rightarrow> bool" where
  "chunk_ok crc32 ch \<longleftrightarrow>
     entry_wf (index ch) \<and> validate_entry (index ch) = Ok () \<and> compression (index ch) = Uncompressed \<and>
     compressed_size (index ch) = 0 \<and> unat (uncompressed_size (index ch)) = length (data ch) \<and>
     ent_crc32 (index ch) = crc32 (data ch)"

abbreviation payload_size :: "chunk list \<Rightarrow> nat" where
  "payload_size chs \<equiv> sum_list (map (length \<circ> data) chs)"

lemma chunk_ok_size: "chunk_ok crc32 ch \<Longrightarrow> unat (size_on_disk (index ch)) = length (data ch)"
  by (simp add: chunk_ok_def size_on_disk_def)

lemma chunk_ok_offset [simp]:
  "chunk_ok crc32 (ch\<lparr>index := (index ch)\<lparr>offset := off\<rparr>\<rparr>) = chunk_ok crc32 ch"
  by (simp add: chunk_ok_def entry_wf_def validate_entry_def)

lemma layout_chunks_props:
  assumes "layout_chunks cur chs = (chs', end')"
  shows "map data chs' = map data chs" and "length chs' = length chs"
    and "list_all (chunk_ok crc32) chs' = list_all (chunk_ok crc32) chs"
    and "map (chunk_type \<circ> index) chs' = map (chunk_type \<circ> index) chs"
    and "end' = cur + of_nat (payload_size chs)"
  using assms
  by (induction cur chs arbitrary: chs' end' rule: layout_chunks.induct)
    (auto simp: Let_def split: prod.splits)

lemma layout_contiguous:
  assumes "layout_chunks cur chs = (chs', end')" "list_all (chunk_ok crc32) chs"
    and "unat cur + payload_size chs < 2 ^ 64"
  shows "contiguous (unat cur) (map (span \<circ> index) chs') (unat end') \<and>
    unat end' = unat cur + payload_size chs"
  using assms
proof (induction cur chs arbitrary: chs' end' rule: layout_chunks.induct)
  case (2 cur ch chs)
  obtain rest where rest: "layout_chunks (cur + of_nat (length (data ch))) chs = (rest, end')"
      "chs' = ch\<lparr>index := (index ch)\<lparr>offset := cur\<rparr>\<rparr> # rest"
    using "2.prems"(1) by (auto simp: Let_def split: prod.splits)
  have cur: "unat (cur + of_nat (length (data ch))) = unat cur + length (data ch)"
    using "2.prems"(3) by (simp add: unat_word_ariths unat_of_nat)
  have "size_on_disk (index ch\<lparr>offset := cur\<rparr>) = size_on_disk (index ch)"
    by (simp add: size_on_disk_def)
  then show ?case
    using "2.IH" [OF rest(1)] "2.prems" cur chunk_ok_size by (auto simp: rest(2) add.assoc)
qed simp

text \<open>Laying out again, with a chunk more, changes nothing in the chunks that are already laid out.\<close>

lemma layout_append:
  "layout_chunks cur (xs @ ys) =
     (let (xs', m) = layout_chunks cur xs; (ys', e) = layout_chunks m ys in (xs' @ ys', e))"
  by (induction cur xs rule: layout_chunks.induct) (auto simp: Let_def split: prod.splits)

lemma layout_idempotent:
  "layout_chunks cur chs = (chs', e) \<Longrightarrow> layout_chunks cur chs' = (chs', e)"
proof (induction cur chs arbitrary: chs' e rule: layout_chunks.induct)
  case (2 cur ch chs)
  obtain rest where rest: "layout_chunks (cur + of_nat (length (data ch))) chs = (rest, e)"
      "chs' = ch\<lparr>index := (index ch)\<lparr>offset := cur\<rparr>\<rparr> # rest"
    using "2.prems"(1) by (auto simp: Let_def split: prod.splits)
  then show ?case using "2.IH" [OF rest(1)] by (simp add: Let_def)
qed simp

text \<open>Every chunk is read from where it was put.\<close>

lemma layout_slices:
  assumes "layout_chunks cur chs = (chs', end')" "list_all (chunk_ok crc32) chs"
    and "unat cur + payload_size chs < 2 ^ 64" "length pre = unat cur"
  shows "\<forall>ch \<in> set chs'. raw_chunk_bytes (pre @ concat (map data chs) @ post) (index ch) = Ok (data ch)"
  using assms
proof (induction cur chs arbitrary: chs' end' pre rule: layout_chunks.induct)
  case (2 cur ch chs)
  obtain rest where rest: "layout_chunks (cur + of_nat (length (data ch))) chs = (rest, end')"
      "chs' = ch\<lparr>index := (index ch)\<lparr>offset := cur\<rparr>\<rparr> # rest"
    using "2.prems"(1) by (auto simp: Let_def split: prod.splits)
  have cur: "unat (cur + of_nat (length (data ch))) = unat cur + length (data ch)"
    using "2.prems"(3) by (simp add: unat_word_ariths unat_of_nat)
  have "\<forall>c \<in> set rest. raw_chunk_bytes ((pre @ data ch) @ concat (map data chs) @ post) (index c) = Ok (data c)"
    using "2.prems" cur by (intro "2.IH" [OF rest(1)]) auto
  moreover have "size_on_disk (index ch\<lparr>offset := cur\<rparr>) = size_on_disk (index ch)"
    by (simp add: size_on_disk_def)
  ultimately show ?case
    using "2.prems"(2,4) chunk_ok_size [of crc32 ch]
    by (auto simp: rest(2) raw_chunk_bytes_def file_slice_def)
qed simp

section \<open>The table\<close>

lemma read_entries_complete:
  "list_all (\<lambda>e. entry_wf e \<and> validate_entry e = Ok ()) es \<Longrightarrow>
   read_entries off i (length es) (concat (map write_entry es) @ rest) = Ok (es, rest)"
  by (induction es arbitrary: i) (simp_all add: give_def then_read_def read_entry_complete)

lemma contiguous_sorted:
  "contiguous lo xs hi \<Longrightarrow> sorted (map fst xs) \<and> (\<forall>x \<in> set xs. lo \<le> fst x \<and> fst x + snd x \<le> hi)"
proof (induction lo xs hi rule: contiguous.induct)
  case (2 lo a s xs hi)
  have "sorted (map fst xs) \<and> (\<forall>x \<in> set xs. lo + s \<le> fst x \<and> fst x + snd x \<le> hi)"
    using 2 by simp
  moreover have "lo + s \<le> hi" using "2.prems" contiguous_le by auto
  ultimately show ?case using "2.prems" by force
qed simp

lemma contiguous_overlaps:
  "contiguous lo (map span es) hi \<Longrightarrow> hi < 2 ^ 64 \<Longrightarrow> check_overlaps es = Ok ()"
proof (induction es arbitrary: lo rule: check_overlaps.induct)
  case (1 before cur es)
  have "unat (offset before) + unat (size_on_disk before) \<le> hi"
    using contiguous_sorted [OF "1.prems"(1)] by simp
  then have "unat (offset before + size_on_disk before) = unat (offset cur)"
    using "1.prems" by (simp add: unat_word_ariths)
  then show ?case
    using "1.IH" [OF refl _ _ "1.prems"(2), of "unat (offset cur)"] "1.prems"(1)
    by (auto simp: Let_def word_less_nat_alt)
qed auto

lemma contiguous_sort_key:
  assumes "contiguous lo (map span es) hi"
  shows "sort_key offset es = es"
proof -
  have "sorted (map (\<lambda>e. unat (offset e)) es)"
    using contiguous_sorted [OF assms] by (simp add: comp_def)
  then have "sorted (map offset es)"
    by (simp add: sorted_map word_le_nat_alt)
  then show ?thesis by (rule sort_key_id_if_sorted)
qed

lemma payload_total_complete:
  "contiguous lo (map span es) hi \<Longrightarrow> 128 \<le> lo \<Longrightarrow> hi \<le> unat io \<Longrightarrow>
   unat t + sum_list (map (snd \<circ> span) es) < 2 ^ 64 \<Longrightarrow>
   payload_total io es t = Ok (t + of_nat (sum_list (map (snd \<circ> span) es)))"
proof (induction es arbitrary: lo t)
  case (Cons e es)
  have io: "unat io < 2 ^ 64" using unsigned_less [of io] by simp
  have lo: "lo = unat (offset e)" and rest: "contiguous (lo + unat (size_on_disk e)) (map span es) hi"
    using Cons.prems(1) by auto
  have e: "unat (offset e) + unat (size_on_disk e) \<le> hi"
    using contiguous_le [OF rest] lo by simp
  have a1: "checked_add (offset e) (size_on_disk e) = Some (offset e + size_on_disk e)"
    and a2: "checked_add t (size_on_disk e) = Some (t + size_on_disk e)"
    using e Cons.prems(3,4) io by (auto simp: checked_add_def)
  have guard: "\<not> (offset e < of_nat HEADER_SIZE \<or> io < offset e + size_on_disk e)"
    using e Cons.prems(2,3) io lo
    by (simp add: HEADER_SIZE_def word_less_nat_alt unat_word_ariths not_less)
  have "payload_total io es (t + size_on_disk e) =
      Ok (t + size_on_disk e + of_nat (sum_list (map (snd \<circ> span) es)))"
    using Cons.prems e by (intro Cons.IH [OF rest]) (auto simp: unat_word_ariths)
  then show ?case using a1 a2 guard by (simp add: comp_def)
qed simp

section \<open>A file that was laid out passes the structural audit\<close>

lemma contiguous_sum: "contiguous lo xs hi \<Longrightarrow> hi = lo + sum_list (map snd xs)"
  by (induction lo xs hi rule: contiguous.induct) auto

lemma find_by_type_some:
  "find_by_type es t \<noteq> None \<longleftrightarrow> as_fourcc t \<in> set (map chunk_type es)"
  by (auto simp: find_by_type_def find_None_iff intro: rev_image_eqI)

lemma validate_entries_all:
  "list_all (\<lambda>e. validate_entry e = Ok ()) es \<Longrightarrow> validate_entries i es = Ok ()"
  by (induction i es rule: validate_entries.induct) auto

lemma chunk_ok_entries:
  "list_all (chunk_ok crc32) chs \<Longrightarrow> list_all (\<lambda>e. entry_wf e \<and> validate_entry e = Ok ()) (map index chs)"
  by (auto simp: list_all_iff chunk_ok_def)

lemma validate_table_laid_out:
  assumes "contiguous lo (map span es) hi" "hi < 2 ^ 64"
    and "list_all (\<lambda>e. validate_entry e = Ok ()) es"
    and "set (map as_fourcc [META, HIST, PROV]) \<subseteq> set (map chunk_type es)"
  shows "validate_table es = Ok ()"
proof -
  have "find (\<lambda>t. find_by_type es t = None) [META, HIST, PROV] = None"
    using assms(4) find_by_type_some [of es] by (auto simp: find_None_iff)
  then show ?thesis
    using assms by (simp add: validate_table_def validate_entries_all contiguous_sort_key contiguous_overlaps)
qed

lemma no_compression_found:
  "list_all (chunk_ok crc32) chs \<Longrightarrow>
   find (\<lambda>e. compressed_size e \<noteq> 0 \<or> compression e \<noteq> Uncompressed) (map index chs) = None"
  by (auto simp: find_None_iff list_all_iff chunk_ok_def)

lemma check_crcs_ok:
  "list_all (chunk_ok crc32) chs \<Longrightarrow> \<forall>ch \<in> set chs. raw_chunk_bytes f (index ch) = Ok (data ch) \<Longrightarrow>
   check_crcs crc32 f (map index chs) = Ok ()"
  by (induction chs) (simp_all add: verify_entry_crc_def chunk_ok_def)

lemma audit_layout_complete:
  assumes "contiguous 128 (map span es) (unat (index_offset h))"
    and "unat (index_offset h) + 96 * length es < 2 ^ 64" "length es < 2 ^ 32"
    and "len = index_offset h + of_nat (96 * length es)"
  shows "audit_layout h es len = Ok ()"
proof -
  let ?t = "sum_list (map (snd \<circ> span) es)" and ?io = "unat (index_offset h)"
  have sum: "?io = 128 + ?t" using contiguous_sum [OF assms(1)] by (simp add: comp_def)
  then have "payload_total (index_offset h) es 0 = Ok (of_nat ?t)"
    using payload_total_complete [OF assms(1) order.refl order.refl, of 0] assms(2) by simp
  moreover have "index_offset h = of_nat HEADER_SIZE + of_nat ?t"
    using arg_cong [OF sum, of "of_nat :: nat \<Rightarrow> 64 word"] by (simp add: HEADER_SIZE_def)
  moreover have "checked_add (index_offset h) (of_nat (length es) * of_nat CHUNK_INDEX_ENTRY_SIZE) = Some len"
    using assms(2,3,4)
    by (simp add: checked_add_def CHUNK_INDEX_ENTRY_SIZE_def unat_word_ariths unat_of_nat mult.commute)
  ultimately show ?thesis by (simp add: audit_layout_def Let_def)
qed

text \<open>The entries of the index, one after another.\<close>

lemma entry_slice:
  assumes "list_all entry_wf es" "i < length es" "length pre = n"
  shows "file_slice (pre @ concat (map write_entry es)) (n + i * 96) 96 = Some (write_entry (es ! i))"
proof -
  have len: "length (concat (map write_entry xs)) = 96 * length xs" if "list_all entry_wf xs" for xs
    using that by (induction xs) auto
  have es: "es = take i es @ es ! i # drop (Suc i) es" by (rule id_take_nth_drop [OF assms(2)])
  have "concat (map write_entry es) =
      concat (map write_entry (take i es)) @ write_entry (es ! i) @ concat (map write_entry (drop (Suc i) es))"
    by (subst es) simp
  moreover have "length (concat (map write_entry (take i es))) = i * 96"
    using assms(1,2) by (subst len) (auto simp: list_all_iff dest: in_set_takeD)
  moreover have "length (write_entry (es ! i)) = 96"
    using assms(1,2) by (simp add: list_all_length)
  ultimately show ?thesis using assms(3) by (simp add: file_slice_def)
qed

definition laid_out_file :: "file_header \<Rightarrow> chunk list \<Rightarrow> byte list" where
  "laid_out_file h chs = header_image h @ concat (map data chs) @ concat (map (\<lambda>ch. write_entry (index ch)) chs)"

definition content_fits :: "chunk list \<Rightarrow> bool" where
  "content_fits chs \<longleftrightarrow> 128 + payload_size chs + 96 * length chs < 2 ^ 64 \<and> length chs < 2 ^ 32"

lemma laid_out_accepted:
  assumes lay: "layout_chunks 128 cs = (chs, end')" and ok: "list_all (chunk_ok crc32) cs"
    and fits: "content_fits cs"
    and req: "set (map as_fourcc [META, HIST, PROV]) \<subseteq> set (map (chunk_type \<circ> index) cs)"
    and hok: "header_ok crc32 h" and hval: "validate_header h = Ok ()" "endianness h = Little"
    and hpos: "index_offset h = end'" "index_entry_count h = of_nat (length chs)"
      "file_size h = end' + of_nat (length chs * CHUNK_INDEX_ENTRY_SIZE)"
  shows "audit_structure crc32 (laid_out_file h chs) = Ok (h, map index chs)"
    and "\<forall>ch \<in> set chs. raw_chunk_bytes (laid_out_file h chs) (index ch) = Ok (data ch)"
    and "i < length chs \<Longrightarrow> file_slice (laid_out_file h chs) (unat (index_offset h) + i * CHUNK_INDEX_ENTRY_SIZE)
      CHUNK_INDEX_ENTRY_SIZE = Some (write_entry (index (chs ! i)))"
    and "length (laid_out_file h chs) < 2 ^ 64"
proof -
  note p = layout_chunks_props [OF lay]
  have ok': "list_all (chunk_ok crc32) chs" using p(3) ok by simp
  note wf = chunk_ok_entries [OF ok']
  have cont: "contiguous 128 (map span (map index chs)) (unat end')" and e: "unat end' = 128 + payload_size cs"
    using layout_contiguous [OF lay ok] fits by (auto simp: content_fits_def comp_def)
  have hdr: "length (header_image h) = 128" using hok by (simp add: header_ok_def)
  let ?pre = "header_image h @ concat (map data chs)"
  have pre: "length ?pre = unat end'" using e p(1) hdr by (simp add: length_concat comp_def)
  have len: "length (concat (map write_entry es)) = 96 * length es" if "list_all entry_wf es" for es
    using that by (induction es) auto
  have total: "length (laid_out_file h chs) = unat end' + 96 * length chs"
    using pre len [of "map index chs"] wf
    by (simp add: laid_out_file_def comp_def list_all_iff)
  have tab: "read_table (laid_out_file h chs) (index_offset h) (index_entry_count h) = Ok (map index chs)"
  proof -
    have "drop (unat end') (laid_out_file h chs) = concat (map write_entry (map index chs)) @ []"
      using pre by (simp add: laid_out_file_def comp_def)
    moreover have "unat (index_entry_count h) = length (map index chs)"
      using fits p(2) by (simp add: hpos content_fits_def unat_of_nat)
    ultimately show ?thesis
      using read_entries_complete [OF wf, of end' 0 "[]"] by (simp add: read_table_def hpos)
  qed
  have val: "validate_table (map index chs) = Ok ()"
  proof (rule validate_table_laid_out [OF cont])
    show "unat end' < 2 ^ 64" using unsigned_less [of end'] by simp
    show "list_all (\<lambda>e. validate_entry e = Ok ()) (map index chs)" using wf by (simp add: list_all_iff)
    show "set (map as_fourcc [META, HIST, PROV]) \<subseteq> set (map chunk_type (map index chs))"
      using req by (simp only: map_map p(4))
  qed
  have lay_ok: "audit_layout h (map index chs) (of_nat (length (laid_out_file h chs))) = Ok ()"
  proof (rule audit_layout_complete)
    show "contiguous 128 (map span (map index chs)) (unat (index_offset h))" using cont by (simp add: hpos)
    show "unat (index_offset h) + 96 * length (map index chs) < 2 ^ 64" "length (map index chs) < 2 ^ 32"
      using fits e p(2) by (simp_all add: hpos content_fits_def)
  qed (simp add: total hpos)
  show "length (laid_out_file h chs) < 2 ^ 64"
    using total e fits p(2) by (simp add: content_fits_def)
  show "audit_structure crc32 (laid_out_file h chs) = Ok (h, map index chs)"
  proof -
    have "\<exists>r. read_from crc32 (laid_out_file h chs) = Ok (h, r)"
      using file_hdr.read_write [OF hok] by (auto simp: laid_out_file_def)
    then show ?thesis
      using hval tab val lay_ok no_compression_found [OF ok']
      by (auto simp: audit_structure_def hpos total CHUNK_INDEX_ENTRY_SIZE_def mult.commute)
  qed
  show "\<forall>ch \<in> set chs. raw_chunk_bytes (laid_out_file h chs) (index ch) = Ok (data ch)"
    using layout_slices [OF lay ok _, of "header_image h"] fits hdr p(1)
    by (simp add: laid_out_file_def content_fits_def)
  show "file_slice (laid_out_file h chs) (unat (index_offset h) + i * CHUNK_INDEX_ENTRY_SIZE)
      CHUNK_INDEX_ENTRY_SIZE = Some (write_entry (index (chs ! i)))" if "i < length chs"
    using entry_slice [of "map index chs" i ?pre, OF _ _ pre] wf that
    by (simp add: laid_out_file_def comp_def list_all_iff hpos CHUNK_INDEX_ENTRY_SIZE_def)
qed

section \<open>The signature of the writer\<close>

text \<open>The header as it is signed: the checksum, the file size and the place of the index are blanked,
  which the writer only knows later.\<close>

definition signed_header :: "file_header \<Rightarrow> byte list" where
  "signed_header h = (let e = endianness h in
     before_crc h @ replicate 12 0 @ write_u64 e (creation_time h) @ file_uuid h @ replicate 8 0 @
     drop 40 (fields_after_crc e h))"

lemma zero_range_mid:
  "length xs = a \<Longrightarrow> length ys = b - a \<Longrightarrow> a \<le> b \<Longrightarrow>
   zero_range a b (xs @ ys @ zs) = xs @ replicate (b - a) 0 @ zs"
  by (simp add: zero_range_def)

lemma normalized_header_image:
  assumes "header_wf h"
  shows "normalized_header_leaf (header_image h @ rest) = Ok (signed_header h)"
proof -
  let ?e = "endianness h"
  let ?post = "drop 40 (fields_after_crc ?e h)"
  let ?b = "before_crc h" and ?c = "write_u64 ?e (creation_time h)" and ?u = "file_uuid h"
  have uuid: "length ?u = 16" using assms by (simp add: header_wf_def fields_wf_def)
  then have "fields_after_crc ?e h = write_u64 ?e (file_size h) @ ?c @ ?u @ write_u64 ?e (index_offset h) @ ?post"
    by (simp add: fields_after_crc_def)
  then have img: "header_image h = ?b @ write_u32 ?e (header_crc32 h) @ write_u64 ?e (file_size h) @ ?c @ ?u @
      write_u64 ?e (index_offset h) @ ?post"
    by (simp add: header_image_split)
  have z1: "zero_range 12 16 (header_image h) = ?b @ replicate 4 0 @ write_u64 ?e (file_size h) @ ?c @ ?u @
      write_u64 ?e (index_offset h) @ ?post"
    unfolding img using assms by (subst zero_range_mid) simp_all
  have z2: "zero_range 16 24 (zero_range 12 16 (header_image h)) = (?b @ replicate 4 0) @ replicate 8 0 @ ?c @ ?u @
      write_u64 ?e (index_offset h) @ ?post"
    unfolding z1 using assms zero_range_mid [of "?b @ replicate 4 0" 16 "write_u64 ?e (file_size h)" 24] by simp
  have z3: "zero_range 48 56 (zero_range 16 24 (zero_range 12 16 (header_image h))) =
      (?b @ replicate 4 0 @ replicate 8 0 @ ?c @ ?u) @ replicate 8 0 @ ?post"
    unfolding z2 using assms uuid
      zero_range_mid [of "?b @ replicate 4 0 @ replicate 8 0 @ ?c @ ?u" 48 "write_u64 ?e (index_offset h)" 56 ?post]
    by simp
  show ?thesis
    using z3 assms by (simp add: normalized_header_leaf_def HEADER_SIZE_def signed_header_def Let_def
        replicate_add [of 4 8 "0 :: byte", simplified])
qed

lemma signed_header_updates [simp]:
  assumes "header_wf h"
  shows "signed_header (h\<lparr>header_crc32 := a\<rparr>) = signed_header h"
    and "signed_header (h\<lparr>file_size := b\<rparr>) = signed_header h"
    and "signed_header (h\<lparr>index_offset := d\<rparr>) = signed_header h"
  using assms by (simp_all add: signed_header_def fields_after_crc_def before_crc_def header_wf_def
      fields_wf_def Let_def)

lemma write_to_empty:
  "header_wf h \<Longrightarrow>
   write_to crc32 h [] =
     (Ok (header_image (h\<lparr>header_crc32 := crc32 (crc_cover h)\<rparr>)), h\<lparr>header_crc32 := crc32 (crc_cover h)\<rparr>)"
  by (simp add: write_to_def to_bytes_eq)

lemma traverse_append:
  "traverse_indexed i f (xs @ ys) =
     (case traverse_indexed i f xs of Err e \<Rightarrow> Err e
      | Ok rs \<Rightarrow> (case traverse_indexed (i + length xs) f ys of Err e \<Rightarrow> Err e | Ok ss \<Rightarrow> Ok (rs @ ss)))"
  by (induction xs arbitrary: i) (auto split: sum.splits)

lemma traverse_indexed_Ok:
  "\<forall>j < length xs. f (i + j) (xs ! j) = Ok (g (xs ! j)) \<Longrightarrow> traverse_indexed i f xs = Ok (map g xs)"
proof (induction xs arbitrary: i)
  case (Cons x xs)
  have "f i x = Ok (g x)" using Cons.prems [rule_format, of 0] by simp
  moreover have "traverse_indexed (Suc i) f xs = Ok (map g xs)"
    using Cons.prems [rule_format, of "Suc _"] by (intro Cons.IH) auto
  ultimately show ?case by simp
qed simp

lemma map_filter_Some [simp]: "List.map_filter id (map (\<lambda>x. Some (f x)) xs @ [None]) = map f xs"
  by (induction xs) (simp_all add: List.map_filter_simps)

text \<open>The reader collects the leaves that the writer has signed.\<close>

lemma read_leaves_written:
  assumes raws: "\<forall>ch \<in> set chs. raw_chunk_bytes f (index ch) = Ok (data ch)"
    and slices: "\<forall>i < length chs. file_slice f (unat (index_offset h) + i * CHUNK_INDEX_ENTRY_SIZE)
      CHUNK_INDEX_ENTRY_SIZE = Some (write_entry (index (chs ! i)))"
    and chs: "chs = content @ [sc]" "chunk_type (index sc) = as_fourcc SIGN"
    and unsigned_types: "\<forall>ch \<in> set content. chunk_type (index ch) \<noteq> as_fourcc SIGN"
    and hdr: "normalized_header_leaf f = Ok hl"
  shows "read_leaves f h (map index chs) =
    Ok (signed_leaf_set hl (map data content) (map (\<lambda>ch. write_entry (index ch)) content))"
proof -
  let ?g = "\<lambda>ch. Some (data ch, write_entry (index ch))"
  let ?part = "\<lambda>i ch. signed_part f h i (index ch)"
  have tr_map: "traverse_indexed i (signed_part f h) (map index xs) = traverse_indexed i ?part xs" for i xs
    by (induction xs arbitrary: i) (simp_all split: sum.splits)
  have "traverse_indexed 0 ?part content = Ok (map ?g content)"
  proof (rule traverse_indexed_Ok, intro allI impI)
    fix j
    assume j: "j < length content"
    then have "file_slice f (unat (index_offset h) + j * CHUNK_INDEX_ENTRY_SIZE) CHUNK_INDEX_ENTRY_SIZE =
        Some (write_entry (index (content ! j)))"
      using slices [rule_format, of j] chs(1) by (simp add: nth_append)
    moreover have "content ! j \<in> set content" using j by simp
    ultimately show "?part (0 + j) (content ! j) = Ok (?g (content ! j))"
      using raws chs(1) unsigned_types by (simp add: signed_part_def)
  qed
  moreover have "?part n sc = Ok None" for n by (simp add: signed_part_def chs(2))
  ultimately have "traverse_indexed 0 (signed_part f h) (map index chs) = Ok (map ?g content @ [None])"
    by (simp add: tr_map chs(1) traverse_append del: map_append)
  then show ?thesis by (simp add: read_leaves_def hdr comp_def)
qed

section \<open>The chunk of the signature\<close>

definition sign_payload ::
  "crypto \<Rightarrow> 64 word \<Rightarrow> byte list \<Rightarrow> file_header \<Rightarrow> chunk list \<Rightarrow> signature_chunk" where
  "sign_payload c now key h chunks =
     \<lparr>signer = sign_file c now key (signer_id_of c (public_of c key))
        (the (root_hash (from_leaves (sha c)
           (signed_leaf_set (signed_header h) (map data chunks) (map (\<lambda>ch. write_entry (index ch)) chunks))
           Sha256))) (file_uuid h)\<rparr>"

definition claim_signature :: "nat \<Rightarrow> file_header \<Rightarrow> file_header" where
  "claim_signature n h = h\<lparr>signature_algo := signature_algo_code Ed25519,
     feature_flags := with_signature (feature_flags h), index_entry_count := of_nat n\<rparr>"

lemma root_hash_some: "ds \<noteq> [] \<Longrightarrow> \<exists>r. root_hash (from_leaves H ds alg) = Some r"
  by (metis from_leaves_root option.simps(9) root_hash_def)

lemma sign_payload_sized:
  "crypto_ok c \<Longrightarrow> header_wf h \<Longrightarrow> record_sized (signer (sign_payload c now key h chunks))"
  by (simp add: sign_payload_def record_sized_def sign_file_def crypto_ok_def new_metadata_def
      signer_id_of_def sha256_def header_wf_def fields_wf_def)

lemma append_sign_chunk_ok:
  assumes "crypto_ok c" "header_wf h"
  shows "append_sign_chunk c crc32 now key chunks h =
    (let h1 = claim_signature (length chunks + 1) h;
         h2 = h1\<lparr>header_crc32 := crc32 (crc_cover h1)\<rparr>
     in Ok (chunks @ [new_chunk crc32 SIGN (to_vec_named c (sign_payload c now key h1 chunks))], h2))"
proof -
  let ?h1 = "claim_signature (length chunks + 1) h"
  let ?h2 = "?h1\<lparr>header_crc32 := crc32 (crc_cover ?h1)\<rparr>"
  let ?ls = "signed_leaf_set (signed_header ?h1) (map data chunks) (map (\<lambda>ch. write_entry (index ch)) chunks)"
  have wf: "header_wf ?h1" using assms(2) by (simp add: claim_signature_def header_wf_def fields_wf_def)
  have img: "to_bytes crc32 ?h1 = (Ok (header_image ?h2), ?h2)" by (rule to_bytes_eq [OF wf])
  have hl: "normalized_header_leaf (header_image ?h2) = Ok (signed_header ?h1)"
    using normalized_header_image [of ?h2 "[]"] wf by simp
  obtain r where r: "root_hash (from_leaves (sha c) ?ls Sha256) = Some r"
    using root_hash_some [of ?ls] by (auto simp: signed_leaf_set_def)
  have "to_vec_named c (sign_payload c now key ?h1 chunks) \<noteq> []"
    using sign_payload_sized [OF assms(1) wf] assms(1) by (simp add: crypto_ok_def)
  then show ?thesis
    using img hl r unfolding append_sign_chunk_def claim_signature_def [symmetric]
    by (simp add: Let_def sign_payload_def)
qed

lemma new_chunk_ok:
  assumes "length bytes \<le> 2 ^ 30" "length (as_fourcc t) = 4"
  shows "chunk_ok crc32 (new_chunk crc32 t bytes)"
  using assms
  by (simp add: chunk_ok_def new_chunk_def new_entry_def entry_wf_def validate_entry_def is_all_zeros_def
      MAX_CHUNK_SIZE_def word_less_nat_alt unat_of_nat list_all_iff)

text \<open>What the reader makes of it.\<close>

lemma signature_verdict_signed:
  assumes c: "crypto_ok c" and h: "header_wf h1" "has_signature (feature_flags h)"
    and v2: "uses_integrity_scheme_v2 (major_version h) (minor_version h)"
    and sg: "find_by_type (map index chs) SIGN = Some (index sc)"
      "raw_chunk_bytes f (index sc) = Ok (to_vec_named c (sign_payload c now key h1 content))"
    and ls: "read_leaves f h (map index chs) =
      Ok (signed_leaf_set (signed_header h1) (map data content) (map (\<lambda>ch. write_entry (index ch)) content))"
  shows "signature_verdict c f h (map index chs) =
    Ok (Verified (signer_id_of c (public_of c key)) (public_of c key))"
proof -
  let ?ls = "signed_leaf_set (signed_header h1) (map data content) (map (\<lambda>ch. write_entry (index ch)) content)"
  obtain r where r: "root_hash (from_leaves (sha c) ?ls Sha256) = Some r"
    using root_hash_some [of ?ls] by (auto simp: signed_leaf_set_def)
  have "from_slice c (to_vec_named c (sign_payload c now key h1 content)) = Some (sign_payload c now key h1 content)"
    using sign_payload_sized [OF c h(1)] c by (simp add: crypto_ok_def)
  moreover have "verify_signature c r (signer (sign_payload c now key h1 content)) = Ok True"
    using c r by (simp add: verify_signature_def sign_payload_def sign_file_def crypto_ok_def)
  moreover have "public_key (signer (sign_payload c now key h1 content)) = public_of c key"
    "signer_id (sig_metadata (signer (sign_payload c now key h1 content))) = signer_id_of c (public_of c key)"
    by (simp_all add: sign_payload_def sign_file_def new_metadata_def)
  ultimately show ?thesis using assms r by (simp add: signature_verdict_def Let_def)
qed

section \<open>What is written\<close>

definition content_ok :: "(byte list \<Rightarrow> 32 word) \<Rightarrow> chunk list \<Rightarrow> bool" where
  "content_ok crc32 content \<longleftrightarrow> list_all (chunk_ok crc32) content \<and>
     set (map as_fourcc [META, HIST, PROV]) \<subseteq> set (map (chunk_type \<circ> index) content) \<and>
     as_fourcc SIGN \<notin> set (map (chunk_type \<circ> index) content)"

definition fresh_header :: "file_header \<Rightarrow> bool" where
  "fresh_header h \<longleftrightarrow> header_wf h \<and> magic h = ROSHERA_MAGIC \<and> validate_header h = Ok () \<and>
     endianness h = Little \<and> uses_integrity_scheme_v2 (major_version h) (minor_version h) \<and>
     \<not> has_signature (feature_flags h) \<and> signature_algo h = 0"

lemma fresh_header_update [simp]:
  "fresh_header (h\<lparr>ai_command_count := a, ai_chunk_offset := b\<rparr>) = fresh_header h"
  by (simp add: fresh_header_def header_wf_def fields_wf_def validate_header_def is_supported_def)

text \<open>The header \<open>write_ros\<close> ends with.\<close>

definition final_header :: "(byte list \<Rightarrow> 32 word) \<Rightarrow> nat \<Rightarrow> 64 word \<Rightarrow> file_header \<Rightarrow> file_header" where
  "final_header crc32 n end' h =
     (let h' = h\<lparr>index_offset := end', index_entry_count := of_nat n,
                 file_size := end' + of_nat (n * CHUNK_INDEX_ENTRY_SIZE)\<rparr>
      in h'\<lparr>header_crc32 := crc32 (crc_cover h')\<rparr>)"

lemma final_header_fields [simp]:
  "index_offset (final_header crc32 n e h) = e" "index_entry_count (final_header crc32 n e h) = of_nat n"
  "file_size (final_header crc32 n e h) = e + of_nat (n * CHUNK_INDEX_ENTRY_SIZE)"
  "endianness (final_header crc32 n e h) = endianness h" "feature_flags (final_header crc32 n e h) = feature_flags h"
  "signature_algo (final_header crc32 n e h) = signature_algo h" "file_uuid (final_header crc32 n e h) = file_uuid h"
  "major_version (final_header crc32 n e h) = major_version h"
  "minor_version (final_header crc32 n e h) = minor_version h"
  "validate_header (final_header crc32 n e h) = validate_header h"
  by (simp_all add: final_header_def Let_def validate_header_def is_supported_def)

lemma final_header_ok:
  "header_wf h \<Longrightarrow> magic h = ROSHERA_MAGIC \<Longrightarrow> header_ok crc32 (final_header crc32 n e h)"
  by (simp add: final_header_def Let_def header_ok_def header_wf_def fields_wf_def crc_cover_def)

lemma signed_header_final:
  "header_wf h \<Longrightarrow> index_entry_count h = of_nat n \<Longrightarrow> signed_header (final_header crc32 n e h) = signed_header h"
  by (simp add: final_header_def Let_def signed_header_def fields_after_crc_def before_crc_def header_wf_def
      fields_wf_def)

lemma find_prov:
  assumes "content_ok crc32 content" "map (chunk_type \<circ> index) chunks = map (chunk_type \<circ> index) content"
  obtains prov where "find (\<lambda>ch. chunk_type (index ch) = as_fourcc PROV) chunks = Some prov"
proof -
  have "as_fourcc PROV \<in> set (map (chunk_type \<circ> index) chunks)"
    using assms by (simp add: content_ok_def)
  then have "find (\<lambda>ch. chunk_type (index ch) = as_fourcc PROV) chunks \<noteq> None"
    by (auto simp: find_None_iff)
  then show ?thesis using that by blast
qed

text \<open>An unsigned file.\<close>

lemma write_ros_unsigned:
  assumes h: "fresh_header h" and content: "content_ok crc32 content"
    and lay: "layout_chunks 128 content = (chs, end')"
  shows "\<exists>prov. let h1 = h\<lparr>ai_command_count := commands, ai_chunk_offset := prov\<rparr>
    in fresh_header h1 \<and> write_ros c crc32 now (False, key) commands content h =
      Ok (laid_out_file (final_header crc32 (length chs) end' h1) chs)"
proof -
  note p = layout_chunks_props [OF lay]
  obtain prov where prov: "find (\<lambda>ch. chunk_type (index ch) = as_fourcc PROV) chs = Some prov"
    using find_prov [OF content p(4)] by blast
  let ?h1 = "h\<lparr>ai_command_count := commands, ai_chunk_offset := offset (index prov)\<rparr>"
  have h1: "fresh_header ?h1" using h by simp
  have "\<not> list_ex (\<lambda>ch. chunk_type (index ch) = as_fourcc SIGN) chs"
  proof -
    have "as_fourcc SIGN \<notin> set (map (chunk_type \<circ> index) chs)"
      using content by (simp only: p(4) content_ok_def simp_thms)
    then show ?thesis by (force simp: list_ex_iff)
  qed
  moreover have "header_wf (?h1\<lparr>index_offset := a, index_entry_count := b, file_size := d\<rparr>)" for a b d
    using h by (simp add: fresh_header_def header_wf_def fields_wf_def)
  ultimately have "write_ros c crc32 now (False, key) commands content h =
      Ok (laid_out_file (final_header crc32 (length chs) end' ?h1) chs)"
    using h prov layout_idempotent [OF lay]
    by (simp add: write_ros_def lay check_signature_claim_matches_table_def fresh_header_def write_to_empty
        laid_out_file_def final_header_def Let_def comp_def)
  then show ?thesis using h1 by (auto simp: Let_def)
qed

text \<open>A signed one: the chunk of the signature is the last, and laying out again leaves the rest
  alone.\<close>

lemma write_ros_signed:
  assumes c: "crypto_ok c" and h: "fresh_header h" and content: "content_ok crc32 content"
    and lay: "layout_chunks 128 content = (chs, end')"
  shows "\<exists>prov. let h1 = claim_signature (Suc (length chs)) (h\<lparr>ai_command_count := commands, ai_chunk_offset := prov\<rparr>);
      bytes = to_vec_named c (sign_payload c now key h1 chs);
      sc = new_chunk crc32 SIGN bytes;
      sc' = sc\<lparr>index := (index sc)\<lparr>offset := end'\<rparr>\<rparr>;
      end2 = end' + of_nat (length bytes)
    in header_wf h1 \<and> layout_chunks 128 (chs @ [sc]) = (chs @ [sc'], end2) \<and>
      write_ros c crc32 now (True, Some key) commands content h =
        Ok (laid_out_file (final_header crc32 (Suc (length chs)) end2 h1) (chs @ [sc']))"
proof -
  note p = layout_chunks_props [OF lay]
  obtain prov where prov: "find (\<lambda>ch. chunk_type (index ch) = as_fourcc PROV) chs = Some prov"
    using find_prov [OF content p(4)] by blast
  let ?h0 = "h\<lparr>ai_command_count := commands, ai_chunk_offset := offset (index prov)\<rparr>"
  let ?h1 = "claim_signature (Suc (length chs)) ?h0"
  let ?sc = "new_chunk crc32 SIGN (to_vec_named c (sign_payload c now key ?h1 chs))"
  have wf0: "header_wf ?h0" using h by (simp add: fresh_header_def header_wf_def fields_wf_def)
  have wf: "header_wf ?h1" using wf0 by (simp add: claim_signature_def header_wf_def fields_wf_def)
  have lay2: "layout_chunks 128 (chs @ [?sc]) = (chs @ [?sc\<lparr>index := (index ?sc)\<lparr>offset := end'\<rparr>\<rparr>],
      end' + of_nat (length (data ?sc)))"
    using layout_idempotent [OF lay] by (simp add: layout_append Let_def)
  have late: "(?h1\<lparr>header_crc32 := x, index_offset := a, index_entry_count := b, file_size := d\<rparr>)
      \<lparr>header_crc32 := y\<rparr> = ?h1\<lparr>index_offset := a, index_entry_count := b, file_size := d\<rparr>\<lparr>header_crc32 := y\<rparr>"
    and cover: "crc_cover (?h1\<lparr>header_crc32 := x, index_offset := a, index_entry_count := b, file_size := d\<rparr>) =
      crc_cover (?h1\<lparr>index_offset := a, index_entry_count := b, file_size := d\<rparr>)"
    and wf2: "header_wf (?h1\<lparr>header_crc32 := x, index_offset := a, index_entry_count := b, file_size := d\<rparr>)"
    for x y a b d
    using wf by (simp_all add: crc_cover_def before_crc_def fields_after_crc_def header_wf_def fields_wf_def)
  have "has_signature (feature_flags ?h1)" by (simp add: claim_signature_def flags_independent)
  moreover have "chunk_type (index ?sc) = as_fourcc SIGN" "data ?sc = to_vec_named c (sign_payload c now key ?h1 chs)"
    by (simp_all add: new_chunk_def new_entry_def)
  ultimately have "write_ros c crc32 now (True, Some key) commands content h =
        Ok (laid_out_file (final_header crc32 (Suc (length chs)) (end' + of_nat (length (data ?sc))) ?h1)
          (chs @ [?sc\<lparr>index := (index ?sc)\<lparr>offset := end'\<rparr>\<rparr>]))"
    using prov wf2 late cover
    by (simp add: write_ros_def lay append_sign_chunk_ok [OF c wf0] lay2
        check_signature_claim_matches_table_def write_to_empty laid_out_file_def final_header_def
        Let_def comp_def distrib_right del: layout_chunks.simps)
  then show ?thesis
    using wf lay2 by (intro exI [of _ "offset (index prov)"]) (simp add: Let_def new_chunk_def)
qed

end
