(* ===== verification/Ros_Props.thy ===== *)
theory Ros_Props
  imports Ros_Roundtrip
begin

text \<open>
  Properties of the \<^verbatim>\<open>.ros\<close> container: what the writer makes and what the audit accepts, what a
  signature covers, and the proofs of inclusion of the Merkle tree the signature is over.
\<close>

section \<open>Written files are accepted\<close>

text \<open>The chunks of a table that hold given contents.\<close>

definition holds_chunks :: "byte list \<Rightarrow> chunk list \<Rightarrow> chunk_table \<Rightarrow> bool" where
  "holds_chunks f chs table \<longleftrightarrow>
     list_all2 (\<lambda>ch e. chunk_type e = chunk_type (index ch) \<and> raw_chunk_bytes f e = Ok (data ch)) chs table"

lemma holds_chunks_laid_out:
  assumes "layout_chunks cur cs = (chs, end')" "\<forall>ch \<in> set chs. raw_chunk_bytes f (index ch) = Ok (data ch)"
  shows "holds_chunks f cs (map index chs)"
proof -
  have "list_all2 (\<lambda>ch ch'. chunk_type (index ch') = chunk_type (index ch) \<and> data ch' = data ch) cs chs"
    using assms(1) by (induction cur cs arbitrary: chs end' rule: layout_chunks.induct)
      (auto simp: Let_def split: prod.splits)
  then show ?thesis
    using assms(2) by (auto simp: holds_chunks_def list_all2_conv_all_nth)
qed

lemma unsigned_accepted:
  assumes h: "fresh_header h" and content: "content_ok crc32 content" and fits: "content_fits content"
  shows "\<exists>f h' table. write_ros c crc32 now (False, key) commands content h = Ok f \<and>
    audit_ros_bytes c crc32 f = Ok (h', table, Unsigned) \<and>
    holds_chunks f content table \<and> file_uuid h' = file_uuid h \<and> length f < 2 ^ 64"
proof -
  obtain chs end' where lay: "layout_chunks 128 content = (chs, end')" by fastforce
  note p = layout_chunks_props [OF lay]
  obtain prov where h1: "fresh_header (h\<lparr>ai_command_count := commands, ai_chunk_offset := prov\<rparr>)"
    and w: "write_ros c crc32 now (False, key) commands content h =
      Ok (laid_out_file (final_header crc32 (length chs) end'
        (h\<lparr>ai_command_count := commands, ai_chunk_offset := prov\<rparr>)) chs)"
    using write_ros_unsigned [OF h content lay, of commands c now key] by (auto simp: Let_def)
  let ?h = "final_header crc32 (length chs) end' (h\<lparr>ai_command_count := commands, ai_chunk_offset := prov\<rparr>)"
  have hok: "header_ok crc32 ?h" using h1 by (intro final_header_ok) (simp_all add: fresh_header_def)
  have val: "validate_header ?h = Ok ()" "endianness ?h = Little"
    using h1 by (simp_all add: fresh_header_def)
  have ok: "list_all (chunk_ok crc32) content"
    and req: "set (map as_fourcc [META, HIST, PROV]) \<subseteq> set (map (chunk_type \<circ> index) content)"
    using content by (simp_all only: content_ok_def)
  note acc = laid_out_accepted [OF lay ok fits req hok val, simplified]
  have "as_fourcc SIGN \<notin> set (map chunk_type (map index chs))"
    using content by (simp only: map_map p(4) content_ok_def simp_thms)
  then have "find_by_type (map index chs) SIGN = None"
    using find_by_type_some by metis
  then have "signature_verdict c (laid_out_file ?h chs) ?h (map index chs) = Ok Unsigned"
    using h by (simp add: signature_verdict_def fresh_header_def)
  moreover have "check_crcs crc32 (laid_out_file ?h chs) (map index chs) = Ok ()"
    using p(3) ok acc(2) by (intro check_crcs_ok) simp_all
  ultimately have "audit_ros_bytes c crc32 (laid_out_file ?h chs) = Ok (?h, map index chs, Unsigned)"
    using acc(1) by (simp add: audit_ros_bytes_def)
  moreover have "holds_chunks (laid_out_file ?h chs) content (map index chs)"
    using acc(2) by (intro holds_chunks_laid_out [OF lay])
  ultimately show ?thesis
    using w acc(4) by (intro exI [of _ "laid_out_file ?h chs"] exI [of _ ?h] exI [of _ "map index chs"]) simp
qed

lemma validate_claimed:
  "validate_header (claim_signature n (h\<lparr>ai_command_count := a, ai_chunk_offset := b\<rparr>)) = validate_header h"
  by (simp add: claim_signature_def validate_header_def is_supported_def)

lemma find_sign_last:
  assumes "as_fourcc SIGN \<notin> set (map (chunk_type \<circ> index) chs)" "chunk_type (index sc) = as_fourcc SIGN"
  shows "find_by_type (map index (chs @ [sc])) SIGN = Some (index sc)"
  using assms by (induction chs) (auto simp: find_by_type_def)

lemma signed_accepted:
  assumes c: "crypto_ok c" and h: "fresh_header h" and content: "content_ok crc32 content"
    and fits: "128 + payload_size content + 96 * (length content + 1) + 2 ^ 30 < 2 ^ 64"
      "length content + 1 < 2 ^ 32"
  shows "\<exists>f h' table. write_ros c crc32 now (True, Some key) commands content h = Ok f \<and>
    audit_ros_bytes c crc32 f = Ok (h', table, Verified (signer_id_of c (public_of c key)) (public_of c key)) \<and>
    holds_chunks f content (butlast table) \<and> file_uuid h' = file_uuid h"
proof -
  obtain chs end' where lay: "layout_chunks 128 content = (chs, end')" by fastforce
  note p = layout_chunks_props [OF lay]
  obtain h1 bytes sc sc' end2 where h1: "header_wf h1"
      and h1_fields: "\<exists>prov. h1 = claim_signature (Suc (length chs)) (h\<lparr>ai_command_count := commands, ai_chunk_offset := prov\<rparr>)"
      and bytes: "bytes = to_vec_named c (sign_payload c now key h1 chs)"
      and sc: "sc = new_chunk crc32 SIGN bytes" "sc' = sc\<lparr>index := (index sc)\<lparr>offset := end'\<rparr>\<rparr>"
      and lay2: "layout_chunks 128 (chs @ [sc]) = (chs @ [sc'], end2)"
      and w: "write_ros c crc32 now (True, Some key) commands content h =
        Ok (laid_out_file (final_header crc32 (Suc (length chs)) end2 h1) (chs @ [sc']))"
    using write_ros_signed [OF c h content lay, of commands now key] by (fastforce simp: Let_def)
  let ?h = "final_header crc32 (Suc (length chs)) end2 h1" and ?chs = "chs @ [sc']"
  let ?f = "laid_out_file ?h ?chs"
  have fields: "magic h1 = ROSHERA_MAGIC" "validate_header h1 = Ok ()" "endianness h1 = Little"
      "uses_integrity_scheme_v2 (major_version h1) (minor_version h1)" "has_signature (feature_flags h1)"
      "file_uuid h1 = file_uuid h" "index_entry_count h1 = of_nat (Suc (length chs))"
    using h1_fields h by (auto simp: fresh_header_def validate_claimed) (auto simp: claim_signature_def flags_independent)
  have ok_chs: "list_all (chunk_ok crc32) chs" using content p(3) by (simp add: content_ok_def)
  have small: "length bytes \<le> 2 ^ 30"
    using sign_payload_sized [OF c h1] c by (simp add: bytes crypto_ok_def)
  have ok: "list_all (chunk_ok crc32) (chs @ [sc])"
    using ok_chs new_chunk_ok [OF small, of SIGN] by (simp add: sc ascii_def)
  have sc_type: "chunk_type (index sc') = as_fourcc SIGN" "data sc' = bytes" "data sc = bytes"
    by (simp_all add: sc new_chunk_def new_entry_def)
  have types: "set (map (chunk_type \<circ> index) chs) = set (map (chunk_type \<circ> index) content)"
    by (simp only: p(4))
  have req: "set (map as_fourcc [META, HIST, PROV]) \<subseteq> set (map (chunk_type \<circ> index) (chs @ [sc]))"
    and no_sign: "as_fourcc SIGN \<notin> set (map (chunk_type \<circ> index) chs)"
    using content types by (auto simp: content_ok_def simp del: as_fourcc.simps)
  have no_sign': "\<forall>ch \<in> set chs. chunk_type (index ch) \<noteq> as_fourcc SIGN"
    using no_sign by (force simp del: as_fourcc.simps)
  have size_chs: "payload_size chs = payload_size content"
    using p(1) by (metis map_map)
  have fits2: "content_fits (chs @ [sc])"
    using fits small size_chs p(2) by (simp add: content_fits_def sc_type)
  have hok: "header_ok crc32 ?h" using h1 fields by (intro final_header_ok) simp_all
  have val: "validate_header ?h = Ok ()" "endianness ?h = Little" using fields by simp_all
  note acc = laid_out_accepted [OF lay2 ok fits2 req hok val, simplified]
  have ok': "list_all (chunk_ok crc32) ?chs" by (subst layout_chunks_props(3) [OF lay2]) (rule ok)
  have hdr: "normalized_header_leaf ?f = Ok (signed_header h1)"
    using normalized_header_image hok h1 fields signed_header_final
    by (simp add: laid_out_file_def header_ok_def)
  have ls: "read_leaves ?f ?h (map index ?chs) =
      Ok (signed_leaf_set (signed_header h1) (map data chs) (map (\<lambda>ch. write_entry (index ch)) chs))"
    using acc(2,3) by (intro read_leaves_written [OF _ _ refl sc_type(1) no_sign' hdr]) auto
  have "signature_verdict c ?f ?h (map index ?chs) =
      Ok (Verified (signer_id_of c (public_of c key)) (public_of c key))"
    using acc(2) fields sc_type
    by (intro signature_verdict_signed [OF c h1 _ _ find_sign_last [OF no_sign sc_type(1)] _ ls])
      (simp_all add: bytes)
  moreover have "check_crcs crc32 ?f (map index ?chs) = Ok ()"
    using acc(2) by (intro check_crcs_ok [OF ok']) simp
  ultimately have "audit_ros_bytes c crc32 ?f =
      Ok (?h, map index ?chs, Verified (signer_id_of c (public_of c key)) (public_of c key))"
    using acc(1) by (simp add: audit_ros_bytes_def)
  moreover have "holds_chunks ?f content (butlast (map index ?chs))"
    using holds_chunks_laid_out [OF lay, of ?f] acc(2) by simp
  ultimately show ?thesis
    using w fields(6) by (intro exI [of _ ?f] exI [of _ ?h] exI [of _ "map index ?chs"]) simp
qed

text \<open>C14. Writer and audit agree: for content chunks that are well formed, uncompressed and carry their
  checksums, with META, HIST and PROV among them, and a fresh header, \<open>write_ros\<close> returns a file and
  \<open>audit_ros_bytes\<close> accepts it: the chunks read back are the ones written, and the verdict on the
  signature is \<open>Unsigned\<close> when no key was used and \<open>Verified\<close> with the identity of the key otherwise,
  although the writer patches the checksum, the file size and the place of the index after signing.\<close>

theorem written_file_accepted:
  assumes "crypto_ok c" "fresh_header h" "content_ok crc32 content"
    and "128 + payload_size content + 96 * (length content + 1) + 2 ^ 30 < 2 ^ 64"
    and "length content + 1 < 2 ^ 32"
  shows "\<exists>f h' table.
    write_ros c crc32 now (signing \<noteq> None, signing) commands content h = Ok f \<and>
    audit_ros_bytes c crc32 f = Ok (h', table, case signing of None \<Rightarrow> Unsigned
      | Some key \<Rightarrow> Verified (signer_id_of c (public_of c key)) (public_of c key)) \<and>
    holds_chunks f content (case signing of None \<Rightarrow> table | Some key \<Rightarrow> butlast table) \<and>
    file_uuid h' = file_uuid h"
proof (cases signing)
  case None
  have "content_fits content" using assms(4,5) by (simp add: content_fits_def)
  then show ?thesis using unsigned_accepted [OF assms(2,3)] None by fastforce
next
  case (Some key)
  then show ?thesis using signed_accepted [OF assms] by simp
qed

text \<open>A scheme on which the hypotheses hold: bytes are padded to a digest, keys are 32 bytes long, any
  64 bytes sign, and a record is the concatenation of its fields.\<close>

definition plain_encode :: "signature_chunk \<Rightarrow> byte list" where
  "plain_encode s = (let r = signer s; md = sig_metadata r in
     file_id md @ signer_id md @ public_key r @ sig_bytes r @ be_bytes 8 (unat (sig_timestamp md)) @
     be_bytes 4 (unat (signature_version md)) @ [signature_algo_code (sig_algorithm r)])"

definition plain_decode :: "byte list \<Rightarrow> signature_chunk option" where
  "plain_decode bs =
     (if length bs = 141
      then Some \<lparr>signer = \<lparr>sig_algorithm = (if bs ! 140 = 0 then No_Signature else Ed25519),
             public_key = take 32 (drop 32 bs), sig_bytes = take 64 (drop 64 bs),
             sig_metadata = \<lparr>file_id = take 16 bs, sig_timestamp = of_nat (be_value (take 8 (drop 128 bs))),
               signer_id = take 16 (drop 16 bs),
               signature_version = of_nat (be_value (take 4 (drop 136 bs)))\<rparr>\<rparr>\<rparr>
      else None)"

definition pad :: "nat \<Rightarrow> byte list \<Rightarrow> byte list" where
  "pad n bs = take n (bs @ replicate n 0)"

definition plain_crypto :: crypto where
  "plain_crypto = \<lparr>sha = (\<lambda>alg. pad (hash_size alg)), public_of = pad 32, sign_with = (\<lambda>k m. pad 64 (k @ m)),
     valid_key = (\<lambda>k. length k = 32), valid_signature = (\<lambda>s. length s = 64),
     verifies = (\<lambda>pk m s. length s = 64), to_vec_named = plain_encode, from_slice = plain_decode\<rparr>"

lemma length_pad [simp]: "length (pad n bs) = n"
  by (simp add: pad_def)

lemma pad_full: "length bs = n \<Longrightarrow> pad n bs = bs"
  by (simp add: pad_def)

lemma pad_single: "0 < n \<Longrightarrow> pad n [x] = x # replicate (n - 1) 0"
  by (cases n) (simp_all add: pad_def del: replicate_Suc)

lemma plain_decode_encode:
  assumes "record_sized (signer s)"
  shows "plain_decode (plain_encode s) = Some s" "length (plain_encode s) = 141"
proof -
  obtain alg pk sg fid ts sid v where s: "s = \<lparr>signer = \<lparr>sig_algorithm = alg, public_key = pk, sig_bytes = sg,
      sig_metadata = \<lparr>file_id = fid, sig_timestamp = ts, signer_id = sid, signature_version = v\<rparr>\<rparr>\<rparr>"
    by (metis file_signature_metadata.surjective signature_chunk.surjective signature_record.surjective unit.exhaust)
  have len: "length pk = 32" "length sg = 64" "length fid = 16" "length sid = 16"
    using assms by (simp_all add: s record_sized_def)
  have "unat ts < 256 ^ 8" "unat v < 256 ^ 4"
    using unsigned_less [of ts] unsigned_less [of v] by simp_all
  then show "plain_decode (plain_encode s) = Some s"
    using len by (cases alg) (simp_all add: s plain_decode_def plain_encode_def Let_def be_value_be_bytes nth_append)
  show "length (plain_encode s) = 141"
    using len by (simp add: s plain_encode_def Let_def)
qed

lemma plain_crypto_ok: "crypto_ok plain_crypto"
  using plain_decode_encode by (force simp: crypto_ok_def plain_crypto_def)

abbreviation sample_content :: "chunk list" where
  "sample_content \<equiv> [new_chunk (\<lambda>bs. of_nat (length bs)) META [1, 2],
     new_chunk (\<lambda>bs. of_nat (length bs)) HIST [], new_chunk (\<lambda>bs. of_nat (length bs)) PROV [3]]"

abbreviation sample_header :: file_header where
  "sample_header \<equiv> new_header Little 1700000000 (replicate 16 7)"

lemma sample_ok: "fresh_header sample_header" "content_ok (\<lambda>bs. of_nat (length bs)) sample_content"
proof -
  show "fresh_header sample_header"
    using new_header_valid [of "replicate 16 7" Little 1700000000]
    by (simp add: fresh_header_def new_header_def uses_integrity_scheme_v2_def CURRENT_MINOR_VERSION_def
        INTEGRITY_SCHEME_V2_MIN_MINOR_def has_signature_def)
  show "content_ok (\<lambda>bs. of_nat (length bs)) sample_content"
    unfolding content_ok_def
    by (intro conjI) (simp add: new_chunk_ok ascii_def, simp_all add: new_chunk_def new_entry_def ascii_def)
qed

theorem written_file_accepted_witness:
  "\<exists>f h' table.
    write_ros plain_crypto (\<lambda>bs. of_nat (length bs)) 5 (True, Some [9]) 2 sample_content sample_header = Ok f \<and>
    audit_ros_bytes plain_crypto (\<lambda>bs. of_nat (length bs)) f =
      Ok (h', table, Verified (9 # replicate 15 0) (9 # replicate 31 0)) \<and>
    holds_chunks f sample_content (butlast table) \<and> file_uuid h' = replicate 16 7"
proof -
  have key: "public_of plain_crypto [9] = 9 # replicate 31 0"
    by (simp add: plain_crypto_def pad_single)
  have sid: "signer_id_of plain_crypto (9 # replicate 31 0) = 9 # replicate 15 0"
    by (simp add: signer_id_of_def sha256_def plain_crypto_def pad_full take_Cons')
  have small: "128 + payload_size sample_content + 96 * (length sample_content + 1) + 2 ^ 30 < 2 ^ 64"
      "length sample_content + 1 < 2 ^ 32"
    by (simp_all add: new_chunk_def)
  have "file_uuid sample_header = replicate 16 7" by (simp add: new_header_def)
  then show ?thesis
    using written_file_accepted [OF plain_crypto_ok sample_ok small, where now = 5 and signing = "Some [9]" and commands = 2]
    by (simp only: key sid option.case option.simps simp_thms)
qed

text \<open>C15. No dead space and nothing twice: a file whose structure the audit accepts is exactly the
  image of its header, then the chunks' bytes in the order of their offsets, then the entries of the
  index, each on its own 96 bytes. So no byte of the file lies outside what the header, an entry or
  a chunk accounts for, whatever sizes and offsets the file declares.\<close>

theorem audit_leaves_no_gap:
  assumes "audit_structure crc32 file = Ok (h, table)" "length file < 2 ^ 64"
  shows "\<exists>raws. list_all2 entry_bytes table raws \<and>
    file = header_image h @
      concat (map (\<lambda>e. take (unat (size_on_disk e)) (drop (unat (offset e)) file)) (sort_key offset table)) @
      concat raws"
proof -
  obtain rest where hdr: "read_from crc32 file = Ok (h, rest)"
      and tab: "read_table file (index_offset h) (index_entry_count h) = Ok table"
      and val: "validate_table table = Ok ()"
      and lay: "audit_layout h table (of_nat (length file)) = Ok ()"
    using assms(1) by (auto simp: audit_structure_def split: sum.splits prod.splits if_splits option.splits)
  note cont = audit_layout_contiguous [OF lay val]
  let ?io = "unat (index_offset h)"
  obtain idx where "read_entries (index_offset h) 0 (unat (index_entry_count h)) (drop ?io file) = Ok (table, idx)"
    using tab by (cases "read_entries (index_offset h) 0 (unat (index_entry_count h)) (drop ?io file)")
      (auto simp: read_table_def)
  from read_entries_sound [OF this] obtain raws
    where len: "length table = unat (index_entry_count h)" and raws: "list_all2 entry_bytes table raws"
      and idx: "drop ?io file = concat raws @ idx" by blast
  have "length table < 2 ^ 32" using unsigned_less [of "index_entry_count h"] by (simp add: len)
  then have "unat (of_nat (length table) * of_nat CHUNK_INDEX_ENTRY_SIZE :: 64 word) = length table * 96"
    by (simp add: CHUNK_INDEX_ENTRY_SIZE_def unat_word_ariths unat_of_nat)
  then have fl: "length file = ?io + length table * 96"
    using cont assms(2) by (simp add: unat_of_nat)
  then have "idx = []"
    using arg_cong [OF idx, of length] length_concat_raws [OF raws] by simp
  have "file = take 128 file @ take (?io - 128) (drop 128 file) @ drop ?io file"
    using contiguous_le [OF conjunct1 [OF cont]]
    by (metis append_take_drop_id drop_drop le_add_diff_inverse2)
  also have "take 128 file = header_image h" by (rule read_from_length [OF hdr])
  also have "take (?io - 128) (drop 128 file) =
      concat (map (\<lambda>e. take (unat (size_on_disk e)) (drop (unat (offset e)) file)) (sort_key offset table))"
    using contiguous_slices [OF conjunct1 [OF cont], where f = "file"] by (simp add: comp_def)
  finally show ?thesis using raws idx \<open>idx = []\<close> by auto
qed

theorem audit_leaves_no_gap_witness:
  "\<exists>f h table raws.
    write_ros plain_crypto (\<lambda>bs. of_nat (length bs)) 5 (False, None) 2 sample_content sample_header = Ok f \<and>
    list_all2 entry_bytes table raws \<and>
    f = header_image h @
      concat (map (\<lambda>e. take (unat (size_on_disk e)) (drop (unat (offset e)) f)) (sort_key offset table)) @
      concat raws"
proof -
  have small: "content_fits sample_content"
    by (simp add: content_fits_def new_chunk_def)
  obtain f h' table where w: "write_ros plain_crypto (\<lambda>bs. of_nat (length bs)) 5 (False, None) 2
        sample_content sample_header = Ok f"
      and audit: "audit_ros_bytes plain_crypto (\<lambda>bs. of_nat (length bs)) f = Ok (h', table, Unsigned)"
      and len: "length f < 2 ^ 64"
    using unsigned_accepted [OF sample_ok small] by blast
  have "audit_structure (\<lambda>bs. of_nat (length bs)) f = Ok (h', table)"
    using audit by (auto simp: audit_ros_bytes_def split: sum.splits)
  from audit_leaves_no_gap [OF this len] show ?thesis using w by blast
qed

section \<open>The header and the index\<close>

text \<open>The reader of the header accepts exactly what the writer makes: it returns \<open>h\<close> on some bytes
  when and only when they start with the 128 bytes that \<open>to_bytes\<close> writes for a well-formed header
  with the magic, \<open>h\<close> being that header with the checksum filled in.\<close>

theorem header_reader_exact:
  "read_from crc32 bs = Ok (h, rest) \<longleftrightarrow>
    (\<exists>h0 img. header_wf h0 \<and> magic h0 = ROSHERA_MAGIC \<and> to_bytes crc32 h0 = (Ok img, h) \<and>
      length img = 128 \<and> bs = img @ rest)" (is "_ \<longleftrightarrow> ?r")
proof
  assume "read_from crc32 bs = Ok (h, rest)"
  then have h: "header_ok crc32 h" "bs = header_image h @ rest" by (simp_all add: file_hdr.read_iff)
  then have "to_bytes crc32 h = (Ok (header_image h), h)"
    by (cases h) (simp add: header_ok_def to_bytes_eq)
  then show ?r using h by (auto simp: header_ok_def)
next
  assume ?r
  then show "read_from crc32 bs = Ok (h, rest)"
    by (auto simp: to_bytes_eq file_hdr.read_iff header_ok_def crc_cover_def)
qed

lemma image_of_cover:
  assumes "header_wf h" "header_wf h'" "header_crc32 h = header_crc32 h'"
    and "before_crc h @ after_crc h = before_crc h' @ after_crc h'"
  shows "header_image h = header_image h'"
proof -
  have "before_crc h = before_crc h'" "after_crc h = after_crc h'"
    using assms(4) append_eq_append_conv [of "before_crc h" "before_crc h'"] assms(1,2) by simp_all
  moreover from this(1) have "endianness h = endianness h'"
    using assms(1,2) by (simp add: before_crc_def header_wf_def)
  ultimately show ?thesis using assms(3) by (simp add: header_image_split)
qed

text \<open>What the checksum of the header protects: under the integrity scheme of version 3.2 two
  accepted headers with the same stored checksum are the same 128 bytes, or exhibit two different
  inputs with the same CRC. Before it, every change of the 112 bytes behind the checksum (sizes, the
  place of the index, the algorithms, the flags) is accepted.\<close>

theorem header_checksum_scope:
  assumes "read_from crc32 bs = Ok (h, rest)"
  shows "if uses_integrity_scheme_v2 (major_version h) (minor_version h)
    then \<forall>bs' h' rest'. read_from crc32 bs' = Ok (h', rest') \<and> header_crc32 h' = header_crc32 h \<and>
        uses_integrity_scheme_v2 (major_version h') (minor_version h') \<longrightarrow>
      take 128 bs' = take 128 bs \<or>
      (\<exists>x y. x \<noteq> y \<and> length x = 124 \<and> length y = 124 \<and> crc32 x = crc32 y)
    else \<forall>junk. length junk = 112 \<longrightarrow> (\<exists>h'. read_from crc32 (take 16 bs @ junk @ rest) = Ok (h', rest))"
proof (cases "uses_integrity_scheme_v2 (major_version h) (minor_version h)")
  case True
  have h: "header_ok crc32 h" "bs = header_image h @ rest" using assms by (simp_all add: file_hdr.read_iff)
  have "take 128 bs' = take 128 bs \<or> (\<exists>x y. x \<noteq> y \<and> length x = 124 \<and> length y = 124 \<and> crc32 x = crc32 y)"
    if r: "read_from crc32 bs' = Ok (h', rest')" and same: "header_crc32 h' = header_crc32 h"
      and v2: "uses_integrity_scheme_v2 (major_version h') (minor_version h')" for bs' h' rest'
  proof -
    have h': "header_ok crc32 h'" "bs' = header_image h' @ rest'" using r by (simp_all add: file_hdr.read_iff)
    have "crc32 (crc_cover h') = crc32 (crc_cover h)" using h h' same by (simp add: header_ok_def)
    moreover have "length (crc_cover h') = 124" "length (crc_cover h) = 124"
      using h h' True v2 by (simp_all add: header_ok_def crc_cover_def)
    moreover have "header_image h' = header_image h" if "crc_cover h' = crc_cover h"
      using that h h' True v2 same by (intro image_of_cover) (simp_all add: header_ok_def crc_cover_def)
    ultimately show ?thesis using h h' by (auto simp: header_ok_def)
  qed
  then show ?thesis using True by auto
next
  case False
  have h: "header_ok crc32 h" "bs = header_image h @ rest" using assms by (simp_all add: file_hdr.read_iff)
  have "\<exists>h'. read_from crc32 (take 16 bs @ junk @ rest) = Ok (h', rest)" if junk: "length junk = 112" for junk
  proof -
    let ?e = "endianness h"
    obtain h' where h': "magic h' = magic h" "fields_wf h'" "before_crc h' = before_crc h"
        "header_crc32 h' = header_crc32 h" "endianness h' = ?e" "fields_after_crc ?e h' = junk"
      using fields_total [OF junk, of "magic h" "major_version h" "minor_version h" "patch_version h" ?e]
      by (metis before_crc_def)
    have v: "major_version h' = major_version h" "minor_version h' = minor_version h"
      using h'(1,3) by (simp_all add: before_crc_def)
    have "header_ok crc32 h'"
      using h h' v False by (simp add: header_ok_def header_wf_def crc_cover_def)
    moreover have "take 16 bs @ junk = header_image h'"
      using h h' by (simp add: header_ok_def header_image_split)
    ultimately show ?thesis
      using file_hdr.read_write [of crc32 h' rest] by (metis append.assoc)
  qed
  then show ?thesis using False by auto
qed

theorem header_checksum_scope_witness:
  "\<exists>bs. take 8 bs = ROSHERA_MAGIC \<and>
    (\<exists>h'. read_from (\<lambda>x. of_nat (length x)) (take 16 bs @ replicate 112 255) = Ok (h', []))"
proof -
  let ?crc = "\<lambda>x :: byte list. of_nat (length x) :: 32 word"
  let ?h = "sample_header\<lparr>minor_version := 1\<rparr>"
  let ?h1 = "?h\<lparr>header_crc32 := ?crc (crc_cover ?h)\<rparr>"
  have wf: "header_wf ?h" "magic ?h = ROSHERA_MAGIC"
    using new_header_valid [of "replicate 16 7" Little 1700000000] by (simp_all add: header_wf_def fields_wf_def new_header_def)
  then have r: "read_from ?crc (header_image ?h1 @ []) = Ok (?h1, [])"
    by (intro read_from_complete) (simp_all add: crc_cover_def)
  have "\<not> uses_integrity_scheme_v2 (major_version ?h1) (minor_version ?h1)"
    by (simp add: uses_integrity_scheme_v2_def new_header_def CURRENT_MAJOR_VERSION_def
        INTEGRITY_SCHEME_V2_MIN_MINOR_def word_le_nat_alt)
  then have "\<exists>h'. read_from ?crc (take 16 (header_image ?h1 @ []) @ replicate 112 255 @ []) = Ok (h', [])"
    using header_checksum_scope [OF r] by (simp only: if_False) simp
  moreover have "take 8 (header_image ?h1) = ROSHERA_MAGIC"
    using wf by (simp add: header_image_def serialize_with_endianness_def header_wf_def)
  ultimately show ?thesis by (intro exI [of _ "header_image ?h1"]) simp
qed

text \<open>The reader of the index accepts exactly the 96-byte images of well-formed entries that pass
  \<open>validate\<close>: a written entry is read back, and whatever is read takes 96 bytes that are the written
  ones, except that any non-zero byte stands for the encryption flag.\<close>

theorem entry_reader_exact:
  "read_entry bs = Ok (e, rest) \<longleftrightarrow> (\<exists>raw. entry_bytes e raw \<and> length raw = 96 \<and> bs = raw @ rest)"
proof
  assume "read_entry bs = Ok (e, rest)"
  from read_entry_sound [OF this] show "\<exists>raw. entry_bytes e raw \<and> length raw = 96 \<and> bs = raw @ rest"
    by (auto simp: entry_bytes_def)
next
  assume "\<exists>raw. entry_bytes e raw \<and> length raw = 96 \<and> bs = raw @ rest"
  then obtain b where e: "entry_wf e" "validate_entry e = Ok ()" "(b \<noteq> 0) = encrypted e"
      "bs = (write_entry e)[48 := b] @ rest" by (auto simp: entry_bytes_def)
  then have "bs = before_flag e @ b # after_flag e @ rest"
    using list_update_length [of "before_flag e"] by (simp add: write_entry_split)
  then show "read_entry bs = Ok (e, rest)"
    using e unfolding before_flag_def after_flag_def entry_wf_def read_entry_def
    by (cases e) (simp add: then_read_def check_def give_def compression_from_u8_Ok [THEN iffD2]
        u32.read_write u64.read_write raw.read_write Let_def)
qed

section \<open>The chunk table\<close>

definition disjoint_spans :: "chunk_index_entry \<Rightarrow> chunk_index_entry \<Rightarrow> bool" where
  "disjoint_spans a b \<longleftrightarrow> unat (offset a) + unat (size_on_disk a) \<le> unat (offset b) \<or>
     unat (offset b) + unat (size_on_disk b) \<le> unat (offset a)"

lemma packed_pairs:
  "packed lo (map span es) \<Longrightarrow> sorted_wrt disjoint_spans es"
proof -
  have later: "packed lo (map span es) \<Longrightarrow> e \<in> set es \<Longrightarrow> lo \<le> unat (offset e)" for lo es e
    by (induction es arbitrary: lo) fastforce+
  show "packed lo (map span es) \<Longrightarrow> sorted_wrt disjoint_spans es"
  proof (induction es arbitrary: lo)
    case (Cons e es)
    then show ?case using later [of "unat (offset e) + unat (size_on_disk e)" es]
      by (auto simp: disjoint_spans_def)
  qed simp
qed

lemma sorted_wrt_insort:
  "symp P \<Longrightarrow> sorted_wrt P (insort_key f x xs) \<longleftrightarrow> (\<forall>y \<in> set xs. P x y) \<and> sorted_wrt P xs"
  by (induction xs) (auto simp: set_insort_key dest: sympD)

lemma sorted_wrt_sort_key: "symp P \<Longrightarrow> sorted_wrt P (sort_key f xs) \<longleftrightarrow> sorted_wrt P xs"
  by (induction xs) (simp_all add: sorted_wrt_insort)

lemma validate_table_checks:
  "validate_table table = Ok () \<Longrightarrow>
   (\<forall>t \<in> {META, HIST, PROV}. find_by_type table t \<noteq> None) \<and> validate_entries 0 table = Ok () \<and>
   check_overlaps (sort_key offset table) = Ok ()"
  by (auto simp: validate_table_def find_None_iff simp del: find.simps split: option.splits sum.splits)

lemma validate_entries_each: "validate_entries i es = Ok () \<Longrightarrow> \<forall>e \<in> set es. validate_entry e = Ok ()"
  by (induction i es rule: validate_entries.induct) (auto split: sum.splits)

text \<open>A table that validates, and whose entries end where the sum of offset and size says they do,
  holds META, HIST and PROV, only valid entries, and no two entries that share a byte.\<close>

theorem valid_table_disjoint:
  assumes "validate_table table = Ok ()"
    and "\<forall>e \<in> set table. unat (offset e) + unat (size_on_disk e) < 2 ^ 64"
  shows "set (map as_fourcc [META, HIST, PROV]) \<subseteq> set (map chunk_type table) \<and>
    (\<forall>e \<in> set table. validate_entry e = Ok ()) \<and>
    (\<forall>i j. i < j \<and> j < length table \<longrightarrow>
      (let a = table ! i; b = table ! j
       in unat (offset a) + unat (size_on_disk a) \<le> unat (offset b) \<or>
          unat (offset b) + unat (size_on_disk b) \<le> unat (offset a)))"
proof (intro conjI)
  show "set (map as_fourcc [META, HIST, PROV]) \<subseteq> set (map chunk_type table)"
    using validate_table_checks [OF assms(1)] find_by_type_some [of table] by auto
  show "\<forall>e \<in> set table. validate_entry e = Ok ()"
    using validate_table_checks [OF assms(1)] validate_entries_each by blast
  have "packed 0 (map span (sort_key offset table))"
    using assms(2) validate_table_checks [OF assms(1)] by (intro check_overlaps_packed) simp_all
  then have "sorted_wrt disjoint_spans table"
    using packed_pairs sorted_wrt_sort_key [of disjoint_spans offset table]
    by (auto simp: symp_def disjoint_spans_def)
  then show "\<forall>i j. i < j \<and> j < length table \<longrightarrow>
      (let a = table ! i; b = table ! j
       in unat (offset a) + unat (size_on_disk a) \<le> unat (offset b) \<or>
          unat (offset b) + unat (size_on_disk b) \<le> unat (offset a))"
    by (simp add: sorted_wrt_iff_nth_less disjoint_spans_def Let_def)
qed

lemmas table_eval = validate_table_def find_by_type_def validate_entry_def is_all_zeros_def new_entry_def
  ascii_def size_on_disk_def MAX_CHUNK_SIZE_def list_all_iff word_less_nat_alt word_le_nat_alt Let_def

abbreviation sample_table :: chunk_table where
  "sample_table \<equiv> [(new_entry (as_fourcc PROV))\<lparr>offset := 230, uncompressed_size := 5\<rparr>,
     (new_entry (as_fourcc META))\<lparr>offset := 128, uncompressed_size := 100\<rparr>,
     (new_entry (as_fourcc HIST))\<lparr>offset := 228, uncompressed_size := 2\<rparr>]"

theorem valid_table_disjoint_witness:
  "(let a = sample_table ! 0; b = sample_table ! 2
    in unat (offset a) + unat (size_on_disk a) \<le> unat (offset b) \<or>
       unat (offset b) + unat (size_on_disk b) \<le> unat (offset a))"
proof -
  have "validate_table sample_table = Ok ()" by (simp add: table_eval)
  moreover have "\<forall>e \<in> set sample_table. unat (offset e) + unat (size_on_disk e) < 2 ^ 64"
    by (simp add: table_eval)
  ultimately have "\<forall>i j. i < j \<and> j < length sample_table \<longrightarrow>
      (let a = sample_table ! i; b = sample_table ! j
       in unat (offset a) + unat (size_on_disk a) \<le> unat (offset b) \<or>
          unat (offset b) + unat (size_on_disk b) \<le> unat (offset a))"
    using valid_table_disjoint by blast
  from this [rule_format, of 0 2] show ?thesis by simp
qed

text \<open>The sums wrap: an entry that declares a compressed size up to the end of the address space hides
  the ones behind it from the overlap check. The audit refuses such a file for that overflow.\<close>

abbreviation wrapping_table :: chunk_table where
  "wrapping_table \<equiv> [(new_entry (as_fourcc META))\<lparr>offset := 128, compressed_size := - 128\<rparr>,
     (new_entry (as_fourcc HIST))\<lparr>offset := 128, uncompressed_size := 50\<rparr>,
     (new_entry (as_fourcc PROV))\<lparr>offset := 178, uncompressed_size := 5\<rparr>]"

theorem overlap_check_wraps:
  "validate_table wrapping_table = Ok () \<and>
   \<not> disjoint_spans (wrapping_table ! 0) (wrapping_table ! 1) \<and>
   audit_layout h wrapping_table len = Err End_overflows"
proof (intro conjI)
  show "validate_table wrapping_table = Ok ()" by (simp add: table_eval)
  show "\<not> disjoint_spans (wrapping_table ! 0) (wrapping_table ! 1)"
    by (simp add: table_eval disjoint_spans_def)
  show "audit_layout h wrapping_table len = Err End_overflows"
    by (simp add: table_eval audit_layout_def checked_add_def)
qed

section \<open>Proofs of inclusion\<close>

text \<open>C18. For every leaf of a tree over \<open>n\<close> blocks a proof is generated and verifies against the root,
  with fewer than \<open>1 + log2 n\<close> siblings rounded up, whether or not \<open>n\<close> is a power of two (an odd node
  out is paired with itself at every level).\<close>

theorem inclusion_proof_verifies:
  assumes "i < length ds"
  shows "\<exists>p rh. generate_proof H (from_leaves H ds alg) i = Ok p \<and>
    root_hash (from_leaves H ds alg) = Some rh \<and> verify_proof H p rh (ds ! i) \<and>
    leaf_index p = i \<and> 2 ^ length (siblings p) < 2 * length ds"
proof -
  have ds: "ds \<noteq> []" using assms by auto
  obtain n where n: "root (from_leaves H ds alg) = Some n" "tree_over H alg ds n" "indices n = {..<length ds}"
      "leaves (from_leaves H ds alg) = ds" "algorithm (from_leaves H ds alg) = alg"
    using from_leaves_root [OF ds] .
  obtain sibs where path: "build_proof_path n i [] = Ok (True, sibs)"
      "foldl (step_up H alg) (leaf_hash_of H alg (ds ! i)) sibs = node_hash n" "length sibs < node_depth n"
    using path_of_over [OF n(2), of i "[]"] n(3) assms by auto
  obtain j where j: "node_depth (hd (build H alg (leaf_nodes H alg ds))) = 1 + j" "2 ^ j < 2 * length ds"
    using build_depth [of "leaf_nodes H alg ds" 1 H alg] ds
    by (auto simp: list_all_iff set_leaf_nodes)
  have "hd (build H alg (leaf_nodes H alg ds)) = n"
    using n(1) ds by (auto simp: from_leaves_def split: list.splits)
  then have "length sibs \<le> j" using path(3) j(1) by simp
  then have "(2::nat) ^ length sibs \<le> 2 ^ j" by (simp add: power_increasing)
  then have short: "2 ^ length sibs < 2 * length ds" using j(2) by (rule le_less_trans)
  let ?p = "\<lparr>leaf_hash = leaf_hash_of H alg (ds ! i), leaf_index = i, siblings = sibs, proof_algorithm = alg\<rparr>"
  have "generate_proof H (from_leaves H ds alg) i = Ok ?p"
    using n path(1) assms by (simp add: generate_proof_def)
  moreover have "verify_proof H ?p (node_hash n) (ds ! i)" using path(2) by (simp add: verify_proof_def)
  ultimately show ?thesis
    using n(1) short by (intro exI [of _ ?p] exI [of _ "node_hash n"]) (simp add: root_hash_def)
qed

theorem inclusion_proof_verifies_witness:
  "\<exists>p rh. generate_proof (\<lambda>_ x. x) (from_leaves (\<lambda>_ x. x) [[1], [2], [3]] Sha256) 2 = Ok p \<and>
    verify_proof (\<lambda>_ x. x) p rh [3] \<and> 2 ^ length (siblings p) < (6::nat)"
proof -
  have "2 < length [[1 :: byte], [2], [3]]" "[[1], [2], [3]] ! 2 = [3 :: byte]" by simp_all
  then show ?thesis
    using inclusion_proof_verifies [of 2 "[[1], [2], [3]]" "\<lambda>_ x. x" Sha256] by fastforce
qed

text \<open>C17. Soundness: whatever proof verifies against the root of a tree, with however many siblings and
  whatever index it names, its leaf is one of the blocks of the tree, or two inputs that were hashed,
  one by the verifier and one by the tree, are different and have the same digest. The prefixes of
  leaves and nodes rule out that a node is passed off as a leaf.\<close>

theorem inclusion_proof_sound:
  assumes "\<And>x. length (H alg x) = hash_size alg"
    and "root_hash (from_leaves H ds alg) = Some rh"
    and "proof_algorithm p = alg" "verify_proof H p rh d"
  shows "d \<in> set ds \<or>
    collision (H alg) (rehashed H alg d (siblings p)) (tree_hashed H ds alg)"
proof -
  have ds: "ds \<noteq> []" using assms(2) by (auto simp: from_leaves_def new_tree_def root_hash_def)
  obtain n where n: "root (from_leaves H ds alg) = Some n" "tree_over H alg ds n"
    using from_leaves_root [OF ds] by metis
  have "leaf_nodes H alg ds \<noteq> []" using ds by simp
  then obtain m where "build H alg (leaf_nodes H alg ds) = [m]"
    using build_one [OF _ leaf_nodes_over] by blast
  then have b: "build H alg (leaf_nodes H alg ds) = [n]" using n(1) ds by (simp add: from_leaves_def)
  have "foldl (step_up H alg) (leaf_hash_of H alg d) (siblings p) = node_hash n"
    using assms(2-4) n(1) by (auto simp: verify_proof_def root_hash_def split: if_splits)
  from climb_sound [OF assms(1) n(2) this] show ?thesis
    by (simp add: tree_hashed_def b hashed_all_def)
qed

theorem inclusion_proof_sound_witness:
  "\<exists>d. d \<noteq> [1] \<and> collision (\<lambda>x. replicate 32 0)
    (rehashed (\<lambda>alg x. replicate (hash_size alg) 0) Sha256 d [])
    (tree_hashed (\<lambda>alg x. replicate (hash_size alg) 0) [[1]] Sha256)"
proof -
  let ?H = "\<lambda>alg (x :: byte list). replicate (hash_size alg) (0 :: byte)"
  let ?p = "\<lparr>leaf_hash = replicate 32 0, leaf_index = 0, siblings = [], proof_algorithm = Sha256\<rparr>"
  have "root_hash (from_leaves ?H [[1]] Sha256) = Some (replicate 32 0)"
    by (simp add: from_leaves_def root_hash_def leaf_nodes_def build.simps leaf_hash_of_def)
  moreover have "verify_proof ?H ?p (replicate 32 0) [9]"
    by (simp add: verify_proof_def leaf_hash_of_def)
  ultimately show ?thesis
    using inclusion_proof_sound [of ?H Sha256 "[[1]]" "replicate 32 0" ?p "[9]"]
    by (intro exI [of _ "[9]"]) simp
qed

text \<open>The tree pairs an odd node out with itself, so a root does not determine the number of its
  leaves.\<close>

theorem odd_leaf_doubled:
  "root_hash (from_leaves H [a, b, c] alg) = root_hash (from_leaves H [a, b, c, c] alg)"
  by (simp add: from_leaves_def root_hash_def leaf_nodes_def build.simps)

section \<open>What a signature covers\<close>



end
