(* ===== verification/Union_Find.thy ===== *)
theory Union_Find
  imports Prelude
begin

text \<open>
  The union-find structures of the program. That of
  \<^verbatim>\<open>geometry-engine/src/sketch2d/decompose.rs\<close> halves paths and that of
  \<^verbatim>\<open>assembly-engine/src/decompose.rs\<close> compresses them; both make the smaller root the root, so a
  parent is never larger than its child, and satisfy the contract \<open>union_find\<close>: the classes are a
  partition of the indices with its smallest members as representatives. The one of
  \<^verbatim>\<open>geometry-engine/src/sketch2d/constraints.rs\<close> lives in a map over points, and any of its members
  may represent a class: it satisfies the weaker contract \<open>disjoint_sets\<close> that \<open>union_find\<close> extends.

  The loops follow parents without a bound: they are partial functions, \<open>None\<close> stands for a loop
  that does not end and for an index out of range (a panic).
\<close>

section \<open>The contracts\<close>

locale disjoint_sets =
  fixes find_rep :: "'u \<Rightarrow> 'k \<Rightarrow> ('u \<times> 'k) option"
    and join :: "'u \<Rightarrow> 'k \<Rightarrow> 'k \<Rightarrow> 'u option"
    and covers :: "'u \<Rightarrow> 'k \<Rightarrow> bool"
    and rep_of :: "'u \<Rightarrow> 'k \<Rightarrow> 'k"
    and good :: "'u \<Rightarrow> bool"
  assumes find_spec: "good u \<Longrightarrow> covers u i \<Longrightarrow>
      \<exists>u'. find_rep u i = Some (u', rep_of u i) \<and> good u' \<and> covers u' = covers u \<and> rep_of u' = rep_of u"
    and join_spec: "good u \<Longrightarrow> covers u a \<Longrightarrow> covers u b \<Longrightarrow>
      \<exists>u' r. join u a b = Some u' \<and> good u' \<and> covers u' = covers u \<and> r \<in> {rep_of u a, rep_of u b} \<and>
        (\<forall>i. rep_of u' i = (if rep_of u i = rep_of u a \<or> rep_of u i = rep_of u b then r else rep_of u i))"
    and rep_idem: "good u \<Longrightarrow> rep_of u (rep_of u i) = rep_of u i"
begin

text \<open>Joining along edges: the classes are the components of the graph.\<close>

definition joins :: "('k \<times> 'k) list \<Rightarrow> 'u \<Rightarrow> 'u option" where
  "joins es u = fold (\<lambda>(a, b) s. Option.bind s (\<lambda>u. join u a b)) es (Some u)"

definition linked :: "'u \<Rightarrow> ('k \<times> 'k) set \<Rightarrow> bool" where
  "linked u E \<longleftrightarrow> (\<forall>x y. rep_of u x = rep_of u y \<longleftrightarrow> (x, y) \<in> (E \<union> E\<inverse>)\<^sup>*)"

lemma linked_same_class: "linked u E \<Longrightarrow> rep_of u x = rep_of u y \<longleftrightarrow> (x, y) \<in> (E \<union> E\<inverse>)\<^sup>*"
  by (simp add: linked_def)

lemma linked_join:
  assumes u: "good u" "linked u E" and ab: "covers u a" "covers u b"
  shows "\<exists>u'. join u a b = Some u' \<and> good u' \<and> covers u' = covers u \<and> linked u' (insert (a, b) E)"
proof -
  obtain u' r where u': "join u a b = Some u'" "good u'" "covers u' = covers u"
    and r: "r \<in> {rep_of u a, rep_of u b}"
    and reps: "\<And>i. rep_of u' i = (if rep_of u i = rep_of u a \<or> rep_of u i = rep_of u b
        then r else rep_of u i)"
    using join_spec [OF u(1) ab] by blast
  let ?S = "insert (a, b) E \<union> (insert (a, b) E)\<inverse>"
  have same: "rep_of u' x = rep_of u' y \<longleftrightarrow> rep_of u x = rep_of u y \<or>
      rep_of u x \<in> {rep_of u a, rep_of u b} \<and> rep_of u y \<in> {rep_of u a, rep_of u b}" for x y
    using r reps [of x] reps [of y] by (auto split: if_splits)
  have old: "rep_of u x = rep_of u y \<Longrightarrow> (x, y) \<in> ?S\<^sup>*" for x y
    using u(2) rtrancl_mono [of "E \<union> E\<inverse>" ?S] by (auto simp: linked_def)
  have edge: "(a, b) \<in> ?S\<^sup>*" "(b, a) \<in> ?S\<^sup>*" by auto
  have "rep_of u' x = rep_of u' y \<longleftrightarrow> (x, y) \<in> ?S\<^sup>*" for x y
  proof
    assume "rep_of u' x = rep_of u' y"
    then have "rep_of u x = rep_of u y \<or>
      (\<exists>v \<in> {a, b}. \<exists>w \<in> {a, b}. rep_of u x = rep_of u v \<and> rep_of u w = rep_of u y)"
      by (auto simp: same)
    then show "(x, y) \<in> ?S\<^sup>*"
    proof
      assume "\<exists>v \<in> {a, b}. \<exists>w \<in> {a, b}. rep_of u x = rep_of u v \<and> rep_of u w = rep_of u y"
      then obtain v w where vw: "v \<in> {a, b}" "w \<in> {a, b}" "rep_of u x = rep_of u v" "rep_of u w = rep_of u y"
        by blast
      then have "(x, v) \<in> ?S\<^sup>*" "(w, y) \<in> ?S\<^sup>*" using old by blast+
      moreover have "(v, w) \<in> ?S\<^sup>*" using vw(1,2) edge by auto
      ultimately show ?thesis by (meson rtrancl_trans)
    qed (rule old)
  next
    have edge_old: "rep_of u x = rep_of u y" if "(x, y) \<in> E \<union> E\<inverse>" for x y
      using that u(2) by (auto simp: linked_def)
    assume "(x, y) \<in> ?S\<^sup>*"
    then show "rep_of u' x = rep_of u' y"
    proof induction
      case (step y z)
      then have "rep_of u' y = rep_of u' z" using edge_old by (auto simp: same)
      then show ?case using step.IH by simp
    qed simp
  qed
  then show ?thesis using u' by (auto simp: linked_def)
qed

lemma joins_Nil [simp]: "joins [] u = Some u"
  by (simp add: joins_def)

lemma joins_append: "joins (es @ fs) u = Option.bind (joins es u) (joins fs)"
proof -
  have none: "fold (\<lambda>(a, b) s. Option.bind s (\<lambda>u. join u a b)) fs None = None" for fs
    by (induction fs) auto
  show ?thesis by (cases "joins es u") (simp_all add: joins_def none)
qed

lemma joins_Cons: "joins ((a, b) # es) u = Option.bind (join u a b) (joins es)"
  using joins_append [of "[(a, b)]" es u] by (simp add: joins_def)

lemma linked_joins:
  assumes "good u" "linked u E" "\<forall>(a, b) \<in> set es. covers u a \<and> covers u b"
  shows "\<exists>u'. joins es u = Some u' \<and> good u' \<and> covers u' = covers u \<and> linked u' (E \<union> set es)"
  using assms
proof (induction es arbitrary: u E)
  case (Cons e es)
  obtain a b where e: "e = (a, b)" by (cases e)
  obtain u1 where u1: "join u a b = Some u1" "good u1" "covers u1 = covers u" "linked u1 (insert (a, b) E)"
    using linked_join [OF Cons.prems(1,2), of a b] Cons.prems(3) e by auto
  obtain u2 where "joins es u1 = Some u2" "good u2" "covers u2 = covers u1" "linked u2 (insert (a, b) E \<union> set es)"
    using Cons.IH [OF u1(2,4)] Cons.prems(3) u1(3) by auto
  then show ?case using u1 by (auto simp: e joins_Cons insert_commute)
qed simp

end

text \<open>Indices below a bound, each class represented by its smallest member.\<close>

locale union_find =
  disjoint_sets find_rep join "\<lambda>u i. i < uf_size u" rep_of good
  for find_rep :: "'u \<Rightarrow> nat \<Rightarrow> ('u \<times> nat) option"
    and join :: "'u \<Rightarrow> nat \<Rightarrow> nat \<Rightarrow> 'u option"
    and uf_size :: "'u \<Rightarrow> nat"
    and rep_of :: "'u \<Rightarrow> nat \<Rightarrow> nat"
    and good :: "'u \<Rightarrow> bool" +
  assumes rep_le: "rep_of u i \<le> i"
begin

lemma rep_least: "rep_of u x = rep_of u y \<Longrightarrow> rep_of u x \<le> y"
  using rep_le [of u y] by simp

text \<open>A union keeps the smaller of the two representatives.\<close>

lemma join_min:
  assumes "good u" "a < uf_size u" "b < uf_size u" "join u a b = Some u'"
  shows "rep_of u' a = min (rep_of u a) (rep_of u b)"
proof -
  obtain r where r: "r \<in> {rep_of u a, rep_of u b}"
    "\<And>i. rep_of u' i = (if rep_of u i = rep_of u a \<or> rep_of u i = rep_of u b then r else rep_of u i)"
    using join_spec [OF assms(1-3)] assms(4) by auto
  have "r \<le> rep_of u a" "r \<le> rep_of u b"
    using r(2) [of "rep_of u a"] r(2) [of "rep_of u b"] rep_idem [OF assms(1)]
      rep_le [of u' "rep_of u a"] rep_le [of u' "rep_of u b"] by auto
  then show ?thesis using r by (auto simp: min_def)
qed

end

section \<open>Forests of parents\<close>

definition forest :: "nat list \<Rightarrow> bool" where
  "forest p \<longleftrightarrow> (\<forall>i < length p. p ! i \<le> i)"

function rep :: "nat list \<Rightarrow> nat \<Rightarrow> nat" where
  "rep p i = (if i < length p \<and> p ! i < i then rep p (p ! i) else i)"
  by auto
termination by (relation "measure snd") auto

declare rep.simps [simp del]

lemma forest_initial: "forest [0..<n]"
  by (simp add: forest_def)

lemma rep_initial: "rep [0..<n] i = i"
  by (simp add: rep.simps)

lemma rep_at_most: "rep p i \<le> i"
  by (induction p i rule: rep.induct) (subst rep.simps, force)

lemma rep_root: "forest p \<Longrightarrow> i < length p \<Longrightarrow> p ! rep p i = rep p i"
  by (induction p i rule: rep.induct) (subst (1 2) rep.simps, auto simp: forest_def)

lemma rep_of_root: "\<not> (i < length p \<and> p ! i < i) \<Longrightarrow> rep p i = i"
  by (subst rep.simps) auto

lemma rep_step: "i < length p \<Longrightarrow> p ! i < i \<Longrightarrow> rep p i = rep p (p ! i)"
  by (subst rep.simps) auto

lemma rep_parent: "i < length p \<Longrightarrow> p ! i \<le> i \<Longrightarrow> rep p (p ! i) = rep p i"
  by (cases "p ! i = i") (simp_all add: rep_step)

lemma rep_rep: "rep p (rep p i) = rep p i"
proof (induction p i rule: rep.induct)
  case (1 p i)
  then show ?case
    by (cases "i < length p \<and> p ! i < i") (simp_all add: rep_step rep_of_root)
qed

text \<open>A parent may be replaced by any smaller member of its class.\<close>

lemma reparent:
  assumes "forest p" "i < length p" "v < i" "rep p v = rep p i"
  shows "forest (p[i := v])" and "rep (p[i := v]) = rep p"
proof -
  show "forest (p[i := v])" using assms(1-3) by (auto simp: forest_def nth_list_update)
  have below: "p ! i < i"
  proof (rule ccontr)
    assume "\<not> p ! i < i"
    then have "rep p i = i" by (simp add: rep_of_root)
    then show False using assms(3,4) rep_at_most [of p v] by simp
  qed
  have "rep (p[i := v]) j = rep p j" for j
  proof (induction j rule: less_induct)
    case (less j)
    show ?case
    proof (cases "j = i")
      case True
      then have "rep (p[i := v]) j = rep (p[i := v]) v" using assms(2,3) by (subst rep.simps) simp
      then show ?thesis using less [of v] assms(3,4) True by simp
    next
      case False
      then show ?thesis using less [of "p ! j"] by (subst (1 2) rep.simps) simp
    qed
  qed
  then show "rep (p[i := v]) = rep p" by (rule ext)
qed

text \<open>A root may be hung under a smaller one: the two classes become one.\<close>

lemma hang_root:
  assumes "forest p" "hi < length p" "lo < hi" "p ! hi = hi" "rep p lo = lo"
  shows "forest (p[hi := lo])" and "rep (p[hi := lo]) j = (if rep p j = hi then lo else rep p j)"
proof -
  show "forest (p[hi := lo])" using assms(1-3) by (auto simp: forest_def nth_list_update)
  show "rep (p[hi := lo]) j = (if rep p j = hi then lo else rep p j)"
  proof (induction j rule: less_induct)
    case (less j)
    show ?case
    proof (cases "j = hi")
      case True
      have "rep (p[hi := lo]) j = rep (p[hi := lo]) lo"
        using True assms(2,3) by (subst rep.simps) simp
      also have "\<dots> = lo" using less [of lo] True assms(3,5) by simp
      finally show ?thesis using True assms(4) by (simp add: rep_of_root)
    next
      case False
      then show ?thesis using less [of "p ! j"] by (subst (1 2 3) rep.simps) simp
    qed
  qed
qed

section \<open>Path halving\<close>

partial_function (option) find_root :: "nat list \<Rightarrow> nat \<Rightarrow> (nat list \<times> nat) option" where
  "find_root p i =
     (if length p \<le> i then None
      else if p ! i = i then Some (p, i)
      else if length p \<le> p ! i then None
      else let p' = p[i := p ! (p ! i)] in find_root p' (p' ! i))"

definition union :: "nat list \<Rightarrow> nat \<Rightarrow> nat \<Rightarrow> nat list option" where
  "union p a b =
     (case find_root p a of None \<Rightarrow> None
      | Some (p1, ra) \<Rightarrow>
     (case find_root p1 b of None \<Rightarrow> None
      | Some (p2, rb) \<Rightarrow>
          Some (if ra \<noteq> rb then if ra < rb then p2[rb := ra] else p2[ra := rb] else p2)))"

lemma find_root_ok:
  "forest p \<Longrightarrow> i < length p \<Longrightarrow>
   \<exists>p'. find_root p i = Some (p', rep p i) \<and> forest p' \<and> length p' = length p \<and> rep p' = rep p"
proof (induction i arbitrary: p rule: less_induct)
  case (less i)
  show ?case
  proof (cases "p ! i = i")
    case True
    then show ?thesis
      using less.prems by (subst find_root.simps) (simp add: rep_of_root)
  next
    case False
    let ?v = "p ! (p ! i)" and ?p = "p[i := p ! (p ! i)]"
    have "p ! i \<le> i" using less.prems by (simp add: forest_def)
    then have "p ! i < i" using False by simp
    moreover from this have "?v \<le> p ! i" using less.prems by (simp add: forest_def)
    ultimately have below: "p ! i < i" "?v \<le> p ! i" by blast+
    have v: "?v < i" using below by simp
    have same: "rep p ?v = rep p i"
      using below less.prems rep_parent [of "p ! i" p] by (simp add: rep_step)
    note new = reparent [OF less.prems v same]
    have at: "?p ! i = ?v" using less.prems(2) by simp
    have "\<exists>p'. find_root ?p ?v = Some (p', rep ?p ?v) \<and> forest p' \<and> length p' = length ?p \<and> rep p' = rep ?p"
      using v less.prems(2) new(1) by (intro less.IH) simp_all
    moreover have "find_root p i = find_root ?p ?v"
      using below less.prems False at by (subst find_root.simps) (simp add: Let_def)
    ultimately show ?thesis by (simp add: new(2) same)
  qed
qed

lemma union_ok:
  assumes "forest p" "a < length p" "b < length p"
  shows "\<exists>p'. union p a b = Some p' \<and> forest p' \<and> length p' = length p \<and>
    (\<forall>i. rep p' i = (if rep p i = rep p a \<or> rep p i = rep p b then min (rep p a) (rep p b) else rep p i))"
proof -
  obtain p1 where p1: "find_root p a = Some (p1, rep p a)" "forest p1" "length p1 = length p" "rep p1 = rep p"
    using find_root_ok [OF assms(1,2)] by blast
  then obtain p2 where p2: "find_root p1 b = Some (p2, rep p b)" "forest p2" "length p2 = length p" "rep p2 = rep p"
    using find_root_ok [of p1 b] assms(3) by auto
  have root: "p2 ! rep p x = rep p x" "rep p x < length p2" if "x < length p" for x
    using that p2 rep_root [of p2 x] rep_at_most [of p x] by auto
  show ?thesis
  proof (cases "rep p a" "rep p b" rule: linorder_cases)
    case less
    then show ?thesis
      using p1 p2 hang_root [OF p2(2) _ less] root [OF assms(3)] rep_rep [of p a]
      by (auto simp: union_def)
  next
    case equal
    then show ?thesis using p1 p2 by (simp add: union_def)
  next
    case greater
    then show ?thesis
      using p1 p2 hang_root [OF p2(2) _ greater] root [OF assms(2)] rep_rep [of p b]
      by (auto simp: union_def)
  qed
qed

lemma below_inj: "(\<lambda>i. i < a) = (\<lambda>i. i < b) \<longleftrightarrow> a = (b :: nat)"
  by (metis linorder_neqE_nat less_irrefl)

lemma min_either: "min x y \<in> {x, y}"
  by (simp add: min_def)

interpretation halving: union_find find_root union length rep forest
proof unfold_locales
  fix p :: "nat list" and a b
  assume p: "forest p"
  { assume "a < length p" "b < length p"
    from union_ok [OF p this]
    show "\<exists>p' r. union p a b = Some p' \<and> forest p' \<and> (\<lambda>i. i < length p') = (\<lambda>i. i < length p) \<and>
      r \<in> {rep p a, rep p b} \<and>
      (\<forall>i. rep p' i = (if rep p i = rep p a \<or> rep p i = rep p b then r else rep p i))"
      using min_either [of "rep p a" "rep p b"] by metis }
  { assume "a < length p"
    from find_root_ok [OF p this]
    show "\<exists>p'. find_root p a = Some (p', rep p a) \<and> forest p' \<and>
      (\<lambda>i. i < length p') = (\<lambda>i. i < length p) \<and> rep p' = rep p" by metis }
qed (simp_all add: rep_at_most rep_rep)

section \<open>Path compression\<close>

partial_function (option) climb :: "nat list \<Rightarrow> nat \<Rightarrow> nat option" where
  "climb p i = (if length p \<le> i then None else if p ! i = i then Some i else climb p (p ! i))"

partial_function (option) compress :: "nat list \<Rightarrow> nat \<Rightarrow> nat \<Rightarrow> nat list option" where
  "compress p r cur =
     (if length p \<le> cur then None
      else if p ! cur = r then Some p
      else compress (p[cur := r]) r (p ! cur))"

definition find_compress :: "nat list \<Rightarrow> nat \<Rightarrow> (nat list \<times> nat) option" where
  "find_compress p x =
     (case climb p x of None \<Rightarrow> None
      | Some r \<Rightarrow> (case compress p r x of None \<Rightarrow> None | Some p' \<Rightarrow> Some (p', r)))"

definition union_smallest :: "nat list \<Rightarrow> nat \<Rightarrow> nat \<Rightarrow> (nat list \<times> bool) option" where
  "union_smallest p a b =
     (case find_compress p a of None \<Rightarrow> None
      | Some (p1, ra) \<Rightarrow>
     (case find_compress p1 b of None \<Rightarrow> None
      | Some (p2, rb) \<Rightarrow>
          if ra = rb then Some (p2, False)
          else let (lo, hi) = (if ra < rb then (ra, rb) else (rb, ra)) in Some (p2[hi := lo], True)))"

lemma climb_ok: "forest p \<Longrightarrow> i < length p \<Longrightarrow> climb p i = Some (rep p i)"
proof (induction i rule: less_induct)
  case (less i)
  have "p ! i \<le> i" using less.prems by (simp add: forest_def)
  then consider "p ! i = i" | "p ! i < i" by linarith
  then show ?case
  proof cases
    case 1
    then show ?thesis using less.prems by (subst climb.simps) (simp add: rep_of_root)
  next
    case 2
    then show ?thesis using less by (subst climb.simps) (simp add: rep_step)
  qed
qed

lemma compress_ok:
  "forest p \<Longrightarrow> cur < length p \<Longrightarrow> rep p cur = r \<Longrightarrow>
   \<exists>p'. compress p r cur = Some p' \<and> forest p' \<and> length p' = length p \<and> rep p' = rep p"
proof (induction cur arbitrary: p rule: less_induct)
  case (less cur)
  show ?case
  proof (cases "p ! cur = r")
    case True
    then show ?thesis using less.prems by (subst compress.simps) simp
  next
    case False
    have below: "p ! cur < cur"
    proof (rule ccontr)
      assume "\<not> p ! cur < cur"
      moreover have "p ! cur \<le> cur" using less.prems by (simp add: forest_def)
      ultimately show False using False less.prems(3) by (simp add: rep_of_root)
    qed
    have r: "r < cur" using less.prems(3) below rep_at_most [of p "p ! cur"] less.prems(2) by (simp add: rep_step)
    have same: "rep p r = rep p cur" using less.prems(3) rep_rep by metis
    note new = reparent [OF less.prems(1,2) r same]
    have "rep (p[cur := r]) (p ! cur) = r" using below less.prems(2,3) by (simp add: new(2) rep_step)
    then have "\<exists>p'. compress (p[cur := r]) r (p ! cur) = Some p' \<and> forest p' \<and> length p' = length (p[cur := r]) \<and>
        rep p' = rep (p[cur := r])"
      using below less.prems(2) new(1) by (intro less.IH) simp_all
    moreover have "compress p r cur = compress (p[cur := r]) r (p ! cur)"
      using less.prems(2) False by (subst compress.simps) simp
    ultimately show ?thesis by (simp add: new(2))
  qed
qed

lemma find_compress_ok:
  "forest p \<Longrightarrow> i < length p \<Longrightarrow>
   \<exists>p'. find_compress p i = Some (p', rep p i) \<and> forest p' \<and> length p' = length p \<and> rep p' = rep p"
  using compress_ok [of p i "rep p i"] by (auto simp: find_compress_def climb_ok)

lemma union_smallest_ok:
  assumes "forest p" "a < length p" "b < length p"
  shows "\<exists>p'. union_smallest p a b = Some (p', rep p a \<noteq> rep p b) \<and> forest p' \<and> length p' = length p \<and>
    (\<forall>i. rep p' i = (if rep p i = rep p a \<or> rep p i = rep p b then min (rep p a) (rep p b) else rep p i))"
proof -
  obtain p1 where p1: "find_compress p a = Some (p1, rep p a)" "forest p1" "length p1 = length p" "rep p1 = rep p"
    using find_compress_ok [OF assms(1,2)] by blast
  then obtain p2 where p2: "find_compress p1 b = Some (p2, rep p b)" "forest p2" "length p2 = length p" "rep p2 = rep p"
    using find_compress_ok [of p1 b] assms(3) by auto
  have root: "p2 ! rep p x = rep p x" "rep p x < length p2" if "x < length p" for x
    using that p2 rep_root [of p2 x] rep_at_most [of p x] by auto
  show ?thesis
  proof (cases "rep p a" "rep p b" rule: linorder_cases)
    case less
    then show ?thesis
      using p1 p2 hang_root [OF p2(2) _ less] root [OF assms(3)] rep_rep [of p a]
      by (auto simp: union_smallest_def)
  next
    case equal
    then show ?thesis using p1 p2 by (simp add: union_smallest_def)
  next
    case greater
    then show ?thesis
      using p1 p2 hang_root [OF p2(2) _ greater] root [OF assms(2)] rep_rep [of p b]
      by (auto simp: union_smallest_def)
  qed
qed

interpretation compressing: union_find find_compress "\<lambda>p a b. map_option fst (union_smallest p a b)"
    length rep forest
proof unfold_locales
  fix p :: "nat list" and a b
  assume p: "forest p"
  { assume "a < length p" "b < length p"
    from union_smallest_ok [OF p this]
    obtain p' where p': "union_smallest p a b = Some (p', rep p a \<noteq> rep p b)" "forest p'" "length p' = length p"
      "\<forall>i. rep p' i = (if rep p i = rep p a \<or> rep p i = rep p b then min (rep p a) (rep p b) else rep p i)"
      by blast
    show "\<exists>p' r. map_option fst (union_smallest p a b) = Some p' \<and> forest p' \<and>
      (\<lambda>i. i < length p') = (\<lambda>i. i < length p) \<and> r \<in> {rep p a, rep p b} \<and>
      (\<forall>i. rep p' i = (if rep p i = rep p a \<or> rep p i = rep p b then r else rep p i))"
      using p' min_either [of "rep p a" "rep p b"]
      by (intro exI [of _ p'] exI [of _ "min (rep p a) (rep p b)"]) simp }
  { assume "a < length p"
    from find_compress_ok [OF p this]
    show "\<exists>p'. find_compress p a = Some (p', rep p a) \<and> forest p' \<and>
      (\<lambda>i. i < length p') = (\<lambda>i. i < length p) \<and> rep p' = rep p" by metis }
qed (simp_all add: rep_at_most rep_rep)

section \<open>A map of parents\<close>

text \<open>\<^verbatim>\<open>uf_find\<close> of \<^verbatim>\<open>constraints.rs\<close>: a key without an entry, and one that is its own parent, is a
  root.\<close>

partial_function (option) uf_find :: "('k, 'k) dmap \<Rightarrow> 'k \<Rightarrow> (('k, 'k) dmap \<times> 'k) option" where
  "uf_find m x =
     (case map_of m x of
        None \<Rightarrow> Some (m, x)
      | Some p \<Rightarrow>
          if p = x then Some (m, x)
          else Option.bind (uf_find m p) (\<lambda>(m', root). Some (AList.update x root m', root)))"

definition uf_union :: "('k, 'k) dmap \<Rightarrow> 'k \<Rightarrow> 'k \<Rightarrow> ('k, 'k) dmap option" where
  "uf_union m a b =
     (case uf_find m a of None \<Rightarrow> None
      | Some (m1, ra) \<Rightarrow>
     (case uf_find m1 b of None \<Rightarrow> None
      | Some (m2, rb) \<Rightarrow> Some (if ra \<noteq> rb then AList.update ra rb m2 else m2)))"

inductive leads :: "('k, 'k) dmap \<Rightarrow> 'k \<Rightarrow> 'k \<Rightarrow> bool" for m where
  root: "map_of m x = None \<Longrightarrow> leads m x x"
| step: "map_of m x = Some p \<Longrightarrow> leads m p r \<Longrightarrow> leads m x r"

definition grounded :: "('k, 'k) dmap \<Rightarrow> bool" where
  "grounded m \<longleftrightarrow> (\<forall>x. \<exists>r. leads m x r)"

definition root_of :: "('k, 'k) dmap \<Rightarrow> 'k \<Rightarrow> 'k" where
  "root_of m x = (THE r. leads m x r)"

lemma leads_unique: "leads m x r \<Longrightarrow> leads m x s \<Longrightarrow> s = r"
proof (induction arbitrary: s rule: leads.induct)
  case (root x)
  then show ?case by (auto elim: leads.cases)
next
  case (step x p r)
  from step.prems step.hyps(1) have "leads m p s" by (cases rule: leads.cases) auto
  then show ?case by (rule step.IH)
qed

lemma root_of_eq: "leads m x r \<Longrightarrow> root_of m x = r"
  unfolding root_of_def by (rule the_equality) (auto dest: leads_unique)

lemma leads_root_of: "grounded m \<Longrightarrow> leads m x (root_of m x)"
  using root_of_eq by (fastforce simp: grounded_def)

lemma leads_end: "leads m x r \<Longrightarrow> map_of m r = None"
  by (induction rule: leads.induct)

lemma leads_not_self: "leads m x r \<Longrightarrow> map_of m x \<noteq> Some x"
proof (induction rule: leads.induct)
  case (step x p r)
  then show ?case by auto
qed simp

text \<open>When every path of one map is a path of another, they have the same paths.\<close>

lemma leads_eqI:
  assumes "grounded m" "\<And>y s. leads m y s \<Longrightarrow> leads m' y s"
  shows "leads m' = leads m"
proof (intro ext iffI)
  fix y s
  assume s: "leads m' y s"
  obtain s' where s': "leads m y s'" using assms(1) by (auto simp: grounded_def)
  then show "leads m y s" using leads_unique [OF assms(2) [OF s'] s] by simp
qed (rule assms(2))

lemma leads_shortcut:
  assumes g: "grounded m" and x: "leads m x r" "r \<noteq> x"
  shows "leads (AList.update x r m) = leads m"
proof (rule leads_eqI [OF g])
  let ?m = "AList.update x r m"
  have r: "map_of ?m r = None" using leads_end [OF x(1)] x(2) by (simp add: dmap_simps)
  fix y s
  assume "leads m y s"
  then show "leads ?m y s"
  proof (induction rule: leads.induct)
    case (root y)
    have "y \<noteq> x" using leads.root [OF root] leads_unique [OF x(1)] x(2) by auto
    then show ?case using root by (auto intro: leads.root simp: dmap_simps)
  next
    case (step y p s)
    show ?case
    proof (cases "y = x")
      case True
      have "s = r" using leads.step [OF step.hyps(1,2)] leads_unique [OF x(1)] True by simp
      then show ?thesis
        using True leads.step [of ?m x r r] leads.root [OF r] by (simp add: dmap_simps)
    next
      case False
      then show ?thesis using step by (auto intro: leads.step simp: dmap_simps)
    qed
  qed
qed

lemma leads_hang:
  assumes a: "map_of m ra = None" and b: "map_of m rb = None" and ne: "ra \<noteq> rb"
  shows "leads m y s \<Longrightarrow> leads (AList.update ra rb m) y (if s = ra then rb else s)"
proof (induction rule: leads.induct)
  case (root y)
  have "leads (AList.update ra rb m) rb rb" using b ne by (auto intro: leads.root simp: dmap_simps)
  then show ?case
    using root leads.step [of "AList.update ra rb m" ra rb rb] by (auto intro: leads.root simp: dmap_simps)
next
  case (step y p s)
  then have "y \<noteq> ra" using a by auto
  then have "map_of (AList.update ra rb m) y = Some p" using step.hyps(1) by (simp add: dmap_simps)
  then show ?case using step.IH by (rule leads.step)
qed

lemma uf_find_ok:
  assumes "leads m x r" and g: "grounded m"
  shows "\<exists>m'. uf_find m x = Some (m', r) \<and> leads m' = leads m"
  using assms(1)
proof (induction rule: leads.induct)
  case (root x)
  then show ?case by (subst uf_find.simps) simp
next
  case (step x p r)
  then obtain m' where m': "uf_find m p = Some (m', r)" "leads m' = leads m" by blast
  have ne: "p \<noteq> x" using leads_not_self [OF leads.step [OF step.hyps]] step.hyps(1) by auto
  have "r \<noteq> x" using leads_end [OF step.hyps(2)] step.hyps(1) by auto
  then have "leads (AList.update x r m') = leads m"
    using leads_shortcut [of m' x r] leads.step [OF step.hyps] g m'(2) by (simp add: grounded_def)
  then show ?case using m'(1) step.hyps(1) ne by (subst uf_find.simps) simp
qed

lemma root_of_cong: "leads m' = leads m \<Longrightarrow> root_of m' = root_of m"
  by (simp add: root_of_def fun_eq_iff)

lemma uf_union_ok:
  assumes g: "grounded m"
  shows "\<exists>m' r. uf_union m a b = Some m' \<and> grounded m' \<and> r \<in> {root_of m a, root_of m b} \<and>
    (\<forall>i. root_of m' i = (if root_of m i = root_of m a \<or> root_of m i = root_of m b then r else root_of m i))"
proof -
  obtain m1 where m1: "uf_find m a = Some (m1, root_of m a)" "leads m1 = leads m"
    using uf_find_ok [OF leads_root_of [OF g] g] by blast
  then have g1: "grounded m1" using g by (simp add: grounded_def)
  obtain m2 where m2: "uf_find m1 b = Some (m2, root_of m b)" "leads m2 = leads m"
    using uf_find_ok [OF leads_root_of [OF g1] g1] m1(2) root_of_cong [OF m1(2)] by metis
  show ?thesis
  proof (cases "root_of m a = root_of m b")
    case True
    then show ?thesis
      using m1(1) m2 root_of_cong [OF m2(2)] g by (auto simp: uf_union_def grounded_def)
  next
    case False
    let ?m = "AList.update (root_of m a) (root_of m b) m2"
    have none: "map_of m2 (root_of m a) = None" "map_of m2 (root_of m b) = None"
      using leads_root_of [OF g] m2(2) leads_end by metis+
    have new: "leads ?m i (if root_of m i = root_of m a then root_of m b else root_of m i)" for i
      using leads_hang [OF none False, of i "root_of m i"] leads_root_of [OF g, of i] m2(2) by simp
    then have "grounded ?m" by (auto simp: grounded_def)
    moreover have "root_of ?m i = (if root_of m i = root_of m a then root_of m b else root_of m i)" for i
      using root_of_eq [OF new] .
    ultimately show ?thesis
      using m1(1) m2(1) False
      by (intro exI [of _ ?m] exI [of _ "root_of m b"]) (simp add: uf_union_def)
  qed
qed

interpretation points: disjoint_sets uf_find uf_union "\<lambda>_ _. True" root_of grounded
proof unfold_locales
  fix m :: "('a, 'a) dmap" and a b
  assume g: "grounded m"
  show "\<exists>m' r. uf_union m a b = Some m' \<and> grounded m' \<and> (\<lambda>_. True) = (\<lambda>_. True) \<and>
      r \<in> {root_of m a, root_of m b} \<and>
      (\<forall>i. root_of m' i = (if root_of m i = root_of m a \<or> root_of m i = root_of m b then r else root_of m i))"
    using uf_union_ok [OF g] by simp
  obtain m' where "uf_find m a = Some (m', root_of m a)" "leads m' = leads m"
    using uf_find_ok [OF leads_root_of [OF g] g] by blast
  then show "\<exists>m'. uf_find m a = Some (m', root_of m a) \<and> grounded m' \<and>
      (\<lambda>_. True) = (\<lambda>_. True) \<and> root_of m' = root_of m"
    using g root_of_cong by (auto simp: grounded_def)
  show "root_of m (root_of m a) = root_of m a"
    using leads_end [OF leads_root_of [OF g, of a]] by (intro root_of_eq leads.root)
qed

lemma grounded_empty: "grounded ([] :: ('k, 'k) dmap)"
proof -
  have "\<exists>r. leads [] x r" for x :: 'k by (rule exI [of _ x], rule leads.root) simp
  then show ?thesis by (simp add: grounded_def)
qed

lemma root_of_empty: "root_of [] x = x"
  by (rule root_of_eq) (simp add: leads.root)

end
