(* ===== verification/Sketch_Components.thy ===== *)
theory Sketch_Components
  imports Timeline_Types Union_Find
begin

text \<open>
  \<^verbatim>\<open>geometry-engine/src/sketch2d/decompose.rs\<close>: the split of a sketch into the connected components of
  its constraint graph. Entities are ordered as the derived \<^verbatim>\<open>Ord\<close> of \<^verbatim>\<open>EntityRef\<close> orders them,
  by variant and then by identifier (\<^verbatim>\<open>constraints.rs\<close>). A \<^verbatim>\<open>HashMap\<close> that is only looked up is an
  association list.
\<close>

section \<open>Entities\<close>

datatype entity_ref =
    Point uuid
  | Line uuid
  | Arc uuid
  | Circle uuid
  | Rectangle uuid
  | Ellipse uuid
  | Spline uuid
  | Polyline uuid

fun ref_order :: "entity_ref \<Rightarrow> nat \<times> uuid" where
  "ref_order (Point i) = (0, i)"
| "ref_order (Line i) = (1, i)"
| "ref_order (Arc i) = (2, i)"
| "ref_order (Circle i) = (3, i)"
| "ref_order (Rectangle i) = (4, i)"
| "ref_order (Ellipse i) = (5, i)"
| "ref_order (Spline i) = (6, i)"
| "ref_order (Polyline i) = (7, i)"

lemma ref_order_inj: "ref_order a = ref_order b \<longleftrightarrow> a = b"
  by (cases a; cases b) auto

instantiation entity_ref :: linorder
begin

definition less_eq_entity_ref :: "entity_ref \<Rightarrow> entity_ref \<Rightarrow> bool" where
  "less_eq_entity_ref a b \<longleftrightarrow>
     fst (ref_order a) < fst (ref_order b) \<or>
     fst (ref_order a) = fst (ref_order b) \<and> snd (ref_order a) \<le> snd (ref_order b)"

definition less_entity_ref :: "entity_ref \<Rightarrow> entity_ref \<Rightarrow> bool" where
  "less_entity_ref a b \<longleftrightarrow> a \<le> b \<and> \<not> b \<le> a"

instance
proof
  fix a b c :: entity_ref
  show "a < b \<longleftrightarrow> a \<le> b \<and> \<not> b \<le> a" by (rule less_entity_ref_def)
  show "a \<le> a" by (simp add: less_eq_entity_ref_def)
  show "a \<le> b \<Longrightarrow> b \<le> c \<Longrightarrow> a \<le> c" by (auto simp: less_eq_entity_ref_def)
  show "a \<le> b \<Longrightarrow> b \<le> a \<Longrightarrow> a = b"
    by (auto simp: less_eq_entity_ref_def prod_eq_iff simp flip: ref_order_inj)
  show "a \<le> b \<or> b \<le> a" by (auto simp: less_eq_entity_ref_def)
qed

end

section \<open>The split\<close>

record constraint_component =
  comp_entities :: "entity_ref list"
  constraint_indices :: "nat list"

text \<open>\<^verbatim>\<open>sort_unstable\<close> and \<^verbatim>\<open>dedup\<close>, and the position of every entity.\<close>

definition sorted_nodes :: "entity_ref list \<Rightarrow> entity_ref list" where
  "sorted_nodes nodes = remdups_adj (sort nodes)"

definition index_map :: "entity_ref list \<Rightarrow> (entity_ref, nat) dmap" where
  "index_map ordered = zip ordered [0..<length ordered]"

text \<open>Edges of shared variables, and for every constraint the chain of its present entities.\<close>

fun link_edges ::
  "(entity_ref, nat) dmap \<Rightarrow> (entity_ref \<times> entity_ref) list \<Rightarrow> nat list \<Rightarrow> nat list option" where
  "link_edges ix [] parent = Some parent"
| "link_edges ix ((a, b) # es) parent =
     (case (map_of ix a, map_of ix b) of
        (Some ia, Some ib) \<Rightarrow>
          (case union parent ia ib of None \<Rightarrow> None | Some parent' \<Rightarrow> link_edges ix es parent')
      | _ \<Rightarrow> link_edges ix es parent)"

fun link_chain ::
  "(entity_ref, nat) dmap \<Rightarrow> nat option \<Rightarrow> entity_ref list \<Rightarrow> nat list \<Rightarrow> nat list option" where
  "link_chain ix before [] parent = Some parent"
| "link_chain ix before (e # es) parent =
     (case map_of ix e of
        None \<Rightarrow> link_chain ix before es parent
      | Some i \<Rightarrow>
     (case before of
        None \<Rightarrow> link_chain ix (Some i) es parent
      | Some p \<Rightarrow>
     (case union parent p i of
        None \<Rightarrow> None
      | Some parent' \<Rightarrow> link_chain ix (Some i) es parent')))"

fun link_constraints ::
  "(entity_ref, nat) dmap \<Rightarrow> entity_ref list list \<Rightarrow> nat list \<Rightarrow> nat list option" where
  "link_constraints ix [] parent = Some parent"
| "link_constraints ix (es # ess) parent =
     (case link_chain ix None es parent of None \<Rightarrow> None
      | Some parent' \<Rightarrow> link_constraints ix ess parent')"

type_synonym grouping = "nat list \<times> (nat, nat) dmap \<times> constraint_component list"

fun group_nodes :: "nat \<Rightarrow> entity_ref list \<Rightarrow> grouping \<Rightarrow> grouping option" where
  "group_nodes i [] st = Some st"
| "group_nodes i (e # es) (parent, slots, comps) =
     (case find_root parent i of None \<Rightarrow> None
      | Some (parent', root) \<Rightarrow>
          let (slot, slots', comps') =
                (case map_of slots root of
                   Some s \<Rightarrow> (s, slots, comps)
                 | None \<Rightarrow> (length comps, AList.update root (length comps) slots,
                            comps @ [\<lparr>comp_entities = [], constraint_indices = []\<rparr>]));
              comps'' = (if slot < length comps'
                then comps'[slot := (comps' ! slot)\<lparr>comp_entities := comp_entities (comps' ! slot) @ [e]\<rparr>]
                else comps')
          in group_nodes (Suc i) es (parent', slots', comps''))"

fun assign_constraints ::
  "(entity_ref, nat) dmap \<Rightarrow> nat \<Rightarrow> entity_ref list list \<Rightarrow> grouping \<Rightarrow> constraint_component list option" where
  "assign_constraints ix ci [] (parent, slots, comps) = Some comps"
| "assign_constraints ix ci (es # ess) (parent, slots, comps) =
     (case List.map_filter (map_of ix) es of
        [] \<Rightarrow> assign_constraints ix (Suc ci) ess (parent, slots, comps)
      | i # _ \<Rightarrow>
     (case find_root parent i of None \<Rightarrow> None
      | Some (parent', root) \<Rightarrow>
     (case map_of slots root of
        None \<Rightarrow> assign_constraints ix (Suc ci) ess (parent', slots, comps)
      | Some slot \<Rightarrow>
          let comps' = (if slot < length comps
                then comps[slot := (comps ! slot)\<lparr>constraint_indices := constraint_indices (comps ! slot) @ [ci]\<rparr>]
                else comps)
          in assign_constraints ix (Suc ci) ess (parent', slots, comps'))))"

definition connected_components ::
  "entity_ref list \<Rightarrow> (entity_ref \<times> entity_ref) list \<Rightarrow> entity_ref list list \<Rightarrow>
   constraint_component list option" where
  "connected_components nodes shared_ref_edges constraint_entities =
     (let ordered = sorted_nodes nodes; ix = index_map ordered
      in case link_edges ix shared_ref_edges [0..<length ordered] of None \<Rightarrow> None
      | Some p1 \<Rightarrow>
     (case link_constraints ix constraint_entities p1 of None \<Rightarrow> None
      | Some p2 \<Rightarrow>
     (case group_nodes 0 ordered (p2, [], []) of None \<Rightarrow> None
      | Some st \<Rightarrow> assign_constraints ix 0 constraint_entities st)))"

end
