(* ===== verification/Sketch_Components_Props.thy ===== *)
theory Sketch_Components_Props
  imports Sketch_Components
begin

text \<open>
  The split of a sketch computes the connected components: what the loops of
  \<open>connected_components\<close> do to the union-find forest is joining along the edges of the constraint
  graph, and grouping by representative lists the classes in ascending order.
\<close>

section \<open>Positions\<close>

lemma sorted_nodes_props:
  "sorted (sorted_nodes nodes)" "distinct (sorted_nodes nodes)" "set (sorted_nodes nodes) = set nodes"
proof -
  show "sorted (sorted_nodes nodes)" by (simp add: sorted_nodes_def sorted_remdups_adj)
  show "distinct (sorted_nodes nodes)"
  proof -
    have "sorted xs \<Longrightarrow> distinct (remdups_adj xs)" for xs :: "entity_ref list"
      by (induction xs rule: remdups_adj.induct) (auto simp: less_le)
    then show ?thesis by (simp add: sorted_nodes_def)
  qed
  show "set (sorted_nodes nodes) = set nodes" by (simp add: sorted_nodes_def)
qed

lemma index_map_Some:
  assumes "distinct ordered"
  shows "map_of (index_map ordered) e = Some i \<longleftrightarrow> i < length ordered \<and> ordered ! i = e"
proof -
  have "distinct (map fst (index_map ordered))" using assms by (simp add: index_map_def)
  then have "map_of (index_map ordered) e = Some i \<longleftrightarrow> (e, i) \<in> set (index_map ordered)"
    by (rule map_of_eq_Some_iff)
  also have "\<dots> \<longleftrightarrow> i < length ordered \<and> ordered ! i = e"
    by (auto simp: index_map_def in_set_zip)
  finally show ?thesis .
qed

lemma index_map_None: "distinct ordered \<Longrightarrow> map_of (index_map ordered) e = None \<longleftrightarrow> e \<notin> set ordered"
  by (simp add: index_map_def map_of_eq_None_iff flip: set_map)

section \<open>The links\<close>

fun consecutive :: "'a list \<Rightarrow> ('a \<times> 'a) list" where
  "consecutive (x # y # xs) = (x, y) # consecutive (y # xs)"
| "consecutive _ = []"

definition edge_links :: "(entity_ref, nat) dmap \<Rightarrow> (entity_ref \<times> entity_ref) list \<Rightarrow> (nat \<times> nat) list" where
  "edge_links ix es = List.map_filter (\<lambda>(a, b). case (map_of ix a, map_of ix b) of
     (Some ia, Some ib) \<Rightarrow> Some (ia, ib) | _ \<Rightarrow> None) es"

definition present :: "(entity_ref, nat) dmap \<Rightarrow> entity_ref list \<Rightarrow> nat list" where
  "present ix es = List.map_filter (map_of ix) es"

definition constraint_links :: "(entity_ref, nat) dmap \<Rightarrow> entity_ref list list \<Rightarrow> (nat \<times> nat) list" where
  "constraint_links ix ess = concat (map (consecutive \<circ> present ix) ess)"

lemma link_edges_joins: "link_edges ix es parent = halving.joins (edge_links ix es) parent"
  by (induction ix es parent rule: link_edges.induct)
    (auto simp: edge_links_def List.map_filter_simps halving.joins_Cons split: option.splits)

lemma link_chain_joins:
  "link_chain ix before es parent =
     halving.joins (consecutive ((case before of None \<Rightarrow> [] | Some p \<Rightarrow> [p]) @ present ix es)) parent"
  by (induction ix before es parent rule: link_chain.induct)
    (auto simp: present_def List.map_filter_simps halving.joins_Cons split: option.splits)

lemma link_constraints_joins: "link_constraints ix ess parent = halving.joins (constraint_links ix ess) parent"
  by (induction ix ess parent rule: link_constraints.induct)
    (auto simp: constraint_links_def link_chain_joins halving.joins_append split: option.splits)

lemma set_present: "set (present ix es) = {i. \<exists>e \<in> set es. map_of ix e = Some i}"
  by (force simp: present_def List.map_filter_def)

lemma consecutive_set: "(a, b) \<in> set (consecutive xs) \<Longrightarrow> a \<in> set xs \<and> b \<in> set xs"
  by (induction xs rule: consecutive.induct) auto

lemma consecutive_connects:
  fixes xs :: "'a list"
  shows "a \<in> set xs \<Longrightarrow> b \<in> set xs \<Longrightarrow> (a, b) \<in> (set (consecutive xs) \<union> (set (consecutive xs))\<inverse>)\<^sup>*"
proof -
  let ?R = "\<lambda>xs. (set (consecutive xs) \<union> (set (consecutive xs))\<inverse>)\<^sup>*"
  have mono: "?R (y # xs) \<subseteq> ?R (x # y # xs)" for x y :: 'a and xs :: "'a list" by (intro rtrancl_mono) auto
  have from_hd: "b \<in> set xs \<Longrightarrow> (hd xs, b) \<in> ?R xs" for b :: 'a and xs :: "'a list"
  proof (induction xs rule: consecutive.induct)
    case (1 x y xs)
    show ?case
    proof (cases "b = x")
      case False
      then have "b \<in> set (y # xs)" using 1(2) by simp
      from 1(1) [OF this] have "(y, b) \<in> ?R (y # xs)" by (simp only: list.sel)
      then have "(y, b) \<in> ?R (x # y # xs)" by (rule subsetD [OF mono])
      moreover have "(x, y) \<in> ?R (x # y # xs)" by (rule r_into_rtrancl) simp
      ultimately have "(x, b) \<in> ?R (x # y # xs)" by (rule rtrancl_trans [rotated])
      then show ?thesis by (simp only: list.sel)
    qed simp
  qed simp_all
  have sym: "sym (?R xs)" by (intro sym_rtrancl) (auto simp: sym_def)
  show "a \<in> set xs \<Longrightarrow> b \<in> set xs \<Longrightarrow> (a, b) \<in> ?R xs"
    using from_hd sym by (meson rtrancl_trans symD)
qed

section \<open>The graph\<close>

definition adjacent ::
  "entity_ref set \<Rightarrow> (entity_ref \<times> entity_ref) list \<Rightarrow> entity_ref list list \<Rightarrow> (entity_ref \<times> entity_ref) set" where
  "adjacent N edges cons =
     {(a, b). a \<in> N \<and> b \<in> N \<and> ((a, b) \<in> set edges \<or> (\<exists>es \<in> set cons. a \<in> set es \<and> b \<in> set es))}"

definition connected ::
  "entity_ref set \<Rightarrow> (entity_ref \<times> entity_ref) list \<Rightarrow> entity_ref list list \<Rightarrow> entity_ref \<Rightarrow> entity_ref \<Rightarrow> bool" where
  "connected N edges cons a b \<longleftrightarrow> (a, b) \<in> (adjacent N edges cons \<union> (adjacent N edges cons)\<inverse>)\<^sup>*"

definition all_links :: "entity_ref list \<Rightarrow> (entity_ref \<times> entity_ref) list \<Rightarrow> entity_ref list list \<Rightarrow> (nat \<times> nat) list" where
  "all_links ordered edges cons =
     edge_links (index_map ordered) edges @ constraint_links (index_map ordered) cons"

lemma set_edge_links:
  "set (edge_links ix es) = {(i, j). \<exists>(a, b) \<in> set es. map_of ix a = Some i \<and> map_of ix b = Some j}"
proof (induction es)
  case (Cons e es)
  then show ?case
    by (cases e) (auto simp: edge_links_def List.map_filter_simps split: option.splits)
qed (simp add: edge_links_def List.map_filter_simps)

lemma links_sound:
  assumes "distinct ordered" "(i, j) \<in> set (all_links ordered edges cons)"
  shows "i < length ordered \<and> j < length ordered \<and> (ordered ! i, ordered ! j) \<in> adjacent (set ordered) edges cons"
  using assms
  by (auto simp: all_links_def set_edge_links constraint_links_def adjacent_def index_map_Some set_present
      dest!: consecutive_set)

lemma links_complete:
  assumes d: "distinct ordered" and adj: "(a, b) \<in> adjacent (set ordered) edges cons"
  shows "\<exists>i j. i < length ordered \<and> j < length ordered \<and> ordered ! i = a \<and> ordered ! j = b \<and>
    (i, j) \<in> (set (all_links ordered edges cons) \<union> (set (all_links ordered edges cons))\<inverse>)\<^sup>*"
proof -
  let ?ix = "index_map ordered" and ?L = "set (all_links ordered edges cons)"
  obtain i j where ij: "i < length ordered" "j < length ordered" "ordered ! i = a" "ordered ! j = b"
    using adj by (auto simp: adjacent_def in_set_conv_nth)
  then have ix: "map_of ?ix a = Some i" "map_of ?ix b = Some j" using d by (auto simp: index_map_Some)
  have "(i, j) \<in> (?L \<union> ?L\<inverse>)\<^sup>*"
  proof (cases "(a, b) \<in> set edges")
    case True
    then have "(i, j) \<in> ?L" using ix by (auto simp: all_links_def set_edge_links)
    then show ?thesis by auto
  next
    case False
    then obtain es where es: "es \<in> set cons" "a \<in> set es" "b \<in> set es" using adj by (auto simp: adjacent_def)
    then have "i \<in> set (present ?ix es)" "j \<in> set (present ?ix es)" using ix by (auto simp: set_present)
    from consecutive_connects [OF this] have "(i, j) \<in> (set (consecutive (present ?ix es)) \<union>
        (set (consecutive (present ?ix es)))\<inverse>)\<^sup>*" .
    moreover have "set (consecutive (present ?ix es)) \<subseteq> ?L"
      using es(1) by (auto simp: all_links_def constraint_links_def)
    ultimately show ?thesis
      using rtrancl_mono [of "set (consecutive (present ?ix es)) \<union> (set (consecutive (present ?ix es)))\<inverse>"
          "?L \<union> ?L\<inverse>"] by blast
  qed
  then show ?thesis using ij by blast
qed

lemma links_connected:
  assumes d: "distinct ordered" and xy: "x < length ordered" "y < length ordered"
  shows "(x, y) \<in> (set (all_links ordered edges cons) \<union> (set (all_links ordered edges cons))\<inverse>)\<^sup>* \<longleftrightarrow>
    connected (set ordered) edges cons (ordered ! x) (ordered ! y)"
proof
  let ?L = "set (all_links ordered edges cons)" and ?A = "adjacent (set ordered) edges cons"
  assume "(x, y) \<in> (?L \<union> ?L\<inverse>)\<^sup>*"
  then show "connected (set ordered) edges cons (ordered ! x) (ordered ! y)"
  proof induction
    case (step y z)
    then have "(ordered ! y, ordered ! z) \<in> ?A \<union> ?A\<inverse>"
      using links_sound [OF d] by blast
    then show ?case using step.IH unfolding connected_def by (rule rtrancl_into_rtrancl [rotated])
  qed (simp add: connected_def)
next
  let ?L = "set (all_links ordered edges cons)" and ?A = "adjacent (set ordered) edges cons"
  assume "connected (set ordered) edges cons (ordered ! x) (ordered ! y)"
  then have "(ordered ! x, ordered ! y) \<in> (?A \<union> ?A\<inverse>)\<^sup>*" by (simp add: connected_def)
  then have "\<exists>j < length ordered. ordered ! j = ordered ! y \<and> (x, j) \<in> (?L \<union> ?L\<inverse>)\<^sup>*"
  proof induction
    case base
    then show ?case using xy(1) by blast
  next
    case (step b c)
    obtain j where j: "j < length ordered" "ordered ! j = b" "(x, j) \<in> (?L \<union> ?L\<inverse>)\<^sup>*" using step.IH by blast
    have sym: "sym ((?L \<union> ?L\<inverse>)\<^sup>*)" by (intro sym_rtrancl) (auto simp: sym_def)
    obtain k l where kl: "k < length ordered" "l < length ordered" "ordered ! k = b" "ordered ! l = c"
        "(k, l) \<in> (?L \<union> ?L\<inverse>)\<^sup>*"
      using step.hyps(2) links_complete [OF d, of _ _ edges cons] sym by (metis Un_iff converseD symD)
    have "k = j" using kl(1,3) j(1,2) d nth_eq_iff_index_eq by metis
    then have "(x, l) \<in> (?L \<union> ?L\<inverse>)\<^sup>*" using j(3) kl(5) by (metis rtrancl_trans)
    then show ?case using kl(2,4) by blast
  qed
  then show "(x, y) \<in> (?L \<union> ?L\<inverse>)\<^sup>*" using d xy(2) by (auto simp: nth_eq_iff_index_eq)
qed

section \<open>Grouping\<close>

abbreviation roots_upto :: "(nat \<Rightarrow> nat) \<Rightarrow> nat \<Rightarrow> nat list" where
  "roots_upto r k \<equiv> filter (\<lambda>j. r j = j) [0..<k]"

definition class_upto :: "entity_ref list \<Rightarrow> (nat \<Rightarrow> nat) \<Rightarrow> nat \<Rightarrow> nat \<Rightarrow> entity_ref list" where
  "class_upto ordered r k root = map (nth ordered) (filter (\<lambda>j. r j = root) [0..<k])"

definition grouped :: "entity_ref list \<Rightarrow> (nat \<Rightarrow> nat) \<Rightarrow> nat \<Rightarrow> grouping \<Rightarrow> bool" where
  "grouped ordered r k st \<longleftrightarrow>
     (case st of (parent, slots, comps) \<Rightarrow>
        forest parent \<and> length parent = length ordered \<and> rep parent = r \<and>
        map_of slots = map_of (zip (roots_upto r k) [0..<length (roots_upto r k)]) \<and>
        comps = map (\<lambda>root. \<lparr>comp_entities = class_upto ordered r k root, constraint_indices = []\<rparr>)
          (roots_upto r k))"

lemma slot_Some:
  assumes "distinct xs"
  shows "map_of (zip xs [0..<length xs]) x = Some s \<longleftrightarrow> s < length xs \<and> xs ! s = x"
proof -
  have "distinct (map fst (zip xs [0..<length xs]))" using assms by simp
  then have "map_of (zip xs [0..<length xs]) x = Some s \<longleftrightarrow> (x, s) \<in> set (zip xs [0..<length xs])"
    by (rule map_of_eq_Some_iff)
  also have "\<dots> \<longleftrightarrow> s < length xs \<and> xs ! s = x" by (auto simp: in_set_zip)
  finally show ?thesis .
qed

lemma slot_append:
  assumes "k \<notin> set xs"
  shows "map_of (zip (xs @ [k]) [0..<Suc (length xs)]) = (map_of (zip xs [0..<length xs]))(k \<mapsto> length xs)"
proof -
  have none: "map_of (zip xs [0..<length xs]) x = None \<longleftrightarrow> x \<notin> set xs" for x
    by (simp add: map_of_zip_is_None)
  have "map_of (zip (xs @ [k]) [0..<Suc (length xs)]) = [k \<mapsto> length xs] ++ map_of (zip xs [0..<length xs])"
    by simp
  also have "\<dots> = (map_of (zip xs [0..<length xs]))(k \<mapsto> length xs)"
    using assms none [of k] by (simp add: map_add_upd_left dom_def)
  finally show ?thesis .
qed

lemma class_upto_Suc:
  "class_upto ordered r (Suc k) root = class_upto ordered r k root @ (if r k = root then [ordered ! k] else [])"
  by (simp add: class_upto_def)

lemma class_upto_other: "r k \<noteq> root \<Longrightarrow> class_upto ordered r (Suc k) root = class_upto ordered r k root"
  by (simp add: class_upto_def)

lemma group_step:
  assumes inv: "grouped ordered r k (parent, slots, comps)" and k: "k < length ordered"
    and r: "\<And>j. r j \<le> j" "\<And>j. r (r j) = r j"
  shows "\<exists>st. group_nodes k (ordered ! k # es) (parent, slots, comps) = group_nodes (Suc k) es st \<and>
    grouped ordered r (Suc k) st"
proof -
  let ?roots = "roots_upto r k"
  let ?comp = "\<lambda>m root. \<lparr>comp_entities = class_upto ordered r m root, constraint_indices = []\<rparr>"
  have p: "forest parent" "length parent = length ordered" "rep parent = r"
    and slots: "map_of slots = map_of (zip ?roots [0..<length ?roots])"
    and comps: "comps = map (?comp k) ?roots"
    using inv by (auto simp: grouped_def)
  obtain p' where p': "find_root parent k = Some (p', r k)" "forest p'" "length p' = length ordered" "rep p' = r"
    using find_root_ok [OF p(1), of k] p k by auto
  show ?thesis
  proof (cases "r k = k")
    case True
    have none: "map_of slots k = None" using slots by (auto simp: map_of_eq_None_iff dest: set_zip_leftD)
    have new: "class_upto ordered r k k = []"
      using r(1) by (auto simp: class_upto_def filter_empty_conv) (metis leD)
    have "map_of (zip (?roots @ [k]) [0..<Suc (length ?roots)]) =
        (map_of (zip ?roots [0..<length ?roots]))(k \<mapsto> length ?roots)"
      by (rule slot_append) simp
    then have "grouped ordered r (Suc k) (p', AList.update k (length comps) slots,
        comps @ [\<lparr>comp_entities = [ordered ! k], constraint_indices = []\<rparr>])"
      using p' True comps slots new
      by (auto simp: grouped_def update_conv' class_upto_Suc)
    then show ?thesis using p'(1) none True by (auto simp: Let_def nth_append list_update_append)
  next
    case False
    then have below: "r k < k" using r(1) [of k] by (simp add: less_le)
    then have "r k \<in> set ?roots" using r(2) by simp
    then obtain s where s: "s < length ?roots" "?roots ! s = r k"
      unfolding in_set_conv_nth by blast
    have slot: "map_of slots (r k) = Some s" using s by (simp add: slots slot_Some)
    have "comps[s := (comps ! s)\<lparr>comp_entities := comp_entities (comps ! s) @ [ordered ! k]\<rparr>] =
        map (?comp (Suc k)) ?roots"
    proof (rule nth_equalityI)
      fix m
      assume m: "m < length (comps[s := (comps ! s)\<lparr>comp_entities := comp_entities (comps ! s) @ [ordered ! k]\<rparr>])"
      show "comps[s := (comps ! s)\<lparr>comp_entities := comp_entities (comps ! s) @ [ordered ! k]\<rparr>] ! m =
          map (?comp (Suc k)) ?roots ! m"
      proof (cases "m = s")
        case True
        then show ?thesis using s m comps by (simp add: class_upto_Suc)
      next
        case False
        have "?roots ! m \<noteq> r k"
          using False s m comps nth_eq_iff_index_eq [of ?roots m s] by simp
        then show ?thesis using False m comps by (simp add: class_upto_Suc)
      qed
    qed (simp add: comps)
    then have "grouped ordered r (Suc k) (p', slots,
        comps[s := (comps ! s)\<lparr>comp_entities := comp_entities (comps ! s) @ [ordered ! k]\<rparr>])"
      using p' False slots by (simp add: grouped_def)
    then show ?thesis using p'(1) slot s(1) comps by (auto simp: Let_def)
  qed
qed

lemma group_nodes_grouped:
  assumes "grouped ordered r k st" "k \<le> length ordered" "\<And>j. r j \<le> j" "\<And>j. r (r j) = r j"
  shows "\<exists>st'. group_nodes k (drop k ordered) st = Some st' \<and> grouped ordered r (length ordered) st'"
  using assms(1,2)
proof (induction "length ordered - k" arbitrary: k st)
  case 0
  then show ?case by simp
next
  case (Suc m)
  obtain parent slots comps where st: "st = (parent, slots, comps)" by (cases st)
  have k: "k < length ordered" using Suc.hyps(2) by simp
  then have "drop k ordered = ordered ! k # drop (Suc k) ordered" by (simp add: Cons_nth_drop_Suc)
  then obtain st1 where "group_nodes k (drop k ordered) st = group_nodes (Suc k) (drop (Suc k) ordered) st1"
      "grouped ordered r (Suc k) st1"
    using group_step [OF _ k assms(3,4)] Suc.prems(1) st by metis
  then show ?case using Suc.hyps(1) [of "Suc k" st1] Suc.hyps(2) k by simp
qed

section \<open>Constraints\<close>

definition root_of_constraint :: "(entity_ref, nat) dmap \<Rightarrow> (nat \<Rightarrow> nat) \<Rightarrow> entity_ref list \<Rightarrow> nat option" where
  "root_of_constraint ix r es = (case present ix es of [] \<Rightarrow> None | i # _ \<Rightarrow> Some (r i))"

definition component_of ::
  "entity_ref list \<Rightarrow> (nat \<Rightarrow> nat) \<Rightarrow> entity_ref list list \<Rightarrow> nat \<Rightarrow> nat \<Rightarrow> constraint_component" where
  "component_of ordered r cons k root =
     \<lparr>comp_entities = class_upto ordered r (length ordered) root,
      constraint_indices = filter (\<lambda>ci. root_of_constraint (index_map ordered) r (cons ! ci) = Some root) [0..<k]\<rparr>"

lemma assign_step:
  assumes d: "distinct ordered" and k: "k < length cons"
    and p: "forest parent" "length parent = length ordered" "rep parent = r"
    and slots: "map_of slots = map_of (zip (roots_upto r (length ordered)) [0..<length (roots_upto r (length ordered))])"
    and r: "\<And>j. r j \<le> j" "\<And>j. r (r j) = r j"
  shows "\<exists>parent'. forest parent' \<and> length parent' = length ordered \<and> rep parent' = r \<and>
    assign_constraints (index_map ordered) k (cons ! k # ess)
      (parent, slots, map (component_of ordered r cons k) (roots_upto r (length ordered))) =
    assign_constraints (index_map ordered) (Suc k) ess
      (parent', slots, map (component_of ordered r cons (Suc k)) (roots_upto r (length ordered)))"
proof -
  let ?ix = "index_map ordered" and ?roots = "roots_upto r (length ordered)"
  let ?comps = "\<lambda>k. map (component_of ordered r cons k) ?roots"
  have step: "component_of ordered r cons (Suc k) root = (component_of ordered r cons k root)
      \<lparr>constraint_indices := constraint_indices (component_of ordered r cons k root) @
        (if root_of_constraint ?ix r (cons ! k) = Some root then [k] else [])\<rparr>" for root
    by (simp add: component_of_def)
  show ?thesis
  proof (cases "present ?ix (cons ! k)")
    case Nil
    then have "component_of ordered r cons (Suc k) = component_of ordered r cons k"
      by (intro ext) (simp add: component_of_def root_of_constraint_def)
    then show ?thesis using Nil p by (intro exI [of _ parent]) (simp add: present_def)
  next
    case (Cons i js)
    then have "i \<in> set (present ?ix (cons ! k))" by simp
    then have i: "i < length ordered" using d by (auto simp: set_present index_map_Some)
    obtain p' where p': "find_root parent i = Some (p', r i)" "forest p'" "length p' = length ordered" "rep p' = r"
      using find_root_ok [OF p(1), of i] p i by auto
    have "r i < length ordered" using r(1) [of i] i by simp
    then have "r i \<in> set ?roots" using r(2) by simp
    then obtain s where s: "s < length ?roots" "?roots ! s = r i" unfolding in_set_conv_nth by blast
    have slot: "map_of slots (r i) = Some s" using s by (simp add: slots slot_Some)
    have root: "root_of_constraint ?ix r (cons ! k) = Some (r i)" using Cons by (simp add: root_of_constraint_def)
    have "(?comps k)[s := (?comps k ! s)\<lparr>constraint_indices := constraint_indices (?comps k ! s) @ [k]\<rparr>] = ?comps (Suc k)"
    proof (rule nth_equalityI)
      fix m
      assume m: "m < length ((?comps k)[s := (?comps k ! s)\<lparr>constraint_indices := constraint_indices (?comps k ! s) @ [k]\<rparr>])"
      show "(?comps k)[s := (?comps k ! s)\<lparr>constraint_indices := constraint_indices (?comps k ! s) @ [k]\<rparr>] ! m =
          ?comps (Suc k) ! m"
      proof (cases "m = s")
        case True
        then show ?thesis using s m root by (simp add: step)
      next
        case False
        have "?roots ! m \<noteq> r i"
          using False s m nth_eq_iff_index_eq [of ?roots m s] by simp
        then show ?thesis using False m root by (simp add: step)
      qed
    qed simp
    then have "assign_constraints ?ix k (cons ! k # ess) (parent, slots, ?comps k) =
        assign_constraints ?ix (Suc k) ess (p', slots, ?comps (Suc k))"
      using Cons p'(1) slot s(1) by (simp add: present_def Let_def)
    then show ?thesis using p'(2-4) by blast
  qed
qed

lemma assign_constraints_all:
  assumes d: "distinct ordered" and k: "k \<le> length cons"
    and p: "forest parent" "length parent = length ordered" "rep parent = r"
    and slots: "map_of slots = map_of (zip (roots_upto r (length ordered)) [0..<length (roots_upto r (length ordered))])"
    and r: "\<And>j. r j \<le> j" "\<And>j. r (r j) = r j"
  shows "assign_constraints (index_map ordered) k (drop k cons)
      (parent, slots, map (component_of ordered r cons k) (roots_upto r (length ordered))) =
    Some (map (component_of ordered r cons (length cons)) (roots_upto r (length ordered)))"
  using k p
proof (induction "length cons - k" arbitrary: k parent)
  case 0
  then show ?case by simp
next
  case (Suc m)
  have k: "k < length cons" using Suc.hyps(2) by simp
  then have "drop k cons = cons ! k # drop (Suc k) cons" by (simp add: Cons_nth_drop_Suc)
  moreover obtain parent' where "forest parent'" "length parent' = length ordered" "rep parent' = r"
    "assign_constraints (index_map ordered) k (cons ! k # drop (Suc k) cons)
      (parent, slots, map (component_of ordered r cons k) (roots_upto r (length ordered))) =
    assign_constraints (index_map ordered) (Suc k) (drop (Suc k) cons)
      (parent', slots, map (component_of ordered r cons (Suc k)) (roots_upto r (length ordered)))"
    using assign_step [OF d k Suc.prems(2-4) slots r] by blast
  ultimately show ?case using Suc.hyps(1) [of "Suc k" parent'] Suc.hyps(2) k by simp
qed

text \<open>What the whole function returns, in terms of the representatives it ends with.\<close>

lemma connected_components_classes:
  "\<exists>r. connected_components nodes edges cons =
      Some (map (component_of (sorted_nodes nodes) r cons (length cons)) (roots_upto r (length (sorted_nodes nodes)))) \<and>
    (\<forall>j. r j \<le> j) \<and> (\<forall>j. r (r j) = r j) \<and>
    (\<forall>x y. x < length (sorted_nodes nodes) \<longrightarrow> y < length (sorted_nodes nodes) \<longrightarrow>
      (r x = r y \<longleftrightarrow> connected (set nodes) edges cons (sorted_nodes nodes ! x) (sorted_nodes nodes ! y)))"
proof -
  let ?o = "sorted_nodes nodes" and ?ix = "index_map (sorted_nodes nodes)"
  let ?n = "length ?o"
  have d: "distinct ?o" by (rule sorted_nodes_props)
  have init: "halving.linked [0..<?n] {}" by (simp add: halving.linked_def rep_initial)
  have bound: "\<forall>(a, b) \<in> set (all_links ?o edges cons). a < length [0..<?n] \<and> b < length [0..<?n]"
    using links_sound [OF d] by fastforce
  obtain p where p: "halving.joins (all_links ?o edges cons) [0..<?n] = Some p" "forest p" "length p = ?n"
      "halving.linked p (set (all_links ?o edges cons))"
    using halving.linked_joins [OF forest_initial init bound] by (auto simp: below_inj)
  then obtain p1 where p1: "link_edges ?ix edges [0..<?n] = Some p1" "link_constraints ?ix cons p1 = Some p"
    by (auto simp: all_links_def halving.joins_append link_edges_joins link_constraints_joins bind_eq_Some_conv)
  define r where "r = rep p"
  have r: "r j \<le> j" "r (r j) = r j" for j by (simp_all add: r_def rep_at_most rep_rep)
  have "grouped ?o r 0 (p, [], [])" using p by (simp add: grouped_def r_def)
  then obtain st where st: "group_nodes 0 ?o (p, [], []) = Some st" "grouped ?o r ?n st"
    using group_nodes_grouped [of ?o r 0 "(p, [], [])"] r by auto
  obtain p2 slots where p2: "st = (p2, slots, map (component_of ?o r cons 0) (roots_upto r ?n))"
      "forest p2" "length p2 = ?n" "rep p2 = r"
      "map_of slots = map_of (zip (roots_upto r ?n) [0..<length (roots_upto r ?n)])"
    using st(2) by (cases st) (auto simp: grouped_def component_of_def)
  have "assign_constraints ?ix 0 cons st = Some (map (component_of ?o r cons (length cons)) (roots_upto r ?n))"
    using assign_constraints_all [OF d _ p2(2-5) r, of 0 cons] p2(1) by simp
  then have "connected_components nodes edges cons =
      Some (map (component_of ?o r cons (length cons)) (roots_upto r ?n))"
    using p1 st(1) by (simp add: connected_components_def Let_def)
  moreover have "r x = r y \<longleftrightarrow> connected (set nodes) edges cons (?o ! x) (?o ! y)"
    if "x < ?n" "y < ?n" for x y
    using halving.linked_same_class [OF p(4)] links_connected [OF d that] that
    by (simp add: r_def sorted_nodes_props(3))
  ultimately show ?thesis using r by blast
qed

lemma class_upto_props:
  assumes "sorted ordered" "distinct ordered"
  shows "e \<in> set (class_upto ordered r k root) \<longleftrightarrow> (\<exists>j < k. r j = root \<and> e = ordered ! j)"
    and "k \<le> length ordered \<Longrightarrow> sorted_wrt (<) (class_upto ordered r k root)"
proof -
  show "e \<in> set (class_upto ordered r k root) \<longleftrightarrow> (\<exists>j < k. r j = root \<and> e = ordered ! j)"
    by (auto simp: class_upto_def)
  have "sorted_wrt (<) ordered" using assms by (simp add: strict_sorted_iff)
  then have "sorted_wrt (\<lambda>i j. ordered ! i < ordered ! j) (filter (\<lambda>j. r j = root) [0..<k])"
    if "k \<le> length ordered"
    using that by (intro sorted_wrt_filter) (auto simp: sorted_wrt_iff_nth_less)
  then show "k \<le> length ordered \<Longrightarrow> sorted_wrt (<) (class_upto ordered r k root)"
    by (simp add: class_upto_def sorted_wrt_map)
qed

lemma hd_class:
  assumes "\<And>j. r j \<le> j" "r root = root" "root < k"
  shows "class_upto ordered r k root \<noteq> []" "hd (class_upto ordered r k root) = ordered ! root"
proof -
  have "filter (\<lambda>j. r j = root) [0..<root] = []"
    using assms(1,2) by (auto simp: filter_empty_conv) (metis leD)
  moreover have "[0..<k] = [0..<root] @ root # [Suc root..<k]"
    using assms(3) by (metis less_imp_le_nat upt_conv_Cons upt_add_eq_append zero_le le_Suc_ex)
  ultimately have "class_upto ordered r k root = ordered ! root # map (nth ordered) (filter (\<lambda>j. r j = root) [Suc root..<k])"
    using assms(2) by (simp add: class_upto_def)
  then show "class_upto ordered r k root \<noteq> []" "hd (class_upto ordered r k root) = ordered ! root" by simp_all
qed

text \<open>C19. The split terminates and returns the connected components of the constraint graph: every
  entity is in exactly one component, two entities share one if and only if shared variables and
  constraints connect them, entities ascend within a component and components ascend by their
  smallest entity.\<close>

theorem components_of_graph:
  "\<exists>cs. connected_components nodes edges cons = Some cs \<and>
    (\<Union>c \<in> set cs. set (comp_entities c)) = set nodes \<and>
    (\<forall>c \<in> set cs. comp_entities c \<noteq> [] \<and> sorted_wrt (<) (comp_entities c)) \<and>
    sorted_wrt (<) (map (hd \<circ> comp_entities) cs) \<and>
    (\<forall>c \<in> set cs. \<forall>a \<in> set (comp_entities c). \<forall>b \<in> set nodes.
      b \<in> set (comp_entities c) \<longleftrightarrow> connected (set nodes) edges cons a b)"
proof -
  let ?o = "sorted_nodes nodes"
  let ?n = "length ?o"
  note o = sorted_nodes_props [of nodes]
  obtain r where cc: "connected_components nodes edges cons =
      Some (map (component_of ?o r cons (length cons)) (roots_upto r ?n))"
    and r: "\<And>j. r j \<le> j" "\<And>j. r (r j) = r j"
    and conn: "\<And>x y. x < ?n \<Longrightarrow> y < ?n \<Longrightarrow>
      r x = r y \<longleftrightarrow> connected (set nodes) edges cons (?o ! x) (?o ! y)"
    using connected_components_classes [of nodes edges cons] by blast
  let ?cs = "map (component_of ?o r cons (length cons)) (roots_upto r ?n)"
  have ents: "comp_entities (component_of ?o r cons (length cons) root) = class_upto ?o r ?n root" for root
    by (simp add: component_of_def)
  have "(\<Union>c \<in> set ?cs. set (comp_entities c)) = set nodes"
  proof -
    have "e \<in> (\<Union>c \<in> set ?cs. set (comp_entities c)) \<longleftrightarrow> (\<exists>j < ?n. e = ?o ! j)" for e
    proof
      assume "e \<in> (\<Union>c \<in> set ?cs. set (comp_entities c))"
      then show "\<exists>j < ?n. e = ?o ! j" by (auto simp: ents class_upto_props(1) [OF o(1,2)])
    next
      assume "\<exists>j < ?n. e = ?o ! j"
      then obtain j where j: "j < ?n" "e = ?o ! j" by blast
      then have "r j < ?n" using r(1) [of j] by simp
      then show "e \<in> (\<Union>c \<in> set ?cs. set (comp_entities c))"
        using j r(2) by (auto simp: ents class_upto_props(1) [OF o(1,2)] intro!: bexI [of _ "r j"])
    qed
    then show ?thesis by (metis (no_types, lifting) in_set_conv_nth o(3) subsetI subset_antisym)
  qed
  moreover have "\<forall>c \<in> set ?cs. comp_entities c \<noteq> [] \<and> sorted_wrt (<) (comp_entities c)"
    using hd_class(1) [OF r(1)] class_upto_props(2) [OF o(1,2)] by (auto simp: ents)
  moreover have "sorted_wrt (<) (map (hd \<circ> comp_entities) ?cs)"
  proof -
    have eq: "map (hd \<circ> comp_entities) ?cs = map (nth ?o) (roots_upto r ?n)"
      using hd_class(2) [OF r(1)] by (simp add: ents)
    have "sorted_wrt (<) ?o" using o by (simp add: strict_sorted_iff)
    then have "sorted_wrt (\<lambda>i j. ?o ! i < ?o ! j) (roots_upto r ?n)"
      by (intro sorted_wrt_filter) (auto simp: sorted_wrt_iff_nth_less)
    then have "sorted_wrt (<) (map (nth ?o) (roots_upto r ?n))" by (simp add: sorted_wrt_map)
    then show ?thesis unfolding eq .
  qed
  moreover have "b \<in> set (comp_entities c) \<longleftrightarrow> connected (set nodes) edges cons a b"
    if cab: "c \<in> set ?cs" "a \<in> set (comp_entities c)" "b \<in> set nodes" for a b c
  proof -
    obtain root where root: "c = component_of ?o r cons (length cons) root" using cab(1) by auto
    then obtain i where i: "i < ?n" "r i = root" "a = ?o ! i"
      using cab(2) by (auto simp: ents class_upto_props(1) [OF o(1,2)])
    obtain j where j: "j < ?n" "b = ?o ! j" using cab(3) o(3) by (metis in_set_conv_nth)
    have "b \<in> set (comp_entities c) \<longleftrightarrow> r j = root"
      using j o(2) by (auto simp: root ents class_upto_props(1) [OF o(1,2)] nth_eq_iff_index_eq)
    also have "\<dots> \<longleftrightarrow> connected (set nodes) edges cons a b"
      using conn [OF i(1) j(1)] i j by auto
    finally show ?thesis .
  qed
  ultimately show ?thesis using cc by blast
qed

theorem components_of_graph_witness:
  "\<exists>cs. connected_components [Line 2, Point 3, Point 1] [(Line 2, Point 1)] [[Point 3]] = Some cs \<and>
    (\<forall>c \<in> set cs. \<forall>a \<in> set (comp_entities c). \<forall>b \<in> {Line 2, Point 3, Point 1}.
      b \<in> set (comp_entities c) \<longleftrightarrow>
      connected {Line 2, Point 3, Point 1} [(Line 2, Point 1)] [[Point 3]] a b)"
  using components_of_graph [of "[Line 2, Point 3, Point 1]" "[(Line 2, Point 1)]" "[[Point 3]]"] by auto

text \<open>No constraint couples two components: the constraint number \<open>ci\<close> is listed in a component
  exactly when the component holds all its entities that are in the sketch and there is one; within a
  component the numbers ascend. So every component with its constraints is a system of its own.\<close>

theorem constraints_within_components:
  assumes "connected_components nodes edges cons = Some cs" "c \<in> set cs"
  shows "sorted_wrt (<) (constraint_indices c) \<and>
    (ci \<in> set (constraint_indices c) \<longleftrightarrow>
      ci < length cons \<and> set (cons ! ci) \<inter> set nodes \<noteq> {} \<and>
      set (cons ! ci) \<inter> set nodes \<subseteq> set (comp_entities c))"
proof
  let ?o = "sorted_nodes nodes"
  let ?n = "length ?o" and ?ix = "index_map ?o"
  note o = sorted_nodes_props [of nodes]
  obtain r where cs: "cs = map (component_of ?o r cons (length cons)) (roots_upto r ?n)"
    and r: "\<And>j. r j \<le> j" "\<And>j. r (r j) = r j"
    and conn: "\<And>x y. x < ?n \<Longrightarrow> y < ?n \<Longrightarrow>
      r x = r y \<longleftrightarrow> connected (set nodes) edges cons (?o ! x) (?o ! y)"
    using connected_components_classes [of nodes edges cons] assms(1) by auto
  obtain root where root: "c = component_of ?o r cons (length cons) root" "root < ?n" "r root = root"
    using assms(2) by (auto simp: cs)
  show "sorted_wrt (<) (constraint_indices c)"
    by (simp add: root(1) component_of_def sorted_wrt_filter)
  have here: "e \<in> set (comp_entities c) \<longleftrightarrow> (\<exists>j < ?n. r j = root \<and> e = ?o ! j)" for e
    by (simp add: root(1) component_of_def class_upto_props(1) [OF o(1,2)])
  have present_set: "j \<in> set (present ?ix (cons ! ci)) \<longleftrightarrow> j < ?n \<and> ?o ! j \<in> set (cons ! ci)" for j
    using o(2) by (auto simp: set_present index_map_Some)
  have one_class: "r i = r j" if "ci < length cons" "i \<in> set (present ?ix (cons ! ci))"
      "j \<in> set (present ?ix (cons ! ci))" for i j
  proof -
    have ij: "i < ?n" "j < ?n" "?o ! i \<in> set (cons ! ci)" "?o ! j \<in> set (cons ! ci)"
      using that(2,3) present_set by blast+
    then have "?o ! i \<in> set nodes" "?o ! j \<in> set nodes" using o(3) nth_mem by blast+
    then have "(?o ! i, ?o ! j) \<in> adjacent (set nodes) edges cons"
      using ij(3,4) nth_mem [OF that(1)] unfolding adjacent_def by blast
    then have "connected (set nodes) edges cons (?o ! i) (?o ! j)"
      unfolding connected_def by (simp add: r_into_rtrancl)
    then show ?thesis using conn [OF ij(1,2)] by blast
  qed
  show "ci \<in> set (constraint_indices c) \<longleftrightarrow>
      ci < length cons \<and> set (cons ! ci) \<inter> set nodes \<noteq> {} \<and>
      set (cons ! ci) \<inter> set nodes \<subseteq> set (comp_entities c)"
  proof (cases "present ?ix (cons ! ci)")
    case Nil
    then have none: "?o ! j \<notin> set (cons ! ci)" if "j < ?n" for j using present_set [of j] that by simp
    have "set (cons ! ci) \<inter> set nodes = {}"
    proof (rule equals0I)
      fix e
      assume "e \<in> set (cons ! ci) \<inter> set nodes"
      then have e: "e \<in> set (cons ! ci)" "e \<in> set ?o" by (simp_all add: o(3))
      from e(2) obtain j where "j < ?n" "?o ! j = e" unfolding in_set_conv_nth by blast
      then show False using none e(1) by blast
    qed
    then show ?thesis using Nil by (simp add: root(1) component_of_def root_of_constraint_def)
  next
    case (Cons i js)
    then have i: "i \<in> set (present ?ix (cons ! ci))" by simp
    have "ci \<in> set (constraint_indices c) \<longleftrightarrow> ci < length cons \<and> r i = root"
      by (simp add: root(1) component_of_def root_of_constraint_def Cons conj_commute)
    moreover have i_in: "i < ?n" "?o ! i \<in> set (cons ! ci)" "?o ! i \<in> set nodes"
      using i present_set o(3) nth_mem by blast+
    moreover have "r i = root \<longleftrightarrow> set (cons ! ci) \<inter> set nodes \<subseteq> set (comp_entities c)" if ci: "ci < length cons"
    proof
      assume root_i: "r i = root"
      show "set (cons ! ci) \<inter> set nodes \<subseteq> set (comp_entities c)"
      proof
        fix e
        assume "e \<in> set (cons ! ci) \<inter> set nodes"
        then have e: "e \<in> set (cons ! ci)" "e \<in> set ?o" by (simp_all add: o(3))
        from e(2) obtain j where j: "j < ?n" "?o ! j = e" unfolding in_set_conv_nth by blast
        then have "r j = root" using one_class [OF ci i, of j] present_set e(1) root_i by simp
        then show "e \<in> set (comp_entities c)" using here j by blast
      qed
    next
      assume "set (cons ! ci) \<inter> set nodes \<subseteq> set (comp_entities c)"
      then obtain j where "j < ?n" "r j = root" "?o ! i = ?o ! j" using i_in here by blast
      then show "r i = root" using i_in(1) o(2) nth_eq_iff_index_eq by metis
    qed
    ultimately show ?thesis by blast
  qed
qed

theorem constraints_within_components_witness:
  "\<exists>cs c. connected_components [Point 3, Point 1, Point 2] [] [[Point 3, Point 1], [Line 9]] = Some cs \<and>
    c \<in> set cs \<and> Point 1 \<in> set (comp_entities c) \<and> (0 \<in> set (constraint_indices c) \<longleftrightarrow> Point 3 \<in> set (comp_entities c))"
proof -
  let ?cons = "[[Point 3, Point 1], [Line 9]]" and ?nodes = "[Point 3, Point 1, Point 2]"
  obtain cs where cs: "connected_components ?nodes [] ?cons = Some cs"
      and all: "(\<Union>c \<in> set cs. set (comp_entities c)) = set ?nodes"
    using components_of_graph [of ?nodes "[]" ?cons] by blast
  then obtain c where c: "c \<in> set cs" "Point 1 \<in> set (comp_entities c)" by auto
  have "0 \<in> set (constraint_indices c) \<longleftrightarrow> Point 3 \<in> set (comp_entities c)"
    using constraints_within_components [OF cs c(1), of 0] c(2) by auto
  then show ?thesis using cs c by blast
qed

end
