(* ===== verification/F64.thy ===== *)
theory F64
  imports Timeline_Types
begin

text \<open>
  The arithmetic of \<^verbatim>\<open>f64\<close> the sketch code uses: IEEE 754 binary64, on the 64 bits of a number.

  A finite number is a whole number of units of \<open>2 ^ -1074\<close>, the smallest positive double; sums,
  differences and remainders are computed exactly in these units and rounded to the nearest double,
  ties to even. The lemmas show that rounding keeps what is representable.
\<close>

section \<open>Classes of numbers\<close>

definition f64_magnitude :: "f64 \<Rightarrow> nat" where
  "f64_magnitude x = unat x mod 2 ^ 63"

definition f64_negative :: "f64 \<Rightarrow> bool" where
  "f64_negative x \<longleftrightarrow> 2 ^ 63 \<le> unat x"

definition f64_infinity :: nat where
  "f64_infinity = 2047 * 2 ^ 52"

definition is_nan :: "f64 \<Rightarrow> bool" where
  "is_nan x \<longleftrightarrow> f64_infinity < f64_magnitude x"

definition is_infinite :: "f64 \<Rightarrow> bool" where
  "is_infinite x \<longleftrightarrow> f64_magnitude x = f64_infinity"

definition is_finite :: "f64 \<Rightarrow> bool" where
  "is_finite x \<longleftrightarrow> f64_magnitude x < f64_infinity"

definition f64_of :: "bool \<Rightarrow> nat \<Rightarrow> f64" where
  "f64_of neg mag = word_of_nat ((if neg then 2 ^ 63 else 0) + mag)"

definition f64_nan :: f64 where
  "f64_nan = f64_of False (f64_infinity + 2 ^ 51)"

section \<open>Units and rounding\<close>

text \<open>A magnitude with exponent field \<open>e\<close> counts in steps of \<open>2 ^ (e - 1)\<close> units, and the fields
  0 and 1 in single units.\<close>

definition mag_units :: "nat \<Rightarrow> nat" where
  "mag_units mag = (let k = mag div 2 ^ 52 - 1 in (mag - k * 2 ^ 52) * 2 ^ k)"

fun bit_length :: "nat \<Rightarrow> nat" where
  "bit_length n = (if n = 0 then 0 else Suc (bit_length (n div 2)))"

declare bit_length.simps [simp del]

definition round_half_even :: "nat \<Rightarrow> nat \<Rightarrow> nat" where
  "round_half_even n k =
     (let q = n div 2 ^ k; r = n mod 2 ^ k
      in if 2 ^ k < 2 * r \<or> 2 * r = 2 ^ k \<and> odd q then q + 1 else q)"

definition round_units :: "nat \<Rightarrow> nat" where
  "round_units n = (let k = bit_length n - 53 in min f64_infinity (k * 2 ^ 52 + round_half_even n k))"

definition f64_units :: "f64 \<Rightarrow> int" where
  "f64_units x = (if f64_negative x then - int (mag_units (f64_magnitude x)) else int (mag_units (f64_magnitude x)))"

text \<open>\<open>zero_sign\<close> is the sign an exact zero gets.\<close>

definition f64_round :: "bool \<Rightarrow> int \<Rightarrow> f64" where
  "f64_round zero_sign n =
     (if n = 0 then f64_of zero_sign 0 else f64_of (n < 0) (round_units (nat \<bar>n\<bar>)))"

section \<open>Operations\<close>

definition f64_abs :: "f64 \<Rightarrow> f64" where
  "f64_abs x = f64_of False (f64_magnitude x)"

definition f64_neg :: "f64 \<Rightarrow> f64" where
  "f64_neg x = f64_of (\<not> f64_negative x) (f64_magnitude x)"

definition f64_add :: "f64 \<Rightarrow> f64 \<Rightarrow> f64" where
  "f64_add x y =
     (if is_nan x \<or> is_nan y then f64_nan
      else if is_infinite x then
        (if is_infinite y \<and> f64_negative x \<noteq> f64_negative y then f64_nan else x)
      else if is_infinite y then y
      else f64_round (f64_negative x \<and> f64_negative y) (f64_units x + f64_units y))"

definition f64_sub :: "f64 \<Rightarrow> f64 \<Rightarrow> f64" where
  "f64_sub x y = f64_add x (f64_neg y)"

text \<open>\<^verbatim>\<open>2.0 * x\<close>.\<close>

definition f64_double :: "f64 \<Rightarrow> f64" where
  "f64_double x = f64_add x x"

text \<open>\<^verbatim>\<open>x % y\<close> for a finite, positive \<open>y\<close>, with the sign of \<open>x\<close>, and \<^verbatim>\<open>rem_euclid\<close>.\<close>

definition f64_rem :: "f64 \<Rightarrow> f64 \<Rightarrow> f64" where
  "f64_rem x y =
     (if is_nan x \<or> is_infinite x then f64_nan
      else f64_round (f64_negative x)
        (if f64_negative x then - (\<bar>f64_units x\<bar> mod \<bar>f64_units y\<bar>) else \<bar>f64_units x\<bar> mod \<bar>f64_units y\<bar>))"

definition f64_ord :: "f64 \<Rightarrow> int" where
  "f64_ord x = (if f64_negative x then - int (f64_magnitude x) else int (f64_magnitude x))"

definition f64_lt :: "f64 \<Rightarrow> f64 \<Rightarrow> bool" where
  "f64_lt x y \<longleftrightarrow> \<not> is_nan x \<and> \<not> is_nan y \<and> f64_ord x < f64_ord y"

definition f64_le :: "f64 \<Rightarrow> f64 \<Rightarrow> bool" where
  "f64_le x y \<longleftrightarrow> \<not> is_nan x \<and> \<not> is_nan y \<and> f64_ord x \<le> f64_ord y"

definition f64_eq :: "f64 \<Rightarrow> f64 \<Rightarrow> bool" where
  "f64_eq x y \<longleftrightarrow> \<not> is_nan x \<and> \<not> is_nan y \<and> f64_ord x = f64_ord y"

definition f64_min :: "f64 \<Rightarrow> f64 \<Rightarrow> f64" where
  "f64_min x y = (if is_nan x then y else if is_nan y then x else if f64_ord x \<le> f64_ord y then x else y)"

definition rem_euclid :: "f64 \<Rightarrow> f64 \<Rightarrow> f64" where
  "rem_euclid x y =
     (let r = f64_rem x y in if f64_lt r 0 then f64_add r (f64_abs y) else r)"

section \<open>What is representable is kept\<close>

lemma mag_lt: "f64_magnitude x < 2 ^ 63"
  by (simp add: f64_magnitude_def)

lemma unat_f64_of: "m < 2 ^ 63 \<Longrightarrow> unat (f64_of neg m) = (if neg then 2 ^ 63 else 0) + m"
proof -
  assume "m < 2 ^ 63"
  then have "(if neg then 2 ^ 63 else 0) + m < (2 ^ 64 :: nat)" by auto
  then show ?thesis unfolding f64_of_def unat_of_nat by (subst mod_less) simp_all
qed

lemma magnitude_of [simp]: "m < 2 ^ 63 \<Longrightarrow> f64_magnitude (f64_of neg m) = m"
  by (auto simp: f64_magnitude_def unat_f64_of)

lemma negative_of [simp]: "m < 2 ^ 63 \<Longrightarrow> f64_negative (f64_of neg m) = neg"
  by (auto simp: f64_negative_def unat_f64_of)

lemma infinity_lt: "f64_infinity < 2 ^ 63"
  by (simp add: f64_infinity_def)

lemma finite_classes: "is_finite x \<Longrightarrow> \<not> is_nan x" "is_finite x \<Longrightarrow> \<not> is_infinite x"
  by (simp_all add: is_finite_def is_nan_def is_infinite_def)

lemma magnitude_neg [simp]: "f64_magnitude (f64_neg x) = f64_magnitude x"
  using mag_lt by (simp add: f64_neg_def)

lemma negative_neg [simp]: "f64_negative (f64_neg x) \<longleftrightarrow> \<not> f64_negative x"
  using mag_lt by (simp add: f64_neg_def)

lemma units_neg [simp]: "f64_units (f64_neg x) = - f64_units x"
  by (simp add: f64_units_def)

lemma finite_neg [simp]: "is_finite (f64_neg x) \<longleftrightarrow> is_finite x"
  by (simp add: is_finite_def)

lemma add_finite:
  "is_finite x \<Longrightarrow> is_finite y \<Longrightarrow>
   f64_add x y = f64_round (f64_negative x \<and> f64_negative y) (f64_units x + f64_units y)"
  by (simp add: f64_add_def finite_classes)

lemma sub_equal:
  "is_finite x \<Longrightarrow> is_finite y \<Longrightarrow> f64_units x = f64_units y \<Longrightarrow> f64_magnitude (f64_sub x y) = 0"
  by (simp add: f64_sub_def add_finite f64_round_def)

lemma mag_units_0: "mag_units m = 0 \<longleftrightarrow> m = 0"
proof -
  have "(m div 2 ^ 52 - 1) * 2 ^ 52 < m" if "m > 0"
    using that div_times_less_eq_dividend [of m "2 ^ 52"] by (cases "m div 2 ^ 52") auto
  then show ?thesis by (auto simp: mag_units_def Let_def)
qed

lemma units_0: "f64_units x = 0 \<longleftrightarrow> f64_magnitude x = 0"
  by (simp add: f64_units_def mag_units_0)

lemma bit_length_less: "n < 2 ^ k \<Longrightarrow> bit_length n \<le> k"
proof (induction k arbitrary: n)
  case 0
  then show ?case by (simp add: bit_length.simps)
next
  case (Suc k)
  then have "n div 2 < 2 ^ k" by auto
  then show ?case using Suc.IH [of "n div 2"] by (subst bit_length.simps) simp
qed

lemma bit_length_eq: "2 ^ k \<le> n \<Longrightarrow> n < 2 ^ Suc k \<Longrightarrow> bit_length n = Suc k"
proof (induction k arbitrary: n)
  case 0
  then have "n = 1" by simp
  then show ?case by (simp add: bit_length.simps)
next
  case (Suc k)
  have "2 ^ k \<le> n div 2" "n div 2 < 2 ^ Suc k" using Suc.prems by auto
  then have "bit_length (n div 2) = Suc k" by (rule Suc.IH)
  moreover have "n \<noteq> 0" using Suc.prems(1) by (metis not_le zero_less_numeral zero_less_power)
  ultimately show ?case by (subst bit_length.simps) simp
qed

lemma round_exact: "round_half_even (m * 2 ^ k) k = m"
  by (simp add: round_half_even_def)

text \<open>Rounding the value of a finite double gives it back.\<close>

lemma round_mag_units:
  assumes "m < f64_infinity"
  shows "round_units (mag_units m) = m"
proof (cases "m < 2 ^ 53")
  case True
  then have u: "mag_units m = m" by (auto simp: mag_units_def Let_def)
  have "bit_length m - 53 = 0" using bit_length_less [OF True] by simp
  then show ?thesis
    using assms round_exact [of m 0] by (simp add: round_units_def u Let_def)
next
  case False
  define k where "k = m div 2 ^ 52 - 1"
  define f where "f = m mod 2 ^ 52"
  have "2 ^ 53 div 2 ^ 52 \<le> m div (2 ^ 52 :: nat)" using False by (intro div_le_mono) simp
  then have div: "m div 2 ^ 52 = Suc k" by (simp add: k_def)
  then have m: "m = Suc k * 2 ^ 52 + f" using div_mult_mod_eq [of m "2 ^ 52"] by (simp add: f_def)
  have f: "f < 2 ^ 52" by (simp add: f_def)
  have u: "mag_units m = (2 ^ 52 + f) * 2 ^ k"
    unfolding mag_units_def Let_def k_def [symmetric] by (simp add: m)
  have "(2 ^ 52 + f) * 2 ^ k < 2 ^ 53 * (2 ^ k :: nat)" using f by (intro mult_strict_right_mono) simp_all
  then have lt: "mag_units m < 2 ^ Suc (52 + k)" by (simp add: u power_add)
  have "2 ^ 52 * 2 ^ k \<le> (2 ^ 52 + f) * (2 ^ k :: nat)" by (intro mult_right_mono) simp_all
  then have ge: "2 ^ (52 + k) \<le> mag_units m" by (simp add: u power_add)
  have "bit_length (mag_units m) - 53 = k" using bit_length_eq [OF ge lt] by simp
  then have "round_units (mag_units m) = min f64_infinity (k * 2 ^ 52 + (2 ^ 52 + f))"
    by (simp only: round_units_def Let_def u round_exact)
  also have "k * 2 ^ 52 + (2 ^ 52 + f) = m" by (simp add: m)
  finally show ?thesis using assms by simp
qed

lemma round_finite:
  assumes "is_finite x"
  shows "is_finite (f64_round z (f64_units x))" and "f64_units (f64_round z (f64_units x)) = f64_units x"
proof -
  have fin: "f64_magnitude x < f64_infinity" using assms by (simp add: is_finite_def)
  have lt: "f64_magnitude x < 2 ^ 63" using mag_lt .
  show "is_finite (f64_round z (f64_units x))" and "f64_units (f64_round z (f64_units x)) = f64_units x"
    using round_mag_units [OF fin] lt fin mag_units_0 [of "f64_magnitude x"] mag_units_0 [of 0]
    by (auto simp: f64_round_def is_finite_def f64_units_def f64_infinity_def)
qed

lemma double_exact:
  assumes "is_finite r" "is_finite d" "f64_units d = 2 * f64_units r"
  shows "is_finite (f64_double r)" and "f64_units (f64_double r) = f64_units d"
  using round_finite [OF assms(2)] assms(1,3) by (simp_all add: f64_double_def add_finite)

end
