(* ===== verification/Sketch_Constraints.thy ===== *)
theory Sketch_Constraints
  imports F64 Sketch_Components
begin

text \<open>
  \<^verbatim>\<open>geometry-engine/src/sketch2d/constraints.rs\<close>, the constraints: their kinds, the entity shapes
  the kernel defines for each kind, the degrees of freedom a constraint removes, and the edit of a
  dimension.
\<close>

section \<open>Kinds of entities\<close>

fun kind_name :: "entity_ref \<Rightarrow> string" where
  "kind_name (Point _) = ''point''"
| "kind_name (Line _) = ''line''"
| "kind_name (Arc _) = ''arc''"
| "kind_name (Circle _) = ''circle''"
| "kind_name (Rectangle _) = ''rectangle''"
| "kind_name (Ellipse _) = ''ellipse''"
| "kind_name (Spline _) = ''spline''"
| "kind_name (Polyline _) = ''polyline''"

fun is_point :: "entity_ref \<Rightarrow> bool" where
  "is_point (Point _) = True"
| "is_point _ = False"

fun is_line :: "entity_ref \<Rightarrow> bool" where
  "is_line (Line _) = True"
| "is_line _ = False"

fun is_arc :: "entity_ref \<Rightarrow> bool" where
  "is_arc (Arc _) = True"
| "is_arc _ = False"

fun is_rectangle :: "entity_ref \<Rightarrow> bool" where
  "is_rectangle (Rectangle _) = True"
| "is_rectangle _ = False"

fun is_ellipse :: "entity_ref \<Rightarrow> bool" where
  "is_ellipse (Ellipse _) = True"
| "is_ellipse _ = False"

fun is_spline :: "entity_ref \<Rightarrow> bool" where
  "is_spline (Spline _) = True"
| "is_spline _ = False"

fun has_point_position :: "entity_ref \<Rightarrow> bool" where
  "has_point_position (Point _) = True"
| "has_point_position (Circle _) = True"
| "has_point_position (Arc _) = True"
| "has_point_position (Rectangle _) = True"
| "has_point_position (Ellipse _) = True"
| "has_point_position _ = False"

fun is_coincidence_anchor :: "entity_ref \<Rightarrow> bool" where
  "is_coincidence_anchor (Point _) = True"
| "is_coincidence_anchor (Circle _) = True"
| "is_coincidence_anchor (Arc _) = True"
| "is_coincidence_anchor _ = False"

fun has_centre :: "entity_ref \<Rightarrow> bool" where
  "has_centre (Circle _) = True"
| "has_centre (Arc _) = True"
| "has_centre (Rectangle _) = True"
| "has_centre (Ellipse _) = True"
| "has_centre _ = False"

fun is_round :: "entity_ref \<Rightarrow> bool" where
  "is_round (Circle _) = True"
| "is_round (Arc _) = True"
| "is_round _ = False"

fun is_curve :: "entity_ref \<Rightarrow> bool" where
  "is_curve (Line _) = True"
| "is_curve (Circle _) = True"
| "is_curve (Arc _) = True"
| "is_curve (Spline _) = True"
| "is_curve (Polyline _) = True"
| "is_curve _ = False"

fun has_tangent_frame :: "entity_ref \<Rightarrow> bool" where
  "has_tangent_frame (Line _) = True"
| "has_tangent_frame (Circle _) = True"
| "has_tangent_frame (Arc _) = True"
| "has_tangent_frame (Spline _) = True"
| "has_tangent_frame _ = False"

fun has_area :: "entity_ref \<Rightarrow> bool" where
  "has_area (Circle _) = True"
| "has_area (Rectangle _) = True"
| "has_area (Ellipse _) = True"
| "has_area _ = False"

section \<open>Constraints\<close>

datatype geometric_constraint =
    Coincident | Parallel | Perpendicular | Tangent | Concentric | Equal | Horizontal | Vertical
  | Symmetric | PointOnCurve | Midpoint | Collinear | SmoothTangent | CurvatureContinuity | Offset
  | MultiTangent | EqualArea | EqualPerimeter | Centroid | CurvatureExtremum
  | IntersectionAngle f64 | ContactConstraint

datatype dimensional_constraint =
    Distance f64 | Angle f64 | Radius f64 | Diameter f64 | Length f64 | XCoordinate f64
  | YCoordinate f64 | Area f64 | Perimeter f64 | ArcLength f64 | Curvature f64 | Slope f64
  | OffsetDistance f64 | AspectRatio f64 | MinDistance f64 | MaxDistance f64 | MomentOfInertia f64
  | CenterOfMass f64 f64

datatype constraint_type =
    Geometric geometric_constraint
  | Dimensional dimensional_constraint

datatype constraint_status =
    Satisfied
  | Violated f64 "f64 option"
  | Disabled
  | Conflicting

datatype constraint_priority = Required | High | Medium | Low

datatype constraint_id = ConstraintId uuid

record sketch_constraint =
  con_id :: constraint_id
  con_type :: constraint_type
  con_entities :: "entity_ref list"
  con_priority :: constraint_priority
  con_status :: constraint_status
  con_name :: "string option"
  con_sequence :: nat

definition UNSEQUENCED :: nat where
  "UNSEQUENCED = 0"

definition new_geometric ::
  "constraint_id \<Rightarrow> geometric_constraint \<Rightarrow> entity_ref list \<Rightarrow> constraint_priority \<Rightarrow> sketch_constraint" where
  "new_geometric i g es p =
     \<lparr>con_id = i, con_type = Geometric g, con_entities = es, con_priority = p,
      con_status = Satisfied, con_name = None, con_sequence = UNSEQUENCED\<rparr>"

definition new_dimensional ::
  "constraint_id \<Rightarrow> dimensional_constraint \<Rightarrow> entity_ref list \<Rightarrow> constraint_priority \<Rightarrow> sketch_constraint" where
  "new_dimensional i d es p =
     \<lparr>con_id = i, con_type = Dimensional d, con_entities = es, con_priority = p,
      con_status = Satisfied, con_name = None, con_sequence = UNSEQUENCED\<rparr>"

definition involves_entity :: "sketch_constraint \<Rightarrow> entity_ref \<Rightarrow> bool" where
  "involves_entity c e \<longleftrightarrow> e \<in> set (con_entities c)"

section \<open>Shapes\<close>

fun geometric_shape :: "geometric_constraint \<Rightarrow> entity_ref list \<Rightarrow> bool" where
  "geometric_shape Coincident e =
     (case e of
        [a, b] \<Rightarrow> is_coincidence_anchor a \<and> is_coincidence_anchor b \<and> (is_point a \<or> is_point b)
      | _ \<Rightarrow> False)"
| "geometric_shape Parallel e = (case e of [a, b] \<Rightarrow> is_line a \<and> is_line b | _ \<Rightarrow> False)"
| "geometric_shape Perpendicular e = (case e of [a, b] \<Rightarrow> is_line a \<and> is_line b | _ \<Rightarrow> False)"
| "geometric_shape Horizontal e = (case e of [a] \<Rightarrow> is_line a | _ \<Rightarrow> False)"
| "geometric_shape Vertical e = (case e of [a] \<Rightarrow> is_line a | _ \<Rightarrow> False)"
| "geometric_shape Tangent e =
     (case e of [a, b] \<Rightarrow> is_line a \<and> is_round b \<or> is_round a \<and> is_line b | _ \<Rightarrow> False)"
| "geometric_shape Concentric e = (case e of [a, b] \<Rightarrow> has_centre a \<and> has_centre b | _ \<Rightarrow> False)"
| "geometric_shape Equal e =
     (case e of
        [a, b] \<Rightarrow> is_line a \<and> is_line b \<or> is_rectangle a \<and> is_rectangle b
          \<or> is_ellipse a \<and> is_ellipse b \<or> is_round a \<and> is_round b
      | _ \<Rightarrow> False)"
| "geometric_shape Symmetric e =
     (case e of
        [a, b, l] \<Rightarrow> has_point_position a \<and> has_point_position b \<and> is_line l
      | _ \<Rightarrow> False)"
| "geometric_shape PointOnCurve e =
     (case e of [a, b] \<Rightarrow> has_point_position a \<and> is_curve b | _ \<Rightarrow> False)"
| "geometric_shape Midpoint e =
     (case e of [a, b] \<Rightarrow> has_point_position a \<and> is_line b | _ \<Rightarrow> False)"
| "geometric_shape Collinear e =
     (case e of
        [a, b, c] \<Rightarrow> has_point_position a \<and> has_point_position b \<and> has_point_position c
      | _ \<Rightarrow> False)"
| "geometric_shape SmoothTangent e =
     (case e of
        [a, b] \<Rightarrow> has_tangent_frame a \<and> has_tangent_frame b
      | [a, b, p] \<Rightarrow> has_tangent_frame a \<and> has_tangent_frame b \<and> is_point p
      | _ \<Rightarrow> False)"
| "geometric_shape CurvatureContinuity e =
     (case e of
        [a, b] \<Rightarrow> has_tangent_frame a \<and> has_tangent_frame b
      | [a, b, p] \<Rightarrow> has_tangent_frame a \<and> has_tangent_frame b \<and> is_point p
      | _ \<Rightarrow> False)"
| "geometric_shape EqualArea e = (case e of [a, b] \<Rightarrow> has_area a \<and> has_area b | _ \<Rightarrow> False)"
| "geometric_shape EqualPerimeter e = (case e of [a, b] \<Rightarrow> has_area a \<and> has_area b | _ \<Rightarrow> False)"
| "geometric_shape Centroid e =
     (case e of [a, b] \<Rightarrow> has_point_position a \<and> has_centre b | _ \<Rightarrow> False)"
| "geometric_shape (IntersectionAngle _) e =
     (case e of
        [a, b] \<Rightarrow> is_line a \<and> is_line b
      | [a, b, p] \<Rightarrow> is_line a \<and> is_line b \<and> is_point p
      | _ \<Rightarrow> False)"
| "geometric_shape Offset e =
     (case e of [a, b] \<Rightarrow> is_line a \<and> is_line b \<or> is_round a \<and> is_round b | _ \<Rightarrow> False)"
| "geometric_shape MultiTangent e =
     (case e of a # rest \<Rightarrow> is_line a \<and> rest \<noteq> [] \<and> list_all is_round rest | _ \<Rightarrow> False)"
| "geometric_shape CurvatureExtremum e = (case e of [a, b] \<Rightarrow> is_spline a \<and> is_point b | _ \<Rightarrow> False)"
| "geometric_shape ContactConstraint e = True"

definition two_positions :: "entity_ref list \<Rightarrow> bool" where
  "two_positions e \<longleftrightarrow>
     (case e of [a, b] \<Rightarrow> has_point_position a \<and> has_point_position b | _ \<Rightarrow> False)"

fun dimensional_shape :: "dimensional_constraint \<Rightarrow> entity_ref list \<Rightarrow> bool" where
  "dimensional_shape (Distance _) e = two_positions e"
| "dimensional_shape (MinDistance _) e = two_positions e"
| "dimensional_shape (MaxDistance _) e = two_positions e"
| "dimensional_shape (Angle _) e =
     (case e of
        [a, b] \<Rightarrow> is_line a \<and> is_line b
      | [a, b, p] \<Rightarrow> is_line a \<and> is_line b \<and> is_point p
      | _ \<Rightarrow> False)"
| "dimensional_shape (Radius _) e = (case e of [a] \<Rightarrow> is_round a | _ \<Rightarrow> False)"
| "dimensional_shape (Diameter _) e = (case e of [a] \<Rightarrow> is_round a | _ \<Rightarrow> False)"
| "dimensional_shape (Length _) e = (case e of [a] \<Rightarrow> is_line a | _ \<Rightarrow> False)"
| "dimensional_shape (Slope _) e = (case e of [a] \<Rightarrow> is_line a | _ \<Rightarrow> False)"
| "dimensional_shape (XCoordinate _) e = (case e of [a] \<Rightarrow> has_point_position a | _ \<Rightarrow> False)"
| "dimensional_shape (YCoordinate _) e = (case e of [a] \<Rightarrow> has_point_position a | _ \<Rightarrow> False)"
| "dimensional_shape (Area _) e = (case e of [a] \<Rightarrow> has_area a | _ \<Rightarrow> False)"
| "dimensional_shape (Perimeter _) e = (case e of [a] \<Rightarrow> has_area a | _ \<Rightarrow> False)"
| "dimensional_shape (ArcLength _) e =
     (case e of
        [a] \<Rightarrow> is_round a
      | [a, p, q] \<Rightarrow> is_arc a \<and> is_point p \<and> is_point q
      | _ \<Rightarrow> False)"
| "dimensional_shape (Curvature _) e =
     (case e of
        [a] \<Rightarrow> is_round a \<or> is_line a
      | [a, p] \<Rightarrow> has_tangent_frame a \<and> is_point p
      | _ \<Rightarrow> False)"
| "dimensional_shape (AspectRatio _) e = (case e of [a] \<Rightarrow> is_rectangle a \<or> is_ellipse a | _ \<Rightarrow> False)"
| "dimensional_shape (CenterOfMass _ _) e = (case e of [a] \<Rightarrow> has_centre a | _ \<Rightarrow> False)"
| "dimensional_shape (OffsetDistance _) e =
     (case e of [a, b] \<Rightarrow> is_line a \<and> is_line b \<or> is_round a \<and> is_round b | _ \<Rightarrow> False)"
| "dimensional_shape (MomentOfInertia _) e = True"

definition shape_is_defined :: "sketch_constraint \<Rightarrow> bool" where
  "shape_is_defined c =
     (case con_type c of
        Geometric g \<Rightarrow> geometric_shape g (con_entities c)
      | Dimensional d \<Rightarrow> dimensional_shape d (con_entities c))"

fun geometric_expected_shape :: "geometric_constraint \<Rightarrow> string" where
  "geometric_expected_shape Coincident =
     ''exactly 2 entities, at least one a point, the other a point, circle or arc '' @
     ''(a circle or arc means its CENTRE); for two circles or arcs use Concentric, '' @
     ''for a point ON a curve use PointOnCurve''"
| "geometric_expected_shape Parallel = ''exactly 2 lines''"
| "geometric_expected_shape Perpendicular = ''exactly 2 lines''"
| "geometric_expected_shape Horizontal = ''exactly 1 line''"
| "geometric_expected_shape Vertical = ''exactly 1 line''"
| "geometric_expected_shape Tangent = ''exactly 2 entities: 1 line and 1 circle or arc''"
| "geometric_expected_shape Concentric =
     ''exactly 2 entities with a centre (circle, arc, rectangle, ellipse)''"
| "geometric_expected_shape Equal =
     ''exactly 2 entities of comparable dimension: 2 lines, '' @
     ''2 circles or arcs, 2 rectangles, or 2 ellipses''"
| "geometric_expected_shape Symmetric = ''exactly 3 entities: 2 with a position and a line axis''"
| "geometric_expected_shape PointOnCurve =
     ''exactly 2 entities: 1 with a position and 1 curve '' @ ''(line, circle, arc, spline, polyline)''"
| "geometric_expected_shape Midpoint = ''exactly 2 entities: 1 with a position and 1 line''"
| "geometric_expected_shape Collinear = ''exactly 3 entities, each with a position''"
| "geometric_expected_shape SmoothTangent =
     ''2 lines, circles, arcs or splines, optionally followed by the join point''"
| "geometric_expected_shape CurvatureContinuity =
     ''2 lines, circles, arcs or splines, optionally followed by the join point''"
| "geometric_expected_shape EqualArea =
     ''exactly 2 entities enclosing an area (circle, rectangle, ellipse)''"
| "geometric_expected_shape EqualPerimeter =
     ''exactly 2 entities enclosing an area (circle, rectangle, ellipse)''"
| "geometric_expected_shape Centroid = ''exactly 2 entities: 1 with a position and 1 with a centre''"
| "geometric_expected_shape (IntersectionAngle _) =
     ''2 lines, optionally followed by the intersection point''"
| "geometric_expected_shape Offset = ''exactly 2 lines, or 2 circles or arcs''"
| "geometric_expected_shape MultiTangent = ''1 line followed by 1 or more circles or arcs''"
| "geometric_expected_shape CurvatureExtremum = ''exactly 1 spline and 1 point''"
| "geometric_expected_shape ContactConstraint = ''any entities''"

fun dimensional_expected_shape :: "dimensional_constraint \<Rightarrow> string" where
  "dimensional_expected_shape (Distance _) =
     ''exactly 2 entities with a position (point, circle, arc, rectangle, ellipse)''"
| "dimensional_expected_shape (MinDistance _) =
     ''exactly 2 entities with a position (point, circle, arc, rectangle, ellipse)''"
| "dimensional_expected_shape (MaxDistance _) =
     ''exactly 2 entities with a position (point, circle, arc, rectangle, ellipse)''"
| "dimensional_expected_shape (Angle _) = ''2 lines, optionally followed by the intersection point''"
| "dimensional_expected_shape (Radius _) = ''exactly 1 circle or arc''"
| "dimensional_expected_shape (Diameter _) = ''exactly 1 circle or arc''"
| "dimensional_expected_shape (Length _) = ''exactly 1 line''"
| "dimensional_expected_shape (Slope _) = ''exactly 1 line''"
| "dimensional_expected_shape (XCoordinate _) = ''exactly 1 entity with a position''"
| "dimensional_expected_shape (YCoordinate _) = ''exactly 1 entity with a position''"
| "dimensional_expected_shape (Area _) =
     ''exactly 1 entity enclosing an area (circle, rectangle, ellipse)''"
| "dimensional_expected_shape (Perimeter _) =
     ''exactly 1 entity enclosing an area (circle, rectangle, ellipse)''"
| "dimensional_expected_shape (ArcLength _) = ''1 circle or arc, or 1 arc followed by 2 points''"
| "dimensional_expected_shape (Curvature _) =
     ''1 line, circle or arc, or 1 line, circle, arc or spline '' @ ''followed by 1 point''"
| "dimensional_expected_shape (AspectRatio _) = ''exactly 1 rectangle or ellipse''"
| "dimensional_expected_shape (CenterOfMass _ _) = ''exactly 1 entity with a centre''"
| "dimensional_expected_shape (OffsetDistance _) = ''exactly 2 lines, or 2 circles or arcs''"
| "dimensional_expected_shape (MomentOfInertia _) = ''any entities''"

definition expected_shape :: "sketch_constraint \<Rightarrow> string" where
  "expected_shape c =
     (case con_type c of
        Geometric g \<Rightarrow> geometric_expected_shape g
      | Dimensional d \<Rightarrow> dimensional_expected_shape d)"

definition entity_kind_names :: "sketch_constraint \<Rightarrow> string list" where
  "entity_kind_names c = map kind_name (con_entities c)"

text \<open>The refusal: the constraint's type (the code prints it with \<^verbatim>\<open>{:?}\<close>), the shape expected and
  the kinds supplied.\<close>

datatype shape_error = UndefinedConstraintShape constraint_type string string

fun join_comma :: "string list \<Rightarrow> string" where
  "join_comma [] = ''''"
| "join_comma [s] = s"
| "join_comma (s # t # ss) = s @ '', '' @ join_comma (t # ss)"

definition validate_shape :: "sketch_constraint \<Rightarrow> (shape_error, unit) result" where
  "validate_shape c =
     (if shape_is_defined c then Ok ()
      else Err (UndefinedConstraintShape (con_type c) (expected_shape c) (join_comma (entity_kind_names c))))"

section \<open>Degrees of freedom\<close>

fun geometric_dof :: "geometric_constraint \<Rightarrow> entity_ref list \<Rightarrow> nat" where
  "geometric_dof Coincident e = 2"
| "geometric_dof Parallel e = 1"
| "geometric_dof Perpendicular e = 1"
| "geometric_dof Tangent e = 1"
| "geometric_dof Concentric e = 2"
| "geometric_dof Equal e =
     (case e of
        [a, b] \<Rightarrow> if is_rectangle a \<and> is_rectangle b \<or> is_ellipse a \<and> is_ellipse b then 2 else 1
      | _ \<Rightarrow> 1)"
| "geometric_dof Horizontal e = 1"
| "geometric_dof Vertical e = 1"
| "geometric_dof Symmetric e =
     (case e of [a, b, _] \<Rightarrow> if is_arc a \<and> is_arc b then 4 else 2 | _ \<Rightarrow> 2)"
| "geometric_dof PointOnCurve e = 1"
| "geometric_dof Midpoint e = 2"
| "geometric_dof Collinear e = 1"
| "geometric_dof SmoothTangent e = 1"
| "geometric_dof CurvatureContinuity e = 2"
| "geometric_dof EqualArea e = 1"
| "geometric_dof EqualPerimeter e = 1"
| "geometric_dof Centroid e = 2"
| "geometric_dof (IntersectionAngle _) e = 1"
| "geometric_dof Offset e =
     (case e of
        [a, b] \<Rightarrow> if is_line a \<and> is_line b then 3 else if is_round a \<and> is_round b then 2 else 0
      | _ \<Rightarrow> 0)"
| "geometric_dof MultiTangent e =
     (case e of
        a # rest \<Rightarrow> if is_line a \<and> rest \<noteq> [] \<and> list_all is_round rest then length rest else 0
      | [] \<Rightarrow> 0)"
| "geometric_dof CurvatureExtremum e =
     (case e of [a, b] \<Rightarrow> if is_spline a \<and> is_point b then 1 else 0 | _ \<Rightarrow> 0)"
| "geometric_dof ContactConstraint e = 0"

fun dimensional_dof :: "dimensional_constraint \<Rightarrow> entity_ref list \<Rightarrow> nat" where
  "dimensional_dof (Distance _) e = 1"
| "dimensional_dof (Angle _) e = 1"
| "dimensional_dof (Radius _) e = 1"
| "dimensional_dof (Diameter _) e = 1"
| "dimensional_dof (Length _) e = 1"
| "dimensional_dof (XCoordinate _) e = 1"
| "dimensional_dof (YCoordinate _) e = 1"
| "dimensional_dof (Area _) e = 1"
| "dimensional_dof (Perimeter _) e = 1"
| "dimensional_dof (ArcLength _) e =
     (case e of
        [_] \<Rightarrow> 1
      | [a, p, q] \<Rightarrow> if is_arc a \<and> is_point p \<and> is_point q then 1 else 0
      | _ \<Rightarrow> 0)"
| "dimensional_dof (Curvature _) e = 1"
| "dimensional_dof (Slope _) e = 1"
| "dimensional_dof (AspectRatio _) e = 1"
| "dimensional_dof (CenterOfMass _ _) e = 2"
| "dimensional_dof (OffsetDistance _) e =
     (case e of
        [a, b] \<Rightarrow> if is_line a \<and> is_line b \<or> is_round a \<and> is_round b then 1 else 0
      | _ \<Rightarrow> 0)"
| "dimensional_dof (MinDistance _) e = 0"
| "dimensional_dof (MaxDistance _) e = 0"
| "dimensional_dof (MomentOfInertia _) e = 0"

definition degrees_of_freedom_removed :: "sketch_constraint \<Rightarrow> nat" where
  "degrees_of_freedom_removed c =
     (if \<not> shape_is_defined c then 0
      else case con_type c of
        Geometric g \<Rightarrow> geometric_dof g (con_entities c)
      | Dimensional d \<Rightarrow> dimensional_dof d (con_entities c))"

fun is_numerically_enforced :: "constraint_type \<Rightarrow> bool" where
  "is_numerically_enforced (Geometric ContactConstraint) = False"
| "is_numerically_enforced (Dimensional (MomentOfInertia _)) = False"
| "is_numerically_enforced _ = True"

fun is_inequality :: "constraint_type \<Rightarrow> bool" where
  "is_inequality (Dimensional (MinDistance _)) = True"
| "is_inequality (Dimensional (MaxDistance _)) = True"
| "is_inequality _ = False"

section \<open>Editing a dimension\<close>

datatype dimensional_update_error =
    DimensionNotFound constraint_id
  | NotDimensional constraint_id
  | UnsupportedVariant string
  | InvalidValue f64 string

definition require_positive :: "f64 \<Rightarrow> string \<Rightarrow> 'a \<Rightarrow> (dimensional_update_error, 'a) result" where
  "require_positive v kind x = (if f64_le v 0 then Err (InvalidValue v kind) else Ok x)"

fun set_scalar_finite ::
  "dimensional_constraint \<Rightarrow> f64 \<Rightarrow> (dimensional_update_error, dimensional_constraint) result" where
  "set_scalar_finite (Distance _) v = require_positive v ''distance must be > 0'' (Distance v)"
| "set_scalar_finite (Radius _) v = require_positive v ''radius must be > 0'' (Radius v)"
| "set_scalar_finite (Diameter _) v = require_positive v ''diameter must be > 0'' (Diameter v)"
| "set_scalar_finite (Length _) v = require_positive v ''length must be > 0'' (Length v)"
| "set_scalar_finite (Perimeter _) v = require_positive v ''perimeter must be > 0'' (Perimeter v)"
| "set_scalar_finite (Area _) v = require_positive v ''area must be > 0'' (Area v)"
| "set_scalar_finite (ArcLength _) v = require_positive v ''arc length must be > 0'' (ArcLength v)"
| "set_scalar_finite (OffsetDistance _) v =
     require_positive v ''offset distance must be > 0'' (OffsetDistance v)"
| "set_scalar_finite (AspectRatio _) v = require_positive v ''aspect ratio must be > 0'' (AspectRatio v)"
| "set_scalar_finite (MinDistance _) v = require_positive v ''min distance must be > 0'' (MinDistance v)"
| "set_scalar_finite (MaxDistance _) v = require_positive v ''max distance must be > 0'' (MaxDistance v)"
| "set_scalar_finite (MomentOfInertia _) v =
     require_positive v ''moment of inertia must be > 0'' (MomentOfInertia v)"
| "set_scalar_finite (Angle _) v = Ok (Angle v)"
| "set_scalar_finite (XCoordinate _) v = Ok (XCoordinate v)"
| "set_scalar_finite (YCoordinate _) v = Ok (YCoordinate v)"
| "set_scalar_finite (Curvature _) v = Ok (Curvature v)"
| "set_scalar_finite (Slope _) v = Ok (Slope v)"
| "set_scalar_finite (CenterOfMass _ _) v = Err (UnsupportedVariant ''CenterOfMass'')"

definition set_scalar ::
  "dimensional_constraint \<Rightarrow> f64 \<Rightarrow> (dimensional_update_error, dimensional_constraint) result" where
  "set_scalar d v =
     (if \<not> is_finite v then Err (InvalidValue v ''value must be a finite real number'')
      else set_scalar_finite d v)"

end
