(* ===== verification/Sketch_Store.thy ===== *)
theory Sketch_Store
  imports Sketch_Constraints
begin

text \<open>
  \<^verbatim>\<open>ConstraintStore\<close> of \<^verbatim>\<open>geometry-engine/src/sketch2d/constraints.rs\<close>: constraints by identifier, an
  index by entity, and the counter of insertions. Identifiers are drawn by the environment and are
  arguments.
\<close>

section \<open>The store\<close>

record constraint_store =
  constraints :: "(constraint_id, sketch_constraint) dmap"
  entity_constraints :: "(entity_ref, constraint_id list) dmap"
  constraint_groups :: "(string, constraint_id list) dmap"
  next_sequence :: nat

definition new_store :: constraint_store where
  "new_store = \<lparr>constraints = [], entity_constraints = [], constraint_groups = [], next_sequence = 1\<rparr>"

definition index_push ::
  "constraint_id \<Rightarrow> entity_ref \<Rightarrow> (entity_ref, constraint_id list) dmap \<Rightarrow> (entity_ref, constraint_id list) dmap" where
  "index_push i e ix = AList.update e (case map_of ix e of None \<Rightarrow> [i] | Some ids \<Rightarrow> ids @ [i]) ix"

definition add_constraint ::
  "constraint_store \<Rightarrow> sketch_constraint \<Rightarrow> constraint_store \<times> constraint_id" where
  "add_constraint s c =
     (let c' = c\<lparr>con_sequence := next_sequence s\<rparr>; i = con_id c'
      in (s\<lparr>next_sequence := wrapping_succ (next_sequence s),
            entity_constraints := fold (index_push i) (con_entities c') (entity_constraints s),
            constraints := AList.update i c' (constraints s)\<rparr>, i))"

definition remove_constraint ::
  "constraint_store \<Rightarrow> constraint_id \<Rightarrow> constraint_store \<times> sketch_constraint option" where
  "remove_constraint s i =
     (case map_of (constraints s) i of
        None \<Rightarrow> (s, None)
      | Some c \<Rightarrow>
          (s\<lparr>constraints := AList.delete i (constraints s),
             entity_constraints :=
               fold (\<lambda>e. modify_entry e (filter (\<lambda>j. j \<noteq> i))) (con_entities c) (entity_constraints s)\<rparr>,
           Some c))"

definition get_constraint :: "constraint_store \<Rightarrow> constraint_id \<Rightarrow> sketch_constraint option" where
  "get_constraint s i = map_of (constraints s) i"

definition get_entity_constraints :: "constraint_store \<Rightarrow> entity_ref \<Rightarrow> sketch_constraint list" where
  "get_entity_constraints s e =
     (case map_of (entity_constraints s) e of
        None \<Rightarrow> []
      | Some ids \<Rightarrow> List.map_filter (get_constraint s) ids)"

definition update_status ::
  "constraint_store \<Rightarrow> constraint_id \<Rightarrow> constraint_status \<Rightarrow> constraint_store" where
  "update_status s i st =
     s\<lparr>constraints := modify_entry i (\<lambda>c. c\<lparr>con_status := st\<rparr>) (constraints s)\<rparr>"

definition update_dimensional_value ::
  "constraint_store \<Rightarrow> constraint_id \<Rightarrow> f64 \<Rightarrow>
   constraint_store \<times> (dimensional_update_error, sketch_constraint) result" where
  "update_dimensional_value s i v =
     (case map_of (constraints s) i of
        None \<Rightarrow> (s, Err (DimensionNotFound i))
      | Some c \<Rightarrow>
     (case con_type c of
        Geometric _ \<Rightarrow> (s, Err (NotDimensional i))
      | Dimensional d \<Rightarrow>
     (case set_scalar d v of
        Inl e \<Rightarrow> (s, Err e)
      | Inr d' \<Rightarrow>
          let c' = c\<lparr>con_type := Dimensional d', con_status := Satisfied\<rparr>
          in (s\<lparr>constraints := modify_entry i (\<lambda>_. c') (constraints s)\<rparr>, Ok c'))))"

definition all_constraints :: "constraint_store \<Rightarrow> sketch_constraint list" where
  "all_constraints s = sort_key con_sequence (map snd (constraints s))"

text \<open>The derived equality of constraint types: the variant, and the values compared as floats.\<close>

fun dimension_variant :: "dimensional_constraint \<Rightarrow> nat" where
  "dimension_variant (Distance _) = 0"
| "dimension_variant (Angle _) = 1"
| "dimension_variant (Radius _) = 2"
| "dimension_variant (Diameter _) = 3"
| "dimension_variant (Length _) = 4"
| "dimension_variant (XCoordinate _) = 5"
| "dimension_variant (YCoordinate _) = 6"
| "dimension_variant (Area _) = 7"
| "dimension_variant (Perimeter _) = 8"
| "dimension_variant (ArcLength _) = 9"
| "dimension_variant (Curvature _) = 10"
| "dimension_variant (Slope _) = 11"
| "dimension_variant (OffsetDistance _) = 12"
| "dimension_variant (AspectRatio _) = 13"
| "dimension_variant (MinDistance _) = 14"
| "dimension_variant (MaxDistance _) = 15"
| "dimension_variant (MomentOfInertia _) = 16"
| "dimension_variant (CenterOfMass _ _) = 17"

fun dimension_values :: "dimensional_constraint \<Rightarrow> f64 list" where
  "dimension_values (Distance v) = [v]"
| "dimension_values (Angle v) = [v]"
| "dimension_values (Radius v) = [v]"
| "dimension_values (Diameter v) = [v]"
| "dimension_values (Length v) = [v]"
| "dimension_values (XCoordinate v) = [v]"
| "dimension_values (YCoordinate v) = [v]"
| "dimension_values (Area v) = [v]"
| "dimension_values (Perimeter v) = [v]"
| "dimension_values (ArcLength v) = [v]"
| "dimension_values (Curvature v) = [v]"
| "dimension_values (Slope v) = [v]"
| "dimension_values (OffsetDistance v) = [v]"
| "dimension_values (AspectRatio v) = [v]"
| "dimension_values (MinDistance v) = [v]"
| "dimension_values (MaxDistance v) = [v]"
| "dimension_values (MomentOfInertia v) = [v]"
| "dimension_values (CenterOfMass x y) = [x, y]"

definition type_eq :: "constraint_type \<Rightarrow> constraint_type \<Rightarrow> bool" where
  "type_eq t u =
     (case (t, u) of
        (Geometric g, Geometric h) \<Rightarrow>
          (case (g, h) of (IntersectionAngle v, IntersectionAngle w) \<Rightarrow> f64_eq v w | _ \<Rightarrow> g = h)
      | (Dimensional d, Dimensional e) \<Rightarrow>
          dimension_variant d = dimension_variant e \<and> list_all2 f64_eq (dimension_values d) (dimension_values e)
      | _ \<Rightarrow> False)"

definition get_by_type :: "constraint_store \<Rightarrow> constraint_type \<Rightarrow> sketch_constraint list" where
  "get_by_type s t = filter (\<lambda>c. type_eq (con_type c) t) (map snd (constraints s))"

definition clear_store :: "constraint_store \<Rightarrow> constraint_store" where
  "clear_store s = s\<lparr>constraints := [], entity_constraints := [], constraint_groups := []\<rparr>"

definition constraint_count :: "constraint_store \<Rightarrow> nat" where
  "constraint_count s = length (constraints s)"

definition add_symmetry_constraint ::
  "constraint_store \<Rightarrow> constraint_id \<Rightarrow> entity_ref \<Rightarrow> entity_ref \<Rightarrow> entity_ref \<Rightarrow> constraint_priority \<Rightarrow>
   constraint_store \<times> constraint_id" where
  "add_symmetry_constraint s i e1 e2 l p =
     (let c = (new_geometric i Symmetric [e1, e2, l] p)\<lparr>con_name := Some ''Symmetric about line''\<rparr>
      in (fst (add_constraint s c), con_id c))"

definition add_smooth_tangent_constraint ::
  "constraint_store \<Rightarrow> constraint_id \<Rightarrow> entity_ref \<Rightarrow> entity_ref \<Rightarrow> entity_ref \<Rightarrow> constraint_priority \<Rightarrow>
   constraint_store \<times> constraint_id" where
  "add_smooth_tangent_constraint s i c1 c2 q p =
     (let c = (new_geometric i SmoothTangent [c1, c2, q] p)\<lparr>con_name := Some ''G1 continuity between curves''\<rparr>
      in (fst (add_constraint s c), con_id c))"

definition add_curvature_continuity_constraint ::
  "constraint_store \<Rightarrow> constraint_id \<Rightarrow> entity_ref \<Rightarrow> entity_ref \<Rightarrow> entity_ref \<Rightarrow> constraint_priority \<Rightarrow>
   constraint_store \<times> constraint_id" where
  "add_curvature_continuity_constraint s i c1 c2 q p =
     (let c = (new_geometric i CurvatureContinuity [c1, c2, q] p)\<lparr>con_name := Some ''G2 continuity between curves''\<rparr>
      in (fst (add_constraint s c), con_id c))"

definition add_multi_tangent_constraint ::
  "constraint_store \<Rightarrow> constraint_id \<Rightarrow> entity_ref \<Rightarrow> entity_ref list \<Rightarrow> constraint_priority \<Rightarrow>
   constraint_store \<times> constraint_id" where
  "add_multi_tangent_constraint s i curve es p =
     (let c = (new_geometric i MultiTangent (curve # es) p)\<lparr>con_name := Some ''Multi-tangent constraint''\<rparr>
      in (fst (add_constraint s c), con_id c))"

section \<open>Runs of a store\<close>

text \<open>A constraint is added under an identifier the store does not hold, before the counter ends.\<close>

inductive reachable_store :: "constraint_store \<Rightarrow> bool" where
  fresh: "reachable_store new_store"
| added: "reachable_store s \<Longrightarrow> con_id c \<notin> set (dkeys (constraints s)) \<Longrightarrow>
    next_sequence s + 1 < u64_bound \<Longrightarrow> reachable_store (fst (add_constraint s c))"
| removed: "reachable_store s \<Longrightarrow> reachable_store (fst (remove_constraint s i))"
| marked: "reachable_store s \<Longrightarrow> reachable_store (update_status s i st)"
| edited: "reachable_store s \<Longrightarrow> reachable_store (fst (update_dimensional_value s i v))"
| cleared: "reachable_store s \<Longrightarrow> reachable_store (clear_store s)"

definition indexed :: "constraint_store \<Rightarrow> entity_ref \<Rightarrow> constraint_id list" where
  "indexed s e = (case map_of (entity_constraints s) e of None \<Rightarrow> [] | Some ids \<Rightarrow> ids)"

definition mentions :: "entity_ref \<Rightarrow> sketch_constraint \<Rightarrow> sketch_constraint list" where
  "mentions e c = replicate (count_list (con_entities c) e) c"

definition store_ok :: "constraint_store \<Rightarrow> bool" where
  "store_ok s \<longleftrightarrow>
     dmap_ok (constraints s) \<and> (\<forall>(i, c) \<in> set (constraints s). con_id c = i) \<and>
     distinct (map (con_sequence \<circ> snd) (constraints s)) \<and>
     (\<forall>(i, c) \<in> set (constraints s). 0 < con_sequence c \<and> con_sequence c < next_sequence s) \<and>
     0 < next_sequence s \<and>
     (\<forall>e. indexed s e = map con_id (concat (map (mentions e) (all_constraints s))))"

lemma count_list_0: "x \<notin> set xs \<Longrightarrow> count_list xs x = 0"
  by simp

lemma indexed_push:
  "(case map_of (fold (index_push i) es ix) e of None \<Rightarrow> [] | Some l \<Rightarrow> l) =
   (case map_of ix e of None \<Rightarrow> [] | Some l \<Rightarrow> l) @ replicate (count_list es e) i"
  by (induction es arbitrary: ix)
    (auto simp: index_push_def dmap_simps replicate_append_same split: option.splits)

lemma indexed_drop:
  "(case map_of (fold (\<lambda>e. modify_entry e (filter P)) es ix) e of None \<Rightarrow> [] | Some l \<Rightarrow> l) =
   (if e \<in> set es then filter P (case map_of ix e of None \<Rightarrow> [] | Some l \<Rightarrow> l)
    else (case map_of ix e of None \<Rightarrow> [] | Some l \<Rightarrow> l))"
  by (induction es arbitrary: ix) (auto simp: dmap_simps split: option.splits)

lemma update_fresh: "k \<notin> fst ` set m \<Longrightarrow> AList.update k v m = m @ [(k, v)]"
  by (induction m) auto

lemma insort_key_last: "(\<forall>y \<in> set ys. f y < f x) \<Longrightarrow> insort_key f x ys = ys @ [x]"
  by (induction ys) auto

lemma sort_key_snoc:
  assumes "\<forall>y \<in> set xs. f y < f x"
  shows "sort_key f (xs @ [x]) = sort_key f xs @ [x]"
proof -
  have "insort_key f y (zs @ [x]) = insort_key f y zs @ [x]" if "f y < f x" for y zs
    using that by (induction zs) auto
  then show ?thesis using assms by (induction xs) auto
qed

lemma sort_key_map:
  assumes "\<forall>x \<in> set xs. f (g x) = f x"
  shows "sort_key f (map g xs) = map g (sort_key f xs)"
proof -
  have "insort_key f (g x) (map g ys) = map g (insort_key f x ys)"
    if "f (g x) = f x" "\<forall>y \<in> set ys. f (g y) = f y" for x ys
    using that by (induction ys) auto
  then show ?thesis using assms by (induction xs) auto
qed

section \<open>The invariant\<close>

lemma store_okD:
  assumes "store_ok s"
  shows "dmap_ok (constraints s)" "\<And>i c. (i, c) \<in> set (constraints s) \<Longrightarrow> con_id c = i"
    "distinct (map (con_sequence \<circ> snd) (constraints s))"
    "\<And>i c. (i, c) \<in> set (constraints s) \<Longrightarrow> 0 < con_sequence c \<and> con_sequence c < next_sequence s"
    "0 < next_sequence s" "indexed s e = map con_id (concat (map (mentions e) (all_constraints s)))"
  using assms by (auto simp: store_ok_def)

lemma all_constraints_mem: "c \<in> set (all_constraints s) \<longleftrightarrow> (\<exists>i. (i, c) \<in> set (constraints s))"
  by (auto simp: all_constraints_def) (metis image_eqI snd_conv)

lemma all_constraints_add:
  assumes ok: "store_ok s" and fresh: "con_id c \<notin> set (dkeys (constraints s))"
  shows "all_constraints (fst (add_constraint s c)) = all_constraints s @ [c\<lparr>con_sequence := next_sequence s\<rparr>]"
  using store_okD(4) [OF ok] fresh
  by (auto simp: all_constraints_def add_constraint_def update_fresh Let_def intro!: sort_key_snoc)

lemma map_snd_delete:
  "(\<forall>(k, c) \<in> set m. con_id c = k) \<Longrightarrow> map snd (AList.delete i m) = filter (\<lambda>c. con_id c \<noteq> i) (map snd m)"
  by (induction m) auto

lemma all_constraints_remove:
  assumes ok: "store_ok s"
  shows "all_constraints (fst (remove_constraint s i)) = filter (\<lambda>c. con_id c \<noteq> i) (all_constraints s)"
proof -
  have keys: "\<forall>(k, c) \<in> set (constraints s). con_id c = k" using store_okD(2) [OF ok] by auto
  show ?thesis
  proof (cases "map_of (constraints s) i")
    case None
    then have "i \<notin> set (dkeys (constraints s))" by (simp add: map_of_eq_None_iff)
    then have "\<forall>c \<in> set (all_constraints s). con_id c \<noteq> i"
      using keys by (force simp: all_constraints_mem)
    then show ?thesis using None by (simp add: remove_constraint_def filter_id_conv)
  next
    case (Some c)
    then show ?thesis
      using keys by (simp add: remove_constraint_def all_constraints_def map_snd_delete filter_sort)
  qed
qed

text \<open>An update in place of one constraint, that keeps its identity, sequence and entities.\<close>

definition harmless :: "(sketch_constraint \<Rightarrow> sketch_constraint) \<Rightarrow> bool" where
  "harmless f \<longleftrightarrow> (\<forall>c. con_id (f c) = con_id c \<and> con_sequence (f c) = con_sequence c \<and>
     con_entities (f c) = con_entities c)"

lemma map_snd_modify:
  "(\<forall>(k, c) \<in> set m. con_id c = k) \<Longrightarrow>
   map snd (modify_entry i f m) = map (\<lambda>c. if con_id c = i then f c else c) (map snd m)"
  by (induction m) (auto simp: modify_entry_def)

lemma all_constraints_modify:
  assumes "store_ok s" "harmless f"
  shows "all_constraints (s\<lparr>constraints := modify_entry i f (constraints s)\<rparr>) =
    map (\<lambda>c. if con_id c = i then f c else c) (all_constraints s)"
proof -
  have keys: "\<forall>(k, c) \<in> set (constraints s). con_id c = k" using store_okD(2) [OF assms(1)] by auto
  show ?thesis
    unfolding all_constraints_def using assms(2)
    by (simp add: map_snd_modify [OF keys] sort_key_map harmless_def del: map_map)
qed

lemma mentions_modify:
  "harmless f \<Longrightarrow> map con_id (concat (map (mentions e) (map (\<lambda>c. if con_id c = i then f c else c) L))) =
     map con_id (concat (map (mentions e) L))"
  by (induction L) (auto simp: harmless_def mentions_def)

lemma mentions_filter:
  "filter (\<lambda>j. j \<noteq> i) (map con_id (concat (map (mentions e) L))) =
   map con_id (concat (map (mentions e) (filter (\<lambda>c. con_id c \<noteq> i) L)))"
  by (induction L) (auto simp: mentions_def)

lemma store_ok_new: "store_ok new_store"
  by (simp add: store_ok_def new_store_def indexed_def all_constraints_def)

lemma store_ok_add:
  assumes ok: "store_ok s" and fresh: "con_id c \<notin> set (dkeys (constraints s))"
    and room: "next_sequence s + 1 < u64_bound"
  shows "store_ok (fst (add_constraint s c))"
proof -
  let ?s = "fst (add_constraint s c)" and ?c = "c\<lparr>con_sequence := next_sequence s\<rparr>"
  have cs: "constraints ?s = constraints s @ [(con_id c, ?c)]"
    using fresh by (simp add: add_constraint_def update_fresh Let_def)
  have nx: "next_sequence ?s = next_sequence s + 1"
    using room by (simp add: add_constraint_def wrapping_succ_no_wrap Let_def)
  have ix: "indexed ?s e = map con_id (concat (map (mentions e) (all_constraints ?s)))" for e
  proof -
    have "indexed ?s e = indexed s e @ replicate (count_list (con_entities c) e) (con_id c)"
      by (simp add: indexed_def add_constraint_def indexed_push Let_def)
    then show ?thesis
      by (simp add: all_constraints_add [OF ok fresh] store_okD(6) [OF ok] mentions_def)
  qed
  show ?thesis
    unfolding store_ok_def using store_okD [OF ok] fresh ix
    by (auto simp: cs nx less_Suc_eq dest: store_okD(4) [OF ok])
qed

lemma store_ok_remove:
  assumes ok: "store_ok s"
  shows "store_ok (fst (remove_constraint s i))"
proof (cases "map_of (constraints s) i")
  case None
  then show ?thesis using ok by (simp add: remove_constraint_def)
next
  case (Some c)
  let ?s = "fst (remove_constraint s i)"
  have cs: "constraints ?s = filter (\<lambda>kv. fst kv \<noteq> i) (constraints s)"
    using Some fold_del_filter [of "[i]" "constraints s"] by (simp add: remove_constraint_def)
  have nx: "next_sequence ?s = next_sequence s" using Some by (simp add: remove_constraint_def)
  have ix: "indexed ?s e = map con_id (concat (map (mentions e) (all_constraints ?s)))" for e
  proof -
    have "indexed ?s e = (if e \<in> set (con_entities c) then filter (\<lambda>j. j \<noteq> i) (indexed s e) else indexed s e)"
      using Some by (simp add: indexed_def remove_constraint_def indexed_drop)
    moreover have "filter (\<lambda>j. j \<noteq> i) (indexed s e) = indexed s e" if "e \<notin> set (con_entities c)"
    proof -
      have "con_id d \<noteq> i" if "d \<in> set (all_constraints s)" "d \<in> set (mentions e d)" for d
      proof
        assume "con_id d = i"
        then have "map_of (constraints s) i = Some d"
          using that(1) store_okD(1,2) [OF ok] by (auto simp: all_constraints_mem intro!: map_of_is_SomeI)
        then show False using Some that(2) \<open>e \<notin> set (con_entities c)\<close> by (simp add: mentions_def)
      qed
      then show ?thesis by (auto simp: store_okD(6) [OF ok] filter_id_conv mentions_def)
    qed
    ultimately have "indexed ?s e = filter (\<lambda>j. j \<noteq> i) (indexed s e)" by simp
    then show ?thesis
      by (simp add: store_okD(6) [OF ok] mentions_filter all_constraints_remove [OF ok])
  qed
  have "distinct (map (con_sequence \<circ> snd) (constraints ?s))"
    unfolding cs using store_okD(3) [OF ok] by (rule distinct_map_filter)
  then show ?thesis
    unfolding store_ok_def using store_okD(1,2,4,5) [OF ok] ix by (auto simp: cs nx)
qed

lemma store_ok_modify:
  assumes ok: "store_ok s" and f: "harmless f"
  shows "store_ok (s\<lparr>constraints := modify_entry i f (constraints s)\<rparr>)"
proof -
  let ?s = "s\<lparr>constraints := modify_entry i f (constraints s)\<rparr>"
  have ix: "indexed ?s e = map con_id (concat (map (mentions e) (all_constraints ?s)))" for e
    using store_okD(6) [OF ok, of e]
    by (simp add: all_constraints_modify [OF ok f] mentions_modify [OF f] indexed_def del: map_map)
  have seqs: "map (con_sequence \<circ> snd) (modify_entry i f m) = map (con_sequence \<circ> snd) m" for m
    using f by (induction m) (auto simp: modify_entry_def harmless_def)
  show ?thesis
    unfolding store_ok_def using store_okD(1-5) [OF ok] ix f
    by (auto simp: seqs) (auto simp: modify_entry_def harmless_def split: if_splits)
qed

lemma store_ok_clear: "store_ok s \<Longrightarrow> store_ok (clear_store s)"
  by (auto simp: store_ok_def clear_store_def indexed_def all_constraints_def)

lemma harmless_update:
  "harmless (\<lambda>c. c\<lparr>con_status := st\<rparr>)"
  by (simp add: harmless_def)

lemma update_dimensional_value_modify:
  assumes ok: "store_ok s"
  shows "\<exists>f. harmless f \<and>
    fst (update_dimensional_value s i v) = s\<lparr>constraints := modify_entry i f (constraints s)\<rparr>"
proof -
  have same: "modify_entry i (\<lambda>c. c) m = m" for m :: "(constraint_id, sketch_constraint) dmap"
    by (induction m) (auto simp: modify_entry_def)
  have id: "\<exists>f. harmless f \<and> s = s\<lparr>constraints := modify_entry i f (constraints s)\<rparr>"
    by (rule exI [of _ "\<lambda>c. c"]) (simp add: harmless_def same)
  show ?thesis
  proof (cases "\<exists>c d d'. map_of (constraints s) i = Some c \<and> con_type c = Dimensional d \<and> set_scalar d v = Ok d'")
    case True
    then obtain c d d' where c: "map_of (constraints s) i = Some c" "con_type c = Dimensional d" "set_scalar d v = Ok d'"
      by blast
    let ?g = "\<lambda>c. c\<lparr>con_type := Dimensional d', con_status := Satisfied\<rparr>"
    have "modify_entry i (\<lambda>_. ?g c) (constraints s) = modify_entry i ?g (constraints s)"
      using c(1) store_okD(1) [OF ok] by (auto simp: modify_entry_def dest: map_of_is_SomeI)
    then show ?thesis
      using c by (intro exI [of _ ?g]) (simp add: harmless_def update_dimensional_value_def)
  next
    case False
    then have "fst (update_dimensional_value s i v) = s"
      by (auto simp: update_dimensional_value_def split: option.splits constraint_type.splits sum.splits)
    then show ?thesis using id by simp
  qed
qed

lemma reachable_store_ok: "reachable_store s \<Longrightarrow> store_ok s"
proof (induction rule: reachable_store.induct)
  case (edited s i v)
  then show ?case using update_dimensional_value_modify [of s i v] store_ok_modify by auto
qed (simp_all add: store_ok_new store_ok_add store_ok_remove store_ok_clear store_ok_modify
    update_status_def harmless_update)

lemma all_constraints_sorted: "store_ok s \<Longrightarrow> sorted_wrt (\<lambda>a b. con_sequence a < con_sequence b) (all_constraints s)"
proof -
  assume ok: "store_ok s"
  have "distinct (map con_sequence (all_constraints s))"
  proof -
    have "mset (map con_sequence (all_constraints s)) = mset (map (con_sequence \<circ> snd) (constraints s))"
      by (simp add: all_constraints_def multiset.map_comp o_def)
    then show ?thesis using store_okD(3) [OF ok] by (metis mset_eq_imp_distinct_iff)
  qed
  moreover have "sorted (map con_sequence (all_constraints s))" by (simp add: all_constraints_def)
  ultimately show ?thesis by (simp add: strict_sorted_iff flip: sorted_wrt_map)
qed

lemma get_listed:
  assumes "store_ok s" "c \<in> set (all_constraints s)"
  shows "get_constraint s (con_id c) = Some c"
  using assms store_okD(1,2) [OF assms(1)]
  by (auto simp: get_constraint_def all_constraints_mem intro!: map_of_is_SomeI)

lemma get_entity_constraints_eq:
  assumes ok: "store_ok s"
  shows "get_entity_constraints s e = concat (map (mentions e) (all_constraints s))"
proof -
  let ?L = "concat (map (mentions e) (all_constraints s))"
  have "get_entity_constraints s e = List.map_filter (get_constraint s) (indexed s e)"
    by (simp add: get_entity_constraints_def indexed_def split: option.split)
  also have "\<dots> = List.map_filter (get_constraint s) (map con_id ?L)"
    by (simp add: store_okD(6) [OF ok])
  also have "\<dots> = ?L"
  proof -
    have "\<forall>c \<in> set ?L. get_constraint s (con_id c) = Some c"
      using get_listed [OF ok] by (auto simp: mentions_def)
    moreover have "(\<forall>c \<in> set L. get_constraint s (con_id c) = Some c) \<Longrightarrow>
        List.map_filter (get_constraint s) (map con_id L) = L" for L
      by (induction L) simp_all
    ultimately show ?thesis by blast
  qed
  finally show ?thesis .
qed

end
