(* ===== verification/Sketch_Store_Props.thy ===== *)
theory Sketch_Store_Props
  imports Sketch_Store
begin

text \<open>
  What the constraint table and the constraint store of a sketch guarantee.
\<close>

section \<open>Shapes and degrees of freedom\<close>

text \<open>A constraint removes a degree of freedom exactly when its entity shape is defined, its kind
  has a residual, and it is no one-sided bound: the table of degrees of freedom, the table
  of shapes and the two classifications of kinds agree on all 40 kinds. No other kind removes more
  than 4, but a tangency to many curves removes one for each.\<close>

theorem freedom_agrees_with_shapes:
  "(0 < degrees_of_freedom_removed c \<longleftrightarrow>
     shape_is_defined c \<and> is_numerically_enforced (con_type c) \<and> \<not> is_inequality (con_type c)) \<and>
   degrees_of_freedom_removed c \<le>
     (if con_type c = Geometric MultiTangent then length (con_entities c) - 1 else 4)"
proof -
  let ?e = "con_entities c"
  have g: "geometric_shape g ?e \<Longrightarrow> 0 < geometric_dof g ?e \<longleftrightarrow> is_numerically_enforced (Geometric g)" for g
    by (cases g) (auto split: list.splits if_splits)
  have i: "\<not> is_inequality (Geometric g)" for g
    by (cases g) simp_all
  have d: "dimensional_shape d ?e \<Longrightarrow> 0 < dimensional_dof d ?e \<longleftrightarrow>
      is_numerically_enforced (Dimensional d) \<and> \<not> is_inequality (Dimensional d)" for d
    by (cases d) (auto split: list.splits if_splits)
  have pos: "0 < degrees_of_freedom_removed c \<longleftrightarrow>
     shape_is_defined c \<and> is_numerically_enforced (con_type c) \<and> \<not> is_inequality (con_type c)"
  proof (cases "con_type c")
    case (Geometric h)
    then show ?thesis using g [of h] i [of h] by (simp add: degrees_of_freedom_removed_def shape_is_defined_def)
  next
    case (Dimensional h)
    then show ?thesis using d [of h] by (simp add: degrees_of_freedom_removed_def shape_is_defined_def)
  qed
  have g4: "geometric_dof g ?e \<le> (if g = MultiTangent then length ?e - 1 else 4)" for g
    by (cases g) (auto split: list.splits)
  have d4: "dimensional_dof d ?e \<le> 4" for d
    by (cases d) (auto split: list.splits)
  have bound: "degrees_of_freedom_removed c \<le>
     (if con_type c = Geometric MultiTangent then length (con_entities c) - 1 else 4)"
  proof (cases "con_type c")
    case (Geometric g)
    then show ?thesis using g4 [of g] by (auto simp: degrees_of_freedom_removed_def split: if_splits simp del: geometric_dof.simps)
  next
    case (Dimensional d)
    then show ?thesis using d4 [of d] by (simp add: degrees_of_freedom_removed_def)
  qed
  show ?thesis using pos bound by (rule conjI)
qed

section \<open>The store\<close>


definition demo_line :: "uuid \<Rightarrow> geometric_constraint \<Rightarrow> uuid \<Rightarrow> sketch_constraint" where
  "demo_line i g l = new_geometric (ConstraintId i) g [Line l] High"

definition demo_store :: constraint_store where
  "demo_store = fst (remove_constraint (fst (add_constraint (fst (add_constraint new_store
     (demo_line 1 Horizontal 7))) (demo_line 2 Vertical 7))) (ConstraintId 1))"

lemmas demo_store_simps = demo_store_def demo_line_def new_geometric_def add_constraint_def
  remove_constraint_def new_store_def index_push_def u64_bound_def wrapping_succ_def UNSEQUENCED_def
  Let_def

lemma demo_store_reachable: "reachable_store demo_store"
  unfolding demo_store_def
  by (intro reachable_store.intros) (simp_all add: demo_store_simps)


text \<open>A constraint posted under an identifier the store already holds replaces the old one but
  leaves it in the index of entities: the store then answers for an entity with a constraint that
  does not mention it, and no removal clears that entry.\<close>

theorem reused_identifier_corrupts_index:
  "let s = fst (add_constraint (fst (add_constraint new_store (demo_line 1 Horizontal 7))) (demo_line 1 Vertical 8));
       r = fst (remove_constraint s (ConstraintId 1))
   in map con_entities (get_entity_constraints s (Line 7)) = [[Line 8]] \<and>
      constraint_count r = 0 \<and> map_of (entity_constraints r) (Line 7) = Some [ConstraintId 1]"
  by (simp add: get_entity_constraints_def get_constraint_def constraint_count_def modify_entry_def
      map_filter_simps demo_store_simps)

definition signed_dimension :: "dimensional_constraint \<Rightarrow> bool" where
  "signed_dimension d \<longleftrightarrow> dimension_variant d \<in> {1, 5, 6, 10, 11}"

definition editable :: "constraint_store \<Rightarrow> constraint_id \<Rightarrow> f64 \<Rightarrow> bool" where
  "editable s i v \<longleftrightarrow>
     (case get_constraint s i of
        None \<Rightarrow> False
      | Some c \<Rightarrow>
     (case con_type c of
        Geometric _ \<Rightarrow> False
      | Dimensional d \<Rightarrow> dimension_variant d \<noteq> 17 \<and> is_finite v \<and>
          (signed_dimension d \<or> f64_magnitude v \<noteq> 0 \<and> \<not> f64_negative v)))"

lemma finite_not_nan: "is_finite v \<Longrightarrow> \<not> is_nan v"
  by (simp add: is_finite_def is_nan_def)

lemma le_zero: "is_finite v \<Longrightarrow> f64_le v 0 \<longleftrightarrow> f64_magnitude v = 0 \<or> f64_negative v"
proof -
  have zero: "f64_magnitude 0 = 0" "\<not> f64_negative 0" "\<not> is_nan 0"
    by (simp_all add: f64_magnitude_def f64_negative_def is_nan_def)
  show "is_finite v \<Longrightarrow> ?thesis"
    by (auto simp: f64_le_def finite_not_nan f64_ord_def zero)
qed

lemma set_scalar_Err:
  "set_scalar d v = Err e \<Longrightarrow> dimension_variant d = 17 \<or> \<not> is_finite v \<or>
     \<not> signed_dimension d \<and> (f64_magnitude v = 0 \<or> f64_negative v)"
  by (cases "is_finite v"; cases d)
    (auto simp: set_scalar_def require_positive_def signed_dimension_def le_zero split: if_splits)

lemma set_scalar_Ok:
  "set_scalar d v = Ok d' \<Longrightarrow> dimension_variant d \<noteq> 17 \<and> is_finite v \<and>
     (signed_dimension d \<or> f64_magnitude v \<noteq> 0 \<and> \<not> f64_negative v) \<and>
     dimension_variant d' = dimension_variant d \<and> dimension_values d' = [v]"
  by (cases "is_finite v"; cases d)
    (auto simp: set_scalar_def require_positive_def signed_dimension_def le_zero split: if_splits)

text \<open>An edit of a dimension either writes the new value and clears the status, in that one
  constraint, or returns an error and changes nothing; it fails exactly when there is no such
  constraint, it is geometric, it carries two values, or the value is not finite or, for a
  length-like dimension, not positive.\<close>

theorem dimension_edit_total:
  "case update_dimensional_value s i v of
     (s', Inl e) \<Rightarrow> \<not> editable s i v \<and> s' = s
   | (s', Inr c') \<Rightarrow> editable s i v \<and>
       (\<exists>c d d'. get_constraint s i = Some c \<and> con_type c = Dimensional d \<and>
          dimension_variant d' = dimension_variant d \<and> dimension_values d' = [v] \<and>
          c' = c\<lparr>con_type := Dimensional d', con_status := Satisfied\<rparr> \<and>
          get_constraint s' = (get_constraint s)(i \<mapsto> c') \<and>
          entity_constraints s' = entity_constraints s \<and> next_sequence s' = next_sequence s)"
proof -
  have upd: "get_constraint s i = Some c \<Longrightarrow>
      get_constraint (s\<lparr>constraints := modify_entry i (\<lambda>_. c') (constraints s)\<rparr>) = (get_constraint s)(i \<mapsto> c')"
    for c c' by (rule ext) (simp add: get_constraint_def dmap_simps)
  show ?thesis
  proof (cases "\<exists>c d d'. get_constraint s i = Some c \<and> con_type c = Dimensional d \<and> set_scalar d v = Ok d'")
    case True
    then obtain c d d' where c: "get_constraint s i = Some c" "con_type c = Dimensional d" "set_scalar d v = Ok d'"
      by blast
    have "update_dimensional_value s i v =
      (let c' = c\<lparr>con_type := Dimensional d', con_status := Satisfied\<rparr>
       in (s\<lparr>constraints := modify_entry i (\<lambda>_. c') (constraints s)\<rparr>, Ok c'))"
      using c by (simp add: update_dimensional_value_def get_constraint_def)
    then show ?thesis
      using c set_scalar_Ok [OF c(3)] by (auto simp: Let_def upd editable_def)
  next
    case False
    then show ?thesis
      by (auto simp: update_dimensional_value_def editable_def get_constraint_def
          split: option.splits constraint_type.splits sum.splits dest!: set_scalar_Err)
  qed
qed

end
