(* ===== verification/Sketch_Conflicts.thy ===== *)
theory Sketch_Conflicts
  imports Sketch_Store "HOL-Library.Product_Lexorder"
begin

text \<open>
  \<^verbatim>\<open>find_conflicts\<close> of \<^verbatim>\<open>geometry-engine/src/sketch2d/constraints.rs\<close>: the static search for
  contradictions. The constants are the doubles of the source's literals, by their bits. A walk over
  parents that does not end would be \<open>None\<close>.
\<close>

section \<open>Pairs of constraints\<close>

definition TOL_9 :: f64 where
  "TOL_9 = 4472406533629990549" \<comment> \<open>\<^verbatim>\<open>1e-9\<close>\<close>

definition TOL_10 :: f64 where
  "TOL_10 = 4457293557087583675" \<comment> \<open>\<^verbatim>\<open>1e-10\<close>\<close>

definition PI :: f64 where
  "PI = 4614256656552045848"

definition FRAC_PI_2 :: f64 where
  "FRAC_PI_2 = 4609753056924675352"

definition abs_above :: "f64 \<Rightarrow> f64 \<Rightarrow> bool" where
  "abs_above v tol \<longleftrightarrow> f64_lt tol (f64_abs v)"

definition share_entities :: "sketch_constraint \<Rightarrow> sketch_constraint \<Rightarrow> bool" where
  "share_entities c1 c2 = list_ex (\<lambda>e1. list_ex (\<lambda>e2. e1 = e2) (con_entities c2)) (con_entities c1)"

definition same_entity_pairs :: "sketch_constraint \<Rightarrow> sketch_constraint \<Rightarrow> bool" where
  "same_entity_pairs c1 c2 \<longleftrightarrow> con_entities c1 = con_entities c2"

definition dimensional_constraints_conflict ::
  "sketch_constraint \<Rightarrow> sketch_constraint \<Rightarrow> dimensional_constraint \<Rightarrow> dimensional_constraint \<Rightarrow> bool" where
  "dimensional_constraints_conflict c1 c2 d1 d2 =
     (case (d1, d2) of
        (Distance v1, Distance v2) \<Rightarrow> same_entity_pairs c1 c2 \<and> abs_above (f64_sub v1 v2) TOL_10
      | (Length v1, Length v2) \<Rightarrow> share_entities c1 c2 \<and> abs_above (f64_sub v1 v2) TOL_10
      | (Radius v1, Radius v2) \<Rightarrow> share_entities c1 c2 \<and> abs_above (f64_sub v1 v2) TOL_10
      | (Radius r, Diameter d) \<Rightarrow> share_entities c1 c2 \<and> abs_above (f64_sub (f64_double r) d) TOL_10
      | (Diameter d, Radius r) \<Rightarrow> share_entities c1 c2 \<and> abs_above (f64_sub (f64_double r) d) TOL_10
      | (XCoordinate v1, XCoordinate v2) \<Rightarrow> share_entities c1 c2 \<and> abs_above (f64_sub v1 v2) TOL_10
      | (YCoordinate v1, YCoordinate v2) \<Rightarrow> share_entities c1 c2 \<and> abs_above (f64_sub v1 v2) TOL_10
      | _ \<Rightarrow> False)"

definition geometric_constraints_conflict ::
  "sketch_constraint \<Rightarrow> sketch_constraint \<Rightarrow> geometric_constraint \<Rightarrow> geometric_constraint \<Rightarrow> bool" where
  "geometric_constraints_conflict c1 c2 g1 g2 =
     (if \<not> share_entities c1 c2 then False
      else case (g1, g2) of
        (Parallel, Perpendicular) \<Rightarrow> True
      | (Perpendicular, Parallel) \<Rightarrow> True
      | (Collinear, Perpendicular) \<Rightarrow> True
      | (Perpendicular, Collinear) \<Rightarrow> True
      | (Horizontal, Vertical) \<Rightarrow> True
      | (Vertical, Horizontal) \<Rightarrow> True
      | _ \<Rightarrow> False)"

definition mixed_constraints_conflict ::
  "sketch_constraint \<Rightarrow> sketch_constraint \<Rightarrow> dimensional_constraint \<Rightarrow> geometric_constraint \<Rightarrow> bool" where
  "mixed_constraints_conflict c1 c2 d g =
     (if \<not> same_entity_pairs c1 c2 then False
      else case (g, d) of
        (Coincident, Distance v) \<Rightarrow> abs_above v TOL_9
      | (Parallel, Angle theta) \<Rightarrow>
          (let a = rem_euclid theta PI in f64_lt TOL_9 (f64_min a (f64_sub PI a)))
      | (Perpendicular, Angle theta) \<Rightarrow>
          (let a = rem_euclid theta PI in abs_above (f64_sub a FRAC_PI_2) TOL_9)
      | _ \<Rightarrow> False)"

definition constraints_conflict :: "sketch_constraint \<Rightarrow> sketch_constraint \<Rightarrow> bool" where
  "constraints_conflict c1 c2 =
     (if \<not> share_entities c1 c2 then False
      else case (con_type c1, con_type c2) of
        (Dimensional d1, Dimensional d2) \<Rightarrow> dimensional_constraints_conflict c1 c2 d1 d2
      | (Geometric g1, Geometric g2) \<Rightarrow> geometric_constraints_conflict c1 c2 g1 g2
      | (Dimensional d, Geometric g) \<Rightarrow> mixed_constraints_conflict c1 c2 d g
      | (Geometric g, Dimensional d) \<Rightarrow> mixed_constraints_conflict c1 c2 d g)"

type_synonym conflict = "constraint_id \<times> constraint_id"

fun pairwise_conflicts :: "sketch_constraint list \<Rightarrow> conflict list" where
  "pairwise_conflicts [] = []"
| "pairwise_conflicts (c # cs) =
     map (\<lambda>d. (con_id c, con_id d)) (filter (constraints_conflict c) cs) @ pairwise_conflicts cs"

section \<open>Chains of coincidences\<close>

type_synonym uf_points = "(uuid, uuid) dmap"

definition entry_or_insert :: "'k \<Rightarrow> 'v \<Rightarrow> ('k, 'v) dmap \<Rightarrow> ('k, 'v) dmap" where
  "entry_or_insert k v m = (case map_of m k of None \<Rightarrow> AList.update k v m | Some _ \<Rightarrow> m)"

definition coincident_points :: "sketch_constraint \<Rightarrow> (uuid \<times> uuid) option" where
  "coincident_points c =
     (case con_type c of
        Geometric Coincident \<Rightarrow> (case con_entities c of [Point a, Point b] \<Rightarrow> Some (a, b) | _ \<Rightarrow> None)
      | _ \<Rightarrow> None)"

fun link_coincident ::
  "sketch_constraint list \<Rightarrow> uf_points \<times> (uuid, constraint_id) dmap \<Rightarrow>
   (uf_points \<times> (uuid, constraint_id) dmap) option" where
  "link_coincident [] st = Some st"
| "link_coincident (c # cs) (parent, witness) =
     (case coincident_points c of
        None \<Rightarrow> link_coincident cs (parent, witness)
      | Some (a, b) \<Rightarrow>
     (case uf_union parent a b of
        None \<Rightarrow> None
      | Some parent' \<Rightarrow>
          link_coincident cs
            (parent', entry_or_insert b (con_id c) (entry_or_insert a (con_id c) witness))))"

definition separated_points :: "sketch_constraint \<Rightarrow> (uuid \<times> uuid) option" where
  "separated_points c =
     (case con_type c of
        Dimensional (Distance v) \<Rightarrow>
          if abs_above v TOL_9 then
            case con_entities c of [Point p, Point q] \<Rightarrow> Some (p, q) | _ \<Rightarrow> None
          else None
      | _ \<Rightarrow> None)"

fun distance_conflicts ::
  "(uuid, constraint_id) dmap \<Rightarrow> sketch_constraint list \<Rightarrow> uf_points \<times> conflict list \<Rightarrow>
   (uf_points \<times> conflict list) option" where
  "distance_conflicts witness [] st = Some st"
| "distance_conflicts witness (c # cs) (parent, out) =
     (case separated_points c of
        None \<Rightarrow> distance_conflicts witness cs (parent, out)
      | Some (p, q) \<Rightarrow>
     (case uf_find parent p of
        None \<Rightarrow> None
      | Some (parent1, rp) \<Rightarrow>
     (case uf_find parent1 q of
        None \<Rightarrow> None
      | Some (parent2, rq) \<Rightarrow>
          let w = (case map_of witness p of None \<Rightarrow> map_of witness q | Some w \<Rightarrow> Some w)
          in distance_conflicts witness cs
               (parent2,
                if rp = rq then (case w of Some w \<Rightarrow> out @ [(con_id c, w)] | None \<Rightarrow> out) else out))))"

type_synonym by_root = "(uuid, f64 \<times> constraint_id) dmap"

definition fixed_coordinate :: "sketch_constraint \<Rightarrow> (bool \<times> f64 \<times> uuid) option" where
  "fixed_coordinate c =
     (case con_type c of
        Dimensional (XCoordinate v) \<Rightarrow> (case con_entities c of [Point p] \<Rightarrow> Some (True, v, p) | _ \<Rightarrow> None)
      | Dimensional (YCoordinate v) \<Rightarrow> (case con_entities c of [Point p] \<Rightarrow> Some (False, v, p) | _ \<Rightarrow> None)
      | _ \<Rightarrow> None)"

fun coordinate_conflicts ::
  "(uuid, constraint_id) dmap \<Rightarrow> sketch_constraint list \<Rightarrow> uf_points \<times> by_root \<times> by_root \<times> conflict list \<Rightarrow>
   conflict list option" where
  "coordinate_conflicts witness [] (parent, xs, ys, out) = Some out"
| "coordinate_conflicts witness (c # cs) (parent, xs, ys, out) =
     (case fixed_coordinate c of
        None \<Rightarrow> coordinate_conflicts witness cs (parent, xs, ys, out)
      | Some (is_x, v, p) \<Rightarrow>
          if \<not> contains_key witness p then coordinate_conflicts witness cs (parent, xs, ys, out)
          else
     (case uf_find parent p of
        None \<Rightarrow> None
      | Some (parent', root) \<Rightarrow>
     (case map_of (if is_x then xs else ys) root of
        Some (prev_v, prev_id) \<Rightarrow>
          coordinate_conflicts witness cs
            (parent', xs, ys,
             if abs_above (f64_sub prev_v v) TOL_9 then out @ [(con_id c, prev_id)] else out)
      | None \<Rightarrow>
          coordinate_conflicts witness cs
            (parent',
             if is_x then AList.update root (v, con_id c) xs else xs,
             if is_x then ys else AList.update root (v, con_id c) ys,
             out))))"

section \<open>The report\<close>

definition sequence_in :: "sketch_constraint list \<Rightarrow> constraint_id \<Rightarrow> nat" where
  "sequence_in cs i =
     (case map_of (rev (map (\<lambda>c. (con_id c, con_sequence c)) cs)) i of
        None \<Rightarrow> u64_bound - 1
      | Some n \<Rightarrow> n)"

definition normalise_conflicts :: "(constraint_id \<Rightarrow> nat) \<Rightarrow> conflict list \<Rightarrow> conflict list" where
  "normalise_conflicts sq conflicts =
     remdups_adj (sort_key (\<lambda>(a, b). (sq a, sq b))
       (map (\<lambda>(a, b). if sq b < sq a then (b, a) else (a, b)) conflicts))"

definition raw_conflicts :: "sketch_constraint list \<Rightarrow> conflict list option" where
  "raw_conflicts cs =
     (case link_coincident cs ([], []) of
        None \<Rightarrow> None
      | Some (parent, witness) \<Rightarrow>
          if parent = [] then Some (pairwise_conflicts cs)
          else
     (case distance_conflicts witness cs (parent, pairwise_conflicts cs) of
        None \<Rightarrow> None
      | Some (parent', out) \<Rightarrow> coordinate_conflicts witness cs (parent', [], [], out)))"

definition find_conflicts :: "constraint_store \<Rightarrow> conflict list option" where
  "find_conflicts s =
     (let cs = all_constraints s
      in map_option (normalise_conflicts (sequence_in cs)) (raw_conflicts cs))"

end
