(* ===== verification/Sketch_Conflicts_Props.thy ===== *)
theory Sketch_Conflicts_Props
  imports Sketch_Conflicts Complex_Main
begin

text \<open>
  The report of \<^verbatim>\<open>find_conflicts\<close>: that it always comes, its form, that it finds distances across
  chains of coincidences, and that what it reports is a contradiction, but for one case.
\<close>

section \<open>The passes\<close>

definition edges :: "sketch_constraint list \<Rightarrow> (uuid \<times> uuid) list" where
  "edges cs = List.map_filter coincident_points cs"

definition joined :: "sketch_constraint list \<Rightarrow> uuid \<Rightarrow> uuid \<Rightarrow> bool" where
  "joined cs p q \<longleftrightarrow> (p, q) \<in> (set (edges cs) \<union> (set (edges cs))\<inverse>)\<^sup>*"

lemma map_of_entry_or_insert:
  "map_of (entry_or_insert k v m) k' =
     (if k' = k then (case map_of m k of None \<Rightarrow> Some v | Some w \<Rightarrow> Some w) else map_of m k')"
  by (auto simp: entry_or_insert_def dmap_simps split: option.splits)

definition touches :: "sketch_constraint list \<Rightarrow> uuid \<Rightarrow> constraint_id \<Rightarrow> bool" where
  "touches cs p i \<longleftrightarrow> (\<exists>c \<in> set cs. con_id c = i \<and> (\<exists>a b. coincident_points c = Some (a, b) \<and> p \<in> {a, b}))"

lemma link_coincident_ok:
  assumes "grounded parent" "points.linked parent E"
  shows "\<exists>parent' w'. link_coincident cs (parent, w) = Some (parent', w') \<and> grounded parent' \<and>
    points.linked parent' (E \<union> set (edges cs)) \<and>
    (\<forall>p. map_of w' p = None \<longleftrightarrow> map_of w p = None \<and> (\<forall>i. \<not> touches cs p i)) \<and>
    (\<forall>p i. map_of w' p = Some i \<longrightarrow> map_of w p = Some i \<or> touches cs p i)"
  using assms
proof (induction cs arbitrary: parent w E)
  case Nil
  then show ?case by (simp add: edges_def touches_def List.map_filter_simps)
next
  case (Cons c cs)
  show ?case
  proof (cases "coincident_points c")
    case None
    then show ?thesis
      using Cons.IH [OF Cons.prems, of w] by (simp add: edges_def touches_def List.map_filter_simps)
  next
    case (Some ab)
    obtain a b where ab: "ab = (a, b)" by (cases ab)
    obtain p1 where p1: "uf_union parent a b = Some p1" "grounded p1" "points.linked p1 (insert (a, b) E)"
      using points.linked_join [OF Cons.prems, of a b] by auto
    let ?w = "entry_or_insert b (con_id c) (entry_or_insert a (con_id c) w)"
    obtain p2 w2 where 2: "link_coincident cs (p1, ?w) = Some (p2, w2)" "grounded p2"
        "points.linked p2 (insert (a, b) E \<union> set (edges cs))"
        "\<And>p. map_of w2 p = None \<longleftrightarrow> map_of ?w p = None \<and> (\<forall>i. \<not> touches cs p i)"
        "\<And>p i. map_of w2 p = Some i \<Longrightarrow> map_of ?w p = Some i \<or> touches cs p i"
      using Cons.IH [OF p1(2,3), of ?w] by blast
    have t: "touches (c # cs) p i \<longleftrightarrow> con_id c = i \<and> p \<in> {a, b} \<or> touches cs p i" for p i
      by (auto simp: touches_def Some ab)
    have none: "map_of ?w p = None \<longleftrightarrow> map_of w p = None \<and> p \<notin> {a, b}" for p
      by (auto simp: map_of_entry_or_insert split: option.splits)
    have some: "map_of ?w p = Some i \<Longrightarrow> map_of w p = Some i \<or> con_id c = i \<and> p \<in> {a, b}" for p i
      by (auto simp: map_of_entry_or_insert split: option.splits if_splits)
    have "set (edges (c # cs)) = insert (a, b) (set (edges cs))"
      by (simp add: edges_def Some ab List.map_filter_simps)
    then show ?thesis
      using p1(1) 2 none some by (fastforce simp: Some ab t insert_commute)
  qed
qed

text \<open>What the pass over the distances reports for a constraint, when \<open>R\<close> gives the classes.\<close>

definition dist_report ::
  "(uuid, constraint_id) dmap \<Rightarrow> (uuid \<Rightarrow> uuid) \<Rightarrow> sketch_constraint \<Rightarrow> conflict list" where
  "dist_report witness R c =
     (case separated_points c of
        None \<Rightarrow> []
      | Some (p, q) \<Rightarrow>
          if R p = R q then
            case (case map_of witness p of None \<Rightarrow> map_of witness q | Some w \<Rightarrow> Some w) of
              Some w \<Rightarrow> [(con_id c, w)] | None \<Rightarrow> []
          else [])"

lemma find_points_ok:
  assumes "grounded m"
  shows "\<exists>m'. uf_find m p = Some (m', root_of m p) \<and> grounded m' \<and> root_of m' = root_of m"
  using points.find_spec [OF assms] by auto

lemma distance_conflicts_ok:
  assumes "grounded parent"
  shows "\<exists>parent'. distance_conflicts w cs (parent, out) =
      Some (parent', out @ concat (map (dist_report w (root_of parent)) cs)) \<and>
    grounded parent' \<and> root_of parent' = root_of parent"
  using assms
proof (induction cs arbitrary: parent out)
  case (Cons c cs)
  show ?case
  proof (cases "separated_points c")
    case None
    then show ?thesis using Cons.IH [OF Cons.prems, of out] by (simp add: dist_report_def)
  next
    case (Some pq)
    obtain p q where pq: "pq = (p, q)" by (cases pq)
    obtain p1 where p1: "uf_find parent p = Some (p1, root_of parent p)" "grounded p1" "root_of p1 = root_of parent"
      using find_points_ok [OF Cons.prems] by blast
    obtain p2 where p2: "uf_find p1 q = Some (p2, root_of parent q)" "grounded p2" "root_of p2 = root_of parent"
      using find_points_ok [OF p1(2), of q] p1(3) by auto
    show ?thesis
      using Cons.IH [OF p2(2), of "out @ dist_report w (root_of parent) c"] p1 p2 Some pq
      by (auto simp: dist_report_def Let_def split: option.splits)
  qed
qed simp

text \<open>What the pass over the coordinates can report.\<close>

definition coordinate_clash ::
  "sketch_constraint list \<Rightarrow> (uuid \<Rightarrow> uuid) \<Rightarrow> sketch_constraint \<Rightarrow> sketch_constraint \<Rightarrow> bool" where
  "coordinate_clash cs R c d \<longleftrightarrow> c \<in> set cs \<and> d \<in> set cs \<and>
     (\<exists>x v w p q. fixed_coordinate c = Some (x, v, p) \<and> fixed_coordinate d = Some (x, w, q) \<and>
        R p = R q \<and> abs_above (f64_sub w v) TOL_9)"

definition recorded ::
  "sketch_constraint list \<Rightarrow> (uuid \<Rightarrow> uuid) \<Rightarrow> bool \<Rightarrow> by_root \<Rightarrow> bool" where
  "recorded cs R x m \<longleftrightarrow> (\<forall>r v i. map_of m r = Some (v, i) \<longrightarrow>
     (\<exists>d \<in> set cs. \<exists>q. con_id d = i \<and> fixed_coordinate d = Some (x, v, q) \<and> R q = r))"

lemma recorded_update:
  "recorded cs R x m \<Longrightarrow> d \<in> set cs \<Longrightarrow> fixed_coordinate d = Some (x, v, q) \<Longrightarrow>
   recorded cs R x (AList.update (R q) (v, con_id d) m)"
  by (auto simp: recorded_def dmap_simps)

lemma coordinate_conflicts_ok:
  assumes "grounded parent" "root_of parent = R" "recorded all R True xs" "recorded all R False ys" "set cs \<subseteq> set all"
  shows "\<exists>new. coordinate_conflicts w cs (parent, xs, ys, out) = Some (out @ new) \<and>
    (\<forall>(i, j) \<in> set new. \<exists>c d. con_id c = i \<and> con_id d = j \<and> coordinate_clash all R c d)"
  using assms
proof (induction cs arbitrary: parent xs ys out)
  case (Cons c cs)
  have sub: "set cs \<subseteq> set all" and c: "c \<in> set all" using Cons.prems(5) by auto
  note skip = Cons.IH [OF Cons.prems(1-4) sub, of out]
  show ?case
  proof (cases "fixed_coordinate c")
    case None
    then show ?thesis using skip by simp
  next
    case (Some t)
    obtain x v p where t: "t = (x, v, p)" by (cases t)
    show ?thesis
    proof (cases "contains_key w p")
      case False
      then show ?thesis using skip Some t by simp
    next
      case True
      obtain p1 where p1: "uf_find parent p = Some (p1, R p)" "grounded p1" "root_of p1 = R"
        using find_points_ok [OF Cons.prems(1)] Cons.prems(2) by blast
      let ?m = "if x then xs else ys"
      have rec: "recorded all R x ?m" using Cons.prems(3,4) by auto
      show ?thesis
      proof (cases "map_of ?m (R p)")
        case None
        have xs: "recorded all R True (if x then AList.update (R p) (v, con_id c) xs else xs)"
          and ys: "recorded all R False (if x then ys else AList.update (R p) (v, con_id c) ys)"
          using Cons.prems(3,4) c Some t by (auto intro: recorded_update)
        show ?thesis
          using Cons.IH [OF p1(2,3) xs ys sub, of out] Some t True p1 None by simp
      next
        case (Some old)
        obtain v' j where old: "old = (v', j)" by (cases old)
        obtain d q where d: "d \<in> set all" "con_id d = j" "fixed_coordinate d = Some (x, v', q)" "R q = R p"
          using rec Some old unfolding recorded_def by blast
        let ?new = "if abs_above (f64_sub v' v) TOL_9 then [(con_id c, j)] else []"
        have clash: "\<forall>(i, j) \<in> set ?new. \<exists>c d. con_id c = i \<and> con_id d = j \<and> coordinate_clash all R c d"
          using d c \<open>fixed_coordinate c = Some t\<close> t by (fastforce simp: coordinate_clash_def)
        have step: "coordinate_conflicts w (c # cs) (parent, xs, ys, out) =
            coordinate_conflicts w cs (p1, xs, ys, out @ ?new)"
          using \<open>fixed_coordinate c = Some t\<close> t True p1 Some old by auto
        obtain new where "coordinate_conflicts w cs (p1, xs, ys, out @ ?new) = Some ((out @ ?new) @ new)"
            "\<forall>(i, j) \<in> set new. \<exists>c d. con_id c = i \<and> con_id d = j \<and> coordinate_clash all R c d"
          using Cons.IH [OF p1(2,3) Cons.prems(3,4) sub, of "out @ ?new"] by blast
        then show ?thesis
          unfolding step using clash by (intro exI [of _ "?new @ new"]) auto
      qed
    qed
  qed
qed simp

section \<open>The unsorted report\<close>

definition contradictory :: "sketch_constraint list \<Rightarrow> sketch_constraint \<Rightarrow> sketch_constraint \<Rightarrow> bool" where
  "contradictory cs c d \<longleftrightarrow> constraints_conflict c d \<or>
     (\<exists>p q. separated_points c = Some (p, q) \<and> joined cs p q \<and> coincident_points d \<noteq> None) \<or>
     (\<exists>x v w p q. fixed_coordinate c = Some (x, v, p) \<and> fixed_coordinate d = Some (x, w, q) \<and>
        joined cs p q \<and> abs_above (f64_sub w v) TOL_9)"

definition reported :: "sketch_constraint list \<Rightarrow> constraint_id \<times> constraint_id \<Rightarrow> bool" where
  "reported cs ij \<longleftrightarrow> (\<exists>c d. c \<in> set cs \<and> d \<in> set cs \<and> con_id c = fst ij \<and> con_id d = snd ij \<and>
     fst ij \<noteq> snd ij \<and> contradictory cs c d)"

lemma not_above_nan: "is_nan x \<Longrightarrow> \<not> abs_above x tol"
  using mag_lt by (simp add: abs_above_def f64_lt_def f64_abs_def is_nan_def)

lemma not_above_zero: "f64_magnitude x = 0 \<Longrightarrow> \<not> abs_above x TOL_9 \<and> \<not> abs_above x TOL_10"
  by (simp add: abs_above_def f64_lt_def f64_abs_def f64_ord_def TOL_9_def TOL_10_def f64_negative_def)

lemma nan_nan: "is_nan f64_nan"
  by (simp add: is_nan_def f64_nan_def f64_infinity_def)

lemma not_above_self: "\<not> abs_above (f64_sub v v) TOL_9"
proof -
  consider "is_finite v" | "is_infinite v" | "is_nan v"
    unfolding is_finite_def is_infinite_def is_nan_def by linarith
  then show ?thesis
  proof cases
    case 1
    then show ?thesis using sub_equal not_above_zero by blast
  next
    case 2
    then have "f64_sub v v = f64_nan"
      by (simp add: f64_sub_def f64_add_def is_infinite_def is_nan_def)
    then show ?thesis using not_above_nan nan_nan by simp
  next
    case 3
    then have "f64_sub v v = f64_nan" by (simp add: f64_sub_def f64_add_def)
    then show ?thesis using not_above_nan nan_nan by simp
  qed
qed

lemma pairwise_conflicts_reported:
  "distinct (map con_id cs) \<Longrightarrow> (i, j) \<in> set (pairwise_conflicts cs) \<Longrightarrow>
   \<exists>c d. c \<in> set cs \<and> d \<in> set cs \<and> con_id c = i \<and> con_id d = j \<and> i \<noteq> j \<and> constraints_conflict c d"
proof (induction cs)
  case (Cons a cs)
  from Cons.prems(2) consider d where "d \<in> set cs" "i = con_id a" "j = con_id d" "constraints_conflict a d"
    | "(i, j) \<in> set (pairwise_conflicts cs)"
    by auto
  then show ?case
  proof cases
    case 1
    then have "i \<noteq> j" using Cons.prems(1) by force
    then show ?thesis using 1 by auto
  next
    case 2
    then show ?thesis using Cons.IH Cons.prems(1) by auto
  qed
qed simp

lemma id_determines: "distinct (map con_id cs) \<Longrightarrow> c \<in> set cs \<Longrightarrow> d \<in> set cs \<Longrightarrow> con_id c = con_id d \<Longrightarrow> c = d"
  by (simp add: distinct_map inj_on_def)

lemma separated_not_coincident: "separated_points c \<noteq> None \<Longrightarrow> coincident_points c = None"
  by (auto simp: separated_points_def coincident_points_def split: constraint_type.splits)

lemma edges_iff: "(a, b) \<in> set (edges cs) \<longleftrightarrow> (\<exists>c \<in> set cs. coincident_points c = Some (a, b))"
  by (induction cs) (auto simp: edges_def List.map_filter_simps split: option.splits)

lemma touched_if_joined:
  assumes "joined cs p q" "p \<noteq> q"
  shows "\<exists>i. touches cs p i"
proof -
  have "\<exists>z. (p, z) \<in> set (edges cs) \<union> (set (edges cs))\<inverse>"
    using assms by (auto simp: joined_def elim: converse_rtranclE)
  then obtain z where "(p, z) \<in> set (edges cs) \<or> (z, p) \<in> set (edges cs)" by auto
  then show ?thesis by (auto simp: edges_iff touches_def)
qed

lemma joined_refl: "joined cs p p"
  by (simp add: joined_def)

lemma reportedI:
  "c \<in> set cs \<Longrightarrow> d \<in> set cs \<Longrightarrow> con_id c \<noteq> con_id d \<Longrightarrow> contradictory cs c d \<Longrightarrow>
   reported cs (con_id c, con_id d)"
  unfolding reported_def by auto

lemma in_dist_report:
  assumes "ij \<in> set (dist_report w R c)"
  shows "\<exists>p q i. separated_points c = Some (p, q) \<and> R p = R q \<and> ij = (con_id c, i) \<and>
    (map_of w p = Some i \<or> map_of w q = Some i)"
proof (cases "separated_points c")
  case None
  then show ?thesis using assms by (simp add: dist_report_def)
next
  case (Some pq)
  obtain p q where pq: "pq = (p, q)" by (rule prod.exhaust)
  have R: "R p = R q"
  proof (rule ccontr)
    assume "R p \<noteq> R q"
    then show False using assms Some unfolding dist_report_def pq by simp
  qed
  show ?thesis
    using assms R Some unfolding dist_report_def pq by (cases "map_of w p"; cases "map_of w q") simp_all
qed

lemma raw_conflicts_ok:
  assumes dist: "distinct (map con_id cs)"
  shows "\<exists>out. raw_conflicts cs = Some out \<and> (\<forall>ij \<in> set out. reported cs ij) \<and>
    (\<forall>c \<in> set cs. \<forall>p q. separated_points c = Some (p, q) \<longrightarrow> p \<noteq> q \<longrightarrow> joined cs p q \<longrightarrow>
       (\<exists>i. (con_id c, i) \<in> set out))"
proof -
  have init: "points.linked ([] :: uf_points) {}" by (simp add: points.linked_def root_of_empty)
  obtain parent w where link: "link_coincident cs ([], []) = Some (parent, w)" "grounded parent"
      "points.linked parent (set (edges cs))" "\<And>p. map_of w p = None \<longleftrightarrow> (\<forall>i. \<not> touches cs p i)"
      "\<And>p i. map_of w p = Some i \<Longrightarrow> touches cs p i"
    using link_coincident_ok [OF grounded_empty init, of cs "[]"] by auto
  have same: "root_of parent p = root_of parent q \<longleftrightarrow> joined cs p q" for p q
    using points.linked_same_class [OF link(3)] by (simp add: joined_def)
  have pairs: "\<forall>ij \<in> set (pairwise_conflicts cs). reported cs ij"
    using pairwise_conflicts_reported [OF dist] by (fastforce simp: reported_def contradictory_def)
  show ?thesis
  proof (cases "parent = []")
    case True
    then have "\<not> joined cs p q" if "p \<noteq> q" for p q using same that by (simp add: root_of_empty)
    then show ?thesis using link(1) True pairs by (auto simp: raw_conflicts_def)
  next
    case False
    let ?d = "concat (map (dist_report w (root_of parent)) cs)"
    obtain p' where p': "distance_conflicts w cs (parent, pairwise_conflicts cs) =
        Some (p', pairwise_conflicts cs @ ?d)" "grounded p'" "root_of p' = root_of parent"
      using distance_conflicts_ok [OF link(2)] by blast
    have recs: "recorded cs R x []" for R x by (simp add: recorded_def)
    obtain new where new: "coordinate_conflicts w cs (p', [], [], pairwise_conflicts cs @ ?d) =
        Some ((pairwise_conflicts cs @ ?d) @ new)"
        "\<forall>(i, j) \<in> set new. \<exists>c d. con_id c = i \<and> con_id d = j \<and> coordinate_clash cs (root_of parent) c d"
      using coordinate_conflicts_ok [OF p'(2,3) recs recs order_refl] by blast
    have dists: "reported cs ij" if "ij \<in> set ?d" for ij
    proof -
      from that obtain c where "c \<in> set cs" "ij \<in> set (dist_report w (root_of parent) c)" by auto
      then obtain p q i where c: "c \<in> set cs" "separated_points c = Some (p, q)"
          "root_of parent p = root_of parent q" "ij = (con_id c, i)" "map_of w p = Some i \<or> map_of w q = Some i"
        using in_dist_report by blast
      then have "\<exists>r. touches cs r i" using link(5) by blast
      then obtain d where d: "d \<in> set cs" "con_id d = i" "coincident_points d \<noteq> None" by (auto simp: touches_def)
      moreover have "con_id c \<noteq> con_id d"
        using id_determines [OF dist c(1) d(1)] separated_not_coincident [of c] c(2) d(3) by auto
      moreover have "contradictory cs c d" using c(2,3) d(3) by (simp add: contradictory_def same)
      ultimately show ?thesis using reportedI [OF c(1) d(1)] c(4) d(2) by simp
    qed
    have coords: "reported cs ij" if "ij \<in> set new" for ij
    proof -
      from that new(2) obtain c d where cd: "ij = (con_id c, con_id d)" "coordinate_clash cs (root_of parent) c d"
        by fastforce
      then obtain x v u p q where x: "c \<in> set cs" "d \<in> set cs" "fixed_coordinate c = Some (x, v, p)"
          "fixed_coordinate d = Some (x, u, q)" "joined cs p q" "abs_above (f64_sub u v) TOL_9"
        by (auto simp: coordinate_clash_def same)
      have "con_id c \<noteq> con_id d"
      proof
        assume "con_id c = con_id d"
        then have "c = d" using id_determines [OF dist x(1,2)] by simp
        then show False using x(3,4,6) not_above_self by simp
      qed
      moreover have "contradictory cs c d" using x(3-6) unfolding contradictory_def by blast
      ultimately show ?thesis using reportedI [OF x(1,2)] cd(1) by simp
    qed
    have found: "\<exists>i. (con_id c, i) \<in> set ?d"
      if cpq: "c \<in> set cs" "separated_points c = Some (p, q)" "p \<noteq> q" "joined cs p q" for c p q
    proof -
      have "map_of w p \<noteq> None" using touched_if_joined [OF cpq(4,3)] link(4) by blast
      then obtain i where "map_of w p = Some i" by blast
      then have "(con_id c, i) \<in> set (dist_report w (root_of parent) c)"
        using cpq by (simp add: dist_report_def same)
      then show ?thesis using cpq(1) by auto
    qed
    show ?thesis
    proof (intro exI conjI)
      show "raw_conflicts cs = Some ((pairwise_conflicts cs @ ?d) @ new)"
        using link(1) False p'(1) new(1) by (simp add: raw_conflicts_def)
      show "\<forall>ij \<in> set ((pairwise_conflicts cs @ ?d) @ new). reported cs ij"
        using pairs dists coords by (simp only: set_append ball_Un) blast
      show "\<forall>c \<in> set cs. \<forall>p q. separated_points c = Some (p, q) \<longrightarrow> p \<noteq> q \<longrightarrow> joined cs p q \<longrightarrow>
          (\<exists>i. (con_id c, i) \<in> set ((pairwise_conflicts cs @ ?d) @ new))"
        using found by (simp only: set_append) blast
    qed
  qed
qed

section \<open>The report\<close>

lemma sequence_in_eq:
  assumes "distinct (map con_id cs)" "c \<in> set cs"
  shows "sequence_in cs (con_id c) = con_sequence c"
proof -
  have "distinct (map fst (rev (map (\<lambda>c. (con_id c, con_sequence c)) cs)))"
    using assms(1) by (simp add: comp_def flip: rev_map)
  then have "map_of (rev (map (\<lambda>c. (con_id c, con_sequence c)) cs)) (con_id c) = Some (con_sequence c)"
    using assms(2) by (intro map_of_is_SomeI) auto
  then show ?thesis by (simp add: sequence_in_def)
qed

lemma strict_remdups_adj:
  fixes k :: "'a \<Rightarrow> 'b :: linorder"
  shows "sorted (map k xs) \<Longrightarrow> inj_on k (set xs) \<Longrightarrow> sorted_wrt (\<lambda>x y. k x < k y) (remdups_adj xs)"
proof (induction xs rule: remdups_adj.induct)
  case (3 x y xs)
  show ?case
  proof (cases "x = y")
    case True
    then show ?thesis using 3 by simp
  next
    case False
    have "k x < k z" if "z \<in> set (y # xs)" for z
    proof -
      have "k x \<le> k y" "k y \<le> k z" using 3(3) that by auto
      moreover have "k x \<noteq> k y" using 3(4) False by (auto simp: inj_on_def)
      ultimately show ?thesis by simp
    qed
    then show ?thesis using 3 False by (auto simp: inj_on_def)
  qed
qed simp_all

definition by_sequence :: "constraint_store \<Rightarrow> conflict \<Rightarrow> nat \<times> nat" where
  "by_sequence s = (\<lambda>(i, j). (sequence_in (all_constraints s) i, sequence_in (all_constraints s) j))"

lemma store_ids_distinct: "store_ok s \<Longrightarrow> distinct (map con_id (all_constraints s))"
proof -
  assume ok: "store_ok s"
  have "mset (map con_id (all_constraints s)) = mset (map con_id (map snd (constraints s)))"
    by (simp add: all_constraints_def multiset.map_comp o_def)
  also have "map con_id (map snd (constraints s)) = dkeys (constraints s)"
    using store_okD(2) [OF ok] by auto
  finally show ?thesis using store_okD(1) [OF ok] by (metis mset_eq_imp_distinct_iff)
qed

lemma store_sequences_inj:
  "store_ok s \<Longrightarrow> c \<in> set (all_constraints s) \<Longrightarrow> d \<in> set (all_constraints s) \<Longrightarrow>
   con_sequence c = con_sequence d \<Longrightarrow> c = d"
  using store_okD(3) [of s] by (auto simp: all_constraints_def distinct_map inj_on_def)

text \<open>A reported pair, in the order of insertion.\<close>

definition ordered_report :: "constraint_store \<Rightarrow> conflict \<Rightarrow> bool" where
  "ordered_report s ij \<longleftrightarrow> (\<exists>c d. c \<in> set (all_constraints s) \<and> d \<in> set (all_constraints s) \<and>
     ij = (con_id c, con_id d) \<and> con_sequence c < con_sequence d \<and>
     (contradictory (all_constraints s) c d \<or> contradictory (all_constraints s) d c))"

lemma find_conflicts_ok:
  assumes ok: "store_ok s"
  shows "\<exists>out. find_conflicts s = Some out \<and> (\<forall>ij \<in> set out. ordered_report s ij) \<and>
    sorted_wrt (\<lambda>x y. by_sequence s x < by_sequence s y) out \<and>
    (\<forall>c \<in> set (all_constraints s). \<forall>p q. separated_points c = Some (p, q) \<longrightarrow> p \<noteq> q \<longrightarrow>
       joined (all_constraints s) p q \<longrightarrow> (\<exists>i. (con_id c, i) \<in> set out \<or> (i, con_id c) \<in> set out))"
proof -
  let ?cs = "all_constraints s"
  let ?sq = "sequence_in ?cs" and ?k = "\<lambda>(a, b). (sequence_in ?cs a, sequence_in ?cs b)"
    and ?sw = "\<lambda>(a, b). if sequence_in ?cs b < sequence_in ?cs a then (b, a) else (a, b)"
  note dist = store_ids_distinct [OF ok]
  obtain raw where raw: "raw_conflicts ?cs = Some raw" "\<And>ij. ij \<in> set raw \<Longrightarrow> reported ?cs ij"
    "\<And>c p q. c \<in> set ?cs \<Longrightarrow> separated_points c = Some (p, q) \<Longrightarrow> p \<noteq> q \<Longrightarrow> joined ?cs p q \<Longrightarrow>
       \<exists>i. (con_id c, i) \<in> set raw"
    using raw_conflicts_ok [OF dist] by blast
  let ?l = "map ?sw raw"
  have mem: "set (normalise_conflicts ?sq raw) = ?sw ` set raw"
    by (simp add: normalise_conflicts_def)
  have ord: "ordered_report s (?sw ij)" if m: "ij \<in> set raw" for ij
  proof -
    obtain c d where cd: "c \<in> set ?cs" "d \<in> set ?cs" "ij = (con_id c, con_id d)" "con_id c \<noteq> con_id d"
        "contradictory ?cs c d"
      using raw(2) [OF m] by (cases ij) (auto simp: reported_def)
    have "con_sequence c \<noteq> con_sequence d" using store_sequences_inj [OF ok cd(1,2)] cd(4) by auto
    then show ?thesis
      using cd sequence_in_eq [OF dist cd(1)] sequence_in_eq [OF dist cd(2)]
      unfolding ordered_report_def by (auto simp: not_less le_less)
  qed
  have inj: "inj_on ?k (set ?l)"
  proof (rule inj_onI)
    fix x y
    assume "x \<in> set ?l" "y \<in> set ?l" and eq: "?k x = ?k y"
    then have "ordered_report s x" "ordered_report s y" using ord by auto
    then obtain c d c' d' where c: "c \<in> set ?cs" "d \<in> set ?cs" "x = (con_id c, con_id d)"
        "c' \<in> set ?cs" "d' \<in> set ?cs" "y = (con_id c', con_id d')"
      by (auto simp: ordered_report_def)
    then have "con_sequence c = con_sequence c'" "con_sequence d = con_sequence d'"
      using eq sequence_in_eq [OF dist] by auto
    then show "x = y" using store_sequences_inj [OF ok] c by metis
  qed
  have "sorted_wrt (\<lambda>x y. ?k x < ?k y) (normalise_conflicts ?sq raw)"
    unfolding normalise_conflicts_def by (rule strict_remdups_adj) (use inj in simp_all)
  moreover have "\<exists>i. (con_id c, i) \<in> set (normalise_conflicts ?sq raw) \<or> (i, con_id c) \<in> set (normalise_conflicts ?sq raw)"
    if c: "c \<in> set ?cs" "separated_points c = Some (p, q)" "p \<noteq> q" "joined ?cs p q" for c p q
  proof -
    obtain i where "(con_id c, i) \<in> set raw" using raw(3) [OF c] by blast
    then have "?sw (con_id c, i) \<in> set (normalise_conflicts ?sq raw)" unfolding mem by (rule imageI)
    then show ?thesis by (auto split: if_splits)
  qed
  moreover have "\<forall>ij \<in> set (normalise_conflicts ?sq raw). ordered_report s ij"
    using ord by (auto simp: mem)
  ultimately show ?thesis
    using raw(1) unfolding find_conflicts_def Let_def by_sequence_def by (simp add: case_prod_beta')
qed

text \<open>C22. On every store its operations can produce the search for conflicts comes to an end (no walk
  through the classes of coincident points runs forever), and the report it gives names constraints
  of the store, the earlier inserted one first in every pair, the pairs in strictly ascending order
  of insertion, so that none is repeated.\<close>

theorem conflict_report_in_order:
  assumes "reachable_store s"
  shows "\<exists>out. find_conflicts s = Some out \<and>
    sorted_wrt (\<lambda>x y. by_sequence s x < by_sequence s y) out \<and>
    (\<forall>(i, j) \<in> set out. \<exists>c d. get_constraint s i = Some c \<and> get_constraint s j = Some d \<and>
       con_sequence c < con_sequence d)"
proof -
  have ok: "store_ok s" using assms by (rule reachable_store_ok)
  have "\<exists>c d. get_constraint s i = Some c \<and> get_constraint s j = Some d \<and> con_sequence c < con_sequence d"
    if "ordered_report s (i, j)" for i j
    using that get_listed [OF ok] by (auto simp: ordered_report_def)
  then show ?thesis using find_conflicts_ok [OF ok] by fastforce
qed

text \<open>A distance above the tolerance between two different points that a chain of coincidences of any
  length ties together is always in the report.\<close>

theorem chained_distance_reported:
  assumes "reachable_store s" "c \<in> set (all_constraints s)" "separated_points c = Some (p, q)" "p \<noteq> q"
    and "joined (all_constraints s) p q"
  shows "\<exists>out i. find_conflicts s = Some out \<and> ((con_id c, i) \<in> set out \<or> (i, con_id c) \<in> set out)"
  using find_conflicts_ok [OF reachable_store_ok [OF assms(1)]] assms(2-5) by metis

section \<open>What the constraints mean\<close>

text \<open>A layout of the sketch, over the reals: where the point-like entities are, how long and in what
  direction the lines run, how large the round entities are. A constraint of a kind \<open>find_conflicts\<close>
  says nothing about is met by every layout.\<close>

record layout =
  position :: "entity_ref \<Rightarrow> real \<times> real"
  direction :: "entity_ref \<Rightarrow> real \<times> real"
  extent :: "entity_ref \<Rightarrow> real"
  radius_of :: "entity_ref \<Rightarrow> real"

definition f64_real :: "f64 \<Rightarrow> real" where
  "f64_real v = of_int (f64_units v) / 2 ^ 1074"

definition gauges :: "f64 \<Rightarrow> real \<Rightarrow> bool" where
  "gauges v x \<longleftrightarrow> is_finite v \<and> f64_real v = x"

definition distance :: "real \<times> real \<Rightarrow> real \<times> real \<Rightarrow> real" where
  "distance p q = sqrt ((fst p - fst q)\<^sup>2 + (snd p - snd q)\<^sup>2)"

fun geometric_holds :: "layout \<Rightarrow> geometric_constraint \<Rightarrow> entity_ref list \<Rightarrow> bool" where
  "geometric_holds L Coincident [a, b] \<longleftrightarrow> position L a = position L b"
| "geometric_holds L Parallel [a, b] \<longleftrightarrow>
     fst (direction L a) * snd (direction L b) = snd (direction L a) * fst (direction L b)"
| "geometric_holds L Perpendicular [a, b] \<longleftrightarrow>
     fst (direction L a) * fst (direction L b) + snd (direction L a) * snd (direction L b) = 0"
| "geometric_holds L Horizontal [a] \<longleftrightarrow> snd (direction L a) = 0"
| "geometric_holds L Vertical [a] \<longleftrightarrow> fst (direction L a) = 0"
| "geometric_holds L _ _ \<longleftrightarrow> True"

fun dimensional_holds :: "layout \<Rightarrow> dimensional_constraint \<Rightarrow> entity_ref list \<Rightarrow> bool" where
  "dimensional_holds L (Distance v) [a, b] \<longleftrightarrow> gauges v (distance (position L a) (position L b))"
| "dimensional_holds L (Length v) [a] \<longleftrightarrow> gauges v (extent L a)"
| "dimensional_holds L (Radius v) [a] \<longleftrightarrow> gauges v (radius_of L a)"
| "dimensional_holds L (Diameter v) [a] \<longleftrightarrow> gauges v (2 * radius_of L a)"
| "dimensional_holds L (XCoordinate v) [a] \<longleftrightarrow> gauges v (fst (position L a))"
| "dimensional_holds L (YCoordinate v) [a] \<longleftrightarrow> gauges v (snd (position L a))"
| "dimensional_holds L _ _ \<longleftrightarrow> True"

definition satisfies :: "layout \<Rightarrow> sketch_constraint \<Rightarrow> bool" where
  "satisfies L c \<longleftrightarrow> shape_is_defined c \<and>
     (case con_type c of
        Geometric g \<Rightarrow> geometric_holds L g (con_entities c)
      | Dimensional d \<Rightarrow> dimensional_holds L d (con_entities c))"

lemma gauges_units: "gauges v x \<Longrightarrow> gauges w x \<Longrightarrow> is_finite v \<and> is_finite w \<and> f64_units v = f64_units w"
  by (auto simp: gauges_def f64_real_def)

lemma gauges_agree:
  assumes "gauges v x" "gauges w x"
  shows "\<not> abs_above (f64_sub v w) TOL_9" "\<not> abs_above (f64_sub v w) TOL_10"
  using gauges_units [OF assms] sub_equal not_above_zero by blast+

lemma gauges_double:
  assumes "gauges r x" "gauges d (2 * x)"
  shows "\<not> abs_above (f64_sub (f64_double r) d) TOL_10"
proof -
  have "is_finite r" "is_finite d" "f64_units d = 2 * f64_units r"
    using assms by (auto simp: gauges_def f64_real_def field_simps)
  then show ?thesis using double_exact sub_equal not_above_zero by metis
qed

lemma gauges_zero: "gauges v 0 \<Longrightarrow> \<not> abs_above v TOL_9"
  using not_above_zero units_0 by (auto simp: gauges_def f64_real_def)

lemma distance_self [simp]: "distance p p = 0"
  by (simp add: distance_def)

lemma satisfies_dimension:
  "satisfies L c \<Longrightarrow> con_type c = Dimensional d \<Longrightarrow>
   dimensional_shape d (con_entities c) \<and> dimensional_holds L d (con_entities c)"
  by (simp add: satisfies_def shape_is_defined_def)

lemma satisfies_geometric:
  "satisfies L c \<Longrightarrow> con_type c = Geometric g \<Longrightarrow>
   geometric_shape g (con_entities c) \<and> geometric_holds L g (con_entities c)"
  by (simp add: satisfies_def shape_is_defined_def)

lemma one_entity: "(case e of [a] \<Rightarrow> P a | _ \<Rightarrow> False) \<longleftrightarrow> (\<exists>a. e = [a] \<and> P a)"
  by (cases e rule: remdups_adj.cases) auto

lemma two_entities: "(case e of [a, b] \<Rightarrow> P a b | _ \<Rightarrow> False) \<longleftrightarrow> (\<exists>a b. e = [a, b] \<and> P a b)"
  by (auto split: list.splits)

lemma three_entities: "(case e of [a, b, c] \<Rightarrow> P a b c | _ \<Rightarrow> False) \<longleftrightarrow> (\<exists>a b c. e = [a, b, c] \<and> P a b c)"
  by (auto split: list.splits)

lemma share_iff: "share_entities c d \<longleftrightarrow> set (con_entities c) \<inter> set (con_entities d) \<noteq> {}"
  by (auto simp: share_entities_def list_ex_iff)

lemma dimensional_conflict_cases:
  assumes "dimensional_constraints_conflict c d d1 d2"
  obtains
    (distance) v w where "d1 = Distance v" "d2 = Distance w" "con_entities c = con_entities d" "abs_above (f64_sub v w) TOL_10"
  | (length) v w where "d1 = Length v" "d2 = Length w" "abs_above (f64_sub v w) TOL_10"
  | (radius) v w where "d1 = Radius v" "d2 = Radius w" "abs_above (f64_sub v w) TOL_10"
  | (diameter) v w where "d1 = Radius v \<and> d2 = Diameter w \<or> d1 = Diameter w \<and> d2 = Radius v"
      "abs_above (f64_sub (f64_double v) w) TOL_10"
  | (x) v w where "d1 = XCoordinate v" "d2 = XCoordinate w" "abs_above (f64_sub v w) TOL_10"
  | (y) v w where "d1 = YCoordinate v" "d2 = YCoordinate w" "abs_above (f64_sub v w) TOL_10"
  using assms
  by (cases d1; cases d2) (simp_all add: dimensional_constraints_conflict_def same_entity_pairs_def)

lemma dimensional_conflict_sound:
  assumes c: "satisfies L c" "con_type c = Dimensional d1" and d: "satisfies L d" "con_type d = Dimensional d2"
    and share: "share_entities c d"
  shows "\<not> dimensional_constraints_conflict c d d1 d2"
proof
  note C = satisfies_dimension [OF c] and D = satisfies_dimension [OF d]
  assume "dimensional_constraints_conflict c d d1 d2"
  then show False
  proof (cases rule: dimensional_conflict_cases)
    case (distance v w)
    then show ?thesis using C D gauges_agree by (auto simp: two_positions_def two_entities)
  next
    case (diameter v w)
    then show ?thesis using C D share gauges_double by (auto simp: one_entity share_iff)
  qed (use C D share gauges_agree in \<open>auto simp: one_entity share_iff\<close>)
qed

definition nondegenerate :: "layout \<Rightarrow> bool" where
  "nondegenerate L \<longleftrightarrow> (\<forall>e. direction L e \<noteq> (0, 0))"

lemma parallel_not_perpendicular:
  assumes "nondegenerate L" "geometric_holds L Parallel [a, b]" "geometric_holds L Perpendicular [a, b]"
  shows False
proof -
  obtain p q r s where d: "direction L a = (p, q)" "direction L b = (r, s)" by (metis surj_pair)
  have par: "p * s = q * r" and perp: "p * r + q * s = 0" using assms(2,3) d by auto
  have "(p\<^sup>2 + q\<^sup>2) * (r\<^sup>2 + s\<^sup>2) = (p * r + q * s)\<^sup>2 + (p * s - q * r)\<^sup>2" by algebra
  then have "(p\<^sup>2 + q\<^sup>2) * (r\<^sup>2 + s\<^sup>2) = 0" using par perp by simp
  then have "p = 0 \<and> q = 0 \<or> r = 0 \<and> s = 0" by (simp add: sum_power2_eq_zero_iff)
  then show False using assms(1) d unfolding nondegenerate_def by metis
qed

lemma perpendicular_commute: "geometric_holds L Perpendicular [a, b] \<Longrightarrow> geometric_holds L Perpendicular [b, a]"
  by (simp add: mult.commute)

text \<open>The constraints on which the search can be wrong, or judges angles modulo a rounded \<open>\<pi>\<close>: a pair
  of lines required parallel and another pair, with one line in common, required perpendicular; a
  pair of parallel or perpendicular lines with an angle between them.\<close>

definition plain_lines :: "sketch_constraint list \<Rightarrow> bool" where
  "plain_lines cs \<longleftrightarrow> (\<forall>c \<in> set cs. \<forall>d \<in> set cs.
     (con_type c = Geometric Perpendicular \<and> con_type d = Geometric Parallel \<and> share_entities c d \<longrightarrow>
        set (con_entities c) = set (con_entities d)) \<and>
     (con_type c \<in> {Geometric Parallel, Geometric Perpendicular} \<and> con_entities c = con_entities d \<longrightarrow>
        (\<forall>v. con_type d \<noteq> Dimensional (Angle v))))"

lemma perpendicular_parallel_sound:
  assumes L: "nondegenerate L" and c: "satisfies L c" "con_type c = Geometric Perpendicular"
    and d: "satisfies L d" "con_type d = Geometric Parallel"
    and same: "set (con_entities c) = set (con_entities d)"
  shows False
proof -
  obtain a b where ab: "con_entities c = [a, b]" "geometric_holds L Perpendicular [a, b]"
    using satisfies_geometric [OF c] by (auto simp: two_entities)
  obtain r s where rs: "con_entities d = [r, s]" "geometric_holds L Parallel [r, s]"
    using satisfies_geometric [OF d] by (auto simp: two_entities)
  have "{a, b} = {r, s}" using same ab(1) rs(1) by simp
  then consider "r = a" "s = b" | "r = b" "s = a" by (metis doubleton_eq_iff)
  then have "geometric_holds L Perpendicular [r, s]"
    using ab(2) perpendicular_commute by cases auto
  then show False by (rule parallel_not_perpendicular [OF L rs(2)])
qed

lemma geometric_conflict_cases:
  assumes "geometric_constraints_conflict c d g h"
  obtains (lines) "g = Parallel \<and> h = Perpendicular \<or> g = Perpendicular \<and> h = Parallel"
  | (collinear) "g = Collinear \<and> h = Perpendicular \<or> g = Perpendicular \<and> h = Collinear"
  | (axes) "g = Horizontal \<and> h = Vertical \<or> g = Vertical \<and> h = Horizontal"
  using assms by (cases g; cases h) (simp_all add: geometric_constraints_conflict_def split: if_splits)

lemma line_has_no_position: "is_line e \<Longrightarrow> \<not> has_point_position e"
  by (cases e) simp_all

lemma collinear_perpendicular_disjoint:
  assumes c: "satisfies L c" "con_type c = Geometric Collinear"
    and d: "satisfies L d" "con_type d = Geometric Perpendicular"
  shows "\<not> share_entities c d"
  using satisfies_geometric [OF c] satisfies_geometric [OF d] line_has_no_position
  by (auto simp: two_entities three_entities share_iff)

lemma horizontal_vertical_sound:
  assumes L: "nondegenerate L" and c: "satisfies L c" "con_type c = Geometric Horizontal"
    and d: "satisfies L d" "con_type d = Geometric Vertical"
  shows "\<not> share_entities c d"
proof
  assume "share_entities c d"
  then obtain a where "con_entities c = [a]" "con_entities d = [a]"
    using satisfies_geometric [OF c] satisfies_geometric [OF d] by (auto simp: one_entity share_iff)
  then have "direction L a = (0, 0)"
    using satisfies_geometric [OF c] satisfies_geometric [OF d] by (auto simp: prod_eq_iff)
  then show False using L by (simp add: nondegenerate_def)
qed

lemma share_commute: "share_entities c d \<longleftrightarrow> share_entities d c"
  by (auto simp: share_iff)

lemma geometric_conflict_sound:
  assumes L: "nondegenerate L" and cs: "plain_lines cs" "c \<in> set cs" "d \<in> set cs"
    and c: "satisfies L c" "con_type c = Geometric g" and d: "satisfies L d" "con_type d = Geometric h"
    and share: "share_entities c d"
  shows "\<not> geometric_constraints_conflict c d g h"
proof
  have pp: False if "x \<in> set cs" "y \<in> set cs" "satisfies L x" "satisfies L y" "share_entities x y"
    "con_type x = Geometric Perpendicular" "con_type y = Geometric Parallel" for x y
  proof -
    have "set (con_entities x) = set (con_entities y)" using cs(1) that unfolding plain_lines_def by blast
    then show False using perpendicular_parallel_sound [OF L that(3,6,4,7)] by simp
  qed
  assume "geometric_constraints_conflict c d g h"
  then show False
  proof (cases rule: geometric_conflict_cases)
    case lines
    then show ?thesis using pp [of c d] pp [of d c] cs(2,3) c d share share_commute by blast
  next
    case collinear
    then show ?thesis
      using collinear_perpendicular_disjoint [of L c d] collinear_perpendicular_disjoint [of L d c] c d share share_commute
      by blast
  next
    case axes
    then show ?thesis
      using horizontal_vertical_sound [OF L, of c d] horizontal_vertical_sound [OF L, of d c] c d share share_commute
      by blast
  qed
qed

lemma mixed_conflict_cases:
  assumes "mixed_constraints_conflict x y d g"
  obtains (apart) v where "g = Coincident" "d = Distance v" "con_entities x = con_entities y" "abs_above v TOL_9"
  | (angle) v where "g \<in> {Parallel, Perpendicular}" "d = Angle v" "con_entities x = con_entities y"
  using assms
  by (cases g; cases d) (simp_all add: mixed_constraints_conflict_def same_entity_pairs_def split: if_splits)

lemma mixed_conflict_sound:
  assumes cs: "plain_lines cs" "c \<in> set cs" "d \<in> set cs"
    and c: "satisfies L c" "con_type c = Geometric g" and d: "satisfies L d" "con_type d = Dimensional e"
    and ents: "con_entities x = con_entities y \<longleftrightarrow> con_entities c = con_entities d"
  shows "\<not> mixed_constraints_conflict x y e g"
proof
  assume "mixed_constraints_conflict x y e g"
  then show False
  proof (cases rule: mixed_conflict_cases)
    case (apart v)
    then obtain a b where "con_entities d = [a, b]" "position L a = position L b"
      using satisfies_geometric [OF c] ents by (auto simp: two_entities)
    then have "gauges v 0" using satisfies_dimension [OF d] apart(2) by simp
    then show ?thesis using apart(4) gauges_zero by simp
  next
    case (angle v)
    then show ?thesis using cs c(2) d(2) ents unfolding plain_lines_def by blast
  qed
qed

lemma conflict_sound:
  assumes L: "nondegenerate L" and cs: "plain_lines cs" "c \<in> set cs" "d \<in> set cs"
    and sat: "satisfies L c" "satisfies L d"
  shows "\<not> constraints_conflict c d"
proof (cases "share_entities c d")
  case True
  have mixed: "\<not> mixed_constraints_conflict c d e g"
    if "con_type c = Dimensional e" "con_type d = Geometric g" for e g
    by (rule mixed_conflict_sound [OF cs(1,3,2) sat(2) that(2) sat(1) that(1)]) auto
  show ?thesis
    using dimensional_conflict_sound [OF sat(1) _ sat(2) _ True]
      geometric_conflict_sound [OF L cs sat(1) _ sat(2) _ True]
      mixed_conflict_sound [OF cs sat(1) _ sat(2), of _ _ c d] mixed
    by (cases "con_type c"; cases "con_type d") (auto simp: constraints_conflict_def True)
qed (simp add: constraints_conflict_def)

lemma joined_same_position:
  assumes "\<forall>c \<in> set cs. satisfies L c" "joined cs p q"
  shows "position L (Point p) = position L (Point q)"
proof -
  have edge: "position L (Point a) = position L (Point b)" if "(a, b) \<in> set (edges cs)" for a b
  proof -
    obtain c where c: "c \<in> set cs" "coincident_points c = Some (a, b)" using \<open>(a, b) \<in> set (edges cs)\<close> edges_iff by blast
    have "con_type c = Geometric Coincident \<and> con_entities c = [Point a, Point b]"
      using c(2) by (auto simp: coincident_points_def split: constraint_type.splits geometric_constraint.splits
          list.splits entity_ref.splits)
    then show ?thesis using satisfies_geometric [of L c] assms(1) c(1) by auto
  qed
  have "(p, q) \<in> (set (edges cs) \<union> (set (edges cs))\<inverse>)\<^sup>*" using assms(2) by (simp add: joined_def)
  then show ?thesis
  proof induction
    case (step y z)
    then show ?case using edge by (auto intro: trans)
  qed simp
qed

lemma separated_measures:
  assumes "satisfies L c" "separated_points c = Some (p, q)"
  shows "\<exists>v. gauges v (distance (position L (Point p)) (position L (Point q))) \<and> abs_above v TOL_9"
proof -
  have "\<exists>v. con_type c = Dimensional (Distance v) \<and> abs_above v TOL_9 \<and> con_entities c = [Point p, Point q]"
    using assms(2) by (auto simp: separated_points_def split: constraint_type.splits dimensional_constraint.splits
        list.splits entity_ref.splits if_splits)
  then show ?thesis using satisfies_dimension [OF assms(1)] by auto
qed

lemma coordinate_measures:
  assumes "satisfies L c" "fixed_coordinate c = Some (x, v, p)"
  shows "gauges v (if x then fst (position L (Point p)) else snd (position L (Point p)))"
proof -
  have "con_type c = Dimensional (if x then XCoordinate v else YCoordinate v) \<and> con_entities c = [Point p]"
    using assms(2) by (auto simp: fixed_coordinate_def split: constraint_type.splits dimensional_constraint.splits
        list.splits entity_ref.splits)
  then show ?thesis using satisfies_dimension [OF assms(1)] by (auto split: if_splits)
qed

lemma contradictory_sound:
  assumes L: "nondegenerate L" and cs: "plain_lines cs" "c \<in> set cs" "d \<in> set cs"
    and sat: "\<forall>c \<in> set cs. satisfies L c"
  shows "\<not> contradictory cs c d"
proof
  have c: "satisfies L c" and d: "satisfies L d" using cs sat by blast+
  assume "contradictory cs c d"
  then consider "constraints_conflict c d"
    | p q where "separated_points c = Some (p, q)" "joined cs p q"
    | x v w p q where "fixed_coordinate c = Some (x, v, p)" "fixed_coordinate d = Some (x, w, q)"
        "joined cs p q" "abs_above (f64_sub w v) TOL_9"
    unfolding contradictory_def by blast
  then show False
  proof cases
    case 1
    then show ?thesis using conflict_sound [OF L cs c d] by simp
  next
    case 2
    then show ?thesis
      using separated_measures [OF c 2(1)] joined_same_position [OF sat 2(2)] gauges_zero by auto
  next
    case 3
    have "gauges v (if x then fst (position L (Point q)) else snd (position L (Point q)))"
      using coordinate_measures [OF c 3(1)] joined_same_position [OF sat 3(3)] by (cases x) simp_all
    then show ?thesis
      using gauges_agree(1) [OF coordinate_measures [OF d 3(2)]] 3(4) by blast
  qed
qed

text \<open>C21. A sketch some layout satisfies, with no line of no direction, gets an empty report: every pair
  the search reports is a real contradiction. The claim leaves out the two cases \<open>plain_lines\<close> names.\<close>

theorem satisfiable_sketch_reports_nothing:
  assumes "reachable_store s" "nondegenerate L" "\<forall>c \<in> set (all_constraints s). satisfies L c"
    and "plain_lines (all_constraints s)"
  shows "find_conflicts s = Some []"
proof -
  obtain out where out: "find_conflicts s = Some out" "\<forall>ij \<in> set out. ordered_report s ij"
    using find_conflicts_ok [OF reachable_store_ok [OF assms(1)]] by blast
  have "\<not> ordered_report s ij" for ij
    using contradictory_sound [OF assms(2,4) _ _ assms(3)] unfolding ordered_report_def by blast
  then have "out = []" using out(2) by (cases out) auto
  then show ?thesis using out(1) by simp
qed

section \<open>Examples\<close>

definition chain_store :: constraint_store where
  "chain_store =
     fst (add_constraint (fst (add_constraint (fst (add_constraint new_store
       (new_geometric (ConstraintId 1) Coincident [Point 1, Point 2] High)))
       (new_geometric (ConstraintId 2) Coincident [Point 3, Point 2] High)))
       (new_dimensional (ConstraintId 3) (Distance 4607182418800017408) [Point 1, Point 3] High))"

lemmas store_eval = new_store_def new_geometric_def new_dimensional_def add_constraint_def index_push_def
  u64_bound_def wrapping_succ_def UNSEQUENCED_def Let_def

lemma chain_store_reachable: "reachable_store chain_store"
  unfolding chain_store_def by (intro reachable_store.intros) (simp_all add: store_eval)

lemma chain_listing:
  "all_constraints chain_store =
     [(new_geometric (ConstraintId 1) Coincident [Point 1, Point 2] High)\<lparr>con_sequence := 1\<rparr>,
      (new_geometric (ConstraintId 2) Coincident [Point 3, Point 2] High)\<lparr>con_sequence := 2\<rparr>,
      (new_dimensional (ConstraintId 3) (Distance 4607182418800017408) [Point 1, Point 3] High)\<lparr>con_sequence := 3\<rparr>]"
  by (simp add: all_constraints_def chain_store_def store_eval)

lemma one_above: "abs_above 4607182418800017408 TOL_9"
  by (simp add: abs_above_def f64_lt_def f64_abs_def is_nan_def f64_infinity_def f64_magnitude_def
      f64_ord_def f64_of_def f64_negative_def TOL_9_def)

lemma chain_joined: "joined (all_constraints chain_store) 1 3"
proof -
  have "set (edges (all_constraints chain_store)) = {(1, 2), (3, 2)}"
    by (simp add: chain_listing edges_def List.map_filter_simps coincident_points_def new_geometric_def
        new_dimensional_def)
  then show ?thesis
    unfolding joined_def
    by (intro converse_rtrancl_into_rtrancl [of 1 2] converse_rtrancl_into_rtrancl [of 2 3] rtrancl_refl) simp_all
qed

definition square_store :: constraint_store where
  "square_store = fst (add_constraint (fst (add_constraint new_store
       (new_geometric (ConstraintId 1) Parallel [Line 1, Line 3] High)))
       (new_geometric (ConstraintId 2) Perpendicular [Line 1, Line 2] High))"

definition square_layout :: layout where
  "square_layout = \<lparr>position = (\<lambda>_. (0, 0)), direction = (\<lambda>e. if e = Line 2 then (0, 1) else (1, 0)),
     extent = (\<lambda>_. 1), radius_of = (\<lambda>_. 1)\<rparr>"

lemma square_listing:
  "all_constraints square_store =
     [(new_geometric (ConstraintId 1) Parallel [Line 1, Line 3] High)\<lparr>con_sequence := 1\<rparr>,
      (new_geometric (ConstraintId 2) Perpendicular [Line 1, Line 2] High)\<lparr>con_sequence := 2\<rparr>]"
  by (simp add: all_constraints_def square_store_def store_eval)

text \<open>The case left out is a false alarm of the search: the parallel and the perpendicular sides of a
  rectangle are reported as contradictory, because the two constraints share a line, though a layout
  satisfies both.\<close>

theorem rectangle_false_alarm:
  "reachable_store square_store \<and> nondegenerate square_layout \<and>
   list_all (satisfies square_layout) (all_constraints square_store) \<and>
   find_conflicts square_store = Some [(ConstraintId 1, ConstraintId 2)]"
proof (intro conjI)
  show "reachable_store square_store"
    unfolding square_store_def by (intro reachable_store.intros) (simp_all add: store_eval)
  show "nondegenerate square_layout" by (simp add: nondegenerate_def square_layout_def)
  show "list_all (satisfies square_layout) (all_constraints square_store)"
    by (simp add: square_listing satisfies_def shape_is_defined_def new_geometric_def square_layout_def)
  show "find_conflicts square_store = Some [(ConstraintId 1, ConstraintId 2)]"
    by (simp add: find_conflicts_def square_listing raw_conflicts_def coincident_points_def constraints_conflict_def
        geometric_constraints_conflict_def share_entities_def normalise_conflicts_def sequence_in_def new_geometric_def)
qed

theorem chained_distance_reported_witness:
  "\<exists>out i. find_conflicts chain_store = Some out \<and> ((ConstraintId 3, i) \<in> set out \<or> (i, ConstraintId 3) \<in> set out)"
proof -
  have "\<exists>out i. find_conflicts chain_store = Some out \<and>
      ((con_id (all_constraints chain_store ! 2), i) \<in> set out \<or> (i, con_id (all_constraints chain_store ! 2)) \<in> set out)"
    by (rule chained_distance_reported [OF chain_store_reachable _ _ _ chain_joined])
      (simp_all add: chain_listing separated_points_def new_dimensional_def one_above)
  then show ?thesis by (simp add: chain_listing new_dimensional_def)
qed

theorem conflict_report_in_order_witness:
  "\<exists>out. find_conflicts chain_store = Some out \<and> sorted_wrt (\<lambda>x y. by_sequence chain_store x < by_sequence chain_store y) out"
  using conflict_report_in_order [OF chain_store_reachable] by blast

definition flat_store :: constraint_store where
  "flat_store = fst (add_constraint (fst (add_constraint new_store
       (new_geometric (ConstraintId 1) Horizontal [Line 1] High)))
       (new_dimensional (ConstraintId 2) (XCoordinate 0) [Point 1] High))"

theorem satisfiable_sketch_reports_nothing_witness: "find_conflicts flat_store = Some []"
proof (rule satisfiable_sketch_reports_nothing)
  have listing: "all_constraints flat_store =
     [(new_geometric (ConstraintId 1) Horizontal [Line 1] High)\<lparr>con_sequence := 1\<rparr>,
      (new_dimensional (ConstraintId 2) (XCoordinate 0) [Point 1] High)\<lparr>con_sequence := 2\<rparr>]"
    by (simp add: all_constraints_def flat_store_def store_eval)
  have zero: "gauges 0 0"
    by (simp add: gauges_def is_finite_def f64_real_def f64_units_def f64_magnitude_def f64_infinity_def mag_units_def Let_def)
  show "reachable_store flat_store"
    unfolding flat_store_def by (intro reachable_store.intros) (simp_all add: store_eval)
  show "nondegenerate square_layout" by (simp add: nondegenerate_def square_layout_def)
  show "\<forall>c \<in> set (all_constraints flat_store). satisfies square_layout c"
    by (simp add: listing satisfies_def shape_is_defined_def new_geometric_def new_dimensional_def square_layout_def zero)
  show "plain_lines (all_constraints flat_store)"
    by (simp add: plain_lines_def listing new_geometric_def new_dimensional_def)
qed

end
