(* ===== verification/Sketch_Plan.thy ===== *)
theory Sketch_Plan
  imports Sketch_Constraints "HOL-Library.Option_ord"
begin

text \<open>
  \<^verbatim>\<open>geometry-engine/src/sketch2d/dr_plan.rs\<close>: the plan of solve steps for one component of a sketch,
  found by placing entities one by one and by growing rigid clusters, and the per-entity analysis of
  what is left free. A \<^verbatim>\<open>BTreeSet\<close> is the ascending list of its members and a \<^verbatim>\<open>BTreeMap\<close> the list of
  its entries by ascending key. Sums of degrees of freedom are unbounded here.
\<close>

section \<open>Ordered sets and maps\<close>

definition bset_insert :: "'a :: linorder \<Rightarrow> 'a list \<Rightarrow> 'a list" where
  "bset_insert x s = (if x \<in> set s then s else insort x s)"

definition bset_extend :: "'a :: linorder list \<Rightarrow> 'a list \<Rightarrow> 'a list" where
  "bset_extend s t = fold bset_insert t s"

definition bset_shared :: "'a list \<Rightarrow> 'a list \<Rightarrow> nat" where
  "bset_shared s t = length (filter (\<lambda>x. x \<in> set t) s)"

fun bmap_insert :: "'k :: linorder \<Rightarrow> 'v \<Rightarrow> ('k \<times> 'v) list \<Rightarrow> ('k \<times> 'v) list" where
  "bmap_insert k v [] = [(k, v)]"
| "bmap_insert k v ((k', v') # m) =
     (if k < k' then (k, v) # (k', v') # m else if k = k' then (k, v) # m
      else (k', v') # bmap_insert k v m)"

lemma set_bset_insert [simp]: "set (bset_insert x s) = insert x (set s)"
  by (auto simp: bset_insert_def set_insort_key)

lemma set_bset_extend [simp]: "set (bset_extend s t) = set s \<union> set t"
  by (induction t arbitrary: s) (auto simp: bset_extend_def)

lemma strict_bset_insert: "sorted_wrt (<) s \<Longrightarrow> sorted_wrt (<) (bset_insert x s)"
  by (auto simp: bset_insert_def strict_sorted_iff sorted_insort distinct_insort)

lemma strict_bset_extend: "sorted_wrt (<) s \<Longrightarrow> sorted_wrt (<) (bset_extend s t)"
  unfolding bset_extend_def by (induction t arbitrary: s) (simp_all add: strict_bset_insert)

lemma map_of_bmap_insert:
  "sorted_wrt (<) (map fst m) \<Longrightarrow> map_of (bmap_insert k v m) = (map_of m)(k \<mapsto> v)"
proof (induction m)
  case (Cons a m)
  show ?case
  proof (cases a)
    case (Pair k' v')
    show ?thesis
    proof (cases k k' rule: linorder_cases)
      case greater
      then show ?thesis using Cons by (auto simp: Pair fun_eq_iff)
    qed (use Cons.prems Pair in \<open>auto simp: fun_eq_iff map_of_eq_None_iff\<close>)
  qed
qed simp

lemma keys_bmap_insert: "fst ` set (bmap_insert k v m) = insert k (fst ` set m)"
  by (induction k v m rule: bmap_insert.induct) (simp_all add: insert_commute split: if_split)

lemma strict_bmap_insert: "sorted_wrt (<) (map fst m) \<Longrightarrow> sorted_wrt (<) (map fst (bmap_insert k v m))"
proof (induction m)
  case (Cons a m)
  obtain k' v' where a: "a = (k', v')" by (cases a)
  have "\<forall>x \<in> fst ` set m. k' < x" "sorted_wrt (<) (map fst m)" using Cons.prems a by auto
  moreover have "fst ` set (bmap_insert k v m) = insert k (fst ` set m)" by (rule keys_bmap_insert)
  ultimately show ?case using Cons.IH
    by (cases k k' rule: linorder_cases) (auto simp: a)
qed simp

section \<open>The abstract component\<close>

record plan_entity =
  pe_entity :: entity_ref
  pe_free_dofs :: nat
  pe_cluster_capable :: bool

record plan_constraint =
  pc_index :: nat
  pc_dof_removed :: nat
  pc_hard :: bool
  pc_enforced :: bool
  pc_grounded :: bool
  pc_vars :: "entity_ref list"

datatype plan_step =
    Extend entity_ref "nat list" "nat list"
  | PlaceCluster "entity_ref list" "nat list" "nat list" "nat list"

fun placed_entities :: "plan_step \<Rightarrow> entity_ref list" where
  "placed_entities (Extend e _ _) = [e]"
| "placed_entities (PlaceCluster es _ _ _) = es"

record dr_plan =
  plan_steps :: "plan_step list"

fun geometric_references_frame :: "geometric_constraint \<Rightarrow> bool" where
  "geometric_references_frame Horizontal = True"
| "geometric_references_frame Vertical = True"
| "geometric_references_frame ContactConstraint = True"
| "geometric_references_frame _ = False"

fun dimensional_references_frame :: "dimensional_constraint \<Rightarrow> bool" where
  "dimensional_references_frame (XCoordinate _) = True"
| "dimensional_references_frame (YCoordinate _) = True"
| "dimensional_references_frame (Slope _) = True"
| "dimensional_references_frame (CenterOfMass _ _) = True"
| "dimensional_references_frame (MomentOfInertia _) = True"
| "dimensional_references_frame _ = False"

fun references_frame :: "constraint_type \<Rightarrow> bool" where
  "references_frame (Geometric g) = geometric_references_frame g"
| "references_frame (Dimensional d) = dimensional_references_frame d"

fun is_hard_priority :: "constraint_priority \<Rightarrow> bool" where
  "is_hard_priority Required = True"
| "is_hard_priority High = True"
| "is_hard_priority _ = False"

section \<open>The state of the discovery\<close>

record discovery =
  d_constraints :: "plan_constraint list"
  d_free :: "(entity_ref \<times> nat) list"
  d_cluster_capable :: "entity_ref list"
  d_placed :: "entity_ref list"
  d_consumed :: "bool list"
  d_steps :: "plan_step list"

definition free_of :: "discovery \<Rightarrow> entity_ref \<Rightarrow> nat" where
  "free_of d e = (case map_of (d_free d) e of None \<Rightarrow> 0 | Some n \<Rightarrow> n)"

text \<open>The positions and constraints still to consume that drive the solution.\<close>

definition unconsumed_hard :: "discovery \<Rightarrow> (nat \<times> plan_constraint) list" where
  "unconsumed_hard d = filter (\<lambda>(i, c). \<not> d_consumed d ! i \<and> pc_hard c) (enumerate 0 (d_constraints d))"

definition dof_sum :: "(nat \<times> plan_constraint) list \<Rightarrow> nat" where
  "dof_sum ics = sum_list (map (\<lambda>(i, c). pc_dof_removed c) ics)"

definition consume :: "nat list \<Rightarrow> bool list \<Rightarrow> bool list" where
  "consume is b = fold (\<lambda>i b. b[i := True]) is b"

definition matching_hard :: "discovery \<Rightarrow> entity_ref \<Rightarrow> entity_ref list \<Rightarrow> nat \<Rightarrow> nat list option" where
  "matching_hard d target scope expected =
     (let ics = filter (\<lambda>(i, c). target \<in> set (pc_vars c) \<and> (\<forall>v \<in> set (pc_vars c). v \<in> set scope))
                  (unconsumed_hard d)
      in if ics \<noteq> [] \<and> dof_sum ics = expected then Some (map fst ics) else None)"

definition extend_step :: "discovery \<Rightarrow> entity_ref \<Rightarrow> nat list \<Rightarrow> discovery" where
  "extend_step d e indices =
     d\<lparr>d_consumed := consume indices (d_consumed d),
       d_placed := bset_insert e (d_placed d),
       d_steps := d_steps d @ [Extend e indices []]\<rparr>"

fun extend_candidates :: "discovery \<Rightarrow> (entity_ref \<times> nat) list \<Rightarrow> discovery option" where
  "extend_candidates d [] = None"
| "extend_candidates d ((e, dofs) # cands) =
     (case matching_hard d e (bset_insert e (d_placed d)) dofs of
        Some indices \<Rightarrow> Some (extend_step d e indices)
      | None \<Rightarrow> extend_candidates d cands)"

definition try_extend :: "discovery \<Rightarrow> discovery option" where
  "try_extend d = extend_candidates d (filter (\<lambda>(e, _). e \<notin> set (d_placed d)) (d_free d))"

section \<open>Rigid clusters\<close>

definition cluster_pool :: "discovery \<Rightarrow> entity_ref list" where
  "cluster_pool d = filter (\<lambda>e. e \<notin> set (d_placed d)) (d_cluster_capable d)"

definition internal_candidates :: "discovery \<Rightarrow> entity_ref list \<Rightarrow> plan_constraint list" where
  "internal_candidates d pool =
     map snd (filter (\<lambda>(i, c). \<not> pc_grounded c \<and> pc_vars c \<noteq> [] \<and> (\<forall>v \<in> set (pc_vars c). v \<in> set pool))
       (unconsumed_hard d))"

definition dofs_between :: "plan_constraint list \<Rightarrow> entity_ref list \<Rightarrow> entity_ref option \<Rightarrow> nat" where
  "dofs_between cands scope target =
     sum_list (map pc_dof_removed (filter (\<lambda>c. (\<forall>v \<in> set (pc_vars c). v \<in> set scope) \<and>
       (case target of None \<Rightarrow> True | Some t \<Rightarrow> t \<in> set (pc_vars c))) cands))"

type_synonym clusters = "entity_ref list list"

fun seed_with :: "(entity_ref \<Rightarrow> nat) \<Rightarrow> plan_constraint list \<Rightarrow> entity_ref \<Rightarrow> entity_ref list \<Rightarrow> clusters \<Rightarrow> clusters" where
  "seed_with free cands a [] cl = cl"
| "seed_with free cands a (b # bs) cl =
     (if list_ex (\<lambda>c. a \<in> set c \<and> b \<in> set c) cl then seed_with free cands a bs cl
      else
        let pair = bset_insert b (bset_insert a []); free_sum = free a + free b
        in seed_with free cands a bs
             (if 3 \<le> free_sum \<and> dofs_between cands pair None = free_sum - 3 then cl @ [pair] else cl))"

fun pair_seeds :: "(entity_ref \<Rightarrow> nat) \<Rightarrow> plan_constraint list \<Rightarrow> entity_ref list \<Rightarrow> clusters \<Rightarrow> clusters" where
  "pair_seeds free cands [] cl = cl"
| "pair_seeds free cands (a # pool) cl = pair_seeds free cands pool (seed_with free cands a pool cl)"

definition sort_clusters :: "clusters \<Rightarrow> clusters" where
  "sort_clusters cl = sort_key (\<lambda>c. case c of [] \<Rightarrow> None | e # _ \<Rightarrow> Some e) cl"

definition joins_cluster ::
  "(entity_ref \<Rightarrow> nat) \<Rightarrow> plan_constraint list \<Rightarrow> entity_ref list \<Rightarrow> entity_ref \<Rightarrow> bool" where
  "joins_cluster free cands c e \<longleftrightarrow>
     e \<notin> set c \<and> 0 < free e \<and> dofs_between cands (bset_insert e c) (Some e) = free e"

fun extend_cluster ::
  "(entity_ref \<Rightarrow> nat) \<Rightarrow> plan_constraint list \<Rightarrow> entity_ref list \<Rightarrow> clusters \<Rightarrow> clusters option" where
  "extend_cluster free cands pool [] = None"
| "extend_cluster free cands pool (c # cl) =
     (case find (joins_cluster free cands c) pool of
        Some e \<Rightarrow> Some (bset_insert e c # cl)
      | None \<Rightarrow> map_option (\<lambda>cl'. c # cl') (extend_cluster free cands pool cl))"

text \<open>The first cluster of a list with a property, and the list without it.\<close>

fun take_first :: "('a \<Rightarrow> bool) \<Rightarrow> 'a list \<Rightarrow> ('a \<times> 'a list) option" where
  "take_first P [] = None"
| "take_first P (x # xs) =
     (if P x then Some (x, xs) else map_option (\<lambda>(y, ys). (y, x # ys)) (take_first P xs))"

fun merge_two :: "clusters \<Rightarrow> clusters option" where
  "merge_two [] = None"
| "merge_two (c # cl) =
     (case take_first (\<lambda>c'. 2 \<le> bset_shared c c') cl of
        Some (c', cl') \<Rightarrow> Some (bset_extend c c' # cl')
      | None \<Rightarrow> map_option (\<lambda>cl'. c # cl') (merge_two cl))"

text \<open>For a first cluster: the first pair \<open>j < k\<close> behind it that closes a triangle with it.\<close>

fun triangle_with :: "entity_ref list \<Rightarrow> clusters \<Rightarrow> (entity_ref list \<times> entity_ref list \<times> clusters) option" where
  "triangle_with c [] = None"
| "triangle_with c (cj # cl) =
     (case (if bset_shared c cj = 0 then None
            else take_first (\<lambda>ck. 1 \<le> bset_shared cj ck \<and> 1 \<le> bset_shared c ck) cl) of
        Some (ck, cl') \<Rightarrow> Some (cj, ck, cl')
      | None \<Rightarrow> map_option (\<lambda>(x, y, cl'). (x, y, cj # cl')) (triangle_with c cl))"

fun merge_three :: "clusters \<Rightarrow> clusters option" where
  "merge_three [] = None"
| "merge_three (c # cl) =
     (case triangle_with c cl of
        Some (cj, ck, cl') \<Rightarrow> Some (bset_extend (bset_extend c cj) ck # cl')
      | None \<Rightarrow> map_option (\<lambda>cl'. c # cl') (merge_three cl))"

text \<open>One round of the loop, on sorted clusters: \<open>None\<close> when nothing changes.\<close>

definition cluster_round ::
  "(entity_ref \<Rightarrow> nat) \<Rightarrow> plan_constraint list \<Rightarrow> entity_ref list \<Rightarrow> clusters \<Rightarrow> clusters option" where
  "cluster_round free cands pool cl =
     (case extend_cluster free cands pool cl of
        Some cl' \<Rightarrow> Some cl'
      | None \<Rightarrow>
     (case merge_two cl of
        Some cl' \<Rightarrow> Some cl'
      | None \<Rightarrow> merge_three cl))"

subsection \<open>The rounds end\<close>

definition missing :: "entity_ref list \<Rightarrow> clusters \<Rightarrow> nat" where
  "missing pool cl = sum_list (map (\<lambda>c. card (set pool - set c)) cl)"

lemma find_mem: "find P xs = Some x \<Longrightarrow> x \<in> set xs \<and> P x"
  by (induction xs) (auto split: if_splits)

lemma extend_cluster_decreases:
  "extend_cluster free cands pool cl = Some cl' \<Longrightarrow> length cl' = length cl \<and> missing pool cl' < missing pool cl"
proof (induction cl arbitrary: cl')
  case (Cons c cl)
  show ?case
  proof (cases "find (joins_cluster free cands c) pool")
    case None
    then show ?thesis using Cons by (auto simp: missing_def)
  next
    case (Some e)
    then have "e \<in> set pool" "e \<notin> set c" using find_mem by (force simp: joins_cluster_def)+
    then have "set pool - set (bset_insert e c) \<subset> set pool - set c" by auto
    then have "card (set pool - set (bset_insert e c)) < card (set pool - set c)"
      by (rule psubset_card_mono [rotated]) simp
    then show ?thesis using Some Cons.prems by (auto simp: missing_def)
  qed
qed simp

lemma take_first_length: "take_first P xs = Some (y, ys) \<Longrightarrow> length xs = Suc (length ys)"
  by (induction xs arbitrary: ys) (auto split: if_splits)

lemma merge_two_length: "merge_two cl = Some cl' \<Longrightarrow> length cl' < length cl"
  by (induction cl arbitrary: cl') (auto split: option.splits dest: take_first_length)

lemma triangle_with_length: "triangle_with c cl = Some (x, y, cl') \<Longrightarrow> length cl = Suc (Suc (length cl'))"
  by (induction cl arbitrary: cl') (auto split: option.splits if_splits dest: take_first_length)

lemma merge_three_length: "merge_three cl = Some cl' \<Longrightarrow> length cl' < length cl"
  by (induction cl arbitrary: cl') (auto split: option.splits dest: triangle_with_length)

lemma missing_sort: "missing pool (sort_clusters cl) = missing pool cl"
proof -
  let ?f = "\<lambda>c. card (set pool - set c)"
  have "mset (map ?f (sort_clusters cl)) = mset (map ?f cl)" by (simp add: sort_clusters_def)
  then have "sum_mset (mset (map ?f (sort_clusters cl))) = sum_mset (mset (map ?f cl))" by (rule arg_cong)
  then show ?thesis unfolding missing_def sum_mset_sum_list .
qed

lemma length_sort_clusters [simp]: "length (sort_clusters cl) = length cl"
  by (simp add: sort_clusters_def)

function cluster_fixpoint ::
  "(entity_ref \<Rightarrow> nat) \<Rightarrow> plan_constraint list \<Rightarrow> entity_ref list \<Rightarrow> clusters \<Rightarrow> clusters" where
  "cluster_fixpoint free cands pool cl =
     (case cluster_round free cands pool (sort_clusters cl) of
        Some cl' \<Rightarrow> cluster_fixpoint free cands pool cl'
      | None \<Rightarrow> sort_clusters cl)"
  by auto
termination
proof (relation "measures [\<lambda>(free, cands, pool, cl). length cl, \<lambda>(free, cands, pool, cl). missing pool cl]")
  fix free cands pool cl cl'
  assume "cluster_round free cands pool (sort_clusters cl) = Some cl'"
  then consider (extended) "extend_cluster free cands pool (sort_clusters cl) = Some cl'"
    | (merged) "merge_two (sort_clusters cl) = Some cl' \<or> merge_three (sort_clusters cl) = Some cl'"
    by (auto simp: cluster_round_def split: option.splits)
  then have "length cl' < length cl \<or> length cl' = length cl \<and> missing pool cl' < missing pool cl"
  proof cases
    case extended
    then show ?thesis using extend_cluster_decreases [OF extended] by (simp add: missing_sort)
  next
    case merged
    then show ?thesis using merge_two_length [of "sort_clusters cl" cl'] merge_three_length [of "sort_clusters cl" cl'] by auto
  qed
  then show "((free, cands, pool, cl'), free, cands, pool, cl)
      \<in> measures [\<lambda>(free, cands, pool, cl). length cl, \<lambda>(free, cands, pool, cl). missing pool cl]"
    by simp
qed simp

declare cluster_fixpoint.simps [simp del]

definition discover_rigid_clusters :: "discovery \<Rightarrow> clusters" where
  "discover_rigid_clusters d =
     (let pool = cluster_pool d
      in if length pool < 2 then []
         else let cands = internal_candidates d pool
              in cluster_fixpoint (free_of d) cands pool (pair_seeds (free_of d) cands pool []))"

subsection \<open>Clusters stay in the pool\<close>

definition clusters_in :: "entity_ref set \<Rightarrow> clusters \<Rightarrow> bool" where
  "clusters_in P cl \<longleftrightarrow> (\<forall>c \<in> set cl. set c \<subseteq> P \<and> sorted_wrt (<) c)"

lemma clusters_in_simps [simp]:
  "clusters_in P []" "clusters_in P (c # cl) \<longleftrightarrow> set c \<subseteq> P \<and> sorted_wrt (<) c \<and> clusters_in P cl"
  "clusters_in P (cl @ cl') \<longleftrightarrow> clusters_in P cl \<and> clusters_in P cl'"
  "clusters_in P (sort_clusters cl) \<longleftrightarrow> clusters_in P cl"
  by (auto simp: clusters_in_def sort_clusters_def)

lemma seed_with_in: "clusters_in P cl \<Longrightarrow> a \<in> P \<Longrightarrow> set bs \<subseteq> P \<Longrightarrow> clusters_in P (seed_with free cands a bs cl)"
  by (induction bs arbitrary: cl) (auto simp: Let_def strict_bset_insert)

lemma pair_seeds_in: "clusters_in P cl \<Longrightarrow> set pool \<subseteq> P \<Longrightarrow> clusters_in P (pair_seeds free cands pool cl)"
  by (induction pool arbitrary: cl) (auto simp: seed_with_in)

lemma extend_cluster_in:
  "clusters_in (set pool) cl \<Longrightarrow> extend_cluster free cands pool cl = Some cl' \<Longrightarrow> clusters_in (set pool) cl'"
  by (induction cl arbitrary: cl') (auto split: option.splits simp: strict_bset_insert dest: find_mem)

lemma take_first_in: "take_first Q cl = Some (c, cl') \<Longrightarrow> clusters_in P cl \<Longrightarrow> clusters_in P (c # cl')"
  by (induction cl arbitrary: cl') (auto split: if_splits)

lemma merge_two_in: "merge_two cl = Some cl' \<Longrightarrow> clusters_in P cl \<Longrightarrow> clusters_in P cl'"
proof (induction cl arbitrary: cl')
  case (Cons c cl)
  show ?case
  proof (cases "take_first (\<lambda>c'. 2 \<le> bset_shared c c') cl")
    case None
    then show ?thesis using Cons by auto
  next
    case (Some r)
    then show ?thesis using Cons.prems take_first_in [of _ cl "fst r" "snd r"]
      by (cases r) (auto simp: strict_bset_extend)
  qed
qed simp

lemma triangle_with_in:
  "triangle_with c cl = Some (x, y, cl') \<Longrightarrow> clusters_in P cl \<Longrightarrow> clusters_in P (x # y # cl')"
proof (induction cl arbitrary: cl')
  case (Cons a cl)
  show ?case
  proof (cases "if bset_shared c a = 0 then None
      else take_first (\<lambda>ck. 1 \<le> bset_shared a ck \<and> 1 \<le> bset_shared c ck) cl")
    case None
    then show ?thesis using Cons by auto
  next
    case (Some r)
    then show ?thesis using Cons.prems take_first_in [of _ cl "fst r" "snd r"]
      by (cases r) (auto split: if_splits)
  qed
qed simp

lemma merge_three_in: "merge_three cl = Some cl' \<Longrightarrow> clusters_in P cl \<Longrightarrow> clusters_in P cl'"
proof (induction cl arbitrary: cl')
  case (Cons c cl)
  show ?case
  proof (cases "triangle_with c cl")
    case None
    then show ?thesis using Cons by auto
  next
    case (Some r)
    then show ?thesis using Cons.prems triangle_with_in [of c cl "fst r" "fst (snd r)" "snd (snd r)"]
      by (cases r) (auto simp: strict_bset_extend)
  qed
qed simp

lemma cluster_fixpoint_in:
  "clusters_in (set pool) cl \<Longrightarrow> clusters_in (set pool) (cluster_fixpoint free cands pool cl)"
proof (induction free cands pool cl rule: cluster_fixpoint.induct)
  case (1 free cands pool cl)
  show ?case
  proof (cases "cluster_round free cands pool (sort_clusters cl)")
    case None
    then show ?thesis using 1 by (subst cluster_fixpoint.simps) simp
  next
    case (Some cl')
    have "clusters_in (set pool) (sort_clusters cl)" using "1.prems" by simp
    moreover have "extend_cluster free cands pool (sort_clusters cl) = Some cl' \<or>
        merge_two (sort_clusters cl) = Some cl' \<or> merge_three (sort_clusters cl) = Some cl'"
      using Some by (auto simp: cluster_round_def split: option.splits)
    ultimately have "clusters_in (set pool) cl'"
      using extend_cluster_in merge_two_in merge_three_in by blast
    then show ?thesis using 1 Some by (subst cluster_fixpoint.simps) simp
  qed
qed

lemma discover_rigid_clusters_in: "clusters_in (set (cluster_pool d)) (discover_rigid_clusters d)"
  by (simp add: discover_rigid_clusters_def Let_def cluster_fixpoint_in pair_seeds_in)

section \<open>Placing a cluster\<close>

definition touching :: "discovery \<Rightarrow> entity_ref list \<Rightarrow> (nat \<times> plan_constraint) list" where
  "touching d c = filter (\<lambda>(i, k). \<exists>v \<in> set (pc_vars k). v \<in> set c) (unconsumed_hard d)"

definition shapes :: "entity_ref list \<Rightarrow> plan_constraint \<Rightarrow> bool" where
  "shapes c k \<longleftrightarrow> (\<forall>v \<in> set (pc_vars k). v \<in> set c) \<and> \<not> pc_grounded k"

definition internal_of :: "discovery \<Rightarrow> entity_ref list \<Rightarrow> (nat \<times> plan_constraint) list" where
  "internal_of d c = filter (\<lambda>(i, k). shapes c k) (touching d c)"

definition boundary_of :: "discovery \<Rightarrow> entity_ref list \<Rightarrow> (nat \<times> plan_constraint) list" where
  "boundary_of d c =
     filter (\<lambda>(i, k). \<not> shapes c k \<and> (\<forall>v \<in> set (pc_vars k). v \<in> set c \<or> v \<in> set (d_placed d))) (touching d c)"

definition cluster_step :: "discovery \<Rightarrow> entity_ref list \<Rightarrow> discovery" where
  "cluster_step d c =
     (let internal = map fst (internal_of d c); boundary = map fst (boundary_of d c)
      in d\<lparr>d_consumed := consume (internal @ boundary) (d_consumed d),
           d_placed := bset_extend (d_placed d) c,
           d_steps := d_steps d @ [PlaceCluster c internal boundary []]\<rparr>)"

fun place_candidates :: "discovery \<Rightarrow> clusters \<Rightarrow> discovery option" where
  "place_candidates d [] = None"
| "place_candidates d (c # cl) =
     (if length c < 2 then place_candidates d cl
      else if dof_sum (boundary_of d c) \<noteq> 3 then place_candidates d cl
      else Some (cluster_step d c))"

definition try_place_cluster :: "discovery \<Rightarrow> discovery option" where
  "try_place_cluster d = place_candidates d (discover_rigid_clusters d)"

section \<open>The discovery loop\<close>

definition unplaced :: "discovery \<Rightarrow> entity_ref set" where
  "unplaced d = (fst ` set (d_free d) \<union> set (d_cluster_capable d)) - set (d_placed d)"

lemma extend_candidates_some:
  "extend_candidates d cands = Some d' \<Longrightarrow>
   \<exists>e n ics. (e, n) \<in> set cands \<and> matching_hard d e (bset_insert e (d_placed d)) n = Some ics \<and>
     d' = extend_step d e ics"
proof (induction cands)
  case (Cons a cands)
  obtain e n where a: "a = (e, n)" by (cases a)
  show ?case
  proof (cases "matching_hard d e (bset_insert e (d_placed d)) n")
    case None
    then have "extend_candidates d cands = Some d'" using Cons.prems by (simp add: a)
    then show ?thesis using Cons.IH by (meson list.set_intros(2))
  next
    case (Some ics)
    then have "d' = extend_step d e ics" using Cons.prems by (simp add: a)
    then show ?thesis using Some a by (intro exI [of _ e] exI [of _ n] exI [of _ ics]) simp
  qed
qed simp

lemma try_extend_some:
  assumes "try_extend d = Some d'"
  obtains e n ics where "(e, n) \<in> set (d_free d)" "e \<notin> set (d_placed d)"
    "matching_hard d e (bset_insert e (d_placed d)) n = Some ics" "d' = extend_step d e ics"
  using extend_candidates_some [OF assms [unfolded try_extend_def]] by auto

lemma place_candidates_some:
  "place_candidates d cl = Some d' \<Longrightarrow>
   \<exists>c. c \<in> set cl \<and> 2 \<le> length c \<and> dof_sum (boundary_of d c) = 3 \<and> d' = cluster_step d c"
  by (induction cl) (auto split: if_splits)

lemma try_place_cluster_some:
  assumes "try_place_cluster d = Some d'"
  obtains c where "set c \<subseteq> set (d_cluster_capable d) - set (d_placed d)" "sorted_wrt (<) c" "2 \<le> length c"
    "dof_sum (boundary_of d c) = 3" "d' = cluster_step d c"
proof -
  obtain c where c: "c \<in> set (discover_rigid_clusters d)" "2 \<le> length c" "dof_sum (boundary_of d c) = 3"
    "d' = cluster_step d c"
    using place_candidates_some [OF assms [unfolded try_place_cluster_def]] by blast
  have "set c \<subseteq> set (cluster_pool d)" "sorted_wrt (<) c"
    using discover_rigid_clusters_in [of d] c(1) by (simp_all add: clusters_in_def)
  moreover have "set (cluster_pool d) = set (d_cluster_capable d) - set (d_placed d)"
    by (auto simp: cluster_pool_def)
  ultimately show thesis using that [of c] c(2-4) by simp
qed

lemma step_fields [simp]:
  "d_free (extend_step d e ics) = d_free d" "d_cluster_capable (extend_step d e ics) = d_cluster_capable d"
  "d_constraints (extend_step d e ics) = d_constraints d"
  "set (d_placed (extend_step d e ics)) = insert e (set (d_placed d))"
  "d_free (cluster_step d c) = d_free d" "d_cluster_capable (cluster_step d c) = d_cluster_capable d"
  "d_constraints (cluster_step d c) = d_constraints d"
  "set (d_placed (cluster_step d c)) = set (d_placed d) \<union> set c"
  by (simp_all add: extend_step_def cluster_step_def Let_def)

lemma unplaced_shrinks:
  assumes "try_extend d = Some d' \<or> try_place_cluster d = Some d'"
  shows "card (unplaced d') < card (unplaced d)"
proof (rule psubset_card_mono)
  show "unplaced d' \<subset> unplaced d"
    using assms
  proof
    assume "try_extend d = Some d'"
    then show ?thesis by (rule try_extend_some) (force simp: unplaced_def)
  next
    assume "try_place_cluster d = Some d'"
    then obtain c where c: "set c \<subseteq> set (d_cluster_capable d) - set (d_placed d)" "2 \<le> length c" "d' = cluster_step d c"
      by (rule try_place_cluster_some)
    then obtain e where "e \<in> set c" by (cases c) auto
    then show ?thesis using c by (auto simp: unplaced_def)
  qed
qed (simp add: unplaced_def)

function run_discovery :: "discovery \<Rightarrow> discovery" where
  "run_discovery d =
     (case try_extend d of
        Some d' \<Rightarrow> run_discovery d'
      | None \<Rightarrow>
     (case try_place_cluster d of
        Some d' \<Rightarrow> run_discovery d'
      | None \<Rightarrow> d))"
  by auto
termination by (relation "measure (\<lambda>d. card (unplaced d))") (auto simp: unplaced_shrinks)

declare run_discovery.simps [simp del]

section \<open>The plan\<close>

definition start_discovery :: "plan_entity list \<Rightarrow> plan_constraint list \<Rightarrow> discovery" where
  "start_discovery es cs =
     \<lparr>d_constraints = cs,
      d_free = fold (\<lambda>e m. if 0 < pe_free_dofs e then bmap_insert (pe_entity e) (pe_free_dofs e) m else m) es [],
      d_cluster_capable =
        fold (\<lambda>e s. if 0 < pe_free_dofs e \<and> pe_cluster_capable e then bset_insert (pe_entity e) s else s) es [],
      d_placed = [], d_consumed = replicate (length cs) False, d_steps = []\<rparr>"

definition placed_at :: "plan_step list \<Rightarrow> (entity_ref, nat) dmap" where
  "placed_at steps =
     fold (\<lambda>(si, step) m. fold (\<lambda>e. AList.update e si) (placed_entities step) m) (enumerate 0 steps) []"

definition latest_step :: "(entity_ref, nat) dmap \<Rightarrow> entity_ref list \<Rightarrow> nat option" where
  "latest_step at vars =
     fold (\<lambda>v acc. case acc of None \<Rightarrow> None
       | Some a \<Rightarrow> (case map_of at v of None \<Rightarrow> None | Some s \<Rightarrow> Some (max a s))) vars (Some 0)"

fun add_soft :: "nat \<Rightarrow> plan_step \<Rightarrow> plan_step" where
  "add_soft i (Extend e cs soft) = Extend e cs (soft @ [i])"
| "add_soft i (PlaceCluster es ins bs soft) = PlaceCluster es ins bs (soft @ [i])"

definition attach_soft :: "(entity_ref, nat) dmap \<Rightarrow> plan_constraint \<Rightarrow> plan_step list \<Rightarrow> plan_step list" where
  "attach_soft at c steps =
     (if pc_hard c \<or> pc_vars c = [] then steps
      else case latest_step at (pc_vars c) of
        None \<Rightarrow> steps
      | Some si \<Rightarrow> steps[si := add_soft (pc_index c) (steps ! si)])"

definition attach_soft_passengers :: "plan_step list \<Rightarrow> plan_constraint list \<Rightarrow> plan_step list" where
  "attach_soft_passengers steps cs = fold (attach_soft (placed_at steps)) cs steps"

definition hard_consumed :: "discovery \<Rightarrow> bool" where
  "hard_consumed d \<longleftrightarrow> (\<forall>(i, c) \<in> set (enumerate 0 (d_constraints d)). pc_hard c \<longrightarrow> d_consumed d ! i)"

definition plan_component :: "plan_entity list \<Rightarrow> plan_constraint list \<Rightarrow> dr_plan option" where
  "plan_component es cs =
     (if list_ex (\<lambda>c. \<not> pc_enforced c \<or> pc_hard c \<and> pc_vars c = []) cs then None
      else
        let d = run_discovery (start_discovery es cs)
        in if length (d_placed d) \<noteq> length (d_free d) then None
           else if \<not> hard_consumed d then None
           else Some \<lparr>plan_steps = attach_soft_passengers (d_steps d) cs\<rparr>)"

section \<open>The analysis of what is left free\<close>

record constrainment_fact =
  cf_entity :: entity_ref
  cf_placed :: bool
  cf_free_dofs :: nat
  cf_cluster :: "nat option"
  cf_overconsumed_dofs :: nat

record constrainment_analysis =
  ca_facts :: "constrainment_fact list"
  ca_complete :: bool
  ca_cluster_count :: nat

fun cluster_labels :: "plan_step list \<Rightarrow> (entity_ref, nat) dmap \<times> nat \<Rightarrow> (entity_ref, nat) dmap \<times> nat" where
  "cluster_labels [] st = st"
| "cluster_labels (PlaceCluster es _ _ _ # steps) (m, n) =
     cluster_labels steps (fold (\<lambda>e. AList.update e n) es m, n + 1)"
| "cluster_labels (Extend _ _ _ # steps) st = cluster_labels steps st"

text \<open>The constraints charged to an entity that is placed virtually.\<close>

definition charges :: "plan_constraint list \<Rightarrow> bool list \<Rightarrow> entity_ref list \<Rightarrow> entity_ref \<Rightarrow> (nat \<times> plan_constraint) list" where
  "charges cs consumed scope e =
     filter (\<lambda>(i, c). \<not> (consumed ! i \<or> \<not> pc_hard c \<or> pc_vars c = []) \<and> e \<in> set (pc_vars c) \<and>
       (\<forall>v \<in> set (pc_vars c). v \<in> set scope)) (enumerate 0 cs)"

fun attribute_dofs ::
  "plan_constraint list \<Rightarrow> entity_ref list \<Rightarrow> (entity_ref, nat) dmap \<Rightarrow> plan_entity list \<Rightarrow>
   bool list \<Rightarrow> entity_ref list \<Rightarrow> constrainment_fact list" where
  "attribute_dofs cs placed labels [] consumed virtual = []"
| "attribute_dofs cs placed labels (e # es) consumed virtual =
     (if pe_free_dofs e = 0 then
        \<lparr>cf_entity = pe_entity e, cf_placed = True, cf_free_dofs = 0, cf_cluster = None,
         cf_overconsumed_dofs = 0\<rparr> # attribute_dofs cs placed labels es consumed virtual
      else if pe_entity e \<in> set placed then
        \<lparr>cf_entity = pe_entity e, cf_placed = True, cf_free_dofs = 0, cf_cluster = map_of labels (pe_entity e),
         cf_overconsumed_dofs = 0\<rparr> # attribute_dofs cs placed labels es consumed virtual
      else
        let scope = bset_insert (pe_entity e) virtual;
            ch = charges cs consumed scope (pe_entity e);
            charged = dof_sum ch; absorbed = min charged (pe_free_dofs e)
        in \<lparr>cf_entity = pe_entity e, cf_placed = False, cf_free_dofs = pe_free_dofs e - absorbed,
            cf_cluster = None, cf_overconsumed_dofs = charged - absorbed\<rparr>
           # attribute_dofs cs placed labels es (consume (map fst ch) consumed) scope)"

definition analyze_constrainment :: "plan_entity list \<Rightarrow> plan_constraint list \<Rightarrow> constrainment_analysis" where
  "analyze_constrainment es cs =
     (let d = run_discovery (start_discovery es cs);
          (labels, n) = cluster_labels (d_steps d) ([], 0)
      in \<lparr>ca_facts = attribute_dofs cs (d_placed d) labels (sort_key pe_entity es) (d_consumed d) (d_placed d),
          ca_complete = (length (d_placed d) = length (d_free d) \<and> hard_consumed d),
          ca_cluster_count = n\<rparr>)"

end
