(* ===== verification/Sketch_Plan_Props.thy ===== *)
theory Sketch_Plan_Props
  imports Sketch_Plan
begin

text \<open>
  What a plan guarantees. \<open>plan_run\<close> says of a list of steps that every step consumes exactly the hard
  constraints it must: those left that touch what it places and reach nothing unplaced besides.
\<close>

section \<open>Steps\<close>

definition claims :: "plan_constraint list \<Rightarrow> entity_ref set \<Rightarrow> nat set \<Rightarrow> entity_ref set \<Rightarrow> nat set" where
  "claims cs before used es =
     {i. i < length cs \<and> pc_hard (cs ! i) \<and> i \<notin> used \<and> set (pc_vars (cs ! i)) \<inter> es \<noteq> {} \<and>
         set (pc_vars (cs ! i)) \<subseteq> before \<union> es}"

fun hard_of :: "plan_step \<Rightarrow> nat list" where
  "hard_of (Extend e cs soft) = cs"
| "hard_of (PlaceCluster es ins bs soft) = ins @ bs"

fun soft_of :: "plan_step \<Rightarrow> nat list" where
  "soft_of (Extend e cs soft) = soft"
| "soft_of (PlaceCluster es ins bs soft) = soft"

definition dofs_of :: "plan_constraint list \<Rightarrow> nat list \<Rightarrow> nat" where
  "dofs_of cs ics = sum_list (map (\<lambda>i. pc_dof_removed (cs ! i)) ics)"

fun step_ok ::
  "plan_constraint list \<Rightarrow> (entity_ref \<times> nat) list \<Rightarrow> entity_ref set \<Rightarrow> nat set \<Rightarrow> plan_step \<Rightarrow> bool" where
  "step_ok cs free before used (Extend e h soft) \<longleftrightarrow>
     e \<notin> before \<and> map_of free e = Some (dofs_of cs h) \<and> h \<noteq> [] \<and> distinct h \<and>
     set h = claims cs before used {e}"
| "step_ok cs free before used (PlaceCluster es ins bs soft) \<longleftrightarrow>
     2 \<le> length es \<and> sorted_wrt (<) es \<and> set es \<inter> before = {} \<and> set es \<subseteq> fst ` set free \<and>
     distinct (ins @ bs) \<and> set (ins @ bs) = claims cs before used (set es) \<and>
     (\<forall>i \<in> set ins. \<not> pc_grounded (cs ! i) \<and> set (pc_vars (cs ! i)) \<subseteq> set es) \<and> dofs_of cs bs = 3"

fun plan_run ::
  "plan_constraint list \<Rightarrow> (entity_ref \<times> nat) list \<Rightarrow> entity_ref set \<Rightarrow> nat set \<Rightarrow> plan_step list \<Rightarrow> bool" where
  "plan_run cs free before used [] \<longleftrightarrow> True"
| "plan_run cs free before used (s # ss) \<longleftrightarrow>
     step_ok cs free before used s \<and>
     plan_run cs free (before \<union> set (placed_entities s)) (used \<union> set (hard_of s)) ss"

definition placed_in :: "plan_step list \<Rightarrow> entity_ref set" where
  "placed_in ss = set (concat (map placed_entities ss))"

definition used_in :: "plan_step list \<Rightarrow> nat set" where
  "used_in ss = set (concat (map hard_of ss))"

lemma in_simps [simp]:
  "placed_in [] = {}" "used_in [] = {}"
  "placed_in (s # ss) = set (placed_entities s) \<union> placed_in ss" "used_in (s # ss) = set (hard_of s) \<union> used_in ss"
  "placed_in (ss @ ss') = placed_in ss \<union> placed_in ss'" "used_in (ss @ ss') = used_in ss \<union> used_in ss'"
  by (auto simp: placed_in_def used_in_def)

lemma plan_run_append:
  "plan_run cs free before used (ss @ ss') \<longleftrightarrow>
     plan_run cs free before used ss \<and> plan_run cs free (before \<union> placed_in ss) (used \<union> used_in ss) ss'"
  by (induction ss arbitrary: before used) (auto simp: Un_assoc)

lemma step_ok_distinct:
  assumes "step_ok cs free before used s"
  shows "distinct (placed_entities s)" "set (placed_entities s) \<inter> before = {}" "distinct (hard_of s)"
    "set (hard_of s) \<inter> used = {}" "set (placed_entities s) \<subseteq> fst ` set free"
    "set (hard_of s) = claims cs before used (set (placed_entities s))"
proof -
  show used: "set (hard_of s) = claims cs before used (set (placed_entities s))"
    using assms by (cases s) simp_all
  show "distinct (placed_entities s)" "set (placed_entities s) \<inter> before = {}" "distinct (hard_of s)"
    using assms by (cases s; simp add: strict_sorted_iff; fail)+
  show "set (hard_of s) \<inter> used = {}" using used by (auto simp: claims_def)
  show "set (placed_entities s) \<subseteq> fst ` set free"
    using assms by (cases s) (auto dest!: map_of_SomeD intro: rev_image_eqI)
qed

lemma plan_run_distinct:
  "plan_run cs free before used ss \<Longrightarrow>
   distinct (concat (map placed_entities ss)) \<and> placed_in ss \<inter> before = {} \<and>
   distinct (concat (map hard_of ss)) \<and> used_in ss \<inter> used = {} \<and> placed_in ss \<subseteq> fst ` set free \<and>
   (\<forall>i \<in> used_in ss. i < length cs \<and> pc_hard (cs ! i))"
proof (induction ss arbitrary: before used)
  case (Cons s ss)
  then have s: "step_ok cs free before used s" and
    ss: "plan_run cs free (before \<union> set (placed_entities s)) (used \<union> set (hard_of s)) ss" by auto
  note IH = Cons.IH [OF ss] and D = step_ok_distinct [OF s]
  have "\<forall>i \<in> set (hard_of s). i < length cs \<and> pc_hard (cs ! i)" using D(6) by (simp add: claims_def)
  then show ?case using IH D by (auto simp: placed_in_def used_in_def)
qed simp

lemma plan_run_vars:
  "plan_run cs free before used ss \<Longrightarrow> i \<in> used_in ss \<Longrightarrow> set (pc_vars (cs ! i)) \<subseteq> before \<union> placed_in ss"
proof (induction ss arbitrary: before used)
  case (Cons s ss)
  show ?case
  proof (cases "i \<in> set (hard_of s)")
    case True
    then show ?thesis using step_ok_distinct(6) [of cs free before used s] Cons.prems(1) by (auto simp: claims_def)
  next
    case False
    then show ?thesis
      using Cons.IH [of "before \<union> set (placed_entities s)" "used \<union> set (hard_of s)"] Cons.prems by auto
  qed
qed simp

section \<open>The invariant of the discovery\<close>

lemma set_unconsumed_hard:
  "set (unconsumed_hard d) =
     (\<lambda>i. (i, d_constraints d ! i)) ` {i. i < length (d_constraints d) \<and> \<not> d_consumed d ! i \<and> pc_hard (d_constraints d ! i)}"
  by (auto simp: unconsumed_hard_def in_set_enumerate_eq)

lemma distinct_fst_filter: "distinct (map fst xs) \<Longrightarrow> distinct (map fst (filter P xs))"
  by (rule distinct_map_filter)

lemma distinct_unconsumed_hard: "distinct (map fst (unconsumed_hard d))"
  unfolding unconsumed_hard_def by (rule distinct_fst_filter) simp

lemma dof_sum_eq:
  "set ics \<subseteq> set (unconsumed_hard d) \<Longrightarrow> dof_sum ics = dofs_of (d_constraints d) (map fst ics)"
proof -
  assume "set ics \<subseteq> set (unconsumed_hard d)"
  then have "\<forall>(i, c) \<in> set ics. c = d_constraints d ! i" by (auto simp: set_unconsumed_hard)
  then show ?thesis unfolding dof_sum_def dofs_of_def map_map
    by (intro arg_cong [where f = sum_list] map_cong) auto
qed

lemma length_consume [simp]: "length (consume ics b) = length b"
  unfolding consume_def by (induction ics arbitrary: b) simp_all

lemma nth_consume: "i < length b \<Longrightarrow> consume ics b ! i \<longleftrightarrow> i \<in> set ics \<or> b ! i"
proof (induction ics arbitrary: b)
  case (Cons a ics)
  have "b[a := True] ! i \<longleftrightarrow> i = a \<or> b ! i" using Cons.prems by (cases "a = i") auto
  then show ?case using Cons.IH [of "b[a := True]"] Cons.prems by (auto simp: consume_def)
qed (simp add: consume_def)

definition disc_ok :: "discovery \<Rightarrow> bool" where
  "disc_ok d \<longleftrightarrow>
     set (d_cluster_capable d) \<subseteq> fst ` set (d_free d) \<and> distinct (map fst (d_free d)) \<and>
     length (d_consumed d) = length (d_constraints d) \<and> sorted_wrt (<) (d_placed d) \<and>
     set (d_placed d) = placed_in (d_steps d) \<and>
     (\<forall>i < length (d_constraints d). d_consumed d ! i \<longleftrightarrow> i \<in> used_in (d_steps d)) \<and>
     plan_run (d_constraints d) (d_free d) {} {} (d_steps d) \<and> (\<forall>s \<in> set (d_steps d). soft_of s = [])"

lemma disc_okD:
  assumes "disc_ok d"
  shows "set (d_cluster_capable d) \<subseteq> fst ` set (d_free d)" "distinct (map fst (d_free d))"
    "length (d_consumed d) = length (d_constraints d)" "sorted_wrt (<) (d_placed d)"
    "set (d_placed d) = placed_in (d_steps d)"
    "\<And>i. i < length (d_constraints d) \<Longrightarrow> d_consumed d ! i \<longleftrightarrow> i \<in> used_in (d_steps d)"
    "plan_run (d_constraints d) (d_free d) {} {} (d_steps d)" "\<And>s. s \<in> set (d_steps d) \<Longrightarrow> soft_of s = []"
  using assms by (auto simp: disc_ok_def)

lemma matching_claims:
  assumes ok: "disc_ok d" and m: "matching_hard d e (bset_insert e (d_placed d)) n = Some ics"
  shows "set ics = claims (d_constraints d) (set (d_placed d)) (used_in (d_steps d)) {e}"
    and "distinct ics" and "ics \<noteq> []" and "dofs_of (d_constraints d) ics = n"
proof -
  let ?l = "filter (\<lambda>(i, c). e \<in> set (pc_vars c) \<and> (\<forall>v \<in> set (pc_vars c). v \<in> set (bset_insert e (d_placed d))))
      (unconsumed_hard d)"
  have l: "ics = map fst ?l" "?l \<noteq> []" "dof_sum ?l = n"
    using m by (auto simp: matching_hard_def Let_def split: if_splits)
  show "set ics = claims (d_constraints d) (set (d_placed d)) (used_in (d_steps d)) {e}"
    unfolding l(1) claims_def using disc_okD(6) [OF ok] by (auto simp: set_unconsumed_hard image_iff)
  show "distinct ics" unfolding l(1) by (rule distinct_fst_filter) (rule distinct_unconsumed_hard)
  show "ics \<noteq> []" using l(1,2) by simp
  show "dofs_of (d_constraints d) ics = n" using dof_sum_eq [of ?l d] l(1,3) by auto
qed

lemma disc_ok_extend:
  assumes ok: "disc_ok d" and step: "try_extend d = Some d'"
  shows "disc_ok d'"
proof -
  obtain e n ics where e: "(e, n) \<in> set (d_free d)" "e \<notin> set (d_placed d)"
    "matching_hard d e (bset_insert e (d_placed d)) n = Some ics" "d' = extend_step d e ics"
    using try_extend_some [OF step] .
  note m = matching_claims [OF ok e(3)]
  have free: "map_of (d_free d) e = Some n" using e(1) disc_okD(2) [OF ok] by simp
  have run: "plan_run (d_constraints d) (d_free d) {} {} (d_steps d @ [Extend e ics []])"
    using disc_okD(5,7) [OF ok] e(2) m free by (simp add: plan_run_append)
  have "\<forall>i < length (d_constraints d). consume ics (d_consumed d) ! i \<longleftrightarrow> i \<in> used_in (d_steps d @ [Extend e ics []])"
    using disc_okD(3,6) [OF ok] by (auto simp: nth_consume)
  then show ?thesis
    using disc_okD(1-5,8) [OF ok] run e(4) by (simp add: disc_ok_def extend_step_def strict_bset_insert)
qed

lemma cluster_claims:
  assumes ok: "disc_ok d"
  shows "set (map fst (internal_of d c) @ map fst (boundary_of d c)) =
      claims (d_constraints d) (set (d_placed d)) (used_in (d_steps d)) (set c)"
    and "distinct (map fst (internal_of d c) @ map fst (boundary_of d c))"
    and "dofs_of (d_constraints d) (map fst (boundary_of d c)) = dof_sum (boundary_of d c)"
    and "\<forall>i \<in> set (map fst (internal_of d c)). \<not> pc_grounded (d_constraints d ! i) \<and>
      set (pc_vars (d_constraints d ! i)) \<subseteq> set c"
proof -
  have sub: "set (boundary_of d c) \<subseteq> set (unconsumed_hard d)" "set (internal_of d c) \<subseteq> set (unconsumed_hard d)"
    by (auto simp: boundary_of_def internal_of_def touching_def)
  show "dofs_of (d_constraints d) (map fst (boundary_of d c)) = dof_sum (boundary_of d c)"
    using dof_sum_eq [OF sub(1)] by simp
  show "\<forall>i \<in> set (map fst (internal_of d c)). \<not> pc_grounded (d_constraints d ! i) \<and>
      set (pc_vars (d_constraints d ! i)) \<subseteq> set c"
    by (auto simp: internal_of_def touching_def shapes_def set_unconsumed_hard)
  have dis: "distinct (map fst (internal_of d c))" "distinct (map fst (boundary_of d c))"
    unfolding internal_of_def boundary_of_def touching_def
    by (intro distinct_fst_filter distinct_unconsumed_hard)+
  have "fst ` set (internal_of d c) \<inter> fst ` set (boundary_of d c) = {}"
    by (auto simp: internal_of_def boundary_of_def touching_def set_unconsumed_hard)
  then show "distinct (map fst (internal_of d c) @ map fst (boundary_of d c))" using dis by simp
  show "set (map fst (internal_of d c) @ map fst (boundary_of d c)) =
      claims (d_constraints d) (set (d_placed d)) (used_in (d_steps d)) (set c)"
    using disc_okD(6) [OF ok]
    by (auto simp: internal_of_def boundary_of_def touching_def shapes_def set_unconsumed_hard claims_def image_iff)
qed

lemma disc_ok_place:
  assumes ok: "disc_ok d" and step: "try_place_cluster d = Some d'"
  shows "disc_ok d'"
proof -
  obtain c where c: "set c \<subseteq> set (d_cluster_capable d) - set (d_placed d)" "sorted_wrt (<) c" "2 \<le> length c"
    "dof_sum (boundary_of d c) = 3" "d' = cluster_step d c"
    using try_place_cluster_some [OF step] .
  note m = cluster_claims [OF ok, of c]
  let ?ins = "map fst (internal_of d c)" and ?bs = "map fst (boundary_of d c)"
  have run: "plan_run (d_constraints d) (d_free d) {} {} (d_steps d @ [PlaceCluster c ?ins ?bs []])"
    using disc_okD(1,5,7) [OF ok] c m by (auto simp: plan_run_append)
  have "\<forall>i < length (d_constraints d).
      consume (?ins @ ?bs) (d_consumed d) ! i \<longleftrightarrow> i \<in> used_in (d_steps d @ [PlaceCluster c ?ins ?bs []])"
    using disc_okD(3,6) [OF ok] by (auto simp: nth_consume)
  then show ?thesis
    using disc_okD(1-5,8) [OF ok] run c(5) by (simp add: disc_ok_def cluster_step_def Let_def strict_bset_extend)
qed

lemma disc_ok_run: "disc_ok d \<Longrightarrow> disc_ok (run_discovery d)"
proof (induction d rule: run_discovery.induct)
  case (1 d)
  then show ?case
    by (subst run_discovery.simps) (auto split: option.splits intro: disc_ok_extend disc_ok_place)
qed

lemma run_discovery_fields:
  "d_constraints (run_discovery d) = d_constraints d \<and> d_free (run_discovery d) = d_free d"
proof (induction d rule: run_discovery.induct)
  case (1 d)
  show ?case
  proof (cases "try_extend d")
    case (Some d')
    then have "d_constraints d' = d_constraints d \<and> d_free d' = d_free d" by (auto elim: try_extend_some)
    then show ?thesis using 1(2) [OF Some] Some by (subst (1 2) run_discovery.simps) simp
  next
    case None
    show ?thesis
    proof (cases "try_place_cluster d")
      case (Some d')
      then have "d_constraints d' = d_constraints d \<and> d_free d' = d_free d" by (auto elim: try_place_cluster_some)
      then show ?thesis using 1(1) [OF None Some] None Some by (subst (1 2) run_discovery.simps) simp
    next
      case none: None
      then show ?thesis using None by (subst (1 2) run_discovery.simps) simp
    qed
  qed
qed

section \<open>The start\<close>

definition free_map :: "plan_entity list \<Rightarrow> (entity_ref \<times> nat) list" where
  "free_map es = d_free (start_discovery es [])"

definition free_entities :: "plan_entity list \<Rightarrow> entity_ref set" where
  "free_entities es = pe_entity ` {e \<in> set es. 0 < pe_free_dofs e}"

lemma start_free: "d_free (start_discovery es cs) = free_map es"
  by (simp add: free_map_def start_discovery_def)

lemma fold_free:
  "sorted_wrt (<) (map fst m) \<Longrightarrow>
   sorted_wrt (<) (map fst (fold (\<lambda>e m. if 0 < pe_free_dofs e then bmap_insert (pe_entity e) (pe_free_dofs e) m else m) es m)) \<and>
   fst ` set (fold (\<lambda>e m. if 0 < pe_free_dofs e then bmap_insert (pe_entity e) (pe_free_dofs e) m else m) es m) =
     fst ` set m \<union> free_entities es"
  by (induction es arbitrary: m) (auto simp: free_entities_def keys_bmap_insert strict_bmap_insert)

lemma free_map_sorted: "sorted_wrt (<) (map fst (free_map es))" "fst ` set (free_map es) = free_entities es"
  using fold_free [of "[]" es] by (simp_all add: free_map_def start_discovery_def)

lemma fold_capable:
  "sorted_wrt (<) s \<Longrightarrow>
   sorted_wrt (<) (fold (\<lambda>e s. if 0 < pe_free_dofs e \<and> pe_cluster_capable e then bset_insert (pe_entity e) s else s) es s) \<and>
   set (fold (\<lambda>e s. if 0 < pe_free_dofs e \<and> pe_cluster_capable e then bset_insert (pe_entity e) s else s) es s) =
     set s \<union> pe_entity ` {e \<in> set es. 0 < pe_free_dofs e \<and> pe_cluster_capable e}"
  by (induction es arbitrary: s) (auto simp: strict_bset_insert)

lemma capable_sorted:
  "sorted_wrt (<) (d_cluster_capable (start_discovery es cs))"
  "set (d_cluster_capable (start_discovery es cs)) = pe_entity ` {e \<in> set es. 0 < pe_free_dofs e \<and> pe_cluster_capable e}"
  using fold_capable [of "[]" es] by (simp_all add: start_discovery_def)

lemma disc_ok_start: "disc_ok (start_discovery es cs)"
proof -
  have "set (d_cluster_capable (start_discovery es cs)) \<subseteq> fst ` set (free_map es)"
    unfolding capable_sorted(2) free_map_sorted(2) free_entities_def by auto
  moreover have "distinct (map fst (free_map es))" using free_map_sorted(1) [of es] by (simp add: strict_sorted_iff)
  ultimately show ?thesis
    unfolding disc_ok_def start_free by (simp add: start_discovery_def)
qed

lemma discovery_ok:
  "disc_ok (run_discovery (start_discovery es cs))"
  "d_constraints (run_discovery (start_discovery es cs)) = cs"
  "d_free (run_discovery (start_discovery es cs)) = free_map es"
  using disc_ok_run [OF disc_ok_start] run_discovery_fields [of "start_discovery es cs"]
  by (simp_all add: start_free) (simp add: start_discovery_def)

section \<open>Soft passengers\<close>

lemma add_soft_simps [simp]:
  "placed_entities (add_soft i s) = placed_entities s" "hard_of (add_soft i s) = hard_of s"
  "soft_of (add_soft i s) = soft_of s @ [i]" "step_ok cs free before used (add_soft i s) = step_ok cs free before used s"
  by (cases s; simp)+

text \<open>Two plans that differ in their soft passengers only.\<close>

definition alike :: "plan_step \<Rightarrow> plan_step \<Rightarrow> bool" where
  "alike s t \<longleftrightarrow> placed_entities s = placed_entities t \<and> hard_of s = hard_of t \<and>
     (\<forall>cs free before used. step_ok cs free before used s = step_ok cs free before used t)"

lemma alike_self [simp]: "alike s s"
  by (simp add: alike_def)

lemma alike_refl: "list_all2 alike ss ss"
  by (simp add: list_all2_refl alike_def)

lemma alike_trans: "list_all2 alike ss ts \<Longrightarrow> list_all2 alike ts us \<Longrightarrow> list_all2 alike ss us"
  by (rule list_all2_trans [of alike alike alike]) (auto simp: alike_def)

lemma alike_attach: "list_all2 alike ss (attach_soft at c ss)"
proof -
  have "alike (ss ! i) (ss[si := add_soft n (ss ! si)] ! i)" if "i < length ss" for i si n
    using that by (cases "i = si") (simp_all add: alike_def)
  then show ?thesis by (auto simp: attach_soft_def alike_refl list_all2_conv_all_nth [of alike] split: option.splits)
qed

lemma alike_passengers: "list_all2 alike ss (fold (attach_soft at) cs ss)"
proof (induction cs arbitrary: ss)
  case Nil
  then show ?case by (simp add: alike_refl)
next
  case (Cons c cs)
  show ?case using alike_trans [OF alike_attach Cons.IH] by simp
qed

lemma alike_run: "list_all2 alike ss ts \<Longrightarrow> plan_run cs free before used ss = plan_run cs free before used ts"
  by (induction ss ts arbitrary: before used rule: list_all2_induct) (auto simp: alike_def)

lemma alike_maps: "list_all2 alike ss ts \<Longrightarrow>
   map placed_entities ss = map placed_entities ts \<and> map hard_of ss = map hard_of ts"
  by (induction ss ts rule: list_all2_induct) (auto simp: alike_def)

section \<open>A plan is complete\<close>

lemma plan_componentD:
  assumes "plan_component es cs = Some p"
  obtains d where "disc_ok d" "d_constraints d = cs" "d_free d = free_map es" "d = run_discovery (start_discovery es cs)"
    "placed_in (d_steps d) = free_entities es" "\<And>i. i < length cs \<Longrightarrow> pc_hard (cs ! i) \<Longrightarrow> i \<in> used_in (d_steps d)"
    "plan_steps p = attach_soft_passengers (d_steps d) cs"
    "\<And>c. c \<in> set cs \<Longrightarrow> pc_enforced c \<and> (pc_hard c \<longrightarrow> pc_vars c \<noteq> [])"
proof -
  let ?d = "run_discovery (start_discovery es cs)"
  note ok = discovery_ok [of es cs]
  from assms have p: "\<not> list_ex (\<lambda>c. \<not> pc_enforced c \<or> pc_hard c \<and> pc_vars c = []) cs"
    "length (d_placed ?d) = length (d_free ?d)" "hard_consumed ?d"
    "plan_steps p = attach_soft_passengers (d_steps ?d) cs"
    by (auto simp: plan_component_def Let_def split: if_splits)
  have sub: "set (d_placed ?d) \<subseteq> free_entities es"
    using plan_run_distinct [OF disc_okD(7) [OF ok(1)]] disc_okD(5) [OF ok(1)] ok(3) free_map_sorted(2) by simp
  have "card (set (d_placed ?d)) = card (free_entities es)"
    using p(2) disc_okD(2,4) [OF ok(1)] ok(3) free_map_sorted(2) [of es]
    by (metis distinct_card length_map list.set_map strict_sorted_iff)
  moreover have "finite (free_entities es)" by (simp add: free_entities_def)
  ultimately have "set (d_placed ?d) = free_entities es" using sub by (simp add: card_subset_eq)
  then have all: "placed_in (d_steps ?d) = free_entities es" using disc_okD(5) [OF ok(1)] by simp
  have used: "i \<in> used_in (d_steps ?d)" if "i < length cs" "pc_hard (cs ! i)" for i
  proof -
    have "(i, cs ! i) \<in> set (enumerate 0 cs)" using that(1) by (simp add: in_set_enumerate_eq)
    then show ?thesis using p(3) disc_okD(6) [OF ok(1)] ok(2) that by (auto simp: hard_consumed_def)
  qed
  show thesis
    by (rule that [of ?d]) (use ok p all used in \<open>auto simp: list_ex_iff\<close>)
qed

text \<open>C23. A plan, when there is one, is complete: it places every entity with free parameters exactly once
  and consumes every hard constraint exactly once; each step consumes all the hard constraints left
  that touch what it places and reach nothing else unplaced; an extension removes exactly the freedom
  of its entity, and a cluster is placed by exactly three degrees of freedom at its boundary, with
  constraints inside it that no frame pins.\<close>

theorem plan_complete:
  assumes "plan_component es cs = Some p"
  shows "plan_run cs (free_map es) {} {} (plan_steps p) \<and>
    distinct (concat (map placed_entities (plan_steps p))) \<and> placed_in (plan_steps p) = free_entities es \<and>
    distinct (concat (map hard_of (plan_steps p))) \<and>
    used_in (plan_steps p) = {i. i < length cs \<and> pc_hard (cs ! i)}"
proof -
  obtain d where d: "disc_ok d" "d_constraints d = cs" "d_free d = free_map es"
    "placed_in (d_steps d) = free_entities es" "\<And>i. i < length cs \<Longrightarrow> pc_hard (cs ! i) \<Longrightarrow> i \<in> used_in (d_steps d)"
    "plan_steps p = attach_soft_passengers (d_steps d) cs"
    using plan_componentD [OF assms] by metis
  have alike: "list_all2 alike (d_steps d) (plan_steps p)"
    unfolding d(6) attach_soft_passengers_def by (rule alike_passengers)
  have run: "plan_run cs (free_map es) {} {} (d_steps d)" using disc_okD(7) [OF d(1)] d(2,3) by simp
  have "used_in (d_steps d) = {i. i < length cs \<and> pc_hard (cs ! i)}"
    using plan_run_distinct [OF run] d(5) by auto
  then show ?thesis
    using run plan_run_distinct [OF run] d(4) alike_run [OF alike] alike_maps [OF alike]
    by (simp add: placed_in_def used_in_def)
qed

definition plan_point :: "uuid \<Rightarrow> plan_entity" where
  "plan_point i = \<lparr>pe_entity = Point i, pe_free_dofs = 2, pe_cluster_capable = True\<rparr>"

definition plan_bound :: "nat \<Rightarrow> nat \<Rightarrow> bool \<Rightarrow> bool \<Rightarrow> uuid list \<Rightarrow> plan_constraint" where
  "plan_bound i dof hard frame ps =
     \<lparr>pc_index = i, pc_dof_removed = dof, pc_hard = hard, pc_enforced = True, pc_grounded = frame,
      pc_vars = map Point ps\<rparr>"

text \<open>A point held by two coordinates, with a soft wish about it.\<close>

definition held_point :: "plan_constraint list" where
  "held_point = [plan_bound 5 1 True True [1], plan_bound 6 1 True True [1], plan_bound 7 1 False True [1]]"

lemma held_point_plan:
  "plan_component [plan_point 1] held_point = Some \<lparr>plan_steps = [Extend (Point 1) [0, 1] [7]]\<rparr>"
  by code_simp

lemma plan_complete_witness:
  "plan_run held_point (free_map [plan_point 1]) {} {} [Extend (Point 1) [0, 1] [7]] \<and>
   used_in [Extend (Point 1) [0, 1] [7]] = {i. i < length held_point \<and> pc_hard (held_point ! i)}"
  using plan_complete [OF held_point_plan] by (simp del: plan_run.simps in_simps)

section \<open>Where soft constraints go\<close>

lemma map_of_fold_update: "map_of (fold (\<lambda>e. AList.update e si) es m) v = (if v \<in> set es then Some si else map_of m v)"
  by (induction es arbitrary: m) (auto simp: dmap_simps)

lemma placed_at_from:
  assumes "distinct (concat (map placed_entities ss))"
  shows "map_of (fold (\<lambda>(si, step) m. fold (\<lambda>e. AList.update e si) (placed_entities step) m) (enumerate n ss) m) v =
    Some k \<longleftrightarrow> (\<exists>j < length ss. v \<in> set (placed_entities (ss ! j)) \<and> k = n + j) \<or>
      v \<notin> placed_in ss \<and> map_of m v = Some k"
  using assms
proof (induction ss arbitrary: n m)
  case (Cons s ss)
  let ?m = "fold (\<lambda>e. AList.update e n) (placed_entities s) m"
  have disj: "set (placed_entities s) \<inter> placed_in ss = {}" "distinct (concat (map placed_entities ss))"
    using Cons.prems by (auto simp: placed_in_def)
  have ex: "(\<exists>j < length (s # ss). v \<in> set (placed_entities ((s # ss) ! j)) \<and> k = n + j) \<longleftrightarrow>
      v \<in> set (placed_entities s) \<and> k = n \<or> (\<exists>j < length ss. v \<in> set (placed_entities (ss ! j)) \<and> k = Suc n + j)"
    by (simp add: Ex_less_Suc2)
  show ?case
    unfolding ex using Cons.IH [OF disj(2), of "Suc n" ?m] disj(1)
    by (auto simp: map_of_fold_update)
qed simp

lemma placed_at_iff:
  "distinct (concat (map placed_entities ss)) \<Longrightarrow>
   map_of (placed_at ss) v = Some k \<longleftrightarrow> k < length ss \<and> v \<in> set (placed_entities (ss ! k))"
  unfolding placed_at_def using placed_at_from [of ss 0 "[]" v k] by auto

lemma latest_step_from:
  "fold (\<lambda>v acc. case acc of None \<Rightarrow> None
       | Some a \<Rightarrow> (case map_of at v of None \<Rightarrow> None | Some s \<Rightarrow> Some (max a s))) vars (Some a) = Some (k :: nat) \<longleftrightarrow>
   a \<le> k \<and> (k = a \<or> (\<exists>v \<in> set vars. map_of at v = Some k)) \<and>
   (\<forall>v \<in> set vars. \<exists>s \<le> k. map_of at v = Some s)"
proof (induction vars arbitrary: a)
  case (Cons v vars)
  have none: "fold (\<lambda>v acc. case acc of None \<Rightarrow> None
       | Some a \<Rightarrow> (case map_of at v of None \<Rightarrow> None | Some s \<Rightarrow> Some (max a s))) vars None = None"
    by (induction vars) auto
  show ?case
  proof (cases "map_of at v")
    case None
    then show ?thesis using none by simp
  next
    case (Some s)
    have bounds: "max a s \<le> k \<and> (k = max a s \<or> P) \<and> Q \<longleftrightarrow> a \<le> k \<and> (k = a \<or> k = s \<or> P) \<and> s \<le> k \<and> Q" for P Q
    proof -
      have "k = max a s \<longleftrightarrow> k = a \<or> k = s" if "a \<le> k" "s \<le> k" using that by (auto simp: max_def intro: order_antisym)
      then show ?thesis by auto
    qed
    have "(\<exists>w \<in> set (v # vars). map_of at w = Some k) \<longleftrightarrow> k = s \<or> (\<exists>w \<in> set vars. map_of at w = Some k)"
      "(\<forall>w \<in> set (v # vars). \<exists>s \<le> k. map_of at w = Some s) \<longleftrightarrow>
         s \<le> k \<and> (\<forall>w \<in> set vars. \<exists>s \<le> k. map_of at w = Some s)"
      using Some by auto
    then show ?thesis using Cons.IH [of "max a s"] Some bounds by simp
  qed
qed auto

lemma placed_in_take: "v \<in> placed_in (take n ss) \<longleftrightarrow> (\<exists>j < length ss. j < n \<and> v \<in> set (placed_entities (ss ! j)))"
proof -
  have "s \<in> set (take n ss) \<longleftrightarrow> (\<exists>j < length ss. j < n \<and> ss ! j = s)" for s
    unfolding in_set_conv_nth by auto
  then show ?thesis unfolding placed_in_def by auto
qed

lemma latest_step_iff:
  assumes d: "distinct (concat (map placed_entities ss))" and vars: "vars \<noteq> []"
  shows "latest_step (placed_at ss) vars = Some k \<longleftrightarrow>
    k < length ss \<and> set vars \<subseteq> placed_in (take (Suc k) ss) \<and> \<not> set vars \<subseteq> placed_in (take k ss)"
proof -
  note at = placed_at_iff [OF d]
  have uniq: "i = j" if "v \<in> set (placed_entities (ss ! i))" "v \<in> set (placed_entities (ss ! j))"
    "i < length ss" "j < length ss" for i j v
  proof -
    have "map_of (placed_at ss) v = Some i" "map_of (placed_at ss) v = Some j" using that at by blast+
    then show ?thesis by simp
  qed
  have "latest_step (placed_at ss) vars = Some k \<longleftrightarrow>
      (\<exists>v \<in> set vars. map_of (placed_at ss) v = Some k) \<and> (\<forall>v \<in> set vars. \<exists>s \<le> k. map_of (placed_at ss) v = Some s)"
    unfolding latest_step_def latest_step_from using vars by (cases vars) auto
  also have "\<dots> \<longleftrightarrow> (\<exists>v \<in> set vars. k < length ss \<and> v \<in> set (placed_entities (ss ! k))) \<and>
      (\<forall>v \<in> set vars. \<exists>s \<le> k. s < length ss \<and> v \<in> set (placed_entities (ss ! s)))"
    by (simp add: at)
  also have "\<dots> \<longleftrightarrow> k < length ss \<and> set vars \<subseteq> placed_in (take (Suc k) ss) \<and> \<not> set vars \<subseteq> placed_in (take k ss)"
    (is "?L \<longleftrightarrow> ?R")
  proof
    assume L: ?L
    then obtain v where v: "v \<in> set vars" "k < length ss" "v \<in> set (placed_entities (ss ! k))" by blast
    have "v \<notin> placed_in (take k ss)" using uniq [OF v(3) _ v(2)] by (auto simp: placed_in_take)
    moreover have "set vars \<subseteq> placed_in (take (Suc k) ss)"
      unfolding subset_iff placed_in_take less_Suc_eq_le using L by blast
    ultimately show ?R using v by blast
  next
    assume R: ?R
    have each: "\<exists>s \<le> k. s < length ss \<and> v \<in> set (placed_entities (ss ! s))" if "v \<in> set vars" for v
      using R that by (auto simp: placed_in_take less_Suc_eq_le subset_iff)
    obtain v where v: "v \<in> set vars" "v \<notin> placed_in (take k ss)" using R by blast
    obtain s where "s \<le> k" "s < length ss" "v \<in> set (placed_entities (ss ! s))" using each [OF v(1)] by blast
    moreover have "\<not> s < k" using v(2) calculation(2,3) by (auto simp: placed_in_take)
    ultimately show ?L using v(1) each by force
  qed
  finally show ?thesis .
qed

lemma soft_of_fold:
  assumes "k < length ss"
  shows "soft_of (fold (attach_soft at) cs ss ! k) = soft_of (ss ! k) @
    map pc_index (filter (\<lambda>c. \<not> pc_hard c \<and> pc_vars c \<noteq> [] \<and> latest_step at (pc_vars c) = Some k) cs)"
  using assms
proof (induction cs arbitrary: ss)
  case (Cons c cs)
  have len: "k < length (attach_soft at c ss)"
    using Cons.prems by (simp add: attach_soft_def split: option.split)
  have one: "soft_of (attach_soft at c ss ! k) = soft_of (ss ! k) @
      (if \<not> pc_hard c \<and> pc_vars c \<noteq> [] \<and> latest_step at (pc_vars c) = Some k then [pc_index c] else [])"
    using Cons.prems by (cases "latest_step at (pc_vars c) = Some k") (auto simp: attach_soft_def split: option.splits)
  show ?case using Cons.IH [OF len] one by simp
qed simp

text \<open>A soft constraint of a plan rides with exactly one step, the first after which everything it
  mentions is placed; one that mentions what is never placed rides with none.\<close>

theorem soft_passengers_ride_last:
  assumes "plan_component es cs = Some p" "k < length (plan_steps p)"
  shows "soft_of (plan_steps p ! k) =
    map pc_index (filter (\<lambda>c. \<not> pc_hard c \<and> pc_vars c \<noteq> [] \<and>
      set (pc_vars c) \<subseteq> placed_in (take (Suc k) (plan_steps p)) \<and>
      \<not> set (pc_vars c) \<subseteq> placed_in (take k (plan_steps p))) cs)"
proof -
  obtain d where d: "disc_ok d" "plan_steps p = attach_soft_passengers (d_steps d) cs"
    using plan_componentD [OF assms(1)] by metis
  let ?ss = "d_steps d"
  have dist: "distinct (concat (map placed_entities ?ss))"
    using plan_run_distinct [OF disc_okD(7) [OF d(1)]] by blast
  have alike: "list_all2 alike ?ss (plan_steps p)"
    unfolding d(2) attach_soft_passengers_def by (rule alike_passengers)
  have k: "k < length ?ss" using assms(2) list_all2_lengthD [OF alike] by simp
  have same: "placed_in (take n (plan_steps p)) = placed_in (take n ?ss)" for n
    using alike_maps [OF alike] by (metis placed_in_def take_map)
  have empty: "soft_of (?ss ! k) = []" using disc_okD(8) [OF d(1)] k by simp
  have latest: "pc_vars c \<noteq> [] \<and> latest_step (placed_at ?ss) (pc_vars c) = Some k \<longleftrightarrow>
      pc_vars c \<noteq> [] \<and> set (pc_vars c) \<subseteq> placed_in (take (Suc k) (plan_steps p)) \<and>
      \<not> set (pc_vars c) \<subseteq> placed_in (take k (plan_steps p))" for c
    using latest_step_iff [OF dist, of "pc_vars c" k] k by (auto simp: same)
  show ?thesis
    using soft_of_fold [OF k, of "placed_at ?ss" cs] empty
    by (simp add: d(2) attach_soft_passengers_def latest cong: filter_cong) 
qed

lemma soft_passengers_ride_last_witness:
  "soft_of (Extend (Point 1) [0, 1] [7]) =
    map pc_index (filter (\<lambda>c. \<not> pc_hard c \<and> pc_vars c \<noteq> [] \<and>
      set (pc_vars c) \<subseteq> placed_in [Extend (Point 1) [0, 1] [7]] \<and> \<not> set (pc_vars c) \<subseteq> {}) held_point)"
  using soft_passengers_ride_last [OF held_point_plan, of 0] by (simp del: in_simps(3-6) soft_of.simps)

section \<open>The order of the entities\<close>

lemma set_bmap_fresh: "k \<notin> fst ` set m \<Longrightarrow> set (bmap_insert k v m) = insert (k, v) (set m)"
  by (induction k v m rule: bmap_insert.induct) auto

lemma fold_free_set:
  "distinct (map pe_entity es) \<Longrightarrow> fst ` set m \<inter> pe_entity ` set es = {} \<Longrightarrow>
   set (fold (\<lambda>e m. if 0 < pe_free_dofs e then bmap_insert (pe_entity e) (pe_free_dofs e) m else m) es m) =
     set m \<union> (\<lambda>e. (pe_entity e, pe_free_dofs e)) ` {e \<in> set es. 0 < pe_free_dofs e}"
proof (induction es arbitrary: m)
  case (Cons e es)
  let ?m = "if 0 < pe_free_dofs e then bmap_insert (pe_entity e) (pe_free_dofs e) m else m"
  have "fst ` set ?m \<inter> pe_entity ` set es = {}" using Cons.prems by (auto simp: keys_bmap_insert)
  then have "set (fold (\<lambda>e m. if 0 < pe_free_dofs e then bmap_insert (pe_entity e) (pe_free_dofs e) m else m) es ?m) =
      set ?m \<union> (\<lambda>e. (pe_entity e, pe_free_dofs e)) ` {e \<in> set es. 0 < pe_free_dofs e}"
    using Cons.IH [of ?m] Cons.prems(1) by simp
  moreover have "pe_entity e \<notin> fst ` set m" using Cons.prems by auto
  ultimately show ?case by (auto simp: set_bmap_fresh split: if_splits)
qed simp

lemma start_same:
  assumes d: "distinct (map pe_entity es)" and m: "mset es = mset es'"
  shows "start_discovery es cs = start_discovery es' cs"
proof -
  have same: "set es = set es'" using m by (rule mset_eq_setD)
  have d': "distinct (map pe_entity es')"
    using d m by (metis mset_eq_imp_distinct_iff mset_map)
  have "free_map es = free_map es'"
  proof (rule ascending_unique)
    show "ascending (free_map es)" "ascending (free_map es')"
      using free_map_sorted(1) by (simp_all add: ascending_iff strict_sorted_iff)
    show "set (free_map es) = set (free_map es')"
      using fold_free_set [OF d, of "[]"] fold_free_set [OF d', of "[]"] same
      by (simp add: free_map_def start_discovery_def)
  qed
  moreover have "d_cluster_capable (start_discovery es cs) = d_cluster_capable (start_discovery es' cs)"
    by (rule sorted_distinct_set_unique)
       (use capable_sorted [of es cs] capable_sorted [of es' cs] same in \<open>auto simp: strict_sorted_iff\<close>)
  ultimately show ?thesis using start_free [of es cs] start_free [of es' cs] by (simp add: start_discovery_def)
qed

lemma sort_same:
  assumes "distinct (map pe_entity es)" "mset es = mset es'"
  shows "sort_key pe_entity es = sort_key pe_entity es'"
proof (rule map_sorted_distinct_set_unique [where f = pe_entity])
  have same: "set es = set es'" using assms(2) by (rule mset_eq_setD)
  show "inj_on pe_entity (set (sort_key pe_entity es) \<union> set (sort_key pe_entity es'))"
    using assms(1) same by (simp add: distinct_map)
  have "distinct (map pe_entity es')" using assms by (metis mset_eq_imp_distinct_iff mset_map)
  then show "distinct (map pe_entity (sort_key pe_entity es))" "distinct (map pe_entity (sort_key pe_entity es'))"
    using assms(1) by (simp_all add: distinct_map)
qed (use mset_eq_setD [OF assms(2)] in simp_all)

text \<open>The plan and the analysis of a component do not depend on the order in which its entities are
  handed over: only identifiers decide, and the order of insertion that the caller establishes is lost.\<close>

theorem plan_ignores_entity_order:
  assumes "distinct (map pe_entity es)" "mset es = mset es'"
  shows "plan_component es cs = plan_component es' cs \<and> analyze_constrainment es cs = analyze_constrainment es' cs"
  using start_same [OF assms] sort_same [OF assms] by (simp add: plan_component_def analyze_constrainment_def)

lemma plan_ignores_entity_order_witness:
  "plan_component [plan_point 1, plan_point 2] held_point = plan_component [plan_point 2, plan_point 1] held_point"
  using plan_ignores_entity_order [of "[plan_point 1, plan_point 2]" "[plan_point 2, plan_point 1]" held_point]
  by (simp add: plan_point_def)

section \<open>A cluster that is too rigid\<close>

text \<open>Two triangles \<open>1 2 3\<close> and \<open>1 2 4\<close>, each rigid without a bar between the points they share.\<close>

definition shared_hinge :: "plan_entity list \<times> plan_constraint list" where
  "shared_hinge =
     (map plan_point [1, 2, 3, 4],
      [plan_bound 0 1 True False [1, 3], plan_bound 1 2 True False [1, 2, 3],
       plan_bound 2 1 True False [1, 4], plan_bound 3 2 True False [1, 2, 4],
       plan_bound 4 1 True True [1], plan_bound 5 1 True True [2], plan_bound 6 1 True True [3]])"

text \<open>Merging two clusters that share two points counts the distance of these points twice: a cluster
  of four points whose six inner degrees of freedom exceed the five a rigid body of four points takes is
  placed as if rigid, and a component with more hard degrees of freedom than free parameters gets a plan.\<close>

theorem merged_cluster_over_rigid:
  "plan_component (fst shared_hinge) (snd shared_hinge) =
     Some \<lparr>plan_steps = [PlaceCluster (map Point [1, 2, 3, 4]) [0, 1, 2, 3] [4, 5, 6] []]\<rparr> \<and>
   dofs_of (snd shared_hinge) [0, 1, 2, 3] = 6 \<and>
   sum_list (map pe_free_dofs (fst shared_hinge)) = 8 \<and>
   dofs_of (snd shared_hinge) [0..<7] = 9"
  by code_simp

section \<open>The balance of the analysis\<close>

text \<open>Entities the walk places virtually, and the constraints it charges to one of them.\<close>

definition loose :: "entity_ref list \<Rightarrow> plan_entity list \<Rightarrow> plan_entity list" where
  "loose placed es = filter (\<lambda>e. pe_free_dofs e \<noteq> 0 \<and> pe_entity e \<notin> set placed) es"

definition charged_to :: "plan_constraint list \<Rightarrow> bool list \<Rightarrow> entity_ref set \<Rightarrow> entity_ref set \<Rightarrow> nat set" where
  "charged_to cs consumed before new =
     {i. i < length cs \<and> pc_hard (cs ! i) \<and> \<not> consumed ! i \<and> set (pc_vars (cs ! i)) \<inter> new \<noteq> {} \<and>
         set (pc_vars (cs ! i)) \<subseteq> before \<union> new}"

lemma charges_set:
  "fst ` set (charges cs consumed (bset_insert e virtual) e) = charged_to cs consumed (set virtual) {e}"
  by (force simp: charges_def charged_to_def in_set_enumerate_eq image_iff)

lemma charges_sum:
  "dof_sum (charges cs consumed (bset_insert e virtual) e) =
     (\<Sum>i \<in> charged_to cs consumed (set virtual) {e}. pc_dof_removed (cs ! i))"
proof -
  let ?l = "charges cs consumed (bset_insert e virtual) e"
  have d: "distinct (map fst ?l)" unfolding charges_def by (rule distinct_fst_filter) simp
  have "map (\<lambda>(i, c). pc_dof_removed c) ?l = map (\<lambda>i. pc_dof_removed (cs ! i)) (map fst ?l)"
    by (auto simp: charges_def in_set_enumerate_eq)
  then have "dof_sum ?l = sum_list (map (\<lambda>i. pc_dof_removed (cs ! i)) (map fst ?l))"
    by (simp only: dof_sum_def)
  also have "\<dots> = (\<Sum>i \<in> set (map fst ?l). pc_dof_removed (cs ! i))"
    using d by (rule sum_list_distinct_conv_sum_set)
  finally show ?thesis using charges_set [of cs consumed e virtual] by simp
qed

lemma charged_split:
  assumes e: "e \<notin> new" "new \<inter> before = {}" "e \<notin> before" and len: "length consumed = length cs"
    and ics: "set ics = charged_to cs consumed before {e}"
  shows "charged_to cs consumed before (insert e new) =
      charged_to cs consumed before {e} \<union> charged_to cs (consume ics consumed) (insert e before) new"
    and "charged_to cs consumed before {e} \<inter> charged_to cs (consume ics consumed) (insert e before) new = {}"
proof -
  have c: "consume ics consumed ! i \<longleftrightarrow> i \<in> charged_to cs consumed before {e} \<or> consumed ! i" if "i < length cs" for i
    using nth_consume [of i consumed ics] that len ics by simp
  show "charged_to cs consumed before {e} \<inter> charged_to cs (consume ics consumed) (insert e before) new = {}"
    using c by (auto simp: charged_to_def)
  show "charged_to cs consumed before (insert e new) =
      charged_to cs consumed before {e} \<union> charged_to cs (consume ics consumed) (insert e before) new"
    using c e by (auto simp: charged_to_def)
qed

lemma attribute_balance:
  assumes "distinct (map pe_entity es)" "pe_entity ` set (loose placed es) \<inter> set virtual = {}"
    "length consumed = length cs"
  shows "sum_list (map cf_free_dofs (attribute_dofs cs placed labels es consumed virtual)) +
      (\<Sum>i \<in> charged_to cs consumed (set virtual) (pe_entity ` set (loose placed es)). pc_dof_removed (cs ! i)) =
    sum_list (map pe_free_dofs (loose placed es)) +
      sum_list (map cf_overconsumed_dofs (attribute_dofs cs placed labels es consumed virtual))"
  using assms
proof (induction es arbitrary: consumed virtual)
  case Nil
  show ?case by (simp add: loose_def charged_to_def)
next
  case (Cons e es)
  show ?case
  proof (cases "pe_free_dofs e \<noteq> 0 \<and> pe_entity e \<notin> set placed")
    case False
    then have "loose placed (e # es) = loose placed es" by (simp add: loose_def)
    then show ?thesis using Cons False by auto
  next
    case True
    let ?v = "bset_insert (pe_entity e) virtual"
    let ?ch = "charges cs consumed ?v (pe_entity e)"
    let ?c = "consume (map fst ?ch) consumed" and ?new = "pe_entity ` set (loose placed es)"
    have l: "loose placed (e # es) = e # loose placed es" using True by (simp add: loose_def)
    have sub: "?new \<subseteq> pe_entity ` set es" by (auto simp: loose_def)
    have ne: "pe_entity e \<notin> ?new" "pe_entity e \<notin> set virtual" "?new \<inter> set virtual = {}"
      using Cons.prems(1,2) sub l by auto
    have IH: "sum_list (map cf_free_dofs (attribute_dofs cs placed labels es ?c ?v)) +
        (\<Sum>i \<in> charged_to cs ?c (set ?v) ?new. pc_dof_removed (cs ! i)) =
      sum_list (map pe_free_dofs (loose placed es)) +
        sum_list (map cf_overconsumed_dofs (attribute_dofs cs placed labels es ?c ?v))"
      by (rule Cons.IH) (use Cons.prems ne in auto)
    have fin: "finite (charged_to cs b A N)" for b A N by (simp add: charged_to_def)
    have "(\<Sum>i \<in> charged_to cs consumed (set virtual) (insert (pe_entity e) ?new). pc_dof_removed (cs ! i)) =
        dof_sum ?ch + (\<Sum>i \<in> charged_to cs ?c (set ?v) ?new. pc_dof_removed (cs ! i))"
      using charged_split [OF ne(1,3,2) Cons.prems(3), of "map fst ?ch"] charges_set charges_sum fin
      by (simp add: sum.union_disjoint)
    then show ?thesis using IH True l by (simp add: Let_def)
  qed
qed

definition total_free :: "constrainment_analysis \<Rightarrow> nat" where
  "total_free a = sum_list (map cf_free_dofs (ca_facts a))"

definition total_over :: "constrainment_analysis \<Rightarrow> nat" where
  "total_over a = sum_list (map cf_overconsumed_dofs (ca_facts a))"

text \<open>The entities the discovery leaves loose, and the hard constraints that concern them.\<close>

definition left_loose :: "plan_entity list \<Rightarrow> plan_constraint list \<Rightarrow> plan_entity list" where
  "left_loose es cs = loose (d_placed (run_discovery (start_discovery es cs))) es"

definition left_bound :: "plan_entity list \<Rightarrow> plan_constraint list \<Rightarrow> nat set" where
  "left_bound es cs =
     {i. i < length cs \<and> pc_hard (cs ! i) \<and> set (pc_vars (cs ! i)) \<subseteq> free_entities es \<and>
         set (pc_vars (cs ! i)) \<inter> pe_entity ` set (left_loose es cs) \<noteq> {}}"

text \<open>C24. The analysis accounts for every degree of freedom: what it reports free, with what the hard
  constraints on loose entities remove, is what these entities have and what it reports as consumed in
  excess. Each such constraint is charged to exactly one entity.\<close>

theorem attribution_balances:
  assumes "distinct (map pe_entity es)"
  shows "total_free (analyze_constrainment es cs) + (\<Sum>i \<in> left_bound es cs. pc_dof_removed (cs ! i)) =
    sum_list (map pe_free_dofs (left_loose es cs)) + total_over (analyze_constrainment es cs)"
proof -
  let ?d = "run_discovery (start_discovery es cs)"
  note ok = discovery_ok [of es cs]
  obtain labels where a: "ca_facts (analyze_constrainment es cs) =
      attribute_dofs cs (d_placed ?d) labels (sort_key pe_entity es) (d_consumed ?d) (d_placed ?d)"
    by (cases "cluster_labels (d_steps ?d) ([], 0)") (simp add: analyze_constrainment_def Let_def)
  have same: "set (loose (d_placed ?d) (sort_key pe_entity es)) = set (left_loose es cs)"
    "mset (loose (d_placed ?d) (sort_key pe_entity es)) = mset (left_loose es cs)"
    by (auto simp: loose_def left_loose_def)
  have placed: "set (d_placed ?d) = placed_in (d_steps ?d)" using disc_okD(5) [OF ok(1)] .
  have run: "plan_run cs (free_map es) {} {} (d_steps ?d)" using disc_okD(7) [OF ok(1)] ok(2,3) by simp
  have sub: "set (d_placed ?d) \<subseteq> free_entities es"
    using plan_run_distinct [OF run] placed free_map_sorted(2) by simp
  have all: "set (d_placed ?d) \<union> pe_entity ` set (left_loose es cs) = free_entities es"
    using sub by (auto simp: left_loose_def loose_def free_entities_def)
  have dis: "pe_entity ` set (left_loose es cs) \<inter> set (d_placed ?d) = {}" by (auto simp: left_loose_def loose_def)
  have used: "set (pc_vars (cs ! i)) \<subseteq> set (d_placed ?d)" if "i < length cs" "d_consumed ?d ! i" for i
    using plan_run_vars [OF run] disc_okD(6) [OF ok(1)] ok(2) placed that by simp
  have bound: "charged_to cs (d_consumed ?d) (set (d_placed ?d)) (pe_entity ` set (left_loose es cs)) = left_bound es cs"
    unfolding charged_to_def left_bound_def all using used dis by blast
  have "sum_list (map pe_free_dofs (loose (d_placed ?d) (sort_key pe_entity es))) =
      sum_list (map pe_free_dofs (left_loose es cs))"
    using same(2) by (metis mset_map sum_mset_sum_list)
  then show ?thesis
    using attribute_balance [of "sort_key pe_entity es" "d_placed ?d" "d_placed ?d" "d_consumed ?d" cs labels]
      assms same(1) dis disc_okD(3) [OF ok(1)] ok(2) bound
    by (simp add: a total_free_def total_over_def distinct_map)
qed

text \<open>A point \<open>b\<close> whose two coordinates are both given twice, and a point \<open>a\<close> at a distance of it.\<close>

definition leashed_point :: "uuid \<Rightarrow> uuid \<Rightarrow> plan_entity list \<times> plan_constraint list" where
  "leashed_point a b =
     ([plan_point a, plan_point b],
      [plan_bound 0 1 True True [b], plan_bound 1 1 True True [b], plan_bound 2 1 True True [b],
       plan_bound 3 1 True True [b], plan_bound 4 1 True False [a, b]])"

lemma attribution_balances_witness:
  "total_free (analyze_constrainment (fst (leashed_point 1 2)) (snd (leashed_point 1 2))) +
      (\<Sum>i \<in> left_bound (fst (leashed_point 1 2)) (snd (leashed_point 1 2)). pc_dof_removed (snd (leashed_point 1 2) ! i)) =
    sum_list (map pe_free_dofs (left_loose (fst (leashed_point 1 2)) (snd (leashed_point 1 2)))) +
      total_over (analyze_constrainment (fst (leashed_point 1 2)) (snd (leashed_point 1 2)))"
  by (rule attribution_balances) (simp add: leashed_point_def plan_point_def)

text \<open>The total that the analysis reports free depends on the identifiers the entities happen to have:
  of one component, drawn with the identifiers of two points exchanged, it is 2 or 1.\<close>

theorem attribution_total_follows_ids:
  "total_free (analyze_constrainment (fst (leashed_point 1 2)) (snd (leashed_point 1 2))) = 2 \<and>
   total_free (analyze_constrainment (fst (leashed_point 2 1)) (snd (leashed_point 2 1))) = 1"
  by code_simp

end
