(* ===== verification/Api_Error.thy ===== *)
theory Api_Error
  imports Timeline_Types
begin

text \<open>
  \<^verbatim>\<open>api-server/src/error_catalog.rs\<close>: the closed catalog of error codes with their HTTP status, whether a
  client may retry, and the wire string; errors and the responses they become. A message that the code
  formats is one constructor of \<open>api_text\<close> with the values it prints.
\<close>

section \<open>The catalog\<close>

datatype error_code =
    MissingField | MissingParameter | InvalidParameter | UnknownShapeType | InvalidJson
    | CheckpointNameRejected | IntentRequired | VerificationRequired | KernelError | BlendFailed
    | BooleanDisjoint | OpTimeout | TessellationEmpty | SolidNotFound | PartNotFound
    | KernelReturnedWrongType | UnsoundBase | SheetUncertified | SheetUnsound | SheetQuality
    | DrawingOwnerUnresolvable | IdempotencyKeyEmpty | IdempotencyKeyTooLong | IdempotencyKeyReused
    | IdempotencyBodyTooLarge | IdempotencyResponseTooLarge | IdempotencyReplayFailed
    | TransactionNotFound | TransactionNotActive | BranchNotFound | BranchInvalidState
    | BranchMergeConflict | BranchNotActive | BranchReplayRefused | DocumentNotFound
    | DocumentDeleteRefusedActive | DocumentDeleteRefusedLast | DocumentDeleteRefusedDefault
    | SketchConstraintConflict | AiNotConfigured | AiProviderRefused | AiCredentialInvalid
    | AiModelDiscoveryFailed | AiModelRejected | AcpMethodNotAllowed | AcpWebsocketDisabled
    | AcpForbiddenSessionMeta | PermissionDenied | MethodNotAllowed | DurabilityPersistFailed
    | RecordingFailed | Internal

fun code_status :: "error_code \<Rightarrow> nat" where
  "code_status MissingField = 400"
| "code_status MissingParameter = 400"
| "code_status InvalidParameter = 400"
| "code_status UnknownShapeType = 400"
| "code_status InvalidJson = 400"
| "code_status BlendFailed = 400"
| "code_status BooleanDisjoint = 400"
| "code_status IdempotencyKeyEmpty = 400"
| "code_status IdempotencyKeyTooLong = 400"
| "code_status IdempotencyKeyReused = 409"
| "code_status TransactionNotActive = 409"
| "code_status BranchInvalidState = 409"
| "code_status BranchMergeConflict = 409"
| "code_status BranchNotActive = 409"
| "code_status BranchReplayRefused = 409"
| "code_status SketchConstraintConflict = 409"
| "code_status DocumentDeleteRefusedActive = 409"
| "code_status DocumentDeleteRefusedLast = 409"
| "code_status DocumentDeleteRefusedDefault = 409"
| "code_status UnsoundBase = 409"
| "code_status SheetUnsound = 409"
| "code_status SheetQuality = 409"
| "code_status DrawingOwnerUnresolvable = 409"
| "code_status IdempotencyBodyTooLarge = 413"
| "code_status CheckpointNameRejected = 422"
| "code_status IntentRequired = 422"
| "code_status VerificationRequired = 422"
| "code_status SolidNotFound = 404"
| "code_status PartNotFound = 404"
| "code_status TransactionNotFound = 404"
| "code_status BranchNotFound = 404"
| "code_status DocumentNotFound = 404"
| "code_status KernelError = 500"
| "code_status TessellationEmpty = 500"
| "code_status KernelReturnedWrongType = 500"
| "code_status IdempotencyResponseTooLarge = 500"
| "code_status IdempotencyReplayFailed = 500"
| "code_status DurabilityPersistFailed = 500"
| "code_status RecordingFailed = 500"
| "code_status Internal = 500"
| "code_status AiNotConfigured = 503"
| "code_status SheetUncertified = 503"
| "code_status AiCredentialInvalid = 400"
| "code_status AiModelRejected = 400"
| "code_status AiModelDiscoveryFailed = 400"
| "code_status AiProviderRefused = 403"
| "code_status AcpMethodNotAllowed = 403"
| "code_status AcpWebsocketDisabled = 403"
| "code_status AcpForbiddenSessionMeta = 403"
| "code_status OpTimeout = 504"
| "code_status PermissionDenied = 403"
| "code_status MethodNotAllowed = 405"

fun retryable :: "error_code \<Rightarrow> bool" where
  "retryable MissingField = False"
| "retryable MissingParameter = False"
| "retryable InvalidParameter = False"
| "retryable UnknownShapeType = False"
| "retryable InvalidJson = False"
| "retryable CheckpointNameRejected = False"
| "retryable IntentRequired = False"
| "retryable VerificationRequired = False"
| "retryable BlendFailed = False"
| "retryable BooleanDisjoint = False"
| "retryable SolidNotFound = False"
| "retryable PartNotFound = False"
| "retryable IdempotencyKeyEmpty = False"
| "retryable IdempotencyKeyTooLong = False"
| "retryable IdempotencyKeyReused = False"
| "retryable IdempotencyBodyTooLarge = False"
| "retryable TransactionNotFound = False"
| "retryable TransactionNotActive = False"
| "retryable BranchNotFound = False"
| "retryable BranchInvalidState = False"
| "retryable BranchMergeConflict = False"
| "retryable BranchNotActive = False"
| "retryable BranchReplayRefused = False"
| "retryable DocumentNotFound = False"
| "retryable DocumentDeleteRefusedActive = False"
| "retryable DocumentDeleteRefusedLast = False"
| "retryable DocumentDeleteRefusedDefault = False"
| "retryable SketchConstraintConflict = False"
| "retryable AiNotConfigured = False"
| "retryable AiProviderRefused = False"
| "retryable AiCredentialInvalid = False"
| "retryable AiModelRejected = False"
| "retryable AiModelDiscoveryFailed = False"
| "retryable AcpMethodNotAllowed = False"
| "retryable AcpWebsocketDisabled = False"
| "retryable AcpForbiddenSessionMeta = False"
| "retryable OpTimeout = False"
| "retryable UnsoundBase = False"
| "retryable SheetUnsound = False"
| "retryable SheetQuality = False"
| "retryable DrawingOwnerUnresolvable = False"
| "retryable PermissionDenied = False"
| "retryable MethodNotAllowed = False"
| "retryable KernelError = True"
| "retryable TessellationEmpty = True"
| "retryable KernelReturnedWrongType = True"
| "retryable IdempotencyResponseTooLarge = True"
| "retryable IdempotencyReplayFailed = True"
| "retryable SheetUncertified = True"
| "retryable DurabilityPersistFailed = True"
| "retryable RecordingFailed = True"
| "retryable Internal = True"

fun code_str :: "error_code \<Rightarrow> string" where
  "code_str MissingField = ''missing_field''"
| "code_str MissingParameter = ''missing_parameter''"
| "code_str InvalidParameter = ''invalid_parameter''"
| "code_str UnknownShapeType = ''unknown_shape_type''"
| "code_str InvalidJson = ''invalid_json''"
| "code_str CheckpointNameRejected = ''checkpoint_name_rejected''"
| "code_str IntentRequired = ''intent_required''"
| "code_str VerificationRequired = ''verification_required''"
| "code_str KernelError = ''kernel_error''"
| "code_str BlendFailed = ''blend_failed''"
| "code_str BooleanDisjoint = ''boolean_disjoint''"
| "code_str OpTimeout = ''op_timeout''"
| "code_str TessellationEmpty = ''tessellation_empty''"
| "code_str SolidNotFound = ''solid_not_found''"
| "code_str PartNotFound = ''part_not_found''"
| "code_str KernelReturnedWrongType = ''kernel_returned_wrong_type''"
| "code_str UnsoundBase = ''unsound_base''"
| "code_str SheetUncertified = ''sheet_uncertified''"
| "code_str SheetUnsound = ''sheet_unsound''"
| "code_str SheetQuality = ''sheet_quality''"
| "code_str DrawingOwnerUnresolvable = ''drawing_owner_unresolvable''"
| "code_str IdempotencyKeyEmpty = ''idempotency_key_empty''"
| "code_str IdempotencyKeyTooLong = ''idempotency_key_too_long''"
| "code_str IdempotencyKeyReused = ''idempotency_key_reused''"
| "code_str IdempotencyBodyTooLarge = ''idempotency_body_too_large''"
| "code_str IdempotencyResponseTooLarge = ''idempotency_response_too_large''"
| "code_str IdempotencyReplayFailed = ''idempotency_replay_failed''"
| "code_str TransactionNotFound = ''transaction_not_found''"
| "code_str TransactionNotActive = ''transaction_not_active''"
| "code_str BranchNotFound = ''branch_not_found''"
| "code_str BranchInvalidState = ''branch_invalid_state''"
| "code_str BranchMergeConflict = ''branch_merge_conflict''"
| "code_str BranchNotActive = ''branch_not_active''"
| "code_str BranchReplayRefused = ''branch_replay_refused''"
| "code_str DocumentNotFound = ''document_not_found''"
| "code_str DocumentDeleteRefusedActive = ''document_delete_refused_active''"
| "code_str DocumentDeleteRefusedLast = ''document_delete_refused_last''"
| "code_str DocumentDeleteRefusedDefault = ''document_delete_refused_default''"
| "code_str SketchConstraintConflict = ''sketch_constraint_conflict''"
| "code_str AiNotConfigured = ''ai_not_configured''"
| "code_str AiProviderRefused = ''ai_provider_refused''"
| "code_str AiCredentialInvalid = ''ai_credential_invalid''"
| "code_str AiModelRejected = ''ai_model_rejected''"
| "code_str AiModelDiscoveryFailed = ''ai_model_discovery_failed''"
| "code_str AcpMethodNotAllowed = ''acp_method_not_allowed''"
| "code_str AcpWebsocketDisabled = ''acp_websocket_disabled''"
| "code_str AcpForbiddenSessionMeta = ''acp_forbidden_session_meta''"
| "code_str PermissionDenied = ''permission_denied''"
| "code_str MethodNotAllowed = ''method_not_allowed''"
| "code_str DurabilityPersistFailed = ''durability_persist_failed''"
| "code_str RecordingFailed = ''recording_failed''"
| "code_str Internal = ''internal_error''"

definition all_codes :: "error_code list" where
  "all_codes =
     [MissingField, MissingParameter, InvalidParameter, UnknownShapeType, InvalidJson,
      CheckpointNameRejected, IntentRequired, VerificationRequired, KernelError, BlendFailed,
      BooleanDisjoint, OpTimeout, TessellationEmpty, SolidNotFound, PartNotFound,
      KernelReturnedWrongType, UnsoundBase, SheetUncertified, SheetUnsound, SheetQuality,
      DrawingOwnerUnresolvable, IdempotencyKeyEmpty, IdempotencyKeyTooLong, IdempotencyKeyReused,
      IdempotencyBodyTooLarge, IdempotencyResponseTooLarge, IdempotencyReplayFailed,
      TransactionNotFound, TransactionNotActive, BranchNotFound, BranchInvalidState,
      BranchMergeConflict, BranchNotActive, BranchReplayRefused, DocumentNotFound,
      DocumentDeleteRefusedActive, DocumentDeleteRefusedLast, DocumentDeleteRefusedDefault,
      SketchConstraintConflict, AiNotConfigured, AiProviderRefused, AiCredentialInvalid,
      AiModelRejected, AiModelDiscoveryFailed, AcpMethodNotAllowed, AcpWebsocketDisabled,
      AcpForbiddenSessionMeta, PermissionDenied, MethodNotAllowed, DurabilityPersistFailed,
      RecordingFailed, Internal]"

lemma all_codes_complete: "c \<in> set all_codes"
  by (cases c) (simp_all add: all_codes_def)

lemma code_str_distinct: "distinct (map code_str all_codes)"
  by code_simp

section \<open>Errors and responses\<close>

text \<open>What an error says: its prose, hint and details are determined by the constructor and its values.\<close>

datatype api_text =
    KeyEmptyText
  | KeyTooLongText nat
  | KeyReusedText
  | BodyTooLargeText nat
  | ResponseTooLargeText
  | TxUnknownText uuid
  | TxTerminalText uuid string
  | TxInactiveText uuid
  | NotUuidText string
  | NonAsciiText
  | PartUnknownText uuid
  | FieldText string
  | SolidUnknownText "32 word"
  | VanishedText
  | HandlerText string
  | OpTimeoutText string nat "32 word list"
  | OpPanickedText string
  | ConcurrentText

record api_error =
  ae_code :: error_code
  ae_text :: api_text
  ae_retryable :: bool

definition new_error :: "error_code \<Rightarrow> api_text \<Rightarrow> api_error" where
  "new_error c t = \<lparr>ae_code = c, ae_text = t, ae_retryable = retryable c\<rparr>"

type_synonym header_value = "byte list"

record response =
  rs_status :: nat
  rs_headers :: "(string \<times> header_value) list"
  rs_body :: "byte list"

text \<open>\<open>render\<close> is the JSON of an error, \<open>json_type\<close> the content type axum gives to JSON.\<close>

definition error_response :: "header_value \<Rightarrow> (api_error \<Rightarrow> byte list) \<Rightarrow> api_error \<Rightarrow> response" where
  "error_response json_type render e =
     \<lparr>rs_status = code_status (ae_code e), rs_headers = [(''content-type'', json_type)], rs_body = render e\<rparr>"

definition is_server_error :: "nat \<Rightarrow> bool" where
  "is_server_error n \<longleftrightarrow> 500 \<le> n \<and> n < 600"

lemma retryable_server_error: "retryable c \<Longrightarrow> is_server_error (code_status c)"
  by (cases c) (simp_all add: is_server_error_def)

end
