(* ===== verification/Idempotency.thy ===== *)
theory Idempotency
  imports Api_Error
begin

text \<open>
  \<^verbatim>\<open>api-server/src/idempotency.rs\<close>: the store of cached responses and the layer around every handler.
  The handler is a function from a request and its own state to a response and a new state. A handler
  runs between the two halves of the layer, \<open>enter\<close> and \<open>leave\<close>, each of which is atomic; the layer is
  their composition. Instants are numbers of nanoseconds, read where the code reads the clock.
\<close>

section \<open>Requests\<close>

datatype http_method = GET | HEAD | OPTIONS | POST | PUT | PATCH | DELETE | OtherMethod string

text \<open>\<open>rq_user\<close> is the user of the \<^verbatim>\<open>AuthInfo\<close> that the authentication layer outside left in the
  extensions; header names are in lower case.\<close>

record request =
  rq_method :: http_method
  rq_target :: string
  rq_headers :: "(string \<times> header_value) list"
  rq_user :: "string option"
  rq_body :: "byte list"

text \<open>What the layer uses of its packages: the text of a header value that is one, the bytes of a body
  up to a limit, and the hash of a body.\<close>

record web =
  web_to_str :: "header_value \<Rightarrow> string option"
  web_to_bytes :: "byte list \<Rightarrow> nat \<Rightarrow> byte list option"
  web_fingerprint :: "byte list \<Rightarrow> 64 word"
  web_render :: "api_error \<Rightarrow> byte list"
  web_json_type :: header_value

text \<open>The documented behaviour of \<^verbatim>\<open>to_bytes\<close>.\<close>

definition web_ok :: "web \<Rightarrow> bool" where
  "web_ok w \<longleftrightarrow> (\<forall>b n. web_to_bytes w b n = (if length b \<le> n then Some b else None))"

definition web_error :: "web \<Rightarrow> error_code \<Rightarrow> api_text \<Rightarrow> response" where
  "web_error w c t = error_response (web_json_type w) (web_render w) (new_error c t)"

definition MAX_BUFFERED_BODY :: nat where "MAX_BUFFERED_BODY = 4 * 1024 * 1024"
definition CACHE_TTL :: nat where "CACHE_TTL = 24 * 60 * 60 * 1000000000"
definition MAX_KEY_LEN :: nat where "MAX_KEY_LEN = 255"
definition DEFAULT_MAX_ENTRIES :: nat where "DEFAULT_MAX_ENTRIES = 50000"
definition RETAIN_NUM :: nat where "RETAIN_NUM = 4"
definition RETAIN_DEN :: nat where "RETAIN_DEN = 5"

datatype principal = User string | Anonymous

record cache_key =
  ck_principal :: principal
  ck_method :: http_method
  ck_target :: string
  ck_client_key :: string

record cached_response =
  cr_fingerprint :: "64 word"
  cr_status :: nat
  cr_content_type :: "header_value option"
  cr_body :: "byte list"
  cr_inserted_at :: nat

section \<open>The store\<close>

record idem_store =
  is_entries :: "(cache_key, cached_response) dmap"
  is_max_entries :: nat
  is_ttl :: nat

definition with_capacity :: "nat \<Rightarrow> idem_store" where
  "with_capacity n = \<lparr>is_entries = [], is_max_entries = n, is_ttl = CACHE_TTL\<rparr>"

definition new_idem_store :: idem_store where
  "new_idem_store = \<lparr>is_entries = [], is_max_entries = DEFAULT_MAX_ENTRIES, is_ttl = CACHE_TTL\<rparr>"

definition expired :: "idem_store \<Rightarrow> nat \<Rightarrow> cached_response \<Rightarrow> bool" where
  "expired st now c \<longleftrightarrow> is_ttl st < now - cr_inserted_at c"

definition get_cached :: "nat \<Rightarrow> cache_key \<Rightarrow> idem_store \<Rightarrow> cached_response option \<times> idem_store" where
  "get_cached now k st =
     (case map_of (is_entries st) k of
        None \<Rightarrow> (None, st)
      | Some c \<Rightarrow> if expired st now c then (None, st\<lparr>is_entries := AList.delete k (is_entries st)\<rparr>)
                  else (Some c, st))"

definition retention_floor :: "nat \<Rightarrow> nat" where
  "retention_floor n = min (n * RETAIN_NUM) (2 ^ 64 - 1) div max RETAIN_DEN 1"

definition drop_expired :: "nat \<Rightarrow> idem_store \<Rightarrow> idem_store" where
  "drop_expired now st =
     st\<lparr>is_entries := fold AList.delete (map fst (filter (\<lambda>(k, c). expired st now c) (is_entries st))) (is_entries st)\<rparr>"

definition drop_oldest :: "idem_store \<Rightarrow> idem_store" where
  "drop_oldest st =
     (let by_age = sort_key snd (map (\<lambda>(k, c). (k, cr_inserted_at c)) (is_entries st));
          to_drop = length by_age - retention_floor (is_max_entries st)
      in st\<lparr>is_entries := fold AList.delete (map fst (take to_drop by_age)) (is_entries st)\<rparr>)"

definition sweep_for_capacity :: "nat \<Rightarrow> idem_store \<Rightarrow> idem_store" where
  "sweep_for_capacity now st =
     (let st' = drop_expired now st
      in if length (is_entries st') < is_max_entries st' then st' else drop_oldest st')"

definition insert_cached :: "nat \<Rightarrow> cache_key \<Rightarrow> cached_response \<Rightarrow> idem_store \<Rightarrow> idem_store" where
  "insert_cached now k c st =
     (let st' = if is_max_entries st \<le> length (is_entries st) then sweep_for_capacity now st else st
      in st'\<lparr>is_entries := AList.update k c (is_entries st')\<rparr>)"

section \<open>The layer\<close>

fun is_mutating :: "http_method \<Rightarrow> bool" where
  "is_mutating POST = True"
| "is_mutating PUT = True"
| "is_mutating PATCH = True"
| "is_mutating DELETE = True"
| "is_mutating _ = False"

definition client_key_of :: "web \<Rightarrow> request \<Rightarrow> string option" where
  "client_key_of w rq =
     (case map_of (rq_headers rq) ''idempotency-key'' of None \<Rightarrow> None | Some v \<Rightarrow> web_to_str w v)"

definition cache_key_of :: "request \<Rightarrow> string \<Rightarrow> cache_key" where
  "cache_key_of rq key =
     \<lparr>ck_principal = (case rq_user rq of Some u \<Rightarrow> User u | None \<Rightarrow> Anonymous),
      ck_method = rq_method rq, ck_target = rq_target rq, ck_client_key = key\<rparr>"

definition replay_marker :: "string \<times> header_value" where
  "replay_marker = (''idempotency-replayed'', [116, 114, 117, 101])"

definition replay :: "cached_response \<Rightarrow> response" where
  "replay c =
     \<lparr>rs_status = cr_status c,
      rs_headers = (case cr_content_type c of Some ct \<Rightarrow> [(''content-type'', ct)] | None \<Rightarrow> []) @ [replay_marker],
      rs_body = cr_body c\<rparr>"

text \<open>The first half: up to the call of the handler. \<open>Forward\<close> runs the handler with no caching,
  \<open>Missed\<close> with the key and the fingerprint the answer is to be cached under.\<close>

datatype entered = Forward | Answer response | Missed cache_key "64 word" "byte list"

definition enter :: "web \<Rightarrow> nat \<Rightarrow> request \<Rightarrow> idem_store \<Rightarrow> entered \<times> idem_store" where
  "enter w now rq st =
     (if \<not> is_mutating (rq_method rq) then (Forward, st)
      else case client_key_of w rq of
        None \<Rightarrow> (Forward, st)
      | Some key \<Rightarrow>
          if key = [] then (Answer (web_error w IdempotencyKeyEmpty KeyEmptyText), st)
          else if MAX_KEY_LEN < length key
          then (Answer (web_error w IdempotencyKeyTooLong (KeyTooLongText MAX_KEY_LEN)), st)
          else case web_to_bytes w (rq_body rq) MAX_BUFFERED_BODY of
            None \<Rightarrow> (Answer (web_error w IdempotencyBodyTooLarge (BodyTooLargeText MAX_BUFFERED_BODY)), st)
          | Some body \<Rightarrow>
              let k = cache_key_of rq key; fp = web_fingerprint w body; (hit, st') = get_cached now k st
              in (case hit of
                    Some c \<Rightarrow>
                      if cr_fingerprint c = fp then (Answer (replay c), st')
                      else (Answer (web_error w IdempotencyKeyReused KeyReusedText), st')
                  | None \<Rightarrow> (Missed k fp body, st')))"

text \<open>The second half: what becomes of the answer of the handler. \<open>now\<close> is the instant of the stamp
  and of the sweep.\<close>

definition leave :: "web \<Rightarrow> nat \<Rightarrow> cache_key \<Rightarrow> 64 word \<Rightarrow> response \<Rightarrow> idem_store \<Rightarrow> response \<times> idem_store" where
  "leave w now k fp rs st =
     (if is_server_error (rs_status rs) then (rs, st)
      else case web_to_bytes w (rs_body rs) MAX_BUFFERED_BODY of
        None \<Rightarrow> (web_error w IdempotencyResponseTooLarge ResponseTooLargeText, st)
      | Some body \<Rightarrow>
          (rs\<lparr>rs_body := body\<rparr>,
           insert_cached now k
             \<lparr>cr_fingerprint = fp, cr_status = rs_status rs,
              cr_content_type = map_of (rs_headers rs) ''content-type'', cr_body = body, cr_inserted_at = now\<rparr> st))"

type_synonym 's handler = "request \<Rightarrow> 's \<Rightarrow> response \<times> 's"

definition idempotency_layer ::
  "web \<Rightarrow> 's handler \<Rightarrow> nat \<times> nat \<times> request \<Rightarrow> idem_store \<times> 's \<Rightarrow> response \<times> idem_store \<times> 's" where
  "idempotency_layer w h call sys =
     (let (t, t', rq) = call; (st, s) = sys
      in case enter w t rq st of
           (Forward, st') \<Rightarrow> (let (rs, s') = h rq s in (rs, st', s'))
         | (Answer rs, st') \<Rightarrow> (rs, st', s)
         | (Missed k fp body, st') \<Rightarrow>
             (let (rs, s') = h (rq\<lparr>rq_body := body\<rparr>) s; (rs', st'') = leave w t' k fp rs st'
              in (rs', st'', s')))"

text \<open>A server that answers one call after the other.\<close>

fun serve ::
  "web \<Rightarrow> 's handler \<Rightarrow> (nat \<times> nat \<times> request) list \<Rightarrow> idem_store \<times> 's \<Rightarrow> response list \<times> idem_store \<times> 's" where
  "serve w h [] sys = ([], sys)"
| "serve w h (call # calls) sys =
     (let (rs, sys') = idempotency_layer w h call sys; (rss, sys'') = serve w h calls sys'
      in (rs # rss, sys''))"

section \<open>Calls in flight\<close>

text \<open>Handlers are awaited, so calls overlap: each is in one of three phases, and any of them may take the
  h step, at any instant.\<close>

datatype phase = Waiting entered | Handled cache_key "64 word" response | Answered response

record 's server =
  sv_store :: idem_store
  sv_state :: 's
  sv_calls :: "(request \<times> phase) list"

inductive server_step :: "web \<Rightarrow> 's handler \<Rightarrow> 's server \<Rightarrow> 's server \<Rightarrow> bool"
  for w :: web and h :: "'s handler" where
  arrive: "enter w t rq (sv_store S) = (r, st) \<Longrightarrow>
     server_step w h S (S\<lparr>sv_store := st, sv_calls := sv_calls S @ [(rq, Waiting r)]\<rparr>)"
| reply: "i < length (sv_calls S) \<Longrightarrow> sv_calls S ! i = (rq, Waiting (Answer rs)) \<Longrightarrow>
     server_step w h S (S\<lparr>sv_calls := (sv_calls S)[i := (rq, Answered rs)]\<rparr>)"
| pass: "i < length (sv_calls S) \<Longrightarrow> sv_calls S ! i = (rq, Waiting Forward) \<Longrightarrow> h rq (sv_state S) = (rs, s) \<Longrightarrow>
     server_step w h S (S\<lparr>sv_state := s, sv_calls := (sv_calls S)[i := (rq, Answered rs)]\<rparr>)"
| handle: "i < length (sv_calls S) \<Longrightarrow> sv_calls S ! i = (rq, Waiting (Missed k fp body)) \<Longrightarrow>
     h (rq\<lparr>rq_body := body\<rparr>) (sv_state S) = (rs, s) \<Longrightarrow>
     server_step w h S (S\<lparr>sv_state := s, sv_calls := (sv_calls S)[i := (rq, Handled k fp rs)]\<rparr>)"
| finish: "i < length (sv_calls S) \<Longrightarrow> sv_calls S ! i = (rq, Handled k fp rs) \<Longrightarrow>
     leave w t k fp rs (sv_store S) = (rs', st) \<Longrightarrow>
     server_step w h S (S\<lparr>sv_store := st, sv_calls := (sv_calls S)[i := (rq, Answered rs')]\<rparr>)"

definition start_server :: "nat \<Rightarrow> 's \<Rightarrow> 's server" where
  "start_server n s = \<lparr>sv_store = with_capacity n, sv_state = s, sv_calls = []\<rparr>"

end
