(* ===== verification/Solid_Store.thy ===== *)
theory Solid_Store
  imports Prelude
begin

text \<open>
  \<^verbatim>\<open>SolidStore\<close> of \<^verbatim>\<open>geometry-engine/src/primitives/solid.rs\<close>: the solids of one model by identifier, with an
  index by name and one by shell. What else a solid is made of is the type parameter. The counter of
  identifiers is 32 bits wide and wraps.
\<close>

type_synonym solid_id = "32 word"
type_synonym shell_id = "32 word"

record 'g solid =
  sol_id :: solid_id
  sol_name :: "string option"
  sol_outer_shell :: shell_id
  sol_inner_shells :: "shell_id list"
  sol_peer_shells :: "shell_id list"
  sol_rest :: 'g

definition all_shells :: "'g solid \<Rightarrow> shell_id list" where
  "all_shells s = sol_outer_shell s # sol_inner_shells s @ sol_peer_shells s"

record 'g solid_store =
  ss_solids :: "(solid_id, 'g solid) dmap"
  ss_name_map :: "(string, solid_id) dmap"
  ss_shell_to_solids :: "(shell_id, solid_id list) dmap"
  ss_next_id :: solid_id
  ss_total_created :: "64 word"

definition new_solid_store :: "'g solid_store" where
  "new_solid_store =
     \<lparr>ss_solids = [], ss_name_map = [], ss_shell_to_solids = [], ss_next_id = 0, ss_total_created = 0\<rparr>"

definition add_solid :: "'g solid \<Rightarrow> 'g solid_store \<Rightarrow> solid_id \<times> 'g solid_store" where
  "add_solid s st =
     (ss_next_id st,
      st\<lparr>ss_solids := AList.update (ss_next_id st) (s\<lparr>sol_id := ss_next_id st\<rparr>) (ss_solids st),
         ss_next_id := ss_next_id st + 1, ss_total_created := ss_total_created st + 1\<rparr>)"

definition push_shell :: "solid_id \<Rightarrow> shell_id \<Rightarrow> (shell_id, solid_id list) dmap \<Rightarrow> (shell_id, solid_id list) dmap" where
  "push_shell i sh m = AList.update sh ((case map_of m sh of None \<Rightarrow> [] | Some l \<Rightarrow> l) @ [i]) m"

definition add_with_indexing :: "'g solid \<Rightarrow> 'g solid_store \<Rightarrow> solid_id \<times> 'g solid_store" where
  "add_with_indexing s st =
     (let i = ss_next_id st
      in add_solid s (st\<lparr>
           ss_name_map := (case sol_name s of None \<Rightarrow> ss_name_map st | Some n \<Rightarrow> AList.update n i (ss_name_map st)),
           ss_shell_to_solids := fold (push_shell i) (all_shells s) (ss_shell_to_solids st)\<rparr>))"

definition get_solid :: "'g solid_store \<Rightarrow> solid_id \<Rightarrow> 'g solid option" where
  "get_solid st i = map_of (ss_solids st) i"

definition remove_solid :: "solid_id \<Rightarrow> 'g solid_store \<Rightarrow> 'g solid_store" where
  "remove_solid i st =
     (case map_of (ss_solids st) i of
        None \<Rightarrow> st
      | Some s \<Rightarrow>
          st\<lparr>ss_solids := AList.delete i (ss_solids st),
             ss_name_map := (case sol_name s of None \<Rightarrow> ss_name_map st | Some n \<Rightarrow> AList.delete n (ss_name_map st)),
             ss_shell_to_solids := modify_entry (sol_outer_shell s) (filter (\<lambda>x. x \<noteq> i)) (ss_shell_to_solids st)\<rparr>)"

definition find_by_name :: "'g solid_store \<Rightarrow> string \<Rightarrow> solid_id option" where
  "find_by_name st n = map_of (ss_name_map st) n"

definition solids_with_shell :: "'g solid_store \<Rightarrow> shell_id \<Rightarrow> solid_id list" where
  "solids_with_shell st sh = (case map_of (ss_shell_to_solids st) sh of None \<Rightarrow> [] | Some l \<Rightarrow> l)"

definition solid_count :: "'g solid_store \<Rightarrow> nat" where
  "solid_count st = length (ss_solids st)"

section \<open>Lookups\<close>

lemma get_add: "get_solid (snd (add_solid s st)) = (get_solid st)(ss_next_id st \<mapsto> s\<lparr>sol_id := ss_next_id st\<rparr>)"
  by (simp add: get_solid_def add_solid_def dmap_simps fun_eq_iff)

lemma get_remove: "get_solid (remove_solid i st) = (get_solid st)(i := None)"
  by (auto simp: get_solid_def remove_solid_def dmap_simps fun_eq_iff split: option.split)

lemma add_fields [simp]:
  "fst (add_solid s st) = ss_next_id st" "ss_next_id (snd (add_solid s st)) = ss_next_id st + 1"
  by (simp_all add: add_solid_def)

lemma remove_fields [simp]: "ss_next_id (remove_solid i st) = ss_next_id st"
  by (simp add: remove_solid_def split: option.split)

lemma get_fold_remove: "get_solid (fold remove_solid is st) i = (if i \<in> set is then None else get_solid st i)"
  by (induction "is" arbitrary: st) (auto simp: get_remove)

lemma fold_remove_next [simp]: "ss_next_id (fold remove_solid is st) = ss_next_id st"
  by (induction "is" arbitrary: st) simp_all

text \<open>Identifiers in use are below the counter, as long as it has not wrapped.\<close>

definition ids_below :: "'g solid_store \<Rightarrow> bool" where
  "ids_below st \<longleftrightarrow> (\<forall>i. get_solid st i \<noteq> None \<longrightarrow> i < ss_next_id st)"

lemma ids_below_new: "ids_below new_solid_store"
  by (simp add: ids_below_def get_solid_def new_solid_store_def)

lemma word_less_Suc: "unat (w :: 32 word) + 1 < 2 ^ 32 \<Longrightarrow> w < w + 1 \<and> unat (w + 1) = unat w + 1"
  by (auto simp: word_less_nat_alt unat_word_ariths)

lemma ids_below_add:
  "ids_below st \<Longrightarrow> unat (ss_next_id st) + 1 < 2 ^ 32 \<Longrightarrow> ids_below (snd (add_solid s st))"
  using word_less_Suc [of "ss_next_id st"]
  unfolding ids_below_def get_add by (auto intro: less_trans)

lemma ids_below_remove: "ids_below st \<Longrightarrow> ids_below (fold remove_solid is st)"
  by (simp add: ids_below_def get_fold_remove)

lemma next_id_free: "ids_below st \<Longrightarrow> get_solid st (ss_next_id st) = None"
  unfolding ids_below_def by (metis word_less_nat_alt less_irrefl not_None_eq)

end
