(* ===== verification/Api_Tx.thy ===== *)
theory Api_Tx
  imports Idempotency Solid_Store
begin

text \<open>
  Transactions over the kernel (\<^verbatim>\<open>api-server/src/transactions.rs\<close>), the registry of parts with the choice of
  the model a request works on (\<^verbatim>\<open>part_mgr.rs\<close>), and the handlers and the sweeper of \<^verbatim>\<open>main.rs\<close> that bring
  the two together. Of a kernel model only its solids are modelled. Identifiers are drawn and clocks
  are read by the environment; both are arguments. What a handler does to JSON on the way in and out is
  the record \<open>geometry\<close> of parameters.
\<close>

section \<open>Transactions\<close>

datatype tx_status = Active | Committed | RolledBack | Expired

definition TX_TTL :: nat where "TX_TTL = 60 * 60 * 1000000000"

record transaction_state =
  tx_ident :: uuid
  tx_status :: tx_status
  tx_created_at :: nat
  tx_created_solids :: "solid_id list"

record transaction_view =
  tv_tx_id :: uuid
  tv_status :: tx_status
  tv_created_solids :: "solid_id list"
  tv_age_seconds :: nat

type_synonym tx_manager = "(uuid, transaction_state) dmap"

fun status_str :: "tx_status \<Rightarrow> string" where
  "status_str Active = ''active''"
| "status_str Committed = ''committed''"
| "status_str RolledBack = ''rolled_back''"
| "status_str Expired = ''expired''"

definition transaction_not_found :: "uuid \<Rightarrow> api_error" where
  "transaction_not_found i = new_error TransactionNotFound (TxUnknownText i)"

definition transaction_not_active :: "uuid \<Rightarrow> tx_status \<Rightarrow> api_error" where
  "transaction_not_active i st = new_error TransactionNotActive (TxTerminalText i (status_str st))"

definition begin_tx :: "uuid \<Rightarrow> nat \<Rightarrow> tx_manager \<Rightarrow> tx_manager" where
  "begin_tx i now m =
     AList.update i \<lparr>tx_ident = i, tx_status = Active, tx_created_at = now, tx_created_solids = []\<rparr> m"

definition tx_view_of :: "nat \<Rightarrow> transaction_state \<Rightarrow> transaction_view" where
  "tx_view_of now t =
     \<lparr>tv_tx_id = tx_ident t, tv_status = tx_status t, tv_created_solids = tx_created_solids t,
      tv_age_seconds = (now - tx_created_at t) div 1000000000\<rparr>"

definition view_tx :: "nat \<Rightarrow> uuid \<Rightarrow> tx_manager \<Rightarrow> transaction_view option" where
  "view_tx now i m = map_option (tx_view_of now) (map_of m i)"

definition track_solid :: "uuid \<Rightarrow> solid_id \<Rightarrow> tx_manager \<Rightarrow> (api_error, tx_manager) result" where
  "track_solid i sid m =
     (case map_of m i of
        None \<Rightarrow> Err (transaction_not_found i)
      | Some t \<Rightarrow>
          if tx_status t \<noteq> Active then Err (transaction_not_active i (tx_status t))
          else Ok (AList.update i (t\<lparr>tx_created_solids := tx_created_solids t @ [sid]\<rparr>) m))"

definition commit_tx :: "nat \<Rightarrow> uuid \<Rightarrow> tx_manager \<Rightarrow> (api_error, transaction_view \<times> tx_manager) result" where
  "commit_tx now i m =
     (case map_of m i of
        None \<Rightarrow> Err (transaction_not_found i)
      | Some t \<Rightarrow>
          if tx_status t \<noteq> Active then Err (transaction_not_active i (tx_status t))
          else let t' = t\<lparr>tx_status := Committed\<rparr> in Ok (tx_view_of now t', AList.update i t' m))"

definition begin_rollback :: "uuid \<Rightarrow> tx_manager \<Rightarrow> (api_error, solid_id list \<times> tx_manager) result" where
  "begin_rollback i m =
     (case map_of m i of
        None \<Rightarrow> Err (transaction_not_found i)
      | Some t \<Rightarrow>
          if tx_status t \<noteq> Active then Err (transaction_not_active i (tx_status t))
          else Ok (tx_created_solids t, AList.update i (t\<lparr>tx_status := RolledBack\<rparr>) m))"

definition tx_overdue :: "nat \<Rightarrow> transaction_state \<Rightarrow> bool" where
  "tx_overdue now t \<longleftrightarrow> tx_status t = Active \<and> TX_TTL < now - tx_created_at t"

definition sweep_expired :: "nat \<Rightarrow> tx_manager \<Rightarrow> (uuid \<times> solid_id list) list \<times> tx_manager" where
  "sweep_expired now m =
     (map (\<lambda>(i, t). (tx_ident t, tx_created_solids t)) (filter (\<lambda>(i, t). tx_overdue now t) m),
      map (\<lambda>(i, t). (i, if tx_overdue now t then t\<lparr>tx_status := Expired\<rparr> else t)) m)"

section \<open>Parts\<close>

record part_metadata =
  pm_name :: string
  pm_created_at :: timestamp
  pm_updated_at :: timestamp

text \<open>The state that handlers share: the model of the open document, the parts, the transactions.\<close>

record 'g app_state =
  ap_model :: "'g solid_store"
  ap_parts :: "(uuid, 'g solid_store) dmap"
  ap_metadata :: "(uuid, part_metadata) dmap"
  ap_transactions :: tx_manager

definition clear_parts :: "'g app_state \<Rightarrow> 'g app_state" where
  "clear_parts a = a\<lparr>ap_parts := [], ap_metadata := []\<rparr>"

definition create_part :: "uuid \<Rightarrow> timestamp \<Rightarrow> string \<Rightarrow> 'g app_state \<Rightarrow> 'g app_state" where
  "create_part i now name a =
     a\<lparr>ap_parts := AList.update i new_solid_store (ap_parts a),
       ap_metadata := AList.update i \<lparr>pm_name = name, pm_created_at = now, pm_updated_at = now\<rparr> (ap_metadata a)\<rparr>"

definition rename_part :: "uuid \<Rightarrow> timestamp \<Rightarrow> string \<Rightarrow> 'g app_state \<Rightarrow> 'g app_state option" where
  "rename_part i now name a =
     (if map_of (ap_metadata a) i = None then None
      else Some (a\<lparr>ap_metadata := modify_entry i (\<lambda>p. p\<lparr>pm_name := name, pm_updated_at := now\<rparr>) (ap_metadata a)\<rparr>))"

definition mark_dirty :: "uuid \<Rightarrow> timestamp \<Rightarrow> 'g app_state \<Rightarrow> 'g app_state" where
  "mark_dirty i now a = a\<lparr>ap_metadata := modify_entry i (\<lambda>p. p\<lparr>pm_updated_at := now\<rparr>) (ap_metadata a)\<rparr>"

definition delete_part :: "uuid \<Rightarrow> 'g app_state \<Rightarrow> 'g solid_store option \<times> 'g app_state" where
  "delete_part i a =
     (map_of (ap_parts a) i,
      a\<lparr>ap_metadata := AList.delete i (ap_metadata a), ap_parts := AList.delete i (ap_parts a)\<rparr>)"

subsection \<open>The model of a request\<close>

datatype model_ref = Legacy | Part uuid

record 'g geometry =
  geo_web :: web
  geo_parse_uuid :: "string \<Rightarrow> uuid option"
  geo_build :: "request \<Rightarrow> (api_error, 'g solid) result"
  geo_answer :: "request \<Rightarrow> solid_id \<Rightarrow> (api_error, response) result"

definition header_of :: "'g geometry \<Rightarrow> string \<Rightarrow> request \<Rightarrow> string option option" where
  "header_of g name rq = map_option (web_to_str (geo_web g)) (map_of (rq_headers rq) name)"

definition parse_part_id_header :: "'g geometry \<Rightarrow> string \<Rightarrow> (api_error, uuid) result" where
  "parse_part_id_header g s =
     (case geo_parse_uuid g s of
        None \<Rightarrow> Err (new_error InvalidParameter (NotUuidText s))
      | Some i \<Rightarrow> Ok i)"

definition resolve_active_model :: "'g geometry \<Rightarrow> string option \<Rightarrow> 'g app_state \<Rightarrow> (api_error, model_ref) result" where
  "resolve_active_model g header a =
     (case header of
        None \<Rightarrow> Ok Legacy
      | Some s \<Rightarrow>
          (case parse_part_id_header g s of
             Err e \<Rightarrow> Err e
           | Ok i \<Rightarrow> if map_of (ap_parts a) i = None then Err (new_error PartNotFound (PartUnknownText i))
                     else Ok (Part i)))"

definition active_model :: "'g geometry \<Rightarrow> request \<Rightarrow> 'g app_state \<Rightarrow> (api_error, model_ref) result" where
  "active_model g rq a =
     (case header_of g ''x-roshera-part-id'' rq of
        None \<Rightarrow> resolve_active_model g None a
      | Some None \<Rightarrow> Err (new_error InvalidParameter NonAsciiText)
      | Some (Some s) \<Rightarrow> resolve_active_model g (Some s) a)"

text \<open>A handle to a model is shared; a part that is gone in the meantime is out of reach of every other
  request, so what its last holders do to it is not modelled.\<close>

fun model_of :: "'g app_state \<Rightarrow> model_ref \<Rightarrow> 'g solid_store" where
  "model_of a Legacy = ap_model a"
| "model_of a (Part i) = (case map_of (ap_parts a) i of Some m \<Rightarrow> m | None \<Rightarrow> new_solid_store)"

fun on_model :: "model_ref \<Rightarrow> ('g solid_store \<Rightarrow> 'g solid_store) \<Rightarrow> 'g app_state \<Rightarrow> 'g app_state" where
  "on_model Legacy f a = a\<lparr>ap_model := f (ap_model a)\<rparr>"
| "on_model (Part i) f a = a\<lparr>ap_parts := modify_entry i f (ap_parts a)\<rparr>"

section \<open>Creating geometry\<close>

definition tx_of_header :: "'g geometry \<Rightarrow> request \<Rightarrow> (api_error, uuid option) result" where
  "tx_of_header g rq =
     (case header_of g ''x-roshera-tx-id'' rq of
        None \<Rightarrow> Ok None
      | Some None \<Rightarrow> Err (new_error MissingField (FieldText ''x-roshera-tx-id''))
      | Some (Some s) \<Rightarrow>
          (case geo_parse_uuid g s of
             None \<Rightarrow> Err (new_error InvalidParameter (NotUuidText s))
           | Some i \<Rightarrow> Ok (Some i)))"

definition tx_is_open :: "uuid option \<Rightarrow> tx_manager \<Rightarrow> (api_error, unit) result" where
  "tx_is_open tx m =
     (case tx of
        None \<Rightarrow> Ok ()
      | Some i \<Rightarrow>
          (case map_of m i of
             None \<Rightarrow> Err (new_error TransactionNotFound (TxUnknownText i))
           | Some t \<Rightarrow> if tx_status t \<noteq> Active then Err (new_error TransactionNotActive (TxInactiveText i)) else Ok ()))"

text \<open>The handler in the pieces between which other requests may run: what precedes the kernel call; the
  kernel call under the lock of the model; the transaction; the answer.\<close>

definition create_preflight :: "'g geometry \<Rightarrow> request \<Rightarrow> 'g app_state \<Rightarrow> (api_error, model_ref \<times> uuid option) result" where
  "create_preflight g rq a =
     (case active_model g rq a of
        Err e \<Rightarrow> Err e
      | Ok r \<Rightarrow>
          (case tx_of_header g rq of
             Err e \<Rightarrow> Err e
           | Ok tx \<Rightarrow> (case tx_is_open tx (ap_transactions a) of Err e \<Rightarrow> Err e | Ok _ \<Rightarrow> Ok (r, tx))))"

definition create_build ::
  "'g geometry \<Rightarrow> request \<Rightarrow> model_ref \<Rightarrow> 'g app_state \<Rightarrow> (api_error, solid_id) result \<times> 'g app_state" where
  "create_build g rq r a =
     (case geo_build g rq of
        Err e \<Rightarrow> (Err e, a)
      | Ok s \<Rightarrow> (Ok (fst (add_solid s (model_of a r))), on_model r (\<lambda>m. snd (add_solid s m)) a))"

definition create_track ::
  "uuid option \<Rightarrow> solid_id \<Rightarrow> 'g app_state \<Rightarrow> (api_error, unit) result \<times> 'g app_state" where
  "create_track tx sid a =
     (case tx of
        None \<Rightarrow> (Ok (), a)
      | Some i \<Rightarrow>
          (case track_solid i sid (ap_transactions a) of
             Err e \<Rightarrow> (Err e, a)
           | Ok m \<Rightarrow> (Ok (), a\<lparr>ap_transactions := m\<rparr>)))"

definition create_answer ::
  "'g geometry \<Rightarrow> request \<Rightarrow> model_ref \<Rightarrow> solid_id \<Rightarrow> 'g app_state \<Rightarrow> (api_error, response) result" where
  "create_answer g rq r sid a =
     (if get_solid (model_of a r) sid = None then Err (new_error SolidNotFound (SolidUnknownText sid))
      else geo_answer g rq sid)"

definition create_geometry ::
  "'g geometry \<Rightarrow> request \<Rightarrow> 'g app_state \<Rightarrow> (api_error, response) result \<times> 'g app_state" where
  "create_geometry g rq a =
     (case create_preflight g rq a of
        Err e \<Rightarrow> (Err e, a)
      | Ok (r, tx) \<Rightarrow>
          (case create_build g rq r a of
             (Err e, a') \<Rightarrow> (Err e, a')
           | (Ok sid, a') \<Rightarrow>
               (case create_track tx sid a' of
                  (Err e, a'') \<Rightarrow> (Err e, a'')
                | (Ok _, a'') \<Rightarrow> (create_answer g rq r sid a'', a''))))"

text \<open>As a handler behind the layer: an error becomes its response.\<close>

definition geometry_handler :: "'g geometry \<Rightarrow> ('g app_state) handler" where
  "geometry_handler g rq a =
     (case create_geometry g rq a of
        (Ok rs, a') \<Rightarrow> (rs, a')
      | (Err e, a') \<Rightarrow> (error_response (web_json_type (geo_web g)) (web_render (geo_web g)) e, a'))"

section \<open>Ending transactions\<close>

definition path_tx :: "'g geometry \<Rightarrow> string \<Rightarrow> (api_error, uuid) result" where
  "path_tx g s =
     (case geo_parse_uuid g s of None \<Rightarrow> Err (new_error InvalidParameter (NotUuidText s)) | Some i \<Rightarrow> Ok i)"

definition tx_begin :: "uuid \<Rightarrow> nat \<Rightarrow> 'g app_state \<Rightarrow> (api_error, transaction_view) result \<times> 'g app_state" where
  "tx_begin i now a =
     (let a' = a\<lparr>ap_transactions := begin_tx i now (ap_transactions a)\<rparr>
      in (case view_tx now i (ap_transactions a') of
            None \<Rightarrow> (Err (new_error Internal VanishedText), a')
          | Some v \<Rightarrow> (Ok v, a')))"

definition tx_get :: "'g geometry \<Rightarrow> nat \<Rightarrow> string \<Rightarrow> 'g app_state \<Rightarrow> (api_error, transaction_view) result" where
  "tx_get g now s a =
     (case path_tx g s of
        Err e \<Rightarrow> Err e
      | Ok i \<Rightarrow> (case view_tx now i (ap_transactions a) of
                   None \<Rightarrow> Err (new_error TransactionNotFound (TxUnknownText i)) | Some v \<Rightarrow> Ok v))"

definition tx_commit ::
  "'g geometry \<Rightarrow> nat \<Rightarrow> string \<Rightarrow> 'g app_state \<Rightarrow> (api_error, transaction_view) result \<times> 'g app_state" where
  "tx_commit g now s a =
     (case path_tx g s of
        Err e \<Rightarrow> (Err e, a)
      | Ok i \<Rightarrow> (case commit_tx now i (ap_transactions a) of
                   Err e \<Rightarrow> (Err e, a) | Ok (v, m) \<Rightarrow> (Ok v, a\<lparr>ap_transactions := m\<rparr>)))"

definition tx_rollback ::
  "'g geometry \<Rightarrow> nat \<Rightarrow> request \<Rightarrow> string \<Rightarrow> 'g app_state \<Rightarrow>
   (api_error, transaction_view \<times> solid_id list) result \<times> 'g app_state" where
  "tx_rollback g now rq s a =
     (case active_model g rq a of
        Err e \<Rightarrow> (Err e, a)
      | Ok r \<Rightarrow>
     (case path_tx g s of
        Err e \<Rightarrow> (Err e, a)
      | Ok i \<Rightarrow>
     (case begin_rollback i (ap_transactions a) of
        Err e \<Rightarrow> (Err e, a)
      | Ok (sids, m) \<Rightarrow>
          let a' = on_model r (fold remove_solid sids) (a\<lparr>ap_transactions := m\<rparr>)
          in (case view_tx now i (ap_transactions a') of
                None \<Rightarrow> (Err (new_error Internal VanishedText), a')
              | Some v \<Rightarrow> (Ok (v, sids), a')))))"

text \<open>One tick of the background sweeper.\<close>

definition sweep_tick :: "nat \<Rightarrow> 'g app_state \<Rightarrow> 'g app_state" where
  "sweep_tick now a =
     (let (expired, m) = sweep_expired now (ap_transactions a)
      in on_model Legacy (fold (\<lambda>(_, sids). fold remove_solid sids) expired) (a\<lparr>ap_transactions := m\<rparr>))"

end
