(* ===== verification/Idempotency_Props.thy ===== *)
theory Idempotency_Props
  imports Idempotency
begin

text \<open>
  What the layer guarantees: a bound on its memory, that an answer in the cache is one given to the same
  command, that a command answered once is not run again while its answer is kept, and when it is.
\<close>

section \<open>The store\<close>

abbreviation idem_ok :: "idem_store \<Rightarrow> bool" where
  "idem_ok st \<equiv> dmap_ok (is_entries st)"

lemma length_delete_keys:
  assumes "dmap_ok m" "distinct ks" "set ks \<subseteq> set (dkeys m)"
  shows "length (filter (\<lambda>kv. fst kv \<notin> set ks) m) = length m - length ks"
proof -
  have "length (filter (\<lambda>kv. fst kv \<notin> set ks) m) = card (set (map fst (filter (\<lambda>kv. fst kv \<notin> set ks) m)))"
    using distinct_card [OF distinct_map_filter [OF assms(1)], of "\<lambda>kv. fst kv \<notin> set ks"] by simp
  also have "set (map fst (filter (\<lambda>kv. fst kv \<notin> set ks) m)) = set (dkeys m) - set ks" by auto
  also have "card \<dots> = length m - length ks"
    using assms by (simp add: card_Diff_subset distinct_card [of ks] distinct_card [of "dkeys m", simplified])
  finally show ?thesis .
qed

definition by_age :: "idem_store \<Rightarrow> (cache_key \<times> nat) list" where
  "by_age st = sort_key snd (map (\<lambda>(k, c). (k, cr_inserted_at c)) (is_entries st))"

lemma by_age_simps:
  "length (by_age st) = length (is_entries st)" "sorted (map snd (by_age st))"
  "set (by_age st) = (\<lambda>(k, c). (k, cr_inserted_at c)) ` set (is_entries st)"
  "set (map fst (by_age st)) = set (dkeys (is_entries st))" "idem_ok st \<Longrightarrow> distinct (map fst (by_age st))"
proof -
  have sort: "mset (map fst (sort_key snd xs)) = mset (map fst xs)" for xs :: "(cache_key \<times> nat) list" by simp
  have m: "mset (map fst (by_age st)) = mset (dkeys (is_entries st))"
    unfolding by_age_def sort map_map by (simp add: comp_def case_prod_beta)
  show "set (map fst (by_age st)) = set (dkeys (is_entries st))" using m by (rule mset_eq_setD)
  show "distinct (map fst (by_age st))" if "idem_ok st" using that m mset_eq_imp_distinct_iff by blast
qed (auto simp: by_age_def)

lemma drop_oldest_eq:
  "drop_oldest st = st\<lparr>is_entries := filter (\<lambda>kv. fst kv \<notin>
     fst ` set (take (length (is_entries st) - retention_floor (is_max_entries st)) (by_age st))) (is_entries st)\<rparr>"
  unfolding drop_oldest_def Let_def fold_del_filter by (simp add: by_age_def case_prod_beta)

lemma drop_expired_eq:
  "idem_ok st \<Longrightarrow> drop_expired now st = st\<lparr>is_entries := filter (\<lambda>(k, c). \<not> expired st now c) (is_entries st)\<rparr>"
proof -
  assume ok: "idem_ok st"
  have "fst kv \<notin> fst ` set (filter (\<lambda>(k, c). expired st now c) (is_entries st)) \<longleftrightarrow> \<not> expired st now (snd kv)"
    if kv: "kv \<in> set (is_entries st)" for kv
  proof -
    have uniq: "c = snd kv" if "(fst kv, c) \<in> set (is_entries st)" for c
      using eq_key_imp_eq_value [OF ok that, of "snd kv"] kv by simp
    show ?thesis
    proof
      assume "fst kv \<notin> fst ` set (filter (\<lambda>(k, c). expired st now c) (is_entries st))"
      then show "\<not> expired st now (snd kv)" using kv by (simp add: image_iff case_prod_beta)
    next
      assume "\<not> expired st now (snd kv)"
      then show "fst kv \<notin> fst ` set (filter (\<lambda>(k, c). expired st now c) (is_entries st))"
        using uniq by (simp add: image_iff case_prod_beta) (metis prod.collapse)
    qed
  qed
  then have "filter (\<lambda>kv. fst kv \<notin> set (map fst (filter (\<lambda>(k, c). expired st now c) (is_entries st)))) (is_entries st) =
      filter (\<lambda>(k, c). \<not> expired st now c) (is_entries st)"
    by (intro filter_cong) (auto simp: case_prod_beta)
  then show ?thesis unfolding drop_expired_def fold_del_filter by simp
qed

lemma drop_oldest_length:
  assumes "idem_ok st"
  shows "length (is_entries (drop_oldest st)) \<le> retention_floor (is_max_entries st)"
proof -
  let ?ks = "map fst (take (length (is_entries st) - retention_floor (is_max_entries st)) (by_age st))"
  have "distinct ?ks" using by_age_simps(5) [OF assms] by (metis distinct_take take_map)
  moreover have "set ?ks \<subseteq> set (dkeys (is_entries st))"
    unfolding by_age_simps(4) [symmetric] by (auto dest: in_set_takeD)
  ultimately show ?thesis
    using length_delete_keys [OF assms, of ?ks] by_age_simps(1) [of st] by (simp add: drop_oldest_eq)
qed

lemma sweep_fields [simp]:
  "is_max_entries (sweep_for_capacity now st) = is_max_entries st" "is_ttl (sweep_for_capacity now st) = is_ttl st"
  "is_max_entries (drop_expired now st) = is_max_entries st"
  by (simp_all add: sweep_for_capacity_def drop_expired_def drop_oldest_eq Let_def)

lemma insert_fields [simp]:
  "is_max_entries (insert_cached now k c st) = is_max_entries st" "is_ttl (insert_cached now k c st) = is_ttl st"
  by (simp_all add: insert_cached_def Let_def)

lemma get_fields [simp]:
  "is_max_entries (snd (get_cached now k st)) = is_max_entries st" "is_ttl (snd (get_cached now k st)) = is_ttl st"
  by (simp_all add: get_cached_def split: option.split)

lemma sweep_sub:
  assumes "idem_ok st"
  shows "idem_ok (sweep_for_capacity now st)" "set (is_entries (sweep_for_capacity now st)) \<subseteq> set (is_entries st)"
  using assms by (auto simp: sweep_for_capacity_def drop_expired_eq drop_oldest_eq Let_def distinct_map_filter)

lemma get_sub:
  assumes "idem_ok st"
  shows "idem_ok (snd (get_cached now k st))" "set (is_entries (snd (get_cached now k st))) \<subseteq> set (is_entries st)"
  using assms by (auto simp: get_cached_def AList.delete_eq split: option.split)

lemma insert_ok: "idem_ok st \<Longrightarrow> idem_ok (insert_cached now k c st)"
  using sweep_sub by (simp add: insert_cached_def Let_def)

lemma floor_less: "0 < n \<Longrightarrow> retention_floor n < n"
proof -
  assume n: "0 < n"
  have "min (n * RETAIN_NUM) (2 ^ 64 - 1) \<le> n * 4" by (simp add: RETAIN_NUM_def)
  then have "retention_floor n \<le> n * 4 div 5"
    unfolding retention_floor_def RETAIN_DEN_def by (simp add: div_le_mono)
  also have "\<dots> < n" using n by linarith
  finally show ?thesis .
qed

lemma sweep_length:
  assumes "idem_ok st" "0 < is_max_entries st"
  shows "length (is_entries (sweep_for_capacity now st)) < is_max_entries st"
proof (cases "length (is_entries (drop_expired now st)) < is_max_entries st")
  case True
  then show ?thesis by (simp add: sweep_for_capacity_def Let_def)
next
  case False
  have ok: "idem_ok (drop_expired now st)" using assms(1) by (simp add: drop_expired_eq distinct_map_filter)
  show ?thesis
    using drop_oldest_length [OF ok] floor_less [OF assms(2)] False by (simp add: sweep_for_capacity_def Let_def)
qed

lemma sweep_length_zero:
  "idem_ok st \<Longrightarrow> is_max_entries st = 0 \<Longrightarrow> is_entries (sweep_for_capacity now st) = []"
proof -
  assume a: "idem_ok st" "is_max_entries st = 0"
  then have ok: "idem_ok (drop_expired now st)" by (simp add: drop_expired_eq distinct_map_filter)
  have "length (is_entries (drop_oldest (drop_expired now st))) \<le> 0"
    using drop_oldest_length [OF ok] a(2) by (simp add: retention_floor_def)
  then show ?thesis using a(2) by (simp add: sweep_for_capacity_def Let_def)
qed

lemma length_update: "length (AList.update k v m) \<le> Suc (length m)"
  by (induction m) auto

lemma insert_length:
  assumes "idem_ok st" "length (is_entries st) \<le> max (is_max_entries st) 1"
  shows "length (is_entries (insert_cached now k c st)) \<le> max (is_max_entries st) 1"
proof (cases "is_max_entries st \<le> length (is_entries st)")
  case True
  have "length (is_entries (sweep_for_capacity now st)) < max (is_max_entries st) 1"
    using sweep_length [OF assms(1)] sweep_length_zero [OF assms(1)] by (cases "is_max_entries st = 0") auto
  then show ?thesis using True length_update [of k c "is_entries (sweep_for_capacity now st)"]
    by (simp add: insert_cached_def Let_def)
next
  case False
  then show ?thesis using length_update [of k c "is_entries st"] by (simp add: insert_cached_def Let_def)
qed

subsection \<open>What a sweep keeps\<close>

definition younger :: "nat \<Rightarrow> idem_store \<Rightarrow> nat" where
  "younger t st = length (filter (\<lambda>(k, c). t \<le> cr_inserted_at c) (is_entries st))"

lemma younger_ages: "younger t st = length (filter (\<lambda>(k, a). t \<le> a) (by_age st))"
proof -
  have "mset (filter (\<lambda>(k, a). t \<le> a) (by_age st)) =
      mset (filter (\<lambda>(k, a). t \<le> a) (map (\<lambda>(k, c). (k, cr_inserted_at c)) (is_entries st)))"
    by (simp add: by_age_def)
  then have "length (filter (\<lambda>(k, a). t \<le> a) (by_age st)) =
      length (filter (\<lambda>(k, a). t \<le> a) (map (\<lambda>(k, c). (k, cr_inserted_at c)) (is_entries st)))"
    by (rule mset_eq_length)
  then show ?thesis by (simp add: younger_def filter_map comp_def split_def)
qed

lemma sorted_take_many:
  assumes "sorted (map snd xs)" "(k, a) \<in> set (take n xs)" "n < length xs"
  shows "length xs - n < length (filter (\<lambda>(k', b). (a :: nat) \<le> b) xs)"
proof -
  have ge: "\<forall>(k', b) \<in> set (drop n xs). a \<le> b"
  proof -
    have "sorted (map snd (take n xs) @ map snd (drop n xs))" using assms(1) by (metis append_take_drop_id map_append)
    then show ?thesis using assms(2) by (force simp: sorted_append)
  qed
  have "filter (\<lambda>(k', b). a \<le> b) (drop n xs) = drop n xs" using ge by (auto simp: filter_id_conv)
  moreover have "0 < length (filter (\<lambda>(k', b). a \<le> b) (take n xs))"
    using assms(2) by (auto simp: length_greater_0_conv filter_empty_conv)
  moreover have "length (filter (\<lambda>(k', b). a \<le> b) xs) =
      length (filter (\<lambda>(k', b). a \<le> b) (take n xs)) + length (filter (\<lambda>(k', b). a \<le> b) (drop n xs))"
    by (metis append_take_drop_id filter_append length_append)
  ultimately show ?thesis by simp
qed

lemma drop_oldest_keeps:
  assumes "idem_ok st" "(k, c) \<in> set (is_entries st)"
    "younger (cr_inserted_at c) st \<le> retention_floor (is_max_entries st)"
  shows "(k, c) \<in> set (is_entries (drop_oldest st))"
proof (rule ccontr)
  let ?n = "length (is_entries st) - retention_floor (is_max_entries st)"
  assume "(k, c) \<notin> set (is_entries (drop_oldest st))"
  then obtain a where a: "(k, a) \<in> set (take ?n (by_age st))" using assms(2) by (auto simp: drop_oldest_eq)
  have "(k, cr_inserted_at c) \<in> set (by_age st)" using assms(2) by (force simp: by_age_simps(3))
  then have "a = cr_inserted_at c"
    using eq_key_imp_eq_value [OF by_age_simps(5) [OF assms(1)]] a by (meson in_set_takeD)
  moreover have "?n < length (by_age st)"
  proof (rule ccontr)
    assume "\<not> ?n < length (by_age st)"
    then have "retention_floor (is_max_entries st) = 0" using assms(2) by_age_simps(1) [of st] by (cases "is_entries st") auto
    then show False using assms(2,3) by (auto simp: younger_def filter_empty_conv)
  qed
  ultimately have "length (by_age st) - ?n < younger (cr_inserted_at c) st"
    using sorted_take_many [OF by_age_simps(2), of k "cr_inserted_at c" ?n] a by (simp add: younger_ages)
  moreover have "0 < ?n" using a by (cases "?n = 0") simp_all
  ultimately show False using assms(3) by_age_simps(1) [of st] by simp
qed

lemma younger_mono:
  "dmap_ok m \<Longrightarrow> younger t (st\<lparr>is_entries := filter P m\<rparr>) \<le> younger t (st\<lparr>is_entries := m\<rparr>)"
  by (induction m) (auto simp: younger_def)

lemma younger_drop: "idem_ok st \<Longrightarrow> younger t (drop_expired now st) \<le> younger t st"
  using younger_mono [of "is_entries st" t, where st = st] by (simp add: drop_expired_eq)

lemma younger_sweep: "idem_ok st \<Longrightarrow> younger t (sweep_for_capacity now st) \<le> younger t st"
proof -
  assume ok: "idem_ok st"
  then have ok': "idem_ok (drop_expired now st)" by (simp add: drop_expired_eq distinct_map_filter)
  have "younger t (drop_oldest (drop_expired now st)) \<le> younger t (drop_expired now st)"
    unfolding drop_oldest_eq using younger_mono [OF ok', where st = "drop_expired now st"] by simp
  then show ?thesis using younger_drop [OF ok, of t now] by (simp add: sweep_for_capacity_def Let_def)
qed

lemma younger_update:
  "younger t (st\<lparr>is_entries := AList.update k c m\<rparr>) \<le> Suc (younger t (st\<lparr>is_entries := m\<rparr>))"
  by (induction m) (auto simp: younger_def)

lemma younger_insert: "idem_ok st \<Longrightarrow> younger t (insert_cached now k c st) \<le> Suc (younger t st)"
proof -
  assume ok: "idem_ok st"
  show ?thesis
    using younger_update [of t, where st = "sweep_for_capacity now st" and k = k and c = c and
        m = "is_entries (sweep_for_capacity now st)"]
      younger_sweep [OF ok, of t now] younger_update [of t, where st = st and k = k and c = c and m = "is_entries st"]
    by (simp add: insert_cached_def Let_def)
qed

lemma younger_get: "idem_ok st \<Longrightarrow> younger t (snd (get_cached now k st)) \<le> younger t st"
  using younger_mono [of "is_entries st" t, where st = st] by (simp add: get_cached_def AList.delete_eq split: option.split)

lemma sweep_keeps:
  assumes "idem_ok st" "(k, c) \<in> set (is_entries st)" "\<not> expired st now c"
    "younger (cr_inserted_at c) st \<le> retention_floor (is_max_entries st)"
  shows "(k, c) \<in> set (is_entries (sweep_for_capacity now st))"
proof -
  have "idem_ok (drop_expired now st)" "(k, c) \<in> set (is_entries (drop_expired now st))"
    using assms(1-3) by (simp_all add: drop_expired_eq distinct_map_filter)
  moreover have "younger (cr_inserted_at c) (drop_expired now st) \<le> retention_floor (is_max_entries st)"
    using younger_drop [OF assms(1)] assms(4) le_trans by blast
  ultimately show ?thesis using drop_oldest_keeps by (simp add: sweep_for_capacity_def Let_def)
qed

lemma insert_keeps:
  assumes "idem_ok st" "(k, c) \<in> set (is_entries st)" "\<not> expired st now c"
    "younger (cr_inserted_at c) st \<le> retention_floor (is_max_entries st)" "k' \<noteq> k"
  shows "map_of (is_entries (insert_cached now k' c' st)) k = Some c"
proof -
  have "map_of (is_entries (sweep_for_capacity now st)) k = Some c"
    using sweep_keeps [OF assms(1-4)] sweep_sub(1) [OF assms(1)] by (simp add: map_of_eq_Some_iff)
  moreover have "map_of (is_entries st) k = Some c" using assms(1,2) by (simp add: map_of_eq_Some_iff)
  ultimately show ?thesis using assms(5) by (simp add: insert_cached_def Let_def dmap_simps)
qed

section \<open>The layer\<close>

text \<open>A request that the layer takes charge of.\<close>

definition keyed :: "web \<Rightarrow> request \<Rightarrow> string \<Rightarrow> bool" where
  "keyed w rq key \<longleftrightarrow> is_mutating (rq_method rq) \<and> client_key_of w rq = Some key \<and> key \<noteq> [] \<and>
     length key \<le> MAX_KEY_LEN \<and> length (rq_body rq) \<le> MAX_BUFFERED_BODY"

lemma enter_keyed:
  assumes "web_ok w" "keyed w rq key"
  shows "enter w t rq st =
    (case get_cached t (cache_key_of rq key) st of
       (Some c, st') \<Rightarrow>
         (Answer (if cr_fingerprint c = web_fingerprint w (rq_body rq) then replay c
                  else web_error w IdempotencyKeyReused KeyReusedText), st')
     | (None, st') \<Rightarrow> (Missed (cache_key_of rq key) (web_fingerprint w (rq_body rq)) (rq_body rq), st'))"
  using assms by (auto simp: enter_def keyed_def web_ok_def Let_def split: prod.split option.split)

lemma enter_cases:
  "enter w t rq st = (r, st') \<Longrightarrow> st' = st \<or> (\<exists>k. st' = snd (get_cached t k st))"
  by (auto simp: enter_def Let_def split: if_splits option.splits prod.splits) (metis snd_conv)+

lemma enter_missed:
  "enter w t rq st = (Missed k fp body, st') \<Longrightarrow>
   (None, st') = get_cached t k st \<and> (\<exists>key. client_key_of w rq = Some key \<and> k = cache_key_of rq key) \<and>
   fp = web_fingerprint w body \<and> web_to_bytes w (rq_body rq) MAX_BUFFERED_BODY = Some body"
  by (auto simp: enter_def Let_def split: if_splits option.splits prod.splits)

text \<open>What one call does to the store: it reads, and perhaps inserts under a key it has not found.\<close>

lemma layer_store:
  assumes "idempotency_layer w h (t, t', rq) (st, s) = (rs, st', s')"
  shows "st' = st \<or> (\<exists>k. st' = snd (get_cached t k st)) \<or>
    (\<exists>k c. fst (get_cached t k st) = None \<and> st' = insert_cached t' k c (snd (get_cached t k st)))"
proof -
  obtain r st0 where e: "enter w t rq st = (r, st0)" by (cases "enter w t rq st")
  show ?thesis
  proof (cases r)
    case (Missed k fp body)
    then have g: "get_cached t k st = (None, st0)" using enter_missed e by metis
    have "st' = st0 \<or> (\<exists>c. st' = insert_cached t' k c st0)"
      using assms e Missed
      by (auto simp: idempotency_layer_def leave_def split: prod.splits if_splits option.splits)
    then show ?thesis using g by (metis fst_conv snd_conv)
  qed (use assms e enter_cases [OF e] in \<open>auto simp: idempotency_layer_def split: prod.splits\<close>)
qed

lemma layer_fields:
  assumes "idempotency_layer w h (t, t', rq) (st, s) = (rs, st', s')" "idem_ok st"
  shows "is_max_entries st' = is_max_entries st" "is_ttl st' = is_ttl st" "idem_ok st'"
  using layer_store [OF assms(1)] get_sub(1) [OF assms(2)] assms(2) by (auto intro: insert_ok)

lemma get_keeps:
  "(k, c) \<in> set (is_entries st) \<Longrightarrow> idem_ok st \<Longrightarrow> \<not> expired st now c \<Longrightarrow>
   (k, c) \<in> set (is_entries (snd (get_cached now k' st))) \<and> (fst (get_cached now k' st) = None \<longrightarrow> k' \<noteq> k)"
  by (auto simp: get_cached_def AList.delete_eq map_of_eq_Some_iff split: option.splits dest: eq_key_imp_eq_value)

lemma layer_keeps:
  assumes step: "idempotency_layer w h (t, t', rq) (st, s) = (rs, st', s')"
    and ok: "idem_ok st" and entry: "(k, c) \<in> set (is_entries st)"
    and live: "\<not> expired st t c" "\<not> expired st t' c"
    and room: "younger (cr_inserted_at c) st \<le> retention_floor (is_max_entries st)"
  shows "(k, c) \<in> set (is_entries st')" "younger (cr_inserted_at c) st' \<le> Suc (younger (cr_inserted_at c) st)"
proof -
  let ?y = "younger (cr_inserted_at c)"
  consider "st' = st" | k0 where "st' = snd (get_cached t k0 st)"
    | k0 c0 where "fst (get_cached t k0 st) = None" "st' = insert_cached t' k0 c0 (snd (get_cached t k0 st))"
    using layer_store [OF step] by blast
  then have "(k, c) \<in> set (is_entries st') \<and> ?y st' \<le> Suc (?y st)"
  proof cases
    case 1
    then show ?thesis using entry by simp
  next
    case 2
    then show ?thesis using get_keeps [OF entry ok live(1)] younger_get [OF ok] by (simp add: le_SucI)
  next
    case (3 k0 c0)
    let ?g = "snd (get_cached t k0 st)"
    have g: "(k, c) \<in> set (is_entries ?g)" "k0 \<noteq> k" using get_keeps [OF entry ok live(1), of k0] 3(1) by auto
    have y: "?y ?g \<le> ?y st" using younger_get [OF ok] .
    have "map_of (is_entries st') k = Some c"
      unfolding 3(2) by (rule insert_keeps) (use get_sub(1) [OF ok] g live(2) y room in \<open>auto simp: expired_def\<close>)
    then show ?thesis
      using 3(2) younger_insert [OF get_sub(1) [OF ok], of "cr_inserted_at c" t' k0 c0 t k0] y map_of_SomeD by fastforce
  qed
  then show "(k, c) \<in> set (is_entries st')" "?y st' \<le> Suc (?y st)" by auto
qed

lemma serve_keeps:
  assumes "serve w h calls (st, s) = (rss, st', s')" "idem_ok st" "(k, c) \<in> set (is_entries st)"
    "\<forall>(t, t', rq) \<in> set calls. t \<le> cr_inserted_at c + is_ttl st \<and> t' \<le> cr_inserted_at c + is_ttl st"
    "younger (cr_inserted_at c) st + length calls \<le> Suc (retention_floor (is_max_entries st))"
  shows "(k, c) \<in> set (is_entries st') \<and> idem_ok st' \<and> is_ttl st' = is_ttl st"
  using assms
proof (induction calls arbitrary: st s rss)
  case (Cons call calls)
  obtain t t' rq where call: "call = (t, t', rq)" by (cases call)
  obtain rs st1 s1 where step: "idempotency_layer w h (t, t', rq) (st, s) = (rs, st1, s1)"
    by (cases "idempotency_layer w h (t, t', rq) (st, s)")
  obtain rss' where rest: "serve w h calls (st1, s1) = (rss', st', s')"
    using Cons.prems(1) step by (auto simp: call split: prod.splits)
  have live: "\<not> expired st t c" "\<not> expired st t' c" using Cons.prems(4) by (auto simp: call expired_def)
  note keep = layer_keeps [OF step Cons.prems(2,3) live] and f = layer_fields [OF step Cons.prems(2)]
  have room: "younger (cr_inserted_at c) st \<le> retention_floor (is_max_entries st)" using Cons.prems(5) by simp
  have "younger (cr_inserted_at c) st1 + length calls \<le> Suc (retention_floor (is_max_entries st1))"
    using keep(2) [OF room] Cons.prems(5) f(1) by simp
  then show ?case using Cons.IH [OF rest f(3) keep(1) [OF room]] Cons.prems(4) f(2) by auto
qed simp

section \<open>A command runs once\<close>

lemma layer_hit:
  assumes "web_ok w" "keyed w rq key" "(cache_key_of rq key, c) \<in> set (is_entries st)" "idem_ok st"
    "\<not> expired st t c" "cr_fingerprint c = web_fingerprint w (rq_body rq)"
  shows "idempotency_layer w h (t, t', rq) (st, s) = (replay c, st, s)"
proof -
  have "map_of (is_entries st) (cache_key_of rq key) = Some c" using assms(3,4) by (simp add: map_of_eq_Some_iff)
  then show ?thesis
    using enter_keyed [OF assms(1,2), of t st] assms(5,6) by (simp add: idempotency_layer_def get_cached_def)
qed

lemma layer_first:
  assumes "web_ok w" "keyed w rq key" "fst (get_cached t (cache_key_of rq key) st) = None"
    "idempotency_layer w h (t, t', rq) (st, s) = (rs, st', s')" "\<not> is_server_error (rs_status rs)"
  shows "h rq s = (rs, s') \<and> length (rs_body rs) \<le> MAX_BUFFERED_BODY \<and>
    st' = insert_cached t' (cache_key_of rq key)
      \<lparr>cr_fingerprint = web_fingerprint w (rq_body rq), cr_status = rs_status rs,
       cr_content_type = map_of (rs_headers rs) ''content-type'', cr_body = rs_body rs, cr_inserted_at = t'\<rparr>
      (snd (get_cached t (cache_key_of rq key) st))"
proof -
  let ?st = "snd (get_cached t (cache_key_of rq key) st)"
  obtain rs0 s0 where n: "h rq s = (rs0, s0)" by (cases "h rq s")
  have g: "get_cached t (cache_key_of rq key) st = (None, ?st)" using assms(3) by (metis prod.collapse)
  have e: "enter w t rq st = (Missed (cache_key_of rq key) (web_fingerprint w (rq_body rq)) (rq_body rq), ?st)"
    unfolding enter_keyed [OF assms(1,2)] by (subst g) simp
  have l: "leave w t' (cache_key_of rq key) (web_fingerprint w (rq_body rq)) rs0 ?st = (rs, st') \<and> s' = s0"
    using assms(4) by (simp add: idempotency_layer_def e n split: prod.splits)
  have ns: "\<not> is_server_error (rs_status rs0)" using l assms(5) by (auto simp: leave_def split: if_splits)
  have "web_to_bytes w (rs_body rs0) MAX_BUFFERED_BODY \<noteq> None"
    using l assms(5) ns
    by (auto simp: leave_def web_error_def error_response_def new_error_def is_server_error_def split: option.splits)
  then have "length (rs_body rs0) \<le> MAX_BUFFERED_BODY \<and> web_to_bytes w (rs_body rs0) MAX_BUFFERED_BODY = Some (rs_body rs0)"
    using assms(1) by (auto simp: web_ok_def split: if_splits)
  then show ?thesis using l ns n by (auto simp: leave_def)
qed


section \<open>Calls in flight\<close>

text \<open>A cached answer is the answer to an earlier call for the same command with the same fingerprint.\<close>

definition answers :: "web \<Rightarrow> cache_key \<Rightarrow> cached_response \<Rightarrow> request \<times> phase \<Rightarrow> bool" where
  "answers w k c call \<longleftrightarrow> (\<exists>rq key body rs.
     call = (rq, Answered rs) \<and> client_key_of w rq = Some key \<and> k = cache_key_of rq key \<and>
     web_to_bytes w (rq_body rq) MAX_BUFFERED_BODY = Some body \<and> cr_fingerprint c = web_fingerprint w body \<and>
     cr_status c = rs_status rs \<and> cr_body c = rs_body rs \<and>
     cr_content_type c = map_of (rs_headers rs) ''content-type'' \<and> \<not> is_server_error (rs_status rs))"

definition answered_to :: "web \<Rightarrow> (request \<times> phase) list \<Rightarrow> cache_key \<Rightarrow> cached_response \<Rightarrow> bool" where
  "answered_to w calls k c \<longleftrightarrow> (\<exists>call \<in> set calls. answers w k c call)"

fun flight_ok :: "web \<Rightarrow> request \<times> phase \<Rightarrow> bool" where
  "flight_ok w (rq, Waiting (Missed k fp body)) \<longleftrightarrow>
     (\<exists>key. client_key_of w rq = Some key \<and> k = cache_key_of rq key) \<and>
     fp = web_fingerprint w body \<and> web_to_bytes w (rq_body rq) MAX_BUFFERED_BODY = Some body"
| "flight_ok w (rq, Handled k fp rs) \<longleftrightarrow>
     (\<exists>key. client_key_of w rq = Some key \<and> k = cache_key_of rq key) \<and>
     (\<exists>body. fp = web_fingerprint w body \<and> web_to_bytes w (rq_body rq) MAX_BUFFERED_BODY = Some body)"
| "flight_ok w _ \<longleftrightarrow> True"

definition server_ok :: "web \<Rightarrow> nat \<Rightarrow> 's server \<Rightarrow> bool" where
  "server_ok w n S \<longleftrightarrow> idem_ok (sv_store S) \<and> is_max_entries (sv_store S) = n \<and>
     length (is_entries (sv_store S)) \<le> max n 1 \<and>
     (\<forall>(k, c) \<in> set (is_entries (sv_store S)). answered_to w (sv_calls S) k c) \<and>
     (\<forall>call \<in> set (sv_calls S). flight_ok w call)"

lemma answered_append: "answered_to w calls k c \<Longrightarrow> answered_to w (calls @ calls') k c"
  by (auto simp: answered_to_def)

lemma answered_update:
  "answered_to w calls k c \<Longrightarrow> i < length calls \<Longrightarrow> calls ! i = (rq, ph) \<Longrightarrow> (\<forall>rs. ph \<noteq> Answered rs) \<Longrightarrow>
   answered_to w (calls[i := call]) k c"
proof -
  assume a: "answered_to w calls k c" "i < length calls" "calls ! i = (rq, ph)" "\<forall>rs. ph \<noteq> Answered rs"
  have keep: "x \<in> set (calls[i := call])" if "x \<in> set calls" "x \<noteq> calls ! i" for x
    using that by (metis in_set_conv_nth length_list_update nth_list_update_neq)
  obtain x where x: "x \<in> set calls" "answers w k c x" using a(1) by (auto simp: answered_to_def)
  then have "x \<noteq> calls ! i" using a(3,4) by (auto simp: answers_def)
  then show ?thesis using keep [OF x(1)] x(2) unfolding answered_to_def by blast
qed

lemma set_calls_update: "\<forall>x \<in> set calls. P x \<Longrightarrow> P y \<Longrightarrow> \<forall>x \<in> set (calls[i := y]). P x"
  using set_update_subset_insert [of calls i y] by blast

lemma get_length: "length (is_entries (snd (get_cached t k st))) \<le> length (is_entries st)"
  by (simp add: get_cached_def AList.delete_eq split: option.split)

lemma enter_store:
  assumes "enter w t rq st = (r, st')" "idem_ok st"
  shows "idem_ok st'" "set (is_entries st') \<subseteq> set (is_entries st)" "is_max_entries st' = is_max_entries st"
    "length (is_entries st') \<le> length (is_entries st)"
proof -
  consider "st' = st" | k where "st' = snd (get_cached t k st)" using enter_cases [OF assms(1)] by blast
  then have "idem_ok st' \<and> set (is_entries st') \<subseteq> set (is_entries st) \<and> is_max_entries st' = is_max_entries st \<and>
      length (is_entries st') \<le> length (is_entries st)"
  proof cases
    case (2 k)
    then show ?thesis using get_sub [OF assms(2), of t k] get_length [of t k st] by simp
  qed (use assms(2) in simp)
  then show "idem_ok st'" "set (is_entries st') \<subseteq> set (is_entries st)" "is_max_entries st' = is_max_entries st"
    "length (is_entries st') \<le> length (is_entries st)" by simp_all
qed

lemma set_update_sub: "set (AList.update k v m) \<subseteq> insert (k, v) (set m)"
  by (induction m) auto

lemma insert_set: "idem_ok st \<Longrightarrow> set (is_entries (insert_cached t k c st)) \<subseteq> insert (k, c) (set (is_entries st))"
  using sweep_sub(2) [of st t] set_update_sub [of k c "is_entries st"]
    set_update_sub [of k c "is_entries (sweep_for_capacity t st)"]
  by (auto simp: insert_cached_def Let_def)

lemma server_okD:
  assumes "server_ok w n S"
  shows "idem_ok (sv_store S)" "is_max_entries (sv_store S) = n" "length (is_entries (sv_store S)) \<le> max n 1"
    "\<And>k c. (k, c) \<in> set (is_entries (sv_store S)) \<Longrightarrow> answered_to w (sv_calls S) k c"
    "\<And>call. call \<in> set (sv_calls S) \<Longrightarrow> flight_ok w call"
  using assms by (auto simp: server_ok_def)

lemma server_ok_call:
  assumes "server_ok w n S" "i < length (sv_calls S)" "sv_calls S ! i = (rq, ph)" "\<forall>rs. ph \<noteq> Answered rs"
    "flight_ok w call" "sv_store S' = sv_store S" "sv_calls S' = (sv_calls S)[i := call]"
  shows "server_ok w n S'"
proof -
  note ok = server_okD [OF assms(1)]
  have "answered_to w (sv_calls S') k c" if "(k, c) \<in> set (is_entries (sv_store S))" for k c
    unfolding assms(7) using answered_update [OF ok(4) [OF that] assms(2-4)] .
  moreover have "\<forall>x \<in> set (sv_calls S'). flight_ok w x"
    unfolding assms(7) by (rule set_calls_update) (use ok(5) assms(5) in blast)+
  ultimately show ?thesis using ok assms(6) by (auto simp: server_ok_def)
qed

lemma server_ok_step:
  assumes "server_step w h S S'" "server_ok w n S"
  shows "server_ok w n S'"
  using assms
proof (induction rule: server_step.induct)
  case (arrive t rq S r st)
  note ok = server_okD [OF arrive.prems]
  note e = enter_store [OF arrive.hyps ok(1)]
  have f: "flight_ok w (rq, Waiting r)" using enter_missed arrive.hyps by (cases r) auto
  have "answered_to w (sv_calls S @ [(rq, Waiting r)]) k c" if "(k, c) \<in> set (is_entries st)" for k c
    by (rule answered_append [OF ok(4)]) (use that e(2) in blast)
  moreover have "length (is_entries st) \<le> max n 1" using e(4) ok(3) by linarith
  moreover have "\<forall>x \<in> set (sv_calls S @ [(rq, Waiting r)]). flight_ok w x" using ok(5) f by auto
  ultimately show ?case using ok(2) e(1,3) by (auto simp: server_ok_def)
next
  case (reply i S rq rs)
  show ?case by (rule server_ok_call [OF reply.prems reply.hyps, where call = "(rq, Answered rs)"]) simp_all
next
  case (pass i S rq rs s)
  show ?case by (rule server_ok_call [OF pass.prems pass.hyps(1,2), where call = "(rq, Answered rs)"]) simp_all
next
  case (handle i S rq k fp body rs s)
  have "flight_ok w (rq, Waiting (Missed k fp body))"
    using server_okD(5) [OF handle.prems] handle.hyps(1,2) by (metis nth_mem)
  then have "flight_ok w (rq, Handled k fp rs)" by auto
  then show ?case
    by (intro server_ok_call [OF handle.prems handle.hyps(1,2), where call = "(rq, Handled k fp rs)"]) simp_all
next
  case (finish i S rq k fp rs t rs' st)
  let ?calls = "(sv_calls S)[i := (rq, Answered rs')]"
  note S = server_okD [OF finish.prems]
  note ok = S(1)
  have f: "flight_ok w (rq, Handled k fp rs)" using S(5) finish.hyps(1,2) by (metis nth_mem)
  have old: "answered_to w ?calls k' c'" if "(k', c') \<in> set (is_entries (sv_store S))" for k' c'
    using answered_update [OF S(4) [OF that] finish.hyps(1,2)] by simp
  have flights: "\<forall>x \<in> set ?calls. flight_ok w x" by (rule set_calls_update) (use S(5) in auto)
  consider "st = sv_store S" | c where "st = insert_cached t k c (sv_store S)" "answered_to w ?calls k c"
  proof (cases "is_server_error (rs_status rs) \<or> web_to_bytes w (rs_body rs) MAX_BUFFERED_BODY = None")
    case True
    then show ?thesis using finish.hyps(3) that(1) by (auto simp: leave_def split: if_splits)
  next
    case False
    then obtain body where b: "web_to_bytes w (rs_body rs) MAX_BUFFERED_BODY = Some body" by blast
    let ?c = "\<lparr>cr_fingerprint = fp, cr_status = rs_status rs,
       cr_content_type = map_of (rs_headers rs) ''content-type'', cr_body = body, cr_inserted_at = t\<rparr>"
    have l: "rs' = rs\<lparr>rs_body := body\<rparr>" "st = insert_cached t k ?c (sv_store S)"
      using finish.hyps(3) False b by (auto simp: leave_def)
    obtain key body0 where key: "client_key_of w rq = Some key" "k = cache_key_of rq key"
      "fp = web_fingerprint w body0" "web_to_bytes w (rq_body rq) MAX_BUFFERED_BODY = Some body0"
      using f by auto
    have "answers w k ?c (rq, Answered rs')"
      unfolding answers_def using key l(1) False
      by (intro exI [of _ rq] exI [of _ key] exI [of _ body0] exI [of _ rs']) simp
    moreover have "(rq, Answered rs') \<in> set ?calls" using finish.hyps(1) by (simp add: set_update_memI)
    ultimately have "answered_to w ?calls k ?c" unfolding answered_to_def by blast
    then show ?thesis using that(2) l(2) by blast
  qed
  then show ?case
  proof cases
    case 1
    then show ?thesis using S old flights by (auto simp: server_ok_def)
  next
    case (2 c)
    have "length (is_entries st) \<le> max n 1"
      using insert_length [OF ok] S(2,3) unfolding 2(1) by simp
    moreover have "\<forall>(k', c') \<in> set (is_entries st). answered_to w ?calls k' c'"
      using insert_set [OF ok, of t k c] old 2 by auto
    ultimately show ?thesis
      using S(2) flights insert_ok [OF ok] 2(1) by (auto simp: server_ok_def)
  qed
qed


section \<open>A command that runs again\<close>

lemma get_again:
  "fst (get_cached t k st) = None \<Longrightarrow> get_cached u k (snd (get_cached t k st)) = (None, snd (get_cached t k st))"
  by (auto simp: get_cached_def dmap_simps split: option.splits if_splits)

lemma enter_miss:
  assumes "web_ok w" "keyed w rq key" "fst (get_cached t (cache_key_of rq key) st) = None"
  shows "enter w t rq st =
    (Missed (cache_key_of rq key) (web_fingerprint w (rq_body rq)) (rq_body rq), snd (get_cached t (cache_key_of rq key) st))"
proof -
  have "get_cached t (cache_key_of rq key) st = (None, snd (get_cached t (cache_key_of rq key) st))"
    using assms(3) by (metis prod.collapse)
  then show ?thesis unfolding enter_keyed [OF assms(1,2)] by (metis (mono_tags, lifting) case_prod_conv option.simps(4))
qed

lemma layer_miss:
  assumes "web_ok w" "keyed w rq key" "fst (get_cached t (cache_key_of rq key) st) = None"
  shows "idempotency_layer w h (t, t', rq) (st, s) =
    (let (rs, s') = h rq s;
         (rs', st') = leave w t' (cache_key_of rq key) (web_fingerprint w (rq_body rq)) rs
           (snd (get_cached t (cache_key_of rq key) st))
     in (rs', st', s'))"
  using enter_miss [OF assms] by (simp add: idempotency_layer_def)

lemma uncached_runs_again:
  assumes "web_ok w" "keyed w rq key" "fst (get_cached t (cache_key_of rq key) st) = None"
    "h rq s = (rs, s')"
    "leave w t' (cache_key_of rq key) (web_fingerprint w (rq_body rq)) rs (snd (get_cached t (cache_key_of rq key) st)) =
      (rs', snd (get_cached t (cache_key_of rq key) st))"
  shows "idempotency_layer w h (t, t', rq) (st, s) = (rs', snd (get_cached t (cache_key_of rq key) st), s') \<and>
    snd (snd (idempotency_layer w h (u, u', rq) (snd (get_cached t (cache_key_of rq key) st), s'))) = snd (h rq s')"
proof -
  let ?st = "snd (get_cached t (cache_key_of rq key) st)"
  have again: "fst (get_cached u (cache_key_of rq key) ?st) = None" using get_again [OF assms(3)] by simp
  show ?thesis
    using layer_miss [OF assms(1-3), of h t' s] layer_miss [OF assms(1,2) again, of h u' s'] assms(4,5)
    by (simp add: Let_def case_prod_beta)
qed

text \<open>An error that claims to be worth a retry is never cached: the same request runs the handler
  again.\<close>

theorem retryable_errors_rerun:
  assumes "web_ok w" "keyed w rq key" "fst (get_cached t (cache_key_of rq key) st) = None"
    "h rq s = (web_error w c txt, s')" "retryable c"
  shows "\<exists>st'. idempotency_layer w h (t, t', rq) (st, s) = (web_error w c txt, st', s') \<and>
    snd (snd (idempotency_layer w h (u, u', rq) (st', s'))) = snd (h rq s')"
proof -
  have "is_server_error (rs_status (web_error w c txt))"
    using retryable_server_error [OF assms(5)] by (simp add: web_error_def error_response_def new_error_def)
  then show ?thesis
    using uncached_runs_again [OF assms(1-3), of h s "web_error w c txt" s' t' "web_error w c txt" u u'] assms(4)
    by (auto simp: leave_def)
qed

text \<open>A command whose answer is too large to buffer runs every time it is sent: its effect stays, the
  client is told of a server error that is worth a retry, and the retry has the effect again.\<close>

theorem large_answer_runs_again:
  assumes "web_ok w" "keyed w rq key" "fst (get_cached t (cache_key_of rq key) st) = None"
    "h rq s = (rs, s')" "\<not> is_server_error (rs_status rs)" "MAX_BUFFERED_BODY < length (rs_body rs)"
  shows "\<exists>st'. idempotency_layer w h (t, t', rq) (st, s) =
      (web_error w IdempotencyResponseTooLarge ResponseTooLargeText, st', s') \<and>
    retryable IdempotencyResponseTooLarge \<and>
    snd (snd (idempotency_layer w h (u, u', rq) (st', s'))) = snd (h rq s')"
proof -
  have "web_to_bytes w (rs_body rs) MAX_BUFFERED_BODY = None" using assms(1,6) by (simp add: web_ok_def)
  then show ?thesis
    using assms(4,5) uncached_runs_again [OF assms(1-3), of h s rs s' t'
      "web_error w IdempotencyResponseTooLarge ResponseTooLargeText" u u']
    by (auto simp: leave_def)
qed

text \<open>A retry that arrives while the first attempt is still running runs the command a second time:
  nothing marks a key as taken before its answer is there.\<close>

theorem overlapping_retry_runs_twice:
  assumes "web_ok w" "keyed w rq key" "fst (get_cached t (cache_key_of rq key) (sv_store S)) = None" "sv_calls S = []"
  shows "\<exists>S'. (server_step w h)\<^sup>*\<^sup>* S S' \<and> sv_state S' = snd (h rq (snd (h rq (sv_state S)))) \<and>
    map fst (sv_calls S') = [rq, rq]"
proof -
  let ?k = "cache_key_of rq key" and ?fp = "web_fingerprint w (rq_body rq)"
  let ?st = "snd (get_cached t (cache_key_of rq key) (sv_store S))" and ?m = "Waiting (Missed (cache_key_of rq key) (web_fingerprint w (rq_body rq)) (rq_body rq))"
  obtain r1 s1 where n1: "h rq (sv_state S) = (r1, s1)" by (cases "h rq (sv_state S)")
  obtain r2 s2 where n2: "h rq s1 = (r2, s2)" by (cases "h rq s1")
  have again: "fst (get_cached t ?k ?st) = None" and same: "snd (get_cached t ?k ?st) = ?st"
    using get_again [OF assms(3)] by simp_all
  let ?S1 = "S\<lparr>sv_store := ?st, sv_calls := [(rq, ?m)]\<rparr>"
  let ?S2 = "S\<lparr>sv_store := ?st, sv_calls := [(rq, ?m), (rq, ?m)]\<rparr>"
  let ?S3 = "S\<lparr>sv_store := ?st, sv_state := s1, sv_calls := [(rq, Handled ?k ?fp r1), (rq, ?m)]\<rparr>"
  let ?S4 = "S\<lparr>sv_store := ?st, sv_state := s2, sv_calls := [(rq, Handled ?k ?fp r1), (rq, Handled ?k ?fp r2)]\<rparr>"
  have a: "server_step w h S ?S1"
    using server_step.arrive [OF enter_miss [OF assms(1-3)], of h] assms(4) by simp
  have b: "server_step w h ?S1 ?S2"
    using server_step.arrive [of w t rq ?S1 _ _ h] enter_miss [OF assms(1,2) again] same by simp
  have c: "server_step w h ?S2 ?S3"
    using server_step.handle [of 0 ?S2 rq ?k ?fp "rq_body rq" h r1 s1 w] n1 by simp
  have d: "server_step w h ?S3 ?S4"
    using server_step.handle [of 1 ?S3 rq ?k ?fp "rq_body rq" h r2 s2 w] n2 by simp
  have "(server_step w h)\<^sup>*\<^sup>* S ?S4"
    using a b c d by (meson r_into_rtranclp rtranclp_trans)
  moreover have "sv_state ?S4 = snd (h rq (snd (h rq (sv_state S))))" by (simp add: n1 n2)
  ultimately show ?thesis by (intro exI [of _ ?S4]) simp
qed

section \<open>Instances\<close>

text \<open>A web whose header values are all the key \<open>k\<close> and whose fingerprint is the length of the body, a
  handler that counts, and a request.\<close>

definition plain_web :: web where
  "plain_web =
     \<lparr>web_to_str = (\<lambda>v. Some ''k''), web_to_bytes = (\<lambda>b n. if length b \<le> n then Some b else None),
      web_fingerprint = (\<lambda>b. of_nat (length b)), web_render = (\<lambda>e. []), web_json_type = []\<rparr>"

definition counting :: "nat handler" where
  "counting rq n = (\<lparr>rs_status = 200, rs_headers = [], rs_body = [of_nat n]\<rparr>, n + 1)"

definition post_to :: "string \<Rightarrow> byte list \<Rightarrow> request" where
  "post_to target body =
     \<lparr>rq_method = POST, rq_target = target, rq_headers = [(''idempotency-key'', [])], rq_user = Some ''agent'',
      rq_body = body\<rparr>"

lemma plain_ok: "web_ok plain_web" "length body \<le> MAX_BUFFERED_BODY \<Longrightarrow> keyed plain_web (post_to target body) ''k''"
  by (simp_all add: web_ok_def plain_web_def keyed_def post_to_def client_key_of_def MAX_KEY_LEN_def)

text \<open>The store after the first answer, and after a call to another route in between.\<close>

definition first_store :: "idem_store \<times> nat" where
  "first_store = snd (idempotency_layer plain_web counting (1, 2, post_to ''a'' [7]) (with_capacity 5, 0))"

lemma first_call:
  "idempotency_layer plain_web counting (1, 2, post_to ''a'' [7]) (with_capacity 5, 0) =
     (\<lparr>rs_status = 200, rs_headers = [], rs_body = [0]\<rparr>, fst first_store, snd first_store)"
proof -
  have k: "keyed plain_web (post_to ''a'' [7]) ''k''" by (rule plain_ok) (simp add: MAX_BUFFERED_BODY_def)
  have "fst (idempotency_layer plain_web counting (1, 2, post_to ''a'' [7]) (with_capacity 5, 0)) =
      \<lparr>rs_status = 200, rs_headers = [], rs_body = [0]\<rparr>"
    by (subst layer_miss [OF plain_ok(1) k])
       (simp_all add: get_cached_def with_capacity_def counting_def leave_def is_server_error_def plain_web_def
          MAX_BUFFERED_BODY_def)
  then show ?thesis unfolding first_store_def by (metis prod.collapse)
qed



definition failing :: "nat handler" where
  "failing rq n = (web_error plain_web KernelError (HandlerText []), n + 1)"

lemma retryable_errors_rerun_witness:
  "\<exists>st'. idempotency_layer plain_web failing (1, 2, post_to ''a'' []) (with_capacity 5, 0) =
      (web_error plain_web KernelError (HandlerText []), st', 1) \<and>
    snd (snd (idempotency_layer plain_web failing (3, 4, post_to ''a'' []) (st', 1))) = 2"
  using retryable_errors_rerun [OF plain_ok(1), of "post_to ''a'' []" "''k''" 1 "with_capacity 5" failing 0
      KernelError "HandlerText []" 1 2 3 4] plain_ok(2) [of "[]" "''a''"]
  by (simp add: get_cached_def with_capacity_def failing_def numeral_2_eq_2)

definition verbose :: "nat handler" where
  "verbose rq n = (\<lparr>rs_status = 200, rs_headers = [], rs_body = replicate (MAX_BUFFERED_BODY + 1) 0\<rparr>, n + 1)"

lemma large_answer_runs_again_witness:
  "\<exists>st'. idempotency_layer plain_web verbose (1, 2, post_to ''a'' []) (with_capacity 5, 0) =
      (web_error plain_web IdempotencyResponseTooLarge ResponseTooLargeText, st', 1) \<and>
    snd (snd (idempotency_layer plain_web verbose (3, 4, post_to ''a'' []) (st', 1))) = 2"
  using large_answer_runs_again [OF plain_ok(1), of "post_to ''a'' []" "''k''" 1 "with_capacity 5" verbose 0
      "fst (verbose (post_to ''a'' []) 0)" 1 2 3 4] plain_ok(2) [of "[]" "''a''"]
  by (simp add: get_cached_def with_capacity_def verbose_def is_server_error_def numeral_2_eq_2)

lemma overlapping_retry_runs_twice_witness:
  "\<exists>S'. (server_step plain_web counting)\<^sup>*\<^sup>* (start_server 5 0) S' \<and> sv_state S' = 2 \<and>
    map fst (sv_calls S') = [post_to ''a'' [], post_to ''a'' []]"
  using overlapping_retry_runs_twice [OF plain_ok(1), of "post_to ''a'' []" "''k''" 0 "start_server 5 0" counting]
    plain_ok(2) [of "[]" "''a''"]
  by (simp add: get_cached_def with_capacity_def start_server_def counting_def numeral_2_eq_2)

end
