(* ===== verification/Api_Tx_Props.thy ===== *)
theory Api_Tx_Props
  imports Api_Tx Idempotency_Props
begin

text \<open>
  What transactions over the kernel guarantee: their life cycle, that a rollback undoes a transaction
  on the model its solids were made in, and what happens when models, or requests, are mixed.
\<close>

section \<open>Models\<close>

fun present :: "'g app_state \<Rightarrow> model_ref \<Rightarrow> bool" where
  "present a Legacy \<longleftrightarrow> True"
| "present a (Part i) \<longleftrightarrow> map_of (ap_parts a) i \<noteq> None"

lemma model_of_on_model [simp]:
  "present a r \<Longrightarrow> model_of (on_model r f a) r' = (if r' = r then f (model_of a r) else model_of a r')"
  by (cases r; cases r') (auto simp: dmap_simps)

lemma model_of_transactions [simp]: "model_of (a\<lparr>ap_transactions := m\<rparr>) r = model_of a r"
  by (cases r) simp_all

lemma on_model_fields [simp]:
  "ap_transactions (on_model r f a) = ap_transactions a" "present (on_model r f a) r' = present a r'"
  "present (a\<lparr>ap_transactions := m\<rparr>) r' = present a r'"
  by (cases r; cases r'; auto simp: dmap_simps)+

text \<open>The model a request names.\<close>

fun addresses :: "'g geometry \<Rightarrow> request \<Rightarrow> model_ref \<Rightarrow> bool" where
  "addresses g rq Legacy \<longleftrightarrow> header_of g ''x-roshera-part-id'' rq = None"
| "addresses g rq (Part i) \<longleftrightarrow>
     (\<exists>s. header_of g ''x-roshera-part-id'' rq = Some (Some s) \<and> geo_parse_uuid g s = Some i)"

lemma active_model_iff: "active_model g rq a = Ok r \<longleftrightarrow> addresses g rq r \<and> present a r"
  by (cases r)
     (auto simp: active_model_def resolve_active_model_def parse_part_id_header_def split: option.splits)

section \<open>Rolling back\<close>

lemma sids_fold: "fold (\<lambda>(_, sids). fold remove_solid sids) xs st = fold remove_solid (concat (map snd xs)) st"
  by (induction xs arbitrary: st) (auto simp: case_prod_beta)

lemma rollback_effect:
  assumes "addresses g rq r" "present a r" "path_tx g s = Ok i" "map_of (ap_transactions a) i = Some t"
    "tx_status t = Active" "tx_rollback g now rq s a = (res, a')"
  shows "res = Ok (tx_view_of now (t\<lparr>tx_status := RolledBack\<rparr>), tx_created_solids t) \<and>
    get_solid (model_of a' r) = (\<lambda>x. if x \<in> set (tx_created_solids t) then None else get_solid (model_of a r) x) \<and>
    (\<forall>r'. r' \<noteq> r \<longrightarrow> model_of a' r' = model_of a r') \<and>
    map_of (ap_transactions a') = (map_of (ap_transactions a))(i \<mapsto> t\<lparr>tx_status := RolledBack\<rparr>)"
proof -
  have "active_model g rq a = Ok r" using assms(1,2) by (simp add: active_model_iff)
  then have "res = Ok (tx_view_of now (t\<lparr>tx_status := RolledBack\<rparr>), tx_created_solids t)"
    "a' = on_model r (fold remove_solid (tx_created_solids t))
      (a\<lparr>ap_transactions := AList.update i (t\<lparr>tx_status := RolledBack\<rparr>) (ap_transactions a)\<rparr>)"
    using assms(3-6) by (auto simp: tx_rollback_def begin_rollback_def view_tx_def Let_def)
  then show ?thesis using assms(2) by (simp add: get_fold_remove fun_eq_iff dmap_simps)
qed

text \<open>A rollback removes the identifiers the transaction has tracked from the model that the request
  for the rollback addresses, whichever model the solids were made in, and touches no other model.\<close>

theorem rollback_acts_on_addressed_model:
  assumes "addresses g rq r" "present a r" "path_tx g s = Ok i" "map_of (ap_transactions a) i = Some t"
    "tx_status t = Active" "tx_rollback g now rq s a = (res, a')"
  shows "res = Ok (tx_view_of now (t\<lparr>tx_status := RolledBack\<rparr>), tx_created_solids t) \<and>
    get_solid (model_of a' r) = (\<lambda>x. if x \<in> set (tx_created_solids t) then None else get_solid (model_of a r) x) \<and>
    (\<forall>r'. r' \<noteq> r \<longrightarrow> model_of a' r' = model_of a r') \<and>
    map_of (ap_transactions a') = (map_of (ap_transactions a))(i \<mapsto> t\<lparr>tx_status := RolledBack\<rparr>)"
  by (rule rollback_effect [OF assms])

text \<open>The sweeper ends every transaction that is overdue and removes what it has tracked from the model
  of the open document; solids made in parts stay.\<close>

theorem sweep_acts_on_document_model:
  assumes "dmap_ok (ap_transactions a)"
  shows "get_solid (ap_model (sweep_tick now a)) =
      (\<lambda>x. if \<exists>i t. map_of (ap_transactions a) i = Some t \<and> tx_overdue now t \<and> x \<in> set (tx_created_solids t)
        then None else get_solid (ap_model a) x) \<and>
    ap_parts (sweep_tick now a) = ap_parts a \<and>
    (\<forall>i. map_of (ap_transactions (sweep_tick now a)) i =
      map_option (\<lambda>t. if tx_overdue now t then t\<lparr>tx_status := Expired\<rparr> else t) (map_of (ap_transactions a) i))"
proof -
  let ?m = "ap_transactions a" and ?f = "\<lambda>t. if tx_overdue now t then t\<lparr>tx_status := Expired\<rparr> else t"
  let ?sids = "concat (map (\<lambda>x. tx_created_solids (snd x)) (filter (\<lambda>(i, t). tx_overdue now t) ?m))"
  have swept: "map_of (map (\<lambda>(i, t). (i, ?f t)) m) i = map_option ?f (map_of m i)" for m :: tx_manager and i
    by (induction m) auto
  have a': "sweep_tick now a = on_model Legacy (fold remove_solid ?sids) (a\<lparr>ap_transactions := map (\<lambda>(i, t). (i, ?f t)) ?m\<rparr>)"
    by (simp add: sweep_tick_def sweep_expired_def sids_fold comp_def case_prod_beta)
  have mem: "x \<in> set ?sids \<longleftrightarrow>
      (\<exists>i t. map_of ?m i = Some t \<and> tx_overdue now t \<and> x \<in> set (tx_created_solids t))" for x
    using assms by (auto simp: map_of_eq_Some_iff)
  show ?thesis unfolding a' using swept [of ?m] by (simp add: get_fold_remove fun_eq_iff mem del: set_concat)
qed

section \<open>All or nothing\<close>

definition run_creates :: "'g geometry \<Rightarrow> request list \<Rightarrow> 'g app_state \<Rightarrow> 'g app_state" where
  "run_creates g rqs a = fold (\<lambda>rq a. snd (create_geometry g rq a)) rqs a"

text \<open>The state \<open>b\<close> reached from \<open>a\<close> by creations in one open transaction on one model.\<close>

definition in_progress :: "uuid \<Rightarrow> model_ref \<Rightarrow> nat \<Rightarrow> 'g app_state \<Rightarrow> 'g app_state \<Rightarrow> bool" where
  "in_progress i r n a b \<longleftrightarrow> present b r \<and> ids_below (model_of b r) \<and>
     unat (ss_next_id (model_of b r)) + n < 2 ^ 32 \<and> (\<forall>r'. r' \<noteq> r \<longrightarrow> model_of b r' = model_of a r') \<and>
     (\<forall>j. j \<noteq> i \<longrightarrow> map_of (ap_transactions b) j = map_of (ap_transactions a) j) \<and>
     (\<exists>t. map_of (ap_transactions b) i = Some t \<and> tx_status t = Active \<and>
       (\<forall>x \<in> set (tx_created_solids t). get_solid (model_of a r) x = None) \<and>
       (\<forall>x. x \<notin> set (tx_created_solids t) \<longrightarrow> get_solid (model_of b r) x = get_solid (model_of a r) x) \<and>
       (\<forall>x. ss_next_id (model_of b r) \<le> x \<longrightarrow> get_solid (model_of a r) x = None))"

lemma in_progress_step:
  assumes "in_progress i r (Suc n) a b" "addresses g rq r" "tx_of_header g rq = Ok (Some i)"
  shows "in_progress i r n a (snd (create_geometry g rq b))"
proof -
  obtain t where b: "present b r" "ids_below (model_of b r)" "unat (ss_next_id (model_of b r)) + Suc n < 2 ^ 32"
    "\<forall>r'. r' \<noteq> r \<longrightarrow> model_of b r' = model_of a r'"
    "\<forall>j. j \<noteq> i \<longrightarrow> map_of (ap_transactions b) j = map_of (ap_transactions a) j"
    "map_of (ap_transactions b) i = Some t" "tx_status t = Active"
    "\<forall>x \<in> set (tx_created_solids t). get_solid (model_of a r) x = None"
    "\<forall>x. x \<notin> set (tx_created_solids t) \<longrightarrow> get_solid (model_of b r) x = get_solid (model_of a r) x"
    "\<forall>x. ss_next_id (model_of b r) \<le> x \<longrightarrow> get_solid (model_of a r) x = None"
    using assms(1) unfolding in_progress_def by blast
  have pre: "create_preflight g rq b = Ok (r, Some i)"
    using b(1,6,7) assms(2,3) active_model_iff [of g rq b r] by (simp add: create_preflight_def tx_is_open_def)
  show ?thesis
  proof (cases "geo_build g rq")
    case (Inl e)
    then have "snd (create_geometry g rq b) = b" by (simp add: create_geometry_def pre create_build_def)
    then show ?thesis using assms(1) by (simp add: in_progress_def)
  next
    case (Inr s)
    let ?sid = "ss_next_id (model_of b r)" and ?t = "t\<lparr>tx_created_solids := tx_created_solids t @ [ss_next_id (model_of b r)]\<rparr>"
    let ?b = "(on_model r (\<lambda>m. snd (add_solid s m)) b)\<lparr>ap_transactions := AList.update i ?t (ap_transactions b)\<rparr>"
    have step: "snd (create_geometry g rq b) = ?b"
      by (simp add: create_geometry_def pre create_build_def Inr create_track_def track_solid_def b(6,7))
    note up = word_less_Suc [of ?sid]
    have small: "unat ?sid + 1 < 2 ^ 32" using b(3) by simp
    have "\<forall>x. ?sid + 1 \<le> x \<longrightarrow> get_solid (model_of a r) x = None"
      using b(10) up [OF small] by (meson dual_order.trans less_imp_le)
    then show ?thesis
      unfolding step in_progress_def
      using b up [OF small] ids_below_add [OF b(2) small, of s] by (auto simp: get_add dmap_simps)
  qed
qed

lemma in_progress_run:
  "in_progress i r (length rqs) a b \<Longrightarrow> \<forall>rq \<in> set rqs. addresses g rq r \<and> tx_of_header g rq = Ok (Some i) \<Longrightarrow>
   in_progress i r 0 a (run_creates g rqs b)"
proof (induction rqs arbitrary: b)
  case (Cons rq rqs)
  then show ?case using in_progress_step [of i r "length rqs" a b g rq] by (simp add: run_creates_def)
qed (simp add: run_creates_def)


section \<open>Models and requests mixed\<close>

text \<open>A transaction that ends while a request in it is between its check and the kernel leaves a
  solid nobody tracks: the request is refused, the solid stays in the model, and no transaction knows it.\<close>

theorem ended_transaction_orphans_solid:
  assumes "create_preflight g rq a = Ok (r, Some i)" "tx_commit g now s a = (Ok v, b)" "path_tx g s = Ok i"
    "geo_build g rq = Ok solid"
  shows "\<exists>sid b'. create_build g rq r b = (Ok sid, b') \<and> get_solid (model_of b' r) sid = Some (solid\<lparr>sol_id := sid\<rparr>) \<and>
    create_track (Some i) sid b' = (Err (transaction_not_active i Committed), b') \<and> ap_transactions b' = ap_transactions b"
proof -
  have r: "present a r" using assms(1)
    by (auto simp: create_preflight_def active_model_iff split: sum.splits)
  obtain t where t: "b = a\<lparr>ap_transactions := AList.update i (t\<lparr>tx_status := Committed\<rparr>) (ap_transactions a)\<rparr>"
    using assms(2,3) by (auto simp: tx_commit_def commit_tx_def Let_def split: option.splits if_splits)
  have "get_solid (snd (add_solid solid (model_of b r))) (ss_next_id (model_of b r)) = Some (solid\<lparr>sol_id := ss_next_id (model_of b r)\<rparr>)"
    by (simp add: get_add)
  moreover have "present b r" using r t by simp
  ultimately show ?thesis using t by (simp add: create_build_def assms(4) create_track_def track_solid_def)
qed

text \<open>A request with an idempotency key that names another part than the first request with that key is
  answered with the solid of the first part, and makes none in its own.\<close>

theorem replay_ignores_part:
  assumes "web_ok (geo_web g)" "keyed (geo_web g) rq key" "fst (get_cached t (cache_key_of rq key) st) = None"
    and first: "idempotency_layer (geo_web g) (geometry_handler g) (t, t', rq) (st, a) = (rs, st', a')"
      "\<not> is_server_error (rs_status rs)"
    and store: "idem_ok st" "\<forall>(k, c) \<in> set (is_entries st). cr_inserted_at c < t'"
    and again: "keyed (geo_web g) (rq\<lparr>rq_headers := hs\<rparr>) key" "u \<le> t' + is_ttl st"
  shows "\<exists>rs'. idempotency_layer (geo_web g) (geometry_handler g) (u, u', rq\<lparr>rq_headers := hs\<rparr>) (st', a') = (rs', st', a') \<and>
    rs_status rs' = rs_status rs \<and> rs_body rs' = rs_body rs"
proof -
  have "map_of (is_entries st') (cache_key_of rq key) =
      Some \<lparr>cr_fingerprint = web_fingerprint (geo_web g) (rq_body rq), cr_status = rs_status rs,
        cr_content_type = map_of (rs_headers rs) ''content-type'', cr_body = rs_body rs, cr_inserted_at = t'\<rparr>"
    using layer_first [OF assms(1-3) first] by (simp add: insert_cached_def Let_def)
  moreover have "idem_ok st'" "is_ttl st' = is_ttl st" using layer_fields [OF first(1) store(1)] by simp_all
  moreover have "cache_key_of (rq\<lparr>rq_headers := hs\<rparr>) key = cache_key_of rq key" by (simp add: cache_key_of_def)
  ultimately show ?thesis
    using layer_hit [OF assms(1) again(1), of _ st' u "geometry_handler g" u' a'] again(2)
    by (auto simp: replay_def expired_def dest: map_of_SomeD)
qed

section \<open>The life of a transaction\<close>

text \<open>The operations on the registry, with the log of the solids handed out for removal. The environment
  draws identifiers that are not in use.\<close>

inductive tx_step :: "tx_manager \<times> (uuid \<times> solid_id list) list \<Rightarrow> tx_manager \<times> (uuid \<times> solid_id list) list \<Rightarrow> bool" where
  start: "map_of m i = None \<Longrightarrow> tx_step (m, rel) (begin_tx i now m, rel)"
| track: "track_solid i sid m = Ok m' \<Longrightarrow> tx_step (m, rel) (m', rel)"
| commit: "commit_tx now i m = Ok (v, m') \<Longrightarrow> tx_step (m, rel) (m', rel)"
| rollback: "begin_rollback i m = Ok (sids, m') \<Longrightarrow> tx_step (m, rel) (m', rel @ [(i, sids)])"
| sweep: "sweep_expired now m = (out, m') \<Longrightarrow> tx_step (m, rel) (m', rel @ out)"

definition tx_log_ok :: "tx_manager \<Rightarrow> (uuid \<times> solid_id list) list \<Rightarrow> bool" where
  "tx_log_ok m rel \<longleftrightarrow> dmap_ok m \<and> distinct (map fst rel) \<and> (\<forall>i t. map_of m i = Some t \<longrightarrow> tx_ident t = i) \<and>
     (\<forall>i sids. (i, sids) \<in> set rel \<longleftrightarrow>
       (\<exists>t. map_of m i = Some t \<and> tx_status t \<in> {RolledBack, Expired} \<and> sids = tx_created_solids t))"

lemma tx_log_ident: "tx_log_ok m rel \<Longrightarrow> map_of m i = Some t \<Longrightarrow> tx_ident t = i"
  by (simp add: tx_log_ok_def)

lemma tx_log_update:
  assumes "tx_log_ok m rel" "map_of m i = None \<or> (\<exists>t0. map_of m i = Some t0 \<and> tx_status t0 = Active)"
    "tx_ident t = i" "tx_status t \<in> {Active, Committed}"
  shows "tx_log_ok (AList.update i t m) rel"
  using assms by (auto simp: tx_log_ok_def dmap_simps)

lemma tx_log_end:
  assumes "tx_log_ok m rel" "map_of m i = Some t" "tx_status t = Active" "st \<in> {RolledBack, Expired}"
  shows "tx_log_ok (AList.update i (t\<lparr>tx_status := st\<rparr>) m) (rel @ [(i, tx_created_solids t)])"
proof -
  have "i \<notin> fst ` set rel" using assms(1-3) by (auto simp: tx_log_ok_def)
  then show ?thesis using assms by (auto simp: tx_log_ok_def dmap_simps)
qed

lemma map_of_swept:
  "map_of (snd (sweep_expired now m)) i = map_option (\<lambda>t. if tx_overdue now t then t\<lparr>tx_status := Expired\<rparr> else t) (map_of m i)"
  unfolding sweep_expired_def by (induction m) auto

lemma tx_log_sweep:
  assumes "tx_log_ok m rel"
  shows "tx_log_ok (snd (sweep_expired now m)) (rel @ fst (sweep_expired now m))"
proof -
  have ok: "dmap_ok m" "\<And>i t. map_of m i = Some t \<Longrightarrow> tx_ident t = i" using assms by (auto simp: tx_log_ok_def)
  have keys: "dkeys (snd (sweep_expired now m)) = dkeys m" by (simp add: sweep_expired_def case_prod_beta comp_def)
  have out: "(i, sids) \<in> set (fst (sweep_expired now m)) \<longleftrightarrow>
      (\<exists>t. map_of m i = Some t \<and> tx_overdue now t \<and> sids = tx_created_solids t)" for i sids
    using ok by (force simp: sweep_expired_def map_of_eq_Some_iff)
  have "map fst (fst (sweep_expired now m)) = map (\<lambda>(i, t). tx_ident t) (filter (\<lambda>(i, t). tx_overdue now t) m)"
    by (simp add: sweep_expired_def case_prod_beta comp_def)
  also have "\<dots> = map fst (filter (\<lambda>(i, t). tx_overdue now t) m)"
    using ok by (auto simp: map_of_eq_Some_iff)
  finally have dist: "distinct (map fst (fst (sweep_expired now m)))" using ok(1) by (simp add: distinct_map_filter)
  have ended: "(\<exists>t'. map_of (snd (sweep_expired now m)) i = Some t' \<and> tx_status t' \<in> {RolledBack, Expired} \<and>
        sids = tx_created_solids t') \<longleftrightarrow>
      (\<exists>t. map_of m i = Some t \<and> (tx_status t \<in> {RolledBack, Expired} \<or> tx_overdue now t) \<and> sids = tx_created_solids t)"
    for i sids unfolding map_of_swept by (cases "map_of m i") auto
  have "fst ` set rel \<inter> fst ` set (fst (sweep_expired now m)) = {}"
    using assms out by (force simp: tx_log_ok_def tx_overdue_def)
  then have "distinct (map fst (rel @ fst (sweep_expired now m)))" using assms dist by (simp add: tx_log_ok_def)
  moreover have "tx_ident t = i" if "map_of (snd (sweep_expired now m)) i = Some t" for i t
    using that ok(2) unfolding map_of_swept by (auto split: if_splits)
  moreover have "(i, sids) \<in> set (rel @ fst (sweep_expired now m)) \<longleftrightarrow>
      (\<exists>t'. map_of (snd (sweep_expired now m)) i = Some t' \<and> tx_status t' \<in> {RolledBack, Expired} \<and>
        sids = tx_created_solids t')" for i sids
    unfolding ended using assms out by (auto simp: tx_log_ok_def)
  ultimately show ?thesis using ok(1) keys by (simp add: tx_log_ok_def)
qed

lemma tx_log_step: "tx_step s s' \<Longrightarrow> tx_log_ok (fst s) (snd s) \<Longrightarrow> tx_log_ok (fst s') (snd s')"
proof (induction rule: tx_step.induct)
  case (start m i rel now)
  then show ?case by (simp add: begin_tx_def tx_log_update)
next
  case (track i sid m m' rel)
  then obtain t where "map_of m i = Some t" "tx_status t = Active"
    "m' = AList.update i (t\<lparr>tx_created_solids := tx_created_solids t @ [sid]\<rparr>) m"
    by (auto simp: track_solid_def split: option.splits if_splits)
  then show ?case using track.prems tx_log_ident [of m rel i t] by (simp add: tx_log_update)
next
  case (commit now i m v m' rel)
  then obtain t where "map_of m i = Some t" "tx_status t = Active" "m' = AList.update i (t\<lparr>tx_status := Committed\<rparr>) m"
    by (auto simp: commit_tx_def Let_def split: option.splits if_splits)
  then show ?case using commit.prems tx_log_ident [of m rel i t] by (simp add: tx_log_update)
next
  case (rollback i m sids m' rel)
  then obtain t where "map_of m i = Some t" "tx_status t = Active" "sids = tx_created_solids t"
    "m' = AList.update i (t\<lparr>tx_status := RolledBack\<rparr>) m"
    by (auto simp: begin_rollback_def split: option.splits if_splits)
  then show ?case using rollback.prems by (simp add: tx_log_end)
next
  case (sweep now m out m' rel)
  then show ?case using tx_log_sweep [of m rel now] by simp
qed

text \<open>The solids of a transaction are handed out for removal at most once, when it is rolled back or
  expires, and then all of them; a committed or open transaction hands out none, and what has been handed
  out never changes.\<close>

theorem transaction_released_once:
  assumes "tx_step\<^sup>*\<^sup>* ([], []) (m, rel)"
  shows "distinct (map fst rel) \<and>
    (\<forall>i sids. (i, sids) \<in> set rel \<longleftrightarrow>
      (\<exists>t. map_of m i = Some t \<and> tx_status t \<in> {RolledBack, Expired} \<and> sids = tx_created_solids t))"
proof -
  have "tx_log_ok (fst (m, rel)) (snd (m, rel))"
    using assms
  proof (induction rule: rtranclp_induct)
    case base
    show ?case by (simp add: tx_log_ok_def)
  qed (rule tx_log_step)
  then show ?thesis by (simp add: tx_log_ok_def)
qed

section \<open>Instances\<close>

text \<open>Two parts' worth of headers: the values \<open>[1]\<close> and \<open>[2]\<close> are the identifiers 1 and 2.\<close>

definition plain_geometry :: "nat geometry" where
  "plain_geometry =
     \<lparr>geo_web = plain_web\<lparr>web_to_str := (\<lambda>v. if v = [1] then Some ''1'' else if v = [2] then Some ''2'' else Some ''k'')\<rparr>,
      geo_parse_uuid = (\<lambda>s. if s = ''1'' then Some 1 else if s = ''2'' then Some 2 else None),
      geo_build = (\<lambda>rq. Ok \<lparr>sol_id = 0, sol_name = None, sol_outer_shell = 0, sol_inner_shells = [],
        sol_peer_shells = [], sol_rest = length (rq_body rq)\<rparr>),
      geo_answer = (\<lambda>rq sid. Ok \<lparr>rs_status = 200, rs_headers = [], rs_body = [ucast sid]\<rparr>)\<rparr>"

definition part_header :: "byte \<Rightarrow> string \<times> header_value" where
  "part_header b = (''x-roshera-part-id'', [b])"

definition tx_header :: "byte \<Rightarrow> string \<times> header_value" where
  "tx_header b = (''x-roshera-tx-id'', [b])"

definition asking :: "(string \<times> header_value) list \<Rightarrow> request" where
  "asking hs = (post_to ''a'' [])\<lparr>rq_headers := hs\<rparr>"

definition two_models :: "nat app_state" where
  "two_models =
     \<lparr>ap_model = snd (add_solid \<lparr>sol_id = 0, sol_name = None, sol_outer_shell = 0, sol_inner_shells = [],
        sol_peer_shells = [], sol_rest = 77\<rparr> new_solid_store),
      ap_parts = [(1, new_solid_store)], ap_metadata = [], ap_transactions = []\<rparr>"

text \<open>A solid is made in part 1 in transaction 2.\<close>

definition one_made :: "nat app_state" where
  "one_made = run_creates plain_geometry [asking [part_header 1, tx_header 2]] (snd (tx_begin 2 0 two_models))"

lemma headers [simp]:
  "header_of plain_geometry ''x-roshera-part-id'' (asking []) = None"
  "header_of plain_geometry ''x-roshera-part-id'' (asking [part_header 1, tx_header 2]) = Some (Some ''1'')"
  "header_of plain_geometry ''x-roshera-tx-id'' (asking [part_header 1, tx_header 2]) = Some (Some ''2'')"
  "header_of plain_geometry ''x-roshera-part-id'' (asking [part_header 1]) = Some (Some ''1'')"
  by (simp_all add: header_of_def asking_def part_header_def tx_header_def plain_geometry_def)

lemma parses [simp]:
  "geo_parse_uuid plain_geometry ''1'' = Some 1" "geo_parse_uuid plain_geometry ''2'' = Some 2"
  "path_tx plain_geometry ''2'' = Ok 2"
  by (simp_all add: plain_geometry_def path_tx_def)

lemma made:
  "create_preflight plain_geometry (asking [part_header 1, tx_header 2]) (snd (tx_begin 2 0 two_models)) = Ok (Part 1, Some 2)"
  "geo_build plain_geometry (asking [part_header 1, tx_header 2]) = Ok \<lparr>sol_id = 0, sol_name = None, sol_outer_shell = 0,
     sol_inner_shells = [], sol_peer_shells = [], sol_rest = 0\<rparr>"
proof -
  have "present (snd (tx_begin 2 0 two_models)) (Part 1)" "map_of (ap_transactions (snd (tx_begin 2 0 two_models))) 2 =
      Some \<lparr>tx_ident = 2, tx_status = Active, tx_created_at = 0, tx_created_solids = []\<rparr>"
    by (simp_all add: tx_begin_def begin_tx_def view_tx_def two_models_def Let_def)
  then show "create_preflight plain_geometry (asking [part_header 1, tx_header 2]) (snd (tx_begin 2 0 two_models)) = Ok (Part 1, Some 2)"
    using active_model_iff [of plain_geometry "asking [part_header 1, tx_header 2]" "snd (tx_begin 2 0 two_models)" "Part 1"]
    by (simp add: create_preflight_def tx_of_header_def tx_is_open_def)
qed (simp add: plain_geometry_def asking_def post_to_def)

lemma one_made_state:
  "map_of (ap_transactions one_made) 2 =
     Some \<lparr>tx_ident = 2, tx_status = Active, tx_created_at = 0, tx_created_solids = [0]\<rparr>"
  "get_solid (model_of one_made Legacy) 0 \<noteq> None" "get_solid (model_of one_made (Part 1)) 0 \<noteq> None"
  "present one_made (Part 1)" "dmap_ok (ap_transactions one_made)"
  unfolding one_made_def run_creates_def fold.simps comp_def id_def create_geometry_def made sum.case prod.case create_build_def
  by (simp_all add: create_track_def track_solid_def tx_begin_def begin_tx_def view_tx_def two_models_def Let_def
      get_add get_solid_def add_solid_def new_solid_store_def modify_entry_def)

text \<open>Rolled back without naming the part: the document loses its own solid, the part keeps the new one.\<close>

lemma rollback_acts_on_addressed_model_witness:
  "get_solid (model_of one_made Legacy) 0 \<noteq> None \<and>
   get_solid (model_of (snd (tx_rollback plain_geometry 1 (asking []) ''2'' one_made)) Legacy) 0 = None \<and>
   get_solid (model_of (snd (tx_rollback plain_geometry 1 (asking []) ''2'' one_made)) (Part 1)) 0 \<noteq> None"
  using rollback_acts_on_addressed_model [OF _ _ parses(3) one_made_state(1) _ prod.collapse [symmetric],
      of "asking []" Legacy 1] one_made_state(2,3)
  by (simp del: model_of.simps)

lemma sweep_acts_on_document_model_witness:
  "get_solid (ap_model (sweep_tick (2 * TX_TTL) one_made)) 0 = None \<and> ap_parts (sweep_tick (2 * TX_TTL) one_made) = ap_parts one_made"
proof -
  have "tx_overdue (2 * TX_TTL) \<lparr>tx_ident = 2, tx_status = Active, tx_created_at = 0, tx_created_solids = [0]\<rparr>"
    by (simp add: tx_overdue_def TX_TTL_def)
  then have "\<exists>i t. map_of (ap_transactions one_made) i = Some t \<and> tx_overdue (2 * TX_TTL) t \<and> 0 \<in> set (tx_created_solids t)"
    using one_made_state(1) by fastforce
  then show ?thesis using sweep_acts_on_document_model [OF one_made_state(5), of "2 * TX_TTL"] by simp
qed


lemma ended_transaction_orphans_solid_witness:
  "\<exists>sid b'. create_build plain_geometry (asking [part_header 1, tx_header 2]) (Part 1)
      (snd (tx_commit plain_geometry 1 ''2'' one_made)) = (Ok sid, b') \<and>
    create_track (Some 2) sid b' = (Err (transaction_not_active 2 Committed), b')"
proof -
  have pre: "create_preflight plain_geometry (asking [part_header 1, tx_header 2]) one_made = Ok (Part 1, Some 2)"
    using one_made_state(1,4) active_model_iff [of plain_geometry "asking [part_header 1, tx_header 2]" one_made "Part 1"]
    by (simp add: create_preflight_def tx_of_header_def tx_is_open_def)
  have "fst (tx_commit plain_geometry 1 ''2'' one_made) =
      Ok (tx_view_of 1 \<lparr>tx_ident = 2, tx_status = Committed, tx_created_at = 0, tx_created_solids = [0]\<rparr>)"
    using one_made_state(1) by (simp add: tx_commit_def commit_tx_def Let_def)
  then have commit: "tx_commit plain_geometry 1 ''2'' one_made =
      (Ok (tx_view_of 1 \<lparr>tx_ident = 2, tx_status = Committed, tx_created_at = 0, tx_created_solids = [0]\<rparr>),
       snd (tx_commit plain_geometry 1 ''2'' one_made))" by (metis prod.collapse)
  have "\<exists>solid. geo_build plain_geometry (asking [part_header 1, tx_header 2]) = Ok solid" by (simp add: plain_geometry_def)
  then show ?thesis using ended_transaction_orphans_solid [OF pre commit parses(3)] by blast
qed

definition key_header :: "string \<times> header_value" where
  "key_header = (''idempotency-key'', [])"

lemma replay_ignores_part_witness:
  "\<exists>rs st' a' rs'. idempotency_layer (geo_web plain_geometry) (geometry_handler plain_geometry)
      (1, 2, asking [key_header]) (with_capacity 5, two_models) = (rs, st', a') \<and>
    idempotency_layer (geo_web plain_geometry) (geometry_handler plain_geometry)
      (3, 4, asking [key_header, part_header 1]) (st', a') = (rs', st', a') \<and> rs_body rs' = rs_body rs"
proof -
  let ?w = "geo_web plain_geometry" and ?h = "geometry_handler plain_geometry"
  have ok: "web_ok ?w" by (simp add: web_ok_def plain_geometry_def plain_web_def)
  have k: "keyed ?w (asking (key_header # hs)) ''k''" for hs
    by (simp add: keyed_def asking_def post_to_def client_key_of_def key_header_def plain_geometry_def plain_web_def MAX_KEY_LEN_def)
  have miss: "fst (get_cached 1 (cache_key_of (asking [key_header]) ''k'') (with_capacity 5)) = None"
    by (simp add: get_cached_def with_capacity_def)
  obtain rs st' a' where first: "idempotency_layer ?w ?h (1, 2, asking [key_header]) (with_capacity 5, two_models) = (rs, st', a')"
    by (cases "idempotency_layer ?w ?h (1, 2, asking [key_header]) (with_capacity 5, two_models)")
  have "rs_status (fst (?h (asking [key_header]) two_models)) = 200 \<and> length (rs_body (fst (?h (asking [key_header]) two_models))) = 1"
    by code_simp
  then have "rs_status rs = 200"
    using first unfolding layer_miss [OF ok k miss]
    by (auto simp: leave_def Let_def is_server_error_def ok [unfolded web_ok_def] MAX_BUFFERED_BODY_def split: prod.splits)
  then show ?thesis
    using replay_ignores_part [OF ok k miss first, of "[key_header, part_header 1]" 3 4] k [of "[part_header 1]"] first
    by (simp add: is_server_error_def with_capacity_def asking_def CACHE_TTL_def) blast
qed

lemma transaction_released_once_witness:
  "distinct (map fst (fst (sweep_expired (2 * TX_TTL) (begin_tx 2 0 []))))"
proof -
  have "tx_step ([], []) (begin_tx 2 0 [], [])" by (rule tx_step.start) simp
  moreover have "tx_step (begin_tx 2 0 [], []) (snd (sweep_expired (2 * TX_TTL) (begin_tx 2 0 [])), [] @ fst (sweep_expired (2 * TX_TTL) (begin_tx 2 0 [])))"
    by (rule tx_step.sweep) simp
  ultimately have "tx_step\<^sup>*\<^sup>* ([], [])
      (snd (sweep_expired (2 * TX_TTL) (begin_tx 2 0 [])), fst (sweep_expired (2 * TX_TTL) (begin_tx 2 0 [])))"
    by (simp add: r_into_rtranclp rtranclp.rtrancl_into_rtrancl)
  then show ?thesis using transaction_released_once by blast
qed

end
