(* ===== verification/Mould.thy ===== *)
theory Mould
  imports F64
begin

text \<open>
  Parameter edits of the event log: \<^verbatim>\<open>timeline-engine/src/mould.rs\<close>.

  An edit is an appended \<^verbatim>\<open>param.mould\<close> event; \<open>collect_overrides\<close> folds the log into the
  overrides in force, and \<open>overridden_event\<close> rewrites the payload of a targeted event on its way
  into replay. Names for parameters are bound by \<^verbatim>\<open>param.name\<close> events.

  Parameters: \<open>fmt\<close> is the text of a \<^verbatim>\<open>Uuid\<close>, \<open>dbg\<close> the \<^verbatim>\<open>{:?}\<close> text of an \<^verbatim>\<open>f64\<close>. A JSON
  object is its list of entries; the code only replaces values of keys that are there.
\<close>

section \<open>Reading JSON\<close>

fun is_number :: "json \<Rightarrow> bool" where
  "is_number (Json_Number n) = True"
| "is_number v = False"

fun as_u64 :: "json \<Rightarrow> nat option" where
  "as_u64 (Json_Number (PosInt n)) = Some n"
| "as_u64 v = None"

definition f64_of_int :: "int \<Rightarrow> f64" where
  "f64_of_int i = f64_round False (i * 2 ^ 1074)"

fun as_f64 :: "json \<Rightarrow> f64 option" where
  "as_f64 (Json_Number (PosInt n)) = Some (f64_of_int (int n))"
| "as_f64 (Json_Number (NegInt i)) = Some (f64_of_int i)"
| "as_f64 (Json_Number (Float x)) = Some x"
| "as_f64 v = None"

text \<open>\<^verbatim>\<open>json!(x)\<close> of an \<^verbatim>\<open>f64\<close>: what is not finite becomes \<^verbatim>\<open>null\<close>.\<close>

definition json_of_f64 :: "f64 \<Rightarrow> json" where
  "json_of_f64 x = (if is_finite x then Json_Number (Float x) else Json_Null)"

section \<open>Metadata events\<close>

definition MOULD_COMMAND :: string where
  "MOULD_COMMAND = ''param.mould''"

definition NAME_COMMAND :: string where
  "NAME_COMMAND = ''param.name''"

definition is_param_meta :: "string \<Rightarrow> bool" where
  "is_param_meta command_type \<longleftrightarrow> command_type = MOULD_COMMAND \<or> command_type = NAME_COMMAND"

definition json_uuid :: "(uuid \<Rightarrow> string) \<Rightarrow> uuid option \<Rightarrow> json" where
  "json_uuid fmt u = (case u of None \<Rightarrow> Json_Null | Some u' \<Rightarrow> Json_String (fmt u'))"

definition mould_operation :: "(uuid \<Rightarrow> string) \<Rightarrow> nat \<Rightarrow> uuid option \<Rightarrow> string \<Rightarrow> f64 \<Rightarrow> operation" where
  "mould_operation fmt target_sequence target_event_id parameter value =
     Generic MOULD_COMMAND (Json_Object
       [(''params'', Json_Object
          [(''target_sequence'', Json_Number (PosInt target_sequence)),
           (''target_event_id'', json_uuid fmt target_event_id),
           (''parameter'', Json_String parameter),
           (''value'', json_of_f64 value)]),
        (''inputs'', Json_Array []),
        (''outputs'', Json_Array [])])"

definition name_binding_operation ::
  "(uuid \<Rightarrow> string) \<Rightarrow> string \<Rightarrow> nat \<Rightarrow> uuid option \<Rightarrow> string \<Rightarrow> operation" where
  "name_binding_operation fmt name target_sequence target_event_id parameter =
     Generic NAME_COMMAND (Json_Object
       [(''params'', Json_Object
          [(''name'', Json_String name),
           (''target_sequence'', Json_Number (PosInt target_sequence)),
           (''target_event_id'', json_uuid fmt target_event_id),
           (''parameter'', Json_String parameter)]),
        (''inputs'', Json_Array []),
        (''outputs'', Json_Array [])])"

definition envelope_params :: "json \<Rightarrow> json" where
  "envelope_params ps = (case json_get ps ''params'' of Some p \<Rightarrow> p | None \<Rightarrow> ps)"

record parsed_mould =
  pm_target_sequence :: "nat option"
  pm_parameter :: "string option"
  pm_name :: "string option"
  pm_value :: f64

definition parse_mould :: "json \<Rightarrow> parsed_mould option" where
  "parse_mould ps =
     (let p = envelope_params ps
      in case Option.bind (json_get p ''value'') as_f64 of
           None \<Rightarrow> None
         | Some value \<Rightarrow> Some
             \<lparr>pm_target_sequence = Option.bind (json_get p ''target_sequence'') as_u64,
              pm_parameter = Option.bind (json_get p ''parameter'') as_str,
              pm_name = Option.bind (json_get p ''name'') as_str,
              pm_value = value\<rparr>)"

section \<open>Names of parameters\<close>

type_synonym name_bindings = "(string, nat \<times> string) dmap"

definition binding_of :: "timeline_event \<Rightarrow> (nat \<times> string \<times> nat \<times> string) option" where
  "binding_of e =
     (case te_operation e of
        Generic command_type ps \<Rightarrow>
          (if command_type = NAME_COMMAND then
             (let p = envelope_params ps
              in case (Option.bind (json_get p ''name'') as_str,
                       Option.bind (json_get p ''target_sequence'') as_u64,
                       Option.bind (json_get p ''parameter'') as_str) of
                   (Some name, Some seq, Some param) \<Rightarrow> Some (sequence_number e, name, seq, param)
                 | _ \<Rightarrow> None)
           else None)
      | _ \<Rightarrow> None)"

definition collect_names :: "timeline_event list \<Rightarrow> name_bindings" where
  "collect_names events =
     fold (\<lambda>(own, name, seq, param). AList.update name (seq, param))
       (sort_key fst (List.map_filter binding_of events)) []"

definition resolve_name :: "name_bindings \<Rightarrow> string \<Rightarrow> (nat \<times> string) option" where
  "resolve_name bs name = map_of bs name"

definition bound_names :: "name_bindings \<Rightarrow> string list" where
  "bound_names bs = sort (dkeys bs)"

section \<open>The overrides in force\<close>

type_synonym override_set = "(nat \<times> string, f64) dmap"

definition mould_of :: "timeline_event \<Rightarrow> (nat \<times> parsed_mould) option" where
  "mould_of e =
     (case te_operation e of
        Generic command_type ps \<Rightarrow>
          (if command_type = MOULD_COMMAND then map_option (Pair (sequence_number e)) (parse_mould ps) else None)
      | _ \<Rightarrow> None)"

fun target_of :: "name_bindings \<Rightarrow> parsed_mould \<Rightarrow> (nat \<times> string) option" where
  "target_of names m =
     (case (pm_target_sequence m, pm_parameter m, pm_name m) of
        (Some seq, Some param, _) \<Rightarrow> Some (seq, param)
      | (_, _, Some name) \<Rightarrow> resolve_name names name
      | _ \<Rightarrow> None)"

definition add_override :: "name_bindings \<Rightarrow> nat \<times> parsed_mould \<Rightarrow> override_set \<Rightarrow> override_set" where
  "add_override names om resolved =
     (case target_of names (snd om) of
        Some target \<Rightarrow> AList.update target (pm_value (snd om)) resolved
      | None \<Rightarrow> resolved)"

definition collect_overrides :: "timeline_event list \<Rightarrow> override_set" where
  "collect_overrides events =
     fold (add_override (collect_names events)) (sort_key fst (List.map_filter mould_of events)) []"

definition min_target_sequence :: "override_set \<Rightarrow> nat option" where
  "min_target_sequence os = (if os = [] then None else Some (Min (set (map (fst \<circ> fst) os))))"

definition value_for :: "override_set \<Rightarrow> nat \<Rightarrow> string \<Rightarrow> f64 option" where
  "value_for os seq parameter = map_of os (seq, parameter)"

section \<open>Rewriting a payload\<close>

fun find_numeric_recursive :: "string \<Rightarrow> json \<Rightarrow> bool" where
  "find_numeric_recursive key (Json_Object kvs) =
     list_ex (\<lambda>(k, v). k = key \<and> is_number v \<or> find_numeric_recursive key v) kvs"
| "find_numeric_recursive key (Json_Array vs) = list_ex (find_numeric_recursive key) vs"
| "find_numeric_recursive key v = False"

definition params_have_numeric :: "json \<Rightarrow> string \<Rightarrow> bool" where
  "params_have_numeric ps parameter = find_numeric_recursive parameter (envelope_params ps)"

text \<open>The rewritten value, and whether anything was replaced.\<close>

fun set_numeric_recursive :: "string \<Rightarrow> f64 \<Rightarrow> json \<Rightarrow> json \<times> bool" where
  "set_numeric_recursive key new (Json_Object kvs) =
     (let rs = map (\<lambda>(k, v).
                 if k = key \<and> is_number v then ((k, json_of_f64 new), True)
                 else let r = set_numeric_recursive key new v in ((k, fst r), snd r)) kvs
      in (Json_Object (map fst rs), list_ex snd rs))"
| "set_numeric_recursive key new (Json_Array vs) =
     (let rs = map (set_numeric_recursive key new) vs
      in (Json_Array (map fst rs), list_ex snd rs))"
| "set_numeric_recursive key new v = (v, False)"

definition constant_text :: "string \<Rightarrow> bool" where
  "constant_text s \<longleftrightarrow> take 9 s = ''Constant('' \<and> s \<noteq> [] \<and> last s = CHR '')''"

definition carries_pair :: "string \<Rightarrow> string \<Rightarrow> (string \<times> json) list \<Rightarrow> bool" where
  "carries_pair numeric_key profile_key kvs \<longleftrightarrow>
     (case map_of kvs numeric_key of Some v \<Rightarrow> is_number v | None \<Rightarrow> False) \<and>
     (case Option.bind (map_of kvs profile_key) as_str of Some s \<Rightarrow> constant_text s | None \<Rightarrow> False)"

fun restate_constant_profile ::
  "(f64 \<Rightarrow> string) \<Rightarrow> string \<Rightarrow> string \<Rightarrow> f64 \<Rightarrow> json \<Rightarrow> json" where
  "restate_constant_profile dbg numeric_key profile_key new (Json_Object kvs) =
     Json_Object (map (\<lambda>(k, v).
       (k, if carries_pair numeric_key profile_key kvs \<and> k = profile_key
           then Json_String (''Constant('' @ dbg new @ '')'')
           else restate_constant_profile dbg numeric_key profile_key new v)) kvs)"
| "restate_constant_profile dbg numeric_key profile_key new (Json_Array vs) =
     Json_Array (map (restate_constant_profile dbg numeric_key profile_key new) vs)"
| "restate_constant_profile dbg numeric_key profile_key new v = v"

definition REDUNDANT_PROFILE_ENCODINGS :: "(string \<times> string) list" where
  "REDUNDANT_PROFILE_ENCODINGS = [(''radius'', ''fillet_type'')]"

definition reconcile_redundant_encodings :: "(f64 \<Rightarrow> string) \<Rightarrow> string \<Rightarrow> f64 \<Rightarrow> json \<Rightarrow> json" where
  "reconcile_redundant_encodings dbg key new v =
     (case map_of REDUNDANT_PROFILE_ENCODINGS key of
        None \<Rightarrow> v
      | Some profile_key \<Rightarrow> restate_constant_profile dbg key profile_key new v)"

text \<open>One override applied to the inner parameters, and all of them in the order of their names.\<close>

definition apply_override :: "(f64 \<Rightarrow> string) \<Rightarrow> string \<times> f64 \<Rightarrow> json \<times> bool \<Rightarrow> json \<times> bool" where
  "apply_override dbg pv r =
     (let (v', hit) = set_numeric_recursive (fst pv) (snd pv) (fst r)
      in if hit then (reconcile_redundant_encodings dbg (fst pv) (snd pv) v', True) else (v', snd r))"

definition applicable :: "override_set \<Rightarrow> nat \<Rightarrow> (string \<times> f64) list" where
  "applicable os seq = sort_key fst (map (\<lambda>((s, p), v). (p, v)) (filter (\<lambda>((s, p), v). s = seq) os))"

definition with_inner :: "json \<Rightarrow> json \<Rightarrow> json" where
  "with_inner ps inner =
     (case ps of
        Json_Object kvs \<Rightarrow>
          (if contains_key kvs ''params'' then Json_Object (modify_entry ''params'' (\<lambda>p. inner) kvs) else inner)
      | _ \<Rightarrow> inner)"

definition overridden_event ::
  "(f64 \<Rightarrow> string) \<Rightarrow> override_set \<Rightarrow> timeline_event \<Rightarrow> timeline_event option" where
  "overridden_event dbg os event =
     (if os = [] then None
      else case te_operation event of
        Generic command_type ps \<Rightarrow>
          (let app = applicable os (sequence_number event)
           in if app = [] then None
              else let (inner, changed) = fold (apply_override dbg) app (envelope_params ps, False)
                   in if \<not> changed then None
                      else Some (event\<lparr>te_operation := Generic command_type (with_inner ps inner)\<rparr>))
      | _ \<Rightarrow> None)"

end
