(* ===== verification/Mould_Props.thy ===== *)
theory Mould_Props
  imports Mould
begin

text \<open>
  What an edit of a parameter does: an appended edit sets exactly its target, folding the edits of
  an event one after the other is one simultaneous substitution, and an edited integer is no
  integer any more.
\<close>

section \<open>Reference: simultaneous substitution\<close>

text \<open>Keys of a JSON object are distinct, at every depth.\<close>

fun json_ok :: "json \<Rightarrow> bool" where
  "json_ok (Json_Object kvs) \<longleftrightarrow> distinct (map fst kvs) \<and> list_all (\<lambda>(k, v). json_ok v) kvs"
| "json_ok (Json_Array vs) \<longleftrightarrow> list_all json_ok vs"
| "json_ok v \<longleftrightarrow> True"

text \<open>Every number under an edited key becomes the edit's value, and the text that states a constant
  fillet radius a second time follows the edit of \<^verbatim>\<open>radius\<close>.\<close>

definition restates :: "(string \<Rightarrow> f64 option) \<Rightarrow> (string \<times> json) list \<Rightarrow> string \<Rightarrow> bool" where
  "restates ov kvs k \<longleftrightarrow>
     k = ''fillet_type'' \<and> ov ''radius'' \<noteq> None \<and> carries_pair ''radius'' ''fillet_type'' kvs"

fun substituted :: "(f64 \<Rightarrow> string) \<Rightarrow> (string \<Rightarrow> f64 option) \<Rightarrow> json \<Rightarrow> json" where
  "substituted dbg ov (Json_Object kvs) = Json_Object (map (\<lambda>(k, v).
     (k, if ov k \<noteq> None \<and> is_number v then json_of_f64 (the (ov k))
         else if restates ov kvs k then Json_String (''Constant('' @ dbg (the (ov ''radius'')) @ '')'')
         else substituted dbg ov v)) kvs)"
| "substituted dbg ov (Json_Array vs) = Json_Array (map (substituted dbg ov) vs)"
| "substituted dbg ov v = v"

definition values_finite :: "(string \<Rightarrow> f64 option) \<Rightarrow> bool" where
  "values_finite ov \<longleftrightarrow> (\<forall>v \<in> ran ov. is_finite v)"

section \<open>One override\<close>

lemma is_number_float [simp]: "is_finite x \<Longrightarrow> is_number (json_of_f64 x)"
  by (simp add: json_of_f64_def)

lemma list_ex_eqI: "(\<And>x. x \<in> set xs \<Longrightarrow> Q (f x) = P x) \<Longrightarrow> list_ex Q (map f xs) = list_ex P xs"
  by (induction xs) auto

lemma set_hit: "snd (set_numeric_recursive key new v) = find_numeric_recursive key v"
proof (induction key new v rule: set_numeric_recursive.induct)
  case (1 key new kvs)
  show ?case
    by (simp add: Let_def, rule list_ex_eqI) (use 1 in \<open>auto split: prod.splits\<close>)
next
  case (2 key new vs)
  show ?case
    by (simp add: Let_def, rule list_ex_eqI) (use 2 in auto)
qed auto

lemma set_miss: "\<not> find_numeric_recursive key v \<Longrightarrow> fst (set_numeric_recursive key new v) = v"
  by (induction key new v rule: set_numeric_recursive.induct)
     (auto simp: list_ex_iff Let_def split_def intro!: map_idI)

lemma restate_miss:
  "\<not> find_numeric_recursive key v \<Longrightarrow> restate_constant_profile dbg key pk new v = v"
proof (induction dbg key pk new v rule: restate_constant_profile.induct)
  case (1 dbg key pk new kvs)
  have "\<not> carries_pair key pk kvs"
    using 1(2) by (auto simp: carries_pair_def list_ex_iff dest!: map_of_SomeD split: option.splits)
  with 1 show ?case by (auto simp: list_ex_iff split_def intro!: map_idI)
qed (auto simp: list_ex_iff intro!: map_idI)

lemma reconcile_eq:
  "reconcile_redundant_encodings dbg key new v =
     (if key = ''radius'' then restate_constant_profile dbg ''radius'' ''fillet_type'' new v else v)"
  by (simp add: reconcile_redundant_encodings_def REDUNDANT_PROFILE_ENCODINGS_def)

lemma apply_override_fst:
  "fst (apply_override dbg (key, new) (v, c)) =
     reconcile_redundant_encodings dbg key new (fst (set_numeric_recursive key new v))"
  using set_hit [of key new v] set_miss [of key v new] restate_miss [of key v]
  by (auto simp: apply_override_def split_def Let_def reconcile_eq)

lemma apply_override_snd:
  "snd (apply_override dbg (key, new) (v, c)) \<longleftrightarrow> c \<or> find_numeric_recursive key v"
  using set_hit [of key new v] by (auto simp: apply_override_def split_def Let_def)

lemma number_not_string: "is_number v \<Longrightarrow> as_str v = None"
  by (cases v) auto

lemma number_substituted [simp]: "is_number (substituted dbg ov v) = is_number v"
  by (cases v) auto

lemma string_substituted [simp]: "as_str (substituted dbg ov v) = as_str v"
  by (cases v) auto

lemma restated_is_string:
  assumes "distinct (map fst kvs)" and "(k, v) \<in> set kvs" and "restates ov kvs k"
  shows "\<exists>s. v = Json_String s"
  using assms by (cases v) (auto simp: restates_def carries_pair_def split: option.splits)

text \<open>The value of an entry after the substitution.\<close>

definition entry_after :: "(f64 \<Rightarrow> string) \<Rightarrow> (string \<Rightarrow> f64 option) \<Rightarrow> (string \<times> json) list \<Rightarrow> string \<Rightarrow> json \<Rightarrow> json" where
  "entry_after dbg ov kvs k v =
     (if ov k \<noteq> None \<and> is_number v then json_of_f64 (the (ov k))
      else if restates ov kvs k then Json_String (''Constant('' @ dbg (the (ov ''radius'')) @ '')'')
      else substituted dbg ov v)"

lemma substituted_object:
  "substituted dbg ov (Json_Object kvs) = Json_Object (map (\<lambda>(k, v). (k, entry_after dbg ov kvs k v)) kvs)"
  by (simp add: entry_after_def)

lemma number_after:
  assumes "values_finite ov" and "distinct (map fst kvs)" and "(k, v) \<in> set kvs"
  shows "is_number (entry_after dbg ov kvs k v) = is_number v"
  using assms restated_is_string [OF assms(2,3), of ov]
  by (auto simp: entry_after_def values_finite_def ran_def)

lemma map_of_entries: "map_of (map (\<lambda>(k, v). (k, f k v)) kvs) k = map_option (f k) (map_of kvs k)"
  by (induction kvs) auto

lemma map_entries: "map (\<lambda>(k, v). (k, f k v)) (map (\<lambda>(k, v). (k, g k v)) kvs) = map (\<lambda>(k, v). (k, f k (g k v))) kvs"
  by (simp add: split_def comp_def)

lemma map_entries_cong:
  "(\<And>k v. (k, v) \<in> set kvs \<Longrightarrow> f k v = g k v) \<Longrightarrow>
   map (\<lambda>(k, v). (k, f k v)) kvs = map (\<lambda>(k, v). (k, g k v)) kvs"
  by (auto simp: split_def)

lemma carries_map:
  assumes "\<And>v. map_of kvs ''radius'' = Some v \<Longrightarrow> is_number (f ''radius'' v) = is_number v"
    and "\<And>v. map_of kvs ''fillet_type'' = Some v \<Longrightarrow> as_str (f ''fillet_type'' v) = as_str v"
  shows "carries_pair ''radius'' ''fillet_type'' (map (\<lambda>(k, v). (k, f k v)) kvs) =
         carries_pair ''radius'' ''fillet_type'' kvs"
  using assms by (cases "map_of kvs ''radius''"; cases "map_of kvs ''fillet_type''")
    (simp_all add: carries_pair_def map_of_entries)

lemma number_set [simp]: "is_number (fst (set_numeric_recursive key n v)) = is_number v"
  by (cases v) (auto simp: Let_def)

lemma string_set [simp]: "as_str (fst (set_numeric_recursive key n v)) = as_str v"
  by (cases v) (auto simp: Let_def)

lemma set_object:
  "fst (set_numeric_recursive key n (Json_Object kvs)) = Json_Object (map (\<lambda>(k, v).
     (k, if k = key \<and> is_number v then json_of_f64 n else fst (set_numeric_recursive key n v))) kvs)"
  by (auto simp: Let_def split_def)

lemma set_array:
  "fst (set_numeric_recursive key n (Json_Array vs)) = Json_Array (map (\<lambda>v. fst (set_numeric_recursive key n v)) vs)"
  by (simp add: Let_def)

lemma set_leaf [simp]: "fst (set_numeric_recursive key n (json_of_f64 x)) = json_of_f64 x"
  by (simp add: json_of_f64_def)

lemma restate_leaf [simp]: "restate_constant_profile dbg nk pk n (json_of_f64 x) = json_of_f64 x"
  by (simp add: json_of_f64_def)

lemma entry_no_text: "ov ''radius'' = None \<Longrightarrow> entry_after dbg ov kvs k v =
    (if ov k \<noteq> None \<and> is_number v then json_of_f64 (the (ov k)) else substituted dbg ov v)"
  by (simp add: entry_after_def restates_def)

lemma set_substituted:
  assumes "key \<noteq> ''radius''" and "ov key = None" and "values_finite ov" and "json_ok v"
  shows "fst (set_numeric_recursive key n (substituted dbg ov v)) = substituted dbg (ov(key \<mapsto> n)) v"
  using assms(4)
proof (induction v rule: json_ok.induct)
  case (1 kvs)
  have dist: "distinct (map fst kvs)" using 1(2) by simp
  have "(if k = key \<and> is_number (entry_after dbg ov kvs k v) then json_of_f64 n
         else fst (set_numeric_recursive key n (entry_after dbg ov kvs k v))) =
        entry_after dbg (ov(key \<mapsto> n)) kvs k v" if kv: "(k, v) \<in> set kvs" for k v
  proof -
    have ih: "fst (set_numeric_recursive key n (substituted dbg ov v)) = substituted dbg (ov(key \<mapsto> n)) v"
      by (rule 1(1) [OF kv refl]) (use 1(2) kv in \<open>auto simp: list_all_iff\<close>)
    have same: "restates (ov(key \<mapsto> n)) kvs k = restates ov kvs k" using assms(1) by (simp add: restates_def)
    show ?thesis
      using restated_is_string [OF dist kv, of ov] number_after [OF assms(3) dist kv, of dbg] assms(1,2) ih same
      by (auto simp: entry_after_def split: if_splits)
  qed
  then show ?case unfolding substituted_object set_object map_entries
    by (intro arg_cong [of _ _ Json_Object] map_entries_cong)
next
  case (2 vs)
  show ?case
    unfolding substituted.simps set_array list.map_comp comp_def
    by (intro arg_cong [of _ _ Json_Array] map_cong refl 2(1)) (use 2(2) in \<open>auto simp: list_all_iff\<close>)
qed auto

lemma restate_substituted:
  assumes "ov ''radius'' = None" and "values_finite ov" and "is_finite n" and "json_ok v"
  shows "restate_constant_profile dbg ''radius'' ''fillet_type'' n
           (fst (set_numeric_recursive ''radius'' n (substituted dbg ov v))) =
         substituted dbg (ov(''radius'' \<mapsto> n)) v"
  using assms(4)
proof (induction v rule: json_ok.induct)
  case (1 kvs)
  let ?ov = "ov(''radius'' \<mapsto> n)"
  let ?set = "\<lambda>k v. if k = ''radius'' \<and> is_number v then json_of_f64 n else fst (set_numeric_recursive ''radius'' n v)"
  let ?new = "\<lambda>k v. ?set k (entry_after dbg ov kvs k v)"
  have dist: "distinct (map fst kvs)" using 1(2) by simp
  have carries: "carries_pair ''radius'' ''fillet_type'' (map (\<lambda>(k, v). (k, ?new k v)) kvs) =
      carries_pair ''radius'' ''fillet_type'' kvs"
  proof (rule carries_map)
    fix v assume v: "map_of kvs ''radius'' = Some v"
    then show "is_number (?new ''radius'' v) = is_number v"
      using number_after [OF assms(2) dist map_of_SomeD [OF v], of dbg] assms(3) by auto
  next
    fix v assume "map_of kvs ''fillet_type'' = Some v"
    then show "as_str (?new ''fillet_type'' v) = as_str v"
      using assms(1,2) number_not_string [of v]
      by (auto simp: entry_no_text json_of_f64_def values_finite_def ran_def)
  qed
  have "(if carries_pair ''radius'' ''fillet_type'' kvs \<and> k = ''fillet_type''
         then Json_String (''Constant('' @ dbg n @ '')'')
         else restate_constant_profile dbg ''radius'' ''fillet_type'' n (?new k v)) =
        entry_after dbg ?ov kvs k v" if kv: "(k, v) \<in> set kvs" for k v
  proof -
    have ih: "restate_constant_profile dbg ''radius'' ''fillet_type'' n
        (fst (set_numeric_recursive ''radius'' n (substituted dbg ov v))) = substituted dbg ?ov v"
      by (rule 1(1) [OF kv refl]) (use 1(2) kv in \<open>auto simp: list_all_iff\<close>)
    show ?thesis
      using restated_is_string [OF dist kv, of ?ov] assms(1) ih
      by (auto simp: entry_no_text entry_after_def restates_def)
  qed
  then show ?case
    unfolding substituted_object set_object restate_constant_profile.simps map_entries carries
    by (intro arg_cong [of _ _ Json_Object] map_entries_cong)
next
  case (2 vs)
  show ?case
    unfolding substituted.simps set_array restate_constant_profile.simps list.map_comp comp_def
    by (intro arg_cong [of _ _ Json_Array] map_cong refl 2(1)) (use 2(2) in \<open>auto simp: list_all_iff\<close>)
qed auto

lemma apply_substituted:
  assumes "ov key = None" and "values_finite ov" and "is_finite n" and "json_ok v"
  shows "fst (apply_override dbg (key, n) (substituted dbg ov v, c)) = substituted dbg (ov(key \<mapsto> n)) v"
proof (cases "key = ''radius''")
  case True
  with restate_substituted [OF _ assms(2-4)] assms(1) show ?thesis by (simp only: apply_override_fst reconcile_eq if_True simp_thms)
next
  case False
  with set_substituted [OF False assms(1,2,4)] show ?thesis by (simp only: apply_override_fst reconcile_eq if_False)
qed

lemma substituted_nothing [simp]: "substituted dbg (\<lambda>k. None) v = v"
proof (induction v rule: json_ok.induct)
  case (1 kvs)
  then show ?case by (auto simp: restates_def intro!: map_idI)
qed (auto intro: map_idI)

text \<open>An edit of one parameter neither makes nor unmakes a number under another key.\<close>

lemma find_substituted:
  assumes "values_finite ov" and "json_ok v"
  shows "find_numeric_recursive key (substituted dbg ov v) = find_numeric_recursive key v"
  using assms(2)
proof (induction v rule: json_ok.induct)
  case (1 kvs)
  have dist: "distinct (map fst kvs)" using 1(2) by simp
  have "(k = key \<and> is_number (entry_after dbg ov kvs k v) \<or> find_numeric_recursive key (entry_after dbg ov kvs k v)) =
        (k = key \<and> is_number v \<or> find_numeric_recursive key v)" if kv: "(k, v) \<in> set kvs" for k v
  proof -
    have ih: "find_numeric_recursive key (substituted dbg ov v) = find_numeric_recursive key v"
      by (rule 1(1) [OF kv refl]) (use 1(2) kv in \<open>auto simp: list_all_iff\<close>)
    have "\<not> find_numeric_recursive key v" if "is_number v" using that by (cases v) auto
    moreover have "\<not> find_numeric_recursive key (json_of_f64 x)" for x by (simp add: json_of_f64_def)
    ultimately show ?thesis
      using number_after [OF assms(1) dist kv, of dbg] restated_is_string [OF dist kv, of ov] ih
      by (auto simp: entry_after_def)
  qed
  then show ?case unfolding substituted_object find_numeric_recursive.simps
    by (intro list_ex_eqI) auto
next
  case (2 vs)
  show ?case
    unfolding substituted.simps find_numeric_recursive.simps
    by (intro list_ex_eqI 2(1)) (use 2(2) in \<open>auto simp: list_all_iff\<close>)
qed auto

lemma fold_overrides:
  assumes "json_ok v" and "values_finite ov" and "\<forall>(k, n) \<in> set app. is_finite n \<and> ov k = None"
    and "distinct (map fst app)"
  shows "fold (apply_override dbg) app (substituted dbg ov v, c) =
     (substituted dbg (ov ++ map_of app) v, c \<or> list_ex (\<lambda>(k, n). find_numeric_recursive k v) app)"
  using assms(2-)
proof (induction app arbitrary: ov c)
  case (Cons a app)
  obtain k n where a: "a = (k, n)" by (cases a)
  have fin: "values_finite (ov(k \<mapsto> n))" using Cons.prems a by (auto simp: values_finite_def ran_def)
  have step: "apply_override dbg a (substituted dbg ov v, c) =
      (substituted dbg (ov(k \<mapsto> n)) v, c \<or> find_numeric_recursive k v)"
    using apply_substituted [of ov k n v dbg c] apply_override_snd [of dbg k n "substituted dbg ov v" c]
      find_substituted [OF Cons.prems(1) assms(1)] Cons.prems assms(1) a
    by (auto simp: prod_eq_iff)
  have rest: "\<forall>(k', n') \<in> set app. is_finite n' \<and> (ov(k \<mapsto> n)) k' = None"
    using Cons.prems a by force
  have "map_of app k = None" using Cons.prems(3) a by (simp add: map_of_eq_None_iff)
  then have eq: "ov(k \<mapsto> n) ++ map_of app = ov ++ map_of (a # app)"
    using a by (auto simp: fun_eq_iff map_add_def split: option.splits)
  have "fold (apply_override dbg) (a # app) (substituted dbg ov v, c) =
      fold (apply_override dbg) app (substituted dbg (ov(k \<mapsto> n)) v, c \<or> find_numeric_recursive k v)"
    by (simp only: fold.simps comp_def step)
  also have "\<dots> = (substituted dbg (ov(k \<mapsto> n) ++ map_of app) v,
      (c \<or> find_numeric_recursive k v) \<or> list_ex (\<lambda>(k, n). find_numeric_recursive k v) app)"
    by (rule Cons.IH [OF fin rest]) (use Cons.prems(3) in simp)
  also have "(c \<or> find_numeric_recursive k v) \<or> list_ex (\<lambda>(k, n). find_numeric_recursive k v) app \<longleftrightarrow>
      c \<or> list_ex (\<lambda>(k, n). find_numeric_recursive k v) (a # app)"
    by (simp add: a disj_assoc)
  finally show ?case unfolding eq .
qed simp

section \<open>The overrides of an event\<close>

lemma map_of_same_set:
  assumes "distinct (map fst xs)" and "distinct (map fst ys)" and "set xs = set ys"
  shows "map_of xs = map_of ys"
proof
  fix k
  have "map_of xs k = Some v \<longleftrightarrow> map_of ys k = Some v" for v
    using assms by (simp add: map_of_eq_Some_iff)
  then show "map_of xs k = map_of ys k" by (metis not_Some_eq)
qed

lemma applicable_set: "set (applicable os s) = {(p, v). ((s, p), v) \<in> set os}"
  by (force simp: applicable_def)

lemma applicable_distinct:
  assumes "dmap_ok os"
  shows "distinct (map fst (applicable os s))"
proof -
  have "distinct (map fst (map (\<lambda>((s, p), v). (p, v)) (filter (\<lambda>((s', p), v). s' = s) os)))"
    using assms by (induction os) (auto, force)
  then show ?thesis by (simp only: applicable_def distinct_map distinct_sort set_sort simp_thms)
qed

lemma applicable_value:
  assumes "dmap_ok os"
  shows "map_of (applicable os s) = value_for os s"
proof
  fix k
  have "map_of (applicable os s) k = Some v \<longleftrightarrow> value_for os s k = Some v" for v
    using assms applicable_distinct [OF assms, of s]
    by (simp add: map_of_eq_Some_iff value_for_def applicable_set)
  then show "map_of (applicable os s) k = value_for os s k" by (metis not_Some_eq)
qed

lemma envelope_ok: "json_ok ps \<Longrightarrow> json_ok (envelope_params ps)"
  by (cases ps) (auto simp: envelope_params_def list_all_iff dest: map_of_SomeD split: option.splits)

lemma overridden_event_eq:
  assumes "te_operation e = Generic c ps" and "json_ok ps" and "dmap_ok os"
    and "\<forall>v \<in> snd ` set os. is_finite v"
  shows "overridden_event dbg os e =
     (if \<exists>k. value_for os (sequence_number e) k \<noteq> None \<and> params_have_numeric ps k
      then Some (e\<lparr>te_operation := Generic c (with_inner ps
             (substituted dbg (value_for os (sequence_number e)) (envelope_params ps)))\<rparr>)
      else None)"
proof -
  let ?s = "sequence_number e" let ?app = "applicable os (sequence_number e)"
  have fin: "\<forall>(k, n) \<in> set ?app. is_finite n \<and> (None :: f64 option) = None"
    using assms(4) by (force simp: applicable_set)
  have fold: "fold (apply_override dbg) ?app (envelope_params ps, False) =
     (substituted dbg (value_for os ?s) (envelope_params ps),
      list_ex (\<lambda>(k, n). find_numeric_recursive k (envelope_params ps)) ?app)"
    using fold_overrides [OF envelope_ok [OF assms(2)], of "\<lambda>k. None" ?app dbg False] fin
      applicable_distinct [OF assms(3), of ?s]
    by (simp add: values_finite_def applicable_value [OF assms(3)] map_add_def del: find_numeric_recursive.simps)
  have hit: "list_ex (\<lambda>(k, n). find_numeric_recursive k (envelope_params ps)) ?app \<longleftrightarrow>
      (\<exists>k. value_for os ?s k \<noteq> None \<and> params_have_numeric ps k)"
    unfolding list_ex_iff params_have_numeric_def applicable_value [OF assms(3), symmetric]
    by (auto dest: map_of_SomeD) (metis weak_map_of_SomeI)
  show ?thesis
    using assms(1) hit
    by (cases "os = []"; cases "?app = []")
       (auto simp: overridden_event_def fold value_for_def applicable_value [OF assms(3), symmetric])
qed

text \<open>C30. Replaying an event under the edits in force is one simultaneous substitution in its parameters:
  the edits are applied one after the other, each with a repair of texts that repeat its number, but
  neither their order nor the repairs show. The event changes exactly when an edit names a key that
  the server's check for an editable parameter accepts, and then only its parameters do.\<close>

theorem override_is_substitution:
  assumes "te_operation e = Generic c ps" and "json_ok ps" and "dmap_ok os"
    and "\<forall>v \<in> snd ` set os. is_finite v"
  shows "overridden_event dbg os e =
     (if \<exists>k. value_for os (sequence_number e) k \<noteq> None \<and> params_have_numeric ps k
      then Some (e\<lparr>te_operation := Generic c (with_inner ps
             (substituted dbg (value_for os (sequence_number e)) (envelope_params ps)))\<rparr>)
      else None)"
  by (rule overridden_event_eq [OF assms])

section \<open>Sample events\<close>

definition event_at :: "nat \<Rightarrow> operation \<Rightarrow> timeline_event" where
  "event_at n op =
     \<lparr>te_id = EventId (of_nat n), sequence_number = n, te_timestamp = 0, te_author = System, te_operation = op,
      te_inputs = default_inputs, te_outputs = default_outputs,
      te_metadata = \<lparr>md_description = None, md_branch_id = main_branch, md_tags = [], md_properties = []\<rparr>\<rparr>"

definition revolve_params :: json where
  "revolve_params = Json_Object
     [(''inputs'', Json_Array []),
      (''params'', Json_Object [(''angle'', Json_Number (Float 0)), (''segments'', Json_Number (PosInt 24))])]"

lemma zero_finite [simp]: "is_finite 0"
  by (simp add: is_finite_def f64_magnitude_def f64_infinity_def)

lemma override_is_substitution_witness:
  "overridden_event (\<lambda>x. []) [((3, ''segments''), 0)] (event_at 3 (Generic ''sketch_revolve'' revolve_params)) =
     Some (event_at 3 (Generic ''sketch_revolve'' (Json_Object
       [(''inputs'', Json_Array []),
        (''params'', Json_Object [(''angle'', Json_Number (Float 0)), (''segments'', Json_Number (Float 0))])])))"
proof -
  have "params_have_numeric revolve_params ''segments''"
    by (simp add: params_have_numeric_def envelope_params_def revolve_params_def)
  then have hit: "\<exists>k. value_for [((3 :: nat, ''segments''), 0)] 3 k \<noteq> None \<and> params_have_numeric revolve_params k"
    by (intro exI [of _ "''segments''"]) (simp add: value_for_def)
  show ?thesis
    using override_is_substitution [of "event_at 3 (Generic ''sketch_revolve'' revolve_params)" "''sketch_revolve''"
        revolve_params "[((3, ''segments''), 0)]" "\<lambda>x. []"] hit
    by (simp add: event_at_def)
       (simp add: revolve_params_def envelope_params_def with_inner_def contains_key_def modify_entry_def
          value_for_def restates_def json_of_f64_def)
qed

section \<open>Integers\<close>

lemma inner_after:
  assumes "json_get (envelope_params ps) k \<noteq> None"
  shows "envelope_params (with_inner ps (substituted dbg ov (envelope_params ps))) =
         substituted dbg ov (envelope_params ps)"
proof (cases ps)
  case (Json_Object kvs)
  then show ?thesis
    by (cases "map_of kvs ''params''")
       (simp_all add: envelope_params_def with_inner_def contains_key_def map_of_modify_entry map_of_entries)
qed (use assms in \<open>auto simp: envelope_params_def\<close>)

lemma get_substituted:
  "json_get v k = Some (Json_Number x) \<Longrightarrow> ov k = Some n \<Longrightarrow>
   json_get (substituted dbg ov v) k = Some (json_of_f64 n)"
  by (cases v) (auto simp: map_of_entries)

text \<open>An edit of an integer parameter (the number of segments of a revolution, a count, a degree) is
  accepted and takes effect, but it leaves a floating point number, which a reader that asks for an
  integer does not accept: replay goes on with its default in place of the edit.\<close>

theorem edited_integer_unreadable:
  assumes "te_operation e = Generic c ps" and "json_ok ps" and "dmap_ok os"
    and "\<forall>v \<in> snd ` set os. is_finite v"
    and "value_for os (sequence_number e) k = Some v"
    and "Option.bind (json_get (envelope_params ps) k) as_u64 = Some n"
  shows "\<exists>ps'. overridden_event dbg os e = Some (e\<lparr>te_operation := Generic c ps'\<rparr>) \<and>
     Option.bind (json_get (envelope_params ps') k) as_f64 = Some v \<and>
     Option.bind (json_get (envelope_params ps') k) as_u64 = None"
proof -
  let ?ov = "value_for os (sequence_number e)"
  obtain x where x: "json_get (envelope_params ps) k = Some (Json_Number x)"
    using assms(6) by (auto simp: bind_eq_Some_conv elim: as_u64.elims)
  then have "params_have_numeric ps k"
    by (cases "envelope_params ps") (force simp: params_have_numeric_def list_ex_iff dest!: map_of_SomeD)+
  then have "overridden_event dbg os e =
      Some (e\<lparr>te_operation := Generic c (with_inner ps (substituted dbg ?ov (envelope_params ps)))\<rparr>)"
    using overridden_event_eq [OF assms(1-4)] assms(5) by auto
  moreover have "is_finite v"
    using assms(4,5) by (force simp: value_for_def dest: map_of_SomeD)
  ultimately show ?thesis
    using x get_substituted [OF x, of ?ov v dbg] assms(5) inner_after [of ps k dbg ?ov]
    by (auto simp: json_of_f64_def)
qed

lemma edited_integer_unreadable_witness:
  "\<exists>ps'. overridden_event (\<lambda>x. []) [((3, ''segments''), 0)] (event_at 3 (Generic ''sketch_revolve'' revolve_params)) =
       Some (event_at 3 (Generic ''sketch_revolve'' ps')) \<and>
     Option.bind (json_get (envelope_params ps') ''segments'') as_f64 = Some 0 \<and>
     Option.bind (json_get (envelope_params ps') ''segments'') as_u64 = None"
  using edited_integer_unreadable [of "event_at 3 (Generic ''sketch_revolve'' revolve_params)" "''sketch_revolve''"
      revolve_params "[((3, ''segments''), 0)]" "''segments''" 0 24 "\<lambda>x. []"]
  by (simp add: event_at_def value_for_def revolve_params_def envelope_params_def)

section \<open>Appended edits\<close>

lemma insort_last: "\<forall>y \<in> set (x # ys). f y \<le> f z \<Longrightarrow> insort_key f x (ys @ [z]) = insort_key f x ys @ [z]"
  by (induction ys) auto

lemma sort_key_append_last:
  assumes "\<forall>y \<in> set xs. f y \<le> f z"
  shows "sort_key f (xs @ [z]) = sort_key f xs @ [z]"
proof -
  have "foldr (insort_key f) xs (ys @ [z]) = foldr (insort_key f) xs ys @ [z]"
    if "\<forall>y \<in> set xs \<union> set ys. f y \<le> f z" for ys
    using that assms
  proof (induction xs)
    case (Cons x xs)
    have "set (foldr (insort_key f) xs ys) = set xs \<union> set ys"
      by (induction xs) (auto simp: set_insort_key)
    with Cons show ?case by (simp add: insort_last)
  qed simp
  from this [of "[]"] show ?thesis using assms by (simp add: sort_key_def)
qed

lemma map_filter_append [simp]: "List.map_filter f (xs @ ys) = List.map_filter f xs @ List.map_filter f ys"
  by (simp add: List.map_filter_def)

lemma map_filter_single [simp]: "List.map_filter f [x] = (case f x of None \<Rightarrow> [] | Some y \<Rightarrow> [y])"
  by (simp add: List.map_filter_def split: option.splits)

lemma mould_own_sequence: "mould_of e = Some m \<Longrightarrow> fst m = sequence_number e"
  by (cases "te_operation e") (auto simp: mould_of_def split: if_splits)

lemma mould_sequence: "m \<in> set (List.map_filter mould_of es) \<Longrightarrow> fst m \<in> sequence_number ` set es"
  using mould_own_sequence by (fastforce simp: List.map_filter_def)

lemma mould_no_binding:
  "te_operation e = mould_operation fmt s tid p v \<Longrightarrow> binding_of e = None"
  by (simp add: binding_of_def mould_operation_def MOULD_COMMAND_def NAME_COMMAND_def)

lemma mould_read:
  assumes "te_operation e = mould_operation fmt s tid p v"
  shows "mould_of e = (if is_finite v
     then Some (sequence_number e, \<lparr>pm_target_sequence = Some s, pm_parameter = Some p, pm_name = None, pm_value = v\<rparr>)
     else None)"
  by (simp add: assms mould_of_def mould_operation_def parse_mould_def envelope_params_def json_of_f64_def)

lemma value_for_update:
  "value_for (AList.update (s, p) v os) s' p' = (if (s', p') = (s, p) then Some v else value_for os s' p')"
  by (simp add: value_for_def update_conv')

text \<open>C31. An edit appended to the log with a later sequence number than every event before it sets exactly
  the parameter of the event it targets, whatever edits and names the log holds; an edit whose value
  is not a finite number has no effect.\<close>

theorem appended_edit_sets_target:
  assumes "te_operation e = mould_operation fmt target tid p v"
    and "\<forall>e' \<in> set log. sequence_number e' < sequence_number e"
  shows "value_for (collect_overrides (log @ [e])) s q =
     (if is_finite v \<and> s = target \<and> q = p then Some v else value_for (collect_overrides log) s q)"
proof -
  let ?names = "collect_names log"
  have names: "collect_names (log @ [e]) = ?names"
    using mould_no_binding [OF assms(1)] by (simp add: collect_names_def)
  show ?thesis
  proof (cases "is_finite v")
    case True
    let ?m = "(sequence_number e, \<lparr>pm_target_sequence = Some target, pm_parameter = Some p, pm_name = None, pm_value = v\<rparr>)"
    have "\<forall>m \<in> set (List.map_filter mould_of log). fst m \<le> fst ?m"
      using assms(2) mould_sequence by fastforce
    then have "sort_key fst (List.map_filter mould_of (log @ [e])) = sort_key fst (List.map_filter mould_of log) @ [?m]"
      using mould_read [OF assms(1)] True by (simp add: sort_key_append_last)
    then show ?thesis
      using True names by (simp add: collect_overrides_def add_override_def value_for_update)
  next
    case False
    then show ?thesis using names mould_read [OF assms(1)] by (simp add: collect_overrides_def)
  qed
qed

lemma appended_edit_sets_target_witness:
  "value_for (collect_overrides ([event_at 3 (mould_operation (\<lambda>u. []) 1 None ''width'' 5)] @
      [event_at 4 (mould_operation (\<lambda>u. []) 1 None ''width'' 0)])) 1 ''width'' = Some 0"
  using appended_edit_sets_target [of "event_at 4 (mould_operation (\<lambda>u. []) 1 None ''width'' 0)" "\<lambda>u. []" 1 None "''width''" 0
      "[event_at 3 (mould_operation (\<lambda>u. []) 1 None ''width'' 5)]" 1 "''width''"]
  by (simp add: event_at_def)

end
