(* ===== verification/Assembly_Doc.thy ===== *)
theory Assembly_Doc
  imports Mould Kernel_Ref
begin

text \<open>
  Positioned-instance assemblies: the document of
  \<^verbatim>\<open>geometry-engine/src/assembly/instancing.rs\<close> with the connectors and mates of
  \<^verbatim>\<open>assembly/mates.rs\<close>, and how replay rebuilds it (\<^verbatim>\<open>dispatch_assembly\<close> of
  \<^verbatim>\<open>timeline-engine/src/replay.rs\<close>).

  A \<^verbatim>\<open>Matrix4\<close> is its rows. The derived JSON of connectors, mates and mate kinds is a parameter
  (\<open>doc_serde\<close>), with the text of a \<^verbatim>\<open>Uuid\<close>; JSON that the code builds or takes apart itself is
  modelled. \<open>ser_connector\<close> may fail: \<^verbatim>\<open>serde_json\<close> refuses a \<^verbatim>\<open>u128\<close> beyond 64 bits unless it is
  built with arbitrary precision, and \<^verbatim>\<open>json!\<close> panics on a refusal.
\<close>

section \<open>The document\<close>

datatype instance_id = InstanceId uuid
datatype connector_id = MateConnectorId uuid
datatype mate_id = DocMateId uuid

type_synonym matrix4 = "f64 list list"
type_synonym vec3 = "f64 list"
type_synonym rgb = "nat \<times> nat \<times> nat"

record doc_instance =
  in_id :: instance_id
  in_part_id :: uuid
  in_transform :: matrix4
  in_name :: "string option"
  in_color :: "rgb option"

record connector_frame =
  cf_origin :: vec3
  cf_z_axis :: vec3
  cf_x_axis :: vec3

datatype connector_anchor =
    FacePid nat
  | Label string
  | Fingerprint vec3 "vec3 option" "f64 option" "f64 option"
  | RawFrame

datatype anchor_provenance = Prov_Pid | Prov_Label | Prov_Fingerprint | Prov_Raw

fun provenance :: "connector_anchor \<Rightarrow> anchor_provenance" where
  "provenance (FacePid pid) = Prov_Pid"
| "provenance (Label name) = Prov_Label"
| "provenance (Fingerprint p n r s) = Prov_Fingerprint"
| "provenance RawFrame = Prov_Raw"

record mate_connector =
  mc_id :: connector_id
  mc_instance :: instance_id
  mc_anchor :: connector_anchor
  mc_frame :: connector_frame
  mc_radius :: "f64 option"

type_synonym limits = "(f64 \<times> f64) option"

datatype doc_mate_kind =
    Fastened | Revolute limits | Slider limits | Cylindrical limits limits | Planar | Ball
  | PinSlot bool limits | Distance f64 | Angle f64 | Parallel | Tangent
  | GearRatio f64 | RackPinion f64 | Screw f64
  | Cam | Path | Symmetric

record doc_mate =
  dm_id :: mate_id
  dm_kind :: doc_mate_kind
  dm_a :: connector_id
  dm_b :: connector_id
  dm_couples :: "mate_id list"
  dm_at :: "f64 list"

record instanced_assembly =
  ia_id :: uuid
  ia_name :: string
  ia_instances :: "doc_instance list"
  ia_connectors :: "mate_connector list"
  ia_mates :: "doc_mate list"

definition new_assembly :: "uuid \<Rightarrow> string \<Rightarrow> instanced_assembly" where
  "new_assembly i name = \<lparr>ia_id = i, ia_name = name, ia_instances = [], ia_connectors = [], ia_mates = []\<rparr>"

section \<open>Its operations\<close>

text \<open>\<open>update_first\<close> is \<^verbatim>\<open>iter_mut().find(..)\<close> with an assignment to what was found.\<close>

fun update_first :: "('a \<Rightarrow> bool) \<Rightarrow> ('a \<Rightarrow> 'a) \<Rightarrow> 'a list \<Rightarrow> 'a list" where
  "update_first P f [] = []"
| "update_first P f (x # xs) = (if P x then f x # xs else x # update_first P f xs)"

definition instance_of :: "instance_id \<Rightarrow> instanced_assembly \<Rightarrow> doc_instance option" where
  "instance_of i d = find (\<lambda>x. in_id x = i) (ia_instances d)"

definition connector_of :: "connector_id \<Rightarrow> instanced_assembly \<Rightarrow> mate_connector option" where
  "connector_of c d = find (\<lambda>x. mc_id x = c) (ia_connectors d)"

definition mate_of :: "mate_id \<Rightarrow> instanced_assembly \<Rightarrow> doc_mate option" where
  "mate_of m d = find (\<lambda>x. dm_id x = m) (ia_mates d)"

definition unique_part_count :: "instanced_assembly \<Rightarrow> nat" where
  "unique_part_count d = length (remdups (map in_part_id (ia_instances d)))"

definition push_instance :: "doc_instance \<Rightarrow> instanced_assembly \<Rightarrow> instanced_assembly" where
  "push_instance x d = d\<lparr>ia_instances := ia_instances d @ [x]\<rparr>"

text \<open>\<open>fresh\<close> is the identifier \<^verbatim>\<open>InstanceId::new\<close> draws.\<close>

definition add_instance ::
  "uuid \<Rightarrow> uuid \<Rightarrow> matrix4 \<Rightarrow> string option \<Rightarrow> instanced_assembly \<Rightarrow> instance_id \<times> instanced_assembly" where
  "add_instance fresh part transform name d =
     (InstanceId fresh,
      push_instance \<lparr>in_id = InstanceId fresh, in_part_id = part, in_transform = transform,
        in_name = name, in_color = None\<rparr> d)"

definition add_instance_with_id ::
  "instance_id \<Rightarrow> uuid \<Rightarrow> matrix4 \<Rightarrow> string option \<Rightarrow> instanced_assembly \<Rightarrow> bool \<times> instanced_assembly" where
  "add_instance_with_id i part transform name d =
     (if list_ex (\<lambda>x. in_id x = i) (ia_instances d) then (False, d)
      else (True, push_instance \<lparr>in_id = i, in_part_id = part, in_transform = transform,
              in_name = name, in_color = None\<rparr> d))"

definition transform_instance :: "instance_id \<Rightarrow> matrix4 \<Rightarrow> instanced_assembly \<Rightarrow> bool \<times> instanced_assembly" where
  "transform_instance i m d =
     (instance_of i d \<noteq> None,
      d\<lparr>ia_instances := update_first (\<lambda>x. in_id x = i) (\<lambda>x. x\<lparr>in_transform := m\<rparr>) (ia_instances d)\<rparr>)"

definition set_instance_color :: "instance_id \<Rightarrow> rgb option \<Rightarrow> instanced_assembly \<Rightarrow> bool \<times> instanced_assembly" where
  "set_instance_color i c d =
     (instance_of i d \<noteq> None,
      d\<lparr>ia_instances := update_first (\<lambda>x. in_id x = i) (\<lambda>x. x\<lparr>in_color := c\<rparr>) (ia_instances d)\<rparr>)"

definition drop_connectors_of :: "instance_id \<Rightarrow> instanced_assembly \<Rightarrow> instanced_assembly" where
  "drop_connectors_of i d =
     (let dropped = map mc_id (filter (\<lambda>c. mc_instance c = i) (ia_connectors d))
      in if dropped = [] then d
         else d\<lparr>ia_connectors := filter (\<lambda>c. mc_instance c \<noteq> i) (ia_connectors d),
                ia_mates := filter (\<lambda>m. dm_a m \<notin> set dropped \<and> dm_b m \<notin> set dropped) (ia_mates d)\<rparr>)"

definition remove_instance :: "instance_id \<Rightarrow> instanced_assembly \<Rightarrow> bool \<times> instanced_assembly" where
  "remove_instance i d =
     (let kept = filter (\<lambda>x. in_id x \<noteq> i) (ia_instances d);
          removed = length kept \<noteq> length (ia_instances d);
          d' = d\<lparr>ia_instances := kept\<rparr>
      in (removed, if removed then drop_connectors_of i d' else d'))"

definition add_connector :: "mate_connector \<Rightarrow> instanced_assembly \<Rightarrow> bool \<times> instanced_assembly" where
  "add_connector c d =
     (if list_ex (\<lambda>x. mc_id x = mc_id c) (ia_connectors d) then (False, d)
      else if \<not> list_ex (\<lambda>x. in_id x = mc_instance c) (ia_instances d) then (False, d)
      else (True, d\<lparr>ia_connectors := ia_connectors d @ [c]\<rparr>))"

definition set_connector_frame ::
  "connector_id \<Rightarrow> connector_frame \<Rightarrow> f64 option \<Rightarrow> instanced_assembly \<Rightarrow> bool \<times> instanced_assembly" where
  "set_connector_frame c f r d =
     (connector_of c d \<noteq> None,
      d\<lparr>ia_connectors :=
          update_first (\<lambda>x. mc_id x = c) (\<lambda>x. x\<lparr>mc_frame := f, mc_radius := r\<rparr>) (ia_connectors d)\<rparr>)"

definition remove_connector :: "connector_id \<Rightarrow> instanced_assembly \<Rightarrow> bool \<times> instanced_assembly" where
  "remove_connector c d =
     (if \<not> list_ex (\<lambda>x. mc_id x = c) (ia_connectors d) then (False, d)
      else if list_ex (\<lambda>m. dm_a m = c \<or> dm_b m = c) (ia_mates d) then (False, d)
      else (True, d\<lparr>ia_connectors := filter (\<lambda>x. mc_id x \<noteq> c) (ia_connectors d)\<rparr>))"

definition add_mate :: "doc_mate \<Rightarrow> instanced_assembly \<Rightarrow> bool \<times> instanced_assembly" where
  "add_mate m d =
     (if list_ex (\<lambda>x. dm_id x = dm_id m) (ia_mates d) then (False, d)
      else case (connector_of (dm_a m) d, connector_of (dm_b m) d) of
        (Some ca, Some cb) \<Rightarrow>
          (if mc_instance ca = mc_instance cb then (False, d)
           else if \<not> list_all (\<lambda>c. list_ex (\<lambda>x. dm_id x = c) (ia_mates d)) (dm_couples m) then (False, d)
           else (True, d\<lparr>ia_mates := ia_mates d @ [m]\<rparr>))
      | _ \<Rightarrow> (False, d))"

definition set_mate_kind :: "mate_id \<Rightarrow> doc_mate_kind \<Rightarrow> instanced_assembly \<Rightarrow> bool \<times> instanced_assembly" where
  "set_mate_kind m k d =
     (mate_of m d \<noteq> None,
      d\<lparr>ia_mates := update_first (\<lambda>x. dm_id x = m) (\<lambda>x. x\<lparr>dm_kind := k\<rparr>) (ia_mates d)\<rparr>)"

definition remove_mate :: "mate_id \<Rightarrow> instanced_assembly \<Rightarrow> bool \<times> instanced_assembly" where
  "remove_mate m d =
     (if \<not> list_ex (\<lambda>x. dm_id x = m) (ia_mates d) then (False, d)
      else if list_ex (\<lambda>x. m \<in> set (dm_couples x)) (ia_mates d) then (False, d)
      else (True, d\<lparr>ia_mates := filter (\<lambda>x. dm_id x \<noteq> m) (ia_mates d)\<rparr>))"

end
