(* ===== verification/Event_Certificate.thy ===== *)
theory Event_Certificate
  imports F64
begin

text \<open>
  The proof an event carries: \<^verbatim>\<open>timeline-engine/src/event_certificate.rs\<close>, with the verdict of the kernel it
  projects (\<^verbatim>\<open>ValidityCertificate\<close> of \<^verbatim>\<open>geometry-engine/src/primitives/provenance.rs\<close>) and the form in
  which it travels on a record (\<^verbatim>\<open>RecordedSolidCertificate\<close> of \<^verbatim>\<open>operations/recorder.rs\<close>).

  Of the two measures of mesh quality only the verdict \<^verbatim>\<open>clean\<close> is kept. The derived JSON of a certificate
  is a parameter where it is stored.
\<close>

section \<open>The verdict of the kernel\<close>

datatype consistency = Consistent | Inconsistent | NotApplicable

fun consistency_sound :: "consistency \<Rightarrow> bool" where
  "consistency_sound Inconsistent = False"
| "consistency_sound _ = True"

datatype shell_role = Role_Outer | Role_Void | Role_Peer

record misoriented_shell =
  ms_shell_id :: "32 word"
  ms_role :: shell_role
  ms_signed_volume :: f64

record validity_certificate =
  vc_brep_valid :: bool
  vc_watertight :: bool
  vc_manifold :: bool
  vc_euler_characteristic :: int
  vc_boundary_edges :: nat
  vc_nonmanifold_edges :: nat
  vc_oriented :: bool
  vc_inconsistent_directed_edges :: nat
  vc_shells_outward :: bool
  vc_misoriented_shells :: "misoriented_shell list"
  vc_self_intersection_free :: bool
  vc_construction_consistent :: consistency
  vc_labels_consistent :: consistency
  vc_eyes_consistent :: consistency
  vc_tessellation_clean :: bool
  vc_mesh_quality_clean :: bool
  vc_errors :: "string list"
  vc_model_debris_orphan_faces :: nat
  vc_peer_count :: nat

definition is_sound :: "validity_certificate \<Rightarrow> bool" where
  "is_sound c \<longleftrightarrow>
     vc_brep_valid c \<and> vc_watertight c \<and> vc_manifold c \<and> vc_oriented c \<and> vc_shells_outward c \<and>
     vc_self_intersection_free c \<and> consistency_sound (vc_construction_consistent c) \<and>
     consistency_sound (vc_eyes_consistent c) \<and> vc_tessellation_clean c \<and> vc_mesh_quality_clean c"

section \<open>On a record\<close>

record recorded_certificate =
  rs_is_sound :: bool
  rs_euler_characteristic :: int
  rs_brep_valid :: bool
  rs_watertight :: bool
  rs_manifold :: bool
  rs_oriented :: bool
  rs_shells_outward :: "bool option"
  rs_self_intersection_free :: bool
  rs_volume :: "f64 option"
  rs_face_count :: "nat option"
  rs_peer_count :: nat

definition from_validity :: "validity_certificate \<Rightarrow> f64 option \<Rightarrow> nat option \<Rightarrow> recorded_certificate" where
  "from_validity c volume face_count =
     \<lparr>rs_is_sound = is_sound c, rs_euler_characteristic = vc_euler_characteristic c,
      rs_brep_valid = vc_brep_valid c, rs_watertight = vc_watertight c, rs_manifold = vc_manifold c,
      rs_oriented = vc_oriented c, rs_shells_outward = Some (vc_shells_outward c),
      rs_self_intersection_free = vc_self_intersection_free c, rs_volume = volume,
      rs_face_count = face_count, rs_peer_count = vc_peer_count c\<rparr>"

section \<open>On an event\<close>

record solid_cert_checks =
  ch_brep_valid :: bool
  ch_watertight :: bool
  ch_manifold :: bool
  ch_oriented :: bool
  ch_shells_outward :: "bool option"
  ch_self_intersection_free :: bool

datatype constrainedness = WellConstrained | UnderConstrained nat | OverConstrained nat

type_synonym conflict_witness = "string list"

record event_certificate =
  ec_is_sound :: "bool option"
  ec_euler_characteristic :: "int option"
  ec_volume :: "f64 option"
  ec_face_count :: "nat option"
  ec_checks :: "solid_cert_checks option"
  ec_dof :: "nat option"
  ec_constrainedness :: "constrainedness option"
  ec_conflict :: "conflict_witness option"
  ec_mates_satisfied :: "(nat \<times> nat) option"
  ec_skipped :: bool

definition empty_certificate :: event_certificate where
  "empty_certificate =
     \<lparr>ec_is_sound = None, ec_euler_characteristic = None, ec_volume = None, ec_face_count = None,
      ec_checks = None, ec_dof = None, ec_constrainedness = None, ec_conflict = None,
      ec_mates_satisfied = None, ec_skipped = False\<rparr>"

definition from_solid_certificate :: "validity_certificate \<Rightarrow> f64 option \<Rightarrow> nat option \<Rightarrow> event_certificate" where
  "from_solid_certificate c volume face_count =
     empty_certificate
       \<lparr>ec_is_sound := Some (is_sound c), ec_euler_characteristic := Some (vc_euler_characteristic c),
        ec_volume := volume, ec_face_count := face_count,
        ec_checks := Some \<lparr>ch_brep_valid = vc_brep_valid c, ch_watertight = vc_watertight c,
          ch_manifold = vc_manifold c, ch_oriented = vc_oriented c,
          ch_shells_outward = Some (vc_shells_outward c),
          ch_self_intersection_free = vc_self_intersection_free c\<rparr>\<rparr>"

definition from_recorded_solid :: "recorded_certificate \<Rightarrow> event_certificate" where
  "from_recorded_solid r =
     empty_certificate
       \<lparr>ec_is_sound := Some (rs_is_sound r), ec_euler_characteristic := Some (rs_euler_characteristic r),
        ec_volume := rs_volume r, ec_face_count := rs_face_count r,
        ec_checks := Some \<lparr>ch_brep_valid = rs_brep_valid r, ch_watertight = rs_watertight r,
          ch_manifold = rs_manifold r, ch_oriented = rs_oriented r,
          ch_shells_outward = rs_shells_outward r,
          ch_self_intersection_free = rs_self_intersection_free r\<rparr>\<rparr>"

definition skipped_solid :: "f64 option \<Rightarrow> nat option \<Rightarrow> event_certificate" where
  "skipped_solid volume face_count =
     empty_certificate\<lparr>ec_volume := volume, ec_face_count := face_count, ec_skipped := True\<rparr>"

definition for_sketch :: "nat \<Rightarrow> constrainedness \<Rightarrow> conflict_witness option \<Rightarrow> event_certificate" where
  "for_sketch dof c conflict =
     empty_certificate\<lparr>ec_dof := Some dof, ec_constrainedness := Some c, ec_conflict := conflict\<rparr>"

definition for_assembly :: "nat \<times> nat \<Rightarrow> nat option \<Rightarrow> conflict_witness option \<Rightarrow> event_certificate" where
  "for_assembly mates dof conflict =
     empty_certificate\<lparr>ec_mates_satisfied := Some mates, ec_dof := dof, ec_conflict := conflict\<rparr>"

text \<open>The way over the record is the direct way.\<close>

lemma recorded_is_direct [simp]:
  "from_recorded_solid (from_validity c volume face_count) = from_solid_certificate c volume face_count"
  by (simp add: from_recorded_solid_def from_validity_def from_solid_certificate_def)

end
