(* ===== verification/Assembly_Replay.thy ===== *)
theory Assembly_Replay
  imports Assembly_Doc Event_Certificate
begin

text \<open>
  Assembly events: the payloads the server records (\<^verbatim>\<open>api-server/src/assembly_instances.rs\<close>,
  \<^verbatim>\<open>assembly_mates.rs\<close>) and \<^verbatim>\<open>dispatch_assembly\<close> of \<^verbatim>\<open>timeline-engine/src/replay.rs\<close>, which
  re-executes them on the documents of an \<^verbatim>\<open>AssemblyStore\<close>.
\<close>

section \<open>Replay errors\<close>

text \<open>The reasons of \<^verbatim>\<open>InvalidParameters\<close>, one constructor per \<^verbatim>\<open>format!\<close> of this file; \<open>Reason\<close>
  carries the text of any other.\<close>

datatype replay_reason =
    Missing_invalid string
  | Not_a_matrix string
  | Payload string
  | Duplicate_instance uuid
  | Unknown_instance uuid
  | Connector_refused
  | Connector_in_use uuid
  | Mate_refused
  | Mate_unknown uuid
  | Mate_in_use uuid
  | Reason string

datatype replay_error =
    UnknownKind string
  | InvalidParameters string replay_reason
  | KernelError string string
  | DanglingReference string string
  | NonGeometryStale string

definition fallback_error :: "string \<Rightarrow> replay_error" where
  "fallback_error kind = (if CHR ''.'' \<in> set kind then NonGeometryStale kind else UnknownKind kind)"

section \<open>JSON of the payloads\<close>

record doc_serde =
  sd_fmt :: "uuid \<Rightarrow> string"
  sd_parse :: "string \<Rightarrow> uuid option"
  ser_connector :: "mate_connector \<Rightarrow> json option"
  de_connector :: "json \<Rightarrow> mate_connector option"
  ser_mate :: "doc_mate \<Rightarrow> json"
  de_mate :: "json \<Rightarrow> doc_mate option"
  ser_kind :: "doc_mate_kind \<Rightarrow> json"
  de_kind :: "json \<Rightarrow> doc_mate_kind option"

definition ser_uuid :: "doc_serde \<Rightarrow> uuid \<Rightarrow> json" where
  "ser_uuid sd u = Json_String (sd_fmt sd u)"

definition ser_matrix :: "matrix4 \<Rightarrow> json" where
  "ser_matrix m = Json_Array (map (\<lambda>row. Json_Array (map json_of_f64 row)) m)"

text \<open>An array of fixed length reads exactly that many values.\<close>

fun option_list :: "'a option list \<Rightarrow> 'a list option" where
  "option_list [] = Some []"
| "option_list (x # xs) = (case (x, option_list xs) of (Some y, Some ys) \<Rightarrow> Some (y # ys) | _ \<Rightarrow> None)"

definition de_array :: "nat \<Rightarrow> (json \<Rightarrow> 'a option) \<Rightarrow> json \<Rightarrow> 'a list option" where
  "de_array n f v =
     (case as_array v of
        Some vs \<Rightarrow> (if length vs = n then option_list (map f vs) else None)
      | None \<Rightarrow> None)"

definition de_matrix :: "json \<Rightarrow> matrix4 option" where
  "de_matrix = de_array 4 (de_array 4 as_f64)"

definition ser_option :: "('a \<Rightarrow> json) \<Rightarrow> 'a option \<Rightarrow> json" where
  "ser_option f x = (case x of None \<Rightarrow> Json_Null | Some y \<Rightarrow> f y)"

definition ser_rgb :: "rgb \<Rightarrow> json" where
  "ser_rgb c = (case c of (r, g, b) \<Rightarrow>
     Json_Array [Json_Number (PosInt r), Json_Number (PosInt g), Json_Number (PosInt b)])"

definition as_u8 :: "json \<Rightarrow> nat option" where
  "as_u8 v = (case as_u64 v of Some n \<Rightarrow> (if n < 256 then Some n else None) | None \<Rightarrow> None)"

definition de_rgb :: "json \<Rightarrow> rgb option" where
  "de_rgb v = (case de_array 3 as_u8 v of Some [r, g, b] \<Rightarrow> Some (r, g, b) | _ \<Rightarrow> None)"

section \<open>Recorded operations\<close>

text \<open>The solid certificate and the reserved sequence number of a record stay out of the payload that is
  replayed, and no record of an assembly has them.\<close>

record recorded_operation =
  ro_kind :: string
  ro_parameters :: json
  ro_inputs :: "string list"
  ro_outputs :: "string list"
  ro_deleted :: "string list"
  ro_facets :: "(string \<times> json) list"
  ro_certificate :: "recorded_certificate option"
  ro_reserved :: "nat option"

definition assembly_ref :: "doc_serde \<Rightarrow> uuid \<Rightarrow> string" where
  "assembly_ref sd u = ''assembly:'' @ sd_fmt sd u"

definition new_operation :: "string \<Rightarrow> recorded_operation" where
  "new_operation kind =
     \<lparr>ro_kind = kind, ro_parameters = Json_Null, ro_inputs = [], ro_outputs = [], ro_deleted = [], ro_facets = [],
      ro_certificate = None, ro_reserved = None\<rparr>"

definition op_create :: "doc_serde \<Rightarrow> uuid \<Rightarrow> string \<Rightarrow> recorded_operation" where
  "op_create sd i name =
     (new_operation ''assembly.create'')
       \<lparr>ro_parameters := Json_Object [(''name'', Json_String name), (''assembly_id'', ser_uuid sd i)],
        ro_outputs := [assembly_ref sd i]\<rparr>"

text \<open>Every other event names the assembly among its inputs, in its parameters and in its kind.\<close>

definition op_on :: "doc_serde \<Rightarrow> string \<Rightarrow> uuid \<Rightarrow> (string \<times> json) list \<Rightarrow> recorded_operation" where
  "op_on sd kind i ps =
     (new_operation kind)
       \<lparr>ro_parameters := Json_Object ((''assembly_id'', ser_uuid sd i) # ps),
        ro_inputs := [assembly_ref sd i]\<rparr>"

definition op_delete :: "doc_serde \<Rightarrow> uuid \<Rightarrow> recorded_operation" where
  "op_delete sd i = op_on sd ''assembly.delete'' i []"

fun instance_uuid :: "instance_id \<Rightarrow> uuid" where
  "instance_uuid (InstanceId u) = u"

definition op_add_instance :: "doc_serde \<Rightarrow> uuid \<Rightarrow> doc_instance \<Rightarrow> recorded_operation" where
  "op_add_instance sd i x = op_on sd ''assembly.add_instance'' i
     [(''instance_id'', ser_uuid sd (instance_uuid (in_id x))),
      (''part_id'', ser_uuid sd (in_part_id x)),
      (''transform'', ser_matrix (in_transform x)),
      (''name'', ser_option Json_String (in_name x)),
      (''color'', ser_option ser_rgb (in_color x))]"

definition op_transform_instance :: "doc_serde \<Rightarrow> uuid \<Rightarrow> uuid \<Rightarrow> matrix4 \<Rightarrow> recorded_operation" where
  "op_transform_instance sd i x m = op_on sd ''assembly.transform_instance'' i
     [(''instance_id'', ser_uuid sd x), (''transform'', ser_matrix m)]"

definition op_remove_instance :: "doc_serde \<Rightarrow> uuid \<Rightarrow> uuid \<Rightarrow> recorded_operation" where
  "op_remove_instance sd i x = op_on sd ''assembly.remove_instance'' i [(''instance_id'', ser_uuid sd x)]"

text \<open>\<open>None\<close>: the payload cannot be built and the handler panics.\<close>

definition op_connector_add :: "doc_serde \<Rightarrow> uuid \<Rightarrow> mate_connector \<Rightarrow> recorded_operation option" where
  "op_connector_add sd i c =
     (case ser_connector sd c of
        None \<Rightarrow> None
      | Some v \<Rightarrow> Some (op_on sd ''assembly.connector_add'' i [(''connector'', v)]))"

definition op_connector_remove :: "doc_serde \<Rightarrow> uuid \<Rightarrow> uuid \<Rightarrow> recorded_operation" where
  "op_connector_remove sd i c = op_on sd ''assembly.connector_remove'' i [(''connector_id'', ser_uuid sd c)]"

definition op_mate_add :: "doc_serde \<Rightarrow> uuid \<Rightarrow> doc_mate \<Rightarrow> recorded_operation" where
  "op_mate_add sd i m = op_on sd ''assembly.mate_add'' i [(''mate'', ser_mate sd m)]"

definition op_mate_edit :: "doc_serde \<Rightarrow> uuid \<Rightarrow> uuid \<Rightarrow> doc_mate_kind \<Rightarrow> recorded_operation" where
  "op_mate_edit sd i m k = op_on sd ''assembly.mate_edit'' i
     [(''mate_id'', ser_uuid sd m), (''kind'', ser_kind sd k)]"

definition op_mate_remove :: "doc_serde \<Rightarrow> uuid \<Rightarrow> uuid \<Rightarrow> recorded_operation" where
  "op_mate_remove sd i m = op_on sd ''assembly.mate_remove'' i [(''mate_id'', ser_uuid sd m)]"

type_synonym pose_out = "uuid \<times> matrix4"

definition op_solve :: "doc_serde \<Rightarrow> uuid \<Rightarrow> pose_out list \<Rightarrow> recorded_operation" where
  "op_solve sd i poses = op_on sd ''assembly.solve'' i
     [(''poses'', Json_Array (map (\<lambda>(x, m).
        Json_Object [(''instance_id'', ser_uuid sd x), (''transform'', ser_matrix m)]) poses))]"

text \<open>The recorder bridge wraps a record into the payload of its event.\<close>

definition record_envelope :: "recorded_operation \<Rightarrow> json" where
  "record_envelope op = Json_Object
     ([(''params'', ro_parameters op),
       (''inputs'', Json_Array (map Json_String (ro_inputs op))),
       (''outputs'', Json_Array (map Json_String (ro_outputs op)))] @
      (if ro_deleted op = [] then [] else [(''deleted'', Json_Array (map Json_String (ro_deleted op)))]) @
      (if ro_facets op = [] then [] else [(''facets'', Json_Object (ro_facets op))]))"

section \<open>Dispatch\<close>

type_synonym assembly_store = "(uuid, instanced_assembly) dmap"

definition and_then :: "('e, 'a) result \<Rightarrow> ('a \<Rightarrow> ('e, 'b) result) \<Rightarrow> ('e, 'b) result" where
  "and_then r f = (case r of Err e \<Rightarrow> Err e | Ok x \<Rightarrow> f x)"

lemma and_then_simps [simp]: "and_then (Ok x) f = f x" "and_then (Err e) f = Err e"
  by (simp_all add: and_then_def)

definition ok_or :: "'e \<Rightarrow> 'a option \<Rightarrow> ('e, 'a) result" where
  "ok_or e x = (case x of None \<Rightarrow> Err e | Some y \<Rightarrow> Ok y)"

lemma ok_or_simps [simp]: "ok_or e (Some x) = Ok x" "ok_or e None = Err e"
  by (simp_all add: ok_or_def)

definition param_uuid :: "doc_serde \<Rightarrow> json \<Rightarrow> string \<Rightarrow> uuid option" where
  "param_uuid sd inner key =
     Option.bind (Option.bind (json_get inner key) as_str) (sd_parse sd)"

definition assembly_of_ref :: "doc_serde \<Rightarrow> json \<Rightarrow> uuid option" where
  "assembly_of_ref sd v =
     (case Option.bind (as_str v) (split_once (CHR '':'')) of
        Some (k, i) \<Rightarrow> (if k = ''assembly'' then sd_parse sd i else None)
      | None \<Rightarrow> None)"

definition ref_uuid :: "doc_serde \<Rightarrow> json \<Rightarrow> string \<Rightarrow> uuid option" where
  "ref_uuid sd ps key =
     (case Option.bind (json_get ps key) as_array of
        None \<Rightarrow> None
      | Some vs \<Rightarrow> (case List.map_filter (assembly_of_ref sd) vs of [] \<Rightarrow> None | u # us \<Rightarrow> Some u))"

definition missing_param :: "string \<Rightarrow> string \<Rightarrow> replay_error" where
  "missing_param kind what = InvalidParameters kind (Missing_invalid what)"

definition need_uuid :: "doc_serde \<Rightarrow> string \<Rightarrow> json \<Rightarrow> string \<Rightarrow> (replay_error, uuid) result" where
  "need_uuid sd kind inner key = ok_or (missing_param kind key) (param_uuid sd inner key)"

definition param_matrix :: "string \<Rightarrow> json \<Rightarrow> string \<Rightarrow> (replay_error, matrix4) result" where
  "param_matrix kind inner key =
     and_then (ok_or (missing_param kind key) (json_get inner key))
       (\<lambda>raw. ok_or (InvalidParameters kind (Not_a_matrix key)) (de_matrix raw))"

definition read_payload ::
  "string \<Rightarrow> (json \<Rightarrow> 'a option) \<Rightarrow> json \<Rightarrow> string \<Rightarrow> (replay_error, 'a) result" where
  "read_payload kind de inner key =
     and_then (ok_or (missing_param kind key) (json_get inner key))
       (\<lambda>raw. ok_or (InvalidParameters kind (Payload key)) (de raw))"

text \<open>\<^verbatim>\<open>get_mut\<close> of the document followed by one of its operations, whose refusal is \<open>why\<close>.\<close>

definition unknown_assembly :: string where
  "unknown_assembly = ''assembly_id (unknown assembly)''"

definition on_document ::
  "string \<Rightarrow> uuid \<Rightarrow> replay_reason \<Rightarrow> (instanced_assembly \<Rightarrow> bool \<times> instanced_assembly) \<Rightarrow>
   assembly_store \<Rightarrow> (replay_error, unit) result \<times> assembly_store" where
  "on_document kind aid why f st =
     (case map_of st aid of
        None \<Rightarrow> (Err (missing_param kind unknown_assembly), st)
      | Some doc \<Rightarrow>
          (let (done_it, doc') = f doc
           in (if done_it then Ok () else Err (InvalidParameters kind why), AList.update aid doc' st)))"

text \<open>A step whose parameters fail to read changes nothing.\<close>

definition reading ::
  "(replay_error, 'a) result \<Rightarrow> ('a \<Rightarrow> assembly_store \<Rightarrow> (replay_error, unit) result \<times> assembly_store) \<Rightarrow>
   assembly_store \<Rightarrow> (replay_error, unit) result \<times> assembly_store" where
  "reading r f st = (case r of Err e \<Rightarrow> (Err e, st) | Ok x \<Rightarrow> f x st)"

lemma reading_simps [simp]: "reading (Ok x) f st = f x st" "reading (Err e) f st = (Err e, st)"
  by (simp_all add: reading_def)

definition read_pose :: "doc_serde \<Rightarrow> string \<Rightarrow> json \<Rightarrow> (replay_error, uuid \<times> matrix4) result" where
  "read_pose sd kind pose =
     and_then (ok_or (missing_param kind ''poses[].instance_id'') (param_uuid sd pose ''instance_id''))
       (\<lambda>iid. and_then (ok_or (missing_param kind ''poses[].transform'') (json_get pose ''transform''))
         (\<lambda>raw. and_then (ok_or (InvalidParameters kind (Not_a_matrix ''poses[].transform'')) (de_matrix raw))
           (\<lambda>m. Ok (iid, m))))"

text \<open>The poses of a solve are written one by one; the first that fails ends the loop.\<close>

fun apply_poses ::
  "doc_serde \<Rightarrow> string \<Rightarrow> json list \<Rightarrow> instanced_assembly \<Rightarrow> (replay_error, unit) result \<times> instanced_assembly" where
  "apply_poses sd kind [] doc = (Ok (), doc)"
| "apply_poses sd kind (pose # poses) doc =
     (case read_pose sd kind pose of
        Err e \<Rightarrow> (Err e, doc)
      | Ok (iid, m) \<Rightarrow>
          (let (moved, doc') = transform_instance (InstanceId iid) m doc
           in if moved then apply_poses sd kind poses doc'
              else (Err (InvalidParameters kind (Unknown_instance iid)), doc')))"

definition add_with_color ::
  "instance_id \<Rightarrow> uuid \<Rightarrow> matrix4 \<Rightarrow> string option \<Rightarrow> rgb option \<Rightarrow> instanced_assembly \<Rightarrow> bool \<times> instanced_assembly" where
  "add_with_color i part m name color doc =
     (let (inserted, doc') = add_instance_with_id i part m name doc
      in (inserted,
          if inserted \<and> color \<noteq> None then snd (set_instance_color i color doc') else doc'))"

definition dispatch_add_instance ::
  "doc_serde \<Rightarrow> string \<Rightarrow> json \<Rightarrow> assembly_store \<Rightarrow> (replay_error, unit) result \<times> assembly_store" where
  "dispatch_add_instance sd kind inner =
     reading (need_uuid sd kind inner ''assembly_id'') (\<lambda>aid.
     reading (need_uuid sd kind inner ''instance_id'') (\<lambda>iid.
     reading (need_uuid sd kind inner ''part_id'') (\<lambda>part.
     reading (param_matrix kind inner ''transform'') (\<lambda>m.
       on_document kind aid (Duplicate_instance iid)
         (add_with_color (InstanceId iid) part m (Option.bind (json_get inner ''name'') as_str)
           (Option.bind (json_get inner ''color'') (\<lambda>v. if v = Json_Null then None else de_rgb v)))))))"

definition dispatch_on_instance ::
  "doc_serde \<Rightarrow> string \<Rightarrow> json \<Rightarrow> assembly_store \<Rightarrow> (replay_error, unit) result \<times> assembly_store" where
  "dispatch_on_instance sd kind inner =
     reading (need_uuid sd kind inner ''assembly_id'') (\<lambda>aid.
     reading (need_uuid sd kind inner ''instance_id'') (\<lambda>iid.
       if kind = ''assembly.transform_instance'' then
         reading (param_matrix kind inner ''transform'') (\<lambda>m.
           on_document kind aid (Unknown_instance iid) (transform_instance (InstanceId iid) m))
       else if kind = ''assembly.remove_instance'' then
         on_document kind aid (Unknown_instance iid) (remove_instance (InstanceId iid))
       else
         on_document kind aid (Unknown_instance iid)
           (set_instance_color (InstanceId iid)
             (Option.bind (json_get inner ''color'') (\<lambda>v. if v = Json_Null then None else de_rgb v)))))"

definition dispatch_on_mates ::
  "doc_serde \<Rightarrow> string \<Rightarrow> json \<Rightarrow> assembly_store \<Rightarrow> (replay_error, unit) result \<times> assembly_store" where
  "dispatch_on_mates sd kind inner =
     reading (need_uuid sd kind inner ''assembly_id'') (\<lambda>aid.
       if kind = ''assembly.connector_add'' then
         reading (read_payload kind (de_connector sd) inner ''connector'') (\<lambda>c.
           on_document kind aid Connector_refused (add_connector c))
       else if kind = ''assembly.connector_remove'' then
         reading (need_uuid sd kind inner ''connector_id'') (\<lambda>c.
           on_document kind aid (Connector_in_use c) (remove_connector (MateConnectorId c)))
       else if kind = ''assembly.mate_add'' then
         reading (read_payload kind (de_mate sd) inner ''mate'') (\<lambda>m.
           on_document kind aid Mate_refused (add_mate m))
       else if kind = ''assembly.mate_edit'' then
         reading (need_uuid sd kind inner ''mate_id'') (\<lambda>m.
         reading (read_payload kind (de_kind sd) inner ''kind'') (\<lambda>k.
           on_document kind aid (Mate_unknown m) (set_mate_kind (DocMateId m) k)))
       else
         reading (need_uuid sd kind inner ''mate_id'') (\<lambda>m.
           on_document kind aid (Mate_in_use m) (remove_mate (DocMateId m))))"

definition dispatch_solve ::
  "doc_serde \<Rightarrow> string \<Rightarrow> json \<Rightarrow> assembly_store \<Rightarrow> (replay_error, unit) result \<times> assembly_store" where
  "dispatch_solve sd kind inner =
     reading (need_uuid sd kind inner ''assembly_id'') (\<lambda>aid.
     reading (ok_or (missing_param kind ''poses'') (Option.bind (json_get inner ''poses'') as_array)) (\<lambda>poses st.
       case map_of st aid of
         None \<Rightarrow> (Err (missing_param kind unknown_assembly), st)
       | Some doc \<Rightarrow>
           (let (r, doc') = apply_poses sd kind poses doc in (r, AList.update aid doc' st))))"

definition dispatch_assembly ::
  "doc_serde \<Rightarrow> string \<Rightarrow> json \<Rightarrow> assembly_store \<Rightarrow> (replay_error, unit) result \<times> assembly_store" where
  "dispatch_assembly sd kind ps st =
     (let inner = envelope_params ps
      in if kind = ''assembly.create'' then
           reading (ok_or (missing_param kind ''assembly_id'')
               (case param_uuid sd inner ''assembly_id'' of Some u \<Rightarrow> Some u | None \<Rightarrow> ref_uuid sd ps ''outputs''))
             (\<lambda>i st. (Ok (), AList.update i (new_assembly i
                (case Option.bind (json_get inner ''name'') as_str of Some n \<Rightarrow> n | None \<Rightarrow> ''assembly'')) st)) st
         else if kind = ''assembly.delete'' then
           reading (ok_or (missing_param kind ''assembly_id'')
               (case param_uuid sd inner ''assembly_id'' of Some u \<Rightarrow> Some u | None \<Rightarrow> ref_uuid sd ps ''inputs''))
             (\<lambda>i st. (Ok (), AList.delete i st)) st
         else if kind = ''assembly.add_instance'' then dispatch_add_instance sd kind inner st
         else if kind \<in> {''assembly.transform_instance'', ''assembly.remove_instance'', ''assembly.set_instance_color''}
         then dispatch_on_instance sd kind inner st
         else if kind \<in> {''assembly.connector_add'', ''assembly.connector_remove'', ''assembly.mate_add'',
                         ''assembly.mate_edit'', ''assembly.mate_remove''}
         then dispatch_on_mates sd kind inner st
         else if kind = ''assembly.solve'' then dispatch_solve sd kind inner st
         else (Err (fallback_error kind), st))"

end
