(* ===== verification/Assembly_Api.thy ===== *)
theory Assembly_Api
  imports Assembly_Replay Api_Error
begin

text \<open>
  The assembly routes of the server: \<^verbatim>\<open>api-server/src/assembly_instances.rs\<close> and
  \<^verbatim>\<open>assembly_mates.rs\<close>. A handler changes a document under its lock and records the event that
  lets replay repeat the change.

  Parameters (\<open>kernel\<close>): the geometry and the assembly solver. \<open>ke_rigid\<close> is the test of
  \<^verbatim>\<open>rigid_pose_of\<close>, \<open>ke_live\<close> the frame of an anchored face in the live model, \<open>ke_joint\<close>,
  \<open>ke_solve\<close> and \<open>ke_drag\<close> the solver's joint parameters, solved poses and drag. Texts of errors are
  left out, and so is what an answer reports beyond success; a recorder that is attached accepts.
\<close>

section \<open>The manager\<close>

record assembly_manager =
  am_assemblies :: assembly_store
  am_recorder :: "recorded_operation list option"

definition record_event :: "recorded_operation \<Rightarrow> assembly_manager \<Rightarrow> assembly_manager" where
  "record_event op m = m\<lparr>am_recorder := map_option (\<lambda>log. log @ [op]) (am_recorder m)\<rparr>"

definition clear_assemblies :: "assembly_manager \<Rightarrow> assembly_manager" where
  "clear_assemblies m = m\<lparr>am_assemblies := []\<rparr>"

definition create_in_registry :: "uuid \<Rightarrow> string \<Rightarrow> assembly_manager \<Rightarrow> uuid \<times> assembly_manager" where
  "create_in_registry fresh name m =
     (fresh, m\<lparr>am_assemblies := AList.update fresh (new_assembly fresh name) (am_assemblies m)\<rparr>)"

definition replace_all :: "assembly_store \<Rightarrow> assembly_manager \<Rightarrow> assembly_manager" where
  "replace_all rebuilt m =
     m\<lparr>am_assemblies := fold (\<lambda>(i, doc). AList.update i doc) rebuilt []\<rparr>"

definition get_document :: "uuid \<Rightarrow> assembly_manager \<Rightarrow> instanced_assembly option" where
  "get_document i m = map_of (am_assemblies m) i"

definition put_document :: "uuid \<Rightarrow> instanced_assembly \<Rightarrow> assembly_manager \<Rightarrow> assembly_manager" where
  "put_document i doc m = m\<lparr>am_assemblies := AList.update i doc (am_assemblies m)\<rparr>"

section \<open>The view the solver gets\<close>

datatype engine_mate_kind =
    EK_Coincident | EK_Concentric | EK_Fixed
  | EK_Fastened | EK_Revolute limits | EK_Slider limits | EK_Cylindrical limits limits | EK_Planar | EK_Ball
  | EK_PinSlot bool limits | EK_Distance f64 | EK_Angle f64 | EK_Parallel | EK_Tangent f64
  | EK_GearRatio f64 "f64 \<times> f64" "nat \<times> nat" | EK_RackPinion f64 "f64 \<times> f64" "nat \<times> nat"
  | EK_Screw f64 "f64 \<times> f64" nat
  | EK_Cam | EK_Path | EK_Symmetric

record engine_mate =
  em_kind :: engine_mate_kind
  em_a :: nat
  em_feature_a :: connector_frame
  em_b :: nat
  em_feature_b :: connector_frame

record engine_view =
  ev_poses :: "matrix4 list"
  ev_mates :: "engine_mate list"
  ev_ground :: nat
  ev_instance_ids :: "uuid list"
  ev_stale :: "connector_id list"

record kernel =
  ke_rigid :: "matrix4 \<Rightarrow> bool"
  ke_live :: "connector_anchor \<Rightarrow> (connector_frame \<times> f64 option) option"
  ke_joint :: "engine_view \<Rightarrow> nat \<Rightarrow> (f64 \<times> f64) option"
  ke_solve :: "engine_view \<Rightarrow> (nat \<times> matrix4) list"
  ke_drag :: "engine_view \<Rightarrow> nat \<Rightarrow> (bool \<times> (nat \<times> matrix4) list) option"

definition resolve_connector :: "kernel \<Rightarrow> mate_connector \<Rightarrow> (connector_frame \<times> f64 option) option" where
  "resolve_connector ke c =
     (case mc_anchor c of RawFrame \<Rightarrow> Some (mc_frame c, mc_radius c) | a \<Rightarrow> ke_live ke a)"

fun index_where :: "('a \<Rightarrow> bool) \<Rightarrow> 'a list \<Rightarrow> nat option" where
  "index_where P [] = None"
| "index_where P (x # xs) = (if P x then Some 0 else map_option Suc (index_where P xs))"

definition couple_idx :: "mate_id list \<Rightarrow> (mate_id \<Rightarrow> nat option) \<Rightarrow> nat \<Rightarrow> nat option" where
  "couple_idx couples index_of slot =
     (if slot < length couples then index_of (couples ! slot) else None)"

definition at2 :: "f64 list \<Rightarrow> (f64 \<times> f64) option" where
  "at2 xs = (if 2 \<le> length xs then Some (xs ! 0, xs ! 1) else None)"

definition couple_two :: "mate_id list \<Rightarrow> (mate_id \<Rightarrow> nat option) \<Rightarrow> f64 list \<Rightarrow> ((f64 \<times> f64) \<times> (nat \<times> nat)) option" where
  "couple_two couples index_of xs =
     (case (at2 xs, couple_idx couples index_of 0, couple_idx couples index_of 1) of
        (Some p, Some i, Some j) \<Rightarrow> Some (p, (i, j))
      | _ \<Rightarrow> None)"

fun engine_kind ::
  "doc_mate_kind \<Rightarrow> mate_id list \<Rightarrow> f64 list \<Rightarrow> f64 option \<Rightarrow> f64 option \<Rightarrow> (mate_id \<Rightarrow> nat option) \<Rightarrow>
   (engine_mate_kind \<times> bool) option" where
  "engine_kind Fastened cs xs ra rb idx = Some (EK_Fastened, False)"
| "engine_kind (Revolute l) cs xs ra rb idx = Some (EK_Revolute l, False)"
| "engine_kind (Slider l) cs xs ra rb idx = Some (EK_Slider l, False)"
| "engine_kind (Cylindrical l l') cs xs ra rb idx = Some (EK_Cylindrical l l', False)"
| "engine_kind Planar cs xs ra rb idx = Some (EK_Planar, False)"
| "engine_kind Ball cs xs ra rb idx = Some (EK_Ball, False)"
| "engine_kind (PinSlot x l) cs xs ra rb idx = Some (EK_PinSlot x l, False)"
| "engine_kind (Distance v) cs xs ra rb idx = Some (EK_Distance v, False)"
| "engine_kind (Angle v) cs xs ra rb idx = Some (EK_Angle v, False)"
| "engine_kind Parallel cs xs ra rb idx = Some (EK_Parallel, False)"
| "engine_kind Tangent cs xs ra rb idx =
     (case (ra, rb) of
        (None, Some r) \<Rightarrow> Some (EK_Tangent r, False)
      | (Some r, None) \<Rightarrow> Some (EK_Tangent r, True)
      | _ \<Rightarrow> None)"
| "engine_kind (GearRatio r) cs xs ra rb idx =
     map_option (\<lambda>(p, ij). (EK_GearRatio r p ij, False)) (couple_two cs idx xs)"
| "engine_kind (RackPinion r) cs xs ra rb idx =
     map_option (\<lambda>(p, ij). (EK_RackPinion r p ij, False)) (couple_two cs idx xs)"
| "engine_kind (Screw l) cs xs ra rb idx =
     (case (at2 xs, couple_idx cs idx 0) of
        (Some p, Some i) \<Rightarrow> Some (EK_Screw l p i, False)
      | _ \<Rightarrow> None)"
| "engine_kind Cam cs xs ra rb idx = Some (EK_Cam, False)"
| "engine_kind Path cs xs ra rb idx = Some (EK_Path, False)"
| "engine_kind Symmetric cs xs ra rb idx = Some (EK_Symmetric, False)"

text \<open>The stored frames of the connectors that resolve are refreshed; the others are stale. Connectors
  have distinct identifiers, so a mate finds the frame that was resolved as the stored one.\<close>

definition refresh_frames :: "kernel \<Rightarrow> instanced_assembly \<Rightarrow> instanced_assembly" where
  "refresh_frames ke doc =
     fold (\<lambda>c d. case resolve_connector ke c of
         Some (f, r) \<Rightarrow> snd (set_connector_frame (mc_id c) f r d)
       | None \<Rightarrow> d) (ia_connectors doc) doc"

definition stale_connectors :: "kernel \<Rightarrow> instanced_assembly \<Rightarrow> connector_id list" where
  "stale_connectors ke doc = map mc_id (filter (\<lambda>c. resolve_connector ke c = None) (ia_connectors doc))"

definition engine_mate_of :: "instanced_assembly \<Rightarrow> doc_mate \<Rightarrow> engine_mate option" where
  "engine_mate_of doc m =
     (case (connector_of (dm_a m) doc, connector_of (dm_b m) doc) of
        (Some ca, Some cb) \<Rightarrow>
          (case (index_where (\<lambda>x. in_id x = mc_instance ca) (ia_instances doc),
                 index_where (\<lambda>x. in_id x = mc_instance cb) (ia_instances doc)) of
             (Some ia, Some ib) \<Rightarrow>
               (case engine_kind (dm_kind m) (dm_couples m) (dm_at m) (mc_radius ca) (mc_radius cb)
                       (\<lambda>i. index_where (\<lambda>x. dm_id x = i) (ia_mates doc)) of
                  None \<Rightarrow> None
                | Some (k, swap) \<Rightarrow> Some
                    (if swap
                     then \<lparr>em_kind = k, em_a = ib, em_feature_a = mc_frame cb, em_b = ia, em_feature_b = mc_frame ca\<rparr>
                     else \<lparr>em_kind = k, em_a = ia, em_feature_a = mc_frame ca, em_b = ib, em_feature_b = mc_frame cb\<rparr>))
           | _ \<Rightarrow> None)
      | _ \<Rightarrow> None)"

definition ground_index :: "uuid option \<Rightarrow> instanced_assembly \<Rightarrow> nat option" where
  "ground_index ground doc =
     (case ground of
        None \<Rightarrow> Some 0
      | Some g \<Rightarrow> index_where (\<lambda>x. in_id x = InstanceId g) (ia_instances doc))"

text \<open>\<open>None\<close> is a refused request; the frames may have been refreshed by then.\<close>

definition build_engine_view ::
  "kernel \<Rightarrow> uuid option \<Rightarrow> instanced_assembly \<Rightarrow> engine_view option \<times> instanced_assembly" where
  "build_engine_view ke ground doc =
     (if ia_instances doc = [] then (None, doc)
      else if \<not> list_all (\<lambda>x. ke_rigid ke (in_transform x)) (ia_instances doc) then (None, doc)
      else case ground_index ground doc of
        None \<Rightarrow> (None, doc)
      | Some g \<Rightarrow>
          (let doc' = refresh_frames ke doc
           in (map_option (\<lambda>ms.
                 \<lparr>ev_poses = map in_transform (ia_instances doc'), ev_mates = ms, ev_ground = g,
                  ev_instance_ids = map (instance_uuid \<circ> in_id) (ia_instances doc'),
                  ev_stale = stale_connectors ke doc\<rparr>)
                 (option_list (map (engine_mate_of doc') (ia_mates doc'))), doc')))"

section \<open>Cores\<close>

datatype 'a core_result = Done 'a | Refused error_code

fun expected_couples :: "doc_mate_kind \<Rightarrow> nat" where
  "expected_couples (GearRatio r) = 2"
| "expected_couples (RackPinion r) = 2"
| "expected_couples (Screw l) = 1"
| "expected_couples k = 0"

definition is_coupling :: "doc_mate_kind \<Rightarrow> bool" where
  "is_coupling k \<longleftrightarrow> expected_couples k \<noteq> 0"

text \<open>The joint parameters a coupling starts from.\<close>

fun capture_at :: "doc_mate_kind \<Rightarrow> (mate_id \<Rightarrow> (f64 \<times> f64) option) \<Rightarrow> mate_id list \<Rightarrow> f64 list \<Rightarrow> f64 list option" where
  "capture_at k joint [] xs = Some xs"
| "capture_at k joint (c # cs) xs =
     (case joint c of
        None \<Rightarrow> None
      | Some (theta, s) \<Rightarrow> capture_at k joint cs
          (xs @ (case k of
             GearRatio r \<Rightarrow> [theta]
           | RackPinion r \<Rightarrow> [if xs = [] then theta else s]
           | Screw l \<Rightarrow> [theta, s]
           | _ \<Rightarrow> [])))"

definition reference_parameters ::
  "kernel \<Rightarrow> doc_mate_kind \<Rightarrow> mate_id list \<Rightarrow> instanced_assembly \<Rightarrow> f64 list option \<times> instanced_assembly" where
  "reference_parameters ke k couples doc =
     (if \<not> is_coupling k then (Some [], doc)
      else case build_engine_view ke None doc of
        (None, doc') \<Rightarrow> (None, doc')
      | (Some view, doc') \<Rightarrow>
          (if ev_stale view \<noteq> [] then None
           else capture_at k
             (\<lambda>c. Option.bind (index_where (\<lambda>x. dm_id x = c) (ia_mates doc')) (ke_joint ke view)) couples [],
           doc'))"

definition create_mate_core ::
  "kernel \<Rightarrow> uuid \<Rightarrow> doc_mate_kind \<Rightarrow> uuid \<Rightarrow> uuid \<Rightarrow> uuid list \<Rightarrow> instanced_assembly \<Rightarrow>
   doc_mate core_result \<times> instanced_assembly" where
  "create_mate_core ke fresh k a b couples doc =
     (let cs = map DocMateId couples
      in if length cs \<noteq> expected_couples k then (Refused InvalidParameter, doc)
         else case reference_parameters ke k cs doc of
           (None, doc') \<Rightarrow> (Refused InvalidParameter, doc')
         | (Some xs, doc') \<Rightarrow>
             (let m = \<lparr>dm_id = DocMateId fresh, dm_kind = k, dm_a = MateConnectorId a, dm_b = MateConnectorId b,
                       dm_couples = cs, dm_at = xs\<rparr>
              in case add_mate m doc' of
                   (True, doc'') \<Rightarrow> (Done m, doc'')
                 | (False, doc'') \<Rightarrow> (Refused InvalidParameter, doc'')))"

text \<open>\<open>chosen\<close> is what the geometry makes of the request's face or frame, if it accepts it.\<close>

definition create_connector_core ::
  "uuid \<Rightarrow> uuid \<Rightarrow> (connector_anchor \<times> connector_frame \<times> f64 option) option \<Rightarrow> instanced_assembly \<Rightarrow>
   mate_connector core_result \<times> instanced_assembly" where
  "create_connector_core fresh inst chosen doc =
     (case instance_of (InstanceId inst) doc of
        None \<Rightarrow> (Refused InvalidParameter, doc)
      | Some x \<Rightarrow>
          (case chosen of
             None \<Rightarrow> (Refused InvalidParameter, doc)
           | Some (anchor, frame, radius) \<Rightarrow>
               (let c = \<lparr>mc_id = MateConnectorId fresh, mc_instance = InstanceId inst, mc_anchor = anchor,
                         mc_frame = frame, mc_radius = radius\<rparr>
                in case add_connector c doc of
                     (True, doc') \<Rightarrow> (Done c, doc')
                   | (False, doc') \<Rightarrow> (Refused InvalidParameter, doc'))))"

text \<open>Solved poses are written back in order; an index the document does not have ends the loop.\<close>

fun write_poses ::
  "uuid list \<Rightarrow> (nat \<times> matrix4) list \<Rightarrow> instanced_assembly \<Rightarrow> pose_out list core_result \<times> instanced_assembly" where
  "write_poses ids [] doc = (Done [], doc)"
| "write_poses ids ((i, m) # ps) doc =
     (if i < length ids then
        (case write_poses ids ps (snd (transform_instance (InstanceId (ids ! i)) m doc)) of
           (Done out, doc') \<Rightarrow> (Done ((ids ! i, m) # out), doc')
         | (Refused e, doc') \<Rightarrow> (Refused e, doc'))
      else (Refused InvalidParameter, doc))"

text \<open>\<open>Done None\<close> is an answer that the solve was refused: nothing moved.\<close>

definition solve_core ::
  "kernel \<Rightarrow> uuid option \<Rightarrow> instanced_assembly \<Rightarrow> pose_out list option core_result \<times> instanced_assembly" where
  "solve_core ke ground doc =
     (case build_engine_view ke ground doc of
        (None, doc') \<Rightarrow> (Refused InvalidParameter, doc')
      | (Some view, doc') \<Rightarrow>
          (if ev_stale view \<noteq> [] then (Done None, doc')
           else case write_poses (ev_instance_ids view) (ke_solve ke view) doc' of
             (Done out, doc'') \<Rightarrow> (Done (Some out), doc'')
           | (Refused e, doc'') \<Rightarrow> (Refused e, doc'')))"

definition write_known_poses :: "uuid list \<Rightarrow> (nat \<times> matrix4) list \<Rightarrow> instanced_assembly \<Rightarrow> pose_out list \<times> instanced_assembly" where
  "write_known_poses ids ps doc =
     (let known = filter (\<lambda>(i, m). i < length ids) ps;
          out = map (\<lambda>(i, m). (ids ! i, m)) known
      in (out, fold (\<lambda>(u, m) d. snd (transform_instance (InstanceId u) m d)) out doc))"

definition drag_core ::
  "kernel \<Rightarrow> uuid option \<Rightarrow> uuid \<Rightarrow> instanced_assembly \<Rightarrow> pose_out list option core_result \<times> instanced_assembly" where
  "drag_core ke ground mid doc =
     (case build_engine_view ke ground doc of
        (None, doc') \<Rightarrow> (Refused InvalidParameter, doc')
      | (Some view, doc') \<Rightarrow>
          (if ev_stale view \<noteq> [] then (Done None, doc')
           else case index_where (\<lambda>x. dm_id x = DocMateId mid) (ia_mates doc') of
             None \<Rightarrow> (Done None, doc')
           | Some i \<Rightarrow>
               (case ke_drag ke view i of
                  None \<Rightarrow> (Done None, doc')
                | Some (converged, ps) \<Rightarrow>
                    (if converged then
                       (let (out, doc'') = write_known_poses (ev_instance_ids view) ps doc'
                        in (Done (Some out), doc''))
                     else (Done None, doc')))))"

section \<open>Routes\<close>

text \<open>What a call leaves: success, a refusal, or a panic after the document was changed.\<close>

datatype answer = Success | Failure error_code | Panic

definition is_blank :: "string \<Rightarrow> bool" where
  "is_blank s \<longleftrightarrow> list_all (\<lambda>c. c = CHR '' '' \<or> 9 \<le> (of_char c :: nat) \<and> (of_char c :: nat) \<le> 13) s"

definition create_assembly :: "doc_serde \<Rightarrow> uuid \<Rightarrow> string \<Rightarrow> assembly_manager \<Rightarrow> answer \<times> assembly_manager" where
  "create_assembly sd fresh name m =
     (if is_blank name then (Failure InvalidParameter, m)
      else let (i, m') = create_in_registry fresh name m
           in (Success, record_event (op_create sd i name) m'))"

definition delete_assembly :: "doc_serde \<Rightarrow> uuid \<Rightarrow> assembly_manager \<Rightarrow> answer \<times> assembly_manager" where
  "delete_assembly sd i m =
     (case get_document i m of
        None \<Rightarrow> (Failure SolidNotFound, m)
      | Some doc \<Rightarrow> (Success, record_event (op_delete sd i) (m\<lparr>am_assemblies := AList.delete i (am_assemblies m)\<rparr>)))"

text \<open>A route that works on a document: its operation, the error of its refusal and its event.\<close>

definition document_route ::
  "uuid \<Rightarrow> error_code \<Rightarrow> (instanced_assembly \<Rightarrow> bool \<times> instanced_assembly) \<Rightarrow> recorded_operation \<Rightarrow>
   assembly_manager \<Rightarrow> answer \<times> assembly_manager" where
  "document_route i e f op m =
     (case get_document i m of
        None \<Rightarrow> (Failure SolidNotFound, m)
      | Some doc \<Rightarrow>
          (case f doc of
             (True, doc') \<Rightarrow> (Success, record_event op (put_document i doc' m))
           | (False, doc') \<Rightarrow> (Failure e, put_document i doc' m)))"

definition add_instance_route ::
  "doc_serde \<Rightarrow> uuid \<Rightarrow> uuid \<Rightarrow> bool \<Rightarrow> uuid \<Rightarrow> matrix4 \<Rightarrow> string option \<Rightarrow> rgb option \<Rightarrow>
   assembly_manager \<Rightarrow> answer \<times> assembly_manager" where
  "add_instance_route sd i fresh part_known part transform name color m =
     (if \<not> part_known then (Failure InvalidParameter, m)
      else case get_document i m of
        None \<Rightarrow> (Failure SolidNotFound, m)
      | Some doc \<Rightarrow>
          (let (iid, doc1) = add_instance fresh part transform name doc;
               doc2 = (if color \<noteq> None then snd (set_instance_color iid color doc1) else doc1);
               m' = put_document i doc2 m
           in (Success,
               case instance_of iid doc2 of
                 Some x \<Rightarrow> record_event (op_add_instance sd i x) m'
               | None \<Rightarrow> m')))"

definition transform_instance_route ::
  "doc_serde \<Rightarrow> uuid \<Rightarrow> uuid \<Rightarrow> matrix4 \<Rightarrow> assembly_manager \<Rightarrow> answer \<times> assembly_manager" where
  "transform_instance_route sd i x t =
     document_route i SolidNotFound (transform_instance (InstanceId x) t) (op_transform_instance sd i x t)"

definition remove_instance_route :: "doc_serde \<Rightarrow> uuid \<Rightarrow> uuid \<Rightarrow> assembly_manager \<Rightarrow> answer \<times> assembly_manager" where
  "remove_instance_route sd i x =
     document_route i SolidNotFound (remove_instance (InstanceId x)) (op_remove_instance sd i x)"

definition create_connector_route ::
  "doc_serde \<Rightarrow> uuid \<Rightarrow> uuid \<Rightarrow> uuid \<Rightarrow> (connector_anchor \<times> connector_frame \<times> f64 option) option \<Rightarrow>
   assembly_manager \<Rightarrow> answer \<times> assembly_manager" where
  "create_connector_route sd i fresh inst chosen m =
     (case get_document i m of
        None \<Rightarrow> (Failure SolidNotFound, m)
      | Some doc \<Rightarrow>
          (case create_connector_core fresh inst chosen doc of
             (Refused e, doc') \<Rightarrow> (Failure e, put_document i doc' m)
           | (Done c, doc') \<Rightarrow>
               (case op_connector_add sd i c of
                  Some op \<Rightarrow> (Success, record_event op (put_document i doc' m))
                | None \<Rightarrow> (Panic, put_document i doc' m))))"

definition delete_connector_route :: "doc_serde \<Rightarrow> uuid \<Rightarrow> uuid \<Rightarrow> assembly_manager \<Rightarrow> answer \<times> assembly_manager" where
  "delete_connector_route sd i c =
     document_route i InvalidParameter (remove_connector (MateConnectorId c)) (op_connector_remove sd i c)"

definition create_mate_route ::
  "doc_serde \<Rightarrow> kernel \<Rightarrow> uuid \<Rightarrow> uuid \<Rightarrow> doc_mate_kind \<Rightarrow> uuid \<Rightarrow> uuid \<Rightarrow> uuid list \<Rightarrow>
   assembly_manager \<Rightarrow> answer \<times> assembly_manager" where
  "create_mate_route sd ke i fresh k a b couples m =
     (case get_document i m of
        None \<Rightarrow> (Failure SolidNotFound, m)
      | Some doc \<Rightarrow>
          (case create_mate_core ke fresh k a b couples doc of
             (Refused e, doc') \<Rightarrow> (Failure e, put_document i doc' m)
           | (Done mt, doc') \<Rightarrow> (Success, record_event (op_mate_add sd i mt) (put_document i doc' m))))"

definition patch_mate_route ::
  "doc_serde \<Rightarrow> uuid \<Rightarrow> uuid \<Rightarrow> doc_mate_kind \<Rightarrow> assembly_manager \<Rightarrow> answer \<times> assembly_manager" where
  "patch_mate_route sd i mid k =
     document_route i InvalidParameter (set_mate_kind (DocMateId mid) k) (op_mate_edit sd i mid k)"

definition delete_mate_route :: "doc_serde \<Rightarrow> uuid \<Rightarrow> uuid \<Rightarrow> assembly_manager \<Rightarrow> answer \<times> assembly_manager" where
  "delete_mate_route sd i mid =
     document_route i InvalidParameter (remove_mate (DocMateId mid)) (op_mate_remove sd i mid)"

text \<open>Solve and drag: the event is recorded when poses were written.\<close>

definition motion_route ::
  "doc_serde \<Rightarrow> uuid \<Rightarrow> (instanced_assembly \<Rightarrow> pose_out list option core_result \<times> instanced_assembly) \<Rightarrow>
   assembly_manager \<Rightarrow> answer \<times> assembly_manager" where
  "motion_route sd i core m =
     (case get_document i m of
        None \<Rightarrow> (Failure SolidNotFound, m)
      | Some doc \<Rightarrow>
          (case core doc of
             (Refused e, doc') \<Rightarrow> (Failure e, put_document i doc' m)
           | (Done None, doc') \<Rightarrow> (Success, put_document i doc' m)
           | (Done (Some poses), doc') \<Rightarrow> (Success, record_event (op_solve sd i poses) (put_document i doc' m))))"

definition solve_route :: "doc_serde \<Rightarrow> kernel \<Rightarrow> uuid \<Rightarrow> uuid option \<Rightarrow> assembly_manager \<Rightarrow> answer \<times> assembly_manager" where
  "solve_route sd ke i ground = motion_route sd i (solve_core ke ground)"

definition drag_route :: "doc_serde \<Rightarrow> kernel \<Rightarrow> uuid \<Rightarrow> uuid option \<Rightarrow> uuid \<Rightarrow> assembly_manager \<Rightarrow> answer \<times> assembly_manager" where
  "drag_route sd ke i ground mid = motion_route sd i (drag_core ke ground mid)"

end
