(* ===== verification/Assembly_Props.thy ===== *)
theory Assembly_Props
  imports Assembly_Api
begin

text \<open>
  What holds of the assembly documents: well-formedness is kept by every operation, and replaying the
  recorded events rebuilds the documents the routes left. The two halves share the contract
  \<open>doc_op\<close>: an operation keeps well-formedness, changes nothing when it refuses, and does not look at
  the stored frames of anchored connectors, which are caches that every solve refreshes.
\<close>

section \<open>Well-formed documents\<close>

definition mate_joins :: "mate_connector list \<Rightarrow> doc_mate \<Rightarrow> bool" where
  "mate_joins cs m \<longleftrightarrow>
     (\<exists>ca \<in> set cs. \<exists>cb \<in> set cs.
        mc_id ca = dm_a m \<and> mc_id cb = dm_b m \<and> mc_instance ca \<noteq> mc_instance cb)"

definition doc_wf :: "instanced_assembly \<Rightarrow> bool" where
  "doc_wf d \<longleftrightarrow>
     distinct (map in_id (ia_instances d)) \<and>
     distinct (map mc_id (ia_connectors d)) \<and>
     distinct (map dm_id (ia_mates d)) \<and>
     mc_instance ` set (ia_connectors d) \<subseteq> in_id ` set (ia_instances d) \<and>
     (\<forall>m \<in> set (ia_mates d). mate_joins (ia_connectors d) m)"

definition store_wf :: "assembly_store \<Rightarrow> bool" where
  "store_wf st \<longleftrightarrow> (\<forall>i d. map_of st i = Some d \<longrightarrow> doc_wf d)"

text \<open>The cached part of a document: frames and radii of connectors that are anchored on a face.\<close>

definition no_frame :: connector_frame where
  "no_frame = \<lparr>cf_origin = [], cf_z_axis = [], cf_x_axis = []\<rparr>"

definition forget_frame :: "mate_connector \<Rightarrow> mate_connector" where
  "forget_frame c = (if mc_anchor c = RawFrame then c else c\<lparr>mc_frame := no_frame, mc_radius := None\<rparr>)"

definition forget :: "instanced_assembly \<Rightarrow> instanced_assembly" where
  "forget d = d\<lparr>ia_connectors := map forget_frame (ia_connectors d)\<rparr>"

lemma forget_frame_sel [simp]:
  "mc_id (forget_frame c) = mc_id c" "mc_instance (forget_frame c) = mc_instance c"
  "mc_anchor (forget_frame c) = mc_anchor c"
  by (simp_all add: forget_frame_def)

lemma forget_sel [simp]:
  "ia_id (forget d) = ia_id d" "ia_name (forget d) = ia_name d" "ia_instances (forget d) = ia_instances d"
  "ia_mates (forget d) = ia_mates d" "ia_connectors (forget d) = map forget_frame (ia_connectors d)"
  by (simp_all add: forget_def)

lemma forget_eq_iff:
  "forget d = forget d' \<longleftrightarrow> ia_id d = ia_id d' \<and> ia_name d = ia_name d' \<and> ia_instances d = ia_instances d' \<and>
     map forget_frame (ia_connectors d) = map forget_frame (ia_connectors d') \<and> ia_mates d = ia_mates d'"
  by (cases d, cases d') (auto simp: forget_def)

lemma forget_connectors:
  assumes "map forget_frame cs = map forget_frame cs'"
  shows "map mc_id cs = map mc_id cs'" "map mc_instance cs = map mc_instance cs'"
proof -
  have "map mc_id (map forget_frame cs) = map mc_id (map forget_frame cs')"
    "map mc_instance (map forget_frame cs) = map mc_instance (map forget_frame cs')"
    using assms by simp_all
  then show "map mc_id cs = map mc_id cs'" "map mc_instance cs = map mc_instance cs'" by (simp_all add: comp_def)
qed

section \<open>Lists\<close>

lemma map_update_first [simp]: "(\<And>x. g (f x) = g x) \<Longrightarrow> map g (update_first P f xs) = map g xs"
  by (induction xs) auto

lemma update_first_none: "\<forall>x \<in> set xs. \<not> P x \<Longrightarrow> update_first P f xs = xs"
  by (induction xs) auto

lemma find_id: "find (\<lambda>x. g x = i) xs \<noteq> None \<longleftrightarrow> i \<in> g ` set xs"
  by (auto simp: find_None_iff)

lemma find_id_None: "find (\<lambda>x. g x = i) xs = None \<longleftrightarrow> i \<notin> g ` set xs"
  by (auto simp: find_None_iff)

lemma find_map: "find P (map f xs) = map_option f (find (P \<circ> f) xs)"
  by (induction xs) auto

lemma list_ex_id: "list_ex (\<lambda>x. g x = i) xs \<longleftrightarrow> i \<in> g ` set xs"
  by (auto simp: list_ex_iff)

lemma map_filter_by:
  assumes "\<And>x. Q (f x) = P x"
  shows "map f (filter P xs) = filter Q (map f xs)"
  using assms by (induction xs) auto

section \<open>The contract of an operation\<close>

lemma mate_joins_by:
  "mate_joins cs m \<longleftrightarrow>
     (\<exists>x y. (dm_a m, x) \<in> set (map (\<lambda>c. (mc_id c, mc_instance c)) cs) \<and>
            (dm_b m, y) \<in> set (map (\<lambda>c. (mc_id c, mc_instance c)) cs) \<and> x \<noteq> y)"
  by (auto simp: mate_joins_def image_iff) metis+

lemma mate_joins_cong:
  "map mc_id cs = map mc_id cs' \<Longrightarrow> map mc_instance cs = map mc_instance cs' \<Longrightarrow> mate_joins cs = mate_joins cs'"
proof -
  assume "map mc_id cs = map mc_id cs'" "map mc_instance cs = map mc_instance cs'"
  then have "zip (map mc_id cs) (map mc_instance cs) = zip (map mc_id cs') (map mc_instance cs')" by simp
  then have "map (\<lambda>c. (mc_id c, mc_instance c)) cs = map (\<lambda>c. (mc_id c, mc_instance c)) cs'"
    by (simp add: zip_map_map zip_same_conv_map comp_def)
  then show ?thesis by (intro ext) (simp only: mate_joins_by)
qed

lemma mate_joins_mono: "mate_joins cs m \<Longrightarrow> set cs \<subseteq> set cs' \<Longrightarrow> mate_joins cs' m"
  unfolding mate_joins_def by blast

text \<open>Well-formedness only looks at identifiers.\<close>

lemma doc_wf_cong:
  assumes "map in_id (ia_instances d) = map in_id (ia_instances d')"
    and "map mc_id (ia_connectors d) = map mc_id (ia_connectors d')"
    and "map mc_instance (ia_connectors d) = map mc_instance (ia_connectors d')"
    and "map (\<lambda>m. (dm_id m, dm_a m, dm_b m)) (ia_mates d) = map (\<lambda>m. (dm_id m, dm_a m, dm_b m)) (ia_mates d')"
  shows "doc_wf d = doc_wf d'"
proof -
  have ids: "map dm_id (ia_mates d) = map dm_id (ia_mates d')"
    using arg_cong [OF assms(4), of "map fst"] by (simp add: comp_def)
  have ins: "in_id ` set (ia_instances d) = in_id ` set (ia_instances d')"
    using arg_cong [OF assms(1), of set] by simp
  have con: "mc_instance ` set (ia_connectors d) = mc_instance ` set (ia_connectors d')"
    using arg_cong [OF assms(3), of set] by simp
  have joins: "mate_joins cs m = mate_joins cs m'" if "dm_a m = dm_a m'" "dm_b m = dm_b m'" for cs m m'
    using that by (simp add: mate_joins_def)
  have "(\<lambda>m. (dm_id m, dm_a m, dm_b m)) ` set (ia_mates d) = (\<lambda>m. (dm_id m, dm_a m, dm_b m)) ` set (ia_mates d')"
    using arg_cong [OF assms(4), of set] by simp
  then have "(\<forall>m \<in> set (ia_mates d). mate_joins cs m) = (\<forall>m \<in> set (ia_mates d'). mate_joins cs m)" for cs
    using joins by (smt (verit) Pair_inject image_iff)
  then show ?thesis
    using assms(1-3) ids ins con mate_joins_cong [OF assms(2,3)] by (simp only: doc_wf_def)
qed

lemma doc_wf_forget [simp]: "doc_wf (forget d) = doc_wf d"
  by (rule doc_wf_cong) (simp_all add: comp_def)

locale doc_op =
  fixes f :: "instanced_assembly \<Rightarrow> bool \<times> instanced_assembly"
  assumes keeps: "doc_wf d \<Longrightarrow> doc_wf (snd (f d))"
    and refuses: "\<not> fst (f d) \<Longrightarrow> snd (f d) = d"
    and blind: "forget d = forget d' \<Longrightarrow> fst (f d) = fst (f d') \<and> forget (snd (f d)) = forget (snd (f d'))"

lemma wf_transform: "doc_wf d \<Longrightarrow> doc_wf (snd (transform_instance i m d))"
  by (subst doc_wf_cong [of _ d]) (simp_all add: transform_instance_def)

lemma wf_color: "doc_wf d \<Longrightarrow> doc_wf (snd (set_instance_color i c d))"
  by (subst doc_wf_cong [of _ d]) (simp_all add: set_instance_color_def)

lemma wf_frame: "doc_wf d \<Longrightarrow> doc_wf (snd (set_connector_frame c f r d))"
  by (subst doc_wf_cong [of _ d]) (simp_all add: set_connector_frame_def)

lemma wf_kind: "doc_wf d \<Longrightarrow> doc_wf (snd (set_mate_kind m k d))"
  by (subst doc_wf_cong [of _ d]) (simp_all add: set_mate_kind_def)

lemma wf_push:
  "doc_wf d \<Longrightarrow> in_id x \<notin> in_id ` set (ia_instances d) \<Longrightarrow> doc_wf (push_instance x d)"
  by (auto simp: doc_wf_def push_instance_def)

lemma wf_add_instance_with_id: "doc_wf d \<Longrightarrow> doc_wf (snd (add_instance_with_id i p t n d))"
  by (auto simp: add_instance_with_id_def list_ex_id intro!: wf_push)

lemma wf_add_connector: "doc_wf d \<Longrightarrow> doc_wf (snd (add_connector c d))"
  by (auto simp: add_connector_def doc_wf_def list_ex_id intro: mate_joins_mono)

lemma wf_remove_connector: "doc_wf d \<Longrightarrow> doc_wf (snd (remove_connector c d))"
proof (cases "fst (remove_connector c d)")
  case True
  assume wf: "doc_wf d"
  have unused: "dm_a m \<noteq> c \<and> dm_b m \<noteq> c" if "m \<in> set (ia_mates d)" for m
    using True that by (auto simp: remove_connector_def list_ex_iff split: if_splits)
  have joins: "mate_joins (filter (\<lambda>x. mc_id x \<noteq> c) (ia_connectors d)) m" if "m \<in> set (ia_mates d)" for m
  proof -
    have "mate_joins (ia_connectors d) m" using wf that by (simp add: doc_wf_def)
    with unused [OF that] show ?thesis unfolding mate_joins_def by (simp add: Bex_def) metis
  qed
  have new: "snd (remove_connector c d) = d\<lparr>ia_connectors := filter (\<lambda>x. mc_id x \<noteq> c) (ia_connectors d)\<rparr>"
    using True by (auto simp: remove_connector_def split: if_splits)
  show ?thesis
    unfolding new using wf joins by (auto simp: doc_wf_def distinct_map_filter)
qed (auto simp: remove_connector_def)

lemma wf_add_mate: "doc_wf d \<Longrightarrow> doc_wf (snd (add_mate m d))"
  by (auto simp: add_mate_def doc_wf_def list_ex_id connector_of_def mate_joins_def find_Some_iff
      split: option.splits)

lemma wf_remove_mate: "doc_wf d \<Longrightarrow> doc_wf (snd (remove_mate m d))"
  by (auto simp: remove_mate_def doc_wf_def distinct_map_filter)

lemma remove_instance_eq:
  "remove_instance i d =
     (i \<in> in_id ` set (ia_instances d),
      if i \<in> in_id ` set (ia_instances d)
      then drop_connectors_of i (d\<lparr>ia_instances := filter (\<lambda>x. in_id x \<noteq> i) (ia_instances d)\<rparr>) else d)"
proof (cases "i \<in> in_id ` set (ia_instances d)")
  case True
  then have "length (filter (\<lambda>x. in_id x \<noteq> i) (ia_instances d)) < length (ia_instances d)"
    by (auto intro!: length_filter_less)
  then show ?thesis using True by (simp add: remove_instance_def Let_def)
next
  case False
  then have "filter (\<lambda>x. in_id x \<noteq> i) (ia_instances d) = ia_instances d"
    by (auto simp: filter_id_conv)
  then show ?thesis using False by (simp add: remove_instance_def Let_def)
qed

lemma drop_connectors_eq:
  "drop_connectors_of i d =
     d\<lparr>ia_connectors := filter (\<lambda>c. mc_instance c \<noteq> i) (ia_connectors d),
       ia_mates := filter (\<lambda>m. dm_a m \<notin> mc_id ` set (filter (\<lambda>c. mc_instance c = i) (ia_connectors d)) \<and>
                            dm_b m \<notin> mc_id ` set (filter (\<lambda>c. mc_instance c = i) (ia_connectors d))) (ia_mates d)\<rparr>"
proof (cases "filter (\<lambda>c. mc_instance c = i) (ia_connectors d) = []")
  case True
  then have "filter (\<lambda>c. mc_instance c \<noteq> i) (ia_connectors d) = ia_connectors d"
    by (auto simp: filter_empty_conv filter_id_conv)
  then show ?thesis using True by (simp add: drop_connectors_of_def)
next
  case False
  then show ?thesis by (simp add: drop_connectors_of_def Let_def)
qed

lemma joins_elsewhere:
  assumes "mate_joins cs m"
    and "dm_a m \<notin> mc_id ` {c \<in> set cs. mc_instance c = i}" "dm_b m \<notin> mc_id ` {c \<in> set cs. mc_instance c = i}"
  shows "mate_joins (filter (\<lambda>c. mc_instance c \<noteq> i) cs) m"
  using assms unfolding mate_joins_def by (simp add: Bex_def image_iff) metis

lemma wf_remove_instance: "doc_wf d \<Longrightarrow> doc_wf (snd (remove_instance i d))"
  by (auto simp: remove_instance_eq drop_connectors_eq doc_wf_def distinct_map_filter intro!: joins_elsewhere)

subsection \<open>What the operations look at\<close>

lemma forget_find:
  assumes "map forget_frame cs = map forget_frame cs'"
  shows "map_option forget_frame (find (\<lambda>x. mc_id x = c) cs) = map_option forget_frame (find (\<lambda>x. mc_id x = c) cs')"
  using arg_cong [OF assms, of "find (\<lambda>x. mc_id x = c)"] by (simp add: find_map comp_def)

lemma forget_filter:
  assumes "map forget_frame cs = map forget_frame cs'" and "\<And>c. P (forget_frame c) = P c"
  shows "map forget_frame (filter P cs) = map forget_frame (filter P cs')"
  using arg_cong [OF assms(1), of "filter P"] assms(2) by (simp add: filter_map comp_def)

lemma forget_update:
  assumes "map forget_frame cs = map forget_frame cs'"
  shows "mc_id ` set cs = mc_id ` set cs'" "mc_instance ` set cs = mc_instance ` set cs'"
    "mc_id ` {c \<in> set cs. mc_instance c = i} = mc_id ` {c \<in> set cs'. mc_instance c = i}"
proof -
  show "mc_id ` set cs = mc_id ` set cs'" "mc_instance ` set cs = mc_instance ` set cs'"
    using forget_connectors [OF assms] by (metis list.set_map)+
  have "map forget_frame (filter (\<lambda>c. mc_instance c = i) cs) = map forget_frame (filter (\<lambda>c. mc_instance c = i) cs')"
    by (rule forget_filter [OF assms]) simp
  from forget_connectors(1) [OF this]
  show "mc_id ` {c \<in> set cs. mc_instance c = i} = mc_id ` {c \<in> set cs'. mc_instance c = i}"
    by (metis list.set_map set_filter)
qed

lemma blind_connector_of:
  assumes "forget d = forget d'"
  shows "map_option mc_instance (connector_of c d) = map_option mc_instance (connector_of c d')"
proof -
  have "map_option forget_frame (connector_of c d) = map_option forget_frame (connector_of c d')"
    using assms by (auto simp: forget_eq_iff connector_of_def intro: forget_find)
  from arg_cong [OF this, of "map_option mc_instance"] show ?thesis
    by (simp add: option.map_comp comp_def)
qed

lemma blind_add_mate:
  assumes "forget d = forget d'"
  shows "fst (add_mate m d) = fst (add_mate m d') \<and> forget (snd (add_mate m d)) = forget (snd (add_mate m d'))"
  using blind_connector_of [OF assms, of "dm_a m"] blind_connector_of [OF assms, of "dm_b m"] assms
  by (auto simp: add_mate_def forget_eq_iff split: option.splits)

lemma find_update_first: "find P xs = None \<Longrightarrow> update_first P f xs = xs"
  by (induction xs) (auto split: if_splits)

interpretation op_transform: doc_op "transform_instance i m" for i m
proof unfold_locales
  fix d assume "\<not> fst (transform_instance i m d)"
  then show "snd (transform_instance i m d) = d" by (cases d) (simp add: transform_instance_def instance_of_def find_update_first)
next
  fix d d' assume "forget d = forget d'"
  then show "fst (transform_instance i m d) = fst (transform_instance i m d') \<and> forget (snd (transform_instance i m d)) = forget (snd (transform_instance i m d'))"
    unfolding forget_eq_iff by (simp add: transform_instance_def instance_of_def)
qed (rule wf_transform)

interpretation op_color: doc_op "set_instance_color i c" for i c
proof unfold_locales
  fix d assume "\<not> fst (set_instance_color i c d)"
  then show "snd (set_instance_color i c d) = d" by (cases d) (simp add: set_instance_color_def instance_of_def find_update_first)
next
  fix d d' assume "forget d = forget d'"
  then show "fst (set_instance_color i c d) = fst (set_instance_color i c d') \<and> forget (snd (set_instance_color i c d)) = forget (snd (set_instance_color i c d'))"
    unfolding forget_eq_iff by (simp add: set_instance_color_def instance_of_def)
qed (rule wf_color)

interpretation op_add: doc_op "add_instance_with_id i p t n" for i p t n
proof unfold_locales
  fix d assume "\<not> fst (add_instance_with_id i p t n d)"
  then show "snd (add_instance_with_id i p t n d) = d" by (auto simp: add_instance_with_id_def split: if_splits)
next
  fix d d' assume "forget d = forget d'"
  then show "fst (add_instance_with_id i p t n d) = fst (add_instance_with_id i p t n d') \<and> forget (snd (add_instance_with_id i p t n d)) = forget (snd (add_instance_with_id i p t n d'))"
    unfolding forget_eq_iff by (simp add: add_instance_with_id_def push_instance_def)
qed (rule wf_add_instance_with_id)

interpretation op_remove: doc_op "remove_instance i" for i
proof unfold_locales
  fix d assume "\<not> fst (remove_instance i d)"
  then show "snd (remove_instance i d) = d" by (auto simp: remove_instance_eq)
next
  fix d d' assume eq: "forget d = forget d'"
  then have cs: "map forget_frame (ia_connectors d) = map forget_frame (ia_connectors d')" by (simp add: forget_eq_iff)
  from eq show "fst (remove_instance i d) = fst (remove_instance i d') \<and> forget (snd (remove_instance i d)) = forget (snd (remove_instance i d'))"
    unfolding forget_eq_iff by (simp add: remove_instance_eq drop_connectors_eq forget_update [OF cs] forget_filter [OF cs])
qed (rule wf_remove_instance)

interpretation op_connector: doc_op "add_connector c" for c
proof unfold_locales
  fix d assume "\<not> fst (add_connector c d)"
  then show "snd (add_connector c d) = d" by (auto simp: add_connector_def split: if_splits)
next
  fix d d' assume eq: "forget d = forget d'"
  then have cs: "map forget_frame (ia_connectors d) = map forget_frame (ia_connectors d')" by (simp add: forget_eq_iff)
  from eq show "fst (add_connector c d) = fst (add_connector c d') \<and> forget (snd (add_connector c d)) = forget (snd (add_connector c d'))"
    unfolding forget_eq_iff by (simp add: add_connector_def list_ex_id forget_update [OF cs])
qed (rule wf_add_connector)

interpretation op_unconnect: doc_op "remove_connector c" for c
proof unfold_locales
  fix d assume "\<not> fst (remove_connector c d)"
  then show "snd (remove_connector c d) = d" by (auto simp: remove_connector_def split: if_splits)
next
  fix d d' assume eq: "forget d = forget d'"
  then have cs: "map forget_frame (ia_connectors d) = map forget_frame (ia_connectors d')" by (simp add: forget_eq_iff)
  from eq show "fst (remove_connector c d) = fst (remove_connector c d') \<and> forget (snd (remove_connector c d)) = forget (snd (remove_connector c d'))"
    unfolding forget_eq_iff by (simp add: remove_connector_def list_ex_id forget_update [OF cs] forget_filter [OF cs])
qed (rule wf_remove_connector)

interpretation op_mate: doc_op "add_mate m" for m
proof unfold_locales
  fix d assume "\<not> fst (add_mate m d)"
  then show "snd (add_mate m d) = d" by (auto simp: add_mate_def split: if_splits option.splits)
next
  fix d d' assume "forget d = forget d'"
  then show "fst (add_mate m d) = fst (add_mate m d') \<and> forget (snd (add_mate m d)) = forget (snd (add_mate m d'))"
    by (rule blind_add_mate)
qed (rule wf_add_mate)

interpretation op_kind: doc_op "set_mate_kind m k" for m k
proof unfold_locales
  fix d assume "\<not> fst (set_mate_kind m k d)"
  then show "snd (set_mate_kind m k d) = d" by (cases d) (simp add: set_mate_kind_def mate_of_def find_update_first)
next
  fix d d' assume "forget d = forget d'"
  then show "fst (set_mate_kind m k d) = fst (set_mate_kind m k d') \<and> forget (snd (set_mate_kind m k d)) = forget (snd (set_mate_kind m k d'))"
    unfolding forget_eq_iff by (simp add: set_mate_kind_def mate_of_def)
qed (rule wf_kind)

interpretation op_unmate: doc_op "remove_mate m" for m
proof unfold_locales
  fix d assume "\<not> fst (remove_mate m d)"
  then show "snd (remove_mate m d) = d" by (auto simp: remove_mate_def split: if_splits)
next
  fix d d' assume "forget d = forget d'"
  then show "fst (remove_mate m d) = fst (remove_mate m d') \<and> forget (snd (remove_mate m d)) = forget (snd (remove_mate m d'))"
    unfolding forget_eq_iff by (simp add: remove_mate_def)
qed (rule wf_remove_mate)

end
