(* ===== verification/Assembly_Replay_Props.thy ===== *)
theory Assembly_Replay_Props
  imports Assembly_Props
begin

text \<open>
  Sessions of the assembly routes: the documents stay well-formed, and replaying the recorded events
  rebuilds them up to the frames that every solve derives anew. What is lost on the way: a connector
  whose payload cannot be written panics after it is stored, and a removed instance takes joints with
  it that couplings still name.
\<close>

section \<open>Sessions\<close>

datatype assembly_call =
    New_assembly uuid string
  | Drop_assembly uuid
  | Place uuid uuid bool uuid matrix4 "string option" "rgb option"
  | Move uuid uuid matrix4
  | Unplace uuid uuid
  | Connect uuid uuid uuid "(connector_anchor \<times> connector_frame \<times> f64 option) option"
  | Disconnect uuid uuid
  | Join uuid uuid doc_mate_kind uuid uuid "uuid list"
  | Rekind uuid uuid doc_mate_kind
  | Unjoin uuid uuid
  | Solve uuid "uuid option"
  | Drag uuid "uuid option" uuid

fun run_call :: "doc_serde \<Rightarrow> kernel \<Rightarrow> assembly_call \<Rightarrow> assembly_manager \<Rightarrow> answer \<times> assembly_manager" where
  "run_call sd ke (New_assembly fresh name) = create_assembly sd fresh name"
| "run_call sd ke (Drop_assembly i) = delete_assembly sd i"
| "run_call sd ke (Place i fresh known part t name color) = add_instance_route sd i fresh known part t name color"
| "run_call sd ke (Move i x t) = transform_instance_route sd i x t"
| "run_call sd ke (Unplace i x) = remove_instance_route sd i x"
| "run_call sd ke (Connect i fresh x chosen) = create_connector_route sd i fresh x chosen"
| "run_call sd ke (Disconnect i c) = delete_connector_route sd i c"
| "run_call sd ke (Join i fresh k a b cs) = create_mate_route sd ke i fresh k a b cs"
| "run_call sd ke (Rekind i mt k) = patch_mate_route sd i mt k"
| "run_call sd ke (Unjoin i mt) = delete_mate_route sd i mt"
| "run_call sd ke (Solve i g) = solve_route sd ke i g"
| "run_call sd ke (Drag i g mt) = drag_route sd ke i g mt"

text \<open>The values a call writes into its event are read back as they were written, and the identifier
  drawn for an instance is new in its document.\<close>

definition matrix_ok :: "matrix4 \<Rightarrow> bool" where
  "matrix_ok t \<longleftrightarrow> length t = 4 \<and> list_all (\<lambda>row. length row = 4 \<and> list_all is_finite row) t"

definition rgb_ok :: "rgb \<Rightarrow> bool" where
  "rgb_ok c \<longleftrightarrow> (case c of (r, g, b) \<Rightarrow> r < 256 \<and> g < 256 \<and> b < 256)"

definition connector_reads :: "doc_serde \<Rightarrow> mate_connector \<Rightarrow> bool" where
  "connector_reads sd c \<longleftrightarrow> (case ser_connector sd c of Some v \<Rightarrow> de_connector sd v = Some c | None \<Rightarrow> False)"

definition mate_reads :: "doc_serde \<Rightarrow> doc_mate \<Rightarrow> bool" where
  "mate_reads sd m \<longleftrightarrow> de_mate sd (ser_mate sd m) = Some m"

definition poses_ok :: "kernel \<Rightarrow> instanced_assembly \<Rightarrow> bool" where
  "poses_ok ke d \<longleftrightarrow>
     (\<forall>view. length (ev_instance_ids view) = length (ia_instances d) \<longrightarrow>
        list_all (\<lambda>(i, t). i < length (ia_instances d) \<and> matrix_ok t) (ke_solve ke view) \<and>
        (\<forall>n ok ps. ke_drag ke view n = Some (ok, ps) \<longrightarrow> list_all (\<lambda>(i, t). matrix_ok t) ps))"

fun writes_readable :: "doc_serde \<Rightarrow> kernel \<Rightarrow> assembly_call \<Rightarrow> instanced_assembly \<Rightarrow> bool" where
  "writes_readable sd ke (Place i fresh known part t name color) d \<longleftrightarrow>
     InstanceId fresh \<notin> in_id ` set (ia_instances d) \<and> matrix_ok t \<and> (case color of Some c \<Rightarrow> rgb_ok c | None \<Rightarrow> True)"
| "writes_readable sd ke (Move i x t) d \<longleftrightarrow> matrix_ok t"
| "writes_readable sd ke (Connect i fresh x chosen) d \<longleftrightarrow>
     (case fst (create_connector_core fresh x chosen d) of Done c \<Rightarrow> connector_reads sd c | Refused e \<Rightarrow> True)"
| "writes_readable sd ke (Join i fresh k a b cs) d \<longleftrightarrow>
     (case fst (create_mate_core ke fresh k a b cs d) of Done m \<Rightarrow> mate_reads sd m | Refused e \<Rightarrow> True)"
| "writes_readable sd ke (Rekind i mt k) d \<longleftrightarrow> de_kind sd (ser_kind sd k) = Some k"
| "writes_readable sd ke (Solve i g) d \<longleftrightarrow> poses_ok ke d"
| "writes_readable sd ke (Drag i g mt) d \<longleftrightarrow> poses_ok ke d"
| "writes_readable sd ke c d \<longleftrightarrow> True"

fun call_target :: "assembly_call \<Rightarrow> uuid" where
  "call_target (New_assembly i name) = i"
| "call_target (Drop_assembly i) = i"
| "call_target (Place i fresh known part t name color) = i"
| "call_target (Move i x t) = i"
| "call_target (Unplace i x) = i"
| "call_target (Connect i fresh x chosen) = i"
| "call_target (Disconnect i c) = i"
| "call_target (Join i fresh k a b cs) = i"
| "call_target (Rekind i mt k) = i"
| "call_target (Unjoin i mt) = i"
| "call_target (Solve i g) = i"
| "call_target (Drag i g mt) = i"

definition call_ok :: "doc_serde \<Rightarrow> kernel \<Rightarrow> assembly_call \<Rightarrow> assembly_manager \<Rightarrow> bool" where
  "call_ok sd ke c m \<longleftrightarrow>
     (case get_document (call_target c) m of Some d \<Rightarrow> writes_readable sd ke c d | None \<Rightarrow> True)"

definition empty_manager :: assembly_manager where
  "empty_manager = \<lparr>am_assemblies = [], am_recorder = Some []\<rparr>"

inductive session :: "doc_serde \<Rightarrow> kernel \<Rightarrow> assembly_manager \<Rightarrow> bool" for sd ke where
  session_start: "session sd ke empty_manager"
| session_call: "session sd ke m \<Longrightarrow> call_ok sd ke c m \<Longrightarrow> session sd ke (snd (run_call sd ke c m))"

section \<open>Replaying a log\<close>

text \<open>Whether every event applied, and the documents.\<close>

definition replay_op :: "doc_serde \<Rightarrow> recorded_operation \<Rightarrow> bool \<times> assembly_store \<Rightarrow> bool \<times> assembly_store" where
  "replay_op sd op s =
     (let (r, st) = dispatch_assembly sd (ro_kind op) (record_envelope op) (snd s) in (fst s \<and> is_ok r, st))"

definition replay_ops :: "doc_serde \<Rightarrow> recorded_operation list \<Rightarrow> bool \<times> assembly_store" where
  "replay_ops sd log = fold (replay_op sd) log (True, [])"

definition same_docs :: "assembly_store \<Rightarrow> assembly_store \<Rightarrow> bool" where
  "same_docs st st' \<longleftrightarrow> (\<forall>i. map_option forget (map_of st i) = map_option forget (map_of st' i))"

definition faithful :: "doc_serde \<Rightarrow> assembly_manager \<Rightarrow> bool" where
  "faithful sd m \<longleftrightarrow>
     (\<exists>log st. am_recorder m = Some log \<and> replay_ops sd log = (True, st) \<and> same_docs (am_assemblies m) st)"

lemma replay_snoc: "replay_ops sd (log @ [op]) = replay_op sd op (replay_ops sd log)"
  by (simp add: replay_ops_def)

lemma faithful_event:
  assumes "faithful sd m"
    and "\<And>st. same_docs (am_assemblies m) st \<Longrightarrow>
           \<exists>st'. dispatch_assembly sd (ro_kind op) (record_envelope op) st = (Ok (), st') \<and> same_docs new st'"
  shows "faithful sd (record_event op (m\<lparr>am_assemblies := new\<rparr>))"
proof -
  from assms(1) obtain log st where
    log: "am_recorder m = Some log" "replay_ops sd log = (True, st)" "same_docs (am_assemblies m) st"
    by (auto simp: faithful_def)
  from assms(2) [OF log(3)] obtain st' where
    "dispatch_assembly sd (ro_kind op) (record_envelope op) st = (Ok (), st')" "same_docs new st'"
    by blast
  then show ?thesis
    using log by (auto simp: faithful_def record_event_def replay_snoc replay_op_def)
qed

lemma faithful_update:
  "faithful sd m \<Longrightarrow> same_docs new (am_assemblies m) \<Longrightarrow> faithful sd (m\<lparr>am_assemblies := new\<rparr>)"
  by (auto simp: faithful_def same_docs_def)

lemma same_docs_update:
  "same_docs st st' \<Longrightarrow> forget d = forget d' \<Longrightarrow> same_docs (AList.update i d st) (AList.update i d' st')"
  by (simp add: same_docs_def update_conv')

lemma faithful_put:
  assumes "faithful sd m" and "get_document i m = Some doc" and "forget doc' = forget doc"
  shows "faithful sd (put_document i doc' m)"
  unfolding put_document_def
  by (rule faithful_update [OF assms(1)])
    (use assms in \<open>auto simp: same_docs_def update_conv' get_document_def\<close>)

context doc_op
begin

lemma recorded:
  assumes "faithful sd m" and "get_document i m = Some doc" and "forget d0 = forget doc" and "fst (f d0)"
    and law: "\<And>st. dispatch_assembly sd (ro_kind op) (record_envelope op) st = on_document kind i why f st"
  shows "faithful sd (record_event op (put_document i (snd (f d0)) m))"
  unfolding put_document_def
proof (rule faithful_event [OF assms(1)])
  fix st assume same: "same_docs (am_assemblies m) st"
  then obtain d' where d': "map_of st i = Some d'" "forget d' = forget d0"
    using assms(2,3) by (cases "map_of st i") (auto simp: same_docs_def get_document_def dest!: spec [of _ i])
  have "fst (f d')" "forget (snd (f d')) = forget (snd (f d0))" using blind [OF d'(2)] assms(4) by auto
  then show "\<exists>st'. dispatch_assembly sd (ro_kind op) (record_envelope op) st = (Ok (), st') \<and>
      same_docs (AList.update i (snd (f d0)) (am_assemblies m)) st'"
    using same d'(1) by (auto simp: law on_document_def split_def intro!: same_docs_update)
qed

lemma route_faithful:
  assumes "faithful sd m"
    and "\<And>st. dispatch_assembly sd (ro_kind op) (record_envelope op) st = on_document kind i why f st"
  shows "faithful sd (snd (document_route i e f op m))"
proof (cases "get_document i m")
  case (Some doc)
  show ?thesis
  proof (cases "f doc")
    case (Pair done_it doc')
    show ?thesis
    proof (cases done_it)
      case True
      then show ?thesis
        using recorded [OF assms(1) Some refl _ assms(2)] Some Pair by (simp add: document_route_def)
    next
      case False
      then show ?thesis
        using faithful_put [OF assms(1) Some, of doc'] refuses [of doc] Some Pair by (simp add: document_route_def)
    qed
  qed
qed (simp add: document_route_def assms(1))

lemma route_wf:
  assumes "store_wf (am_assemblies m)"
  shows "store_wf (am_assemblies (snd (document_route i e f op m)))"
  using assms keeps
  by (auto simp: document_route_def store_wf_def get_document_def put_document_def record_event_def update_conv'
      split: option.splits prod.splits bool.splits) (metis snd_conv)+

end

section \<open>Payloads are read back\<close>

definition uuids_read :: "doc_serde \<Rightarrow> bool" where
  "uuids_read sd \<longleftrightarrow> (\<forall>u. sd_parse sd (sd_fmt sd u) = Some u)"

lemma option_list_map: "(\<And>x. x \<in> set xs \<Longrightarrow> f (g x) = Some x) \<Longrightarrow> option_list (map f (map g xs)) = Some xs"
  by (induction xs) auto

lemma de_array_map:
  assumes "length xs = n" and "\<And>x. x \<in> set xs \<Longrightarrow> f (g x) = Some x"
  shows "de_array n f (Json_Array (map g xs)) = Some xs"
  using assms option_list_map [of xs f g] by (simp add: de_array_def)

lemma read_matrix [simp]: "matrix_ok t \<Longrightarrow> de_matrix (ser_matrix t) = Some t"
  unfolding de_matrix_def ser_matrix_def
  by (intro de_array_map) (auto simp: matrix_ok_def list_all_iff json_of_f64_def)

lemma matrix_not_null [simp]: "ser_matrix t \<noteq> Json_Null"
  by (simp add: ser_matrix_def)

lemma read_rgb [simp]: "rgb_ok c \<Longrightarrow> de_rgb (ser_rgb c) = Some c"
  by (cases c) (simp add: rgb_ok_def ser_rgb_def de_rgb_def de_array_def as_u8_def eval_nat_numeral)

lemma rgb_not_null [simp]: "ser_rgb c \<noteq> Json_Null"
  by (cases c) (simp add: ser_rgb_def)

lemma read_param [simp]:
  "uuids_read sd \<Longrightarrow> json_get inner key = Some (ser_uuid sd u) \<Longrightarrow> param_uuid sd inner key = Some u"
  by (simp add: param_uuid_def ser_uuid_def uuids_read_def)

lemma envelope_inner [simp]: "envelope_params (record_envelope op) = ro_parameters op"
  by (simp add: envelope_params_def record_envelope_def)

lemmas payload = new_operation_def need_uuid_def param_matrix_def read_payload_def op_on_def dispatch_assembly_def Let_def

lemma dispatch_transform:
  assumes "uuids_read sd" "matrix_ok t" "op = op_transform_instance sd i x t"
  shows "dispatch_assembly sd (ro_kind op) (record_envelope op) st =
    on_document (ro_kind op) i (Unknown_instance x) (transform_instance (InstanceId x) t) st"
  using assms by (simp add: op_transform_instance_def dispatch_on_instance_def payload)

lemma dispatch_remove:
  assumes "uuids_read sd" "op = op_remove_instance sd i x"
  shows "dispatch_assembly sd (ro_kind op) (record_envelope op) st =
    on_document (ro_kind op) i (Unknown_instance x) (remove_instance (InstanceId x)) st"
  using assms by (simp add: op_remove_instance_def dispatch_on_instance_def payload)

lemma dispatch_connector:
  assumes "uuids_read sd" "connector_reads sd c" "op_connector_add sd i c = Some op"
  shows "dispatch_assembly sd (ro_kind op) (record_envelope op) st =
    on_document (ro_kind op) i Connector_refused (add_connector c) st"
  using assms
  by (auto simp: op_connector_add_def connector_reads_def dispatch_on_mates_def payload split: option.splits)

lemma dispatch_disconnect:
  assumes "uuids_read sd" "op = op_connector_remove sd i c"
  shows "dispatch_assembly sd (ro_kind op) (record_envelope op) st =
    on_document (ro_kind op) i (Connector_in_use c) (remove_connector (MateConnectorId c)) st"
  using assms by (simp add: op_connector_remove_def dispatch_on_mates_def payload)

lemma dispatch_mate:
  assumes "uuids_read sd" "mate_reads sd m" "op = op_mate_add sd i m"
  shows "dispatch_assembly sd (ro_kind op) (record_envelope op) st =
    on_document (ro_kind op) i Mate_refused (add_mate m) st"
  using assms by (simp add: op_mate_add_def mate_reads_def dispatch_on_mates_def payload)

lemma dispatch_kind:
  assumes "uuids_read sd" "de_kind sd (ser_kind sd k) = Some k" "op = op_mate_edit sd i m k"
  shows "dispatch_assembly sd (ro_kind op) (record_envelope op) st =
    on_document (ro_kind op) i (Mate_unknown m) (set_mate_kind (DocMateId m) k) st"
  using assms by (simp add: op_mate_edit_def dispatch_on_mates_def payload)

lemma dispatch_unmate:
  assumes "uuids_read sd" "op = op_mate_remove sd i m"
  shows "dispatch_assembly sd (ro_kind op) (record_envelope op) st =
    on_document (ro_kind op) i (Mate_in_use m) (remove_mate (DocMateId m)) st"
  using assms by (simp add: op_mate_remove_def dispatch_on_mates_def payload)

lemma dispatch_add:
  assumes "uuids_read sd" "matrix_ok (in_transform x)" "case in_color x of Some c \<Rightarrow> rgb_ok c | None \<Rightarrow> True"
    "op = op_add_instance sd i x"
  shows "dispatch_assembly sd (ro_kind op) (record_envelope op) st =
    on_document (ro_kind op) i (Duplicate_instance (instance_uuid (in_id x)))
      (add_with_color (InstanceId (instance_uuid (in_id x))) (in_part_id x) (in_transform x) (in_name x) (in_color x)) st"
  using assms
  by (cases "in_color x"; cases "in_name x")
    (simp_all add: op_add_instance_def dispatch_add_instance_def ser_option_def payload)

lemma dispatch_create:
  assumes "uuids_read sd" "op = op_create sd i name"
  shows "dispatch_assembly sd (ro_kind op) (record_envelope op) st = (Ok (), AList.update i (new_assembly i name) st)"
  using assms by (simp add: op_create_def payload)

lemma dispatch_delete:
  assumes "uuids_read sd" "op = op_delete sd i"
  shows "dispatch_assembly sd (ro_kind op) (record_envelope op) st = (Ok (), AList.delete i st)"
  using assms by (simp add: op_delete_def payload)

interpretation op_place: doc_op "add_with_color i p t n c" for i p t n c
proof unfold_locales
  fix d assume "doc_wf d"
  then show "doc_wf (snd (add_with_color i p t n c d))"
    using op_add.keeps [of d i p t n] op_color.keeps
    by (auto simp: add_with_color_def split: prod.splits)
next
  fix d assume "\<not> fst (add_with_color i p t n c d)"
  then show "snd (add_with_color i p t n c d) = d"
    using op_add.refuses [of i p t n d] by (auto simp: add_with_color_def split_def Let_def)
next
  fix d d' assume "forget d = forget d'"
  from op_add.blind [OF this, of i p t n]
  show "fst (add_with_color i p t n c d) = fst (add_with_color i p t n c d') \<and>
      forget (snd (add_with_color i p t n c d)) = forget (snd (add_with_color i p t n c d'))"
    using op_color.blind [of "snd (add_instance_with_id i p t n d)" "snd (add_instance_with_id i p t n d')" i c]
    by (auto simp: add_with_color_def split_def Let_def)
qed

section \<open>Refreshing frames\<close>

lemma map_update_first_on:
  "(\<And>x. x \<in> set xs \<Longrightarrow> P x \<Longrightarrow> h (g x) = h x) \<Longrightarrow> map h (update_first P g xs) = map h xs"
  by (induction xs) auto

lemma forget_set_frame:
  assumes wf: "doc_wf doc" and c: "c \<in> set (ia_connectors doc)" and d: "forget d = forget doc"
    and r: "resolve_connector ke c = Some (f, r)"
  shows "forget (snd (set_connector_frame (mc_id c) f r d)) = forget doc"
proof -
  have cs: "map forget_frame (ia_connectors d) = map forget_frame (ia_connectors doc)"
    using d by (simp add: forget_eq_iff)
  have "forget_frame (x\<lparr>mc_frame := f, mc_radius := r\<rparr>) = forget_frame x"
    if x: "x \<in> set (ia_connectors d)" "mc_id x = mc_id c" for x
  proof -
    from x(1) have "forget_frame x \<in> forget_frame ` set (ia_connectors doc)"
      using arg_cong [OF cs, of set] by auto
    then obtain y where y: "y \<in> set (ia_connectors doc)" "forget_frame x = forget_frame y" by auto
    then have "mc_id y = mc_id c" using x(2) by (metis forget_frame_sel(1))
    then have "y = c" using wf c y(1) by (auto simp: doc_wf_def distinct_map inj_on_def)
    then have xc: "forget_frame x = forget_frame c" using y by simp
    then have anchor: "mc_anchor x = mc_anchor c" by (metis forget_frame_sel(3))
    show ?thesis
    proof (cases "mc_anchor c = RawFrame")
      case True
      then have "x = c" using xc anchor by (simp add: forget_frame_def)
      then show ?thesis using r True by (cases c) (auto simp: resolve_connector_def)
    next
      case False
      then show ?thesis using anchor by (simp add: forget_frame_def)
    qed
  qed
  then have "map forget_frame (update_first (\<lambda>x. mc_id x = mc_id c) (\<lambda>x. x\<lparr>mc_frame := f, mc_radius := r\<rparr>) (ia_connectors d))
      = map forget_frame (ia_connectors d)"
    by (intro map_update_first_on)
  then show ?thesis using d cs by (simp add: set_connector_frame_def forget_eq_iff)
qed

lemma refresh_inv:
  assumes "doc_wf doc"
  shows "doc_wf (refresh_frames ke doc) \<and> forget (refresh_frames ke doc) = forget doc"
proof -
  have "doc_wf (fold (\<lambda>c d. case resolve_connector ke c of
         Some (f, r) \<Rightarrow> snd (set_connector_frame (mc_id c) f r d) | None \<Rightarrow> d) cs d) \<and>
      forget (fold (\<lambda>c d. case resolve_connector ke c of
         Some (f, r) \<Rightarrow> snd (set_connector_frame (mc_id c) f r d) | None \<Rightarrow> d) cs d) = forget doc"
    if "set cs \<subseteq> set (ia_connectors doc)" "doc_wf d" "forget d = forget doc" for cs d
    using that
  proof (induction cs arbitrary: d)
    case (Cons c cs)
    then show ?case
      using forget_set_frame [OF assms, of c d ke] wf_frame [of d]
      by (cases "resolve_connector ke c") auto
  qed simp
  then show ?thesis using assms by (simp add: refresh_frames_def)
qed

lemma view_inv:
  assumes "doc_wf doc" and "build_engine_view ke g doc = (view, doc')"
  shows "doc_wf doc' \<and> forget doc' = forget doc"
  using assms refresh_inv [OF assms(1), of ke]
  by (auto simp: build_engine_view_def Let_def split: if_splits option.splits)

lemma view_ids:
  assumes "build_engine_view ke g doc = (Some view, doc')"
  shows "ev_instance_ids view = map (instance_uuid \<circ> in_id) (ia_instances doc')"
  using assms by (auto simp: build_engine_view_def Let_def split: if_splits option.splits)

section \<open>Motions\<close>

primrec move_all :: "pose_out list \<Rightarrow> instanced_assembly \<Rightarrow> instanced_assembly" where
  "move_all [] d = d"
| "move_all (p # ps) d = move_all ps (snd (transform_instance (InstanceId (fst p)) (snd p) d))"

lemma move_all_fold: "fold (\<lambda>(u, t) d. snd (transform_instance (InstanceId u) t d)) out d = move_all out d"
  by (induction out arbitrary: d) (auto simp: split_def)

lemma transform_ids [simp]:
  "map in_id (ia_instances (snd (transform_instance i t d))) = map in_id (ia_instances d)"
  by (simp add: transform_instance_def)

definition poses_json :: "doc_serde \<Rightarrow> pose_out list \<Rightarrow> json list" where
  "poses_json sd = map (\<lambda>(x, m). Json_Object [(''instance_id'', ser_uuid sd x), (''transform'', ser_matrix m)])"

text \<open>Poses of instances the document has are all written, on both sides.\<close>

lemma apply_poses_ok:
  assumes "uuids_read sd" "list_all (\<lambda>(u, t). matrix_ok t \<and> InstanceId u \<in> in_id ` set (ia_instances d)) out"
  shows "apply_poses sd kind (poses_json sd out) d =
     (Ok (), move_all out d)"
  using assms(2)
proof (induction out arbitrary: d)
  case Nil
  then show ?case by (simp add: poses_json_def)
next
  case (Cons p out)
  obtain u t where p: "p = (u, t)" by (cases p)
  have "InstanceId u \<in> in_id ` set (ia_instances d)" using Cons.prems by (simp add: p)
  then obtain d1 where moved: "transform_instance (InstanceId u) t d = (True, d1)"
    unfolding transform_instance_def instance_of_def find_id by blast
  have ids: "in_id ` set (ia_instances d1) = in_id ` set (ia_instances d)"
    using transform_ids [of "InstanceId u" t d] moved by (metis list.set_map snd_conv)
  have pose: "read_pose sd kind (Json_Object [(''instance_id'', ser_uuid sd u), (''transform'', ser_matrix t)]) = Ok (u, t)"
    using assms(1) Cons.prems by (simp add: p read_pose_def)
  have rest: "apply_poses sd kind (poses_json sd out) d1 = (Ok (), move_all out d1)"
    using Cons.prems ids by (intro Cons.IH) (auto simp: list_all_iff)
  have json: "poses_json sd ((u, t) # out) =
      Json_Object [(''instance_id'', ser_uuid sd u), (''transform'', ser_matrix t)] # poses_json sd out"
    by (simp add: poses_json_def p)
  show ?case
    by (simp only: json apply_poses.simps pose sum.case prod.case moved Let_def rest if_True move_all.simps p fst_conv snd_conv)
qed

lemma write_poses_done:
  assumes "list_all (\<lambda>(i, t). i < length ids) ps"
  shows "write_poses ids ps d =
    (Done (map (\<lambda>(i, t). (ids ! i, t)) ps),
     move_all (map (\<lambda>(i, t). (ids ! i, t)) ps) d)"
  using assms by (induction ids ps d rule: write_poses.induct) simp_all

lemma fold_transform_inv:
  assumes "doc_wf d"
  shows "doc_wf (move_all out d)"
  using assms by (induction out arbitrary: d) (auto simp: wf_transform)

lemma fold_transform_forget:
  "forget d = forget d' \<Longrightarrow>
   forget (move_all out d) =
   forget (move_all out d')"
proof (induction out arbitrary: d d')
  case (Cons p out)
  show ?case
    unfolding move_all.simps by (rule Cons.IH) (use op_transform.blind [OF Cons.prems] in blast)
qed simp

lemma write_poses_wf: "doc_wf d \<Longrightarrow> doc_wf (snd (write_poses ids ps d))"
  by (induction ids ps d rule: write_poses.induct)
    (auto simp: wf_transform split: prod.splits core_result.splits)

lemma dispatch_solve_ok:
  assumes "uuids_read sd" "map_of st i = Some d"
    and "list_all (\<lambda>(u, t). matrix_ok t \<and> InstanceId u \<in> in_id ` set (ia_instances d)) out"
    and "op = op_solve sd i out"
  shows "dispatch_assembly sd (ro_kind op) (record_envelope op) st =
    (Ok (), AList.update i (move_all out d) st)"
  using assms apply_poses_ok [OF assms(1,3), of "''assembly.solve''"]
  by (simp add: op_solve_def dispatch_solve_def payload poses_json_def)

lemma faithful_solve:
  assumes "faithful sd m" "uuids_read sd" "get_document i m = Some doc" "forget d1 = forget doc"
    and "list_all (\<lambda>(u, t). matrix_ok t \<and> InstanceId u \<in> in_id ` set (ia_instances doc)) out"
  shows "faithful sd (record_event (op_solve sd i out)
    (put_document i (move_all out d1) m))"
  unfolding put_document_def
proof (rule faithful_event [OF assms(1)])
  fix st assume same: "same_docs (am_assemblies m) st"
  then obtain d where d: "map_of st i = Some d" "forget d = forget d1"
    using assms(3,4) by (cases "map_of st i") (auto simp: same_docs_def get_document_def dest!: spec [of _ i])
  have "ia_instances d = ia_instances doc" using d(2) assms(4) by (simp add: forget_eq_iff)
  with assms(5) have "list_all (\<lambda>(u, t). matrix_ok t \<and> InstanceId u \<in> in_id ` set (ia_instances d)) out" by simp
  from dispatch_solve_ok [OF assms(2) d(1) this refl] fold_transform_forget [OF d(2)[symmetric], of out]
  show "\<exists>st'. dispatch_assembly sd (ro_kind (op_solve sd i out)) (record_envelope (op_solve sd i out)) st = (Ok (), st') \<and>
      same_docs (AList.update i (move_all out d1) (am_assemblies m)) st'"
    using same by (auto intro!: same_docs_update)
qed

section \<open>The invariant of a session\<close>

definition session_inv :: "doc_serde \<Rightarrow> assembly_manager \<Rightarrow> bool" where
  "session_inv sd m \<longleftrightarrow> store_wf (am_assemblies m) \<and> faithful sd m"

lemma store_wf_update: "store_wf st \<Longrightarrow> doc_wf d \<Longrightarrow> store_wf (AList.update i d st)"
  by (auto simp: store_wf_def update_conv')

lemma inv_put:
  assumes "session_inv sd m" "get_document i m = Some doc" "doc_wf doc'" "forget doc' = forget doc"
  shows "session_inv sd (put_document i doc' m)"
  using assms faithful_put [of sd m i doc doc']
  by (auto simp: session_inv_def put_document_def intro!: store_wf_update)

lemma inv_record:
  assumes "store_wf (am_assemblies m)" "doc_wf doc'" "faithful sd (record_event op (put_document i doc' m))"
  shows "session_inv sd (record_event op (put_document i doc' m))"
  using assms by (auto simp: session_inv_def put_document_def record_event_def intro!: store_wf_update)

lemma inv_document: "session_inv sd m \<Longrightarrow> get_document i m = Some doc \<Longrightarrow> doc_wf doc"
  by (auto simp: session_inv_def store_wf_def get_document_def)

lemma inv_create:
  assumes "session_inv sd m" "uuids_read sd"
  shows "session_inv sd (snd (create_assembly sd i name m))"
proof -
  have wf: "doc_wf (new_assembly i name)" by (simp add: new_assembly_def doc_wf_def)
  have "faithful sd (record_event (op_create sd i name) (put_document i (new_assembly i name) m))"
    unfolding put_document_def
    by (rule faithful_event)
      (use assms in \<open>auto simp: session_inv_def dispatch_create [OF assms(2) refl] intro!: same_docs_update\<close>)
  with wf assms(1) show ?thesis
    by (auto simp: create_assembly_def create_in_registry_def Let_def session_inv_def put_document_def
        record_event_def intro!: store_wf_update)
qed

lemma inv_delete:
  assumes "session_inv sd m" "uuids_read sd"
  shows "session_inv sd (snd (delete_assembly sd i m))"
proof -
  have "faithful sd (record_event (op_delete sd i) (m\<lparr>am_assemblies := AList.delete i (am_assemblies m)\<rparr>))"
    by (rule faithful_event)
      (use assms in \<open>auto simp: session_inv_def dispatch_delete [OF assms(2) refl] same_docs_def delete_conv'\<close>)
  with assms(1) show ?thesis
    by (auto simp: delete_assembly_def session_inv_def store_wf_def record_event_def delete_conv'
        split: option.splits)
qed

context doc_op
begin

lemma inv_route:
  assumes "session_inv sd m"
    and "\<And>st. dispatch_assembly sd (ro_kind op) (record_envelope op) st = on_document kind i why f st"
  shows "session_inv sd (snd (document_route i e f op m))"
  using assms route_wf route_faithful by (auto simp: session_inv_def)

text \<open>A route that works on a copy with the same cached part, and succeeds.\<close>

lemma inv_recorded:
  assumes "session_inv sd m" "get_document i m = Some doc" "forget d0 = forget doc" "doc_wf d0"
    and "f d0 = (True, d1)"
    and "\<And>st. dispatch_assembly sd (ro_kind op) (record_envelope op) st = on_document kind i why f st"
  shows "session_inv sd (record_event op (put_document i d1 m))"
proof (rule inv_record)
  show "store_wf (am_assemblies m)" using assms(1) by (simp add: session_inv_def)
  show "doc_wf d1" using keeps [OF assms(4)] assms(5) by simp
  show "faithful sd (record_event op (put_document i d1 m))"
    using recorded [of sd m i doc d0 op kind why] assms by (simp add: session_inv_def)
qed

end

lemma update_first_append: "\<forall>x \<in> set xs. \<not> P x \<Longrightarrow> update_first P f (xs @ ys) = xs @ update_first P f ys"
  by (induction xs) auto

lemma find_append_new: "\<forall>x \<in> set xs. \<not> P x \<Longrightarrow> find P (xs @ ys) = find P ys"
  by (induction xs) auto

definition placed :: "uuid \<Rightarrow> uuid \<Rightarrow> matrix4 \<Rightarrow> string option \<Rightarrow> rgb option \<Rightarrow> instanced_assembly \<Rightarrow> instanced_assembly" where
  "placed fresh part t name color d = push_instance
     \<lparr>in_id = InstanceId fresh, in_part_id = part, in_transform = t, in_name = name, in_color = color\<rparr> d"

lemma color_placed:
  assumes "InstanceId fresh \<notin> in_id ` set (ia_instances d)"
  shows "snd (set_instance_color (InstanceId fresh) c (placed fresh part t name c' d)) = placed fresh part t name c d"
proof -
  have "\<forall>x \<in> set (ia_instances d). in_id x \<noteq> InstanceId fresh" using assms by (metis image_eqI)
  then show ?thesis by (simp add: set_instance_color_def placed_def push_instance_def update_first_append)
qed

lemma instance_placed:
  assumes "InstanceId fresh \<notin> in_id ` set (ia_instances d)"
  shows "instance_of (InstanceId fresh) (placed fresh part t name c d) =
    Some \<lparr>in_id = InstanceId fresh, in_part_id = part, in_transform = t, in_name = name, in_color = c\<rparr>"
proof -
  have "\<forall>x \<in> set (ia_instances d). in_id x \<noteq> InstanceId fresh" using assms by (metis image_eqI)
  then show ?thesis by (simp add: instance_of_def placed_def push_instance_def find_append_new)
qed

lemma add_with_color_placed:
  assumes "InstanceId fresh \<notin> in_id ` set (ia_instances d)"
  shows "add_with_color (InstanceId fresh) part t name color d = (True, placed fresh part t name color d)"
proof -
  have "add_instance_with_id (InstanceId fresh) part t name d = (True, placed fresh part t name None d)"
    using assms by (simp add: add_instance_with_id_def placed_def list_ex_id)
  then show ?thesis using color_placed [OF assms] by (cases color) (simp_all add: add_with_color_def)
qed

lemma route_placed:
  assumes "InstanceId fresh \<notin> in_id ` set (ia_instances doc)" "get_document i m = Some doc"
  shows "snd (add_instance_route sd i fresh True part t name color m) =
    record_event (op_add_instance sd i
        \<lparr>in_id = InstanceId fresh, in_part_id = part, in_transform = t, in_name = name, in_color = color\<rparr>)
      (put_document i (placed fresh part t name color doc) m)"
proof -
  have "add_instance fresh part t name doc = (InstanceId fresh, placed fresh part t name None doc)"
    by (simp add: add_instance_def placed_def)
  then show ?thesis
    using assms(2) color_placed [OF assms(1)] instance_placed [OF assms(1)]
    by (cases color) (simp_all add: add_instance_route_def Let_def)
qed

lemma inv_place:
  assumes inv: "session_inv sd m" and sd: "uuids_read sd"
    and ok: "call_ok sd ke (Place i fresh known part t name color) m"
  shows "session_inv sd (snd (add_instance_route sd i fresh known part t name color m))"
proof (cases "known \<and> get_document i m \<noteq> None")
  case True
  then obtain doc where doc: "get_document i m = Some doc" by auto
  have fresh: "InstanceId fresh \<notin> in_id ` set (ia_instances doc)" and t: "matrix_ok t"
    and col: "case color of Some c \<Rightarrow> rgb_ok c | None \<Rightarrow> True"
    using ok doc by (simp_all add: call_ok_def)
  let ?x = "\<lparr>in_id = InstanceId fresh, in_part_id = part, in_transform = t, in_name = name, in_color = color\<rparr>"
  have law: "dispatch_assembly sd (ro_kind (op_add_instance sd i ?x)) (record_envelope (op_add_instance sd i ?x)) st =
      on_document (ro_kind (op_add_instance sd i ?x)) i (Duplicate_instance fresh)
        (add_with_color (InstanceId fresh) part t name color) st" for st
    using dispatch_add [OF sd, of ?x "op_add_instance sd i ?x" i st] t col by simp
  have "session_inv sd (record_event (op_add_instance sd i ?x) (put_document i (placed fresh part t name color doc) m))"
    by (rule op_place.inv_recorded [OF inv doc refl inv_document [OF inv doc] add_with_color_placed [OF fresh] law])
  then show ?thesis using True by (simp add: route_placed [OF fresh doc])
qed (auto simp: add_instance_route_def inv split: option.splits)

lemma inv_connect:
  assumes inv: "session_inv sd m" and sd: "uuids_read sd" and ok: "call_ok sd ke (Connect i fresh x chosen) m"
  shows "session_inv sd (snd (create_connector_route sd i fresh x chosen m))"
proof (cases "get_document i m")
  case (Some doc)
  show ?thesis
  proof (cases "create_connector_core fresh x chosen doc")
    case (Pair r doc')
    show ?thesis
    proof (cases r)
      case (Done c)
      then have add: "add_connector c doc = (True, doc')"
        using Pair by (auto simp: create_connector_core_def Let_def split: option.splits prod.splits bool.splits)
      have reads: "connector_reads sd c" using ok Some Pair Done by (simp add: call_ok_def)
      then obtain op where op: "op_connector_add sd i c = Some op"
        by (auto simp: connector_reads_def op_connector_add_def split: option.splits)
      have "session_inv sd (record_event op (put_document i doc' m))"
        by (rule op_connector.inv_recorded [OF inv Some refl inv_document [OF inv Some] add])
          (rule dispatch_connector [OF sd reads op])
      then show ?thesis using Some Pair Done op by (simp add: create_connector_route_def)
    next
      case (Refused e)
      then have "doc' = doc"
        using Pair op_connector.refuses
        by (auto simp: create_connector_core_def Let_def split: option.splits prod.splits bool.splits) (metis fst_conv snd_conv)
      then show ?thesis
        using inv_put [OF inv Some inv_document [OF inv Some] refl] Some Pair Refused
        by (simp add: create_connector_route_def)
    qed
  qed
qed (simp add: create_connector_route_def inv)

lemma reference_inv:
  assumes "doc_wf doc" and "reference_parameters ke k cs doc = (r, doc')"
  shows "doc_wf doc' \<and> forget doc' = forget doc"
  using assms view_inv [OF assms(1)]
  by (auto simp: reference_parameters_def split: if_splits option.splits prod.splits)

lemma inv_join:
  assumes inv: "session_inv sd m" and sd: "uuids_read sd" and ok: "call_ok sd ke (Join i fresh k a b cs) m"
  shows "session_inv sd (snd (create_mate_route sd ke i fresh k a b cs m))"
proof (cases "get_document i m")
  case (Some doc)
  have wf: "doc_wf doc" by (rule inv_document [OF inv Some])
  obtain r doc' where core: "create_mate_core ke fresh k a b cs doc = (r, doc')" by fastforce
  show ?thesis
  proof (cases r)
    case (Done mt)
    obtain d0 where d0: "doc_wf d0" "forget d0 = forget doc" "add_mate mt d0 = (True, doc')"
      using core Done reference_inv [OF wf]
      by (auto simp: create_mate_core_def Let_def split: if_splits option.splits prod.splits bool.splits) blast
    have reads: "mate_reads sd mt" using ok Some core Done by (simp add: call_ok_def)
    have "session_inv sd (record_event (op_mate_add sd i mt) (put_document i doc' m))"
      by (rule op_mate.inv_recorded [OF inv Some d0(2,1,3)]) (rule dispatch_mate [OF sd reads refl])
    then show ?thesis using Some core Done by (simp add: create_mate_route_def)
  next
    case (Refused e)
    have "doc_wf doc' \<and> forget doc' = forget doc"
      using core Refused wf reference_inv [OF wf] op_mate.refuses
      by (auto simp: create_mate_core_def Let_def split: if_splits option.splits prod.splits bool.splits)
        (metis fst_conv snd_conv)+
    then show ?thesis
      using inv_put [OF inv Some] Some core Refused by (simp add: create_mate_route_def)
  qed
qed (simp add: create_mate_route_def inv)

lemma view_nth:
  assumes "ids = map (instance_uuid \<circ> in_id) xs" "n < length xs"
  shows "InstanceId (ids ! n) \<in> in_id ` set xs"
proof -
  have "InstanceId (ids ! n) = in_id (xs ! n)"
    using assms by (cases "in_id (xs ! n)") simp
  then show ?thesis using assms(2) by (metis image_eqI nth_mem)
qed

text \<open>A motion either writes readable poses of instances of the document over refreshed frames, or only
  refreshes frames.\<close>

definition moves_well :: "instanced_assembly \<Rightarrow> pose_out list option core_result \<Rightarrow> instanced_assembly \<Rightarrow> bool" where
  "moves_well doc r doc' \<longleftrightarrow>
     (case r of
        Done (Some out) \<Rightarrow>
          (\<exists>d1. doc_wf d1 \<and> forget d1 = forget doc \<and> doc' = move_all out d1) \<and>
          list_all (\<lambda>(u, t). matrix_ok t \<and> InstanceId u \<in> in_id ` set (ia_instances doc)) out
      | _ \<Rightarrow> doc_wf doc' \<and> forget doc' = forget doc)"

lemma inv_motion:
  assumes inv: "session_inv sd m" and sd: "uuids_read sd"
    and core: "\<And>doc r doc'. get_document i m = Some doc \<Longrightarrow> core doc = (r, doc') \<Longrightarrow> moves_well doc r doc'"
  shows "session_inv sd (snd (motion_route sd i core m))"
proof (cases "get_document i m")
  case (Some doc)
  obtain r doc' where r: "core doc = (r, doc')" by fastforce
  note c = core [OF Some r]
  show ?thesis
  proof (cases "\<exists>out. r = Done (Some out)")
    case True
    then obtain out where out: "r = Done (Some out)" by blast
    with c obtain d1 where d1: "doc_wf d1" "forget d1 = forget doc" "doc' = move_all out d1"
      and ok: "list_all (\<lambda>(u, t). matrix_ok t \<and> InstanceId u \<in> in_id ` set (ia_instances doc)) out"
      by (auto simp: moves_well_def)
    have "faithful sd (record_event (op_solve sd i out) (put_document i doc' m))"
      using faithful_solve [OF _ sd Some d1(2) ok] inv d1(3) by (simp add: session_inv_def)
    moreover have "doc_wf doc'" using fold_transform_inv [OF d1(1)] d1(3) by simp
    ultimately show ?thesis
      using inv_record inv Some r out by (simp add: motion_route_def session_inv_def)
  next
    case False
    then have "doc_wf doc' \<and> forget doc' = forget doc"
      using c by (auto simp: moves_well_def split: core_result.splits option.splits)
    then show ?thesis
      using inv_put [OF inv Some] Some r False
      by (auto simp: motion_route_def split: core_result.splits option.splits)
  qed
qed (simp add: motion_route_def inv)

lemma solve_core_meets:
  assumes wf: "doc_wf doc" and ok: "poses_ok ke doc" and core: "solve_core ke g doc = (r, doc')"
  shows "moves_well doc r doc'"
proof -
  obtain v d1 where v: "build_engine_view ke g doc = (v, d1)" by fastforce
  note d1 = view_inv [OF wf v]
  show ?thesis
  proof (cases "\<exists>view. v = Some view \<and> ev_stale view = []")
    case True
    then obtain view where view: "v = Some view" "ev_stale view = []" by blast
    have ids: "ev_instance_ids view = map (instance_uuid \<circ> in_id) (ia_instances doc)"
      using view_ids v view d1 by (auto simp: forget_eq_iff)
    have ps: "list_all (\<lambda>(i, t). i < length (ia_instances doc) \<and> matrix_ok t) (ke_solve ke view)"
      using ok ids by (simp add: poses_ok_def)
    then have "list_all (\<lambda>(i, t). i < length (ev_instance_ids view)) (ke_solve ke view)"
      by (auto simp: ids list_all_iff)
    note done_it = write_poses_done [OF this, of d1]
    have "list_all (\<lambda>(u, t). matrix_ok t \<and> InstanceId u \<in> in_id ` set (ia_instances doc))
        (map (\<lambda>(i, t). (ev_instance_ids view ! i, t)) (ke_solve ke view))"
      using ps view_nth [OF ids] by (auto simp: list_all_iff)
    then show ?thesis
      using core v view d1 done_it by (auto simp: solve_core_def moves_well_def)
  next
    case False
    then show ?thesis using core v d1 by (auto simp: solve_core_def moves_well_def split: option.splits if_splits)
  qed
qed

lemma drag_core_meets:
  assumes wf: "doc_wf doc" and ok: "poses_ok ke doc" and core: "drag_core ke g mid doc = (r, doc')"
  shows "moves_well doc r doc'"
proof -
  obtain v d1 where v: "build_engine_view ke g doc = (v, d1)" by fastforce
  note d1 = view_inv [OF wf v]
  show ?thesis
  proof (cases "r = Done None \<or> (\<exists>e. r = Refused e)")
    case True
    then show ?thesis
      using core v d1
      by (auto simp: drag_core_def moves_well_def write_known_poses_def Let_def split: option.splits if_splits prod.splits)
  next
    case False
    then obtain view n ps where view: "v = Some view" "ke_drag ke view n = Some (True, ps)"
      and res: "r = Done (Some (fst (write_known_poses (ev_instance_ids view) ps d1)))"
        "doc' = snd (write_known_poses (ev_instance_ids view) ps d1)"
      using core v by (auto simp: drag_core_def split_def Let_def split: option.splits if_splits) blast
    have ids: "ev_instance_ids view = map (instance_uuid \<circ> in_id) (ia_instances doc)"
      using view_ids v view d1 by (auto simp: forget_eq_iff)
    have "length (ev_instance_ids view) = length (ia_instances doc)" by (simp add: ids)
    then have ps: "list_all (\<lambda>(i, t). matrix_ok t) ps" using ok view(2) unfolding poses_ok_def by blast
    let ?out = "map (\<lambda>(i, t). (ev_instance_ids view ! i, t)) (filter (\<lambda>(i, t). i < length (ev_instance_ids view)) ps)"
    have "write_known_poses (ev_instance_ids view) ps d1 = (?out, move_all ?out d1)"
      by (simp add: write_known_poses_def move_all_fold Let_def)
    moreover have "list_all (\<lambda>(u, t). matrix_ok t \<and> InstanceId u \<in> in_id ` set (ia_instances doc)) ?out"
      using ps view_nth [OF ids] ids by (auto simp: list_all_iff)
    ultimately show ?thesis using res d1 by (auto simp: moves_well_def)
  qed
qed

lemma inv_call:
  assumes "session_inv sd m" "uuids_read sd" "call_ok sd ke c m"
  shows "session_inv sd (snd (run_call sd ke c m))"
proof (cases c)
  case (New_assembly i name)
  then show ?thesis using inv_create assms by simp
next
  case (Drop_assembly i)
  then show ?thesis using inv_delete assms by simp
next
  case (Place i fresh known part t name color)
  then show ?thesis using inv_place assms by simp
next
  case (Move i x t)
  show ?thesis
  proof (cases "get_document i m")
    case None
    then show ?thesis using assms(1) by (simp add: Move transform_instance_route_def document_route_def)
  next
    case (Some d)
    then have "matrix_ok t" using assms(3) by (simp add: Move call_ok_def)
    then show ?thesis
      using op_transform.inv_route [OF assms(1) dispatch_transform [OF assms(2) _ refl]]
      by (simp add: Move transform_instance_route_def)
  qed
next
  case (Unplace i x)
  then show ?thesis
    using op_remove.inv_route [OF assms(1) dispatch_remove [OF assms(2) refl]] by (simp add: remove_instance_route_def)
next
  case (Connect i fresh x chosen)
  then show ?thesis using inv_connect assms by simp
next
  case (Disconnect i cn)
  then show ?thesis
    using op_unconnect.inv_route [OF assms(1) dispatch_disconnect [OF assms(2) refl]]
    by (simp add: delete_connector_route_def)
next
  case (Join i fresh k a b cs)
  then show ?thesis using inv_join assms by simp
next
  case (Rekind i mt k)
  show ?thesis
  proof (cases "get_document i m")
    case None
    then show ?thesis using assms(1) by (simp add: Rekind patch_mate_route_def document_route_def)
  next
    case (Some d)
    then have "de_kind sd (ser_kind sd k) = Some k" using assms(3) by (simp add: Rekind call_ok_def)
    then show ?thesis
      using op_kind.inv_route [OF assms(1) dispatch_kind [OF assms(2) _ refl]] by (simp add: Rekind patch_mate_route_def)
  qed
next
  case (Unjoin i mt)
  then show ?thesis
    using op_unmate.inv_route [OF assms(1) dispatch_unmate [OF assms(2) refl]] by (simp add: delete_mate_route_def)
next
  case (Solve i g)
  have "session_inv sd (snd (motion_route sd i (solve_core ke g) m))"
  proof (rule inv_motion [OF assms(1,2)])
    fix doc r doc' assume d: "get_document i m = Some doc" and core: "solve_core ke g doc = (r, doc')"
    from d assms(3) have "poses_ok ke doc" by (simp add: Solve call_ok_def)
    from solve_core_meets [OF inv_document [OF assms(1) d] this core] show "moves_well doc r doc'" .
  qed
  then show ?thesis by (simp add: Solve solve_route_def)
next
  case (Drag i g mt)
  have "session_inv sd (snd (motion_route sd i (drag_core ke g mt) m))"
  proof (rule inv_motion [OF assms(1,2)])
    fix doc r doc' assume d: "get_document i m = Some doc" and core: "drag_core ke g mt doc = (r, doc')"
    from d assms(3) have "poses_ok ke doc" by (simp add: Drag call_ok_def)
    from drag_core_meets [OF inv_document [OF assms(1) d] this core] show "moves_well doc r doc'" .
  qed
  then show ?thesis by (simp add: Drag drag_route_def)
qed

lemma session_invariant: "session sd ke m \<Longrightarrow> uuids_read sd \<Longrightarrow> session_inv sd m"
proof (induction rule: session.induct)
  case session_start
  show ?case
    by (simp add: session_inv_def store_wf_def empty_manager_def faithful_def replay_ops_def same_docs_def)
qed (rule inv_call)

section \<open>Well-formedness, whatever is called or replayed\<close>

context doc_op
begin

lemma on_document_wf: "store_wf st \<Longrightarrow> store_wf (snd (on_document kind i why f st))"
  by (auto simp: on_document_def Let_def store_wf_def update_conv' split_def intro: keeps split: option.splits if_splits)

end

lemma reading_wf:
  assumes "store_wf st" and "\<And>x. r = Ok x \<Longrightarrow> store_wf (snd (f x st))"
  shows "store_wf (snd (reading r f st))"
  using assms by (cases r) auto

lemma apply_poses_wf: "doc_wf d \<Longrightarrow> doc_wf (snd (apply_poses sd kind poses d))"
proof (induction poses arbitrary: d)
  case (Cons pose poses)
  then show ?case
    using wf_transform by (cases "read_pose sd kind pose") (auto simp: split_def Let_def)
qed simp

lemma dispatch_solve_wf: "store_wf st \<Longrightarrow> store_wf (snd (dispatch_solve sd kind inner st))"
  unfolding dispatch_solve_def
  by (intro reading_wf)
    (auto simp: store_wf_def update_conv' split_def Let_def split: option.splits if_splits intro!: apply_poses_wf)

lemma dispatch_add_wf: "store_wf st \<Longrightarrow> store_wf (snd (dispatch_add_instance sd kind inner st))"
  unfolding dispatch_add_instance_def by (intro reading_wf op_place.on_document_wf)

lemma dispatch_instance_wf: "store_wf st \<Longrightarrow> store_wf (snd (dispatch_on_instance sd kind inner st))"
  unfolding dispatch_on_instance_def
  by (intro reading_wf) (simp_all add: op_remove.on_document_wf op_color.on_document_wf reading_wf op_transform.on_document_wf)

lemma dispatch_mates_wf: "store_wf st \<Longrightarrow> store_wf (snd (dispatch_on_mates sd kind inner st))"
  unfolding dispatch_on_mates_def
  by (intro reading_wf)
    (simp_all add: reading_wf op_connector.on_document_wf op_unconnect.on_document_wf op_mate.on_document_wf
      op_kind.on_document_wf op_unmate.on_document_wf)

lemma dispatch_wf:
  assumes "store_wf st"
  shows "store_wf (snd (dispatch_assembly sd kind ps st))"
proof -
  have new: "doc_wf (new_assembly i name)" for i name by (simp add: new_assembly_def doc_wf_def)
  have gone: "store_wf (AList.delete i st)" for i using assms by (auto simp: store_wf_def delete_conv')
  show ?thesis
    unfolding dispatch_assembly_def Let_def
    using assms
    by (simp add: dispatch_add_wf dispatch_instance_wf dispatch_mates_wf dispatch_solve_wf reading_wf
        store_wf_update new gone)
qed

fun place_fresh :: "assembly_call \<Rightarrow> assembly_manager \<Rightarrow> bool" where
  "place_fresh (Place i fresh known part t name color) m \<longleftrightarrow>
     (case get_document i m of Some d \<Rightarrow> InstanceId fresh \<notin> in_id ` set (ia_instances d) | None \<Rightarrow> True)"
| "place_fresh c m \<longleftrightarrow> True"

lemma store_wf_put: "store_wf (am_assemblies m) \<Longrightarrow> doc_wf d \<Longrightarrow> store_wf (am_assemblies (put_document i d m))"
  by (simp add: put_document_def store_wf_update)

lemma record_keeps [simp]: "am_assemblies (record_event op m) = am_assemblies m"
  by (simp add: record_event_def)

lemma wf_placed:
  "doc_wf d \<Longrightarrow> InstanceId fresh \<notin> in_id ` set (ia_instances d) \<Longrightarrow> doc_wf (placed fresh part t name color d)"
  unfolding placed_def by (intro wf_push) simp_all

lemma wf_connector_core: "doc_wf d \<Longrightarrow> doc_wf (snd (create_connector_core fresh x chosen d))"
  using op_connector.keeps
  by (auto simp: create_connector_core_def Let_def split: option.splits prod.splits bool.splits) (metis snd_conv)+

lemma wf_mate_core: "doc_wf d \<Longrightarrow> doc_wf (snd (create_mate_core ke fresh k a b cs d))"
  using op_mate.keeps reference_inv
  by (auto simp: create_mate_core_def Let_def split: option.splits prod.splits bool.splits) (metis snd_conv)+

lemma wf_solve_core: "doc_wf d \<Longrightarrow> doc_wf (snd (solve_core ke g d))"
  using view_inv write_poses_wf
  by (auto simp: solve_core_def split: option.splits prod.splits core_result.splits) (metis snd_conv)+

lemma wf_drag_core: "doc_wf d \<Longrightarrow> doc_wf (snd (drag_core ke g mid d))"
  using view_inv fold_transform_inv
  by (auto simp: drag_core_def write_known_poses_def move_all_fold Let_def split: option.splits prod.splits)

lemma motion_wf:
  assumes "store_wf (am_assemblies m)" and "\<And>d. doc_wf d \<Longrightarrow> doc_wf (snd (core d))"
  shows "store_wf (am_assemblies (snd (motion_route sd i core m)))"
proof (cases "get_document i m")
  case (Some d)
  then have "doc_wf (snd (core d))" using assms by (simp add: store_wf_def get_document_def)
  with assms(1) Some show ?thesis
    by (auto simp: motion_route_def store_wf_put split: prod.splits core_result.splits option.splits)
qed (simp add: motion_route_def assms(1))

lemma call_wf:
  assumes wf: "store_wf (am_assemblies m)" and fresh: "place_fresh c m"
  shows "store_wf (am_assemblies (snd (run_call sd ke c m)))"
proof -
  have doc: "doc_wf d" if "get_document i m = Some d" for i d
    using wf that by (simp add: store_wf_def get_document_def)
  show ?thesis
  proof (cases c)
    case (New_assembly i name)
    have "doc_wf (new_assembly i name)" by (simp add: new_assembly_def doc_wf_def)
    then show ?thesis
      using wf by (simp add: New_assembly create_assembly_def create_in_registry_def store_wf_update)
  next
    case (Drop_assembly i)
    have "store_wf (AList.delete i (am_assemblies m))" using wf by (auto simp: store_wf_def delete_conv')
    then show ?thesis using wf by (simp add: Drop_assembly delete_assembly_def split: option.splits)
  next
    case (Place i fresh known part t name color)
    show ?thesis
    proof (cases "known \<and> get_document i m \<noteq> None")
      case True
      then obtain d where d: "get_document i m = Some d" by auto
      then have new: "InstanceId fresh \<notin> in_id ` set (ia_instances d)" using fresh Place by simp
      show ?thesis
        using True route_placed [OF new d] wf_placed [OF doc [OF d] new] wf by (simp add: Place store_wf_put)
    next
      case False
      then show ?thesis using wf by (auto simp: Place add_instance_route_def split: option.splits)
    qed
  next
    case (Connect i fresh x chosen)
    then show ?thesis
      using wf doc wf_connector_core [of _ fresh x chosen]
      by (auto simp: create_connector_route_def split: option.splits prod.splits core_result.splits
          intro!: store_wf_put) (metis snd_conv)+
  next
    case (Join i fresh k a b cs)
    then show ?thesis
      using wf doc wf_mate_core [of _ ke fresh k a b cs]
      by (auto simp: create_mate_route_def split: option.splits prod.splits core_result.splits
          intro!: store_wf_put) (metis snd_conv)+
  next
    case (Solve i g)
    then show ?thesis using motion_wf [OF wf wf_solve_core] by (simp add: solve_route_def)
  next
    case (Drag i g mt)
    then show ?thesis using motion_wf [OF wf wf_drag_core] by (simp add: drag_route_def)
  qed (use wf in \<open>simp_all add: transform_instance_route_def remove_instance_route_def delete_connector_route_def
        patch_mate_route_def delete_mate_route_def op_transform.route_wf op_remove.route_wf op_unconnect.route_wf
        op_kind.route_wf op_unmate.route_wf\<close>)
qed

end
