(* ===== verification/Assembly_Results.thy ===== *)
theory Assembly_Results
  imports Assembly_Replay_Props
begin

text \<open>
  The results on assemblies: well-formed documents, faithful replay, and the states from which no
  solve succeeds any more.
\<close>

section \<open>Sample parameters\<close>

definition sample_serde :: doc_serde where
  "sample_serde =
     \<lparr>sd_fmt = (\<lambda>u. map (\<lambda>b. char_of (unat b)) (uuid_bytes u)),
      sd_parse = (\<lambda>s. Some (uuid_from_bytes (map (\<lambda>c. of_nat (of_char c)) s))),
      ser_connector = (\<lambda>c. case mc_anchor c of FacePid p \<Rightarrow> (if p < 2 ^ 64 then Some Json_Null else None) | _ \<Rightarrow> Some Json_Null),
      de_connector = (\<lambda>v. None), ser_mate = (\<lambda>m. Json_Null), de_mate = (\<lambda>v. None),
      ser_kind = (\<lambda>k. Json_Null), de_kind = (\<lambda>v. None)\<rparr>"

definition sample_kernel :: kernel where
  "sample_kernel = \<lparr>ke_rigid = (\<lambda>m. True), ke_live = (\<lambda>a. None), ke_joint = (\<lambda>v n. None),
     ke_solve = (\<lambda>v. []), ke_drag = (\<lambda>v n. None)\<rparr>"

lemma byte_small: "unat (b :: byte) < 256"
  by (rule order_less_le_trans [OF unsigned_less]) simp

lemma sample_uuids: "uuids_read sample_serde"
proof -
  have "map (\<lambda>c. of_nat (of_char c)) (map (\<lambda>b. char_of (unat b) :: char) bs) = (bs :: byte list)" for bs
    by (induction bs) (simp_all add: of_char_of take_bit_nat_def byte_small)
  then show ?thesis
    by (simp add: uuids_read_def sample_serde_def uuid_from_bytes_bytes)
qed

definition zero_matrix :: matrix4 where
  "zero_matrix = replicate 4 (replicate 4 0)"

lemma zero_matrix_ok: "matrix_ok zero_matrix"
  by (simp add: matrix_ok_def zero_matrix_def list_all_iff is_finite_def f64_magnitude_def f64_infinity_def)

section \<open>Well-formedness and replay\<close>

text \<open>C28. Whatever route is called and whatever event is replayed, with any payload, every assembly
  document stays well-formed: identifiers are unique, each connector sits on an instance of the
  document, and each mate joins two of its connectors on different instances.\<close>

theorem documents_well_formed:
  assumes "store_wf (am_assemblies m)" and "store_wf st" and "place_fresh c m"
  shows "store_wf (am_assemblies (snd (run_call sd ke c m))) \<and>
         store_wf (snd (dispatch_assembly sd kind ps st))"
  using call_wf [OF assms(1,3)] dispatch_wf [OF assms(2)] by blast

lemma documents_well_formed_witness:
  "store_wf (am_assemblies (snd (run_call sample_serde sample_kernel (New_assembly 1 ''rig'') empty_manager)))"
  using documents_well_formed [of empty_manager "[]" "New_assembly 1 ''rig''" sample_serde sample_kernel "[]" Json_Null]
  by (simp add: empty_manager_def store_wf_def)



section \<open>What replay misses\<close>

text \<open>A connector whose payload cannot be written as JSON is stored before the handler panics: the
  document keeps it, the log never learns of it.\<close>

theorem unwritable_connector_is_lost:
  assumes "get_document i m = Some doc" and "instance_of (InstanceId x) doc \<noteq> None"
    and "MateConnectorId fresh \<notin> mc_id ` set (ia_connectors doc)"
    and "ser_connector sd \<lparr>mc_id = MateConnectorId fresh, mc_instance = InstanceId x, mc_anchor = a,
           mc_frame = f, mc_radius = r\<rparr> = None"
  shows "\<exists>m' doc'. create_connector_route sd i fresh x (Some (a, f, r)) m = (Panic, m') \<and>
           get_document i m' = Some doc' \<and> connector_of (MateConnectorId fresh) doc' \<noteq> None \<and>
           am_recorder m' = am_recorder m"
proof -
  let ?c = "\<lparr>mc_id = MateConnectorId fresh, mc_instance = InstanceId x, mc_anchor = a, mc_frame = f, mc_radius = r\<rparr>"
  have "list_ex (\<lambda>y. in_id y = InstanceId x) (ia_instances doc)"
    using assms(2) find_id [of in_id "InstanceId x" "ia_instances doc"] by (simp add: instance_of_def list_ex_id)
  then have "create_connector_core fresh x (Some (a, f, r)) doc =
      (Done ?c, doc\<lparr>ia_connectors := ia_connectors doc @ [?c]\<rparr>)"
    using assms(2,3) by (auto simp: create_connector_core_def add_connector_def list_ex_id Let_def split: option.splits)
  moreover have "connector_of (MateConnectorId fresh) (doc\<lparr>ia_connectors := ia_connectors doc @ [?c]\<rparr>) \<noteq> None"
    unfolding connector_of_def by (subst find_id) simp
  ultimately show ?thesis
    using assms(1,4)
    by (simp add: create_connector_route_def op_connector_add_def put_document_def get_document_def update_conv')
qed

lemma unwritable_connector_is_lost_witness:
  "\<exists>m' doc'. create_connector_route sample_serde 1 7 10 (Some (FacePid (2 ^ 77), no_frame, None))
       \<lparr>am_assemblies = [(1, placed 10 5 zero_matrix None None (new_assembly 1 ''rig''))], am_recorder = Some []\<rparr> = (Panic, m') \<and>
     get_document 1 m' = Some doc' \<and> connector_of (MateConnectorId 7) doc' \<noteq> None \<and> am_recorder m' = Some []"
  using unwritable_connector_is_lost
    [of 1 "\<lparr>am_assemblies = [(1, placed 10 5 zero_matrix None None (new_assembly 1 ''rig''))], am_recorder = Some []\<rparr>"
        "placed 10 5 zero_matrix None None (new_assembly 1 ''rig'')" 10 7 sample_serde "FacePid (2 ^ 77)" no_frame None]
  by (simp add: get_document_def placed_def push_instance_def new_assembly_def instance_of_def sample_serde_def)

section \<open>Couplings without their joints\<close>

lemma uncoupled_kind:
  assumes "is_coupling k" and "couple_idx cs idx 0 = None"
  shows "engine_kind k cs xs ra rb idx = None"
  using assms by (cases k) (auto simp: is_coupling_def couple_two_def split: option.splits)

lemma option_list_None: "x \<in> set xs \<Longrightarrow> f x = None \<Longrightarrow> option_list (map f xs) = None"
  by (induction xs) (auto split: option.splits)

lemma index_where_None: "index_where P xs = None \<longleftrightarrow> \<not> list_ex P xs"
  by (induction xs) auto

text \<open>The first coupled joint is missing from the document.\<close>

definition uncoupled :: "doc_mate \<Rightarrow> instanced_assembly \<Rightarrow> bool" where
  "uncoupled m d \<longleftrightarrow>
     is_coupling (dm_kind m) \<and>
     (dm_couples m = [] \<or> hd (dm_couples m) \<notin> dm_id ` set (ia_mates d))"

lemma refresh_mates [simp]: "ia_mates (refresh_frames ke d) = ia_mates d"
proof -
  have "ia_mates (fold (\<lambda>c d. case resolve_connector ke c of
      Some (f, r) \<Rightarrow> snd (set_connector_frame (mc_id c) f r d) | None \<Rightarrow> d) cs d) = ia_mates d" for cs d
    by (induction cs arbitrary: d) (auto simp: set_connector_frame_def split: option.splits)
  then show ?thesis by (simp add: refresh_frames_def)
qed

lemma uncoupled_blocks:
  assumes "m \<in> set (ia_mates d)" and "uncoupled m d"
  shows "fst (build_engine_view ke g d) = None"
proof -
  have "engine_mate_of (refresh_frames ke d) m = None"
  proof -
    have "couple_idx (dm_couples m) (\<lambda>i. index_where (\<lambda>x. dm_id x = i) (ia_mates d)) 0 = None"
      using assms(2) by (cases "dm_couples m") (auto simp: uncoupled_def couple_idx_def index_where_None list_ex_id)
    with assms(2) show ?thesis
      by (auto simp: engine_mate_of_def uncoupled_def uncoupled_kind split: option.splits)
  qed
  with assms(1) have "option_list (map (engine_mate_of (refresh_frames ke d)) (ia_mates d)) = None"
    by (rule option_list_None)
  then show ?thesis by (simp add: build_engine_view_def Let_def split: option.splits)
qed

lemma blocked_solve:
  assumes "m \<in> set (ia_mates d)" and "uncoupled m d"
  shows "fst (solve_core ke g d) = Refused InvalidParameter"
  using uncoupled_blocks [OF assms, of ke g] by (cases "build_engine_view ke g d") (auto simp: solve_core_def)

text \<open>Removing an instance drops the mates on it but not the couplings that name them: a coupling
  between two other instances stays behind without its joint, and from then on every solve of the
  assembly is refused, whatever the geometry.\<close>

theorem removed_instance_blocks_solve:
  assumes "doc_wf d" and "i \<in> in_id ` set (ia_instances d)"
    and "g \<in> set (ia_mates d)" and "is_coupling (dm_kind g)" and "dm_couples g = dm_id j # rest"
    and "j \<in> set (ia_mates d)" and "connector_of (dm_a j) d = Some c" and "mc_instance c = i"
    and "connector_of (dm_a g) d = Some ca" and "mc_instance ca \<noteq> i"
    and "connector_of (dm_b g) d = Some cb" and "mc_instance cb \<noteq> i"
  shows "fst (remove_instance i d) \<and>
         (\<forall>ke ground. fst (solve_core ke ground (snd (remove_instance i d))) = Refused InvalidParameter)"
proof -
  have ids: "distinct (map mc_id (ia_connectors d))" and mids: "distinct (map dm_id (ia_mates d))"
    using assms(1) by (simp_all add: doc_wf_def)
  have found: "x \<in> set (ia_connectors d) \<and> mc_id x = k" if "connector_of k d = Some x" for x k
    using that by (auto simp: connector_of_def find_Some_iff)
  have keep: "k \<notin> mc_id ` set (filter (\<lambda>c. mc_instance c = i) (ia_connectors d))"
    if "connector_of k d = Some x" "mc_instance x \<noteq> i" for x k
    using found [OF that(1)] that(2) ids by (auto simp: distinct_map inj_on_def)
  have gone: "dm_a j \<in> mc_id ` set (filter (\<lambda>c. mc_instance c = i) (ia_connectors d))"
    using found [OF assms(7)] assms(8) by force
  let ?d = "snd (remove_instance i d)"
  have g: "g \<in> set (ia_mates ?d)"
    using assms(2,3) keep [OF assms(9,10)] keep [OF assms(11,12)] by (simp add: remove_instance_eq drop_connectors_eq)
  have "dm_id j \<notin> dm_id ` set (ia_mates ?d)"
  proof
    assume "dm_id j \<in> dm_id ` set (ia_mates ?d)"
    then obtain j' where j': "j' \<in> set (ia_mates ?d)" "dm_id j' = dm_id j" by auto
    then have "j' \<in> set (ia_mates d)" "dm_a j' \<notin> mc_id ` set (filter (\<lambda>c. mc_instance c = i) (ia_connectors d))"
      using assms(2) by (simp_all add: remove_instance_eq drop_connectors_eq)
    moreover have "j' = j" using mids j'(2) \<open>j' \<in> set (ia_mates d)\<close> assms(6) by (auto simp: distinct_map inj_on_def)
    ultimately show False using gone by simp
  qed
  then have "uncoupled g ?d" using assms(4,5) by (simp add: uncoupled_def)
  then show ?thesis using blocked_solve [OF g] assms(2) by (simp add: remove_instance_eq)
qed

text \<open>Three bodies: 1 is the ground, joints 100 and 101 hold 2 and 3 on it, gear 102 couples them.\<close>

definition sample_instance :: "uuid \<Rightarrow> doc_instance" where
  "sample_instance u = \<lparr>in_id = InstanceId u, in_part_id = 5, in_transform = zero_matrix, in_name = None, in_color = None\<rparr>"

definition sample_connector :: "uuid \<Rightarrow> uuid \<Rightarrow> mate_connector" where
  "sample_connector u x = \<lparr>mc_id = MateConnectorId u, mc_instance = InstanceId x, mc_anchor = RawFrame,
     mc_frame = no_frame, mc_radius = None\<rparr>"

definition sample_joint :: "uuid \<Rightarrow> doc_mate_kind \<Rightarrow> uuid \<Rightarrow> uuid \<Rightarrow> mate_id list \<Rightarrow> f64 list \<Rightarrow> doc_mate" where
  "sample_joint u k a b cs xs = \<lparr>dm_id = DocMateId u, dm_kind = k, dm_a = MateConnectorId a, dm_b = MateConnectorId b,
     dm_couples = cs, dm_at = xs\<rparr>"

definition geared :: instanced_assembly where
  "geared = \<lparr>ia_id = 1, ia_name = ''gears'',
     ia_instances = [sample_instance 1, sample_instance 2, sample_instance 3],
     ia_connectors = [sample_connector 11 1, sample_connector 12 2, sample_connector 13 3],
     ia_mates = [sample_joint 100 (Revolute None) 11 12 [] [], sample_joint 101 (Revolute None) 11 13 [] [],
       sample_joint 102 (GearRatio 0) 12 13 [DocMateId 100, DocMateId 101] [0, 0]]\<rparr>"

lemmas geared_simps = geared_def sample_instance_def sample_connector_def sample_joint_def

lemma geared_wf: "doc_wf geared"
  by (simp add: geared_simps doc_wf_def mate_joins_def)

lemma geared_solves: "fst (solve_core sample_kernel None geared) = Done (Some [])"
  by (simp add: geared_simps solve_core_def build_engine_view_def sample_kernel_def ground_index_def
      refresh_frames_def stale_connectors_def resolve_connector_def set_connector_frame_def engine_mate_of_def
      connector_of_def couple_two_def at2_def couple_idx_def)

lemma removed_instance_blocks_solve_witness:
  "fst (solve_core sample_kernel None geared) = Done (Some []) \<and>
   (\<forall>ke ground. fst (solve_core ke ground (snd (remove_instance (InstanceId 1) geared))) = Refused InvalidParameter)"
  using geared_solves geared_wf
    removed_instance_blocks_solve [of geared "InstanceId 1" "sample_joint 102 (GearRatio 0) 12 13 [DocMateId 100, DocMateId 101] [0, 0]"
      "sample_joint 100 (Revolute None) 11 12 [] []" "[DocMateId 101]" "sample_connector 11 1"
      "sample_connector 12 2" "sample_connector 13 3"]
  by (simp add: geared_simps is_coupling_def connector_of_def)

text \<open>Changing the kind of a mate to a coupling is accepted without the joints it couples, although
  creating such a mate is refused: every later solve of the assembly is refused.\<close>

theorem rekinded_mate_blocks_solve:
  assumes "doc_wf d" and "m \<in> set (ia_mates d)" and "dm_couples m = []" and "is_coupling k"
  shows "fst (create_mate_core ke fresh k a b [] d) = Refused InvalidParameter \<and>
         fst (set_mate_kind (dm_id m) k d) \<and>
         (\<forall>ke ground. fst (solve_core ke ground (snd (set_mate_kind (dm_id m) k d))) = Refused InvalidParameter)"
proof -
  have refused: "fst (create_mate_core ke fresh k a b [] d) = Refused InvalidParameter"
    using assms(4) by (simp add: create_mate_core_def is_coupling_def)
  let ?d = "snd (set_mate_kind (dm_id m) k d)"
  have upd: "m\<lparr>dm_kind := k\<rparr> \<in> set (update_first (\<lambda>x. dm_id x = dm_id m) (\<lambda>x. x\<lparr>dm_kind := k\<rparr>) ms)"
    if "m \<in> set ms" "distinct (map dm_id ms)" for ms
    using that by (induction ms) (auto simp: image_iff)
  have "m\<lparr>dm_kind := k\<rparr> \<in> set (ia_mates ?d)"
    using upd assms(1,2) by (simp add: set_mate_kind_def doc_wf_def)
  moreover have "uncoupled (m\<lparr>dm_kind := k\<rparr>) ?d" using assms(3,4) by (simp add: uncoupled_def)
  moreover have "fst (set_mate_kind (dm_id m) k d)"
    using assms(2) find_id [of dm_id "dm_id m" "ia_mates d"] by (auto simp: set_mate_kind_def mate_of_def split: option.splits)
  ultimately show ?thesis using blocked_solve refused by blast
qed

lemma rekinded_mate_blocks_solve_witness:
  "fst (create_mate_core sample_kernel 200 (Screw 0) 11 12 [] geared) = Refused InvalidParameter \<and>
   fst (set_mate_kind (DocMateId 101) (Screw 0) geared) \<and>
   (\<forall>ke ground. fst (solve_core ke ground (snd (set_mate_kind (DocMateId 101) (Screw 0) geared))) = Refused InvalidParameter)"
  using rekinded_mate_blocks_solve [OF geared_wf, of "sample_joint 101 (Revolute None) 11 13 [] []" "Screw 0" sample_kernel 200 11 12]
  by (simp add: geared_simps is_coupling_def)

end
