(* ===== verification/Brep_Model.thy ===== *)
theory Brep_Model
  imports Solid_Store Kernel_Ref
begin

text \<open>
  The kernel's model as a container: \<^verbatim>\<open>BRepModel\<close> of
  \<^verbatim>\<open>geometry-engine/src/primitives/topology_builder.rs\<close> with its provenance
  (\<^verbatim>\<open>provenance.rs\<close>), its deep copy \<^verbatim>\<open>ModelSnapshot\<close> (\<^verbatim>\<open>snapshot.rs\<close>) and what resets it.

  A store of entities is its live entities by identifier; what an entity is made of, and every
  annotation the container only keeps, is the type parameter. A recorder is its identity.
\<close>

section \<open>Provenance\<close>

datatype primitive_kind = PK_Box | PK_Sphere | PK_Cylinder | PK_Cone | PK_Torus | PK_Plane | PK_Other

datatype operation_kind =
    OK_Primitive primitive_kind | OK_Extrude | OK_Revolve | OK_Loft | OK_NurbsLoft | OK_Sweep | OK_Boolean
  | OK_Fillet | OK_Chamfer | OK_Shell | OK_Transform | OK_Other string

fun is_designed :: "operation_kind \<Rightarrow> bool" where
  "is_designed k \<longleftrightarrow>
     k \<in> {OK_Extrude, OK_Revolve, OK_Loft, OK_NurbsLoft, OK_Sweep, OK_Boolean, OK_Fillet, OK_Chamfer, OK_Shell}"

fun is_primitive :: "operation_kind \<Rightarrow> bool" where
  "is_primitive (OK_Primitive k) = True"
| "is_primitive k = False"

record provenance_record =
  created_by :: operation_kind
  pr_inputs :: "solid_id list"

datatype length_unit = Millimetre | Centimetre | Metre | Inch | Foot

section \<open>The model\<close>

type_synonym entity_index = "32 word"
type_synonym persistent_id = "128 word"
type_synonym recorder_id = nat

record 'g brep_model =
  br_vertices :: "(entity_index, 'g) dmap"
  br_curves :: "(entity_index, 'g) dmap"
  br_pcurves :: "(entity_index, 'g) dmap"
  br_edges :: "(entity_index, 'g) dmap"
  br_loops :: "(entity_index, 'g) dmap"
  br_surfaces :: "(entity_index, 'g) dmap"
  br_faces :: "(entity_index, 'g) dmap"
  br_shells :: "(entity_index, 'g) dmap"
  br_solids :: "'g solid_store"
  br_sketch_planes :: "(string, 'g) dmap"
  br_datums :: 'g
  br_datum_graph :: 'g
  br_location_cache :: 'g
  br_cap_apex_hint :: "(entity_index, f64 list) dmap"
  br_recorder :: "recorder_id option"
  br_tolerance :: 'g
  br_vertex_pids :: "(entity_index, persistent_id) dmap"
  br_edge_pids :: "(entity_index, persistent_id) dmap"
  br_face_pids :: "(entity_index, persistent_id) dmap"
  br_solid_pids :: "(solid_id, persistent_id) dmap"
  br_pid_to_vertex :: "(persistent_id, entity_index) dmap"
  br_pid_to_edge :: "(persistent_id, entity_index) dmap"
  br_pid_to_face :: "(persistent_id, entity_index) dmap"
  br_pid_to_solid :: "(persistent_id, solid_id) dmap"
  br_event_key :: "string option"
  br_reserved_sequence :: "nat option"
  br_root_counter :: nat
  br_provenance :: "(solid_id, provenance_record) dmap"
  br_construction :: "(solid_id, 'g) dmap"
  br_document_unit :: length_unit
  br_gdt :: 'g
  br_drf :: "(solid_id, 'g) dmap"
  br_labels :: 'g

text \<open>What a new model holds that is not empty or a default of this file: the seeded datums, and the empty
  values of the sidecars.\<close>

record 'g model_seed =
  sd_datums :: 'g
  sd_datum_graph :: 'g
  sd_location_cache :: 'g
  sd_tolerance :: 'g
  sd_gdt :: 'g
  sd_labels :: 'g

definition new_model :: "'g model_seed \<Rightarrow> 'g brep_model" where
  "new_model s =
     \<lparr>br_vertices = [], br_curves = [], br_pcurves = [], br_edges = [], br_loops = [], br_surfaces = [],
      br_faces = [], br_shells = [], br_solids = new_solid_store, br_sketch_planes = [],
      br_datums = sd_datums s, br_datum_graph = sd_datum_graph s, br_location_cache = sd_location_cache s,
      br_cap_apex_hint = [], br_recorder = None, br_tolerance = sd_tolerance s,
      br_vertex_pids = [], br_edge_pids = [], br_face_pids = [], br_solid_pids = [],
      br_pid_to_vertex = [], br_pid_to_edge = [], br_pid_to_face = [], br_pid_to_solid = [],
      br_event_key = None, br_reserved_sequence = None, br_root_counter = 0, br_provenance = [],
      br_construction = [], br_document_unit = Millimetre, br_gdt = sd_gdt s, br_drf = [], br_labels = sd_labels s\<rparr>"

definition set_document_unit :: "length_unit \<Rightarrow> 'g brep_model \<Rightarrow> 'g brep_model" where
  "set_document_unit u m = m\<lparr>br_document_unit := u\<rparr>"

definition set_event_key :: "string option \<Rightarrow> 'g brep_model \<Rightarrow> 'g brep_model" where
  "set_event_key k m = m\<lparr>br_event_key := k\<rparr>"

definition attach_recorder :: "recorder_id option \<Rightarrow> 'g brep_model \<Rightarrow> recorder_id option \<times> 'g brep_model" where
  "attach_recorder r m = (br_recorder m, m\<lparr>br_recorder := r\<rparr>)"

definition set_solid_provenance :: "solid_id \<Rightarrow> operation_kind \<Rightarrow> solid_id list \<Rightarrow> 'g brep_model \<Rightarrow> 'g brep_model" where
  "set_solid_provenance i k ins m =
     m\<lparr>br_provenance := AList.update i \<lparr>created_by = k, pr_inputs = ins\<rparr> (br_provenance m)\<rparr>"

definition solid_provenance_of :: "solid_id \<Rightarrow> 'g brep_model \<Rightarrow> provenance_record option" where
  "solid_provenance_of i m = map_of (br_provenance m) i"

text \<open>The seed of a root identifier. \<open>reserve\<close> is what the attached recorder answers to a request for the key
  of the event to come; \<open>seq_of_key\<close> reads the number behind \<^verbatim>\<open>evt:\<close>.\<close>

definition seq_of_key :: "string \<Rightarrow> nat option" where
  "seq_of_key key = (if take 4 key = ''evt:'' then parse_u64 (drop 4 key) else None)"

definition next_root_seed ::
  "(recorder_id \<Rightarrow> string option) \<Rightarrow> string \<Rightarrow> 'g brep_model \<Rightarrow> string \<times> 'g brep_model" where
  "next_root_seed reserve kind_params m =
     (case br_event_key m of
        Some k \<Rightarrow> (k @ ''|'' @ kind_params, m)
      | None \<Rightarrow>
          (case Option.bind (br_recorder m) reserve of
             Some key \<Rightarrow>
               (key @ ''|'' @ kind_params, m\<lparr>br_reserved_sequence := seq_of_key key, br_event_key := Some key\<rparr>)
           | None \<Rightarrow>
               (''__local:'' @ show_nat (br_root_counter m) @ ''|'' @ kind_params,
                m\<lparr>br_root_counter := br_root_counter m + 1\<rparr>)))"

section \<open>Clearing the geometry\<close>

definition swept_refs :: "string \<Rightarrow> (32 word, 'a) dmap \<Rightarrow> string list" where
  "swept_refs tag es = map (\<lambda>i. tag @ '':'' @ show_nat (unat i)) (dkeys es)"

definition clear_geometry :: "'g model_seed \<Rightarrow> 'g brep_model \<Rightarrow> string list \<times> 'g brep_model" where
  "clear_geometry s m =
     (swept_refs ''solid'' (ss_solids (br_solids m)) @ swept_refs ''face'' (br_faces m) @
      swept_refs ''loop'' (br_loops m) @ swept_refs ''edge'' (br_edges m) @
      swept_refs ''curve'' (br_curves m) @ swept_refs ''vertex'' (br_vertices m),
      m\<lparr>br_vertices := [], br_curves := [], br_pcurves := [], br_edges := [], br_loops := [],
         br_surfaces := [], br_faces := [], br_shells := [], br_solids := new_solid_store,
         br_sketch_planes := [], br_cap_apex_hint := [], br_location_cache := sd_location_cache s,
         br_vertex_pids := [], br_edge_pids := [], br_face_pids := [], br_solid_pids := [],
         br_pid_to_vertex := [], br_pid_to_edge := [], br_pid_to_face := [], br_pid_to_solid := [],
         br_root_counter := 0, br_gdt := sd_gdt s, br_drf := [], br_construction := [],
         br_labels := sd_labels s\<rparr>)"

text \<open>Clearing starts the identifiers of solids anew but keeps the provenance of the old ones: the next solid
  made without provenance, such as a clone, shows that of a solid that is gone.\<close>

lemma cleared_provenance:
  "solid_provenance_of i (snd (clear_geometry s m)) = solid_provenance_of i m \<and>
   ss_next_id (br_solids (snd (clear_geometry s m))) = 0"
  by (simp add: clear_geometry_def solid_provenance_of_def new_solid_store_def)

section \<open>Snapshots\<close>

record 'g model_snapshot =
  sn_vertices :: "(entity_index, 'g) dmap"
  sn_curves :: "(entity_index, 'g) dmap"
  sn_pcurves :: "(entity_index, 'g) dmap"
  sn_edges :: "(entity_index, 'g) dmap"
  sn_loops :: "(entity_index, 'g) dmap"
  sn_surfaces :: "(entity_index, 'g) dmap"
  sn_faces :: "(entity_index, 'g) dmap"
  sn_shells :: "(entity_index, 'g) dmap"
  sn_solids :: "'g solid_store"
  sn_sketch_planes :: "(string, 'g) dmap"
  sn_datums :: 'g
  sn_datum_graph :: 'g
  sn_location_cache :: 'g
  sn_tolerance :: 'g
  sn_vertex_pids :: "(entity_index, persistent_id) dmap"
  sn_edge_pids :: "(entity_index, persistent_id) dmap"
  sn_face_pids :: "(entity_index, persistent_id) dmap"
  sn_solid_pids :: "(solid_id, persistent_id) dmap"
  sn_pid_to_vertex :: "(persistent_id, entity_index) dmap"
  sn_pid_to_edge :: "(persistent_id, entity_index) dmap"
  sn_pid_to_face :: "(persistent_id, entity_index) dmap"
  sn_pid_to_solid :: "(persistent_id, solid_id) dmap"
  sn_root_counter :: nat
  sn_gdt :: 'g
  sn_drf :: "(solid_id, 'g) dmap"
  sn_construction :: "(solid_id, 'g) dmap"
  sn_labels :: 'g

definition take_snapshot :: "'g brep_model \<Rightarrow> 'g model_snapshot" where
  "take_snapshot m =
     \<lparr>sn_vertices = br_vertices m, sn_curves = br_curves m, sn_pcurves = br_pcurves m,
      sn_edges = br_edges m, sn_loops = br_loops m, sn_surfaces = br_surfaces m,
      sn_faces = br_faces m, sn_shells = br_shells m, sn_solids = br_solids m,
      sn_sketch_planes = br_sketch_planes m, sn_datums = br_datums m,
      sn_datum_graph = br_datum_graph m, sn_location_cache = br_location_cache m,
      sn_tolerance = br_tolerance m, sn_vertex_pids = br_vertex_pids m,
      sn_edge_pids = br_edge_pids m, sn_face_pids = br_face_pids m, sn_solid_pids = br_solid_pids m,
      sn_pid_to_vertex = br_pid_to_vertex m, sn_pid_to_edge = br_pid_to_edge m,
      sn_pid_to_face = br_pid_to_face m, sn_pid_to_solid = br_pid_to_solid m,
      sn_root_counter = br_root_counter m, sn_gdt = br_gdt m, sn_drf = br_drf m,
      sn_construction = br_construction m, sn_labels = br_labels m\<rparr>"

definition restore_snapshot :: "'g model_snapshot \<Rightarrow> 'g brep_model \<Rightarrow> 'g brep_model" where
  "restore_snapshot s m =
     m\<lparr>br_vertices := sn_vertices s, br_curves := sn_curves s, br_pcurves := sn_pcurves s,
       br_edges := sn_edges s, br_loops := sn_loops s, br_surfaces := sn_surfaces s,
       br_faces := sn_faces s, br_shells := sn_shells s, br_solids := sn_solids s,
       br_sketch_planes := sn_sketch_planes s, br_datums := sn_datums s,
       br_datum_graph := sn_datum_graph s, br_location_cache := sn_location_cache s,
       br_tolerance := sn_tolerance s, br_vertex_pids := sn_vertex_pids s,
       br_edge_pids := sn_edge_pids s, br_face_pids := sn_face_pids s,
       br_solid_pids := sn_solid_pids s, br_pid_to_vertex := sn_pid_to_vertex s,
       br_pid_to_edge := sn_pid_to_edge s, br_pid_to_face := sn_pid_to_face s,
       br_pid_to_solid := sn_pid_to_solid s, br_root_counter := sn_root_counter s, br_gdt := sn_gdt s,
       br_drf := sn_drf s, br_construction := sn_construction s, br_labels := sn_labels s\<rparr>"

text \<open>What a copy through a snapshot keeps of a model: everything but its recorder, the context of the
  running operation, and three fields that a snapshot does not have.\<close>

definition through_snapshot :: "'g model_seed \<Rightarrow> 'g brep_model \<Rightarrow> 'g brep_model" where
  "through_snapshot s m = restore_snapshot (take_snapshot m) (new_model s)"

lemma through_snapshot_eq:
  "through_snapshot s m =
     m\<lparr>br_recorder := None, br_event_key := None, br_reserved_sequence := None,
        br_cap_apex_hint := [], br_provenance := [], br_document_unit := Millimetre\<rparr>"
  by (cases m) (simp add: through_snapshot_def restore_snapshot_def take_snapshot_def new_model_def)

text \<open>Restoring a snapshot into the model it was taken of, as a rollback does, leaves the rest as it is.\<close>

lemma restore_after:
  "restore_snapshot (take_snapshot m) m' =
     m\<lparr>br_recorder := br_recorder m', br_event_key := br_event_key m', br_reserved_sequence := br_reserved_sequence m',
        br_cap_apex_hint := br_cap_apex_hint m', br_provenance := br_provenance m', br_document_unit := br_document_unit m'\<rparr>"
  by (cases m; cases m') (simp add: restore_snapshot_def take_snapshot_def)

end
