(* ===== verification/Bounded_Exec.thy ===== *)
theory Bounded_Exec
  imports Brep_Model Assembly_Replay Api_Error
begin

text \<open>
  Heavy operations under a time budget: \<^verbatim>\<open>api-server/src/bounded_exec.rs\<close>. An operation runs on a copy of
  the model on a thread of its own, and the copy is swapped in when it is done.

  The handler and the thread run beside each other and beside the other requests. A run is a
  sequence of moves: what the thread does, what the handler does, and what others do to the model.
  The operation is a parameter: from the declared scope of the request and the copy it makes an
  outcome, a model and the records it hands to the recorder, which accepts them. A duration is in
  nanoseconds. \<^verbatim>\<open>trim\<close> is modelled on ASCII.
\<close>

section \<open>Budgets\<close>

datatype op_class = Op_Boolean | Op_Blend | Op_Other

fun class_key :: "op_class \<Rightarrow> string" where
  "class_key Op_Boolean = ''boolean''"
| "class_key Op_Blend = ''blend''"
| "class_key Op_Other = ''other''"

fun class_env_key :: "op_class \<Rightarrow> string" where
  "class_env_key Op_Boolean = ''ROSHERA_OP_TIMEOUT_BOOLEAN_SECS''"
| "class_env_key Op_Blend = ''ROSHERA_OP_TIMEOUT_BLEND_SECS''"
| "class_env_key Op_Other = ''ROSHERA_OP_TIMEOUT_OTHER_SECS''"

fun default_secs :: "op_class \<Rightarrow> nat" where
  "default_secs Op_Boolean = 60"
| "default_secs Op_Blend = 60"
| "default_secs Op_Other = 120"

type_synonym duration = nat

definition from_secs :: "nat \<Rightarrow> duration" where
  "from_secs n = n * 10 ^ 9"

record op_budgets =
  bu_boolean :: duration
  bu_blend :: duration
  bu_other :: duration

type_synonym environment = "string \<Rightarrow> string option"

definition ascii_space :: "char \<Rightarrow> bool" where
  "ascii_space c \<longleftrightarrow> c = CHR '' '' \<or> 9 \<le> (of_char c :: nat) \<and> (of_char c :: nat) \<le> 13"

definition trim :: "string \<Rightarrow> string" where
  "trim s = rev (dropWhile ascii_space (rev (dropWhile ascii_space s)))"

definition parse_secs_var :: "environment \<Rightarrow> string \<Rightarrow> nat option" where
  "parse_secs_var env name =
     (case env name of
        Some raw \<Rightarrow> (case parse_u64 (trim raw) of Some secs \<Rightarrow> (if 0 < secs then Some secs else None) | None \<Rightarrow> None)
      | None \<Rightarrow> None)"

definition resolve_class :: "environment \<Rightarrow> op_class \<Rightarrow> nat option \<Rightarrow> duration" where
  "resolve_class env c global =
     from_secs (case parse_secs_var env (class_env_key c) of
       Some s \<Rightarrow> s
     | None \<Rightarrow> (case global of Some s \<Rightarrow> s | None \<Rightarrow> default_secs c))"

definition budgets_from_env :: "environment \<Rightarrow> op_budgets" where
  "budgets_from_env env =
     (let global = parse_secs_var env ''ROSHERA_OP_TIMEOUT_SECS''
      in \<lparr>bu_boolean = resolve_class env Op_Boolean global, bu_blend = resolve_class env Op_Blend global,
          bu_other = resolve_class env Op_Other global\<rparr>)"

definition budgets_from_durations :: "duration \<Rightarrow> duration \<Rightarrow> duration \<Rightarrow> op_budgets" where
  "budgets_from_durations b l x = \<lparr>bu_boolean = b, bu_blend = l, bu_other = x\<rparr>"

definition default_budgets :: op_budgets where
  "default_budgets =
     \<lparr>bu_boolean = from_secs (default_secs Op_Boolean), bu_blend = from_secs (default_secs Op_Blend),
      bu_other = from_secs (default_secs Op_Other)\<rparr>"

fun budget :: "op_budgets \<Rightarrow> op_class \<Rightarrow> duration" where
  "budget b Op_Boolean = bu_boolean b"
| "budget b Op_Blend = bu_blend b"
| "budget b Op_Other = bu_other b"

section \<open>The scope of a request\<close>

text \<open>Task locals of a thread; the pool thread has none until they are entered again.\<close>

datatype origin_channel = Mcp | Rest | Websocket | ViewportBridge | Replay_origin | NotDetermined

record intent_context =
  ic_text :: string
  ic_turn_id :: "string option"

record request_scope =
  sc_author :: "author option"
  sc_intent :: "intent_context option"
  sc_origin :: "origin_channel option"
  sc_document :: "string option"

definition no_scope :: request_scope where
  "no_scope = \<lparr>sc_author = None, sc_intent = None, sc_origin = None, sc_document = None\<rparr>"

definition with_document :: "string option \<Rightarrow> (request_scope \<Rightarrow> 'r) \<Rightarrow> request_scope \<Rightarrow> 'r" where
  "with_document d op locals = (case d of Some x \<Rightarrow> op (locals\<lparr>sc_document := Some x\<rparr>) | None \<Rightarrow> op locals)"

definition with_origin ::
  "origin_channel option \<Rightarrow> string option \<Rightarrow> (request_scope \<Rightarrow> 'r) \<Rightarrow> request_scope \<Rightarrow> 'r" where
  "with_origin orig d op locals =
     (case orig of
        Some x \<Rightarrow> with_document d op (locals\<lparr>sc_origin := Some x\<rparr>)
      | None \<Rightarrow> with_document d op locals)"

definition with_intent ::
  "intent_context option \<Rightarrow> origin_channel option \<Rightarrow> string option \<Rightarrow> (request_scope \<Rightarrow> 'r) \<Rightarrow> request_scope \<Rightarrow> 'r" where
  "with_intent i orig d op locals =
     (case i of
        Some x \<Rightarrow> with_origin orig d op (locals\<lparr>sc_intent := Some x\<rparr>)
      | None \<Rightarrow> with_origin orig d op locals)"

definition with_request_scope :: "request_scope \<Rightarrow> (request_scope \<Rightarrow> 'r) \<Rightarrow> request_scope \<Rightarrow> 'r" where
  "with_request_scope ov op locals =
     (case sc_author ov of
        Some a \<Rightarrow> with_intent (sc_intent ov) (sc_origin ov) (sc_document ov) op (locals\<lparr>sc_author := Some a\<rparr>)
      | None \<Rightarrow> with_intent (sc_intent ov) (sc_origin ov) (sc_document ov) op locals)"

section \<open>The executor\<close>

type_synonym fingerprint = "nat \<times> nat \<times> nat \<times> nat \<times> nat \<times> nat \<times> nat"

definition model_fingerprint :: "'g brep_model \<Rightarrow> fingerprint" where
  "model_fingerprint m =
     (length (br_vertices m), length (br_edges m), length (br_loops m), length (br_faces m),
      length (br_shells m), solid_count (br_solids m), br_root_counter m)"

datatype 'v op_outcome = Completed "(api_error, 'v) result" | Panicked

record ('g, 'v, 'i) bounded_call =
  bc_class :: op_class
  bc_budgets :: op_budgets
  bc_operands :: "solid_id list"
  bc_scope :: request_scope
  bc_seed :: "'g model_seed"
  bc_op :: "request_scope \<Rightarrow> 'g brep_model \<Rightarrow> 'v op_outcome \<times> 'g brep_model \<times> recorded_operation list"
  bc_commit :: "'v \<Rightarrow> 'i \<Rightarrow> 'i"

text \<open>What the requests share: the live model, the events its recorder accepted, and the bookkeeping that
  is committed with a swap.\<close>

record ('g, 'i) world =
  wd_model :: "'g brep_model"
  wd_events :: "recorded_operation list"
  wd_books :: 'i

datatype ('g, 'v) worker =
    Queued
  | Computing "'g brep_model" fingerprint
  | Finished "'v op_outcome" "'g brep_model" fingerprint

record ('g, 'v) progress =
  pg_worker :: "('g, 'v) worker"
  pg_answer :: "(api_error, 'v) result option"

definition started :: "('g, 'v) progress" where
  "started = \<lparr>pg_worker = Queued, pg_answer = None\<rparr>"

datatype ('g, 'i) move =
    Snapshot | Compute | Deadline | Join
  | Other "'g brep_model \<times> 'i \<Rightarrow> ('g brep_model \<times> 'i) \<times> recorded_operation list"

definition op_timeout :: "op_class \<Rightarrow> duration \<Rightarrow> solid_id list \<Rightarrow> api_error" where
  "op_timeout c b operands = new_error OpTimeout (OpTimeoutText (class_key c) b operands)"

text \<open>The thread: a copy under the read lock, then the operation on the copy. It is not stopped when the
  handler gives up.\<close>

definition clone_of :: "('g, 'v, 'i) bounded_call \<Rightarrow> 'g brep_model \<Rightarrow> 'g brep_model" where
  "clone_of rq live = snd (attach_recorder (br_recorder live) (through_snapshot (bc_seed rq) live))"

definition run_op :: "('g, 'v, 'i) bounded_call \<Rightarrow> 'g brep_model \<Rightarrow> 'v op_outcome \<times> 'g brep_model \<times> recorded_operation list" where
  "run_op rq m =
     (case with_request_scope (bc_scope rq) (bc_op rq) no_scope m of
        (out, m', records) \<Rightarrow> (out, m', if br_recorder m \<noteq> None then records else []))"

text \<open>The handler, when the thread is done: errors are passed on, a copy is swapped in unless the live
  model has changed.\<close>

definition join_op ::
  "('g, 'v, 'i) bounded_call \<Rightarrow> 'v op_outcome \<Rightarrow> 'g brep_model \<Rightarrow> fingerprint \<Rightarrow> ('g, 'i) world \<Rightarrow>
   (api_error, 'v) result \<times> ('g, 'i) world" where
  "join_op rq out clone fp w =
     (case out of
        Panicked \<Rightarrow> (Err (new_error Internal (OpPanickedText (class_key (bc_class rq)))), w)
      | Completed (Err e) \<Rightarrow> (Err e, w)
      | Completed (Ok v) \<Rightarrow>
          (if model_fingerprint (wd_model w) \<noteq> fp then (Err (new_error Internal ConcurrentText), w)
           else (Ok v, w\<lparr>wd_model := clone, wd_books := bc_commit rq v (wd_books w)\<rparr>)))"

text \<open>A move that is not enabled changes nothing. The timer is looked at after the thread.\<close>

fun bounded_move ::
  "('g, 'v, 'i) bounded_call \<Rightarrow> ('g, 'i) move \<Rightarrow> ('g, 'v) progress \<times> ('g, 'i) world \<Rightarrow>
   ('g, 'v) progress \<times> ('g, 'i) world" where
  "bounded_move rq Snapshot (p, w) =
     (case pg_worker p of
        Queued \<Rightarrow> (p\<lparr>pg_worker := Computing (clone_of rq (wd_model w)) (model_fingerprint (wd_model w))\<rparr>, w)
      | _ \<Rightarrow> (p, w))"
| "bounded_move rq Compute (p, w) =
     (case pg_worker p of
        Computing clone fp \<Rightarrow>
          (case run_op rq clone of
             (out, clone', records) \<Rightarrow>
               (p\<lparr>pg_worker := Finished out clone' fp\<rparr>, w\<lparr>wd_events := wd_events w @ records\<rparr>))
      | _ \<Rightarrow> (p, w))"
| "bounded_move rq Deadline (p, w) =
     (case (pg_answer p, pg_worker p) of
        (None, Finished out clone fp) \<Rightarrow> (p, w)
      | (None, _) \<Rightarrow>
          (p\<lparr>pg_answer := Some (Err (op_timeout (bc_class rq) (budget (bc_budgets rq) (bc_class rq)) (bc_operands rq)))\<rparr>, w)
      | _ \<Rightarrow> (p, w))"
| "bounded_move rq Join (p, w) =
     (case (pg_answer p, pg_worker p) of
        (None, Finished out clone fp) \<Rightarrow>
          (case join_op rq out clone fp w of (a, w') \<Rightarrow> (p\<lparr>pg_answer := Some a\<rparr>, w'))
      | _ \<Rightarrow> (p, w))"
| "bounded_move rq (Other f) (p, w) =
     (case f (wd_model w, wd_books w) of
        ((m, b), records) \<Rightarrow>
          (p, w\<lparr>wd_model := m, wd_books := b, wd_events := wd_events w @ records\<rparr>))"

definition bounded_model_op ::
  "('g, 'v, 'i) bounded_call \<Rightarrow> ('g, 'i) move list \<Rightarrow> ('g, 'i) world \<Rightarrow> ('g, 'v) progress \<times> ('g, 'i) world" where
  "bounded_model_op rq ms w = fold (bounded_move rq) ms (started, w)"

end
