(* ===== verification/Bounded_Exec_Props.thy ===== *)
theory Bounded_Exec_Props
  imports Bounded_Exec
begin

text \<open>
  What a bounded operation guarantees, and what it does not: a refused request leaves the model
  alone, a request is answered whatever the operation does, an accepted one installs what the
  operation made of a copy; but the copy is not the model, an operation that was given up still
  reaches the event log, and the check for other writers can be passed.
\<close>

section \<open>Moves\<close>

fun others :: "('g, 'i) move list \<Rightarrow> 'g brep_model \<times> 'i \<Rightarrow> 'g brep_model \<times> 'i" where
  "others [] mb = mb"
| "others (Other f # ms) mb = others ms (fst (f mb))"
| "others (mv # ms) mb = others ms mb"

lemma others_append: "others (ms @ ms') mb = others ms' (others ms mb)"
  by (induction ms mb rule: others.induct) auto

fun is_other :: "('g, 'i) move \<Rightarrow> bool" where
  "is_other (Other f) = True"
| "is_other mv = False"

lemma scope_entered: "with_request_scope ov op locals =
    op (locals\<lparr>sc_author := (case sc_author ov of None \<Rightarrow> sc_author locals | x \<Rightarrow> x),
               sc_intent := (case sc_intent ov of None \<Rightarrow> sc_intent locals | x \<Rightarrow> x),
               sc_origin := (case sc_origin ov of None \<Rightarrow> sc_origin locals | x \<Rightarrow> x),
               sc_document := (case sc_document ov of None \<Rightarrow> sc_document locals | x \<Rightarrow> x)\<rparr>)"
  by (simp add: with_request_scope_def with_intent_def with_origin_def with_document_def split: option.split)

lemma scope_carried [simp]: "with_request_scope ov op no_scope = op ov"
  by (cases ov) (simp add: scope_entered no_scope_def split: option.split)

lemma run_snoc:
  "bounded_model_op rq (ms @ [mv]) w = bounded_move rq mv (bounded_model_op rq ms w)"
  by (simp add: bounded_model_op_def)

section \<open>Refusals\<close>

lemma unanswered_untouched:
  assumes "bounded_model_op rq ms w = (p, w')"
  shows "(\<nexists>v. pg_answer p = Some (Ok v)) \<longrightarrow> (wd_model w', wd_books w') = others ms (wd_model w, wd_books w)"
  using assms
proof (induction ms arbitrary: p w' rule: rev_induct)
  case Nil
  then show ?case by (simp add: bounded_model_op_def)
next
  case (snoc mv ms)
  obtain p0 w0 where b: "bounded_model_op rq ms w = (p0, w0)" by fastforce
  note ih = snoc.IH [OF b]
  have step: "bounded_move rq mv (p0, w0) = (p, w')" using snoc.prems by (simp add: run_snoc b)
  show ?case
  proof (cases mv)
    case (Other f)
    with step ih show ?thesis
      by (cases "f (wd_model w0, wd_books w0)") (auto simp: others_append)
  qed (use step ih in \<open>auto simp: others_append join_op_def split: worker.splits option.splits op_outcome.splits
      sum.splits if_splits prod.splits\<close>)
qed

text \<open>C32. A bounded request that is answered with an error, or not yet answered, has not touched the model
  nor the bookkeeping: they are what the other requests made of them, in any interleaving of the
  handler, the thread and the other requests.\<close>

theorem refused_op_leaves_model:
  assumes "bounded_model_op rq ms w = (p, w')" and "\<nexists>v. pg_answer p = Some (Ok v)"
  shows "(wd_model w', wd_books w') = others ms (wd_model w, wd_books w)"
  using unanswered_untouched [OF assms(1)] assms(2) by blast

section \<open>Answers\<close>


section \<open>Accepted operations\<close>

definition undisturbed ::
  "('g, 'v, 'i) bounded_call \<Rightarrow> ('g, 'i) world \<Rightarrow> ('g, 'v) progress \<Rightarrow> ('g, 'i) world \<Rightarrow> bool" where
  "undisturbed rq w p w' \<longleftrightarrow>
     (case pg_worker p of
        Queued \<Rightarrow> w' = w \<and> (\<nexists>v. pg_answer p = Some (Ok v))
      | Computing c fp \<Rightarrow>
          c = clone_of rq (wd_model w) \<and> fp = model_fingerprint (wd_model w) \<and> w' = w \<and>
          (\<nexists>v. pg_answer p = Some (Ok v))
      | Finished out m fp \<Rightarrow>
          fp = model_fingerprint (wd_model w) \<and>
          (\<exists>records. run_op rq (clone_of rq (wd_model w)) = (out, m, records) \<and>
             (case pg_answer p of
                Some (Ok v) \<Rightarrow> out = Completed (Ok v) \<and>
                  w' = w\<lparr>wd_model := m, wd_books := bc_commit rq v (wd_books w), wd_events := wd_events w @ records\<rparr>
              | _ \<Rightarrow> w' = w\<lparr>wd_events := wd_events w @ records\<rparr>)))"

lemma undisturbed_run:
  assumes "list_all (\<lambda>mv. \<not> is_other mv) ms" and "bounded_model_op rq ms w = (p, w')"
  shows "undisturbed rq w p w'"
  using assms
proof (induction ms arbitrary: p w' rule: rev_induct)
  case Nil
  then show ?case by (auto simp: bounded_model_op_def started_def undisturbed_def)
next
  case (snoc mv ms)
  obtain p0 w0 where b: "bounded_model_op rq ms w = (p0, w0)" by fastforce
  have ih: "undisturbed rq w p0 w0" using snoc.IH [OF _ b] snoc.prems(1) by simp
  have step: "bounded_move rq mv (p0, w0) = (p, w')" using snoc.prems(2) by (simp add: run_snoc b)
  show ?case
  proof (cases mv)
    case Snapshot
    with step ih show ?thesis by (cases "pg_worker p0") (auto simp: undisturbed_def)
  next
    case Compute
    with step ih show ?thesis
      by (cases "pg_worker p0"; cases "pg_answer p0")
         (auto simp: undisturbed_def split: prod.splits sum.splits)
  next
    case Deadline
    with step ih show ?thesis
      by (cases "pg_worker p0"; cases "pg_answer p0") (auto simp: undisturbed_def)
  next
    case Join
    with step ih show ?thesis
      by (cases "pg_worker p0"; cases "pg_answer p0")
         (auto simp: undisturbed_def join_op_def split: op_outcome.splits sum.splits if_splits prod.splits)
  next
    case (Other f)
    with snoc.prems(1) show ?thesis by simp
  qed
qed

lemma accepted_run:
  assumes "list_all (\<lambda>mv. \<not> is_other mv) ms" and "bounded_model_op rq ms w = (p, w')"
    and "pg_answer p = Some (Ok v)"
  shows "\<exists>m records. run_op rq (clone_of rq (wd_model w)) = (Completed (Ok v), m, records) \<and>
    w' = w\<lparr>wd_model := m, wd_books := bc_commit rq v (wd_books w), wd_events := wd_events w @ records\<rparr>"
  using undisturbed_run [OF assms(1,2)] assms(3)
  by (auto simp: undisturbed_def split: worker.splits)

text \<open>The sample request: an operation that records one event and leaves the model as it is.\<close>

definition sample_seed :: "unit model_seed" where
  "sample_seed = \<lparr>sd_datums = (), sd_datum_graph = (), sd_location_cache = (), sd_tolerance = (), sd_gdt = (), sd_labels = ()\<rparr>"

definition sample_call :: "(unit, nat, nat) bounded_call" where
  "sample_call =
     \<lparr>bc_class = Op_Boolean, bc_budgets = default_budgets, bc_operands = [0, 1], bc_scope = no_scope,
      bc_seed = sample_seed, bc_op = (\<lambda>scope m. (Completed (Ok 7), m, [new_operation ''boolean_union''])),
      bc_commit = (\<lambda>v b. v)\<rparr>"

definition inch_model :: "unit brep_model" where
  "inch_model = set_solid_provenance 0 OK_Loft [] (set_document_unit Inch (snd (attach_recorder (Some 1) (new_model sample_seed))))"

definition sample_world :: "(unit, nat) world" where
  "sample_world = \<lparr>wd_model = inch_model, wd_events = [], wd_books = 0\<rparr>"

lemmas sample_simps = sample_call_def sample_world_def inch_model_def sample_seed_def new_model_def attach_recorder_def
  set_solid_provenance_def set_document_unit_def

lemma refused_op_leaves_model_witness:
  "(\<lambda>(p, w'). (wd_model w', wd_books w') = (inch_model, 0))
     (bounded_model_op sample_call [Snapshot, Deadline, Compute, Join] sample_world)"
  using refused_op_leaves_model [of sample_call "[Snapshot, Deadline, Compute, Join]" sample_world]
  by (simp add: bounded_model_op_def started_def sample_call_def sample_world_def run_op_def)



section \<open>The log\<close>

text \<open>C35. An operation that is given up reaches the event log all the same. When its time is over, the thread
  goes on and records the operation, although the model never had it. When another request changed
  the model meanwhile, the swap is refused with an error that asks for a retry, although the operation
  is recorded already.\<close>

theorem abandoned_op_is_recorded:
  assumes "run_op rq (clone_of rq (wd_model w)) = (Completed (Ok v), m, records)"
    and "model_fingerprint (fst (fst (f (wd_model w, wd_books w)))) \<noteq> model_fingerprint (wd_model w)"
  shows "(\<lambda>(p, w'). pg_answer p = Some (Err (op_timeout (bc_class rq) (budget (bc_budgets rq) (bc_class rq)) (bc_operands rq))) \<and>
       wd_model w' = wd_model w \<and> wd_events w' = wd_events w @ records)
       (bounded_model_op rq [Snapshot, Deadline, Compute] w) \<and>
     (\<lambda>(p, w'). (\<exists>e. pg_answer p = Some (Err e) \<and> ae_retryable e) \<and>
       wd_model w' = fst (fst (f (wd_model w, wd_books w))) \<and>
       wd_events w' = wd_events w @ records @ snd (f (wd_model w, wd_books w)))
       (bounded_model_op rq [Snapshot, Compute, Other f, Join] w)"
  using assms
  by (cases "f (wd_model w, wd_books w)")
     (auto simp: bounded_model_op_def started_def join_op_def new_error_def)

definition add_vertex :: "unit brep_model \<times> nat \<Rightarrow> (unit brep_model \<times> nat) \<times> recorded_operation list" where
  "add_vertex mb = ((fst mb\<lparr>br_vertices := (5, ()) # br_vertices (fst mb)\<rparr>, snd mb), [new_operation ''sketch_point''])"

lemma sample_run: "run_op sample_call (clone_of sample_call inch_model) =
    (Completed (Ok 7), clone_of sample_call inch_model, [new_operation ''boolean_union''])"
  by (simp add: run_op_def clone_of_def through_snapshot_eq sample_simps)

lemma abandoned_op_is_recorded_witness:
  "(\<lambda>(p, w'). wd_model w' = inch_model \<and> wd_events w' = [new_operation ''boolean_union''])
     (bounded_model_op sample_call [Snapshot, Deadline, Compute] sample_world)"
proof -
  have "model_fingerprint (fst (fst (add_vertex (inch_model, 0)))) \<noteq> model_fingerprint inch_model"
    by (simp add: add_vertex_def model_fingerprint_def)
  then show ?thesis
    using abandoned_op_is_recorded [of sample_call sample_world 7 _ _ add_vertex] sample_run
    by (auto simp: sample_world_def)
qed

section \<open>Lost writes\<close>

text \<open>With a recorder that reserves event keys, minting a root identifier does not move the counter that the
  fingerprint reads.\<close>

lemma reserved_seed_keeps_counter:
  "br_recorder m = Some r \<Longrightarrow> reserve r = Some key \<Longrightarrow>
   br_root_counter (snd (next_root_seed reserve params m)) = br_root_counter m"
  by (simp add: next_root_seed_def split: option.split)

lemma replace_count:
  assumes "dmap_ok (ss_solids st)" and "get_solid st i \<noteq> None" and "get_solid st (ss_next_id st) = None"
  shows "solid_count (snd (add_solid s (remove_solid i st))) = solid_count st"
proof -
  have i: "i \<in> set (dkeys (ss_solids st))" using assms(2) by (simp add: get_solid_def map_of_eq_None_iff)
  have n: "ss_next_id st \<notin> set (dkeys (ss_solids st))" using assms(3) by (simp add: get_solid_def map_of_eq_None_iff)
  have upd: "length (AList.update k v xs) = Suc (length xs)" if "k \<notin> set (dkeys xs)" for k and v :: "'a solid" and xs
    using that by (induction xs) auto
  have del: "Suc (length (AList.delete k xs)) = length xs" if "k \<in> set (dkeys xs)" "distinct (dkeys xs)"
    for k and xs :: "(solid_id \<times> 'a solid) list"
    using that by (induction xs) (auto simp: delete_idem)
  obtain x where x: "map_of (ss_solids st) i = Some x" using assms(2) by (auto simp: get_solid_def)
  have "ss_next_id st \<notin> set (dkeys (AList.delete i (ss_solids st)))"
    using n dm.keys_del [of i "ss_solids st"] by simp
  then show ?thesis
    using upd [of "ss_next_id st" "AList.delete i (ss_solids st)"] del [OF i assms(1)] x
    by (simp add: solid_count_def add_solid_def remove_solid_def)
qed

text \<open>Another request deletes a solid and makes a new one, whose root identifier it mints through its recorder.\<close>

definition replace_solid ::
  "(recorder_id \<Rightarrow> string option) \<Rightarrow> solid_id \<Rightarrow> 'g solid \<Rightarrow> recorded_operation list \<Rightarrow>
   'g brep_model \<times> 'i \<Rightarrow> ('g brep_model \<times> 'i) \<times> recorded_operation list" where
  "replace_solid reserve i s records mb =
     (let m = snd (next_root_seed reserve ''Box'' (fst mb))
      in ((m\<lparr>br_solids := snd (add_solid s (remove_solid i (br_solids m)))\<rparr>, snd mb), records))"

text \<open>The check for other writers compares numbers of entities: a request that deletes one solid and makes
  another while the operation computes is not noticed. The swap is accepted and undoes it, although
  its events stay in the log.\<close>

theorem concurrent_replacement_lost:
  assumes "run_op rq (clone_of rq (wd_model w)) = (Completed (Ok v), m, records)"
    and "br_recorder (wd_model w) = Some r" and "reserve r = Some key"
    and "dmap_ok (ss_solids (br_solids (wd_model w)))" and "get_solid (br_solids (wd_model w)) i \<noteq> None"
    and "get_solid (br_solids (wd_model w)) (ss_next_id (br_solids (wd_model w))) = None"
  shows "(\<lambda>(p, w'). pg_answer p = Some (Ok v) \<and> wd_model w' = m \<and>
       wd_events w' = wd_events w @ records @ records')
     (bounded_model_op rq [Snapshot, Compute, Other (replace_solid reserve i s records'), Join] w)"
proof -
  let ?f = "replace_solid reserve i s records' (wd_model w, wd_books w)"
  have same: "br_solids (snd (next_root_seed reserve ''Box'' (wd_model w))) = br_solids (wd_model w)"
    "br_vertices (snd (next_root_seed reserve ''Box'' (wd_model w))) = br_vertices (wd_model w)"
    "br_edges (snd (next_root_seed reserve ''Box'' (wd_model w))) = br_edges (wd_model w)"
    "br_loops (snd (next_root_seed reserve ''Box'' (wd_model w))) = br_loops (wd_model w)"
    "br_faces (snd (next_root_seed reserve ''Box'' (wd_model w))) = br_faces (wd_model w)"
    "br_shells (snd (next_root_seed reserve ''Box'' (wd_model w))) = br_shells (wd_model w)"
    by (simp_all add: next_root_seed_def split: option.split)
  have "model_fingerprint (fst (fst ?f)) = model_fingerprint (wd_model w)"
    using reserved_seed_keeps_counter [of "wd_model w" r reserve key "''Box''"] assms(2,3) replace_count [OF assms(4-6), of s]
    by (simp add: replace_solid_def model_fingerprint_def same Let_def)
  then show ?thesis
    using assms(1) by (auto simp: bounded_model_op_def started_def join_op_def replace_solid_def Let_def)
qed

definition block :: "unit solid" where
  "block = \<lparr>sol_id = 0, sol_name = None, sol_outer_shell = 0, sol_inner_shells = [], sol_peer_shells = [], sol_rest = ()\<rparr>"

definition block_world :: "(unit, nat) world" where
  "block_world = sample_world\<lparr>wd_model := inch_model\<lparr>br_solids := snd (add_solid block new_solid_store)\<rparr>\<rparr>"

lemma concurrent_replacement_lost_witness:
  "(\<lambda>(p, w'). pg_answer p = Some (Ok 7) \<and> get_solid (br_solids (wd_model w')) 1 = None \<and>
     wd_events w' = [new_operation ''boolean_union'', new_operation ''create_box_3d''])
   (bounded_model_op sample_call
     [Snapshot, Compute, Other (replace_solid (\<lambda>r. Some ''evt:9'') 0 block [new_operation ''create_box_3d'']), Join] block_world)"
proof -
  let ?m = "clone_of sample_call (wd_model block_world)"
  have run: "run_op sample_call ?m = (Completed (Ok 7), ?m, [new_operation ''boolean_union''])"
    by (simp add: run_op_def clone_of_def through_snapshot_eq block_world_def sample_simps)
  have solids: "br_solids (wd_model block_world) = snd (add_solid block new_solid_store)"
    "br_recorder (wd_model block_world) = Some 1"
    by (simp_all add: block_world_def sample_simps)
  have one: "get_solid (br_solids ?m) 1 = None"
    by (simp add: clone_of_def attach_recorder_def through_snapshot_eq solids get_add)
       (simp add: get_solid_def new_solid_store_def)
  show ?thesis
    using concurrent_replacement_lost [of sample_call block_world 7 ?m "[new_operation ''boolean_union'']" 1
        "\<lambda>r. Some ''evt:9''" "''evt:9''" 0 "[new_operation ''create_box_3d'']" block] run solids one
    by (auto simp: get_add new_solid_store_def add_solid_def get_solid_def block_world_def sample_world_def split: prod.splits)
qed

end
