(* ===== verification/Recorder.thy ===== *)
theory Recorder
  imports Bounded_Exec Timeline_Truncate
begin

text \<open>
  \<^verbatim>\<open>TimelineRecorder\<close> of \<^verbatim>\<open>timeline-engine/src/recorder_bridge.rs\<close>: the kernel records finished operations,
  a bounded channel carries them to a worker, the worker appends them to the timeline and writes them to
  the store. Windows stage records that a rollback may still discard, discard scopes hide the steps of a
  build behind one consolidated record.

  Each method is one step, as is each command the worker takes from the channel. Identifiers, the time
  and the answer of the store are supplied with the step that uses them. The derived JSON of facets and
  certificates is a parameter (\<open>facet_serde\<close>); facets are a map, whose order on the wire is not modelled.
\<close>

section \<open>Facets\<close>

datatype origin_basis = ClientHeader | ServerObserved

record origin_facet =
  of_channel :: origin_channel
  of_basis :: origin_basis

record intent_facet =
  if_text :: string
  if_turn_id :: "string option"
  if_source :: string

record facet_serde =
  ser_intent :: "intent_facet \<Rightarrow> json"
  ser_origin :: "origin_facet \<Rightarrow> json"
  de_origin :: "json \<Rightarrow> origin_facet option"
  ser_ack :: "bool \<Rightarrow> json"
  ser_certificate :: "event_certificate \<Rightarrow> json option"

definition INTENT_FACET :: string where "INTENT_FACET = ''roshera.intent''"
definition ORIGIN_FACET :: string where "ORIGIN_FACET = ''roshera.origin''"
definition ACK_FACET :: string where "ACK_FACET = ''roshera.acknowledge_unsound''"

definition facet :: "string \<Rightarrow> recorded_operation \<Rightarrow> json option" where
  "facet name op = map_of (ro_facets op) name"

definition set_facet :: "string \<Rightarrow> json \<Rightarrow> recorded_operation \<Rightarrow> recorded_operation" where
  "set_facet name v op = op\<lparr>ro_facets := AList.update name v (ro_facets op)\<rparr>"

definition channel_of :: "facet_serde \<Rightarrow> recorded_operation \<Rightarrow> origin_channel" where
  "channel_of fs op =
     (case facet ORIGIN_FACET op of
        Some v \<Rightarrow> (case de_origin fs v of Some f \<Rightarrow> of_channel f | None \<Rightarrow> NotDetermined)
      | None \<Rightarrow> NotDetermined)"

section \<open>Failures\<close>

definition MAX_PENDING_RECORD_FAILURES :: nat where
  "MAX_PENDING_RECORD_FAILURES = 256"

datatype record_failure_stage = Stage_Enqueue | Stage_Append | Stage_Persist

text \<open>The texts of the errors, by what they are made of.\<close>

datatype record_error =
    Channel_saturated nat
  | Worker_shut_down
  | Append_refused timeline_error
  | Persist_refused string
  | Discard_not_persisted string "nat list"

record record_failure =
  rf_stage :: record_failure_stage
  rf_kind :: string
  rf_branch :: branch_id
  rf_sequence :: "nat option"
  rf_document :: "string option"
  rf_author :: author
  rf_channel :: origin_channel
  rf_error :: record_error

record record_failures =
  rf_listed :: "record_failure list"
  rf_unlisted :: nat

definition no_failures :: record_failures where
  "no_failures = \<lparr>rf_listed = [], rf_unlisted = 0\<rparr>"

definition failures_empty :: "record_failures \<Rightarrow> bool" where
  "failures_empty fl \<longleftrightarrow> rf_listed fl = [] \<and> rf_unlisted fl = 0"

definition total_failures :: "record_failures \<Rightarrow> nat" where
  "total_failures fl = length (rf_listed fl) + rf_unlisted fl"

definition saturating_add :: "nat \<Rightarrow> nat \<Rightarrow> nat" where
  "saturating_add a b = min (a + b) (u64_bound - 1)"

definition push_failure :: "record_failure \<Rightarrow> record_failures \<Rightarrow> record_failures" where
  "push_failure f fl =
     (if length (rf_listed fl) < MAX_PENDING_RECORD_FAILURES then fl\<lparr>rf_listed := rf_listed fl @ [f]\<rparr>
      else fl\<lparr>rf_unlisted := saturating_add (rf_unlisted fl) 1\<rparr>)"

text \<open>An answer that nobody waits for goes back on the list, before what came later.\<close>

definition put_back :: "record_failures \<Rightarrow> record_failures \<Rightarrow> record_failures" where
  "put_back unsent later =
     (let restored = fold push_failure (rf_listed later) unsent
      in restored\<lparr>rf_unlisted := saturating_add (rf_unlisted restored) (rf_unlisted later)\<rparr>)"

datatype flush_error = Flush_unavailable | RecordingFailed record_failures

section \<open>The recorder\<close>

record staged_op =
  so_record :: recorded_operation
  so_author :: author
  so_branch :: branch_id
  so_document :: "string option"

record staging_state =
  st_depth :: nat
  st_buffer :: "staged_op list"
  st_discard_depth :: nat
  st_scope_sequence :: "nat option"
  st_pending_sequence :: "nat option"

definition no_staging :: staging_state where
  "no_staging =
     \<lparr>st_depth = 0, st_buffer = [], st_discard_depth = 0, st_scope_sequence = None, st_pending_sequence = None\<rparr>"

datatype recorder_cmd = Cmd_Op staged_op | Cmd_Flush bool nat

record recorder =
  rc_author :: author
  rc_branch :: branch_id
  rc_failures :: record_failures
  rc_staging :: staging_state
  rc_sink :: bool
  rc_capacity :: nat
  rc_queue :: "recorder_cmd list"
  rc_running :: bool
  rc_counter_known :: bool

definition RECORDER_CHANNEL_CAPACITY :: nat where
  "RECORDER_CHANNEL_CAPACITY = 16384"

definition recorder_with :: "author \<Rightarrow> branch_id \<Rightarrow> nat \<Rightarrow> bool \<Rightarrow> recorder" where
  "recorder_with a b capacity sink =
     \<lparr>rc_author = a, rc_branch = b, rc_failures = no_failures, rc_staging = no_staging, rc_sink = sink,
      rc_capacity = capacity, rc_queue = [], rc_running = True, rc_counter_known = False\<rparr>"

definition new_recorder :: "author \<Rightarrow> branch_id \<Rightarrow> recorder" where
  "new_recorder a b = recorder_with a b RECORDER_CHANNEL_CAPACITY False"

definition new_with_sink :: "author \<Rightarrow> branch_id \<Rightarrow> recorder" where
  "new_with_sink a b = recorder_with a b RECORDER_CHANNEL_CAPACITY True"

definition set_branch_id :: "branch_id \<Rightarrow> recorder \<Rightarrow> recorder" where
  "set_branch_id b r = r\<lparr>rc_branch := b\<rparr>"

definition set_branch_id_if :: "branch_id \<Rightarrow> branch_id \<Rightarrow> recorder \<Rightarrow> bool \<times> recorder" where
  "set_branch_id_if expected b r =
     (if rc_branch r = expected then (True, r\<lparr>rc_branch := b\<rparr>) else (False, r))"

definition take_failures :: "recorder \<Rightarrow> record_failures \<times> recorder" where
  "take_failures r = (rc_failures r, r\<lparr>rc_failures := no_failures\<rparr>)"

definition try_send :: "recorder_cmd \<Rightarrow> recorder \<Rightarrow> (record_error, unit) result \<times> recorder" where
  "try_send c r =
     (if \<not> rc_running r then (Err Worker_shut_down, r)
      else if rc_capacity r \<le> length (rc_queue r) then (Err (Channel_saturated (rc_capacity r)), r)
      else (Ok (), r\<lparr>rc_queue := rc_queue r @ [c]\<rparr>))"

definition note_failure :: "record_failure \<Rightarrow> recorder \<Rightarrow> recorder" where
  "note_failure f r = r\<lparr>rc_failures := push_failure f (rc_failures r)\<rparr>"

definition failure_of ::
  "facet_serde \<Rightarrow> staged_op \<Rightarrow> record_failure_stage \<Rightarrow> nat option \<Rightarrow> record_error \<Rightarrow> record_failure" where
  "failure_of fs s stage seq e =
     \<lparr>rf_stage = stage, rf_kind = ro_kind (so_record s), rf_branch = so_branch s, rf_sequence = seq,
      rf_document = so_document s, rf_author = so_author s, rf_channel = channel_of fs (so_record s),
      rf_error = e\<rparr>"

text \<open>Handing an operation to the worker, with the failure that is noted when it cannot be.\<close>

definition hand_over :: "facet_serde \<Rightarrow> staged_op \<Rightarrow> recorder \<Rightarrow> (record_error, unit) result \<times> recorder" where
  "hand_over fs s r =
     (case try_send (Cmd_Op s) r of
        (Ok u, r') \<Rightarrow> (Ok u, r')
      | (Err e, r') \<Rightarrow>
          (Err e, note_failure (failure_of fs s Stage_Enqueue (ro_reserved (so_record s)) e) r'))"

section \<open>Recording\<close>

definition stamp_intent :: "facet_serde \<Rightarrow> request_scope \<Rightarrow> recorded_operation \<Rightarrow> recorded_operation" where
  "stamp_intent fs sc op =
     (if facet INTENT_FACET op \<noteq> None then op
      else case sc_intent sc of
        None \<Rightarrow> op
      | Some c \<Rightarrow> set_facet INTENT_FACET
          (ser_intent fs \<lparr>if_text = ic_text c, if_turn_id = ic_turn_id c, if_source = ''agent_stated''\<rparr>) op)"

definition stamp_origin :: "facet_serde \<Rightarrow> request_scope \<Rightarrow> recorded_operation \<Rightarrow> recorded_operation" where
  "stamp_origin fs sc op =
     (if facet ORIGIN_FACET op \<noteq> None then op
      else let channel = (case sc_origin sc of Some c \<Rightarrow> c | None \<Rightarrow> NotDetermined)
           in set_facet ORIGIN_FACET
                (ser_origin fs \<lparr>of_channel = channel,
                   of_basis = (if channel = Mcp then ClientHeader else ServerObserved)\<rparr>) op)"

definition stamp_ack :: "facet_serde \<Rightarrow> bool \<Rightarrow> recorded_operation \<Rightarrow> recorded_operation" where
  "stamp_ack fs ack op =
     (if facet ACK_FACET op = None \<and> ack then set_facet ACK_FACET (ser_ack fs True) op else op)"

definition stamped ::
  "facet_serde \<Rightarrow> request_scope \<Rightarrow> bool \<Rightarrow> recorder \<Rightarrow> recorded_operation \<Rightarrow> staged_op" where
  "stamped fs sc ack r op =
     \<lparr>so_record = stamp_ack fs ack (stamp_origin fs sc (stamp_intent fs sc op)),
      so_author = (case sc_author sc of Some a \<Rightarrow> a | None \<Rightarrow> rc_author r),
      so_branch = rc_branch r, so_document = sc_document sc\<rparr>"

text \<open>The consolidated record of a discard scope that has just closed gets the number the scope reserved.\<close>

definition claim_sequence :: "nat option \<Rightarrow> staged_op \<Rightarrow> staged_op" where
  "claim_sequence pending s =
     (case pending of
        None \<Rightarrow> s
      | Some n \<Rightarrow>
          (if ro_reserved (so_record s) = None
           then s\<lparr>so_record := so_record s\<lparr>ro_reserved := Some n\<rparr>\<rparr> else s))"

definition record_op ::
  "facet_serde \<Rightarrow> request_scope \<Rightarrow> bool \<Rightarrow> recorded_operation \<Rightarrow> recorder \<Rightarrow>
   (record_error, unit) result \<times> recorder" where
  "record_op fs sc ack op r =
     (let st = rc_staging r;
          s = claim_sequence (st_pending_sequence st) (stamped fs sc ack r op);
          st' = st\<lparr>st_pending_sequence := None\<rparr>
      in if 0 < st_depth st
         then (Ok (), r\<lparr>rc_staging := st'\<lparr>st_buffer := st_buffer st' @ [s]\<rparr>\<rparr>)
         else hand_over fs s (r\<lparr>rc_staging := st'\<rparr>))"

definition saturating_inc :: "nat \<Rightarrow> nat" where
  "saturating_inc n = min (n + 1) (2 ^ 32 - 1)"

definition update_staging :: "(staging_state \<Rightarrow> staging_state) \<Rightarrow> recorder \<Rightarrow> recorder" where
  "update_staging f r = r\<lparr>rc_staging := f (rc_staging r)\<rparr>"

definition begin_pending :: "recorder \<Rightarrow> recorder" where
  "begin_pending = update_staging (\<lambda>st. st\<lparr>st_depth := saturating_inc (st_depth st)\<rparr>)"

definition commit_pending :: "facet_serde \<Rightarrow> recorder \<Rightarrow> recorder" where
  "commit_pending fs r =
     (let st = rc_staging r
      in if st_depth st = 0 then r
         else if st_depth st = 1
         then fold (\<lambda>s r. snd (hand_over fs s r)) (st_buffer st)
                (r\<lparr>rc_staging := st\<lparr>st_depth := 0, st_buffer := []\<rparr>\<rparr>)
         else r\<lparr>rc_staging := st\<lparr>st_depth := st_depth st - 1\<rparr>\<rparr>)"

definition abort_pending :: "recorder \<Rightarrow> recorder" where
  "abort_pending =
     update_staging (\<lambda>st.
       if st_depth st = 0 then st
       else if st_depth st = 1 then st\<lparr>st_depth := 0, st_buffer := []\<rparr>
       else st\<lparr>st_depth := st_depth st - 1\<rparr>)"

section \<open>Discard scopes and reserved numbers\<close>

definition begin_discard_scope :: "recorder \<Rightarrow> recorder" where
  "begin_discard_scope =
     update_staging (\<lambda>st.
       (if st_discard_depth st = 0 then st\<lparr>st_scope_sequence := None, st_pending_sequence := None\<rparr> else st)
         \<lparr>st_discard_depth := saturating_inc (st_discard_depth st)\<rparr>)"

definition end_discard_scope :: "recorder \<Rightarrow> recorder" where
  "end_discard_scope =
     update_staging (\<lambda>st.
       if st_discard_depth st = 0 then st
       else if st_discard_depth st = 1
       then st\<lparr>st_discard_depth := 0, st_pending_sequence := st_scope_sequence st, st_scope_sequence := None\<rparr>
       else st\<lparr>st_discard_depth := st_discard_depth st - 1\<rparr>)"

definition records_are_discarded :: "recorder \<Rightarrow> bool" where
  "records_are_discarded r \<longleftrightarrow> 0 < st_discard_depth (rc_staging r)"

definition evt_key :: "nat \<Rightarrow> string" where
  "evt_key n = ''evt:'' @ show_nat n"

text \<open>\<open>contended\<close>: the timeline is locked by a writer, which matters only before the counter is known.\<close>

definition reserve_event_key :: "bool \<Rightarrow> recorder \<Rightarrow> timeline \<Rightarrow> string option \<times> recorder \<times> timeline" where
  "reserve_event_key contended r t =
     (let st = rc_staging r
      in case (if 0 < st_discard_depth st then st_scope_sequence st else None) of
           Some n \<Rightarrow> (Some (evt_key n), r, t)
         | None \<Rightarrow>
             if \<not> rc_counter_known r \<and> contended then (None, r, t)
             else (case reserve_sequence_number t of
               (n, t') \<Rightarrow>
                 let r' = r\<lparr>rc_counter_known := True\<rparr>
                 in if 0 < st_discard_depth st
                    then (case st_scope_sequence st of
                        Some existing \<Rightarrow> (Some (evt_key existing), r', t')
                      | None \<Rightarrow> (Some (evt_key n), r'\<lparr>rc_staging := st\<lparr>st_scope_sequence := Some n\<rparr>\<rparr>, t'))
                    else (Some (evt_key n), r', t')))"

section \<open>The worker\<close>

type_synonym stored_event = "timeline_event \<times> redo_tail_discard option \<times> string option"

record recording =
  rg_recorder :: recorder
  rg_timeline :: timeline
  rg_disk :: "stored_event list"
  rg_answers :: "(nat \<times> record_failures) list"

definition to_timeline_operation :: "recorded_operation \<Rightarrow> operation" where
  "to_timeline_operation op = Generic (ro_kind op) (record_envelope op)"

text \<open>What the surroundings supply when the worker takes a command: the identifier and the time of the event,
  the answer of the store, and whether the caller of a flush still waits.\<close>

record drain_env =
  de_event_id :: event_id
  de_now :: timestamp
  de_written :: "(string, unit) result"
  de_listening :: bool

definition persist ::
  "facet_serde \<Rightarrow> drain_env \<Rightarrow> staged_op \<Rightarrow> event_id \<Rightarrow> redo_tail_discard option \<Rightarrow> recording \<Rightarrow> recording" where
  "persist fs env s eid discarded w =
     (if \<not> rc_sink (rg_recorder w) then w
      else case get_event (rg_timeline w) eid of
        None \<Rightarrow> w
      | Some ev \<Rightarrow>
          (case de_written env of
             Ok _ \<Rightarrow> w\<lparr>rg_disk := rg_disk w @ [(ev, discarded, so_document s)]\<rparr>
           | Err msg \<Rightarrow>
               w\<lparr>rg_recorder := note_failure (failure_of fs s Stage_Persist (Some (sequence_number ev))
                   (case discarded of
                      Some d \<Rightarrow> Discard_not_persisted msg (rt_removed_sequences d)
                    | None \<Rightarrow> Persist_refused msg)) (rg_recorder w)\<rparr>))"

definition drain_op ::
  "facet_serde \<Rightarrow> (string \<Rightarrow> uuid option) \<Rightarrow> drain_env \<Rightarrow> staged_op \<Rightarrow> recording \<Rightarrow> recording" where
  "drain_op fs pu env s w =
     (case append_internal pu (de_event_id env) (de_now env) (to_timeline_operation (so_record s))
             (so_author s) (so_branch s) (ro_reserved (so_record s))
             (Option.bind (map_option from_recorded_solid (ro_certificate (so_record s))) (ser_certificate fs))
             (rg_timeline w) of
        (Ok (eid, discarded), t') \<Rightarrow> persist fs env s eid discarded (w\<lparr>rg_timeline := t'\<rparr>)
      | (Err e, t') \<Rightarrow>
          w\<lparr>rg_timeline := t',
            rg_recorder := note_failure (failure_of fs s Stage_Append (ro_reserved (so_record s)) (Append_refused e))
              (rg_recorder w)\<rparr>)"

definition drain_flush :: "drain_env \<Rightarrow> bool \<Rightarrow> nat \<Rightarrow> recording \<Rightarrow> recording" where
  "drain_flush env taking reply w =
     (let r = rg_recorder w;
          answer = (if taking then rc_failures r else no_failures);
          left = (if taking then no_failures else rc_failures r)
      in if de_listening env
         then w\<lparr>rg_recorder := r\<lparr>rc_failures := left\<rparr>, rg_answers := rg_answers w @ [(reply, answer)]\<rparr>
         else w\<lparr>rg_recorder := r\<lparr>rc_failures := put_back answer left\<rparr>\<rparr>)"

definition drain :: "facet_serde \<Rightarrow> (string \<Rightarrow> uuid option) \<Rightarrow> drain_env \<Rightarrow> recording \<Rightarrow> recording" where
  "drain fs pu env w =
     (case rc_queue (rg_recorder w) of
        [] \<Rightarrow> w
      | c # q \<Rightarrow>
          let w' = w\<lparr>rg_recorder := (rg_recorder w)\<lparr>rc_queue := q\<rparr>\<rparr>
          in (case c of
                Cmd_Op s \<Rightarrow> drain_op fs pu env s w'
              | Cmd_Flush taking reply \<Rightarrow> drain_flush env taking reply w'))"

text \<open>A flush waits for room in the channel, so it is a step that is not possible without.\<close>

definition barrier :: "bool \<Rightarrow> nat \<Rightarrow> recorder \<Rightarrow> (flush_error, unit) result \<times> recorder" where
  "barrier taking reply r =
     (if \<not> rc_running r then (Err Flush_unavailable, r)
      else (Ok (), r\<lparr>rc_queue := rc_queue r @ [Cmd_Flush taking reply]\<rparr>))"

definition flush_result :: "record_failures \<Rightarrow> (flush_error, unit) result" where
  "flush_result fl = (if failures_empty fl then Ok () else Err (RecordingFailed fl))"

end
