(* ===== verification/Kernel_Recording.thy ===== *)
theory Kernel_Recording
  imports Recorder
begin

text \<open>
  How the kernel records: \<^verbatim>\<open>record_operation\<close> and its companions on \<^verbatim>\<open>BRepModel\<close>
  (\<^verbatim>\<open>geometry-engine/src/primitives/topology_builder.rs\<close>), \<^verbatim>\<open>with_rollback\<close>
  (\<^verbatim>\<open>operations/lifecycle.rs\<close>) and \<^verbatim>\<open>RecorderSuppressGuard\<close> (\<^verbatim>\<open>api-server/src/csketch.rs\<close>), over the recorder.

  A model and the recording it takes part in are a pair. The model has the recorder, or none. What a
  certificate says of a solid, when labels are empty, and what marks a cached certificate stale are parameters.
\<close>

section \<open>References to solids\<close>

definition parse_solid_ref :: "string \<Rightarrow> solid_id option" where
  "parse_solid_ref reference =
     (case split_once (CHR '':'') reference of
        None \<Rightarrow> None
      | Some (kind, i) \<Rightarrow>
          if kind \<noteq> ''solid'' then None
          else (case parse_u64 i of Some n \<Rightarrow> if n < 2 ^ 32 then Some (of_nat n) else None | None \<Rightarrow> None))"

record 'g kernel_hooks =
  kh_invalidate :: "'g solid \<Rightarrow> 'g solid"
  kh_unlabelled :: "'g \<Rightarrow> bool"
  kh_certificate :: "'g brep_model \<Rightarrow> solid_id \<Rightarrow> validity_certificate"
  kh_face_count :: "'g brep_model \<Rightarrow> solid_id \<Rightarrow> nat option"

section \<open>Recording an operation\<close>

text \<open>Every solid an operation names loses its cached certificates.\<close>

definition invalidate_named :: "'g kernel_hooks \<Rightarrow> recorded_operation \<Rightarrow> 'g brep_model \<Rightarrow> 'g brep_model" where
  "invalidate_named kh op m =
     fold (\<lambda>i m. m\<lparr>br_solids := (br_solids m)\<lparr>ss_solids := modify_entry i (kh_invalidate kh) (ss_solids (br_solids m))\<rparr>\<rparr>)
       (List.map_filter parse_solid_ref (ro_inputs op @ ro_outputs op)) m"

definition attach_certificate :: "'g kernel_hooks \<Rightarrow> 'g brep_model \<Rightarrow> recorded_operation \<Rightarrow> recorded_operation" where
  "attach_certificate kh m op =
     (if ro_certificate op \<noteq> None then op
      else case rev (remdups (rev (List.map_filter parse_solid_ref (ro_outputs op)))) of
        [i] \<Rightarrow>
          (if get_solid (br_solids m) i = None \<or> \<not> kh_unlabelled kh (br_labels m) then op
           else op\<lparr>ro_certificate := Some (from_validity (kh_certificate kh m i) None (kh_face_count kh m i))\<rparr>)
      | _ \<Rightarrow> op)"

type_synonym 'g recorded_model = "'g brep_model \<times> recording"

definition on_recorder :: "(recorder \<Rightarrow> recorder) \<Rightarrow> recording \<Rightarrow> recording" where
  "on_recorder f w = w\<lparr>rg_recorder := f (rg_recorder w)\<rparr>"

definition reserve_key :: "bool \<Rightarrow> recording \<Rightarrow> string option \<times> recording" where
  "reserve_key contended w =
     (case reserve_event_key contended (rg_recorder w) (rg_timeline w) of
        (key, r, t) \<Rightarrow> (key, w\<lparr>rg_recorder := r, rg_timeline := t\<rparr>))"

text \<open>The number a record carries: the one its root identifiers were minted under, or else one reserved now,
  unless the record will be discarded.\<close>

definition sequence_for :: "bool \<Rightarrow> nat option \<Rightarrow> recording \<Rightarrow> nat option \<times> recording" where
  "sequence_for contended minted w =
     (case minted of
        Some n \<Rightarrow> (Some n, w)
      | None \<Rightarrow>
          (if records_are_discarded (rg_recorder w) then (None, w)
           else case reserve_key contended w of (key, w') \<Rightarrow> (Option.bind key seq_of_key, w')))"

definition kernel_record ::
  "facet_serde \<Rightarrow> 'g kernel_hooks \<Rightarrow> request_scope \<Rightarrow> bool \<Rightarrow> bool \<Rightarrow> recorded_operation \<Rightarrow>
   'g recorded_model \<Rightarrow> 'g recorded_model" where
  "kernel_record fs kh sc ack contended op mw =
     (let m = invalidate_named kh op (fst mw); w = snd mw
      in if br_recorder m = None then (m, w)
         else
           let op1 = (if records_are_discarded (rg_recorder w) then op else attach_certificate kh m op)
           in (case sequence_for contended (br_reserved_sequence m) w of
                (seq, w') \<Rightarrow>
                  (m\<lparr>br_reserved_sequence := None, br_event_key := None\<rparr>,
                   on_recorder (\<lambda>r. snd (record_op fs sc ack (op1\<lparr>ro_reserved := seq\<rparr>) r)) w')))"

definition root_seed :: "bool \<Rightarrow> string \<Rightarrow> 'g recorded_model \<Rightarrow> string \<times> 'g recorded_model" where
  "root_seed contended kind_params mw =
     (let (key, w) = (if br_event_key (fst mw) = None \<and> br_recorder (fst mw) \<noteq> None
                      then reserve_key contended (snd mw) else (None, snd mw));
          (seed, m) = next_root_seed (\<lambda>_. key) kind_params (fst mw)
      in (seed, (m, w)))"

section \<open>Windows\<close>

definition via_recorder :: "(recorder \<Rightarrow> recorder) \<Rightarrow> 'g recorded_model \<Rightarrow> 'g recorded_model" where
  "via_recorder f mw = (if br_recorder (fst mw) = None then mw else (fst mw, on_recorder f (snd mw)))"

definition begin_pending_record :: "'g recorded_model \<Rightarrow> 'g recorded_model" where
  "begin_pending_record = via_recorder begin_pending"

definition commit_pending_record :: "facet_serde \<Rightarrow> 'g recorded_model \<Rightarrow> 'g recorded_model" where
  "commit_pending_record fs = via_recorder (commit_pending fs)"

definition abort_pending_record :: "'g recorded_model \<Rightarrow> 'g recorded_model" where
  "abort_pending_record mw =
     (case via_recorder abort_pending mw of (m, w) \<Rightarrow> (m\<lparr>br_event_key := None, br_reserved_sequence := None\<rparr>, w))"

definition with_rollback ::
  "facet_serde \<Rightarrow> ('g recorded_model \<Rightarrow> ('e, 'a) result \<times> 'g recorded_model) \<Rightarrow> 'g recorded_model \<Rightarrow>
   ('e, 'a) result \<times> 'g recorded_model" where
  "with_rollback fs body mw =
     (let snapshot = take_snapshot (fst mw)
      in case body (begin_pending_record mw) of
           (Ok out, mw') \<Rightarrow> (Ok out, commit_pending_record fs mw')
         | (Err e, mw') \<Rightarrow>
             (case abort_pending_record mw' of (m, w) \<Rightarrow> (Err e, (restore_snapshot snapshot m, w))))"

text \<open>The guard of the server, at its construction and when it is dropped.\<close>

definition suppress :: "recorder \<Rightarrow> recorder" where
  "suppress r = begin_discard_scope (begin_pending r)"

definition unsuppress :: "recorder \<Rightarrow> recorder" where
  "unsuppress r = end_discard_scope (abort_pending r)"

end
