(* ===== verification/Recorder_Windows.thy ===== *)
theory Recorder_Windows
  imports Kernel_Recording
begin

text \<open>
  What windows do. A window that fails is meant to take its records with it; the recorder keeps one
  buffer for all open windows, so the outermost one decides for all of them. A suppressed build leaves
  nothing but the number its one consolidated record is given, and so does whatever else is recorded
  meanwhile.
\<close>

section \<open>Traces of windows\<close>

datatype trace = Rec request_scope bool recorded_operation | Window bool "trace list"

fun run_trace :: "facet_serde \<Rightarrow> trace \<Rightarrow> recorder \<Rightarrow> recorder" where
  "run_trace fs (Rec sc ack op) r = snd (record_op fs sc ack op r)"
| "run_trace fs (Window ok ts) r =
     (if ok then commit_pending fs else abort_pending) (fold (run_trace fs) ts (begin_pending r))"

text \<open>All records of a trace; those of nested transactions, where a window that fails takes its own
  records and those within it; those of the code.\<close>

fun all_records :: "facet_serde \<Rightarrow> recorder \<Rightarrow> trace \<Rightarrow> staged_op list" where
  "all_records fs r (Rec sc ack op) = [stamped fs sc ack r op]"
| "all_records fs r (Window ok ts) = concat (map (all_records fs r) ts)"

fun transactional :: "facet_serde \<Rightarrow> recorder \<Rightarrow> trace \<Rightarrow> staged_op list" where
  "transactional fs r (Rec sc ack op) = [stamped fs sc ack r op]"
| "transactional fs r (Window ok ts) = (if ok then concat (map (transactional fs r) ts) else [])"

fun outermost :: "facet_serde \<Rightarrow> recorder \<Rightarrow> trace \<Rightarrow> staged_op list" where
  "outermost fs r (Rec sc ack op) = [stamped fs sc ack r op]"
| "outermost fs r (Window ok ts) = (if ok then concat (map (all_records fs r) ts) else [])"

text \<open>A window that fails with records in it, inside one that succeeds.\<close>

fun has_record :: "trace \<Rightarrow> bool" where
  "has_record (Rec sc ack op) = True"
| "has_record (Window ok ts) = list_ex has_record ts"

fun drops :: "trace \<Rightarrow> bool" where
  "drops (Rec sc ack op) = False"
| "drops (Window ok ts) = (if ok then list_ex drops ts else list_ex has_record ts)"

fun recovers :: "trace \<Rightarrow> bool" where
  "recovers (Rec sc ack op) = False"
| "recovers (Window ok ts) = (ok \<and> list_ex drops ts)"

fun height :: "trace \<Rightarrow> nat" where
  "height (Rec sc ack op) = 0"
| "height (Window ok ts) = Suc (fold max (map height ts) 0)"

lemma fold_max: "b \<le> fold max xs b" "x \<in> set xs \<Longrightarrow> x \<le> fold max xs (b :: nat)"
proof (induction xs arbitrary: b)
  case (Cons a xs)
  { case 1 show ?case using Cons(1) [of "max a b"] by simp }
  { case 2 then show ?case using Cons(1) [of "max a b"] Cons(2) [of "max a b"] by auto }
qed simp_all

lemma has_record_iff: "has_record t \<longleftrightarrow> all_records fs r t \<noteq> []"
  by (induction t) (auto simp: list_ex_iff)

lemma sum_less:
  assumes "\<And>t. t \<in> set ts \<Longrightarrow> f t \<le> g t" and "t \<in> set ts" and "f t < (g t :: nat)"
  shows "sum_list (map f ts) < sum_list (map g ts)"
  using assms
proof (induction ts)
  case (Cons a ts)
  have le: "sum_list (map f ts) \<le> sum_list (map g ts)" using Cons.prems(1) by (intro sum_list_mono) simp
  show ?case
  proof (cases "t = a")
    case True
    with le Cons.prems(3) show ?thesis by simp
  next
    case False
    with Cons have "sum_list (map f ts) < sum_list (map g ts)" by simp
    with Cons.prems(1) [of a] show ?thesis by simp
  qed
qed simp

lemma transactional_le: "length (transactional fs r t) \<le> length (all_records fs r t)"
  by (induction t) (auto simp: length_concat comp_def intro!: sum_list_mono)

lemma nothing_dropped: "\<not> drops t \<Longrightarrow> transactional fs r t = all_records fs r t"
proof (induction t)
  case (Window ok ts)
  show ?case
  proof (cases ok)
    case True
    with Window have "map (transactional fs r) ts = map (all_records fs r) ts" by (auto simp: list_ex_iff)
    with True show ?thesis by (simp only: transactional.simps all_records.simps if_True)
  next
    case False
    with Window.prems show ?thesis by (auto simp: list_ex_iff has_record_iff [of _ fs r])
  qed
qed simp

lemma dropped_shorter: "drops t \<Longrightarrow> length (transactional fs r t) < length (all_records fs r t)"
proof (induction t)
  case (Window ok ts)
  show ?case
  proof (cases ok)
    case True
    with Window obtain t where "t \<in> set ts" "length (transactional fs r t) < length (all_records fs r t)"
      by (auto simp: list_ex_iff)
    with True show ?thesis
      using sum_less [of ts "\<lambda>t. length (transactional fs r t)" "\<lambda>t. length (all_records fs r t)" t]
      by (simp add: length_concat comp_def transactional_le)
  next
    case False
    with Window.prems obtain t where "t \<in> set ts" "all_records fs r t \<noteq> []"
      by (auto simp: list_ex_iff has_record_iff [of _ fs r])
    with False show ?thesis by auto
  qed
qed simp

lemma not_recovered: "\<not> recovers t \<Longrightarrow> outermost fs r t = transactional fs r t"
  by (cases t) (auto simp: list_ex_iff nothing_dropped intro!: arg_cong [where f = concat])

lemma recovered_longer: "recovers t \<Longrightarrow> length (transactional fs r t) < length (outermost fs r t)"
proof (cases t)
  case (Window ok ts)
  assume "recovers t"
  with Window have "drops t" ok by simp_all
  with Window show ?thesis using dropped_shorter [of t fs r] by simp
qed simp

lemma outermost_is_transactional:
  "concat (map (outermost fs r) ts) = concat (map (transactional fs r) ts) \<longleftrightarrow> \<not> list_ex recovers ts"
proof
  assume same: "concat (map (outermost fs r) ts) = concat (map (transactional fs r) ts)"
  have le: "length (transactional fs r t) \<le> length (outermost fs r t)" for t
    using not_recovered [of t fs r] recovered_longer [of t fs r] by (cases "recovers t") auto
  show "\<not> list_ex recovers ts"
  proof
    assume "list_ex recovers ts"
    then obtain t where "t \<in> set ts" "length (transactional fs r t) < length (outermost fs r t)"
      using recovered_longer by (auto simp: list_ex_iff)
    then show False
      using sum_less [of ts "\<lambda>t. length (transactional fs r t)" "\<lambda>t. length (outermost fs r t)" t] le
        arg_cong [OF same, of length] by (simp add: length_concat comp_def)
  qed
next
  assume "\<not> list_ex recovers ts"
  then show "concat (map (outermost fs r) ts) = concat (map (transactional fs r) ts)"
    by (auto simp: list_ex_iff not_recovered intro!: arg_cong [where f = concat])
qed

section \<open>What the recorder forwards\<close>

definition staging_at :: "nat \<Rightarrow> staged_op list \<Rightarrow> recorder \<Rightarrow> recorder" where
  "staging_at d buffer r = update_staging (\<lambda>st. st\<lparr>st_depth := d, st_buffer := buffer\<rparr>) r"

lemma stamped_staging [simp]: "stamped fs sc ack (staging_at d b r) op = stamped fs sc ack r op"
  by (simp add: stamped_def staging_at_def update_staging_def split: option.split)

lemma all_records_staging [simp]: "all_records fs (staging_at d b r) t = all_records fs r t"
  by (induction t) (auto intro!: arg_cong [where f = concat])

lemma staging_staging [simp]: "staging_at d b (staging_at d' b' r) = staging_at d b r"
  by (simp add: staging_at_def update_staging_def)

lemma staging_pending [simp]:
  "st_pending_sequence (rc_staging (staging_at d b r)) = st_pending_sequence (rc_staging r)"
  by (simp add: staging_at_def update_staging_def)

lemma staging_same:
  "st_depth (rc_staging r) = d \<Longrightarrow> st_buffer (rc_staging r) = b \<Longrightarrow> staging_at d b r = r"
  by (cases r; cases "rc_staging r") (simp add: staging_at_def update_staging_def)

lemma begin_staging: "d + 1 < 2 ^ 32 \<Longrightarrow> begin_pending (staging_at d b r) = staging_at (d + 1) b r"
  by (simp add: begin_pending_def staging_at_def update_staging_def saturating_inc_def)

lemma record_staging:
  "0 < d \<Longrightarrow> st_pending_sequence (rc_staging r) = None \<Longrightarrow>
   record_op fs sc ack op (staging_at d b r) = (Ok (), staging_at d (b @ [stamped fs sc ack r op]) r)"
  by (cases r; cases "rc_staging r")
     (simp add: record_op_def Let_def claim_sequence_def staging_at_def update_staging_def stamped_def split: option.split)

lemma close_staging:
  "commit_pending fs (staging_at (Suc (Suc d)) b r) = staging_at (Suc d) b r"
  "abort_pending (staging_at (Suc (Suc d)) b r) = staging_at (Suc d) b r"
  "commit_pending fs (staging_at (Suc 0) b r) = fold (\<lambda>s r. snd (hand_over fs s r)) b (staging_at 0 [] r)"
  "abort_pending (staging_at (Suc 0) b r) = staging_at 0 [] r"
  by (simp_all add: commit_pending_def abort_pending_def staging_at_def update_staging_def Let_def)

lemma trace_inside:
  assumes "st_pending_sequence (rc_staging r) = None" and "d + height t + 1 < 2 ^ 32"
  shows "run_trace fs t (staging_at (Suc d) b r) = staging_at (Suc d) (b @ all_records fs r t) r"
  using assms
proof (induction t arbitrary: d b)
  case (Rec sc ack op)
  then show ?case by (simp add: record_staging)
next
  case (Window ok ts)
  have steps: "fold (run_trace fs) us (staging_at (Suc (Suc d)) b r) =
      staging_at (Suc (Suc d)) (b @ concat (map (all_records fs r) us)) r" if "set us \<subseteq> set ts" for us b
    using that
  proof (induction us arbitrary: b)
    case (Cons u us)
    have "height u \<le> fold max (map height ts) 0" using Cons.prems fold_max(2) [of "height u" "map height ts" 0] by auto
    then have "Suc d + height u + 1 < 2 ^ 32" using Window.prems(2) by simp
    with Window.IH [of u "Suc d" b] Cons Window.prems(1) show ?case by simp
  qed simp
  show ?case
    using Window.prems steps [of ts b] by (cases ok) (simp_all add: begin_staging close_staging)
qed

text \<open>Outside all windows, with no number that waits for a consolidated record.\<close>

definition idle :: "recorder \<Rightarrow> bool" where
  "idle r \<longleftrightarrow> st_depth (rc_staging r) = 0 \<and> st_buffer (rc_staging r) = [] \<and> st_pending_sequence (rc_staging r) = None"

lemma idle_staging: "idle r \<Longrightarrow> staging_at 0 [] r = r"
  by (simp add: idle_def staging_same)

lemma record_idle: "idle r \<Longrightarrow> record_op fs sc ack op r = hand_over fs (stamped fs sc ack r op) r"
  by (cases r; cases "rc_staging r") (auto simp: idle_def record_op_def Let_def claim_sequence_def)

lemma hand_over_staging [simp]: "rc_staging (snd (hand_over fs s r)) = rc_staging r"
  by (auto simp: hand_over_def try_send_def note_failure_def split: prod.split sum.split)

lemma hand_over_all_staging [simp]: "rc_staging (fold (\<lambda>s r. snd (hand_over fs s r)) ss r) = rc_staging r"
  by (induction ss arbitrary: r) simp_all

lemma trace_outside:
  assumes "idle r" and "height t + 1 < 2 ^ 32"
  shows "run_trace fs t r = fold (\<lambda>s r. snd (hand_over fs s r)) (outermost fs r t) r"
proof -
  note r = idle_staging [OF assms(1)]
  have p: "st_pending_sequence (rc_staging r) = None" using assms(1) by (simp add: idle_def)
  show ?thesis
  proof (cases t)
    case (Rec sc ack op)
    then show ?thesis by (simp add: record_idle [OF assms(1)])
  next
    case (Window ok ts)
    have steps: "fold (run_trace fs) us (staging_at (Suc 0) b r) =
        staging_at (Suc 0) (b @ concat (map (all_records fs r) us)) r" if "set us \<subseteq> set ts" for us b
      using that
    proof (induction us arbitrary: b)
      case (Cons u us)
      have "height u \<le> fold max (map height ts) 0" using Cons.prems fold_max(2) [of "height u" "map height ts" 0] by auto
      then have "0 + height u + 1 < 2 ^ 32" using assms(2) Window by simp
      with trace_inside [OF p, of 0 u fs b] Cons show ?case by simp
    qed simp
    show ?thesis
      using Window steps [of ts "[]"] begin_staging [of 0 "[]" r] by (cases ok) (simp_all add: r close_staging)
  qed
qed

lemma stamped_hand_over [simp]: "stamped fs sc ack (snd (hand_over fs s r)) op = stamped fs sc ack r op"
  by (auto simp: stamped_def hand_over_def try_send_def note_failure_def split: prod.split sum.split option.split)

lemma outermost_hand_over [simp]: "outermost fs (snd (hand_over fs s r)) t = outermost fs r t"
proof -
  have "all_records fs (snd (hand_over fs s r)) t = all_records fs r t" for t
    by (induction t) (auto intro!: arg_cong [where f = concat])
  then show ?thesis by (cases t) (simp_all cong: map_cong)
qed

lemma outermost_hand_over_all [simp]:
  "outermost fs (fold (\<lambda>s r. snd (hand_over fs s r)) ss r) t = outermost fs r t"
  by (induction ss arbitrary: r) simp_all

lemma traces_outside:
  assumes "idle r" and "\<And>t. t \<in> set ts \<Longrightarrow> height t + 1 < 2 ^ 32"
  shows "fold (run_trace fs) ts r = fold (\<lambda>s r. snd (hand_over fs s r)) (concat (map (outermost fs r) ts)) r"
  using assms
proof (induction ts arbitrary: r)
  case (Cons t ts)
  have t: "run_trace fs t r = fold (\<lambda>s r. snd (hand_over fs s r)) (outermost fs r t) r"
    using Cons.prems by (simp add: trace_outside)
  have "idle (run_trace fs t r)" using Cons.prems(1) by (simp add: idle_def t)
  with Cons.IH [of "run_trace fs t r"] Cons.prems(2) show ?case by (simp add: t)
qed simp

text \<open>C36. The recorder forwards, in the order they were made, exactly the records whose outermost window
  succeeded. That is what nested transactions would forward unless a window that failed, with records
  in it, lies inside one that succeeded: the records of an inner rollback that is recovered from reach
  the timeline.\<close>

theorem staging_follows_outermost_window:
  assumes "idle r" and "list_all (\<lambda>t. height t + 1 < 2 ^ 32) ts"
  shows "fold (run_trace fs) ts r = fold (\<lambda>s r. snd (hand_over fs s r)) (concat (map (outermost fs r) ts)) r \<and>
    (concat (map (outermost fs r) ts) = concat (map (transactional fs r) ts) \<longleftrightarrow> \<not> list_ex recovers ts)"
  using traces_outside [OF assms(1), of ts fs] assms(2) outermost_is_transactional by (simp add: list_all_iff)

definition plain_serde :: facet_serde where
  "plain_serde =
     \<lparr>ser_intent = (\<lambda>f. Json_String (if_text f)),
      ser_origin = (\<lambda>f. Json_Bool (of_channel f = Rest)),
      de_origin = (\<lambda>v. Some \<lparr>of_channel = (if v = Json_Bool True then Rest else NotDetermined), of_basis = ServerObserved\<rparr>),
      ser_ack = Json_Bool, ser_certificate = (\<lambda>c. None)\<rparr>"

definition sample_recorder :: recorder where
  "sample_recorder = new_with_sink System main_branch"

definition recovered_attempt :: "trace list" where
  "recovered_attempt =
     [Window True [Window False [Rec no_scope False (new_operation ''loft'')], Rec no_scope False (new_operation ''revolve'')]]"

lemma staging_follows_outermost_window_witness:
  "map (\<lambda>c. case c of Cmd_Op s \<Rightarrow> ro_kind (so_record s) | _ \<Rightarrow> [])
     (rc_queue (fold (run_trace plain_serde) recovered_attempt sample_recorder)) = [''loft'', ''revolve''] \<and>
   concat (map (outermost plain_serde sample_recorder) recovered_attempt) \<noteq>
     concat (map (transactional plain_serde sample_recorder) recovered_attempt)"
proof -
  have "idle sample_recorder"
    by (simp add: idle_def sample_recorder_def new_with_sink_def recorder_with_def no_staging_def)
  note run = staging_follows_outermost_window [OF this, of recovered_attempt plain_serde]
  have "list_all (\<lambda>t. height t + 1 < 2 ^ 32) recovered_attempt" "list_ex recovers recovered_attempt"
    by (simp_all add: recovered_attempt_def)
  with run show ?thesis
    by (simp add: recovered_attempt_def sample_recorder_def new_with_sink_def recorder_with_def hand_over_def
        try_send_def RECORDER_CHANNEL_CAPACITY_def stamped_def stamp_ack_def stamp_origin_def stamp_intent_def
        set_facet_def new_operation_def no_scope_def Let_def)
qed

end
