(* ===== verification/Recorder_Scopes.thy ===== *)
theory Recorder_Scopes
  imports Recorder_Windows Bounded_Exec_Props
begin

text \<open>
  Suppressed builds. All root identifiers of a build are minted under one number, and the one record of
  the build gets it. The recorder is shared by all requests, though: what another request records while
  a build is suppressed is discarded with the steps of the build, and a record that comes between a build
  and its own record takes the number away.
\<close>

section \<open>Actions of the kernel\<close>

datatype act =
    Mint bool string
  | Note request_scope bool bool recorded_operation
  | Begin_window
  | Commit_window
  | Abort_window

fun run_act ::
  "facet_serde \<Rightarrow> 'g kernel_hooks \<Rightarrow> act \<Rightarrow> string list \<times> 'g recorded_model \<Rightarrow> string list \<times> 'g recorded_model" where
  "run_act fs kh (Mint contended kp) (seeds, mw) =
     (case root_seed contended kp mw of (seed, mw') \<Rightarrow> (seeds @ [seed], mw'))"
| "run_act fs kh (Note sc ack contended op) (seeds, mw) = (seeds, kernel_record fs kh sc ack contended op mw)"
| "run_act fs kh Begin_window (seeds, mw) = (seeds, begin_pending_record mw)"
| "run_act fs kh Commit_window (seeds, mw) = (seeds, commit_pending_record fs mw)"
| "run_act fs kh Abort_window (seeds, mw) = (seeds, abort_pending_record mw)"

definition run_acts ::
  "facet_serde \<Rightarrow> 'g kernel_hooks \<Rightarrow> act list \<Rightarrow> 'g recorded_model \<Rightarrow> string list \<times> 'g recorded_model" where
  "run_acts fs kh acts mw = fold (run_act fs kh) acts ([], mw)"

text \<open>Windows are closed that were opened, at most \<open>2 ^ 30\<close> of them at a time.\<close>

fun bracketed :: "nat \<Rightarrow> act list \<Rightarrow> bool" where
  "bracketed d [] \<longleftrightarrow> d = 0"
| "bracketed d (Begin_window # as) \<longleftrightarrow> d < 2 ^ 30 \<and> bracketed (Suc d) as"
| "bracketed d (Commit_window # as) \<longleftrightarrow> 0 < d \<and> bracketed (d - 1) as"
| "bracketed d (Abort_window # as) \<longleftrightarrow> 0 < d \<and> bracketed (d - 1) as"
| "bracketed d (a # as) \<longleftrightarrow> bracketed d as"

text \<open>The state inside a suppressed build that began with the counter at \<open>n\<close>.\<close>

definition inside ::
  "nat \<Rightarrow> recorder \<Rightarrow> recording \<Rightarrow> nat \<Rightarrow> string list \<times> 'g recorded_model \<Rightarrow> bool" where
  "inside n r0 w0 d s \<longleftrightarrow>
     (case s of (seeds, m, w) \<Rightarrow>
        let st = rc_staging (rg_recorder w) in
        br_recorder m \<noteq> None \<and>
        (br_event_key m = None \<and> br_reserved_sequence m = None \<or>
         br_event_key m = Some (evt_key n) \<and> br_reserved_sequence m = Some n \<and> st_scope_sequence st = Some n) \<and>
        st_depth st = Suc d \<and> st_discard_depth st = 1 \<and> st_pending_sequence st = None \<and>
        (rg_recorder w)\<lparr>rc_staging := no_staging\<rparr> = r0\<lparr>rc_staging := no_staging\<rparr> \<and> rg_disk w = rg_disk w0 \<and> rg_answers w = rg_answers w0 \<and>
        (st_scope_sequence st = None \<and> seeds = [] \<and> rg_timeline w = rg_timeline w0 \<or>
         st_scope_sequence st = Some n \<and> rg_timeline w = (rg_timeline w0)\<lparr>event_counter := wrapping_succ n\<rparr> \<and>
         (\<forall>seed \<in> set seeds. \<exists>kp. seed = evt_key n @ ''|'' @ kp)))"

lemma seq_of_evt_key: "n < u64_bound \<Longrightarrow> seq_of_key (evt_key n) = Some n"
  by (simp add: seq_of_key_def evt_key_def parse_u64_show_nat)

lemma recorder_invalidate [simp]:
  "br_recorder (invalidate_named kh op m) = br_recorder m"
  "br_event_key (invalidate_named kh op m) = br_event_key m"
  "br_reserved_sequence (invalidate_named kh op m) = br_reserved_sequence m"
proof -
  have "br_recorder (fold (\<lambda>i m. m\<lparr>br_solids := (br_solids m)\<lparr>ss_solids := f i m\<rparr>\<rparr>) is m) = br_recorder m \<and>
    br_event_key (fold (\<lambda>i m. m\<lparr>br_solids := (br_solids m)\<lparr>ss_solids := f i m\<rparr>\<rparr>) is m) = br_event_key m \<and>
    br_reserved_sequence (fold (\<lambda>i m. m\<lparr>br_solids := (br_solids m)\<lparr>ss_solids := f i m\<rparr>\<rparr>) is m) = br_reserved_sequence m"
    for f :: "32 word \<Rightarrow> 'a brep_model \<Rightarrow> (32 word \<times> 'a solid) list" and "is" m
    by (induction "is" arbitrary: m) auto
  then show "br_recorder (invalidate_named kh op m) = br_recorder m"
    "br_event_key (invalidate_named kh op m) = br_event_key m"
    "br_reserved_sequence (invalidate_named kh op m) = br_reserved_sequence m"
    by (simp_all add: invalidate_named_def)
qed

lemma record_op_inside:
  assumes "0 < st_depth (rc_staging r)"
  shows "record_op fs sc ack op r = (Ok (), r\<lparr>rc_staging := (rc_staging r)
    \<lparr>st_pending_sequence := None, st_buffer := st_buffer (rc_staging r) @
       [claim_sequence (st_pending_sequence (rc_staging r)) (stamped fs sc ack r op)]\<rparr>\<rparr>)"
  using assms by (simp add: record_op_def Let_def)

lemma known_same: "rc_counter_known r \<Longrightarrow> r\<lparr>rc_counter_known := True\<rparr> = r"
  by (cases r) simp

lemma reserve_again:
  assumes "0 < st_discard_depth (rc_staging (rg_recorder w))" and "st_scope_sequence (rc_staging (rg_recorder w)) = Some n"
  shows "reserve_key c w = (Some (evt_key n), w)"
  using assms by (simp add: reserve_key_def reserve_event_key_def Let_def)

lemma reserve_first:
  assumes "0 < st_discard_depth (rc_staging (rg_recorder w))" and "st_scope_sequence (rc_staging (rg_recorder w)) = None"
    and "rc_counter_known (rg_recorder w)" and "event_counter (rg_timeline w) = n"
  shows "reserve_key c w = (Some (evt_key n),
    w\<lparr>rg_recorder := (rg_recorder w)\<lparr>rc_staging := (rc_staging (rg_recorder w))\<lparr>st_scope_sequence := Some n\<rparr>\<rparr>,
      rg_timeline := (rg_timeline w)\<lparr>event_counter := wrapping_succ n\<rparr>\<rparr>)"
  using assms by (simp add: reserve_key_def reserve_event_key_def reserve_sequence_number_def Let_def known_same)

lemma inside_known: "inside n r0 w0 d (seeds, m, w) \<Longrightarrow> rc_counter_known r0 \<Longrightarrow> rc_counter_known (rg_recorder w)"
  by (auto simp: inside_def Let_def dest: arg_cong [where f = rc_counter_known])

lemma inside_mint:
  assumes "inside n r0 w0 d s" and "event_counter (rg_timeline w0) = n" and "n < u64_bound" and "rc_counter_known r0"
  shows "inside n r0 w0 d (run_act fs kh (Mint c kp) s)"
proof -
  obtain seeds m w where s: "s = (seeds, m, w)" by (cases s)
  let ?st = "rc_staging (rg_recorder w)"
  note i = assms(1) [unfolded s inside_def, simplified Let_def prod.case]
  have known: "rc_counter_known (rg_recorder w)" using inside_known assms(1,4) s by blast
  consider (keyed) "br_event_key m = Some (evt_key n)" "br_reserved_sequence m = Some n" "st_scope_sequence ?st = Some n"
    | (again) "br_event_key m = None" "st_scope_sequence ?st = Some n"
    | (first) "br_event_key m = None" "st_scope_sequence ?st = None" "seeds = []" "rg_timeline w = rg_timeline w0"
    using i by auto
  then show ?thesis
  proof cases
    case keyed
    have "root_seed c kp (m, w) = (evt_key n @ ''|'' @ kp, m, w)" using keyed by (simp add: root_seed_def next_root_seed_def)
    then show ?thesis using i keyed by (auto simp: s inside_def Let_def)
  next
    case again
    have "root_seed c kp (m, w) = (evt_key n @ ''|'' @ kp, m\<lparr>br_reserved_sequence := Some n, br_event_key := Some (evt_key n)\<rparr>, w)"
      using again i assms(3) reserve_again [of w n c]
      by (auto simp: root_seed_def next_root_seed_def seq_of_evt_key split: option.split)
    then show ?thesis using i again by (auto simp: s inside_def Let_def)
  next
    case first
    have "root_seed c kp (m, w) = (evt_key n @ ''|'' @ kp, m\<lparr>br_reserved_sequence := Some n, br_event_key := Some (evt_key n)\<rparr>,
        snd (reserve_key c w))"
      using first i assms(2,3) reserve_first [of w n c] known
      by (auto simp: root_seed_def next_root_seed_def seq_of_evt_key split: option.split)
    then show ?thesis using i first assms(2) reserve_first [of w n c] known by (auto simp: s inside_def Let_def)
  qed
qed

lemma kernel_record_discarded:
  assumes "br_recorder m \<noteq> None" and "records_are_discarded (rg_recorder w)"
  shows "kernel_record fs kh sc ack c op (m, w) =
    ((invalidate_named kh op m)\<lparr>br_reserved_sequence := None, br_event_key := None\<rparr>,
     on_recorder (\<lambda>r. snd (record_op fs sc ack (op\<lparr>ro_reserved := br_reserved_sequence m\<rparr>) r)) w)"
proof -
  have "sequence_for c (br_reserved_sequence m) w = (br_reserved_sequence m, w)"
    using assms(2) by (simp add: sequence_for_def split: option.split)
  moreover obtain k where "br_recorder m = Some k" using assms(1) by auto
  ultimately show ?thesis using assms(2) by (simp add: kernel_record_def Let_def)
qed

lemma inside_staged:
  assumes "inside n r0 w0 d (seeds, m, w)"
    and "br_recorder m' = br_recorder m" "br_event_key m' = None" "br_reserved_sequence m' = None"
  shows "inside n r0 w0 d (seeds, m', w\<lparr>rg_recorder := (rg_recorder w)\<lparr>rc_staging := (rc_staging (rg_recorder w))
    \<lparr>st_pending_sequence := None, st_buffer := b\<rparr>\<rparr>\<rparr>)"
  using assms by (simp add: inside_def Let_def)

lemma inside_note:
  assumes "inside n r0 w0 d s"
  shows "inside n r0 w0 d (run_act fs kh (Note sc ack c op) s)"
proof -
  obtain seeds m w where s: "s = (seeds, m, w)" by (cases s)
  note i = assms [unfolded s inside_def, simplified Let_def prod.case]
  let ?op = "op\<lparr>ro_reserved := br_reserved_sequence m\<rparr>"
  have "kernel_record fs kh sc ack c op (m, w) =
      ((invalidate_named kh op m)\<lparr>br_reserved_sequence := None, br_event_key := None\<rparr>,
       on_recorder (\<lambda>r. snd (record_op fs sc ack ?op r)) w)"
    using i by (intro kernel_record_discarded) (auto simp: records_are_discarded_def)
  moreover have "on_recorder (\<lambda>r. snd (record_op fs sc ack ?op r)) w =
      w\<lparr>rg_recorder := (rg_recorder w)\<lparr>rc_staging := (rc_staging (rg_recorder w))
      \<lparr>st_pending_sequence := None, st_buffer := st_buffer (rc_staging (rg_recorder w)) @
         [claim_sequence (st_pending_sequence (rc_staging (rg_recorder w))) (stamped fs sc ack (rg_recorder w) ?op)]\<rparr>\<rparr>\<rparr>"
    using i by (simp add: on_recorder_def record_op_inside)
  ultimately show ?thesis
    unfolding s run_act.simps by (simp only:) (rule inside_staged [OF assms [unfolded s]], simp_all)
qed

lemma inside_windows:
  assumes "inside n r0 w0 d (seeds, m, w)"
  shows "d < 2 ^ 30 \<Longrightarrow> inside n r0 w0 (Suc d) (seeds, begin_pending_record (m, w))"
    and "0 < d \<Longrightarrow> inside n r0 w0 (d - 1) (seeds, commit_pending_record fs (m, w))"
    and "0 < d \<Longrightarrow> inside n r0 w0 (d - 1) (seeds, abort_pending_record (m, w))"
  using assms
  by (auto simp: inside_def Let_def begin_pending_record_def commit_pending_record_def abort_pending_record_def
      via_recorder_def on_recorder_def begin_pending_def commit_pending_def abort_pending_def update_staging_def
      saturating_inc_def)

lemma inside_run:
  assumes "event_counter (rg_timeline w0) = n" and "n < u64_bound" and "rc_counter_known r0"
  shows "inside n r0 w0 d s \<Longrightarrow> bracketed d acts \<Longrightarrow> inside n r0 w0 0 (fold (run_act fs kh) acts s)"
proof (induction acts arbitrary: d s)
  case (Cons a acts)
  obtain seeds m w where s: "s = (seeds, m, w)" by (cases s)
  have "\<exists>d'. bracketed d' acts \<and> inside n r0 w0 d' (run_act fs kh a s)"
  proof (cases a)
    case (Mint c kp)
    with inside_mint [OF Cons.prems(1) assms] Cons.prems(2) show ?thesis by (metis bracketed.simps(5))
  next
    case (Note sc ack c op)
    with inside_note [OF Cons.prems(1)] Cons.prems(2) show ?thesis by (metis bracketed.simps(6))
  next
    case Begin_window
    with inside_windows(1) [OF Cons.prems(1) [unfolded s]] Cons.prems(2) show ?thesis
      unfolding s by (auto simp del: bracketed.simps(1) intro!: exI [of _ "Suc d"])
  next
    case Commit_window
    with inside_windows(2) [OF Cons.prems(1) [unfolded s]] Cons.prems(2) show ?thesis
      unfolding s by (auto intro!: exI [of _ "d - 1"])
  next
    case Abort_window
    with inside_windows(3) [OF Cons.prems(1) [unfolded s]] Cons.prems(2) show ?thesis
      unfolding s by (auto intro!: exI [of _ "d - 1"])
  qed
  then obtain d' where "bracketed d' acts" "inside n r0 w0 d' (run_act fs kh a s)" by blast
  with Cons.IH show ?case by simp
qed simp

section \<open>Suppressed builds\<close>

definition suppressed ::
  "facet_serde \<Rightarrow> 'g kernel_hooks \<Rightarrow> act list \<Rightarrow> 'g recorded_model \<Rightarrow> string list \<times> 'g recorded_model" where
  "suppressed fs kh acts mw =
     (case run_acts fs kh acts (fst mw, on_recorder suppress (snd mw)) of
        (seeds, m, w) \<Rightarrow> (seeds, m, on_recorder unsuppress w))"

definition unminted :: "'g brep_model \<Rightarrow> bool" where
  "unminted m \<longleftrightarrow> br_recorder m \<noteq> None \<and> br_event_key m = None \<and> br_reserved_sequence m = None"

text \<open>Nothing is open: no window, no discard scope.\<close>

definition quiet :: "recorder \<Rightarrow> bool" where
  "quiet r \<longleftrightarrow> st_depth (rc_staging r) = 0 \<and> st_buffer (rc_staging r) = [] \<and> st_discard_depth (rc_staging r) = 0 \<and>
     st_scope_sequence (rc_staging r) = None \<and> rc_counter_known r"

lemma inside_start:
  assumes "unminted m" and "quiet (rg_recorder w)"
  shows "inside (event_counter (rg_timeline w)) (rg_recorder w) w 0 ([], m, on_recorder suppress w)"
  using assms
  by (auto simp: inside_def unminted_def quiet_def Let_def on_recorder_def suppress_def begin_pending_def
      begin_discard_scope_def update_staging_def saturating_inc_def)

lemma suppressed_result:
  assumes "unminted m" and "quiet (rg_recorder w)" and "event_counter (rg_timeline w) < u64_bound" and "bracketed 0 acts"
    and "suppressed fs kh acts (m, w) = (seeds, m', w')"
  shows "\<exists>minted. rg_recorder w' = (rg_recorder w)\<lparr>rc_staging := no_staging\<lparr>st_pending_sequence := minted\<rparr>\<rparr> \<and>
    rg_disk w' = rg_disk w \<and> rg_answers w' = rg_answers w \<and>
    (minted = None \<and> seeds = [] \<and> rg_timeline w' = rg_timeline w \<or>
     minted = Some (event_counter (rg_timeline w)) \<and>
     rg_timeline w' = (rg_timeline w)\<lparr>event_counter := wrapping_succ (event_counter (rg_timeline w))\<rparr> \<and>
     (\<forall>seed \<in> set seeds. \<exists>kp. seed = evt_key (event_counter (rg_timeline w)) @ ''|'' @ kp))"
proof -
  let ?n = "event_counter (rg_timeline w)"
  obtain m1 w1 where run: "run_acts fs kh acts (m, on_recorder suppress w) = (seeds, m1, w1)" "w' = on_recorder unsuppress w1"
    using assms(5) by (auto simp: suppressed_def split: prod.splits)
  have "inside ?n (rg_recorder w) w 0 (seeds, m1, w1)"
    using inside_run [OF refl assms(3) _ inside_start [OF assms(1,2)] assms(4), of fs kh] assms(2) run(1)
    by (simp add: quiet_def run_acts_def)
  note i = this [unfolded inside_def, simplified Let_def prod.case]
  let ?st = "rc_staging (rg_recorder w1)"
  have "rc_staging (unsuppress (rg_recorder w1)) = no_staging\<lparr>st_pending_sequence := st_scope_sequence ?st\<rparr>"
    using i by (cases ?st) (simp add: unsuppress_def abort_pending_def end_discard_scope_def update_staging_def no_staging_def)
  moreover have "unsuppress (rg_recorder w1) = (rg_recorder w1)\<lparr>rc_staging := rc_staging (unsuppress (rg_recorder w1))\<rparr>"
    by (simp add: unsuppress_def abort_pending_def end_discard_scope_def update_staging_def)
  moreover have "(rg_recorder w1)\<lparr>rc_staging := x\<rparr> = (rg_recorder w)\<lparr>rc_staging := x\<rparr>" for x
    using i by (metis (no_types, lifting) recorder.update_convs(4) recorder.surjective recorder.ext_inject)
  ultimately have "rg_recorder w' = (rg_recorder w)\<lparr>rc_staging := no_staging\<lparr>st_pending_sequence := st_scope_sequence ?st\<rparr>\<rparr>"
    by (simp add: run(2) on_recorder_def)
  with i show ?thesis by (intro exI [of _ "st_scope_sequence ?st"]) (auto simp: run(2) on_recorder_def)
qed

text \<open>C37. A suppressed build, whatever windows it opens and however they end, hands nothing to the worker and
  leaves neither failures nor a trace in the store. All root identifiers it mints have the key of one
  number, the counter moves by one, and the record of the build that follows carries this very number.\<close>

theorem suppressed_build_keeps_one_number:
  assumes "unminted m" and "quiet (rg_recorder w)" and "event_counter (rg_timeline w) < u64_bound" and "bracketed 0 acts"
    and "suppressed fs kh acts (m, w) = (seeds, m', w')"
    and "ro_reserved op = None" and "record_op fs sc ack op (rg_recorder w') = (Ok (), r)" and "seeds \<noteq> []"
  shows "rc_queue (rg_recorder w') = rc_queue (rg_recorder w) \<and>
    rc_failures (rg_recorder w') = rc_failures (rg_recorder w) \<and> rg_disk w' = rg_disk w \<and>
    rg_timeline w' = (rg_timeline w)\<lparr>event_counter := wrapping_succ (event_counter (rg_timeline w))\<rparr> \<and>
    (\<forall>seed \<in> set seeds. \<exists>kp. seed = evt_key (event_counter (rg_timeline w)) @ ''|'' @ kp) \<and>
    (\<exists>s. rc_queue r = rc_queue (rg_recorder w) @ [Cmd_Op s] \<and> ro_kind (so_record s) = ro_kind op \<and>
       ro_reserved (so_record s) = Some (event_counter (rg_timeline w)) \<and> so_branch s = rc_branch (rg_recorder w))"
proof -
  let ?n = "event_counter (rg_timeline w)"
  have st: "rg_recorder w' = (rg_recorder w)\<lparr>rc_staging := no_staging\<lparr>st_pending_sequence := Some ?n\<rparr>\<rparr>"
    and rest: "rg_disk w' = rg_disk w" "rg_timeline w' = (rg_timeline w)\<lparr>event_counter := wrapping_succ ?n\<rparr>"
      "\<forall>seed \<in> set seeds. \<exists>kp. seed = evt_key ?n @ ''|'' @ kp"
    using suppressed_result [OF assms(1-5)] assms(8) by auto
  have unreserved: "ro_reserved (so_record (stamped fs sc ack r' op)) = None" "ro_kind (so_record (stamped fs sc ack r' op)) = ro_kind op"
    for r' using assms(6) by (simp_all add: stamped_def stamp_ack_def stamp_origin_def stamp_intent_def set_facet_def Let_def split: option.split)
  have "\<exists>s. rc_queue r = rc_queue (rg_recorder w) @ [Cmd_Op s] \<and> ro_kind (so_record s) = ro_kind op \<and>
       ro_reserved (so_record s) = Some ?n \<and> so_branch s = rc_branch (rg_recorder w)"
    using assms(7) unreserved
    by (auto simp: record_op_def st Let_def no_staging_def hand_over_def try_send_def claim_sequence_def
        split: if_splits) (simp add: stamped_def)
  with st rest show ?thesis by simp
qed

text \<open>The sample: one window that fails after it minted, one that records.\<close>

definition sample_recording :: recording where
  "sample_recording =
     \<lparr>rg_recorder = sample_recorder\<lparr>rc_counter_known := True\<rparr>, rg_timeline = new_timeline 0, rg_disk = [], rg_answers = []\<rparr>"

definition clean_verdict :: validity_certificate where
  "clean_verdict =
     \<lparr>vc_brep_valid = True, vc_watertight = True, vc_manifold = True, vc_euler_characteristic = 2,
      vc_boundary_edges = 0, vc_nonmanifold_edges = 0, vc_oriented = True, vc_inconsistent_directed_edges = 0,
      vc_shells_outward = True, vc_misoriented_shells = [], vc_self_intersection_free = True,
      vc_construction_consistent = NotApplicable, vc_labels_consistent = NotApplicable,
      vc_eyes_consistent = Consistent, vc_tessellation_clean = True, vc_mesh_quality_clean = True,
      vc_errors = [], vc_model_debris_orphan_faces = 0, vc_peer_count = 0\<rparr>"

definition sample_hooks :: "unit kernel_hooks" where
  "sample_hooks =
     \<lparr>kh_invalidate = id, kh_unlabelled = (\<lambda>_. True), kh_certificate = (\<lambda>m i. clean_verdict), kh_face_count = (\<lambda>m i. None)\<rparr>"

definition sample_acts :: "act list" where
  "sample_acts =
     [Begin_window, Mint False ''Plane'', Abort_window,
      Begin_window, Mint False ''Plane'', Note no_scope False False (new_operation ''revolve_face''), Commit_window]"

lemma sample_inside: "unminted inch_model" "quiet (rg_recorder sample_recording)" "rg_timeline sample_recording = new_timeline 0"
  "event_counter (new_timeline 0) = 0" "bracketed 0 sample_acts"
  by (simp_all add: unminted_def sample_simps quiet_def sample_recording_def sample_recorder_def new_with_sink_def
      recorder_with_def no_staging_def new_timeline_def sample_acts_def)

fun is_mint :: "act \<Rightarrow> bool" where
  "is_mint (Mint c kp) = True"
| "is_mint a = False"

lemma seeds_minted: "length (fst (fold (run_act fs kh) acts s)) = length (fst s) + length (filter is_mint acts)"
proof (induction acts arbitrary: s)
  case (Cons a acts)
  obtain seeds mw where "s = (seeds, mw)" by (cases s)
  with Cons show ?case by (cases a) (simp_all split: prod.split)
qed simp

lemma fst_suppressed: "fst (suppressed fs kh acts (m, w)) = fst (fold (run_act fs kh) acts ([], m, on_recorder suppress w))"
  by (simp add: suppressed_def run_acts_def split: prod.split)

lemma sample_suppressed:
  obtains seeds m' w' where "suppressed plain_serde sample_hooks sample_acts (inch_model, sample_recording) = (seeds, m', w')"
    "seeds \<noteq> []" "rg_recorder w' = (rg_recorder sample_recording)\<lparr>rc_staging := no_staging\<lparr>st_pending_sequence := Some 0\<rparr>\<rparr>"
proof -
  obtain seeds m' w' where run: "suppressed plain_serde sample_hooks sample_acts (inch_model, sample_recording) = (seeds, m', w')"
    by (cases "suppressed plain_serde sample_hooks sample_acts (inch_model, sample_recording)")
  have "length (fst (suppressed plain_serde sample_hooks sample_acts (inch_model, sample_recording))) = 2"
    unfolding fst_suppressed seeds_minted by (simp add: sample_acts_def)
  then have "seeds \<noteq> []" using run by auto
  with run suppressed_result [OF sample_inside(1,2) _ sample_inside(5) run] show ?thesis
    by (intro that) (auto simp: sample_inside u64_bound_def)
qed

lemma suppressed_build_keeps_one_number_witness:
  "\<exists>s. rc_queue (snd (record_op plain_serde no_scope False (new_operation ''sketch_revolve'')
      (rg_recorder (snd (snd (suppressed plain_serde sample_hooks sample_acts (inch_model, sample_recording))))))) = [Cmd_Op s] \<and>
    ro_reserved (so_record s) = Some 0"
proof -
  obtain seeds m' w' where run: "suppressed plain_serde sample_hooks sample_acts (inch_model, sample_recording) = (seeds, m', w')"
    "seeds \<noteq> []" "rg_recorder w' = (rg_recorder sample_recording)\<lparr>rc_staging := no_staging\<lparr>st_pending_sequence := Some 0\<rparr>\<rparr>"
    by (rule sample_suppressed)
  let ?op = "new_operation ''sketch_revolve''"
  have "fst (record_op plain_serde no_scope False ?op (rg_recorder w')) = Ok ()"
    by (simp add: run(3) record_op_def Let_def no_staging_def hand_over_def try_send_def sample_recording_def
        sample_recorder_def new_with_sink_def recorder_with_def RECORDER_CHANNEL_CAPACITY_def)
  then obtain r where "record_op plain_serde no_scope False ?op (rg_recorder w') = (Ok (), r)" by (metis prod.collapse)
  note rec = this
  have "event_counter (rg_timeline sample_recording) < u64_bound" by (simp add: sample_inside u64_bound_def)
  from suppressed_build_keeps_one_number [OF sample_inside(1,2) this sample_inside(5) run(1) _ rec run(2)] run(1) rec
  show ?thesis
    by (auto simp: sample_inside u64_bound_def new_operation_def)
       (simp_all add: sample_recording_def sample_recorder_def new_with_sink_def recorder_with_def)
qed

section \<open>Requests that meet a suppressed build\<close>

text \<open>An operation of another request, in a window of its own, that succeeds.\<close>

definition finished_op ::
  "facet_serde \<Rightarrow> 'g kernel_hooks \<Rightarrow> request_scope \<Rightarrow> bool \<Rightarrow> recorded_operation \<Rightarrow> ('g brep_model \<Rightarrow> 'g brep_model) \<Rightarrow>
   'g recorded_model \<Rightarrow> (unit, unit) result \<times> 'g recorded_model" where
  "finished_op fs kh sc c op change =
     with_rollback fs (\<lambda>(m, w). (Ok (), kernel_record fs kh sc False c op (change m, w)))"

lemma finished_op_inside:
  assumes "br_recorder m \<noteq> None" and "\<And>m. br_recorder (change m) = br_recorder m"
    and "st_depth (rc_staging (rg_recorder w)) = 1" and "0 < st_discard_depth (rc_staging (rg_recorder w))"
    and "st_pending_sequence (rc_staging (rg_recorder w)) = None"
  shows "\<exists>s. finished_op fs kh sc c op change (m, w) =
    (Ok (), (invalidate_named kh op (change m))\<lparr>br_reserved_sequence := None, br_event_key := None\<rparr>,
     on_recorder (\<lambda>r. r\<lparr>rc_staging := (rc_staging r)\<lparr>st_buffer := st_buffer (rc_staging r) @ [s]\<rparr>\<rparr>) w)"
proof -
  let ?w = "on_recorder begin_pending w"
  have k: "kernel_record fs kh sc False c op (change m, ?w) =
      ((invalidate_named kh op (change m))\<lparr>br_reserved_sequence := None, br_event_key := None\<rparr>,
       on_recorder (\<lambda>r. snd (record_op fs sc False (op\<lparr>ro_reserved := br_reserved_sequence (change m)\<rparr>) r)) ?w)"
    using assms by (intro kernel_record_discarded)
      (auto simp: on_recorder_def begin_pending_def update_staging_def records_are_discarded_def)
  have r: "on_recorder (\<lambda>r. snd (record_op fs sc False op' r)) ?w = w\<lparr>rg_recorder := (rg_recorder w)\<lparr>rc_staging :=
      (rc_staging (rg_recorder w))\<lparr>st_depth := 2, st_pending_sequence := None, st_buffer := st_buffer (rc_staging (rg_recorder w)) @
         [stamped fs sc False (rg_recorder ?w) op']\<rparr>\<rparr>\<rparr>" for op'
    using assms(3,5) by (simp add: on_recorder_def begin_pending_def update_staging_def saturating_inc_def record_op_inside claim_sequence_def)
  let ?op = "op\<lparr>ro_reserved := br_reserved_sequence (change m)\<rparr>"
  let ?m = "(invalidate_named kh op (change m))\<lparr>br_reserved_sequence := None, br_event_key := None\<rparr>"
  obtain k0 where k0: "br_recorder m = Some k0" using assms(1) by auto
  have opened: "begin_pending_record (m, w) = (m, ?w)"
    using k0 by (simp add: begin_pending_record_def via_recorder_def)
  have staging: "(rc_staging (rg_recorder w))\<lparr>st_pending_sequence := None, st_buffer := b, st_depth := Suc 0\<rparr> =
      (rc_staging (rg_recorder w))\<lparr>st_buffer := b\<rparr>" for b
    using assms(3,5) by (cases "rc_staging (rg_recorder w)") simp
  have closed: "commit_pending_record fs (?m, on_recorder (\<lambda>r. snd (record_op fs sc False ?op r)) ?w) =
      (?m, on_recorder (\<lambda>r. r\<lparr>rc_staging := (rc_staging r)
         \<lparr>st_buffer := st_buffer (rc_staging r) @ [stamped fs sc False (rg_recorder ?w) ?op]\<rparr>\<rparr>) w)"
    unfolding r using k0 assms(2) staging
    by (simp add: commit_pending_record_def via_recorder_def) (simp add: on_recorder_def commit_pending_def Let_def)
  show ?thesis
    by (simp add: finished_op_def with_rollback_def opened k closed Let_def) blast
qed

text \<open>C38. The server opens the scope of a suppressed build before it waits for the model. An operation that
  another request completes in that time succeeds and changes its model, but its record is discarded with
  the steps of the build: it is never handed to the worker and no failure is noted.\<close>

theorem foreign_operation_lost:
  assumes "br_recorder m \<noteq> None" and "\<And>m. br_recorder (change m) = br_recorder m" and "quiet (rg_recorder w)"
    and "finished_op fs kh sc c op change (m, on_recorder suppress w) = (answer, m', w')"
  shows "answer = Ok () \<and>
    m' = (invalidate_named kh op (change m))\<lparr>br_reserved_sequence := None, br_event_key := None\<rparr> \<and>
    on_recorder unsuppress w' = w\<lparr>rg_recorder := (rg_recorder w)\<lparr>rc_staging := no_staging\<rparr>\<rparr>"
proof -
  let ?w = "on_recorder suppress w"
  have st: "st_depth (rc_staging (rg_recorder ?w)) = 1" "st_discard_depth (rc_staging (rg_recorder ?w)) = 1"
    "st_pending_sequence (rc_staging (rg_recorder ?w)) = None" "st_scope_sequence (rc_staging (rg_recorder ?w)) = None"
    using assms(3) by (simp_all add: quiet_def on_recorder_def suppress_def begin_pending_def begin_discard_scope_def
        update_staging_def saturating_inc_def)
  obtain s where run: "finished_op fs kh sc c op change (m, ?w) =
    (Ok (), (invalidate_named kh op (change m))\<lparr>br_reserved_sequence := None, br_event_key := None\<rparr>,
     on_recorder (\<lambda>r. r\<lparr>rc_staging := (rc_staging r)\<lparr>st_buffer := st_buffer (rc_staging r) @ [s]\<rparr>\<rparr>) ?w)"
    using finished_op_inside [OF assms(1,2) st(1) _ st(3), of fs kh sc c op] st(2) by auto
  have "on_recorder unsuppress w' = w\<lparr>rg_recorder := (rg_recorder w)\<lparr>rc_staging := no_staging\<rparr>\<rparr>"
    using assms(4) st unfolding run
    by (auto simp: on_recorder_def unsuppress_def abort_pending_def end_discard_scope_def update_staging_def suppress_def
        begin_pending_def begin_discard_scope_def no_staging_def)
  with assms(4) show ?thesis unfolding run by simp
qed

lemma foreign_operation_lost_witness:
  "(\<lambda>(answer, m', w'). answer = Ok () \<and> br_document_unit m' = Metre \<and>
     rc_queue (rg_recorder (on_recorder unsuppress w')) = [])
   (finished_op plain_serde sample_hooks no_scope False (new_operation ''boolean_union'') (set_document_unit Metre)
     (inch_model, on_recorder suppress sample_recording))"
  using foreign_operation_lost [of inch_model "set_document_unit Metre" sample_recording plain_serde sample_hooks no_scope False
      "new_operation ''boolean_union''"] sample_inside(1,2)
  by (auto simp: unminted_def set_document_unit_def invalidate_named_def new_operation_def map_filter_def sample_recording_def
      sample_recorder_def new_with_sink_def recorder_with_def split: prod.split)

text \<open>And a record that comes between the build and its own record, while the server certifies the solid, takes
  the number away: the record of the build carries none, and its event gets another number than its
  identifiers were minted under.\<close>

lemma number_taken:
  assumes "st_depth (rc_staging r) = 0" and "rc_running r" and "length (rc_queue r) + 1 < rc_capacity r"
    and "ro_reserved foreign = Some n" and "ro_reserved own = None"
  shows "\<exists>f s. rc_queue (snd (record_op fs sc ack own (snd (record_op fs sc' ack' foreign r)))) = rc_queue r @ [Cmd_Op f, Cmd_Op s] \<and>
    ro_reserved (so_record f) = Some n \<and> ro_reserved (so_record s) = None"
proof -
  have keeps: "ro_reserved (so_record (stamped fs sc ack r op)) = ro_reserved op" for sc ack r and op
    by (simp add: stamped_def stamp_ack_def stamp_origin_def stamp_intent_def set_facet_def Let_def split: option.split)
  show ?thesis
    using assms by (simp add: record_op_def Let_def hand_over_def try_send_def claim_sequence_def keeps split: option.split)
qed

end
