(* ===== verification/Recorder_Log.thy ===== *)
theory Recorder_Log
  imports Recorder_Scopes Timeline_Reach
begin

text \<open>
  The worker and the log. No operation vanishes: each one that was recorded is on disk, or counted among
  the failures, or still on its way. And the numbers the recorder reserves, in whatever place they wait,
  are unused and below the counter, so that every append of the worker meets the side conditions under
  which the timeline stays consistent.
\<close>

section \<open>Accounting\<close>

definition waiting_ops :: "recorder \<Rightarrow> staged_op list" where
  "waiting_ops r = List.map_filter (\<lambda>c. case c of Cmd_Op s \<Rightarrow> Some s | Cmd_Flush _ _ \<Rightarrow> None) (rc_queue r)"

definition accounted :: "recording \<Rightarrow> nat" where
  "accounted w =
     length (rg_disk w) + total_failures (rc_failures (rg_recorder w)) +
     sum_list (map (\<lambda>(reply, fl). total_failures fl) (rg_answers w)) + length (waiting_ops (rg_recorder w))"

lemma waiting_simps [simp]:
  "waiting_ops (r\<lparr>rc_failures := fl\<rparr>) = waiting_ops r"
  "waiting_ops (r\<lparr>rc_staging := st\<rparr>) = waiting_ops r"
  "waiting_ops (note_failure f r) = waiting_ops r"
  by (simp_all add: waiting_ops_def note_failure_def)

lemma total_push: "total_failures fl + 1 < u64_bound \<Longrightarrow> total_failures (push_failure f fl) = total_failures fl + 1"
  by (auto simp: total_failures_def push_failure_def saturating_add_def)

lemma total_push_all:
  "total_failures fl + length fs < u64_bound \<Longrightarrow> total_failures (fold push_failure fs fl) = total_failures fl + length fs"
  by (induction fs arbitrary: fl) (simp_all add: total_push)

lemma total_put_back:
  assumes "total_failures unsent + total_failures later < u64_bound"
  shows "total_failures (put_back unsent later) = total_failures unsent + total_failures later"
proof -
  let ?r = "fold push_failure (rf_listed later) unsent"
  have "total_failures ?r = total_failures unsent + length (rf_listed later)"
    using assms by (intro total_push_all) (simp add: total_failures_def)
  with assms show ?thesis
    by (simp add: put_back_def Let_def) (simp add: total_failures_def saturating_add_def)
qed

lemma total_no_failures [simp]: "total_failures no_failures = 0"
  by (simp add: total_failures_def no_failures_def)

lemma accounted_failure:
  "accounted w + 1 < u64_bound \<Longrightarrow> accounted (w\<lparr>rg_recorder := note_failure f (rg_recorder w)\<rparr>) = accounted w + 1"
  using total_push [of "rc_failures (rg_recorder w)" f]
  by (simp add: accounted_def) (simp add: note_failure_def waiting_ops_def)

lemma appended_event:
  assumes "append_internal pu eid now op author b reserved cert t = (Ok (e, d), t')"
  shows "e = eid \<and> (\<exists>ev. get_event t' eid = Some ev)"
  using assms
  by (auto simp: append_internal_def insert_event_def Let_def get_event_def dm.get_put
      split: option.splits sum.splits prod.splits if_splits)

lemma accounted_drain_op:
  assumes "rc_sink (rg_recorder w)" and "accounted w + 1 < u64_bound"
  shows "accounted (drain_op fs pu env s w) = accounted w + 1"
proof -
  let ?a = "append_internal pu (de_event_id env) (de_now env) (to_timeline_operation (so_record s))
             (so_author s) (so_branch s) (ro_reserved (so_record s))
             (Option.bind (map_option from_recorded_solid (ro_certificate (so_record s))) (ser_certificate fs))
             (rg_timeline w)"
  have timeline: "accounted (w\<lparr>rg_timeline := t\<rparr>) = accounted w" for w and t by (simp add: accounted_def)
  show ?thesis
  proof (cases "fst ?a")
    case (Inl e)
    then obtain t' where "?a = (Err e, t')" by (metis prod.collapse)
    then show ?thesis
      using accounted_failure [of "w\<lparr>rg_timeline := t'\<rparr>"] assms(2) timeline [of t' w] by (simp add: drain_op_def)
  next
    case (Inr x)
    then obtain e d t' where a: "?a = (Ok (e, d), t')" by (metis prod.collapse)
    then obtain ev where ev: "get_event t' e = Some ev" using appended_event by blast
    show ?thesis
    proof (cases "de_written env")
      case (Inl msg)
      show ?thesis
        using Inl a ev assms accounted_failure [of "w\<lparr>rg_timeline := t'\<rparr>"] timeline [of t' w]
        by (simp add: drain_op_def persist_def)
    next
      case (Inr u)
      show ?thesis using Inr a ev assms(1) by (simp add: drain_op_def persist_def accounted_def)
    qed
  qed
qed

lemma accounted_drain_flush:
  assumes "accounted w < u64_bound"
  shows "accounted (drain_flush env taking reply w) = accounted w"
proof -
  have "total_failures (rc_failures (rg_recorder w)) < u64_bound" using assms by (simp add: accounted_def)
  then show ?thesis
    by (auto simp: drain_flush_def Let_def accounted_def total_put_back)
qed

lemma accounted_drain:
  assumes "rc_sink (rg_recorder w)" and "accounted w < u64_bound"
  shows "accounted (drain fs pu env w) = accounted w"
proof (cases "rc_queue (rg_recorder w)")
  case Nil
  then show ?thesis by (simp add: drain_def)
next
  case (Cons c q)
  let ?w = "w\<lparr>rg_recorder := (rg_recorder w)\<lparr>rc_queue := q\<rparr>\<rparr>"
  show ?thesis
  proof (cases c)
    case (Cmd_Op s)
    with Cons have n: "accounted ?w + 1 = accounted w" by (simp add: accounted_def waiting_ops_def map_filter_simps)
    then show ?thesis
      using accounted_drain_op [of ?w fs pu env s] assms Cons Cmd_Op by (simp add: drain_def)
  next
    case (Cmd_Flush taking reply)
    with Cons have n: "accounted ?w = accounted w" by (simp add: accounted_def waiting_ops_def map_filter_simps)
    then show ?thesis
      using accounted_drain_flush [of ?w env taking reply] assms(2) Cons Cmd_Flush by (simp add: drain_def)
  qed
qed

lemma sink_drain [simp]: "rc_sink (rg_recorder (drain fs pu env w)) = rc_sink (rg_recorder w)"
  by (auto simp: drain_def drain_op_def persist_def drain_flush_def note_failure_def Let_def
      split: list.split recorder_cmd.split prod.split sum.split option.split)

lemma accounted_hand_over:
  assumes "accounted w + 1 < u64_bound"
  shows "accounted (on_recorder (\<lambda>r. snd (hand_over fs s r)) w) = accounted w + 1"
proof (cases "fst (try_send (Cmd_Op s) (rg_recorder w))")
  case (Inl e)
  then have "on_recorder (\<lambda>r. snd (hand_over fs s r)) w = w\<lparr>rg_recorder := note_failure
      (failure_of fs s Stage_Enqueue (ro_reserved (so_record s)) e) (rg_recorder w)\<rparr>"
    by (auto simp: on_recorder_def hand_over_def try_send_def split: if_splits)
  with accounted_failure [OF assms] show ?thesis by simp
next
  case (Inr u)
  then show ?thesis
    by (auto simp: on_recorder_def hand_over_def try_send_def accounted_def waiting_ops_def map_filter_def split: if_splits)
qed

section \<open>Runs of the log\<close>

datatype log_move = Sent request_scope bool recorded_operation | Drained drain_env | Asked bool nat

fun log_step :: "facet_serde \<Rightarrow> (string \<Rightarrow> uuid option) \<Rightarrow> log_move \<Rightarrow> recording \<Rightarrow> recording" where
  "log_step fs pu (Sent sc ack op) w = on_recorder (\<lambda>r. snd (record_op fs sc ack op r)) w"
| "log_step fs pu (Drained env) w = drain fs pu env w"
| "log_step fs pu (Asked taking reply) w = on_recorder (\<lambda>r. snd (barrier taking reply r)) w"

fun is_sent :: "log_move \<Rightarrow> bool" where
  "is_sent (Sent sc ack op) = True"
| "is_sent mv = False"

lemma idle_log_step: "idle (rg_recorder w) \<Longrightarrow> idle (rg_recorder (log_step fs pu mv w))"
proof (cases mv)
  case (Sent sc ack op)
  assume "idle (rg_recorder w)"
  with Sent show ?thesis by (simp add: on_recorder_def record_idle) (simp add: idle_def)
next
  case (Drained env)
  assume "idle (rg_recorder w)"
  moreover have "rc_staging (rg_recorder (drain fs pu env w)) = rc_staging (rg_recorder w)"
    by (auto simp: drain_def drain_op_def persist_def drain_flush_def note_failure_def Let_def
        split: list.split recorder_cmd.split prod.split sum.split option.split)
  ultimately show ?thesis using Drained by (simp add: idle_def)
qed (simp add: on_recorder_def barrier_def idle_def)

lemma sink_log_step: "rc_sink (rg_recorder (log_step fs pu mv w)) = rc_sink (rg_recorder w)"
  by (cases mv) (auto simp: on_recorder_def barrier_def record_op_def hand_over_def try_send_def note_failure_def Let_def
      split: prod.split sum.split)

lemma accounted_log_step:
  assumes "rc_sink (rg_recorder w)" and "idle (rg_recorder w)" and "accounted w + 1 < u64_bound"
  shows "accounted (log_step fs pu mv w) = accounted w + (if is_sent mv then 1 else 0)"
proof (cases mv)
  case (Sent sc ack op)
  have "on_recorder (\<lambda>r. snd (record_op fs sc ack op r)) w =
      on_recorder (\<lambda>r. snd (hand_over fs (stamped fs sc ack (rg_recorder w) op) r)) w"
    using assms(2) by (simp add: on_recorder_def record_idle)
  with Sent accounted_hand_over [OF assms(3)] show ?thesis by simp
next
  case (Asked taking reply)
  then show ?thesis by (simp add: on_recorder_def barrier_def accounted_def waiting_ops_def map_filter_def)
qed (use assms accounted_drain in auto)


definition refused_env :: drain_env where
  "refused_env = \<lparr>de_event_id = EventId 1, de_now = 0, de_written = Err ''disk full'', de_listening = True\<rparr>"

lemma sample_idle: "rc_sink (rg_recorder sample_recording)" "idle (rg_recorder sample_recording)" "accounted sample_recording = 0"
  by (simp_all add: sample_recording_def sample_recorder_def new_with_sink_def recorder_with_def idle_def no_staging_def
      accounted_def waiting_ops_def map_filter_simps)


section \<open>Reserved numbers\<close>

definition unused :: "nat \<Rightarrow> timeline \<Rightarrow> bool" where
  "unused n t \<longleftrightarrow> n < event_counter t \<and> n \<notin> sequence_number ` snd ` set (events t)"

lemma append_keeps_unused:
  assumes t: "tl_ok t" and eid: "map_of (events t) eid = None" and w: "event_counter t + 1 < u64_bound"
    and res: "\<And>n. reserved = Some n \<Longrightarrow> unused n t"
    and a: "append_internal pu eid now op author b reserved cert t = (r, t')"
  shows "tl_ok t'" and "unused k t \<Longrightarrow> reserved \<noteq> Some k \<Longrightarrow> unused k t'"
proof -
  have c: "can_append eid reserved t"
    using eid w res by (auto simp: can_append_def unused_def fresh_event_def split: option.split)
  show "tl_ok t'" using tl_ok_append [OF t c, of pu now op author b cert] a by simp
  assume k: "unused k t" "reserved \<noteq> Some k"
  show "unused k t'" using t a
  proof (cases rule: append_internal_cases)
    case rejected
    with k show ?thesis by simp
  next
    case (accepted br d seq t2)
    note ok = before_insert_ok [OF t c accepted(4)]
    obtain m where "index_of t b = Some m"
      using accepted(1) index_iff_branch' [OF tl_okD(1) [OF t]] by blast
    then obtain m2 where m2: "index_of t2 b = Some m2"
      using index_discard [of t b m now b] ok(4) by auto
    have ev: "events t' = AList.update eid (new_event pu eid now seq op author b cert) (events t2)"
      and cnt: "event_counter t' = event_counter t2"
      using accepted(5) insert_event_Ok [OF m2] by simp_all
    have "event_counter t \<le> event_counter t2"
      using accepted(4) w by (auto simp: before_insert_def Let_def reserve_sequence_number_def wrapping_succ_no_wrap split: option.splits)
    moreover have "seq \<noteq> k" using ok(8) k by (auto simp: unused_def split: option.splits)
    moreover have "k \<notin> sequence_number ` snd ` set (events t2)"
    proof -
      have "fresh_event eid k t" using eid k(1) by (simp add: fresh_event_def unused_def)
      from fresh_discard [OF t this, of now b] show ?thesis by (simp add: ok(5) fresh_event_def)
    qed
    moreover have "sequence_number ` snd ` set (AList.update eid v es) \<subseteq> insert (sequence_number v) (sequence_number ` snd ` set es)"
      for v and es :: "(event_id \<times> timeline_event) list"
      by (induction es) auto
    then have "sequence_number ` snd ` set (events t') \<subseteq> insert seq (sequence_number ` snd ` set (events t2))"
      unfolding ev by (metis new_event_fields(2))
    ultimately have "event_counter t \<le> event_counter t2" "k \<notin> sequence_number ` snd ` set (events t')"
      by (simp, blast)
    then show ?thesis using k(1) unfolding unused_def cnt by simp
  qed
qed

section \<open>The system\<close>

definition opt_list :: "'a option \<Rightarrow> 'a list" where
  "opt_list x = (case x of None \<Rightarrow> [] | Some y \<Rightarrow> [y])"

definition numbers_of :: "staged_op list \<Rightarrow> nat list" where
  "numbers_of ss = List.map_filter (\<lambda>s. ro_reserved (so_record s)) ss"

text \<open>The reserved numbers that wait: in the model while an operation runs, for the record of a build, in the
  buffer and in the channel. What a discard scope has staged will not be used.\<close>

definition in_flight :: "'g recorded_model \<Rightarrow> nat list" where
  "in_flight mw =
     (let st = rc_staging (rg_recorder (snd mw))
      in (if 0 < st_discard_depth st then opt_list (st_scope_sequence st)
          else opt_list (br_reserved_sequence (fst mw)) @ opt_list (st_pending_sequence st) @ numbers_of (st_buffer st)) @
         numbers_of (waiting_ops (rg_recorder (snd mw))))"

text \<open>What may happen, each call as one step: the kernel mints or records, the server records on its own,
  windows and suppressions open and close, the worker takes a command, a flush is asked for, the branch is
  set, failures are fetched, and the other operations of the timeline run. The counter does not wrap and
  a minted event identifier is fresh, as in \<open>Timeline_Reach\<close>; an append that does not come through the
  recorder does not claim a number that is in flight. A suppression begins with no window open and ends
  with its own as the only one: what happens otherwise is in \<open>Recorder_Scopes\<close>.\<close>

inductive rec_step ::
  "facet_serde \<Rightarrow> (string \<Rightarrow> uuid option) \<Rightarrow> 'g kernel_hooks \<Rightarrow> 'g recorded_model \<Rightarrow> 'g recorded_model \<Rightarrow> bool"
  for fs :: facet_serde and pu :: "string \<Rightarrow> uuid option" and kh :: "'g kernel_hooks" where
  mint_step:
    "event_counter (rg_timeline (snd mw)) + 1 < u64_bound \<Longrightarrow> root_seed c kp mw = (seed, mw') \<Longrightarrow> rec_step fs pu kh mw mw'"
| note_step:
    "event_counter (rg_timeline (snd mw)) + 1 < u64_bound \<Longrightarrow> rec_step fs pu kh mw (kernel_record fs kh sc ack c op mw)"
| own_step:
    "ro_reserved op = None \<Longrightarrow> rec_step fs pu kh (m, w) (m, on_recorder (\<lambda>r. snd (record_op fs sc ack op r)) w)"
| begin_step: "rec_step fs pu kh mw (begin_pending_record mw)"
| commit_step:
    "(records_are_discarded (rg_recorder (snd mw)) \<longrightarrow> 1 < st_depth (rc_staging (rg_recorder (snd mw)))) \<Longrightarrow>
     rec_step fs pu kh mw (commit_pending_record fs mw)"
| abort_step:
    "(records_are_discarded (rg_recorder (snd mw)) \<longrightarrow> 1 < st_depth (rc_staging (rg_recorder (snd mw)))) \<Longrightarrow>
     rec_step fs pu kh mw (abort_pending_record mw)"
| suppress_step:
    "st_depth (rc_staging (rg_recorder w)) = 0 \<Longrightarrow> br_reserved_sequence m = None \<Longrightarrow>
     rec_step fs pu kh (m, w) (m, on_recorder suppress w)"
| unsuppress_step:
    "st_depth (rc_staging (rg_recorder w)) = 1 \<Longrightarrow> br_reserved_sequence m = None \<Longrightarrow>
     records_are_discarded (rg_recorder w) \<Longrightarrow> rec_step fs pu kh (m, w) (m, on_recorder unsuppress w)"
| drain_step:
    "map_of (events (rg_timeline w)) (de_event_id env) = None \<Longrightarrow> event_counter (rg_timeline w) + 1 < u64_bound \<Longrightarrow>
     rec_step fs pu kh (m, w) (m, drain fs pu env w)"
| ask_step: "rec_step fs pu kh (m, w) (m, on_recorder (\<lambda>r. snd (barrier taking reply r)) w)"
| retarget_step: "rec_step fs pu kh (m, w) (m, on_recorder (set_branch_id b) w)"
| take_step: "rec_step fs pu kh (m, w) (m, on_recorder (\<lambda>r. snd (take_failures r)) w)"
| timeline_step:
    "tl_step (rg_timeline w) t \<Longrightarrow> list_all (\<lambda>n. unused n t) (in_flight (m, w)) \<Longrightarrow>
     rec_step fs pu kh (m, w) (m, w\<lparr>rg_timeline := t\<rparr>)"

definition staging_ok :: "'g brep_model \<Rightarrow> staging_state \<Rightarrow> bool" where
  "staging_ok m st \<longleftrightarrow>
     (br_event_key m = None \<longleftrightarrow> br_reserved_sequence m = None) \<and>
     (st_depth st = 0 \<longrightarrow> st_buffer st = []) \<and> st_discard_depth st \<le> 1 \<and>
     (if st_discard_depth st = 0 then st_scope_sequence st = None
      else 0 < st_depth st \<and> st_pending_sequence st = None \<and>
        (br_reserved_sequence m \<noteq> None \<longrightarrow> br_reserved_sequence m = st_scope_sequence st))"

definition rec_ok :: "'g recorded_model \<Rightarrow> bool" where
  "rec_ok mw \<longleftrightarrow>
     tl_ok (rg_timeline (snd mw)) \<and> staging_ok (fst mw) (rc_staging (rg_recorder (snd mw))) \<and>
     distinct (in_flight mw) \<and> (\<forall>n \<in> set (in_flight mw). unused n (rg_timeline (snd mw)))"

lemma opt_list_simps [simp]: "opt_list None = []" "opt_list (Some x) = [x]"
  by (simp_all add: opt_list_def)

lemma numbers_simps [simp]:
  "numbers_of [] = []" "numbers_of (s # ss) = opt_list (ro_reserved (so_record s)) @ numbers_of ss"
  "numbers_of (ss @ ss') = numbers_of ss @ numbers_of ss'"
  by (auto simp: numbers_of_def opt_list_def map_filter_def split: option.split)

text \<open>All numbers the recorder holds when it is not in a discard scope.\<close>

definition held :: "recorder \<Rightarrow> nat list" where
  "held r = opt_list (st_pending_sequence (rc_staging r)) @ numbers_of (st_buffer (rc_staging r)) @ numbers_of (waiting_ops r)"

lemma in_flight_eq:
  "in_flight (m, w) =
     (if records_are_discarded (rg_recorder w)
      then opt_list (st_scope_sequence (rc_staging (rg_recorder w))) @ numbers_of (waiting_ops (rg_recorder w))
      else opt_list (br_reserved_sequence m) @ held (rg_recorder w))"
  by (simp add: in_flight_def records_are_discarded_def held_def Let_def)

lemma waiting_hand_over:
  "waiting_ops (snd (hand_over fs s r)) = waiting_ops r @ [s] \<or> waiting_ops (snd (hand_over fs s r)) = waiting_ops r"
  by (auto simp: hand_over_def try_send_def note_failure_def waiting_ops_def map_filter_def split: prod.split sum.split)

lemma waiting_hand_over_all:
  assumes "distinct (numbers_of ss @ numbers_of (waiting_ops r))"
  shows "distinct (numbers_of (waiting_ops (fold (\<lambda>s r. snd (hand_over fs s r)) ss r))) \<and>
    set (numbers_of (waiting_ops (fold (\<lambda>s r. snd (hand_over fs s r)) ss r))) \<subseteq> set (numbers_of ss @ numbers_of (waiting_ops r))"
  using assms
proof (induction ss arbitrary: r)
  case (Cons s ss)
  let ?r = "snd (hand_over fs s r)"
  have d: "distinct (numbers_of ss @ numbers_of (waiting_ops ?r))"
    and u: "set (numbers_of ss @ numbers_of (waiting_ops ?r)) \<subseteq> set (numbers_of (s # ss) @ numbers_of (waiting_ops r))"
    using waiting_hand_over [of fs s r] Cons.prems by auto
  from Cons.IH [OF d] u show ?case by (simp only: fold_simps) blast
qed simp

lemma stamped_reserved [simp]: "ro_reserved (so_record (stamped fs sc ack r op)) = ro_reserved op"
  by (simp add: stamped_def stamp_ack_def stamp_origin_def stamp_intent_def set_facet_def Let_def split: option.split)

text \<open>A record takes its own number along, or the one that waits for it.\<close>

definition taken_by :: "recorded_operation \<Rightarrow> recorder \<Rightarrow> nat option" where
  "taken_by op r = (if ro_reserved op = None then st_pending_sequence (rc_staging r) else ro_reserved op)"

lemma claimed_reserved:
  "ro_reserved (so_record (claim_sequence (st_pending_sequence (rc_staging r)) (stamped fs sc ack r' op))) = taken_by op r"
  by (simp add: claim_sequence_def taken_by_def split: option.split)

lemma held_record:
  assumes "st_depth (rc_staging r) = 0 \<longrightarrow> st_buffer (rc_staging r) = []"
    and "distinct (opt_list (taken_by op r) @ numbers_of (st_buffer (rc_staging r)) @ numbers_of (waiting_ops r))"
  shows "distinct (held (snd (record_op fs sc ack op r))) \<and>
    set (held (snd (record_op fs sc ack op r))) \<subseteq>
      set (opt_list (taken_by op r) @ numbers_of (st_buffer (rc_staging r)) @ numbers_of (waiting_ops r))"
proof (cases "0 < st_depth (rc_staging r)")
  case True
  with assms show ?thesis by (auto simp: record_op_def Let_def held_def claimed_reserved)
next
  case False
  let ?s = "claim_sequence (st_pending_sequence (rc_staging r)) (stamped fs sc ack r op)"
  let ?r = "r\<lparr>rc_staging := (rc_staging r)\<lparr>st_pending_sequence := None\<rparr>\<rparr>"
  have "held (snd (record_op fs sc ack op r)) = numbers_of (waiting_ops (snd (hand_over fs ?s ?r)))"
    using False assms(1) by (simp add: record_op_def Let_def held_def)
  with waiting_hand_over [of fs ?s ?r] assms show ?thesis by (auto simp: claimed_reserved)
qed

lemma staging_record:
  "rc_staging (snd (record_op fs sc ack op r)) = (rc_staging r)\<lparr>st_pending_sequence := None,
     st_buffer := st_buffer (rc_staging r) @ (if 0 < st_depth (rc_staging r)
       then [claim_sequence (st_pending_sequence (rc_staging r)) (stamped fs sc ack r op)] else [])\<rparr>"
  by (cases "rc_staging r") (simp add: record_op_def Let_def)

lemma waiting_record_inside:
  "0 < st_depth (rc_staging r) \<Longrightarrow> waiting_ops (snd (record_op fs sc ack op r)) = waiting_ops r"
  by (simp add: record_op_def Let_def)

section \<open>Steps keep the numbers apart\<close>

lemma rec_okI:
  assumes "tl_ok (rg_timeline w)" "staging_ok m (rc_staging (rg_recorder w))"
    "distinct (in_flight (m, w))" "\<And>n. n \<in> set (in_flight (m, w)) \<Longrightarrow> unused n (rg_timeline w)"
  shows "rec_ok (m, w)"
  using assms by (simp add: rec_ok_def)

lemma record_step_ok:
  assumes t: "tl_ok (rg_timeline w)" and st: "staging_ok m (rc_staging (rg_recorder w))"
    and m': "br_event_key m' = None" "br_reserved_sequence m' = None"
    and ns: "ns = (if records_are_discarded (rg_recorder w)
        then opt_list (st_scope_sequence (rc_staging (rg_recorder w))) @ numbers_of (waiting_ops (rg_recorder w))
        else opt_list (taken_by op (rg_recorder w)) @ numbers_of (st_buffer (rc_staging (rg_recorder w))) @ numbers_of (waiting_ops (rg_recorder w)))"
    and d: "distinct ns" and u: "\<And>n. n \<in> set ns \<Longrightarrow> unused n (rg_timeline w)"
  shows "rec_ok (m', on_recorder (\<lambda>r. snd (record_op fs sc ack op r)) w)"
proof -
  let ?r = "rg_recorder w"
  let ?r' = "snd (record_op fs sc ack op ?r)"
  have disc: "records_are_discarded ?r' = records_are_discarded ?r" by (simp add: records_are_discarded_def staging_record)
  show ?thesis
  proof (rule rec_okI)
    show "tl_ok (rg_timeline (on_recorder (\<lambda>r. snd (record_op fs sc ack op r)) w))" using t by (simp add: on_recorder_def)
    show "staging_ok m' (rc_staging (rg_recorder (on_recorder (\<lambda>r. snd (record_op fs sc ack op r)) w)))"
      using st m' by (auto simp: on_recorder_def staging_ok_def staging_record)
    have "distinct (in_flight (m', on_recorder (\<lambda>r. snd (record_op fs sc ack op r)) w)) \<and>
        set (in_flight (m', on_recorder (\<lambda>r. snd (record_op fs sc ack op r)) w)) \<subseteq> set ns"
    proof (cases "records_are_discarded ?r")
      case True
      with st have "0 < st_depth (rc_staging ?r)" by (simp add: staging_ok_def records_are_discarded_def split: if_splits)
      with True d ns show ?thesis
        by (simp add: in_flight_eq on_recorder_def disc) (simp add: staging_record waiting_record_inside)
    next
      case False
      with st d ns held_record [of ?r op fs sc ack] show ?thesis
        by (simp add: in_flight_eq on_recorder_def disc m'(2) staging_ok_def)
    qed
    then show "distinct (in_flight (m', on_recorder (\<lambda>r. snd (record_op fs sc ack op r)) w))"
      and "\<And>n. n \<in> set (in_flight (m', on_recorder (\<lambda>r. snd (record_op fs sc ack op r)) w)) \<Longrightarrow>
        unused n (rg_timeline (on_recorder (\<lambda>r. snd (record_op fs sc ack op r)) w))"
      using u by (auto simp: on_recorder_def)
  qed
qed

lemma rec_okD:
  assumes "rec_ok (m, w)"
  shows "tl_ok (rg_timeline w)" "staging_ok m (rc_staging (rg_recorder w))" "distinct (in_flight (m, w))"
    "n \<in> set (in_flight (m, w)) \<Longrightarrow> unused n (rg_timeline w)"
  using assms by (simp_all add: rec_ok_def)

lemma rec_ok_model:
  assumes "rec_ok (m, w)" "br_event_key m' = br_event_key m" "br_reserved_sequence m' = br_reserved_sequence m"
  shows "rec_ok (m', w)"
proof -
  have "in_flight (m', w) = in_flight (m, w)" using assms(3) by (simp add: in_flight_eq)
  moreover have "staging_ok m' st = staging_ok m st" for st using assms(2,3) by (simp add: staging_ok_def)
  ultimately show ?thesis using assms(1) by (simp add: rec_ok_def)
qed

text \<open>What a reservation outside a scope, or the first inside one, does to the timeline.\<close>

definition burned :: "timeline \<Rightarrow> timeline" where
  "burned t = t\<lparr>event_counter := event_counter t + 1\<rparr>"

lemma burned_ok:
  assumes "tl_ok t"
  shows "tl_ok (burned t)" "unused (event_counter t) (burned t)" "unused n t \<Longrightarrow> unused n (burned t)" "\<not> unused (event_counter t) t"
proof -
  show "tl_ok (burned t)" using tl_ok_counter [OF assms, of "event_counter t + 1"] by (simp add: burned_def)
  have d: "dmap_ok (events t)" using assms by (simp add: tl_ok_def core_ok_def maps_ok_def)
  have "event_counter t \<notin> sequence_number ` snd ` set (events t)"
  proof
    assume "event_counter t \<in> sequence_number ` snd ` set (events t)"
    then obtain e ev where "(e, ev) \<in> set (events t)" "sequence_number ev = event_counter t" by auto
    then show False using event_below [OF tl_okD(1) [OF assms], of e ev] d by simp
  qed
  then show "unused (event_counter t) (burned t)" by (simp add: unused_def burned_def)
qed (simp_all add: unused_def burned_def)

lemma reserve_outside:
  assumes "\<not> records_are_discarded (rg_recorder w)" and "event_counter (rg_timeline w) + 1 < u64_bound"
  shows "reserve_key c w = (None, w) \<or>
    reserve_key c w = (Some (evt_key (event_counter (rg_timeline w))),
      w\<lparr>rg_recorder := (rg_recorder w)\<lparr>rc_counter_known := True\<rparr>, rg_timeline := burned (rg_timeline w)\<rparr>)"
  using assms
  by (auto simp: reserve_key_def reserve_event_key_def records_are_discarded_def Let_def reserve_sequence_number_def
      wrapping_succ_no_wrap burned_def)

lemma held_known [simp]:
  "held (r\<lparr>rc_counter_known := b\<rparr>) = held r" "waiting_ops (r\<lparr>rc_counter_known := b\<rparr>) = waiting_ops r"
  "records_are_discarded (r\<lparr>rc_counter_known := b\<rparr>) = records_are_discarded r"
  "taken_by op (r\<lparr>rc_counter_known := b\<rparr>) = taken_by op r"
  by (simp_all add: held_def waiting_ops_def records_are_discarded_def taken_by_def)

lemma kernel_record_eq:
  assumes "br_recorder m = Some k" and "sequence_for c (br_reserved_sequence m) w = (seq, w')"
  shows "\<exists>op'. ro_reserved op' = seq \<and> kernel_record fs kh sc ack c op (m, w) =
    ((invalidate_named kh op m)\<lparr>br_reserved_sequence := None, br_event_key := None\<rparr>,
     on_recorder (\<lambda>r. snd (record_op fs sc ack op' r)) w')"
  using assms by (simp add: kernel_record_def Let_def) (metis recorded_operation.select_convs(8) recorded_operation.update_convs(8) recorded_operation.surjective)

lemma sequence_outside:
  assumes "\<not> records_are_discarded (rg_recorder w)" and "event_counter (rg_timeline w) + 1 < u64_bound"
    and "sequence_for c minted w = (seq, w')"
  shows "(\<exists>n. minted = Some n \<and> seq = Some n \<and> w' = w) \<or> minted = None \<and> seq = None \<and> w' = w \<or>
    minted = None \<and> seq = Some (event_counter (rg_timeline w)) \<and>
    w' = w\<lparr>rg_recorder := (rg_recorder w)\<lparr>rc_counter_known := True\<rparr>, rg_timeline := burned (rg_timeline w)\<rparr>"
proof (cases minted)
  case None
  have "event_counter (rg_timeline w) < u64_bound" using assms(2) by simp
  note key = seq_of_evt_key [OF this]
  from reserve_outside [OF assms(1,2), of c] show ?thesis
  proof
    assume "reserve_key c w = (None, w)"
    with None assms(1,3) show ?thesis by (simp add: sequence_for_def)
  next
    assume "reserve_key c w = (Some (evt_key (event_counter (rg_timeline w))),
      w\<lparr>rg_recorder := (rg_recorder w)\<lparr>rc_counter_known := True\<rparr>, rg_timeline := burned (rg_timeline w)\<rparr>)"
    with None assms(1,3) key show ?thesis by (auto simp: sequence_for_def)
  qed
qed (use assms(3) in \<open>auto simp: sequence_for_def\<close>)

lemma note_step_ok:
  assumes ok: "rec_ok (m, w)" and c: "event_counter (rg_timeline w) + 1 < u64_bound"
  shows "rec_ok (kernel_record fs kh sc ack c' op (m, w))"
proof (cases "br_recorder m")
  case None
  then have "kernel_record fs kh sc ack c' op (m, w) = (invalidate_named kh op m, w)" by (simp add: kernel_record_def Let_def)
  with rec_ok_model [OF ok, of "invalidate_named kh op m"] show ?thesis by simp
next
  case (Some k)
  note d = rec_okD [OF ok]
  let ?r = "rg_recorder w"
  let ?b = "numbers_of (st_buffer (rc_staging ?r)) @ numbers_of (waiting_ops ?r)"
  obtain seq w' where seq: "sequence_for c' (br_reserved_sequence m) w = (seq, w')" by fastforce
  obtain op' where op': "ro_reserved op' = seq" and run: "kernel_record fs kh sc ack c' op (m, w) =
    ((invalidate_named kh op m)\<lparr>br_reserved_sequence := None, br_event_key := None\<rparr>,
     on_recorder (\<lambda>r. snd (record_op fs sc ack op' r)) w')"
    using kernel_record_eq [OF Some seq] by blast
  show ?thesis
  proof (cases "records_are_discarded ?r")
    case True
    then have "w' = w" using seq by (auto simp: sequence_for_def split: option.splits)
    with d True show ?thesis unfolding run
      by (intro record_step_ok [OF _ _ _ _ refl]) (simp_all add: in_flight_eq)
  next
    case False
    then have outside: "in_flight (m, w) = opt_list (br_reserved_sequence m) @ held ?r" by (simp add: in_flight_eq)
    from sequence_outside [OF False c seq] show ?thesis
    proof (elim disjE exE conjE, goal_cases minted without fresh)
      case (minted n)
      with d False op' outside show ?thesis unfolding run
        by (intro record_step_ok [OF _ _ _ _ refl]) (auto simp: taken_by_def held_def)
    next
      case without
      with d False op' outside show ?thesis unfolding run
        by (intro record_step_ok [OF _ _ _ _ refl]) (auto simp: taken_by_def held_def)
    next
      case fresh
      let ?n = "event_counter (rg_timeline w)"
      note b = burned_ok [OF d(1)]
      have rest: "distinct ?b" "\<And>n. n \<in> set ?b \<Longrightarrow> unused n (rg_timeline w)"
        using d(3,4) by (auto simp: outside held_def)
      have "distinct (opt_list (taken_by op' ?r) @ ?b)" "\<And>n. n \<in> set (opt_list (taken_by op' ?r) @ ?b) \<Longrightarrow> unused n (burned (rg_timeline w))"
        using rest b op' fresh(2) by (auto simp: taken_by_def)
      with b(1) d(2) False show ?thesis unfolding run fresh(3)
        by (intro record_step_ok [where m = m, OF _ _ _ _ refl]) simp_all
    qed
  qed
qed

text \<open>A step that changes the recorder only, and keeps what holds numbers apart.\<close>

lemma recorder_step_ok:
  assumes ok: "rec_ok (m, w)" and st: "staging_ok m (rc_staging (f (rg_recorder w)))"
    and fl: "distinct (in_flight (m, on_recorder f w))" "set (in_flight (m, on_recorder f w)) \<subseteq> set (in_flight (m, w))"
  shows "rec_ok (m, on_recorder f w)"
  using rec_okD [OF ok] assms by (intro rec_okI) (auto simp: on_recorder_def)

lemma same_staging_ok:
  assumes ok: "rec_ok (m, w)" and f: "rc_staging (f (rg_recorder w)) = rc_staging (rg_recorder w)"
    "waiting_ops (f (rg_recorder w)) = waiting_ops (rg_recorder w)"
  shows "rec_ok (m, on_recorder f w)"
proof -
  have "in_flight (m, on_recorder f w) = in_flight (m, w)"
    using f by (simp add: in_flight_eq on_recorder_def held_def records_are_discarded_def)
  then show ?thesis using rec_okD [OF ok] f(1) by (intro recorder_step_ok [OF ok]) simp_all
qed

lemma window_steps_ok:
  assumes ok: "rec_ok (m, w)"
  shows "rec_ok (m, on_recorder begin_pending w)"
    and "records_are_discarded (rg_recorder w) \<longrightarrow> 1 < st_depth (rc_staging (rg_recorder w)) \<Longrightarrow> rec_ok (m, on_recorder (commit_pending fs) w)"
    and "records_are_discarded (rg_recorder w) \<longrightarrow> 1 < st_depth (rc_staging (rg_recorder w)) \<Longrightarrow> rec_ok (m, on_recorder abort_pending w)"
proof -
  let ?r = "rg_recorder w"
  note d = rec_okD [OF ok]
  show "rec_ok (m, on_recorder begin_pending w)"
  proof (rule recorder_step_ok [OF ok])
    show "staging_ok m (rc_staging (begin_pending ?r))"
      using d(2) by (auto simp: staging_ok_def begin_pending_def update_staging_def saturating_inc_def)
    have "in_flight (m, on_recorder begin_pending w) = in_flight (m, w)"
      by (simp add: in_flight_eq on_recorder_def held_def records_are_discarded_def begin_pending_def update_staging_def)
    with d(3) show "distinct (in_flight (m, on_recorder begin_pending w))"
      "set (in_flight (m, on_recorder begin_pending w)) \<subseteq> set (in_flight (m, w))" by simp_all
  qed
  assume g: "records_are_discarded ?r \<longrightarrow> 1 < st_depth (rc_staging ?r)"
  show "rec_ok (m, on_recorder abort_pending w)"
  proof (rule recorder_step_ok [OF ok])
    show "staging_ok m (rc_staging (abort_pending ?r))"
      using d(2) g by (auto simp: staging_ok_def abort_pending_def update_staging_def records_are_discarded_def)
    have "distinct (in_flight (m, on_recorder abort_pending w)) \<and>
        set (in_flight (m, on_recorder abort_pending w)) \<subseteq> set (in_flight (m, w))"
      using d(3) by (auto simp: in_flight_eq on_recorder_def held_def records_are_discarded_def abort_pending_def update_staging_def)
    then show "distinct (in_flight (m, on_recorder abort_pending w))"
      "set (in_flight (m, on_recorder abort_pending w)) \<subseteq> set (in_flight (m, w))" by simp_all
  qed
  show "rec_ok (m, on_recorder (commit_pending fs) w)"
  proof (cases "st_depth (rc_staging ?r) = 1")
    case False
    show ?thesis
    proof (rule recorder_step_ok [OF ok])
      show "staging_ok m (rc_staging (commit_pending fs ?r))"
        using d(2) False g by (auto simp: staging_ok_def commit_pending_def Let_def records_are_discarded_def)
      have "in_flight (m, on_recorder (commit_pending fs) w) = in_flight (m, w)"
        using False by (simp add: in_flight_eq on_recorder_def held_def records_are_discarded_def commit_pending_def Let_def)
      with d(3) show "distinct (in_flight (m, on_recorder (commit_pending fs) w))"
        "set (in_flight (m, on_recorder (commit_pending fs) w)) \<subseteq> set (in_flight (m, w))" by simp_all
    qed
  next
    case True
    with g have nd: "\<not> records_are_discarded ?r" by simp
    let ?cleared = "?r\<lparr>rc_staging := (rc_staging ?r)\<lparr>st_depth := 0, st_buffer := []\<rparr>\<rparr>"
    have r: "commit_pending fs ?r = fold (\<lambda>s r. snd (hand_over fs s r)) (st_buffer (rc_staging ?r)) ?cleared"
      using True by (simp add: commit_pending_def Let_def)
    have before: "in_flight (m, w) = opt_list (br_reserved_sequence m) @ opt_list (st_pending_sequence (rc_staging ?r)) @
        numbers_of (st_buffer (rc_staging ?r)) @ numbers_of (waiting_ops ?r)"
      using nd by (simp add: in_flight_eq held_def)
    have after: "in_flight (m, on_recorder (commit_pending fs) w) = opt_list (br_reserved_sequence m) @
        opt_list (st_pending_sequence (rc_staging ?r)) @ numbers_of (waiting_ops (commit_pending fs ?r))"
      using nd r by (simp add: in_flight_eq on_recorder_def held_def records_are_discarded_def)
    have "distinct (numbers_of (st_buffer (rc_staging ?r)) @ numbers_of (waiting_ops ?cleared))"
      using d(3) unfolding before by simp
    from waiting_hand_over_all [OF this, of fs, folded r] d(3)
    have "distinct (in_flight (m, on_recorder (commit_pending fs) w)) \<and>
        set (in_flight (m, on_recorder (commit_pending fs) w)) \<subseteq> set (in_flight (m, w))"
      unfolding before after by auto
    moreover have "staging_ok m (rc_staging (commit_pending fs ?r))"
      using d(2) nd by (simp add: r staging_ok_def records_are_discarded_def)
    ultimately show ?thesis by (intro recorder_step_ok [OF ok]) simp_all
  qed
qed

lemma scope_steps_ok:
  assumes ok: "rec_ok (m, w)" and m: "br_reserved_sequence m = None"
  shows "st_depth (rc_staging (rg_recorder w)) = 0 \<Longrightarrow> rec_ok (m, on_recorder suppress w)"
    and "st_depth (rc_staging (rg_recorder w)) = 1 \<Longrightarrow> records_are_discarded (rg_recorder w) \<Longrightarrow> rec_ok (m, on_recorder unsuppress w)"
proof -
  let ?r = "rg_recorder w"
  note d = rec_okD [OF ok]
  { assume "st_depth (rc_staging ?r) = 0"
    with d(2) have st: "st_depth (rc_staging ?r) = 0" "st_discard_depth (rc_staging ?r) = 0" "st_buffer (rc_staging ?r) = []"
      by (auto simp: staging_ok_def split: if_splits)
    show "rec_ok (m, on_recorder suppress w)"
    proof (rule recorder_step_ok [OF ok])
      show "staging_ok m (rc_staging (suppress ?r))"
        using d(2) st m by (simp add: staging_ok_def suppress_def begin_pending_def begin_discard_scope_def update_staging_def saturating_inc_def)
      have "distinct (in_flight (m, on_recorder suppress w)) \<and> set (in_flight (m, on_recorder suppress w)) \<subseteq> set (in_flight (m, w))"
        using d(3) st m by (auto simp: in_flight_eq on_recorder_def held_def records_are_discarded_def suppress_def begin_pending_def
            begin_discard_scope_def update_staging_def saturating_inc_def)
      then show "distinct (in_flight (m, on_recorder suppress w))" "set (in_flight (m, on_recorder suppress w)) \<subseteq> set (in_flight (m, w))"
        by simp_all
    qed }
  { assume "st_depth (rc_staging ?r) = 1" "records_are_discarded ?r"
    with d(2) have st: "st_depth (rc_staging ?r) = 1" "st_discard_depth (rc_staging ?r) = 1" "st_pending_sequence (rc_staging ?r) = None"
      by (auto simp: staging_ok_def records_are_discarded_def split: if_splits)
    show "rec_ok (m, on_recorder unsuppress w)"
    proof (rule recorder_step_ok [OF ok])
      show "staging_ok m (rc_staging (unsuppress ?r))"
        using d(2) st m by (simp add: staging_ok_def unsuppress_def abort_pending_def end_discard_scope_def update_staging_def)
      have "in_flight (m, on_recorder unsuppress w) = in_flight (m, w)"
        using st m by (simp add: in_flight_eq on_recorder_def held_def records_are_discarded_def unsuppress_def abort_pending_def
            end_discard_scope_def update_staging_def)
      with d(3) show "distinct (in_flight (m, on_recorder unsuppress w))" "set (in_flight (m, on_recorder unsuppress w)) \<subseteq> set (in_flight (m, w))"
        by simp_all
    qed }
qed

lemma rec_ok_forget:
  assumes ok: "rec_ok (m, w)" and m': "br_event_key m' = None" "br_reserved_sequence m' = None"
  shows "rec_ok (m', w)"
proof -
  note d = rec_okD [OF ok]
  have "distinct (in_flight (m', w)) \<and> set (in_flight (m', w)) \<subseteq> set (in_flight (m, w))"
    using d(3) m' by (auto simp: in_flight_eq)
  moreover have "staging_ok m' (rc_staging (rg_recorder w))" using d(2) m' by (auto simp: staging_ok_def)
  ultimately show ?thesis using d(1,4) by (intro rec_okI) auto
qed

section \<open>Minting\<close>

lemma minted_model:
  assumes "br_event_key m = None" "br_recorder m \<noteq> None" "reserve_key c w = (key, w')"
  shows "snd (root_seed c kp (m, w)) =
    ((case key of Some k \<Rightarrow> m\<lparr>br_reserved_sequence := seq_of_key k, br_event_key := Some k\<rparr>
      | None \<Rightarrow> m\<lparr>br_root_counter := br_root_counter m + 1\<rparr>), w')"
  using assms by (cases key) (auto simp: root_seed_def next_root_seed_def)

lemma reserve_inside:
  assumes "records_are_discarded (rg_recorder w)" and "st_scope_sequence (rc_staging (rg_recorder w)) = None"
    and "event_counter (rg_timeline w) + 1 < u64_bound"
  shows "reserve_key c w = (None, w) \<or>
    reserve_key c w = (Some (evt_key (event_counter (rg_timeline w))),
      w\<lparr>rg_recorder := (rg_recorder w)\<lparr>rc_counter_known := True,
          rc_staging := (rc_staging (rg_recorder w))\<lparr>st_scope_sequence := Some (event_counter (rg_timeline w))\<rparr>\<rparr>,
        rg_timeline := burned (rg_timeline w)\<rparr>)"
  using assms
  by (auto simp: reserve_key_def reserve_event_key_def records_are_discarded_def Let_def reserve_sequence_number_def
      wrapping_succ_no_wrap burned_def)

lemma mint_outside_ok:
  assumes ok: "rec_ok (m, w)" and m: "br_event_key m = None" and nd: "\<not> records_are_discarded (rg_recorder w)"
    and m': "br_event_key m' \<noteq> None" "br_reserved_sequence m' = Some (event_counter (rg_timeline w))"
  shows "rec_ok (m', w\<lparr>rg_recorder := (rg_recorder w)\<lparr>rc_counter_known := True\<rparr>, rg_timeline := burned (rg_timeline w)\<rparr>)"
proof -
  note d = rec_okD [OF ok] and b = burned_ok [OF rec_okD(1) [OF ok]]
  have r: "br_reserved_sequence m = None" using d(2) m by (simp add: staging_ok_def)
  have old: "in_flight (m, w) = held (rg_recorder w)" using nd r by (simp add: in_flight_eq)
  have new: "in_flight (m', w\<lparr>rg_recorder := (rg_recorder w)\<lparr>rc_counter_known := True\<rparr>, rg_timeline := burned (rg_timeline w)\<rparr>) =
      event_counter (rg_timeline w) # held (rg_recorder w)"
    using nd m'(2) by (simp add: in_flight_eq)
  show ?thesis
  proof (rule rec_okI, unfold new)
    show "distinct (event_counter (rg_timeline w) # held (rg_recorder w))" using d(3,4) b(4) old by auto
    show "staging_ok m' (rc_staging (rg_recorder (w\<lparr>rg_recorder := (rg_recorder w)\<lparr>rc_counter_known := True\<rparr>,
        rg_timeline := burned (rg_timeline w)\<rparr>)))"
      using d(2) nd m' by (simp add: staging_ok_def records_are_discarded_def)
    show "unused n (rg_timeline (w\<lparr>rg_recorder := (rg_recorder w)\<lparr>rc_counter_known := True\<rparr>, rg_timeline := burned (rg_timeline w)\<rparr>))"
      if "n \<in> set (event_counter (rg_timeline w) # held (rg_recorder w))" for n
      using that d(4) b old by auto
  qed (use b(1) in simp)
qed

lemma mint_inside_ok:
  assumes ok: "rec_ok (m, w)" and disc: "records_are_discarded (rg_recorder w)"
    and sc: "st_scope_sequence (rc_staging (rg_recorder w)) = None"
    and m': "br_event_key m' \<noteq> None" "br_reserved_sequence m' = Some (event_counter (rg_timeline w))"
  shows "rec_ok (m', w\<lparr>rg_recorder := (rg_recorder w)\<lparr>rc_counter_known := True,
          rc_staging := (rc_staging (rg_recorder w))\<lparr>st_scope_sequence := Some (event_counter (rg_timeline w))\<rparr>\<rparr>,
        rg_timeline := burned (rg_timeline w)\<rparr>)" (is "rec_ok (m', ?w)")
proof -
  note d = rec_okD [OF ok] and b = burned_ok [OF rec_okD(1) [OF ok]]
  have old: "in_flight (m, w) = numbers_of (waiting_ops (rg_recorder w))" using disc sc by (simp add: in_flight_eq)
  have "waiting_ops (rg_recorder ?w) = waiting_ops (rg_recorder w)" by (simp add: waiting_ops_def)
  then have new: "in_flight (m', ?w) = event_counter (rg_timeline w) # in_flight (m, w)"
    using disc unfolding old by (simp add: in_flight_eq records_are_discarded_def)
  show ?thesis
  proof (rule rec_okI, unfold new)
    show "distinct (event_counter (rg_timeline w) # in_flight (m, w))" using d(3,4) b(4) by auto
    show "staging_ok m' (rc_staging (rg_recorder ?w))"
      using d(2) disc m' by (simp add: staging_ok_def records_are_discarded_def split: if_splits)
    show "unused n (rg_timeline ?w)" if "n \<in> set (event_counter (rg_timeline w) # in_flight (m, w))" for n
      using that d(4) b by auto
  qed (use b(1) in simp)
qed

lemma mint_step_ok:
  assumes ok: "rec_ok (m, w)" and c: "event_counter (rg_timeline w) + 1 < u64_bound"
  shows "rec_ok (snd (root_seed c' kp (m, w)))"
proof (cases "br_event_key m = None \<and> br_recorder m \<noteq> None")
  case False
  then show ?thesis
    using ok rec_ok_model [OF ok, of "m\<lparr>br_root_counter := br_root_counter m + 1\<rparr>"]
    by (auto simp: root_seed_def next_root_seed_def split: option.split)
next
  case True
  let ?r = "rg_recorder w"
  let ?n = "event_counter (rg_timeline w)"
  note d = rec_okD [OF ok]
  have key: "seq_of_key (evt_key ?n) = Some ?n" using c by (simp add: seq_of_evt_key)
  have refused: "rec_ok (snd (root_seed c' kp (m, w)))" if "reserve_key c' w = (None, w)"
    using minted_model [OF _ _ that, of m kp] True rec_ok_model [OF ok, of "m\<lparr>br_root_counter := br_root_counter m + 1\<rparr>"] by simp
  consider (outside) "\<not> records_are_discarded ?r" | (first) "records_are_discarded ?r" "st_scope_sequence (rc_staging ?r) = None"
    | (again) n where "records_are_discarded ?r" "st_scope_sequence (rc_staging ?r) = Some n" by blast
  then show ?thesis
  proof cases
    case outside
    show ?thesis
    proof (cases "reserve_key c' w = (None, w)")
      case False
      with reserve_outside [OF outside c, of c'] show ?thesis
        using minted_model [of m c' w _ _ kp] True key by (auto intro!: mint_outside_ok [OF ok _ outside])
    qed (rule refused)
  next
    case first
    show ?thesis
    proof (cases "reserve_key c' w = (None, w)")
      case False
      with reserve_inside [OF first c, of c'] show ?thesis
        using minted_model [of m c' w _ _ kp] True key by (auto intro!: mint_inside_ok [OF ok first])
    qed (rule refused)
  next
    case (again n)
    have "n \<in> set (in_flight (m, w))" using again by (simp add: in_flight_eq)
    with d(4) have "unused n (rg_timeline w)" by blast
    with c have n: "seq_of_key (evt_key n) = Some n" by (intro seq_of_evt_key) (simp add: unused_def)
    let ?m = "m\<lparr>br_reserved_sequence := Some n, br_event_key := Some (evt_key n)\<rparr>"
    have "snd (root_seed c' kp (m, w)) = (?m, w)"
      using minted_model [of m c' w "Some (evt_key n)" w kp] reserve_again [of w n c'] again True n
      by (simp add: records_are_discarded_def)
    moreover have "in_flight (?m, w) = in_flight (m, w)" using again by (simp add: in_flight_eq)
    moreover have "staging_ok ?m (rc_staging ?r)"
      using d(2) again by (simp add: staging_ok_def records_are_discarded_def split: if_splits)
    ultimately show ?thesis using d by (auto intro: rec_okI)
  qed
qed

section \<open>The worker and other records\<close>

lemma own_step_ok:
  assumes ok: "rec_ok (m, w)" and op: "ro_reserved op = None"
  shows "rec_ok (m, on_recorder (\<lambda>r. snd (record_op fs sc ack op r)) w)"
proof (rule recorder_step_ok [OF ok])
  let ?r = "rg_recorder w" and ?r' = "snd (record_op fs sc ack op (rg_recorder w))"
  note d = rec_okD [OF ok]
  show "staging_ok m (rc_staging ?r')" using d(2) by (auto simp: staging_ok_def staging_record)
  have disc: "records_are_discarded ?r' = records_are_discarded ?r" by (simp add: records_are_discarded_def staging_record)
  have "distinct (in_flight (m, on_recorder (\<lambda>r. snd (record_op fs sc ack op r)) w)) \<and>
      set (in_flight (m, on_recorder (\<lambda>r. snd (record_op fs sc ack op r)) w)) \<subseteq> set (in_flight (m, w))"
  proof (cases "records_are_discarded ?r")
    case True
    with d(2) have "0 < st_depth (rc_staging ?r)" by (simp add: staging_ok_def records_are_discarded_def split: if_splits)
    with True d(3) show ?thesis by (simp add: in_flight_eq on_recorder_def disc) (simp add: staging_record waiting_record_inside)
  next
    case False
    have "taken_by op ?r = st_pending_sequence (rc_staging ?r)" using op by (simp add: taken_by_def)
    with held_record [of ?r op fs sc ack] d(2,3) False
    have "distinct (held ?r') \<and> set (held ?r') \<subseteq> set (held ?r)"
      by (simp add: in_flight_eq held_def staging_ok_def)
    with d(3) False show ?thesis by (auto simp: in_flight_eq on_recorder_def disc)
  qed
  then show "distinct (in_flight (m, on_recorder (\<lambda>r. snd (record_op fs sc ack op r)) w))"
    "set (in_flight (m, on_recorder (\<lambda>r. snd (record_op fs sc ack op r)) w)) \<subseteq> set (in_flight (m, w))" by simp_all
qed

lemma drain_op_effects:
  "rg_timeline (drain_op fs pu env s w) = snd (append_internal pu (de_event_id env) (de_now env)
     (to_timeline_operation (so_record s)) (so_author s) (so_branch s) (ro_reserved (so_record s))
     (Option.bind (map_option from_recorded_solid (ro_certificate (so_record s))) (ser_certificate fs)) (rg_timeline w))"
  "rc_staging (rg_recorder (drain_op fs pu env s w)) = rc_staging (rg_recorder w)"
  "waiting_ops (rg_recorder (drain_op fs pu env s w)) = waiting_ops (rg_recorder w)"
  by (auto simp: drain_op_def persist_def note_failure_def waiting_ops_def split: prod.split sum.split option.split)

lemma same_numbers:
  assumes "rc_staging (rg_recorder w') = rc_staging (rg_recorder w)" "waiting_ops (rg_recorder w') = waiting_ops (rg_recorder w)"
  shows "in_flight (m, w') = in_flight (m, w)"
  using assms by (simp add: in_flight_eq held_def records_are_discarded_def)

lemma drain_step_ok:
  assumes ok: "rec_ok (m, w)" and c: "event_counter (rg_timeline w) + 1 < u64_bound"
    and e: "map_of (events (rg_timeline w)) (de_event_id env) = None"
  shows "rec_ok (m, drain fs pu env w)"
proof (cases "rc_queue (rg_recorder w)")
  case Nil
  with ok show ?thesis by (simp add: drain_def)
next
  case (Cons cmd q)
  note d = rec_okD [OF ok]
  let ?w = "w\<lparr>rg_recorder := (rg_recorder w)\<lparr>rc_queue := q\<rparr>\<rparr>"
  show ?thesis
  proof (cases cmd)
    case (Cmd_Flush taking reply)
    let ?w' = "drain_flush env taking reply ?w"
    have "waiting_ops (rg_recorder ?w) = waiting_ops (rg_recorder w)"
      using Cons Cmd_Flush by (simp add: waiting_ops_def map_filter_simps)
    moreover have "rc_staging (rg_recorder ?w') = rc_staging (rg_recorder ?w)" "waiting_ops (rg_recorder ?w') = waiting_ops (rg_recorder ?w)"
      "rg_timeline ?w' = rg_timeline w"
      by (auto simp: drain_flush_def Let_def waiting_ops_def)
    ultimately show ?thesis
      using d same_numbers [of ?w' w m] Cons Cmd_Flush by (auto simp: drain_def intro!: rec_okI)
  next
    case (Cmd_Op s)
    obtain r t' where a: "append_internal pu (de_event_id env) (de_now env) (to_timeline_operation (so_record s))
        (so_author s) (so_branch s) (ro_reserved (so_record s))
        (Option.bind (map_option from_recorded_solid (ro_certificate (so_record s))) (ser_certificate fs)) (rg_timeline w) = (r, t')"
      by fastforce
    have w': "drain fs pu env w = drain_op fs pu env s ?w" using Cons Cmd_Op by (simp add: drain_def)
    have t': "rg_timeline (drain fs pu env w) = t'" and st: "rc_staging (rg_recorder (drain fs pu env w)) = rc_staging (rg_recorder w)"
      using a by (simp_all add: w' drain_op_effects)
    have q: "waiting_ops (rg_recorder w) = s # waiting_ops (rg_recorder ?w)"
      using Cons Cmd_Op by (simp add: waiting_ops_def map_filter_simps)
    have n: "in_flight (m, drain fs pu env w) = in_flight (m, ?w)" unfolding w' by (intro same_numbers) (simp_all add: drain_op_effects)
    have set: "set (in_flight (m, w)) = set (opt_list (ro_reserved (so_record s))) \<union> set (in_flight (m, ?w))"
      and dist: "distinct (opt_list (ro_reserved (so_record s)) @ in_flight (m, ?w))"
      using d(3) q by (auto simp: in_flight_eq held_def records_are_discarded_def)
    have res: "ro_reserved (so_record s) = Some n \<Longrightarrow> unused n (rg_timeline w)" for n using d(4) set by simp
    note keep = append_keeps_unused [OF d(1) e c res a]
    show ?thesis
    proof (rule rec_okI, unfold n)
      show "tl_ok (rg_timeline (drain fs pu env w))" using keep(1) by (simp add: t')
      show "staging_ok m (rc_staging (rg_recorder (drain fs pu env w)))" using d(2) by (simp add: st)
      show "distinct (in_flight (m, ?w))" using dist by simp
      show "unused k (rg_timeline (drain fs pu env w))" if "k \<in> set (in_flight (m, ?w))" for k
      proof -
        have "ro_reserved (so_record s) \<noteq> Some k" using that dist by auto
        with keep(2) [of k] that d(4) [of k] set show ?thesis by (simp add: t')
      qed
    qed
  qed
qed

section \<open>The invariant\<close>

definition rec_init :: "'g recorded_model \<Rightarrow> bool" where
  "rec_init mw \<longleftrightarrow> br_event_key (fst mw) = None \<and> br_reserved_sequence (fst mw) = None \<and>
     rc_staging (rg_recorder (snd mw)) = no_staging \<and> rc_queue (rg_recorder (snd mw)) = [] \<and>
     reachable tl_init tl_step (rg_timeline (snd mw))"

lemma rec_init_ok: "rec_init mw \<Longrightarrow> rec_ok mw"
  using tls.reachable_inv by (cases mw) (auto simp: rec_init_def rec_ok_def staging_ok_def no_staging_def in_flight_def
      waiting_ops_def map_filter_simps)

lemma via_recorder_ok:
  assumes "rec_ok mw" and "\<And>m w. rec_ok (m, w) \<Longrightarrow> mw = (m, w) \<Longrightarrow> rec_ok (m, on_recorder f w)"
  shows "rec_ok (via_recorder f mw)"
  using assms by (cases mw) (simp add: via_recorder_def)

lemma rec_step_ok: "rec_step fs pu kh mw mw' \<Longrightarrow> rec_ok mw \<Longrightarrow> rec_ok mw'"
proof (induction rule: rec_step.induct)
  case (mint_step mw c kp seed mw')
  then show ?case using mint_step_ok [of "fst mw" "snd mw" c kp] by simp
next
  case (note_step mw sc ack c op)
  then show ?case using note_step_ok [of "fst mw" "snd mw"] by simp
next
  case (commit_step mw)
  then show ?case unfolding commit_pending_record_def by (intro via_recorder_ok) (auto intro: window_steps_ok)
next
  case (abort_step mw)
  have "rec_ok (via_recorder abort_pending mw)" using abort_step by (intro via_recorder_ok) (auto intro: window_steps_ok)
  then show ?case unfolding abort_pending_record_def
    by (cases "via_recorder abort_pending mw") (auto intro: rec_ok_forget)
next
  case (begin_step mw)
  then show ?case unfolding begin_pending_record_def by (intro via_recorder_ok) (auto intro: window_steps_ok)
next
  case (ask_step m w taking reply)
  then show ?case by (rule same_staging_ok) (simp_all add: barrier_def waiting_ops_def map_filter_def)
next
  case (retarget_step m w b)
  then show ?case by (rule same_staging_ok) (simp_all add: set_branch_id_def waiting_ops_def)
next
  case (take_step m w)
  then show ?case by (rule same_staging_ok) (simp_all add: take_failures_def)
next
  case (timeline_step w t m)
  have "in_flight (m, w\<lparr>rg_timeline := t\<rparr>) = in_flight (m, w)" by (rule same_numbers) simp_all
  with timeline_step rec_okD [of m w] tl_step_ok show ?case by (auto simp: list_all_iff intro!: rec_okI)
qed (simp_all add: own_step_ok scope_steps_ok drain_step_ok)

interpretation rls: safe_system rec_init "rec_step fs pu kh" rec_ok for fs pu kh
  by unfold_locales (auto intro: rec_init_ok rec_step_ok)


definition sample_minted :: "unit recorded_model" where
  "sample_minted = snd (root_seed False ''Box'' (inch_model, sample_recording))"

definition sample_noted :: "unit recorded_model" where
  "sample_noted = kernel_record plain_serde sample_hooks no_scope False False (new_operation ''create_box'') sample_minted"

lemma sample_start: "reachable tl_init tl_step (new_timeline 0)"
  by (rule start) (auto simp: tl_init_def)

lemma sample_minted_eq:
  "sample_minted = (inch_model\<lparr>br_reserved_sequence := Some 0, br_event_key := Some (evt_key 0)\<rparr>,
     sample_recording\<lparr>rg_timeline := burned (new_timeline 0)\<rparr>)"
proof -
  have "reserve_key False sample_recording = (Some (evt_key 0), sample_recording\<lparr>rg_timeline := burned (new_timeline 0)\<rparr>)"
    by (simp add: reserve_key_def reserve_event_key_def sample_recording_def sample_recorder_def new_with_sink_def recorder_with_def
        no_staging_def reserve_sequence_number_def burned_def wrapping_succ_def u64_bound_def new_timeline_def Let_def)
  from minted_model [OF _ _ this, of inch_model "''Box''"] show ?thesis
    by (simp add: sample_minted_def sample_simps seq_of_evt_key u64_bound_def)
qed

lemma sample_noted_reachable: "reachable rec_init (rec_step plain_serde (\<lambda>_. None) sample_hooks) sample_noted"
proof -
  have t: "event_counter (rg_timeline (snd (inch_model, sample_recording))) + 1 < u64_bound"
    by (simp add: sample_inside u64_bound_def)
  have "rec_init (inch_model, sample_recording)"
    by (simp add: rec_init_def sample_start sample_simps sample_recording_def sample_recorder_def new_with_sink_def recorder_with_def)
  then have 0: "reachable rec_init (rec_step plain_serde (\<lambda>_. None) sample_hooks) (inch_model, sample_recording)" by (rule start)
  have 1: "reachable rec_init (rec_step plain_serde (\<lambda>_. None) sample_hooks) sample_minted"
    unfolding sample_minted_def by (rule next_state [OF 0 mint_step [OF t prod.collapse [symmetric]]])
  have "event_counter (rg_timeline (snd sample_minted)) + 1 < u64_bound"
    by (simp add: sample_minted_eq burned_def new_timeline_def u64_bound_def)
  then show ?thesis unfolding sample_noted_def by (intro next_state [OF 1 note_step])
qed

lemma sample_noted_eq:
  "\<exists>m s. sample_noted = (m, sample_recording\<lparr>rg_timeline := burned (new_timeline 0),
     rg_recorder := (rg_recorder sample_recording)\<lparr>rc_queue := [Cmd_Op s]\<rparr>\<rparr>) \<and> ro_reserved (so_record s) = Some 0 \<and>
     br_reserved_sequence m = None"
proof -
  have rec: "br_recorder (fst sample_minted) = Some 1" by (simp add: sample_minted_eq sample_simps)
  have seq: "sequence_for False (Some 0) (snd sample_minted) = (Some 0, snd sample_minted)" by (simp add: sequence_for_def)
  obtain op where op: "ro_reserved op = Some 0" "sample_noted =
      ((invalidate_named sample_hooks (new_operation ''create_box'') (fst sample_minted))\<lparr>br_reserved_sequence := None, br_event_key := None\<rparr>,
       on_recorder (\<lambda>r. snd (record_op plain_serde no_scope False op r)) (snd sample_minted))"
    using kernel_record_eq [OF rec, of False "snd sample_minted" "Some 0" "snd sample_minted" plain_serde sample_hooks no_scope False "new_operation ''create_box''"] seq
    by (auto simp: sample_noted_def sample_minted_eq)
  have "\<exists>s. snd (record_op plain_serde no_scope False op (rg_recorder sample_recording)) =
      (rg_recorder sample_recording)\<lparr>rc_queue := [Cmd_Op s]\<rparr> \<and> ro_reserved (so_record s) = Some 0"
    using op(1) by (simp add: record_op_def Let_def hand_over_def try_send_def sample_recording_def sample_recorder_def new_with_sink_def
        recorder_with_def no_staging_def RECORDER_CHANNEL_CAPACITY_def claim_sequence_def)
  then show ?thesis by (auto simp: op(2) on_recorder_def sample_minted_eq)
qed


end
