(* ===== verification/Spec2Isabelle.thy ===== *)
theory Spec2Isabelle
  imports Timeline_Conflict_Props Verdict_Props Ros_Props
    Sketch_Components_Props Sketch_Store_Props Sketch_Conflicts_Props Sketch_Plan_Props
    Api_Tx_Props Mould_Props Assembly_Results Bounded_Exec_Props
    Recorder_Log
begin

text \<open>
  Roshera CAD: the backend under \<^verbatim>\<open>src/roshera-backend\<close>, in Rust. Every model below is a function
  over explicit states, translated from the code it names; every failure of the code is a value
  \<open>Err\<close> of the sum type \<open>result\<close> of \<open>Prelude\<close>.

  The program. A design is a timeline of recorded operations (\<^verbatim>\<open>timeline-engine\<close>): events are appended
  to branches, branches are forked, merged, truncated and abandoned, sessions walk them with undo and
  redo, and the geometry kernel is rebuilt by replaying a branch. Events refer to kernel objects by
  references (\<^verbatim>\<open>kernel_ref.rs\<close>). Several agents agree on which proposal is recorded through rooms with
  a voting policy (\<^verbatim>\<open>verdict-harness\<close>), whose verdicts become commits to a branch. A finished
  design leaves the system as a \<^verbatim>\<open>.ros\<close> file (\<^verbatim>\<open>ros-format\<close>, written and audited by
  \<^verbatim>\<open>export-engine/src/formats/ros.rs\<close>): a header, chunks, an index of the chunks and perhaps a
  signature over all of it. Sketches are sets of 2D entities under constraints
  (\<^verbatim>\<open>geometry-engine/src/sketch2d\<close>): the solver works on numbers, what decides which constraints it gets
  and how they are grouped is discrete and modelled here.

  The theories, in the order of their imports.

  \<^item> \<open>Prelude\<close>: results, maps as association lists (\<^verbatim>\<open>DashMap\<close>, whose iteration order is unspecified,
    and \<^verbatim>\<open>BTreeMap\<close>, kept sorted), bytes and their little- and big-endian values, lists.
  \<^item> \<open>Timeline_Types\<close>: \<^verbatim>\<open>types.rs\<close> and \<^verbatim>\<open>error.rs\<close> of \<^verbatim>\<open>timeline-engine\<close>. Floating point values,
    timestamps and JSON numbers are data that no operation here computes with.
  \<^item> \<open>Kernel_Ref\<close>: \<^verbatim>\<open>kernel_ref.rs\<close>: identifiers with the kernel's magic, the wire form of references and
    its parser, the projection of a recorded envelope. Codec lemmas and the partition into channels.
  \<^item> \<open>Timeline_State\<close>, \<open>Timeline_Truncate\<close>, \<open>Timeline_Merge\<close>, \<open>Timeline_Validate\<close>: \<^verbatim>\<open>timeline.rs\<close>. The state
    is the record \<open>timeline\<close> with one field per map of the struct; the operations are, in turn, branches,
    sessions, applied heads and checkpoints; appends, redo tails, truncates and rehydration; merges,
    previews and the classification of conflicts (with \<^verbatim>\<open>branch/merge.rs\<close>); the consistency check.
    The code takes the locks of several maps one after the other: here an operation is one step, and
    what interleaves inside an operation is not modelled.
  \<^item> \<open>Timeline_Inv\<close>, \<open>Timeline_Reach\<close>: the invariant \<open>core_ok\<close>, that every operation preserves it,
    and the step relation of the live operations. The guard of the walk over ancestors is
    8192 in the code; 4095 branches suffice to stay below it, which \<open>Timeline_Reach\<close> uses.
  \<^item> \<open>Timeline_Props\<close>, \<open>Timeline_Session_Props\<close>, \<open>Timeline_Merge_Props\<close>, \<open>Timeline_Conflict_Props\<close>: the
    properties of all that.
  \<^item> \<open>Verdict\<close>, \<open>Verdict_Room\<close>, \<open>Verdict_Props\<close>: \<^verbatim>\<open>types.rs\<close>, \<^verbatim>\<open>resolver.rs\<close> and \<^verbatim>\<open>room.rs\<close> of
    \<^verbatim>\<open>verdict-harness\<close>. The policies share the contract \<open>verdict_resolver\<close>; a room is a record stepped by
    \<open>propose\<close>, \<open>vote_on\<close> and \<open>tick\<close>. Identifiers are drawn by the environment and are arguments.
  \<^item> \<open>Ros_Codec\<close>, \<open>Ros_Header\<close>, \<open>Ros_Chunk\<close>, \<open>Ros_Merkle\<close>: \<^verbatim>\<open>header.rs\<close>, \<^verbatim>\<open>chunk.rs\<close> and \<^verbatim>\<open>merkle.rs\<close> of
    \<^verbatim>\<open>ros-format\<close>. Readers and writers satisfy the contracts \<open>decoder\<close> and \<open>codec\<close>. Fields are words of
    their width and additions wrap where the code does not check them.
  \<^item> \<open>Ros_File\<close>, \<open>Ros_Audit\<close>, \<open>Ros_Roundtrip\<close>, \<open>Ros_Props\<close>: writing, signing and auditing a file, what the
    audit's checks give together, that what is written passes them, and the properties.

  \<^item> \<open>Union_Find\<close>: the three union-find structures of the program against the contracts \<open>disjoint_sets\<close>
    and \<open>union_find\<close>, of which the second extends the first.
  \<^item> \<open>F64\<close>: doubles bit for bit, as far as the sketch code computes with them.
  \<^item> \<open>Sketch_Components\<close>, \<open>Sketch_Constraints\<close>, \<open>Sketch_Store\<close>, \<open>Sketch_Conflicts\<close>: the constraint system
    of sketches, \<^verbatim>\<open>geometry-engine/src/sketch2d/decompose.rs\<close> (the split into connected components) and
    \<^verbatim>\<open>constraints.rs\<close> (the kinds of constraints with their shapes and degrees of freedom, the record
    \<open>constraint_store\<close> with its operations, the static search for contradictions). Recursions that
    follow parents are partial functions whose \<open>None\<close> is a walk without end; the properties show that it
    does not occur.
  \<^item> \<open>Sketch_Components_Props\<close>, \<open>Sketch_Store_Props\<close>, \<open>Sketch_Conflicts_Props\<close>: the split is that of the
    graph; tables of shapes and freedoms agree; the store keeps the order of insertion; the report of
    conflicts comes, in order, with every chained contradiction and, but for a named case, no other.
  \<^item> \<open>Sketch_Plan\<close>, \<open>Sketch_Plan_Props\<close>: \<^verbatim>\<open>dr_plan.rs\<close>, the order in which the solver places the entities of a
    component and what is left free. The state of the search is the record \<open>discovery\<close>; its two loops
    (growing clusters, placing) are functions with proved measures. A plan is complete and every step
    consumes what it must; the analysis accounts for every degree of freedom.

  \<^item> \<open>Api_Error\<close>, \<open>Idempotency\<close>, \<open>Solid_Store\<close>, \<open>Api_Tx\<close>: how requests reach the kernel,
    \<^verbatim>\<open>api-server/src\<close>: the catalog of errors (\<^verbatim>\<open>error_catalog.rs\<close>), the layer that answers a retried
    command from a store (\<^verbatim>\<open>idempotency.rs\<close>), the solids of a model (\<^verbatim>\<open>primitives/solid.rs\<close> of the
    kernel), transactions, parts and the handlers over them (\<^verbatim>\<open>transactions.rs\<close>, \<^verbatim>\<open>part_mgr.rs\<close> and a part of
    \<^verbatim>\<open>main.rs\<close>). A handler is a function of a request and a state. Handlers are awaited: the layer is
    also given as a step relation whose calls overlap, and creating geometry in the pieces between which
    others run.
  \<^item> \<open>Idempotency_Props\<close>, \<open>Api_Tx_Props\<close>: a command is run once and the store is bounded; a rollback undoes
    a transaction on the model it was made in; what goes wrong when calls overlap or models are mixed.

  \<^item> \<open>Mould\<close>, \<open>Mould_Props\<close>: edits of parameters, \<^verbatim>\<open>timeline-engine/src/mould.rs\<close>. The log is folded into the
    edits in force, which rewrite the payload of an event on its way into replay. One after the other
    they are one simultaneous substitution, and an appended edit sets exactly its target.
  \<^item> \<open>Assembly_Doc\<close>, \<open>Assembly_Replay\<close>, \<open>Assembly_Api\<close>: assemblies of positioned instances. The document
    with its connectors and mates (\<^verbatim>\<open>geometry-engine/src/assembly/instancing.rs\<close>, \<^verbatim>\<open>mates.rs\<close>), the
    replay of its events (\<^verbatim>\<open>dispatch_assembly\<close> of \<^verbatim>\<open>timeline-engine/src/replay.rs\<close>) and the routes
    that change it and record what they did (\<^verbatim>\<open>api-server/src/assembly_instances.rs\<close>,
    \<^verbatim>\<open>assembly_mates.rs\<close>), up to the view that is handed to the solver. The texts of errors are left out,
    a recorder accepts, and a name is blank when it is ASCII white space. A route is one step; the code
    records its event after it has given up the lock on the document.
  \<^item> \<open>Assembly_Props\<close>, \<open>Assembly_Replay_Props\<close>, \<open>Assembly_Results\<close>: every operation on a document satisfies
    the contract \<open>doc_op\<close>, so documents stay well-formed; a session is a sequence of calls, and
    replaying its log rebuilds its documents; the states from which no solve succeeds any more.

  \<^item> \<open>Brep_Model\<close>, \<open>Bounded_Exec\<close>, \<open>Bounded_Exec_Props\<close>: heavy operations under a time budget,
    \<^verbatim>\<open>api-server/src/bounded_exec.rs\<close>, on the kernel's model as a container
    (\<^verbatim>\<open>geometry-engine/src/primitives/topology_builder.rs\<close>, \<^verbatim>\<open>provenance.rs\<close>) and its deep copy (\<^verbatim>\<open>snapshot.rs\<close>).
    A run is a list of moves of the thread, the handler, its timer and other requests; each section
    under a lock is one move. A request that fails leaves the model alone and every request is
    answered; what a copy forgets and what reaches the log of an operation that is given up.

  \<^item> \<open>Event_Certificate\<close>: the certificate an event carries (\<^verbatim>\<open>timeline-engine/src/event_certificate.rs\<close>) and
    the verdict of the kernel it projects.
  \<^item> \<open>Recorder\<close>, \<open>Kernel_Recording\<close>: how an operation of the kernel becomes an event. The recorder with its
    channel and worker (\<^verbatim>\<open>timeline-engine/src/recorder_bridge.rs\<close>), and the calls the kernel makes on it:
    recording, root identifiers, rollback (\<^verbatim>\<open>topology_builder.rs\<close>, \<^verbatim>\<open>operations/lifecycle.rs\<close>), suppressed
    builds (\<^verbatim>\<open>api-server/src/csketch.rs\<close>). A method is one step, and so is a command the worker takes.
  \<^item> \<open>Recorder_Windows\<close>, \<open>Recorder_Scopes\<close>: nested windows against nested transactions; what a suppressed
    build leaves, and what it takes from requests that meet it. Depths of nesting saturate at 32 bits in
    the code; the properties ask for fewer windows, \<open>2 ^ 30\<close> or so.
  \<^item> \<open>Recorder_Log\<close>: the worker against the store and the failures (no operation vanishes), and recorder,
    kernel and timeline as one transition system (\<open>rec_step\<close>), whose invariant keeps reserved sequence
    numbers apart wherever they wait, so that the timeline stays consistent.

  Parameters stand for code of other packages: \<open>crc32\<close> (any function), the digests, Ed25519 and the
  encoding of the SIGN chunk (the record \<open>crypto\<close> with the documented laws \<open>crypto_ok\<close>), the parser and
  printer of UUIDs, JSON encoders, what the handlers use of the web framework (the record \<open>web\<close>), how
  a request becomes a solid (the record \<open>geometry\<close>), the derived JSON of connectors and mates (the
  record \<open>doc_serde\<close>, whose texts of identifiers are read back, \<open>uuids_read\<close>), and of the geometry and the
  solver what the assembly routes use (the record \<open>kernel\<close>); the operation that is run under a budget (\<open>bc_op\<close>) what a new
  model holds (\<open>model_seed\<close>), the derived JSON of facets (\<open>facet_serde\<close>), and what a certificate says
  (\<open>kernel_hooks\<close>). Nothing is assumed of a hash but the length of its digests; where
  a claim rests on its strength, the claim ends in an exhibited collision.

  Not modelled: the geometry kernel and everything that computes in floating point (primitives,
  booleans, blends, tessellation, numerical constraint solving, exchange formats); what is asynchronous or does
  I/O (servers, databases, logs, snapshots, caches); language model integration; the vendored agent
  and the clients in other languages.
\<close>

end
